(* ===== verification/Rounding.thy ===== *)
theory Rounding
  imports Complex_Main
begin

text \<open>
  The two inexact number systems the Python code computes in, over exact rationals.

  \<^item> \<open>float\<close> is IEEE binary64: 53 significant bits, smallest quantum \<open>2 ^ -1074\<close>, every
    basic operation correctly rounded, ties to even.
  \<^item> \<open>decimal.Decimal\<close> under the default context: 28 significant decimal digits,
    \<open>ROUND_HALF_EVEN\<close>, smallest quantum \<open>10 ^ -1000026\<close> (\<open>Etiny\<close> of the default context).

  A value of either type is a \<^typ>\<open>rat\<close>; an operation is the exact operation followed by
  one rounding.  Both roundings are the same function \<open>sig_round\<close> at different parameters,
  and both satisfy the contract of the locale \<open>rounding\<close>: monotone, idempotent, odd.
  Every proof about code that computes in floats or decimals uses that contract only.

  Not modelled: overflow to infinity (floats beyond about \<open>1.8e308\<close>), the decimal
  \<open>Overflow\<close> signal, the sign of zero, and NaN.  Code that tests for non-finite
  values has them as constructors of its own input type.
\<close>

section \<open>Rounding to the nearest integer, ties to even\<close>

definition rhe :: "rat \<Rightarrow> int" where
  "rhe x = (let f = \<lfloor>x\<rfloor>; d = x - of_int f in
     if d < 1 / 2 then f
     else if 1 / 2 < d then f + 1
     else if even f then f else f + 1)"

lemma rhe_cases: "rhe x = \<lfloor>x\<rfloor> \<or> rhe x = \<lfloor>x\<rfloor> + 1"
  by (simp add: rhe_def Let_def)

lemma rhe_of_int [simp]: "rhe (of_int k) = k"
  by (simp add: rhe_def)

lemma rhe_mono:
  assumes "x \<le> y"
  shows "rhe x \<le> rhe y"
proof (cases "\<lfloor>x\<rfloor> = \<lfloor>y\<rfloor>")
  case True
  then show ?thesis using assms by (auto simp: rhe_def Let_def)
next
  case False
  then have "\<lfloor>x\<rfloor> + 1 \<le> \<lfloor>y\<rfloor>" using floor_mono [OF assms] by simp
  then show ?thesis using rhe_cases [of x] rhe_cases [of y] by auto
qed

lemma rhe_uminus: "rhe (- x) = - rhe x"
proof (cases "x = of_int \<lfloor>x\<rfloor>")
  case True
  then show ?thesis by (metis of_int_minus rhe_of_int)
next
  case False
  have "\<lfloor>- x\<rfloor> = - \<lfloor>x\<rfloor> - 1"
    using False by (intro floor_unique) (auto, linarith+)
  then show ?thesis by (auto simp: rhe_def Let_def)
qed

lemma rhe_nonneg: "0 \<le> x \<Longrightarrow> 0 \<le> rhe x"
  using rhe_mono [of 0 x] rhe_of_int [of 0] by simp

lemma rhe_abs: "rhe \<bar>x\<bar> = \<bar>rhe x\<bar>"
  using rhe_nonneg [of x] rhe_nonneg [of "- x"] by (cases "0 \<le> x") (auto simp: rhe_uminus)

lemma rhe_dist: "\<bar>of_int (rhe x) - x\<bar> \<le> 1 / 2"
proof -
  have "of_int \<lfloor>x\<rfloor> \<le> x" "x < of_int \<lfloor>x\<rfloor> + 1" by linarith+
  then show ?thesis by (simp add: rhe_def Let_def abs_if) linarith
qed

text \<open>Rounding to a multiple of a quantum \<open>u\<close> does not cross multiples of \<open>u\<close>.\<close>

lemma rhe_quantum_le:
  assumes "0 < u" "x \<le> of_int k * u"
  shows "of_int (rhe (x / u)) * u \<le> of_int k * u"
proof -
  have "x / u \<le> of_int k" using assms by (simp add: field_simps)
  then have "rhe (x / u) \<le> k" using rhe_mono by fastforce
  then show ?thesis using assms(1) by simp
qed

lemma rhe_quantum_ge:
  assumes "0 < u" "of_int k * u \<le> x"
  shows "of_int k * u \<le> of_int (rhe (x / u)) * u"
proof -
  have "of_int k \<le> x / u" using assms by (simp add: field_simps)
  then have "k \<le> rhe (x / u)" using rhe_mono by fastforce
  then show ?thesis using assms(1) by simp
qed

section \<open>The position of the leading digit\<close>

fun ndigits :: "nat \<Rightarrow> nat \<Rightarrow> nat" where
  "ndigits b n = (if n = 0 \<or> b < 2 then 0 else Suc (ndigits b (n div b)))"

declare ndigits.simps [simp del]

lemma ndigits_pos: "2 \<le> b \<Longrightarrow> 0 < n \<Longrightarrow> 0 < ndigits b n"
  by (simp add: ndigits.simps [of b n])

lemma ndigits_upper: "2 \<le> b \<Longrightarrow> n < b ^ ndigits b n"
proof (induction b n rule: ndigits.induct)
  case (1 b n)
  show ?case
  proof (cases "n = 0")
    case True
    with "1.prems" show ?thesis by (simp add: ndigits.simps)
  next
    case False
    with 1 have "n div b < b ^ ndigits b (n div b)" by simp
    then have "n < b * b ^ ndigits b (n div b)"
      using "1.prems" by (metis div_less_iff_less_mult less_le_trans mult.commute pos2)
    with False "1.prems" show ?thesis by (simp add: ndigits.simps [of b n])
  qed
qed

lemma ndigits_lower: "2 \<le> b \<Longrightarrow> 0 < n \<Longrightarrow> b ^ (ndigits b n - 1) \<le> n"
proof (induction b n rule: ndigits.induct)
  case (1 b n)
  show ?case
  proof (cases "n div b = 0")
    case True
    with 1 show ?thesis by (simp add: ndigits.simps [of b n] ndigits.simps [of b 0])
  next
    case False
    with 1 have "b ^ (ndigits b (n div b) - 1) \<le> n div b" by simp
    then have "b * b ^ (ndigits b (n div b) - 1) \<le> b * (n div b)" by simp
    also have "\<dots> \<le> n" by (rule times_div_less_eq_dividend)
    finally have "b * b ^ (ndigits b (n div b) - 1) \<le> n" .
    moreover have "0 < ndigits b (n div b)" using False "1.prems" by (simp add: ndigits_pos)
    ultimately show ?thesis using "1.prems"
      by (simp add: ndigits.simps [of b n] flip: power_eq_if power_Suc)
  qed
qed

definition mag :: "nat \<Rightarrow> rat \<Rightarrow> int" where
  "mag b x = (if 1 \<le> x then int (ndigits b (nat \<lfloor>x\<rfloor>)) - 1
              else - int (ndigits b (nat (\<lceil>1 / x\<rceil> - 1))))"


lemma mag_bounds:
  assumes b: "2 \<le> b" and x: "0 < x"
  shows "of_nat b powi mag b x \<le> x \<and> x < of_nat b powi (mag b x + 1)"
proof (cases "1 \<le> x")
  case True
  define n where "n = nat \<lfloor>x\<rfloor>"
  have n: "0 < n" "of_nat n \<le> x" "x < of_nat n + 1"
    using True by (auto simp: n_def) linarith+
  have lo: "of_nat (b ^ (ndigits b n - 1)) \<le> x"
    using ndigits_lower [OF b n(1)] n(2) by (meson of_nat_mono order_trans)
  have "of_nat (Suc n) \<le> (of_nat (b ^ ndigits b n) :: rat)"
    using ndigits_upper [OF b, of n] by (intro of_nat_mono) (simp add: Suc_le_eq)
  then have hi: "x < of_nat (b ^ ndigits b n)" using n(3) by simp
  have m1: "mag b x + 1 = int (ndigits b n)" using True by (simp add: mag_def n_def)
  then have m: "mag b x = int (ndigits b n - 1)"
    using ndigits_pos [OF b n(1)] by linarith
  show ?thesis using lo hi unfolding m1 unfolding m
    by (simp only: power_int_of_nat of_nat_power simp_thms)
next
  case False
  define n where "n = nat (\<lceil>1 / x\<rceil> - 1)"
  have inv: "1 < 1 / x" using x False by (simp add: field_simps)
  have "1 < \<lceil>1 / x\<rceil>" using inv by linarith
  then have n: "0 < n" "of_nat n < 1 / x" "1 / x \<le> of_nat n + 1"
    by (auto simp: n_def) linarith+
  have "of_nat (b ^ (ndigits b n - 1)) < 1 / x"
    using ndigits_lower [OF b n(1)] n(2) by (meson of_nat_mono order.strict_trans1)
  then have hi: "x < 1 / of_nat (b ^ (ndigits b n - 1))"
    using x b by (simp add: field_simps)
  have "of_nat (Suc n) \<le> (of_nat (b ^ ndigits b n) :: rat)"
    using ndigits_upper [OF b, of n] by (intro of_nat_mono) (simp add: Suc_le_eq)
  then have "1 / x \<le> of_nat (b ^ ndigits b n)" using n(3) by simp
  then have lo: "1 / of_nat (b ^ ndigits b n) \<le> x"
    using x b by (simp add: field_simps)
  have m: "mag b x = - int (ndigits b n)" using False by (simp add: mag_def n_def)
  then have m1: "mag b x + 1 = - int (ndigits b n - 1)"
    using ndigits_pos [OF b n(1)] by linarith
  show ?thesis using lo hi unfolding m1 unfolding m
    by (simp only: power_int_minus power_int_of_nat of_nat_power inverse_eq_divide simp_thms)
qed

lemma powi_less_iff:
  assumes "2 \<le> b"
  shows "(of_nat b :: rat) powi i < of_nat b powi j \<longleftrightarrow> i < j"
proof -
  have "i < j \<Longrightarrow> (of_nat b :: rat) powi i < of_nat b powi j" for i j
    using assms by (intro power_int_strict_increasing) auto
  then show ?thesis by (metis linorder_neqE order.asym order.irrefl)
qed

lemma powi_le_iff:
  assumes "2 \<le> b"
  shows "(of_nat b :: rat) powi i \<le> of_nat b powi j \<longleftrightarrow> i \<le> j"
  using powi_less_iff [OF assms, of j i] by (simp add: not_less flip: not_less)

lemma mag_mono:
  assumes b: "2 \<le> b" and "0 < x" "x \<le> y"
  shows "mag b x \<le> mag b y"
proof -
  have "of_nat b powi mag b x \<le> x" "y < of_nat b powi (mag b y + 1)"
    using mag_bounds [OF b] assms by auto
  then have "(of_nat b :: rat) powi mag b x < of_nat b powi (mag b y + 1)"
    using assms by linarith
  then show ?thesis by (simp add: powi_less_iff [OF b])
qed

lemma mag_less_if_less_powi:
  assumes b: "2 \<le> b" and "0 < x" "x < of_nat b powi k"
  shows "mag b x < k"
proof -
  have "(of_nat b :: rat) powi mag b x < of_nat b powi k"
    using mag_bounds [OF b assms(2)] assms(3) by linarith
  then show ?thesis by (simp add: powi_less_iff [OF b])
qed

section \<open>Rounding to a number of significant digits\<close>

text \<open>
  \<open>quantum b p e0 x\<close> is the exponent of the last digit kept of \<open>x\<close>: \<open>p\<close> digits in base
  \<open>b\<close>, and never below \<open>e0\<close> (gradual underflow).
\<close>

definition quantum :: "nat \<Rightarrow> nat \<Rightarrow> int \<Rightarrow> rat \<Rightarrow> int" where
  "quantum b p e0 x = max (mag b x - int p + 1) e0"

definition sig_round :: "nat \<Rightarrow> nat \<Rightarrow> int \<Rightarrow> rat \<Rightarrow> rat" where
  "sig_round b p e0 x =
     (if x = 0 then 0
      else let u = of_nat b powi quantum b p e0 \<bar>x\<bar> in of_int (rhe (x / u)) * u)"

lemma sig_round_0 [simp]: "sig_round b p e0 0 = 0"
  by (simp add: sig_round_def)

lemma sig_round_uminus: "sig_round b p e0 (- x) = - sig_round b p e0 x"
  by (simp add: sig_round_def Let_def rhe_uminus flip: minus_divide_left)

lemma powi_pos: "2 \<le> b \<Longrightarrow> 0 < (of_nat b :: rat) powi k"
  by (simp add: zero_less_power_int)

lemma powi_split:
  assumes "2 \<le> b" "k \<le> j"
  shows "(of_nat b :: rat) powi j = of_int (int b ^ nat (j - k)) * of_nat b powi k"
proof -
  have "(of_nat b :: rat) powi j = of_nat b powi (j - k) * of_nat b powi k"
    using assms by (simp flip: power_int_add)
  moreover have "(of_nat b :: rat) powi (j - k) = of_nat b ^ nat (j - k)"
    using assms by (simp add: power_int_def)
  ultimately show ?thesis by simp
qed

lemma sig_round_pos_mono:
  assumes b: "2 \<le> b" and p: "1 \<le> p" and x: "0 < x" and xy: "x \<le> y"
  shows "sig_round b p e0 x \<le> sig_round b p e0 y"
proof -
  let ?B = "of_nat b :: rat"
  define qx where "qx = quantum b p e0 x"
  define qy where "qy = quantum b p e0 y"
  have y: "0 < y" using x xy by linarith
  have rx: "sig_round b p e0 x = of_int (rhe (x / ?B powi qx)) * ?B powi qx"
    and ry: "sig_round b p e0 y = of_int (rhe (y / ?B powi qy)) * ?B powi qy"
    using x y by (simp_all add: sig_round_def Let_def qx_def qy_def)
  have mag: "mag b x \<le> mag b y" by (rule mag_mono [OF b x xy])
  then have "qx \<le> qy" by (simp add: qx_def qy_def quantum_def)
  then consider "qx = qy" | "qx < qy" by linarith
  then show ?thesis
  proof cases
    case 1
    have "x / ?B powi qy \<le> y / ?B powi qy"
      using xy powi_pos [OF b, of qy] by (simp add: divide_right_mono)
    then show ?thesis using 1 powi_pos [OF b, of qy]
      by (simp add: rx ry rhe_mono)
  next
    case 2
    have qy: "qy = mag b y - int p + 1" and less: "mag b x < mag b y"
      using 2 mag by (auto simp: qx_def qy_def quantum_def)
    have le: "qx \<le> mag b y" "qy \<le> mag b y" using 2 qy p by auto
    have "x < ?B powi (mag b x + 1)" using mag_bounds [OF b x] by simp
    also have "\<dots> \<le> ?B powi mag b y" using less by (simp add: powi_le_iff [OF b])
    finally have "x \<le> ?B powi mag b y" by simp
    then have "sig_round b p e0 x \<le> ?B powi mag b y"
      unfolding rx powi_split [OF b le(1)] by (rule rhe_quantum_le [OF powi_pos [OF b]])
    also have "?B powi mag b y \<le> y" using mag_bounds [OF b y] by simp
    then have "?B powi mag b y \<le> sig_round b p e0 y"
      unfolding ry powi_split [OF b le(2)] by (rule rhe_quantum_ge [OF powi_pos [OF b]])
    finally show ?thesis .
  qed
qed

lemma sig_round_nonneg:
  assumes "2 \<le> b" "0 \<le> x"
  shows "0 \<le> sig_round b p e0 x"
proof (cases "x = 0")
  case False
  then have "0 \<le> x / of_nat b powi quantum b p e0 \<bar>x\<bar>"
    using assms powi_pos [OF assms(1)] by (simp add: less_imp_le)
  then have "0 \<le> rhe (x / of_nat b powi quantum b p e0 \<bar>x\<bar>)"
    using rhe_mono [of 0] rhe_of_int [of 0] by fastforce
  then show ?thesis using False powi_pos [OF assms(1)]
    by (simp add: sig_round_def Let_def less_imp_le)
qed simp

theorem sig_round_mono:
  assumes b: "2 \<le> b" and p: "1 \<le> p" and xy: "x \<le> y"
  shows "sig_round b p e0 x \<le> sig_round b p e0 y"
proof -
  consider "0 < x" | "y < 0" | "x \<le> 0" "0 \<le> y" by linarith
  then show ?thesis
  proof cases
    case 1
    then show ?thesis by (rule sig_round_pos_mono [OF b p _ xy])
  next
    case 2
    then have "sig_round b p e0 (- y) \<le> sig_round b p e0 (- x)"
      by (intro sig_round_pos_mono [OF b p]) (use xy in auto)
    then show ?thesis by (simp add: sig_round_uminus)
  next
    case 3
    then have "0 \<le> sig_round b p e0 (- x)" "0 \<le> sig_round b p e0 y"
      using sig_round_nonneg [OF b] by auto
    then show ?thesis by (simp add: sig_round_uminus)
  qed
qed

section \<open>Representable numbers\<close>

definition in_grid :: "nat \<Rightarrow> nat \<Rightarrow> int \<Rightarrow> rat \<Rightarrow> bool" where
  "in_grid b p e0 x \<longleftrightarrow>
     (\<exists>m k. x = of_int m * of_nat b powi k \<and> \<bar>m\<bar> \<le> int b ^ p \<and> e0 \<le> k)"

lemma in_gridI:
  "x = of_int m * of_nat b powi k \<Longrightarrow> \<bar>m\<bar> \<le> int b ^ p \<Longrightarrow> e0 \<le> k \<Longrightarrow> in_grid b p e0 x"
  by (auto simp: in_grid_def)

lemma sig_round_multiple:
  assumes b: "2 \<le> b" and x: "x \<noteq> 0" "x = of_int m * of_nat b powi k"
    and q: "quantum b p e0 \<bar>x\<bar> \<le> k"
  shows "sig_round b p e0 x = x"
proof -
  let ?q = "quantum b p e0 \<bar>x\<bar>"
  let ?j = "m * int b ^ nat (k - ?q)"
  have "x = of_int ?j * of_nat b powi ?q"
    by (subst x(2)) (simp add: powi_split [OF b q] mult.assoc)
  moreover have "(of_nat b :: rat) powi ?q \<noteq> 0"
    using powi_pos [OF b, of ?q] by (metis less_irrefl)
  ultimately have "x / of_nat b powi ?q = of_int ?j"
    by (metis nonzero_mult_div_cancel_right)
  with \<open>x = of_int ?j * of_nat b powi ?q\<close> show ?thesis
    using x(1) by (simp add: sig_round_def Let_def del: of_int_mult of_int_power)
qed

lemma sig_round_small_multiple:
  assumes b: "2 \<le> b" and x: "x = of_int m * of_nat b powi k"
    and m: "\<bar>m\<bar> < int b ^ p" and k: "e0 \<le> k"
  shows "sig_round b p e0 x = x"
proof (cases "x = 0")
  case False
  have "of_int \<bar>m\<bar> < (of_int (int b ^ p) :: rat)"
    using m by (simp only: of_int_less_iff)
  then have "\<bar>x\<bar> < of_nat b ^ p * of_nat b powi k"
    using powi_pos [OF b, of k] by (simp add: x abs_mult)
  also have "\<dots> = of_nat b powi (int p + k)"
    using b by (simp add: power_int_add)
  finally have "mag b \<bar>x\<bar> < int p + k"
    using False by (intro mag_less_if_less_powi [OF b]) auto
  then have "quantum b p e0 \<bar>x\<bar> \<le> k" using k by (simp add: quantum_def)
  then show ?thesis by (rule sig_round_multiple [OF b False x])
qed simp

theorem sig_round_grid:
  assumes b: "2 \<le> b" and p: "1 \<le> p" and x: "in_grid b p e0 x"
  shows "sig_round b p e0 x = x"
proof -
  obtain m k where m: "x = of_int m * of_nat b powi k" "\<bar>m\<bar> \<le> int b ^ p" "e0 \<le> k"
    using x by (auto simp: in_grid_def)
  show ?thesis
  proof (cases "\<bar>m\<bar> = int b ^ p")
    case True
    have bp: "int b ^ p = int b ^ (p - 1) * int b" using p by (simp flip: power_eq_if power_Suc2)
    have "m = sgn m * \<bar>m\<bar>" by (simp add: abs_sgn)
    then have "m = (sgn m * int b ^ (p - 1)) * int b" using True bp by simp
    then have "x = of_int (sgn m * int b ^ (p - 1)) * of_nat b powi (k + 1)"
      using m(1) b by (metis (no_types, lifting) mult.assoc of_int_mult of_int_of_nat_eq
          power_int_add_1' of_nat_eq_0_iff not_numeral_le_zero)
    moreover have "\<bar>sgn m * int b ^ (p - 1)\<bar> < int b ^ p"
      using b p by (auto simp: abs_mult sgn_if power_strict_increasing)
    moreover have "e0 \<le> k + 1" using m(3) by simp
    ultimately show ?thesis by (rule sig_round_small_multiple [OF b])
  next
    case False
    then show ?thesis using m by (intro sig_round_small_multiple [OF b m(1)]) auto
  qed
qed

lemma sig_round_in_grid:
  assumes b: "2 \<le> b"
  shows "in_grid b p e0 (sig_round b p e0 x)"
proof (cases "x = 0")
  case True
  then show ?thesis by (intro in_gridI [of _ 0 _ e0]) auto
next
  case False
  define q where "q = quantum b p e0 \<bar>x\<bar>"
  define m where "m = rhe (x / of_nat b powi q)"
  have "\<bar>x\<bar> < of_nat b powi (mag b \<bar>x\<bar> + 1)"
    using mag_bounds [OF b, of "\<bar>x\<bar>"] False by simp
  also have "\<dots> \<le> of_nat b powi (int p + q)"
    by (simp add: powi_le_iff [OF b] q_def quantum_def)
  also have "\<dots> = of_int (int b ^ p) * of_nat b powi q"
    using b by (simp add: power_int_add)
  finally have "\<bar>x / of_nat b powi q\<bar> < of_int (int b ^ p)"
    using powi_pos [OF b, of q] by (simp add: abs_divide field_simps)
  then have "rhe \<bar>x / of_nat b powi q\<bar> \<le> int b ^ p"
    using rhe_mono rhe_of_int by (metis less_imp_le)
  moreover have "\<bar>m\<bar> = rhe \<bar>x / of_nat b powi q\<bar>"
    by (simp add: m_def rhe_abs del: abs_divide)
  ultimately have "\<bar>m\<bar> \<le> int b ^ p" by simp
  moreover have "sig_round b p e0 x = of_int m * of_nat b powi q"
    using False by (simp add: sig_round_def Let_def m_def q_def)
  moreover have "e0 \<le> q" by (simp add: q_def quantum_def)
  ultimately show ?thesis by (blast intro: in_gridI)
qed

theorem sig_round_idem:
  "2 \<le> b \<Longrightarrow> 1 \<le> p \<Longrightarrow> sig_round b p e0 (sig_round b p e0 x) = sig_round b p e0 x"
  by (simp add: sig_round_grid sig_round_in_grid)

section \<open>The contract of a rounding\<close>

locale rounding =
  fixes rnd :: "rat \<Rightarrow> rat"
  assumes mono: "x \<le> y \<Longrightarrow> rnd x \<le> rnd y"
    and idem: "rnd (rnd x) = rnd x"
    and zero: "rnd 0 = 0"
    and uminus: "rnd (- x) = - rnd x"
begin

lemma nonneg: "0 \<le> x \<Longrightarrow> 0 \<le> rnd x"
  using mono [of 0 x] by (simp add: zero)

lemma nonpos: "x \<le> 0 \<Longrightarrow> rnd x \<le> 0"
  using mono [of x 0] by (simp add: zero)

lemma pos_arg: "0 < rnd x \<Longrightarrow> 0 < x"
  using nonpos [of x] by linarith

lemma neg_arg: "rnd x < 0 \<Longrightarrow> x < 0"
  using nonneg [of x] by linarith

text \<open>Rounding does not cross a representable number.\<close>

lemma above: "rnd c = c \<Longrightarrow> c \<le> x \<Longrightarrow> c \<le> rnd x"
  using mono [of c x] by simp

lemma below: "rnd c = c \<Longrightarrow> x \<le> c \<Longrightarrow> rnd x \<le> c"
  using mono [of x c] by simp

lemma sub_nonneg: "y \<le> x \<Longrightarrow> 0 \<le> rnd (x - y)"
  by (simp add: nonneg)

lemma add_ge: "rnd x = x \<Longrightarrow> 0 \<le> y \<Longrightarrow> x \<le> rnd (x + y)"
  by (simp add: above)

lemma sub_le: "rnd x = x \<Longrightarrow> 0 \<le> y \<Longrightarrow> rnd (x - y) \<le> x"
  by (simp add: below)

lemma add_nonneg: "0 \<le> x \<Longrightarrow> 0 \<le> y \<Longrightarrow> 0 \<le> rnd (x + y)"
  by (simp add: nonneg)

lemma mul_nonneg: "0 \<le> x \<Longrightarrow> 0 \<le> y \<Longrightarrow> 0 \<le> rnd (x * y)"
  by (simp add: nonneg)

lemma div_nonneg: "0 \<le> x \<Longrightarrow> 0 \<le> y \<Longrightarrow> 0 \<le> rnd (x / y)"
  by (simp add: nonneg)

end

lemma sig_round_rounding: "2 \<le> b \<Longrightarrow> 1 \<le> p \<Longrightarrow> rounding (sig_round b p e0)"
  by unfold_locales (simp_all add: sig_round_mono sig_round_idem sig_round_uminus)

section \<open>Python's float\<close>

definition f64 :: "rat \<Rightarrow> rat" where
  "f64 x = sig_round 2 53 (- 1074) x"

definition fadd :: "rat \<Rightarrow> rat \<Rightarrow> rat" where
  "fadd x y = f64 (x + y)"

definition fsub :: "rat \<Rightarrow> rat \<Rightarrow> rat" where
  "fsub x y = f64 (x - y)"

definition fmul :: "rat \<Rightarrow> rat \<Rightarrow> rat" where
  "fmul x y = f64 (x * y)"

text \<open>The divisor of \<open>fdiv\<close> is non-zero where the code divides; the callers test it.\<close>

definition fdiv :: "rat \<Rightarrow> rat \<Rightarrow> rat" where
  "fdiv x y = f64 (x / y)"

text \<open>An integer operand of a float operation is converted first (exactly up to \<open>2 ^ 53\<close>).\<close>

definition fint :: "int \<Rightarrow> rat" where
  "fint n = f64 (of_int n)"

text \<open>
  \<open>sum\<close> of floats, left to right from \<open>0\<close>, as in Python 3.11, the least version the project supports (later
  versions add a correction).
\<close>

definition fsum :: "rat list \<Rightarrow> rat" where
  "fsum xs = foldl fadd 0 xs"

interpretation f64: rounding f64
  unfolding f64_def by (rule sig_round_rounding) simp_all

lemmas float_op_defs = fadd_def fsub_def fmul_def fdiv_def

lemma f64_0 [simp]: "f64 0 = 0"
  by (rule f64.zero)

lemma f64_int:
  assumes "\<bar>n\<bar> \<le> 2 ^ 53"
  shows "f64 (of_int n) = of_int n"
  unfolding f64_def using assms
  by (intro sig_round_grid in_gridI [of _ n _ 0]) auto

lemma fint_exact: "\<bar>n\<bar> \<le> 2 ^ 53 \<Longrightarrow> fint n = of_int n"
  by (simp add: fint_def f64_int)

lemma f64_numeral [simp]: "(numeral k :: int) \<le> 2 ^ 53 \<Longrightarrow> f64 (numeral k) = numeral k"
  using f64_int [of "numeral k"] by simp

lemma f64_neg_numeral [simp]: "(numeral k :: int) \<le> 2 ^ 53 \<Longrightarrow> f64 (- numeral k) = - numeral k"
  by (simp add: f64.uminus)

lemma f64_1 [simp]: "f64 1 = 1"
  using f64_int [of 1] by simp

text \<open>Every result is a float, and sums and products of nonnegative floats keep their order.\<close>

lemma f64_repr [simp]:
  "f64 (fadd x y) = fadd x y" "f64 (fsub x y) = fsub x y" "f64 (fmul x y) = fmul x y"
  "f64 (fdiv x y) = fdiv x y" "f64 (fint n) = fint n" "f64 (f64 x) = f64 x"
  by (simp_all add: float_op_defs fint_def f64.idem)

lemma fadd_ge1: "f64 x = x \<Longrightarrow> 0 \<le> y \<Longrightarrow> x \<le> fadd x y"
  unfolding fadd_def by (rule f64.add_ge)

lemma fadd_ge2: "f64 y = y \<Longrightarrow> 0 \<le> x \<Longrightarrow> y \<le> fadd x y"
  unfolding fadd_def by (subst add.commute) (rule f64.add_ge)

lemma fsub_le: "f64 x = x \<Longrightarrow> 0 \<le> y \<Longrightarrow> fsub x y \<le> x"
  unfolding fsub_def by (rule f64.sub_le)

lemma float_nonneg:
  "0 \<le> x \<Longrightarrow> 0 \<le> y \<Longrightarrow> 0 \<le> fadd x y" "0 \<le> x \<Longrightarrow> 0 \<le> y \<Longrightarrow> 0 \<le> fmul x y"
  "0 \<le> x \<Longrightarrow> 0 \<le> y \<Longrightarrow> 0 \<le> fdiv x y" "y \<le> x \<Longrightarrow> 0 \<le> fsub x y"
  by (simp_all add: float_op_defs f64.nonneg)

lemma fint_nonneg: "0 \<le> n \<Longrightarrow> 0 \<le> fint n"
  by (simp add: fint_def f64.nonneg)

lemma f64_dyadic:
  assumes "\<bar>n\<bar> \<le> 2 ^ 53" "j \<le> 1074"
  shows "f64 (of_int n / 2 ^ j) = of_int n / 2 ^ j"
  unfolding f64_def
proof (rule sig_round_grid)
  show "in_grid 2 53 (- 1074) (of_int n / 2 ^ j)"
    using assms by (intro in_gridI [of _ n _ "- int j"])
      (auto simp: power_int_minus divide_inverse)
qed simp_all

lemma fsum_nonneg: "\<forall>x\<in>set xs. 0 \<le> x \<Longrightarrow> 0 \<le> fsum xs"
proof -
  have "0 \<le> a \<Longrightarrow> \<forall>x\<in>set xs. 0 \<le> x \<Longrightarrow> 0 \<le> foldl fadd a xs" for a
    by (induction xs arbitrary: a) (auto simp: fadd_def f64.add_nonneg)
  then show "\<forall>x\<in>set xs. 0 \<le> x \<Longrightarrow> 0 \<le> fsum xs" by (simp add: fsum_def)
qed

lemma fsum_ge_member:
  assumes "\<forall>x\<in>set xs. 0 \<le> x \<and> f64 x = x" "y \<in> set xs"
  shows "y \<le> fsum xs"
proof -
  have mono: "a \<le> foldl fadd a zs" if "f64 a = a" "\<forall>x\<in>set zs. 0 \<le> x" for a zs
    using that
  proof (induction zs arbitrary: a)
    case (Cons z zs)
    have "a \<le> fadd a z" using Cons.prems by (intro fadd_ge1) simp_all
    also have "\<dots> \<le> foldl fadd (fadd a z) zs" using Cons.prems by (intro Cons.IH) simp_all
    finally show ?case by simp
  qed simp
  have "y \<le> foldl fadd a zs" if "0 \<le> a" "\<forall>x\<in>set zs. 0 \<le> x \<and> f64 x = x" "y \<in> set zs" for a zs
    using that
  proof (induction zs arbitrary: a)
    case (Cons z zs)
    show ?case
    proof (cases "y = z")
      case True
      have "z \<le> fadd a z" using Cons.prems by (intro fadd_ge2) simp_all
      also have "\<dots> \<le> foldl fadd (fadd a z) zs" using Cons.prems by (intro mono) simp_all
      finally show ?thesis using True by simp
    next
      case False
      have "0 \<le> fadd a z" using Cons.prems by (intro float_nonneg) simp_all
      then show ?thesis using Cons.IH [of "fadd a z"] Cons.prems False by simp
    qed
  qed simp
  then show ?thesis using assms by (simp add: fsum_def)
qed

text \<open>A rounding errs by at most half a unit of the last place, or of the smallest one.\<close>

lemma f64_close:
  assumes "0 \<le> x"
  shows "\<bar>f64 x - x\<bar> \<le> (x + 1) / 2 ^ 53"
proof (cases "x = 0")
  case False
  then have x: "0 < x" using assms by simp
  define u :: rat where "u = 2 powi quantum 2 53 (- 1074) x"
  have u: "0 < u" by (simp add: u_def zero_less_power_int)
  have "u \<le> (x + 1) / 2 ^ 52"
  proof (cases "mag 2 x - 52 \<le> - 1074")
    case True
    then have "u = 2 powi (- 1074)" by (simp add: u_def quantum_def)
    also have "\<dots> \<le> 2 powi (- 52)" by (rule power_int_increasing) simp_all
    also have "\<dots> = 1 / 2 ^ 52" by (simp add: power_int_minus)
    also have "\<dots> \<le> (x + 1) / 2 ^ 52" using x by (intro divide_right_mono) simp_all
    finally show ?thesis .
  next
    case False
    then have "u = 2 powi (mag 2 x - 52)" by (simp add: u_def quantum_def)
    also have "\<dots> = 2 powi mag 2 x / 2 ^ 52" by (simp add: power_int_diff)
    also have "\<dots> \<le> x / 2 ^ 52" using mag_bounds [of 2 x] x by (simp add: divide_right_mono)
    also have "\<dots> \<le> (x + 1) / 2 ^ 52" by (simp add: divide_right_mono)
    finally show ?thesis .
  qed
  moreover have "f64 x - x = (of_int (rhe (x / u)) - x / u) * u"
    using x u by (simp add: f64_def sig_round_def u_def Let_def left_diff_distrib)
  then have "\<bar>f64 x - x\<bar> = \<bar>of_int (rhe (x / u)) - x / u\<bar> * u" using u by (simp add: abs_mult)
  moreover have "\<bar>of_int (rhe (x / u)) - x / u\<bar> * u \<le> 1 / 2 * u"
    using rhe_dist [of "x / u"] u by (intro mult_right_mono) simp_all
  ultimately show ?thesis by simp
qed simp

lemma f64_of_nat: "n \<le> 2 ^ 53 \<Longrightarrow> f64 (of_nat n) = of_nat n"
  using f64_int [of "int n"] by simp

text \<open>A sum of at most \<open>2^53\<close> floats between zero and one stays close to the exact sum.\<close>

lemma fsum_close:
  assumes "length xs + k \<le> 2 ^ 53" "\<forall>x\<in>set xs. 0 \<le> x \<and> x \<le> 1" "0 \<le> a" "a \<le> of_nat k"
  shows "\<bar>foldl fadd a xs - (a + sum_list xs)\<bar> \<le> of_nat (length xs * (length xs + k + 1)) / 2 ^ 53
     \<and> 0 \<le> foldl fadd a xs"
  using assms
proof (induction xs arbitrary: a k)
  case (Cons x xs)
  let ?b = "fadd a x"
  have x: "0 \<le> x" "x \<le> 1" using Cons.prems by simp_all
  have "?b \<le> of_nat (Suc k)"
    unfolding fadd_def using Cons.prems x by (intro f64.below f64_of_nat) simp_all
  moreover have b0: "0 \<le> ?b" using Cons.prems x by (simp add: float_nonneg)
  ultimately have IH: "\<bar>foldl fadd ?b xs - (?b + sum_list xs)\<bar> \<le> of_nat (length xs * (length xs + Suc k + 1)) / 2 ^ 53"
      "0 \<le> foldl fadd ?b xs"
    using Cons.IH [of "Suc k" ?b] Cons.prems by simp_all
  have "\<bar>?b - (a + x)\<bar> \<le> (a + x + 1) / 2 ^ 53" unfolding fadd_def using Cons.prems x by (intro f64_close) simp
  also have "\<dots> \<le> of_nat (length (x # xs) + k + 1) / 2 ^ 53" using Cons.prems x by (intro divide_right_mono) simp_all
  finally have "\<bar>foldl fadd ?b xs - (a + (x + sum_list xs))\<bar>
      \<le> of_nat (length xs * (length xs + Suc k + 1)) / 2 ^ 53 + of_nat (length (x # xs) + k + 1) / 2 ^ 53"
    using IH(1) by linarith
  also have "\<dots> = of_nat (length xs * (length xs + Suc k + 1) + (length (x # xs) + k + 1)) / 2 ^ 53"
    by (simp only: add_divide_distrib of_nat_add)
  also have "length xs * (length xs + Suc k + 1) + (length (x # xs) + k + 1) = length (x # xs) * (length (x # xs) + k + 1)"
    by simp
  finally show ?case using IH(2) by simp
qed simp

section \<open>Python's Decimal\<close>

definition dec28 :: "rat \<Rightarrow> rat" where
  "dec28 x = sig_round 10 28 (- 1000026) x"

definition dadd :: "rat \<Rightarrow> rat \<Rightarrow> rat" where
  "dadd x y = dec28 (x + y)"

definition dsub :: "rat \<Rightarrow> rat \<Rightarrow> rat" where
  "dsub x y = dec28 (x - y)"

definition dmul :: "rat \<Rightarrow> rat \<Rightarrow> rat" where
  "dmul x y = dec28 (x * y)"

definition ddiv :: "rat \<Rightarrow> rat \<Rightarrow> rat" where
  "ddiv x y = dec28 (x / y)"

text \<open>
  \<open>x.quantize(Decimal(1).scaleb(-k))\<close>: round to \<open>k\<close> decimal places, ties to even; the
  \<open>InvalidOperation\<close> signal when the result needs more than 28 digits is \<open>None\<close>.
\<close>

definition quantize :: "nat \<Rightarrow> rat \<Rightarrow> rat option" where
  "quantize k x = (let m = rhe (x * 10 ^ k) in
     if 10 ^ 28 \<le> \<bar>m\<bar> then None else Some (of_int m / 10 ^ k))"

interpretation dec: rounding dec28
  unfolding dec28_def by (rule sig_round_rounding) simp_all

lemmas dec_op_defs = dadd_def dsub_def dmul_def ddiv_def

lemma dec28_0 [simp]: "dec28 0 = 0"
  by (rule dec.zero)

text \<open>Decimals of at most 28 digits are exact.\<close>

lemma dec28_places:
  assumes "\<bar>n\<bar> \<le> 10 ^ 28" "j \<le> 1000026"
  shows "dec28 (of_int n / 10 ^ j) = of_int n / 10 ^ j"
  unfolding dec28_def
proof (rule sig_round_grid)
  show "in_grid 10 28 (- 1000026) (of_int n / 10 ^ j)"
    using assms by (intro in_gridI [of _ n _ "- int j"])
      (auto simp: power_int_minus divide_inverse)
qed simp_all

lemma dec28_int: "\<bar>n\<bar> \<le> 10 ^ 28 \<Longrightarrow> dec28 (of_int n) = of_int n"
  using dec28_places [of n 0] by simp

lemma dec28_numeral [simp]: "(numeral k :: int) \<le> 10 ^ 28 \<Longrightarrow> dec28 (numeral k) = numeral k"
  using dec28_int [of "numeral k"] by simp

lemma dec28_neg_numeral [simp]:
  "(numeral k :: int) \<le> 10 ^ 28 \<Longrightarrow> dec28 (- numeral k) = - numeral k"
  by (simp add: dec.uminus)

lemma dec28_1 [simp]: "dec28 1 = 1"
  using dec28_int [of 1] by simp

text \<open>Away from the smallest exponents a decimal operation is exact up to half a unit of the last digit.\<close>

lemma dec28_rel:
  assumes "10 powi (- 900) \<le> x"
  shows "\<bar>dec28 x - x\<bar> \<le> x / 10 ^ 27"
proof -
  have "0 < (10::rat) powi (- 900)" by (rule zero_less_power_int) simp
  then have x: "0 < x" using assms by (rule less_le_trans)
  let ?m = "mag 10 x"
  have m: "(10::rat) powi ?m \<le> x" "x < 10 powi (?m + 1)" using mag_bounds [of 10 x] x by simp_all
  have "(10::rat) powi (- 900) < 10 powi (?m + 1)" using assms m(2) by (rule le_less_trans)
  then have "- 901 < ?m" using powi_less_iff [of 10 "- 900" "?m + 1"] by (simp only: of_nat_numeral simp_thms) simp
  then have q: "quantum 10 28 (- 1000026) x = ?m - 27" by (simp add: quantum_def)
  define u :: rat where "u = 10 powi (?m - 27)"
  have u: "0 < u" by (simp add: u_def zero_less_power_int)
  have "dec28 x = of_int (rhe (x / u)) * u"
    using x q by (simp add: dec28_def sig_round_def u_def Let_def)
  then have "dec28 x - x = (of_int (rhe (x / u)) - x / u) * u" using u by (simp add: left_diff_distrib)
  then have "\<bar>dec28 x - x\<bar> = \<bar>of_int (rhe (x / u)) - x / u\<bar> * u" using u by (simp add: abs_mult)
  also have "\<dots> \<le> 1 * u" using rhe_dist [of "x / u"] u by (intro mult_right_mono) simp_all
  also have "u = 10 powi ?m / 10 ^ 27" by (simp add: u_def power_int_diff)
  also have "1 * (10 powi ?m / 10 ^ 27) \<le> x / 10 ^ 27" using m(1) by (simp add: divide_right_mono)
  finally show ?thesis .
qed

lemma quantize_cases:
  "quantize k x = Some y \<Longrightarrow> \<exists>m. y = of_int m / 10 ^ k \<and> \<bar>m\<bar> < 10 ^ 28 \<and> m = rhe (x * 10 ^ k)"
  by (auto simp: quantize_def Let_def split: if_splits)

lemma quantize_nonneg: "quantize k x = Some y \<Longrightarrow> 0 \<le> x \<Longrightarrow> 0 \<le> y"
  by (auto dest!: quantize_cases simp: rhe_nonneg)

lemma quantize_dist:
  assumes "quantize k x = Some y"
  shows "\<bar>y - x\<bar> \<le> 1 / (2 * 10 ^ k)"
proof -
  obtain m where y: "y = of_int m / 10 ^ k" and m: "m = rhe (x * 10 ^ k)"
    using quantize_cases [OF assms] by blast
  have "y - x = (of_int m - x * 10 ^ k) / 10 ^ k" by (simp add: y field_simps)
  then have "\<bar>y - x\<bar> = \<bar>of_int m - x * 10 ^ k\<bar> / 10 ^ k" by simp
  also have "\<dots> \<le> (1 / 2) / 10 ^ k"
    using rhe_dist [of "x * 10 ^ k"] by (intro divide_right_mono) (auto simp: m)
  finally show ?thesis by simp
qed

lemma quantize_mono:
  "quantize k x = Some x' \<Longrightarrow> quantize k y = Some y' \<Longrightarrow> x \<le> y \<Longrightarrow> x' \<le> y'"
  by (auto dest!: quantize_cases simp: divide_right_mono rhe_mono)

lemma quantize_places:
  "\<bar>n\<bar> < 10 ^ 28 \<Longrightarrow> quantize k (of_int n / 10 ^ k) = Some (of_int n / 10 ^ k)"
  by (simp add: quantize_def)

lemma quantize_idem: "quantize k x = Some y \<Longrightarrow> quantize k y = Some y"
  by (auto dest!: quantize_cases simp: quantize_places)

end
