(* ===== verification/Prelude.thy ===== *)
theory Prelude
  imports Rounding "HOL-Library.AList" "HOL-Library.Multiset"
begin

text \<open>
  What the component theories share: the types of identifiers, instants and dictionaries,
  Python's string tests, stable sorting, and the \<open>named_theorems\<close> collections the proofs use.

  A Python \<open>dict\<close> is an association list with distinct keys in insertion order; assignment
  is \<^const>\<open>AList.update\<close> (an existing key keeps its place, a new one goes to the end),
  \<open>del\<close> and \<open>pop\<close> are \<^const>\<open>AList.delete\<close>, reading is \<^const>\<open>map_of\<close>.
  An aware \<open>datetime\<close> is its instant in microseconds.  A \<open>str\<close> is a list of Latin-1
  characters.
\<close>

named_theorems oms_simps "equations of the order state machine"
named_theorems dict_simps "reading a dictionary after an operation"

type_synonym ('k, 'v) dict = "('k \<times> 'v) list"
type_synonym uuid = string
type_synonym datetime = int

section \<open>Time\<close>

definition us_per_day :: int where
  "us_per_day = 86400000000"

text \<open>\<open>timedelta.days\<close> rounds towards minus infinity, as \<open>div\<close> does.\<close>

definition days_between :: "datetime \<Rightarrow> datetime \<Rightarrow> int" where
  "days_between later earlier = (later - earlier) div us_per_day"

section \<open>Strings\<close>

definition py_space :: "char \<Rightarrow> bool" where
  "py_space c = (let n = of_char c :: nat in
     9 \<le> n \<and> n \<le> 13 \<or> 28 \<le> n \<and> n \<le> 32 \<or> n = 133 \<or> n = 160)"

definition py_strip :: "string \<Rightarrow> string" where
  "py_strip s = rev (dropWhile py_space (rev (dropWhile py_space s)))"

definition upper_char :: "char \<Rightarrow> bool" where
  "upper_char c = (let n = of_char c :: nat in
     65 \<le> n \<and> n \<le> 90 \<or> 192 \<le> n \<and> n \<le> 222 \<and> n \<noteq> 215)"

definition lower_char :: "char \<Rightarrow> bool" where
  "lower_char c = (let n = of_char c :: nat in
     97 \<le> n \<and> n \<le> 122 \<or> 223 \<le> n \<and> n \<noteq> 247 \<or> n = 170 \<or> n = 181 \<or> n = 186)"

text \<open>\<open>str.islower\<close>: some cased character, and none of them upper case.\<close>

definition py_islower :: "string \<Rightarrow> bool" where
  "py_islower s = (list_ex lower_char s \<and> \<not> list_ex upper_char s)"

definition py_lower :: "string \<Rightarrow> string" where
  "py_lower s = map (\<lambda>c. if upper_char c then char_of (of_char c + 32 :: nat) else c) s"

text \<open>\<open>repr\<close> of a string of printable characters without quotes and backslashes.\<close>

definition quoted :: "string \<Rightarrow> string" where
  "quoted s = [CHR 0x27] @ s @ [CHR 0x27]"

text \<open>\<open>s.strip()\<close> is the empty string exactly when \<open>s\<close> has no visible character.\<close>

lemma dropWhile_Nil_iff: "dropWhile P xs = [] \<longleftrightarrow> list_all P xs"
  by (induction xs) auto

lemma py_strip_Nil_iff: "py_strip s = [] \<longleftrightarrow> list_all py_space s"
proof -
  have "py_strip s = [] \<longleftrightarrow> list_all py_space (dropWhile py_space s)"
    by (simp add: py_strip_def dropWhile_Nil_iff list_all_iff)
  also have "\<dots> \<longleftrightarrow> list_all py_space s"
    by (induction s) auto
  finally show ?thesis .
qed

section \<open>Dictionaries\<close>

abbreviation dict_ok :: "('k, 'v) dict \<Rightarrow> bool" where
  "dict_ok d \<equiv> distinct (map fst d)"

definition dict_values :: "('k, 'v) dict \<Rightarrow> 'v list" where
  "dict_values d = map snd d"

lemma map_of_update [simp, dict_simps]: "map_of (AList.update k v d) = (map_of d)(k \<mapsto> v)"
  by (rule update_conv')

lemma map_of_delete [simp, dict_simps]: "map_of (AList.delete k d) = (map_of d)(k := None)"
  by (rule delete_conv')

lemma dict_ok_update [intro]: "dict_ok d \<Longrightarrow> dict_ok (AList.update k v d)"
  by (rule distinct_update)

lemma dict_ok_delete [intro]: "dict_ok d \<Longrightarrow> dict_ok (AList.delete k d)"
  by (rule distinct_delete)

lemma update_fresh: "map_of d k = None \<Longrightarrow> AList.update k v d = d @ [(k, v)]"
  by (induction d) (auto split: if_splits)

lemma length_update:
  "length (AList.update k v d) = (if map_of d k = None then Suc (length d) else length d)"
  by (induction d) auto

lemma set_dict_values: "dict_ok d \<Longrightarrow> v \<in> set (dict_values d) \<longleftrightarrow> (\<exists>k. map_of d k = Some v)"
  by (auto simp: dict_values_def) (force dest: map_of_SomeD)

section \<open>Stable sorting\<close>

text \<open>
  \<open>sorted(xs, key=f)\<close> is \<^const>\<open>sort_key\<close>: stable and ascending.  With \<open>reverse=True\<close>
  Python keeps the order of equal elements, so the key is negated instead of the list reversed.
\<close>

definition sort_key_desc :: "('a \<Rightarrow> int) \<Rightarrow> 'a list \<Rightarrow> 'a list" where
  "sort_key_desc f xs = sort_key (\<lambda>x. - f x) xs"

lemma set_sort_key_desc [simp]: "set (sort_key_desc f xs) = set xs"
  by (simp add: sort_key_desc_def)

lemma mset_sort_key_desc [simp]: "mset (sort_key_desc f xs) = mset xs"
  by (simp add: sort_key_desc_def)

section \<open>Metrics\<close>

text \<open>
  The calls on the process-wide \<open>MetricsBackend\<close> that the trading core makes, with their
  tags.  A component that reports metrics appends to a trace of these.
\<close>

datatype metric =
  Counter string "(string \<times> string) list"
| Gauge string int "(string \<times> string) list"

definition metric_name :: "metric \<Rightarrow> string" where
  "metric_name m = (case m of Counter n _ \<Rightarrow> n | Gauge n _ _ \<Rightarrow> n)"

end
