(* ===== verification/Oms.thy ===== *)
theory Oms
  imports Prelude
begin

text \<open>
  The order management system, \<open>engine/core/oms\<close>: the order vocabulary and the transition
  table (\<open>states.py\<close>), the events (\<open>events.py\<close>), the order and the application of an event
  to it (\<open>order.py\<close>), and the projection of an order to its database row
  (\<open>persistence.py\<close>).

  Quantities and prices are \<open>Decimal\<close>s, so their sums, products and quotients go through
  \<open>dadd\<close>, \<open>dmul\<close> and \<open>ddiv\<close> of \<open>Rounding\<close>.  An exception is the left value of a sum.
  A reject reason is a string except where the code interpolates decimals: those
  messages are constructors of \<open>reason\<close> that hold the interpolated values.
\<close>

section \<open>States\<close>

datatype OrderSide = BUY | SELL

datatype OrderType = MARKET | LIMIT | STOP | STOP_LIMIT

datatype OrderStatus =
  NEW | SUBMITTED | ACKNOWLEDGED | PARTIALLY_FILLED | FILLED
| CANCEL_REQUESTED | CANCELLED | REJECTED | EXPIRED

fun side_value :: "OrderSide \<Rightarrow> string" where
  "side_value BUY = ''buy''"
| "side_value SELL = ''sell''"

fun type_value :: "OrderType \<Rightarrow> string" where
  "type_value MARKET = ''market''"
| "type_value LIMIT = ''limit''"
| "type_value STOP = ''stop''"
| "type_value STOP_LIMIT = ''stop_limit''"

fun status_value :: "OrderStatus \<Rightarrow> string" where
  "status_value NEW = ''new''"
| "status_value SUBMITTED = ''submitted''"
| "status_value ACKNOWLEDGED = ''acknowledged''"
| "status_value PARTIALLY_FILLED = ''partially_filled''"
| "status_value FILLED = ''filled''"
| "status_value CANCEL_REQUESTED = ''cancel_requested''"
| "status_value CANCELLED = ''cancelled''"
| "status_value REJECTED = ''rejected''"
| "status_value EXPIRED = ''expired''"

definition TERMINAL :: "OrderStatus list" where
  "TERMINAL = [FILLED, CANCELLED, REJECTED, EXPIRED]"

definition is_terminal :: "OrderStatus \<Rightarrow> bool" where
  "is_terminal st = (st \<in> set TERMINAL)"

fun VALID_TRANSITIONS :: "OrderStatus \<Rightarrow> OrderStatus list" where
  "VALID_TRANSITIONS NEW = [SUBMITTED, REJECTED, CANCELLED]"
| "VALID_TRANSITIONS SUBMITTED =
     [ACKNOWLEDGED, PARTIALLY_FILLED, FILLED, REJECTED, CANCEL_REQUESTED, CANCELLED, EXPIRED]"
| "VALID_TRANSITIONS ACKNOWLEDGED =
     [PARTIALLY_FILLED, FILLED, CANCEL_REQUESTED, CANCELLED, EXPIRED, REJECTED]"
| "VALID_TRANSITIONS PARTIALLY_FILLED =
     [PARTIALLY_FILLED, FILLED, CANCEL_REQUESTED, CANCELLED, EXPIRED]"
| "VALID_TRANSITIONS CANCEL_REQUESTED = [CANCELLED, PARTIALLY_FILLED, FILLED, REJECTED]"
| "VALID_TRANSITIONS FILLED = []"
| "VALID_TRANSITIONS CANCELLED = []"
| "VALID_TRANSITIONS REJECTED = []"
| "VALID_TRANSITIONS EXPIRED = []"

definition can_transition :: "OrderStatus \<Rightarrow> OrderStatus \<Rightarrow> bool" where
  "can_transition from_status to_status = (to_status \<in> set (VALID_TRANSITIONS from_status))"

section \<open>Events\<close>

datatype reason =
  Text string
| QuantityExceeds rat rat string
| NotionalExceeds rat rat string rat

datatype OrderEvent =
  SubmitEvent (occurred_at: datetime) (submit_id: "string option")
| AckEvent (occurred_at: datetime) (ack_id: string)
| PartialFillEvent (occurred_at: datetime) (fill_quantity: rat) (fill_price: rat) (fill_id: string)
| FillEvent (occurred_at: datetime) (fill_quantity: rat) (fill_price: rat) (fill_id: string)
| CancelEvent (occurred_at: datetime) (requested: bool) (cancel_reason: "string option")
| RejectEvent (occurred_at: datetime) (event_reason: reason)
| ExpireEvent (occurred_at: datetime)

section \<open>Orders\<close>

record Order =
  o_id :: uuid
  o_symbol :: string
  o_side :: OrderSide
  o_type :: OrderType
  o_quantity :: rat
  o_limit_price :: "rat option"
  o_stop_price :: "rat option"
  o_status :: OrderStatus
  o_filled :: rat
  o_avg_price :: "rat option"
  o_broker_id :: "string option"
  o_reject_reason :: "reason option"
  o_created_at :: datetime
  o_updated_at :: datetime

datatype oms_error =
  BadQuantity | BadLimitPrice OrderType | BadStopPrice OrderType
| IllegalTransition OrderStatus OrderStatus
| OverFill rat rat
| FillNotFinal rat rat

definition needs_limit :: "OrderType \<Rightarrow> bool" where
  "needs_limit t = (t = LIMIT \<or> t = STOP_LIMIT)"

definition needs_stop :: "OrderType \<Rightarrow> bool" where
  "needs_stop t = (t = STOP \<or> t = STOP_LIMIT)"

definition positive_price :: "rat option \<Rightarrow> bool" where
  "positive_price p = (case p of None \<Rightarrow> False | Some x \<Rightarrow> 0 < x)"

text \<open>\<open>__post_init__\<close> runs for every construction, \<open>dataclasses.replace\<close> included.\<close>

definition post_init :: "Order \<Rightarrow> oms_error + Order" where
  "post_init ord =
     (if o_quantity ord \<le> 0 then Inl BadQuantity
      else if needs_limit (o_type ord) \<and> \<not> positive_price (o_limit_price ord)
        then Inl (BadLimitPrice (o_type ord))
      else if needs_stop (o_type ord) \<and> \<not> positive_price (o_stop_price ord)
        then Inl (BadStopPrice (o_type ord))
      else Inr ord)"

definition remaining_quantity :: "Order \<Rightarrow> rat" where
  "remaining_quantity ord = dsub (o_quantity ord) (o_filled ord)"

section \<open>Applying an event\<close>

text \<open>\<open>_with_status\<close>, with the field changes as a function on the order.\<close>

definition with_status ::
  "Order \<Rightarrow> OrderStatus \<Rightarrow> OrderEvent \<Rightarrow> (Order \<Rightarrow> Order) \<Rightarrow> oms_error + Order" where
  "with_status ord new_status ev changes =
     (if \<not> can_transition (o_status ord) new_status
      then Inl (IllegalTransition (o_status ord) new_status)
      else post_init (changes (ord\<lparr>o_status := new_status, o_updated_at := occurred_at ev\<rparr>)))"

definition guard_fill :: "Order \<Rightarrow> rat \<Rightarrow> oms_error option" where
  "guard_fill ord new_filled =
     (if o_quantity ord < new_filled then Some (OverFill new_filled (o_quantity ord)) else None)"

definition next_avg :: "Order \<Rightarrow> rat \<Rightarrow> rat \<Rightarrow> rat" where
  "next_avg ord fill_qty price =
     (let prior_qty = o_filled ord;
          prior_avg = (case o_avg_price ord of None \<Rightarrow> 0 | Some a \<Rightarrow> a);
          new_qty = dadd prior_qty fill_qty
      in if new_qty = 0 then 0
         else ddiv (dadd (dmul prior_avg prior_qty) (dmul price fill_qty)) new_qty)"

text \<open>\<open>event.broker_order_id or self.broker_order_id\<close>: the empty string is false.\<close>

definition or_id :: "string option \<Rightarrow> string option \<Rightarrow> string option" where
  "or_id a b = (case a of None \<Rightarrow> b | Some s \<Rightarrow> if s = [] then b else Some s)"

fun apply_event :: "Order \<Rightarrow> OrderEvent \<Rightarrow> oms_error + Order" where
  "apply_event ord (SubmitEvent t bid) =
     with_status ord SUBMITTED (SubmitEvent t bid)
       (\<lambda>r. r\<lparr>o_broker_id := or_id bid (o_broker_id ord)\<rparr>)"
| "apply_event ord (AckEvent t bid) =
     with_status ord ACKNOWLEDGED (AckEvent t bid)
       (\<lambda>r. r\<lparr>o_broker_id := or_id (Some bid) (o_broker_id ord)\<rparr>)"
| "apply_event ord (PartialFillEvent t q p fid) =
     (let new_filled = dadd (o_filled ord) q in
      case guard_fill ord new_filled of
        Some e \<Rightarrow> Inl e
      | None \<Rightarrow>
          with_status ord (if new_filled = o_quantity ord then FILLED else PARTIALLY_FILLED)
            (PartialFillEvent t q p fid)
            (\<lambda>r. r\<lparr>o_filled := new_filled, o_avg_price := Some (next_avg ord q p)\<rparr>))"
| "apply_event ord (FillEvent t q p fid) =
     (let new_filled = dadd (o_filled ord) q in
      case guard_fill ord new_filled of
        Some e \<Rightarrow> Inl e
      | None \<Rightarrow>
          if new_filled \<noteq> o_quantity ord then Inl (FillNotFinal new_filled (o_quantity ord))
          else with_status ord FILLED (FillEvent t q p fid)
            (\<lambda>r. r\<lparr>o_filled := new_filled, o_avg_price := Some (next_avg ord q p)\<rparr>))"
| "apply_event ord (CancelEvent t rq rs) =
     with_status ord (if rq then CANCEL_REQUESTED else CANCELLED) (CancelEvent t rq rs) (\<lambda>r. r)"
| "apply_event ord (RejectEvent t rs) =
     with_status ord REJECTED (RejectEvent t rs) (\<lambda>r. r\<lparr>o_reject_reason := Some rs\<rparr>)"
| "apply_event ord (ExpireEvent t) = with_status ord EXPIRED (ExpireEvent t) (\<lambda>r. r)"

text \<open>A history: the events are applied one after the other, an exception stops the run.\<close>

fun apply_events :: "Order \<Rightarrow> OrderEvent list \<Rightarrow> oms_error + Order" where
  "apply_events ord [] = Inr ord"
| "apply_events ord (e # es) =
     (case apply_event ord e of Inl x \<Rightarrow> Inl x | Inr ord' \<Rightarrow> apply_events ord' es)"

section \<open>Projection to the database row\<close>

fun STATUS_PROJECTION :: "OrderStatus \<Rightarrow> string" where
  "STATUS_PROJECTION NEW = ''pending''"
| "STATUS_PROJECTION SUBMITTED = ''pending''"
| "STATUS_PROJECTION ACKNOWLEDGED = ''open''"
| "STATUS_PROJECTION PARTIALLY_FILLED = ''partially_filled''"
| "STATUS_PROJECTION FILLED = ''filled''"
| "STATUS_PROJECTION CANCEL_REQUESTED = ''cancel_pending''"
| "STATUS_PROJECTION CANCELLED = ''cancelled''"
| "STATUS_PROJECTION REJECTED = ''rejected''"
| "STATUS_PROJECTION EXPIRED = ''expired''"

record OrmOrder =
  orm_id :: uuid
  orm_portfolio_id :: uuid
  orm_symbol :: string
  orm_side :: string
  orm_order_type :: string
  orm_quantity :: rat
  orm_price :: "rat option"
  orm_status :: string
  orm_filled_at :: "datetime option"
  orm_created_at :: datetime

definition to_orm_dict :: "Order \<Rightarrow> uuid \<Rightarrow> OrmOrder" where
  "to_orm_dict ord pid =
     \<lparr>orm_id = o_id ord,
      orm_portfolio_id = pid,
      orm_symbol = o_symbol ord,
      orm_side = side_value (o_side ord),
      orm_order_type = type_value (o_type ord),
      orm_quantity = o_quantity ord,
      orm_price = (case o_limit_price ord of Some p \<Rightarrow> Some p | None \<Rightarrow> o_avg_price ord),
      orm_status = STATUS_PROJECTION (o_status ord),
      orm_filled_at = (if o_status ord = FILLED then Some (o_updated_at ord) else None),
      orm_created_at = o_created_at ord\<rparr>"

section \<open>Invariant and frame of an event\<close>

lemmas transition_simps = can_transition_def is_terminal_def TERMINAL_def

definition shape_ok :: "Order \<Rightarrow> bool" where
  "shape_ok ord \<longleftrightarrow> 0 < o_quantity ord
     \<and> (needs_limit (o_type ord) \<longrightarrow> positive_price (o_limit_price ord))
     \<and> (needs_stop (o_type ord) \<longrightarrow> positive_price (o_stop_price ord))"

lemma post_init_Inr [oms_simps]: "post_init ord = Inr r \<longleftrightarrow> r = ord \<and> shape_ok ord"
  by (auto simp: post_init_def shape_ok_def not_less)

lemma with_status_Inr [oms_simps]:
  "with_status ord st ev f = Inr r \<longleftrightarrow>
     can_transition (o_status ord) st
     \<and> r = f (ord\<lparr>o_status := st, o_updated_at := occurred_at ev\<rparr>) \<and> shape_ok r"
  by (auto simp: with_status_def post_init_Inr)

lemma guard_fill_None [oms_simps]: "guard_fill ord n = None \<longleftrightarrow> n \<le> o_quantity ord"
  by (auto simp: guard_fill_def)

lemma can_transition_nonterminal: "can_transition a b \<Longrightarrow> \<not> is_terminal a"
  by (cases a) (auto simp: transition_simps)

text \<open>What a fill event fills, and at what price.\<close>

definition event_fill :: "OrderEvent \<Rightarrow> (rat \<times> rat) option" where
  "event_fill e = (case e of PartialFillEvent t q p i \<Rightarrow> Some (q, p)
                           | FillEvent t q p i \<Rightarrow> Some (q, p) | _ \<Rightarrow> None)"

definition add_fill :: "rat \<Rightarrow> OrderEvent \<Rightarrow> rat" where
  "add_fill filled e = (case event_fill e of None \<Rightarrow> filled | Some (q, p) \<Rightarrow> dadd filled q)"

text \<open>The fields no event writes.\<close>

definition same_order :: "Order \<Rightarrow> Order \<Rightarrow> bool" where
  "same_order a b \<longleftrightarrow> o_id a = o_id b \<and> o_symbol a = o_symbol b \<and> o_side a = o_side b
     \<and> o_type a = o_type b \<and> o_quantity a = o_quantity b \<and> o_limit_price a = o_limit_price b
     \<and> o_stop_price a = o_stop_price b \<and> o_created_at a = o_created_at b"

lemma same_order_trans: "same_order a b \<Longrightarrow> same_order b c \<Longrightarrow> same_order a c"
  by (simp add: same_order_def)

lemma apply_event_frame:
  assumes "apply_event ord e = Inr r"
  shows "can_transition (o_status ord) (o_status r) \<and> same_order ord r \<and> shape_ok r
    \<and> o_updated_at r = occurred_at e \<and> o_filled r = add_fill (o_filled ord) e"
  using assms
  by (cases e) (auto simp: oms_simps Let_def same_order_def add_fill_def event_fill_def
      split: option.splits if_splits)

text \<open>
  The invariant of an order: its shape, the filled quantity is a decimal of the context and
  never above the order's quantity, and the order is \<open>FILLED\<close> exactly when it is complete.
\<close>

definition order_ok :: "Order \<Rightarrow> bool" where
  "order_ok ord \<longleftrightarrow> shape_ok ord \<and> dec28 (o_filled ord) = o_filled ord
     \<and> o_filled ord \<le> o_quantity ord \<and> (o_status ord = FILLED \<longleftrightarrow> o_filled ord = o_quantity ord)"

lemma dadd_repr [simp]: "dec28 (dadd x y) = dadd x y"
  by (simp add: dadd_def dec.idem)

lemma not_filled_of_transition: "can_transition st st' \<Longrightarrow> st \<noteq> FILLED"
  by (auto simp: can_transition_def)

lemma apply_event_no_fill_status:
  "apply_event ord e = Inr r \<Longrightarrow> event_fill e = None \<Longrightarrow> o_status r \<noteq> FILLED"
  by (cases e) (auto simp: oms_simps event_fill_def split: if_splits)

lemma apply_event_fill_status:
  assumes "apply_event ord e = Inr r" "event_fill e = Some (q, p)"
  shows "o_filled r \<le> o_quantity r \<and> (o_status r = FILLED \<longleftrightarrow> o_filled r = o_quantity r)
    \<and> o_avg_price r = Some (next_avg ord q p)"
  using assms
  by (cases e) (auto simp: oms_simps Let_def event_fill_def split: option.splits if_splits)

lemma apply_event_order_ok:
  assumes "order_ok ord" "apply_event ord e = Inr r"
  shows "order_ok r"
proof -
  note frame = apply_event_frame [OF assms(2)]
  show ?thesis
  proof (cases "event_fill e")
    case None
    then show ?thesis
      using frame assms(1) apply_event_no_fill_status [OF assms(2) None]
        not_filled_of_transition [of "o_status ord" "o_status r"]
      by (auto simp: order_ok_def add_fill_def same_order_def)
  next
    case (Some qp)
    obtain q p where qp: "qp = (q, p)" by (cases qp)
    have "dec28 (o_filled r) = o_filled r"
      using frame by (simp add: add_fill_def Some qp)
    then show ?thesis
      using frame apply_event_fill_status [OF assms(2), of q p] Some qp
      by (auto simp: order_ok_def)
  qed
qed

lemma apply_events_frame:
  "apply_events ord es = Inr r \<Longrightarrow>
     can_transition\<^sup>*\<^sup>* (o_status ord) (o_status r) \<and> same_order ord r
     \<and> o_filled r = foldl add_fill (o_filled ord) es"
proof (induction es arbitrary: ord)
  case Nil
  then show ?case by (simp add: same_order_def)
next
  case (Cons e es)
  then obtain m where m: "apply_event ord e = Inr m" "apply_events m es = Inr r"
    by (auto split: sum.splits)
  note frame = apply_event_frame [OF m(1)]
  show ?case using Cons.IH [OF m(2)] frame same_order_trans
    by (auto intro: converse_rtranclp_into_rtranclp)
qed

lemma apply_events_order_ok: "apply_events ord es = Inr r \<Longrightarrow> order_ok ord \<Longrightarrow> order_ok r"
proof (induction es arbitrary: ord)
  case (Cons e es)
  then obtain m where m: "apply_event ord e = Inr m" "apply_events m es = Inr r"
    by (auto split: sum.splits)
  have "order_ok m" by (rule apply_event_order_ok [OF Cons.prems(2) m(1)])
  then show ?case by (rule Cons.IH [OF m(2)])
qed simp

lemma transition_from_terminal: "is_terminal st \<Longrightarrow> \<not> can_transition st st'"
  using can_transition_nonterminal by blast

text \<open>
  C22.  Replaying a history of accepted events on a well-formed order gives a well-formed order
  with the identity, symbol, side, type, quantity and prices it started with; its status is
  reached along the edges of \<open>VALID_TRANSITIONS\<close>, and its filled quantity is the decimal sum
  of the fills of the history.
\<close>

theorem apply_events_history:
  assumes "order_ok ord" "apply_events ord es = Inr r"
  shows "order_ok r \<and> same_order ord r \<and> can_transition\<^sup>*\<^sup>* (o_status ord) (o_status r)
    \<and> o_filled r = foldl add_fill (o_filled ord) es"
  using assms apply_events_frame apply_events_order_ok by blast

definition sample_order :: "OrderStatus \<Rightarrow> Order" where
  "sample_order st = \<lparr>o_id = ''a'', o_symbol = ''X'', o_side = BUY, o_type = MARKET,
     o_quantity = 10, o_limit_price = None, o_stop_price = None, o_status = st, o_filled = 0,
     o_avg_price = None, o_broker_id = None, o_reject_reason = None,
     o_created_at = 0, o_updated_at = 0\<rparr>"

lemma sample_order_ok: "st \<noteq> FILLED \<Longrightarrow> order_ok (sample_order st)"
  by (simp add: sample_order_def order_ok_def shape_ok_def needs_limit_def needs_stop_def)

lemmas oms_eval = sample_order_def with_status_def post_init_def can_transition_def
  guard_fill_def needs_limit_def needs_stop_def next_avg_def dec_op_defs Let_def or_id_def

lemma sample_history:
  "\<exists>r. apply_events (sample_order NEW)
     [SubmitEvent 1 (Some ''b''), AckEvent 2 ''b'', PartialFillEvent 3 4 100 ''f'',
      FillEvent 4 6 110 ''g''] = Inr r \<and> o_filled r = 10 \<and> o_avg_price r = Some 106"
  by (simp add: oms_eval)

theorem apply_events_history_witness:
  "\<exists>r. order_ok r \<and> can_transition\<^sup>*\<^sup>* NEW (o_status r) \<and> o_filled r = 10"
proof -
  obtain r where r: "apply_events (sample_order NEW)
     [SubmitEvent 1 (Some ''b''), AckEvent 2 ''b'', PartialFillEvent 3 4 100 ''f'',
      FillEvent 4 6 110 ''g''] = Inr r" "o_filled r = 10"
    using sample_history by blast
  have "o_status (sample_order NEW) = NEW" by (simp add: sample_order_def)
  then show ?thesis
    using apply_events_history [OF sample_order_ok r(1)] r(2) by auto
qed

text \<open>
  Terminal statuses are final: no event of any kind is accepted by a filled, cancelled,
  rejected or expired order.
\<close>

theorem apply_event_terminal:
  assumes "is_terminal (o_status ord)"
  shows "\<exists>x. apply_event ord e = Inl x"
  using transition_from_terminal [OF assms]
  by (cases e) (auto simp: with_status_def Let_def split: option.splits)

section \<open>Fills and the average price\<close>

definition fills_nonneg :: "OrderEvent list \<Rightarrow> bool" where
  "fills_nonneg es \<longleftrightarrow> (\<forall>e\<in>set es. \<forall>q p. event_fill e = Some (q, p) \<longrightarrow> 0 \<le> q)"

lemma add_fill_mono:
  "dec28 f = f \<Longrightarrow> fills_nonneg [e] \<Longrightarrow> f \<le> add_fill f e \<and> dec28 (add_fill f e) = add_fill f e"
  by (auto simp: add_fill_def fills_nonneg_def dadd_def dec.add_ge dec.idem split: option.splits)

lemma foldl_add_fill_mono: "dec28 f = f \<Longrightarrow> fills_nonneg es \<Longrightarrow> f \<le> foldl add_fill f es"
proof (induction es arbitrary: f)
  case (Cons e es)
  then have "f \<le> add_fill f e" "dec28 (add_fill f e) = add_fill f e"
    using add_fill_mono [of f e] by (auto simp: fills_nonneg_def)
  then show ?case using Cons.IH [of "add_fill f e"] Cons.prems(2)
    by (auto simp: fills_nonneg_def intro: order_trans)
qed simp

text \<open>
  If no event reports a negative fill, the filled quantity never goes down, however many
  events arrive and however the decimal sums round; so it stays between its start and the
  order's quantity.
\<close>

theorem filled_quantity_grows:
  assumes "order_ok ord" "apply_events ord es = Inr r" "fills_nonneg es"
  shows "o_filled ord \<le> o_filled r \<and> o_filled r \<le> o_quantity ord"
proof -
  have "o_filled r = foldl add_fill (o_filled ord) es" "o_quantity r = o_quantity ord"
    using apply_events_frame [OF assms(2)] by (simp_all add: same_order_def)
  moreover have "o_filled r \<le> o_quantity r"
    using apply_events_order_ok [OF assms(2,1)] by (simp add: order_ok_def)
  ultimately show ?thesis
    using foldl_add_fill_mono assms(1,3) by (simp add: order_ok_def)
qed

text \<open>
  The notional value filled so far, and the case in which no operation of \<open>_next_avg\<close> rounds
  (the usual one: prices and quantities of a few digits).
\<close>

definition filled_notional :: "Order \<Rightarrow> rat" where
  "filled_notional ord = (case o_avg_price ord of None \<Rightarrow> 0 | Some a \<Rightarrow> a) * o_filled ord"

definition exact_fill :: "Order \<Rightarrow> rat \<Rightarrow> rat \<Rightarrow> bool" where
  "exact_fill ord q p \<longleftrightarrow>
     (let f = o_filled ord; n = filled_notional ord in
      dec28 (f + q) = f + q \<and> dec28 n = n \<and> dec28 (p * q) = p * q
      \<and> dec28 (n + p * q) = n + p * q \<and> dec28 ((n + p * q) / (f + q)) = (n + p * q) / (f + q))"

lemma next_avg_exact:
  assumes "exact_fill ord q p" "o_filled ord + q \<noteq> 0"
  shows "next_avg ord q p * dadd (o_filled ord) q = filled_notional ord + p * q"
  using assms
  by (auto simp: exact_fill_def next_avg_def filled_notional_def dec_op_defs Let_def
      split: option.splits)

text \<open>
  \<open>average_fill_price\<close> is the volume-weighted average: a fill of \<open>q\<close> at price \<open>p\<close> that an
  order accepts adds exactly \<open>p * q\<close> to \<open>average_fill_price * filled_quantity\<close>, when none of the
  decimal operations has to round.
\<close>

theorem fill_adds_notional:
  assumes "apply_event ord e = Inr r" "event_fill e = Some (q, p)"
    and "exact_fill ord q p" "o_filled ord + q \<noteq> 0"
  shows "filled_notional r = filled_notional ord + p * q"
  using apply_event_fill_status [OF assms(1,2)] apply_event_frame [OF assms(1)]
    next_avg_exact [OF assms(3,4)] assms(2)
  by (simp add: filled_notional_def [of r] add_fill_def)

section \<open>Rejected cancels and the database row\<close>

text \<open>
  A reject that answers a cancel request kills the order: from \<open>CANCEL_REQUESTED\<close> a
  \<open>RejectEvent\<close> leads to \<open>REJECTED\<close>, and whatever the order then receives (a fill that crosses
  the rejected cancel included) raises.
\<close>

theorem cancel_reject_is_final:
  assumes "o_status ord = CANCEL_REQUESTED" "shape_ok ord"
  shows "\<exists>r. apply_event ord (RejectEvent t rs) = Inr r \<and> o_status r = REJECTED
    \<and> (\<forall>e. \<exists>x. apply_event r e = Inl x)"
proof -
  obtain r where r: "apply_event ord (RejectEvent t rs) = Inr r" "o_status r = REJECTED"
    using assms by (auto simp: with_status_Inr can_transition_def shape_ok_def)
  have "\<exists>x. apply_event r e = Inl x" for e
    using r(2) apply_event_frame [of r e] can_transition_nonterminal [of "o_status r"]
    by (cases "apply_event r e") (auto simp: transition_simps)
  with r show ?thesis by blast
qed

text \<open>
  The database row tells a completed order: for a well-formed order \<open>filled_at\<close> is set,
  and the status column is \<open>filled\<close>, exactly when the whole quantity is filled; \<open>filled_at\<close> is
  the time of the last event.
\<close>

theorem orm_row_complete:
  assumes "order_ok ord"
  shows "(orm_filled_at (to_orm_dict ord pid) = Some t
            \<longleftrightarrow> o_filled ord = o_quantity ord \<and> t = o_updated_at ord)
    \<and> (orm_status (to_orm_dict ord pid) = ''filled'' \<longleftrightarrow> o_filled ord = o_quantity ord)"
  using assms by (cases "o_status ord") (auto simp: to_orm_dict_def order_ok_def)

end
