(* ===== verification/KillSwitch.thy ===== *)
theory KillSwitch
  imports Prelude
begin

text \<open>
  The live-trading kill switch, \<open>engine/core/live/kill_switch.py\<close>.

  The lock makes every operation atomic, so an operation is a function on the state record.
  It returns the Boolean or the exception of the code, the new state, and the effects it
  had outside the switch, in order: the metrics it reported and the observers it called.
  An observer is an identifier; whether a call of it raises is a parameter \<open>fails\<close>.
  Log lines other than the failed-observer warning are not modelled.
\<close>

datatype KillSwitchState = DISENGAGED | ENGAGED

record KillSwitchSnapshot =
  snap_state :: KillSwitchState
  snap_engaged_at :: "datetime option"
  snap_reason :: "string option"
  snap_actor :: "string option"

record 'o KillSwitch =
  ks_state :: KillSwitchState
  ks_engaged_at :: "datetime option"
  ks_reason :: "string option"
  ks_actor :: "string option"
  ks_observers :: "'o list"

datatype ks_error = EmptyReason | BadConfirmation

datatype 'o ks_effect =
  Reported metric
| Called 'o KillSwitchSnapshot
| ObserverFailed 'o

definition DISENGAGE_TOKEN :: string where
  "DISENGAGE_TOKEN = ''I_UNDERSTAND_THE_RISK''"

definition init_switch :: "'o KillSwitch" where
  "init_switch = \<lparr>ks_state = DISENGAGED, ks_engaged_at = None, ks_reason = None,
     ks_actor = None, ks_observers = []\<rparr>"

definition is_engaged :: "'o KillSwitch \<Rightarrow> bool" where
  "is_engaged sw = (ks_state sw = ENGAGED)"

definition snapshot :: "'o KillSwitch \<Rightarrow> KillSwitchSnapshot" where
  "snapshot sw = \<lparr>snap_state = ks_state sw, snap_engaged_at = ks_engaged_at sw,
     snap_reason = ks_reason sw, snap_actor = ks_actor sw\<rparr>"

text \<open>\<open>_notify\<close> walks a copy of the observer list; a failing observer only leaves a warning.\<close>

fun notify_list ::
  "('o \<Rightarrow> KillSwitchSnapshot \<Rightarrow> bool) \<Rightarrow> 'o list \<Rightarrow> KillSwitchSnapshot \<Rightarrow> 'o ks_effect list" where
  "notify_list fails [] snap = []"
| "notify_list fails (ob # obs) snap =
     (if fails ob snap then [Called ob snap, ObserverFailed ob] else [Called ob snap])
     @ notify_list fails obs snap"

definition notify ::
  "('o \<Rightarrow> KillSwitchSnapshot \<Rightarrow> bool) \<Rightarrow> 'o KillSwitch \<Rightarrow> KillSwitchSnapshot \<Rightarrow> 'o ks_effect list" where
  "notify fails sw snap = notify_list fails (ks_observers sw) snap"

definition engage ::
  "('o \<Rightarrow> KillSwitchSnapshot \<Rightarrow> bool) \<Rightarrow> string \<Rightarrow> string \<Rightarrow> datetime \<Rightarrow> 'o KillSwitch
     \<Rightarrow> (ks_error + bool) \<times> 'o KillSwitch \<times> 'o ks_effect list" where
  "engage fails reason actor now sw =
     (if reason = [] \<or> py_strip reason = [] then (Inl EmptyReason, sw, [])
      else if ks_state sw = ENGAGED
      then (Inr False, sw, [Reported (Counter ''kill_switch.engage_noop'' [(''actor'', actor)])])
      else let sw' = sw\<lparr>ks_state := ENGAGED, ks_engaged_at := Some now,
                       ks_reason := Some reason, ks_actor := Some actor\<rparr> in
        (Inr True, sw',
         [Reported (Counter ''kill_switch.engaged'' [(''actor'', actor)]),
          Reported (Gauge ''kill_switch.state'' 1 [])]
         @ notify fails sw' (snapshot sw')))"

definition disengage ::
  "('o \<Rightarrow> KillSwitchSnapshot \<Rightarrow> bool) \<Rightarrow> string \<Rightarrow> string \<Rightarrow> 'o KillSwitch
     \<Rightarrow> (ks_error + bool) \<times> 'o KillSwitch \<times> 'o ks_effect list" where
  "disengage fails confirmation actor sw =
     (if confirmation \<noteq> DISENGAGE_TOKEN then (Inl BadConfirmation, sw, [])
      else if ks_state sw = DISENGAGED then (Inr False, sw, [])
      else let sw' = sw\<lparr>ks_state := DISENGAGED, ks_engaged_at := None,
                       ks_reason := None, ks_actor := Some actor\<rparr> in
        (Inr True, sw',
         [Reported (Counter ''kill_switch.disengaged'' [(''actor'', actor)]),
          Reported (Gauge ''kill_switch.state'' 0 [])]
         @ notify fails sw' (snapshot sw')))"

definition add_observer :: "'o \<Rightarrow> 'o KillSwitch \<Rightarrow> 'o KillSwitch" where
  "add_observer ob sw = sw\<lparr>ks_observers := ks_observers sw @ [ob]\<rparr>"

text \<open>\<open>list.remove\<close> drops the first equal element; its \<open>ValueError\<close> is suppressed.\<close>

definition remove_observer :: "'o \<Rightarrow> 'o KillSwitch \<Rightarrow> 'o KillSwitch" where
  "remove_observer ob sw = sw\<lparr>ks_observers := remove1 ob (ks_observers sw)\<rparr>"

text \<open>The process singleton: made on the first call, the same switch ever after.\<close>

definition get_kill_switch :: "'o KillSwitch option \<Rightarrow> 'o KillSwitch \<times> 'o KillSwitch option" where
  "get_kill_switch inst = (case inst of
     None \<Rightarrow> (init_switch, Some init_switch) | Some sw \<Rightarrow> (sw, Some sw))"

section \<open>Runs of operations\<close>

datatype 'o ks_op =
  OpEngage string string datetime
| OpDisengage string string
| OpAdd 'o
| OpRemove 'o

text \<open>An operation of a caller that swallows the exceptions; only the state matters here.\<close>

fun ks_step :: "('o \<Rightarrow> KillSwitchSnapshot \<Rightarrow> bool) \<Rightarrow> 'o KillSwitch \<Rightarrow> 'o ks_op \<Rightarrow> 'o KillSwitch" where
  "ks_step fails sw (OpEngage r a t) = fst (snd (engage fails r a t sw))"
| "ks_step fails sw (OpDisengage c a) = fst (snd (disengage fails c a sw))"
| "ks_step fails sw (OpAdd ob) = add_observer ob sw"
| "ks_step fails sw (OpRemove ob) = remove_observer ob sw"

definition ks_run :: "('o \<Rightarrow> KillSwitchSnapshot \<Rightarrow> bool) \<Rightarrow> 'o KillSwitch \<Rightarrow> 'o ks_op list \<Rightarrow> 'o KillSwitch" where
  "ks_run fails sw ops = foldl (ks_step fails) sw ops"

text \<open>The fields agree: a disengaged switch has no reason and no time, an engaged one has both.\<close>

definition ks_ok :: "'o KillSwitch \<Rightarrow> bool" where
  "ks_ok sw \<longleftrightarrow> (case ks_state sw of
     DISENGAGED \<Rightarrow> ks_engaged_at sw = None \<and> ks_reason sw = None
   | ENGAGED \<Rightarrow> ks_engaged_at sw \<noteq> None \<and> ks_actor sw \<noteq> None
                \<and> (\<exists>r. ks_reason sw = Some r \<and> py_strip r \<noteq> []))"

lemma ks_ok_init: "ks_ok init_switch"
  by (simp add: ks_ok_def init_switch_def)

lemmas ks_op_defs = engage_def disengage_def add_observer_def remove_observer_def

lemma ks_step_ok: "ks_ok sw \<Longrightarrow> ks_ok (ks_step fails sw x)"
  by (cases x) (auto simp: ks_op_defs ks_ok_def Let_def split: KillSwitchState.splits)

lemma ks_run_ok: "ks_ok sw \<Longrightarrow> ks_ok (ks_run fails sw ops)"
  by (induction ops arbitrary: sw) (auto simp: ks_run_def ks_step_ok)

definition same_stop :: "'o KillSwitch \<Rightarrow> 'o KillSwitch \<Rightarrow> bool" where
  "same_stop a b \<longleftrightarrow> ks_state b = ENGAGED \<and> ks_engaged_at a = ks_engaged_at b
     \<and> ks_reason a = ks_reason b \<and> ks_actor a = ks_actor b"

definition confirmed :: "'o ks_op \<Rightarrow> bool" where
  "confirmed x = (case x of OpDisengage c a \<Rightarrow> c = DISENGAGE_TOKEN | _ \<Rightarrow> False)"

lemma ks_step_same_stop:
  "is_engaged sw \<Longrightarrow> \<not> confirmed x \<Longrightarrow> same_stop sw (ks_step fails sw x)"
  by (cases x) (auto simp: ks_op_defs is_engaged_def same_stop_def confirmed_def)

lemma ks_run_same_stop:
  "is_engaged sw \<Longrightarrow> \<forall>x\<in>set ops. \<not> confirmed x \<Longrightarrow> same_stop sw (ks_run fails sw ops)"
proof (induction ops arbitrary: sw)
  case Nil
  then show ?case by (simp add: ks_run_def same_stop_def is_engaged_def)
next
  case (Cons x xs)
  then have "same_stop sw (ks_step fails sw x)" by (simp add: ks_step_same_stop)
  with Cons.IH [of "ks_step fails sw x"] Cons.prems(2) show ?case
    by (auto simp: ks_run_def same_stop_def is_engaged_def)
qed

text \<open>
  Once engaged, the switch stays engaged through any sequence of operations that does not
  include a disengage with the documented token, and keeps the time, the reason and the actor of the
  first engagement: no later \<open>engage\<close>, wrong token or observer change alters them.
\<close>

theorem engaged_until_confirmed:
  assumes "is_engaged sw" "\<forall>x\<in>set ops. \<not> confirmed x"
  shows "is_engaged (ks_run fails sw ops)
    \<and> ks_engaged_at (ks_run fails sw ops) = ks_engaged_at sw
    \<and> ks_reason (ks_run fails sw ops) = ks_reason sw
    \<and> ks_actor (ks_run fails sw ops) = ks_actor sw"
  using ks_run_same_stop [OF assms] by (simp add: same_stop_def is_engaged_def)

text \<open>The observers called by an operation, in order.\<close>

definition calls :: "'o ks_effect list \<Rightarrow> 'o list" where
  "calls effs = concat (map (\<lambda>e. case e of Called ob s \<Rightarrow> [ob] | _ \<Rightarrow> []) effs)"

lemma calls_notify_list: "calls (notify_list fails obs snap) = obs"
  by (induction obs) (auto simp: calls_def)

lemma calls_Cons: "calls (Reported m # es) = calls es"
  by (simp add: calls_def)

text \<open>
  Observers hear of every transition exactly once and in registration order, whichever
  of them raise; nobody is called when the state does not change, and the transition
  itself never depends on the observers.
\<close>

theorem observers_hear_transitions:
  "(case engage fails r a t sw of (res, sw', effs) \<Rightarrow>
      calls effs = (if res = Inr True then ks_observers sw else [])
      \<and> (res = Inr True \<longleftrightarrow> ks_state sw = DISENGAGED \<and> ks_state sw' = ENGAGED)
      \<and> sw' = fst (snd (engage fails' r a t sw)))
   \<and> (case disengage fails c a sw of (res, sw', effs) \<Rightarrow>
      calls effs = (if res = Inr True then ks_observers sw else [])
      \<and> (res = Inr True \<longleftrightarrow> ks_state sw = ENGAGED \<and> ks_state sw' = DISENGAGED)
      \<and> sw' = fst (snd (disengage fails' c a sw)))"
proof (cases "ks_state sw")
  case DISENGAGED
  then show ?thesis
    by (auto simp: engage_def disengage_def Let_def notify_def calls_notify_list calls_Cons)
      (auto simp: calls_def)
next
  case ENGAGED
  then show ?thesis
    by (auto simp: engage_def disengage_def Let_def notify_def calls_notify_list calls_Cons)
      (auto simp: calls_def)
qed

end
