(* ===== verification/RiskGate.thy ===== *)
theory RiskGate
  imports Oms KillSwitch
begin

text \<open>
  The pre-flight risk gate, \<open>engine/core/oms/risk.py\<close>.

  A check is its class name (the metrics carry it) and its \<open>__call__\<close>.  The built-in
  checks are below; an operator's own check is any other pair.  \<open>KillSwitchCheck\<close> holds a
  reference to the mutable switch, so a gate is a function of the switch's current state.
  \<open>evaluate\<close> returns the verdict and the metrics it reports, in order.
\<close>

datatype CheckResult = Approve | Reject reason

type_synonym RiskCheck = "string \<times> (Order \<Rightarrow> rat option \<Rightarrow> CheckResult)"
type_synonym 'o RiskGate = "'o KillSwitch \<Rightarrow> RiskCheck list"

datatype limit_error = LimitNotPositive string

definition KillSwitchCheck :: "'o KillSwitch \<Rightarrow> RiskCheck" where
  "KillSwitchCheck sw = (''KillSwitchCheck'',
     (\<lambda>ord price.
        if is_engaged sw
        then Reject (Text (''kill-switch engaged: '' @
               (case snap_reason (snapshot sw) of
                  None \<Rightarrow> ''no reason recorded''
                | Some r \<Rightarrow> if r = [] then ''no reason recorded'' else r)))
        else Approve))"

definition MaxOrderQuantity_call :: "rat \<Rightarrow> Order \<Rightarrow> rat option \<Rightarrow> CheckResult" where
  "MaxOrderQuantity_call limit ord price =
     (if limit < o_quantity ord
      then Reject (QuantityExceeds (o_quantity ord) limit (o_symbol ord))
      else Approve)"

definition MaxOrderQuantity :: "rat \<Rightarrow> limit_error + RiskCheck" where
  "MaxOrderQuantity limit =
     (if limit \<le> 0 then Inl (LimitNotPositive ''MaxOrderQuantity'')
      else Inr (''MaxOrderQuantity'', MaxOrderQuantity_call limit))"

definition MaxOrderNotional_call :: "rat \<Rightarrow> Order \<Rightarrow> rat option \<Rightarrow> CheckResult" where
  "MaxOrderNotional_call limit ord price =
     (case price of
        None \<Rightarrow> Approve
      | Some p \<Rightarrow>
          if p \<le> 0 then Approve
          else let notional = dmul (o_quantity ord) p in
            if limit < notional
            then Reject (NotionalExceeds notional limit (o_symbol ord) p)
            else Approve)"

definition MaxOrderNotional :: "rat \<Rightarrow> limit_error + RiskCheck" where
  "MaxOrderNotional limit =
     (if limit \<le> 0 then Inl (LimitNotPositive ''MaxOrderNotional'')
      else Inr (''MaxOrderNotional'', MaxOrderNotional_call limit))"

definition check_metric :: "string \<Rightarrow> string \<Rightarrow> string \<Rightarrow> metric" where
  "check_metric name symbol outcome =
     Counter ''oms.risk.check'' [(''check'', name), (''symbol'', symbol), (''outcome'', outcome)]"

fun evaluate :: "RiskCheck list \<Rightarrow> Order \<Rightarrow> rat option \<Rightarrow> CheckResult \<times> metric list" where
  "evaluate [] ord price =
     (Approve, [Counter ''oms.risk.approved'' [(''symbol'', o_symbol ord)]])"
| "evaluate ((name, check) # checks) ord price =
     (case check ord price of
        Reject r \<Rightarrow>
          (Reject r,
           [check_metric name (o_symbol ord) ''reject'',
            Counter ''oms.risk.rejected'' [(''check'', name), (''symbol'', o_symbol ord)]])
      | Approve \<Rightarrow>
          (case evaluate checks ord price of (res, ms) \<Rightarrow>
             (res, check_metric name (o_symbol ord) ''approve'' # ms)))"

section \<open>What the verdict means\<close>

lemma evaluate_skip:
  "check ord price = Approve \<Longrightarrow>
     fst (evaluate ((name, check) # checks) ord price) = fst (evaluate checks ord price)"
  by (simp add: case_prod_beta)

lemma evaluate_stop:
  "check ord price = Reject r \<Longrightarrow> fst (evaluate ((name, check) # checks) ord price) = Reject r"
  by simp

lemma evaluate_approve:
  "fst (evaluate checks ord price) = Approve
     \<longleftrightarrow> (\<forall>c\<in>set checks. snd c ord price = Approve)"
proof (induction checks)
  case (Cons c checks)
  obtain name check where c: "c = (name, check)" by (cases c)
  show ?case
    by (cases "check ord price") (simp_all add: c evaluate_skip Cons.IH del: evaluate.simps(2), simp)
qed simp

text \<open>\<open>rejected_by checks ord price r\<close>: all checks before some check approve, it rejects with \<open>r\<close>.\<close>

definition rejected_by :: "RiskCheck list \<Rightarrow> Order \<Rightarrow> rat option \<Rightarrow> reason \<Rightarrow> bool" where
  "rejected_by checks ord price r \<longleftrightarrow>
     (\<exists>pre name check post. checks = pre @ (name, check) # post
        \<and> (\<forall>c\<in>set pre. snd c ord price = Approve) \<and> check ord price = Reject r)"

lemma rejected_by_Cons:
  "rejected_by ((name, check) # checks) ord price r \<longleftrightarrow>
     check ord price = Reject r \<or> check ord price = Approve \<and> rejected_by checks ord price r"
  (is "?l \<longleftrightarrow> ?r")
proof
  assume ?l
  then obtain pre n k post where eq: "(name, check) # checks = pre @ (n, k) # post"
    and pre: "\<forall>c\<in>set pre. snd c ord price = Approve" and k: "k ord price = Reject r"
    unfolding rejected_by_def by blast
  show ?r
  proof (cases pre)
    case Nil
    then show ?thesis using eq k by simp
  next
    case (Cons c pre')
    then show ?thesis using eq pre k unfolding rejected_by_def by auto
  qed
next
  assume ?r
  then show ?l
  proof
    assume "check ord price = Reject r"
    then show ?l unfolding rejected_by_def by (intro exI [of _ "[] :: RiskCheck list"]) auto
  next
    assume r: "check ord price = Approve \<and> rejected_by checks ord price r"
    then obtain pre n k post where "checks = pre @ (n, k) # post"
      "\<forall>c\<in>set pre. snd c ord price = Approve" "k ord price = Reject r"
      unfolding rejected_by_def by blast
    then show ?l using r unfolding rejected_by_def
      by (intro exI [of _ "(name, check) # pre"]) auto
  qed
qed

lemma evaluate_reject:
  "fst (evaluate checks ord price) = Reject r \<longleftrightarrow> rejected_by checks ord price r"
proof (induction checks)
  case Nil
  then show ?case by (simp add: rejected_by_def)
next
  case (Cons c checks)
  obtain name check where c: "c = (name, check)" by (cases c)
  show ?case
    by (cases "check ord price")
      (simp_all add: c rejected_by_Cons evaluate_skip Cons.IH del: evaluate.simps(2), simp)
qed

definition outcomes :: "metric list \<Rightarrow> string list" where
  "outcomes ms = filter (\<lambda>n. n = ''oms.risk.approved'' \<or> n = ''oms.risk.rejected'') (map metric_name ms)"

lemma evaluate_outcomes:
  "outcomes (snd (evaluate checks ord price)) =
     (if fst (evaluate checks ord price) = Approve
      then [''oms.risk.approved''] else [''oms.risk.rejected''])"
  by (induction checks ord price rule: evaluate.induct)
    (auto simp: outcomes_def check_metric_def metric_name_def split: CheckResult.splits prod.splits)

text \<open>
  C23.  The gate is a conjunction with the first objection as its reason: it approves exactly when
  every check approves, rejects with the reason of the first check that rejects, and reports
  exactly one verdict metric, the one of its verdict.
\<close>

theorem gate_verdict:
  "(fst (evaluate checks ord price) = Approve
      \<longleftrightarrow> (\<forall>c\<in>set checks. snd c ord price = Approve))
   \<and> (fst (evaluate checks ord price) = Reject r \<longleftrightarrow> rejected_by checks ord price r)
   \<and> outcomes (snd (evaluate checks ord price)) =
       (if fst (evaluate checks ord price) = Approve
        then [''oms.risk.approved''] else [''oms.risk.rejected''])"
  using evaluate_approve evaluate_reject evaluate_outcomes by blast

theorem gate_verdict_witness:
  "fst (evaluate [(''MaxOrderQuantity'', MaxOrderQuantity_call 5)] (sample_order NEW) None)
     = Reject (QuantityExceeds 10 5 ''X'')"
  using gate_verdict [of "[(''MaxOrderQuantity'', MaxOrderQuantity_call 5)]" "sample_order NEW" None
      "QuantityExceeds 10 5 ''X''"]
  by (auto simp: MaxOrderQuantity_call_def sample_order_def rejected_by_Cons)

lemma gate_blocks_engaged:
  "is_engaged sw \<Longrightarrow> KillSwitchCheck sw \<in> set checks \<Longrightarrow> fst (evaluate checks ord price) \<noteq> Approve"
  unfolding evaluate_approve by (force simp: KillSwitchCheck_def)

text \<open>
  What an approval guarantees for the built-in checks: the switch is not engaged, the quantity is
  within the quantity limit, and the decimal notional at a positive reference price is
  within the notional limit.
\<close>

theorem approved_within_limits:
  assumes "fst (evaluate checks ord (Some p)) = Approve" "0 < p"
    and "KillSwitchCheck sw \<in> set checks"
    and "MaxOrderQuantity qmax = Inr qc" "qc \<in> set checks"
    and "MaxOrderNotional nmax = Inr nc" "nc \<in> set checks"
  shows "\<not> is_engaged sw \<and> o_quantity ord \<le> qmax \<and> dmul (o_quantity ord) p \<le> nmax"
proof -
  have all: "\<forall>c\<in>set checks. snd c ord (Some p) = Approve"
    using assms(1) evaluate_approve by blast
  have "snd (KillSwitchCheck sw) ord (Some p) = Approve" "snd qc ord (Some p) = Approve"
    "snd nc ord (Some p) = Approve"
    using all assms(3,5,7) by auto
  then show ?thesis using assms(2,4,6)
    by (auto simp: KillSwitchCheck_def MaxOrderQuantity_def MaxOrderQuantity_call_def
        MaxOrderNotional_def MaxOrderNotional_call_def Let_def split: if_splits)
qed

end
