(* ===== verification/Brokers.thy ===== *)
theory Brokers
  imports Oms
begin

text \<open>
  Broker adapters, \<open>engine/core/brokers\<close>: the errors and the result of a submission
  (\<open>base.py\<close>), the registry (\<open>registry.py\<close>) and the paper broker (\<open>paper.py\<close>).

  The protocol \<open>BrokerAdapter\<close> is the locale \<open>broker_adapter\<close>: what the live loop may rely on.
  The paper broker provides it.  The random part of its broker ids, the clock and the
  \<open>PriceResolver\<close> the constructor is given are arguments of its operations.
\<close>

section \<open>Errors and results\<close>

datatype broker_error =
  BrokerError string
| BrokerAuthError string
| BrokerConnectionError string
| BrokerRejectError string "string option"

record SubmittedOrder =
  sub_order_id :: uuid
  sub_broker_order_id :: string

section \<open>The registry\<close>

datatype registry_error = EmptyName | NotLowerCase string | UnknownBroker string "string list"

definition register_broker ::
  "string \<Rightarrow> 'a \<Rightarrow> (string, 'a) dict \<Rightarrow> registry_error + (string, 'a) dict" where
  "register_broker name adapter reg =
     (if name = [] \<or> py_strip name = [] then Inl EmptyName
      else if name \<noteq> py_lower name then Inl (NotLowerCase name)
      else Inr (AList.update name adapter reg))"

text \<open>\<open>sorted\<close> on names compares code points lexicographically.\<close>

definition name_code :: "string \<Rightarrow> nat list" where
  "name_code s = map of_char s"

fun lex_le :: "nat list \<Rightarrow> nat list \<Rightarrow> bool" where
  "lex_le [] ys = True"
| "lex_le (x # xs) [] = False"
| "lex_le (x # xs) (y # ys) = (x < y \<or> x = y \<and> lex_le xs ys)"

fun insert_name :: "string \<Rightarrow> string list \<Rightarrow> string list" where
  "insert_name n [] = [n]"
| "insert_name n (m # ms) =
     (if lex_le (name_code n) (name_code m) then n # m # ms else m # insert_name n ms)"

definition list_brokers :: "(string, 'a) dict \<Rightarrow> string list" where
  "list_brokers reg = foldr insert_name (map fst reg) []"

definition get_broker :: "string \<Rightarrow> (string, 'a) dict \<Rightarrow> registry_error + 'a" where
  "get_broker name reg = (case map_of reg name of
     Some a \<Rightarrow> Inr a | None \<Rightarrow> Inl (UnknownBroker name (list_brokers reg)))"

section \<open>The paper broker\<close>

record Pending =
  p_oms_order_id :: uuid
  p_symbol :: string
  p_quantity :: rat
  p_order_type :: OrderType

record PaperBroker =
  pb_name :: string
  pb_events :: "OrderEvent list"
  pb_pending :: "(string, Pending) dict"
  pb_metrics :: "metric list"

definition PaperBroker_init :: "string \<Rightarrow> string + PaperBroker" where
  "PaperBroker_init name =
     (if name = [] \<or> \<not> py_islower name
      then Inl ''PaperBroker name must be a lower-case slug''
      else Inr \<lparr>pb_name = name, pb_events = [], pb_pending = [], pb_metrics = []\<rparr>)"

definition pb_report :: "metric \<Rightarrow> PaperBroker \<Rightarrow> PaperBroker" where
  "pb_report m b = b\<lparr>pb_metrics := pb_metrics b @ [m]\<rparr>"

definition pb_put :: "OrderEvent \<Rightarrow> PaperBroker \<Rightarrow> PaperBroker" where
  "pb_put e b = b\<lparr>pb_events := pb_events b @ [e]\<rparr>"

definition emit_pending_gauge :: "PaperBroker \<Rightarrow> PaperBroker" where
  "emit_pending_gauge b = pb_report
     (Gauge ''paper_broker.pending'' (int (length (pb_pending b))) [(''broker'', pb_name b)]) b"

definition submit_metric :: "PaperBroker \<Rightarrow> Order \<Rightarrow> string \<Rightarrow> metric" where
  "submit_metric b ord outcome = Counter ''paper_broker.submit''
     [(''broker'', pb_name b), (''order_type'', type_value (o_type ord)), (''outcome'', outcome)]"

definition op_metric :: "PaperBroker \<Rightarrow> string \<Rightarrow> string \<Rightarrow> metric" where
  "op_metric b op outcome = Counter op [(''broker'', pb_name b), (''outcome'', outcome)]"

definition usable_price :: "rat option \<Rightarrow> rat option" where
  "usable_price p = (case p of None \<Rightarrow> None | Some x \<Rightarrow> if x \<le> 0 then None else Some x)"

definition paper_submit ::
  "(string \<Rightarrow> rat option) \<Rightarrow> uuid \<Rightarrow> datetime \<Rightarrow> Order \<Rightarrow> PaperBroker
     \<Rightarrow> (broker_error + SubmittedOrder) \<times> PaperBroker" where
  "paper_submit price_for fresh now ord b =
     (let broker_id = ''PAPER-'' @ fresh;
          result = \<lparr>sub_order_id = o_id ord, sub_broker_order_id = broker_id\<rparr> in
      if o_type ord = MARKET then
        (case usable_price (price_for (o_symbol ord)) of
           None \<Rightarrow>
             (Inl (BrokerRejectError (''paper: no price for '' @ o_symbol ord) (Some ''NO_PRICE'')),
              pb_report (submit_metric b ord ''rejected'') b)
         | Some price \<Rightarrow>
             (Inr result,
              pb_report (submit_metric b ord ''filled'')
                (pb_put (FillEvent now (o_quantity ord) price (''FILL-'' @ broker_id))
                  (pb_put (AckEvent now broker_id) b))))
      else
        (Inr result,
         emit_pending_gauge
           (pb_report (submit_metric b ord ''resting'')
             (pb_put (AckEvent now broker_id)
               (b\<lparr>pb_pending := AList.update broker_id
                   \<lparr>p_oms_order_id = o_id ord, p_symbol = o_symbol ord,
                    p_quantity = o_quantity ord, p_order_type = o_type ord\<rparr> (pb_pending b)\<rparr>)))))"

definition paper_cancel ::
  "datetime \<Rightarrow> string \<Rightarrow> PaperBroker \<Rightarrow> (broker_error + unit) \<times> PaperBroker" where
  "paper_cancel now bid b =
     (if map_of (pb_pending b) bid = None
      then (Inl (BrokerRejectError (''paper: unknown or already-filled broker order '' @ quoted bid)
                   (Some ''NOT_PENDING'')),
            pb_report (op_metric b ''paper_broker.cancel'' ''unknown'') b)
      else
        (Inr (),
         emit_pending_gauge
           (pb_report (op_metric b ''paper_broker.cancel'' ''cancelled'')
             (pb_put (CancelEvent now False (Some ''paper_cancel''))
               (b\<lparr>pb_pending := AList.delete bid (pb_pending b)\<rparr>)))))"

text \<open>\<open>pop\<close> takes the order out of \<open>_pending\<close> before the price is looked at.\<close>

definition simulate_fill ::
  "(string \<Rightarrow> rat option) \<Rightarrow> datetime \<Rightarrow> string \<Rightarrow> rat option \<Rightarrow> PaperBroker
     \<Rightarrow> (broker_error + unit) \<times> PaperBroker" where
  "simulate_fill price_for now bid price b =
     (case map_of (pb_pending b) bid of
        None \<Rightarrow>
          (Inl (BrokerError (''simulate_fill: no pending order '' @ quoted bid)),
           pb_report (op_metric b ''paper_broker.simulate_fill'' ''unknown'') b)
      | Some pend \<Rightarrow>
          let b' = b\<lparr>pb_pending := AList.delete bid (pb_pending b)\<rparr> in
          (case usable_price (case price of Some x \<Rightarrow> Some x | None \<Rightarrow> price_for (p_symbol pend)) of
             None \<Rightarrow>
               (Inl (BrokerRejectError (''simulate_fill: no price for '' @ p_symbol pend)
                       (Some ''NO_PRICE'')),
                pb_report (op_metric b' ''paper_broker.simulate_fill'' ''no_price'') b')
           | Some x \<Rightarrow>
               (Inr (),
                emit_pending_gauge
                  (pb_report (op_metric b' ''paper_broker.simulate_fill'' ''filled'')
                    (pb_put (FillEvent now (p_quantity pend) x (''FILL-'' @ bid)) b')))))"

definition pending_count :: "PaperBroker \<Rightarrow> nat" where
  "pending_count b = length (pb_pending b)"

text \<open>One step of the \<open>events()\<close> iterator; \<open>None\<close> where the code waits for the queue.\<close>

definition next_event :: "PaperBroker \<Rightarrow> (OrderEvent \<times> PaperBroker) option" where
  "next_event b = (case pb_events b of [] \<Rightarrow> None | e # es \<Rightarrow> Some (e, b\<lparr>pb_events := es\<rparr>))"

definition drain_events :: "PaperBroker \<Rightarrow> OrderEvent list \<times> PaperBroker" where
  "drain_events b = (pb_events b, b\<lparr>pb_events := []\<rparr>)"

section \<open>The registry is a map of lower-case names\<close>

lemma get_registered:
  "register_broker n a reg = Inr reg' \<Longrightarrow> get_broker n reg' = Inr a \<and> n = py_lower n"
  by (auto simp: register_broker_def get_broker_def split: if_splits)

lemma get_other:
  "register_broker n a reg = Inr reg' \<Longrightarrow> m \<noteq> n \<Longrightarrow> map_of reg m = Some x \<Longrightarrow> get_broker m reg' = Inr x"
  by (auto simp: register_broker_def get_broker_def split: if_splits)

section \<open>The contract of a broker adapter\<close>

definition fresh_order :: "Order \<Rightarrow> bool" where
  "fresh_order ord \<longleftrightarrow> order_ok ord \<and> o_status ord = NEW \<and> o_filled ord = 0
     \<and> dec28 (o_quantity ord) = o_quantity ord"

lemma fresh_shape: "fresh_order ord \<Longrightarrow> shape_ok ord \<and> 0 < o_quantity ord"
  by (simp add: fresh_order_def order_ok_def shape_ok_def)

locale broker_adapter =
  fixes submit :: "Order \<Rightarrow> 'b \<Rightarrow> (broker_error + SubmittedOrder) \<times> 'b"
    and queue :: "'b \<Rightarrow> OrderEvent list"
  assumes submit_id: "submit ord b = (Inr s, b') \<Longrightarrow> sub_order_id s = o_id ord"
    and submit_failed: "submit ord b = (Inl e, b') \<Longrightarrow> queue b' = queue b"
    and submit_queue: "submit ord b = (Inr s, b') \<Longrightarrow> fresh_order ord \<Longrightarrow>
      \<exists>es r. queue b' = queue b @ es
        \<and> apply_events ord (SubmitEvent t (Some (sub_broker_order_id s)) # es) = Inr r"
begin

text \<open>
  The events a broker queues for an accepted order never break the order: it ends well-formed, at
  a status the table allows.
\<close>

lemma queued_events_fit:
  assumes "submit ord b = (Inr s, b')" "fresh_order ord"
  obtains es r where "queue b' = queue b @ es"
    "apply_events ord (SubmitEvent t (Some (sub_broker_order_id s)) # es) = Inr r"
    "order_ok r" "same_order ord r"
proof -
  obtain es r where es: "queue b' = queue b @ es"
    and run: "apply_events ord (SubmitEvent t (Some (sub_broker_order_id s)) # es) = Inr r"
    using submit_queue [OF assms] by blast
  have "order_ok r" "same_order ord r"
    using apply_events_order_ok [OF run] apply_events_frame [OF run] assms(2)
    by (auto simp: fresh_order_def)
  then show ?thesis using that es run by blast
qed

lemma submit_keeps_queue: "submit ord b = (res, b') \<Longrightarrow> fresh_order ord \<Longrightarrow> \<exists>es. queue b' = queue b @ es"
  by (cases res) (auto dest: submit_failed submit_queue)

end

lemmas pb_defs = pb_report_def pb_put_def emit_pending_gauge_def

lemma apply_submit:
  "fresh_order ord \<Longrightarrow> apply_event ord (SubmitEvent t bid) =
     Inr (ord\<lparr>o_status := SUBMITTED, o_updated_at := t, o_broker_id := or_id bid (o_broker_id ord)\<rparr>)"
  by (auto simp: with_status_Inr can_transition_def fresh_order_def order_ok_def shape_ok_def)

text \<open>What acknowledgement and complete fill do to a fresh order.\<close>

lemma apply_submit_ack:
  assumes "fresh_order ord"
  shows "\<exists>r. apply_events ord [SubmitEvent t bid, AckEvent t' a] = Inr r
    \<and> o_status r = ACKNOWLEDGED \<and> same_order ord r"
proof -
  obtain r where "apply_events ord [SubmitEvent t bid, AckEvent t' a] = Inr r" "o_status r = ACKNOWLEDGED"
    using fresh_shape [OF assms]
    by (simp add: apply_submit [OF assms] with_status_def can_transition_def
        post_init_def shape_ok_def del: apply_event.simps(1))
  then show ?thesis using apply_events_frame by blast
qed

lemma apply_submit_ack_fill:
  assumes "fresh_order ord"
  shows "\<exists>r. apply_events ord [SubmitEvent t bid, AckEvent t' a, FillEvent t' (o_quantity ord) p f] = Inr r
    \<and> o_status r = FILLED \<and> o_filled r = o_quantity ord \<and> same_order ord r"
proof -
  have "dadd 0 (o_quantity ord) = o_quantity ord" using assms by (simp add: dadd_def fresh_order_def)
  then obtain r where "apply_events ord
      [SubmitEvent t bid, AckEvent t' a, FillEvent t' (o_quantity ord) p f] = Inr r"
      "o_status r = FILLED" "o_filled r = o_quantity ord"
    using fresh_shape [OF assms] assms
    by (simp add: apply_submit [OF assms] with_status_def can_transition_def guard_fill_def
        post_init_def shape_ok_def fresh_order_def Let_def del: apply_event.simps(1))
  then show ?thesis using apply_events_frame by blast
qed

lemma paper_submit_market:
  "o_type ord = MARKET \<Longrightarrow> usable_price (price_for (o_symbol ord)) = Some p \<Longrightarrow>
     fst (paper_submit price_for fresh now ord b) =
        Inr \<lparr>sub_order_id = o_id ord, sub_broker_order_id = ''PAPER-'' @ fresh\<rparr>
     \<and> pb_events (snd (paper_submit price_for fresh now ord b)) =
        pb_events b @ [AckEvent now (''PAPER-'' @ fresh),
          FillEvent now (o_quantity ord) p (''FILL-PAPER-'' @ fresh)]
     \<and> pb_pending (snd (paper_submit price_for fresh now ord b)) = pb_pending b"
  by (simp add: paper_submit_def pb_defs Let_def)

lemma paper_submit_resting:
  "o_type ord \<noteq> MARKET \<Longrightarrow>
     fst (paper_submit price_for fresh now ord b) =
        Inr \<lparr>sub_order_id = o_id ord, sub_broker_order_id = ''PAPER-'' @ fresh\<rparr>
     \<and> pb_events (snd (paper_submit price_for fresh now ord b)) =
        pb_events b @ [AckEvent now (''PAPER-'' @ fresh)]
     \<and> map_of (pb_pending (snd (paper_submit price_for fresh now ord b))) (''PAPER-'' @ fresh) =
        Some \<lparr>p_oms_order_id = o_id ord, p_symbol = o_symbol ord,
              p_quantity = o_quantity ord, p_order_type = o_type ord\<rparr>"
  by (simp add: paper_submit_def pb_defs Let_def)

lemma paper_submit_rejected:
  "o_type ord = MARKET \<Longrightarrow> usable_price (price_for (o_symbol ord)) = None \<Longrightarrow>
     (\<exists>e. fst (paper_submit price_for fresh now ord b) = Inl e)
     \<and> pb_events (snd (paper_submit price_for fresh now ord b)) = pb_events b
     \<and> pb_pending (snd (paper_submit price_for fresh now ord b)) = pb_pending b"
  by (simp add: paper_submit_def pb_defs Let_def)

lemmas paper_submit_cases = paper_submit_market paper_submit_resting paper_submit_rejected

interpretation paper: broker_adapter "paper_submit price_for fresh now" pb_events
  for price_for fresh now
proof unfold_locales
  fix ord b s b' assume "paper_submit price_for fresh now ord b = (Inr s, b')"
  then show "sub_order_id s = o_id ord"
    by (auto simp: paper_submit_def Let_def split: if_splits option.splits)
next
  fix ord b e b' assume "paper_submit price_for fresh now ord b = (Inl e, b')"
  then show "pb_events b' = pb_events b"
    by (auto simp: paper_submit_def Let_def pb_defs split: if_splits option.splits)
next
  fix ord b s b' t
  assume sub: "paper_submit price_for fresh now ord b = (Inr s, b')" and fr: "fresh_order ord"
  show "\<exists>es r. pb_events b' = pb_events b @ es
      \<and> apply_events ord (SubmitEvent t (Some (sub_broker_order_id s)) # es) = Inr r"
  proof (cases "pb_events b' = pb_events b @ [AckEvent now (''PAPER-'' @ fresh)]")
    case True
    then show ?thesis
      using apply_submit_ack [OF fr, of t "Some (sub_broker_order_id s)" now "''PAPER-'' @ fresh"] by blast
  next
    case False
    then obtain p where "pb_events b' = pb_events b @ [AckEvent now (''PAPER-'' @ fresh),
        FillEvent now (o_quantity ord) p (''FILL-PAPER-'' @ fresh)]"
      using sub by (auto simp: paper_submit_def Let_def pb_defs split: if_splits option.splits)
    then show ?thesis
      using apply_submit_ack_fill [OF fr, of t "Some (sub_broker_order_id s)" now] by blast
  qed
qed


section \<open>What the paper broker does with an order\<close>

text \<open>
  A market order that the paper broker accepts is completely filled: applying the submission and
  the events the broker queued for it, in their order, gives an order at \<open>FILLED\<close> with its whole
  quantity filled, and the broker keeps nothing pending for it.
\<close>

theorem paper_market_fills:
  assumes "fresh_order ord" "o_type ord = MARKET"
    and "paper_submit price_for fresh now ord b = (Inr s, b')"
  shows "\<exists>es r. pb_events b' = pb_events b @ es \<and> pb_pending b' = pb_pending b
    \<and> apply_events ord (SubmitEvent t (Some (sub_broker_order_id s)) # es) = Inr r
    \<and> o_status r = FILLED \<and> o_filled r = o_quantity ord"
proof -
  obtain p where "pb_events b' = pb_events b @ [AckEvent now (''PAPER-'' @ fresh),
      FillEvent now (o_quantity ord) p (''FILL-PAPER-'' @ fresh)]" "pb_pending b' = pb_pending b"
    using assms(2,3) by (auto simp: paper_submit_def Let_def pb_defs split: option.splits)
  then show ?thesis
    using apply_submit_ack_fill [OF assms(1), of t "Some (sub_broker_order_id s)" now] by blast
qed

definition sample_paper :: PaperBroker where
  "sample_paper = \<lparr>pb_name = ''paper'', pb_events = [], pb_pending = [], pb_metrics = []\<rparr>"

lemma sample_fresh: "fresh_order (sample_order NEW)"
  using sample_order_ok [of NEW] by (simp add: fresh_order_def sample_order_def)

text \<open>The ids of the pending orders, as the broker's operations change them.\<close>

lemma cancel_then_gone:
  "paper_cancel now bid b = (Inr u, b') \<Longrightarrow> map_of (pb_pending b') bid = None"
  by (auto simp: paper_cancel_def pb_defs split: if_splits)

lemma length_delete:
  "dict_ok d \<Longrightarrow> map_of d k \<noteq> None \<Longrightarrow> length (AList.delete k d) = length d - 1"
proof (induction d)
  case (Cons a d)
  obtain k' v where a: "a = (k', v)" by (cases a)
  show ?case
  proof (cases "k' = k")
    case True
    then have "k \<notin> fst ` set d" using Cons.prems(1) a by simp
    then show ?thesis using a True by (simp add: delete_id)
  next
    case False
    then have "map_of d k \<noteq> None" using Cons.prems(2) a by auto
    moreover from this have "d \<noteq> []" by auto
    ultimately show ?thesis using Cons a False by (cases d) auto
  qed
qed simp

text \<open>
  A resting order leaves the paper broker once: a successful \<open>cancel\<close> or \<open>simulate_fill\<close> takes exactly
  it off the pending orders and queues exactly one event for it, and a second \<open>cancel\<close> or
  \<open>simulate_fill\<close> of the same id raises and changes neither the queue nor the pending orders.
\<close>

theorem pending_leaves_once:
  assumes "dict_ok (pb_pending b)" "map_of (pb_pending b) bid = Some pend"
    and "res = paper_cancel now bid b \<or> res = simulate_fill price_for now bid p b"
    and "fst res = Inr u"
  shows "map_of (pb_pending (snd res)) = (map_of (pb_pending b))(bid := None)
    \<and> pending_count (snd res) + 1 = pending_count b
    \<and> (\<exists>e. pb_events (snd res) = pb_events b @ [e])
    \<and> (\<forall>again. again = paper_cancel t bid (snd res) \<or> again = simulate_fill pf t bid q (snd res) \<longrightarrow>
          (\<exists>x. fst again = Inl x) \<and> pb_events (snd again) = pb_events (snd res)
          \<and> pb_pending (snd again) = pb_pending (snd res))"
proof -
  have pend: "pb_pending (snd res) = AList.delete bid (pb_pending b)"
    and ev: "\<exists>e. pb_events (snd res) = pb_events b @ [e]"
    using assms(2-4)
    by (auto simp: paper_cancel_def simulate_fill_def pb_defs Let_def split: option.splits)
  have "pending_count (snd res) + 1 = pending_count b"
    using length_delete [OF assms(1), of bid] assms(2)
    by (cases "pb_pending b") (auto simp: pending_count_def pend)
  moreover have "map_of (pb_pending (snd res)) bid = None"
    by (simp add: pend)
  ultimately show ?thesis using ev
    by (auto simp: pend paper_cancel_def simulate_fill_def pb_defs)
qed

text \<open>
  An order is lost when it is simulated without a price: \<open>simulate_fill\<close> raises \<open>NO_PRICE\<close>, but the
  order is no longer pending, no event was queued for it, and retrying with a price raises too.
\<close>

theorem simulate_fill_loses_order:
  assumes "map_of (pb_pending b) bid = Some pend" "price_for (p_symbol pend) = None"
  shows "\<exists>b'. simulate_fill price_for now bid None b =
      (Inl (BrokerRejectError (''simulate_fill: no price for '' @ p_symbol pend) (Some ''NO_PRICE'')), b')
    \<and> map_of (pb_pending b') bid = None \<and> pb_events b' = pb_events b
    \<and> (\<exists>x. fst (simulate_fill price_for t bid (Some 100) b') = Inl x)"
  using assms by (auto simp: simulate_fill_def usable_price_def pb_defs Let_def)

end
