(* ===== verification/LiveLoop.thy ===== *)
theory LiveLoop
  imports RiskGate Brokers
begin

text \<open>
  The live loop, \<open>engine/core/live/loop.py\<close>: it puts an order through the risk gate and the
  broker, keeps the orders and the broker ids, and applies the broker's events.

  The broker is the state \<open>ll_broker\<close> and its \<open>submit\<close>, an argument; the kill switch
  is the one the gate's checks read, as \<open>get_kill_switch\<close> makes it.  The clock is an argument.
  What the loop does outside itself (metrics, switch effects, calls of the persister) is the
  trace \<open>ll_trace\<close>, in order; an exception of the persister is swallowed by \<open>_track\<close>, so it
  has no effect on the loop.
\<close>

section \<open>State and operations\<close>

datatype 'o ll_effect =
  Metric metric
| Switch "'o ks_effect"
| Persist Order

record ('b, 'o) LiveLoop =
  ll_broker :: 'b
  ll_gate :: "'o RiskGate"
  ll_persister :: bool
  ll_switch :: "'o KillSwitch"
  ll_by_oms :: "(uuid, Order) dict"
  ll_broker_to_oms :: "(string, uuid) dict"
  ll_trace :: "'o ll_effect list"

datatype ll_error =
  LoopOms oms_error
| LoopBroker broker_error
| UnknownOrderError string
| LoopKeyError uuid

definition ll_emit :: "'o ll_effect list \<Rightarrow> ('b, 'o) LiveLoop \<Rightarrow> ('b, 'o) LiveLoop" where
  "ll_emit es st = st\<lparr>ll_trace := ll_trace st @ es\<rparr>"

definition base_tags :: "Order \<Rightarrow> (string \<times> string) list" where
  "base_tags ord = [(''symbol'', o_symbol ord), (''side'', side_value (o_side ord))]"

definition outcome_metric :: "Order \<Rightarrow> string \<Rightarrow> 'o ll_effect" where
  "outcome_metric ord outcome =
     Metric (Counter ''oms.submit.outcome'' (base_tags ord @ [(''outcome'', outcome)]))"

definition open_orders :: "('b, 'o) LiveLoop \<Rightarrow> Order list" where
  "open_orders st = filter (\<lambda>ord. \<not> is_terminal (o_status ord)) (dict_values (ll_by_oms st))"

definition ll_get :: "uuid \<Rightarrow> ('b, 'o) LiveLoop \<Rightarrow> Order option" where
  "ll_get oms_id st = map_of (ll_by_oms st) oms_id"

definition ll_track :: "Order \<Rightarrow> ('b, 'o) LiveLoop \<Rightarrow> ('b, 'o) LiveLoop" where
  "ll_track ord st =
     (let st' = st\<lparr>ll_by_oms := AList.update (o_id ord) ord (ll_by_oms st)\<rparr> in
      ll_emit ([Metric (Gauge ''oms.open_orders'' (int (length (open_orders st'))) [])]
               @ (if ll_persister st then [Persist ord] else [])) st')"

definition engage_switch :: "('o \<Rightarrow> KillSwitchSnapshot \<Rightarrow> bool) \<Rightarrow> string \<Rightarrow> string \<Rightarrow> datetime
    \<Rightarrow> ('b, 'o) LiveLoop \<Rightarrow> ('b, 'o) LiveLoop" where
  "engage_switch fails rsn actor now st =
     (case engage fails rsn actor now (ll_switch st) of
        (res, sw, effs) \<Rightarrow> ll_emit (map Switch effs) (st\<lparr>ll_switch := sw\<rparr>))"

text \<open>An event on the order, then \<open>_track\<close>, the map of broker ids and the outcome metric.\<close>

definition settle :: "Order \<Rightarrow> OrderEvent \<Rightarrow> string option \<Rightarrow> string
    \<Rightarrow> ('b, 'o) LiveLoop \<Rightarrow> (ll_error + Order) \<times> ('b, 'o) LiveLoop" where
  "settle ord ev bid outcome st =
     (case apply_event ord ev of
        Inl x \<Rightarrow> (Inl (LoopOms x), st)
      | Inr updated \<Rightarrow>
          let st1 = ll_track updated st;
              st2 = (case bid of None \<Rightarrow> st1
                     | Some k \<Rightarrow> st1\<lparr>ll_broker_to_oms :=
                                      AList.update k (o_id updated) (ll_broker_to_oms st1)\<rparr>)
          in (Inr updated, ll_emit [outcome_metric ord outcome] st2))"

definition broker_reject_text :: "string \<Rightarrow> string option \<Rightarrow> reason" where
  "broker_reject_text msg code = Text (''broker rejected: '' @ msg @ '' (code='' @
     (case code of None \<Rightarrow> ''None'' | Some c \<Rightarrow> c) @ '')'')"

definition ll_submit ::
  "(Order \<Rightarrow> 'b \<Rightarrow> (broker_error + SubmittedOrder) \<times> 'b) \<Rightarrow> ('o \<Rightarrow> KillSwitchSnapshot \<Rightarrow> bool)
    \<Rightarrow> datetime \<Rightarrow> Order \<Rightarrow> rat option \<Rightarrow> ('b, 'o) LiveLoop
    \<Rightarrow> (ll_error + Order) \<times> ('b, 'o) LiveLoop" where
  "ll_submit submit fails now ord price st =
     (case evaluate (ll_gate st (ll_switch st)) ord price of
        (verdict, ms) \<Rightarrow>
          let st1 = ll_emit (Metric (Counter ''oms.submit.attempted'' (base_tags ord))
                              # map Metric ms) st in
          (case verdict of
             Reject r \<Rightarrow> settle ord (RejectEvent now r) None ''risk_rejected'' st1
           | Approve \<Rightarrow>
               (case submit ord (ll_broker st1) of
                  (res, b) \<Rightarrow>
                    let st2 = st1\<lparr>ll_broker := b\<rparr> in
                    (case res of
                       Inl (BrokerAuthError m) \<Rightarrow>
                         (Inl (LoopBroker (BrokerAuthError m)),
                          engage_switch fails ''broker_auth_error'' ''live_loop'' now
                            (ll_emit [outcome_metric ord ''broker_auth_error''] st2))
                     | Inl (BrokerRejectError m code) \<Rightarrow>
                         settle ord (RejectEvent now (broker_reject_text m code)) None
                           ''broker_rejected'' st2
                     | Inl (BrokerConnectionError m) \<Rightarrow>
                         (Inl (LoopBroker (BrokerConnectionError m)),
                          ll_emit [outcome_metric ord ''broker_connection_error''] st2)
                     | Inl (BrokerError m) \<Rightarrow> (Inl (LoopBroker (BrokerError m)), st2)
                     | Inr submitted \<Rightarrow>
                         settle ord (SubmitEvent now (Some (sub_broker_order_id submitted)))
                           (Some (sub_broker_order_id submitted)) ''submitted'' st2))))"

fun event_type :: "OrderEvent \<Rightarrow> string" where
  "event_type (SubmitEvent t b) = ''SubmitEvent''"
| "event_type (AckEvent t b) = ''AckEvent''"
| "event_type (PartialFillEvent t q p f) = ''PartialFillEvent''"
| "event_type (FillEvent t q p f) = ''FillEvent''"
| "event_type (CancelEvent t rq rs) = ''CancelEvent''"
| "event_type (RejectEvent t rs) = ''RejectEvent''"
| "event_type (ExpireEvent t) = ''ExpireEvent''"

definition apply_broker_event ::
  "OrderEvent \<Rightarrow> string \<Rightarrow> ('b, 'o) LiveLoop \<Rightarrow> (ll_error + Order) \<times> ('b, 'o) LiveLoop" where
  "apply_broker_event ev bid st =
     (case map_of (ll_broker_to_oms st) bid of
        None \<Rightarrow> (Inl (UnknownOrderError (''no order tracked for broker id '' @ quoted bid)), st)
      | Some oms_id \<Rightarrow>
          (case map_of (ll_by_oms st) oms_id of
             None \<Rightarrow> (Inl (LoopKeyError oms_id), st)
           | Some ord \<Rightarrow>
               (case apply_event ord ev of
                  Inl x \<Rightarrow> (Inl (LoopOms x), st)
                | Inr updated \<Rightarrow>
                    (Inr updated,
                     ll_emit [Metric (Counter ''oms.event.applied''
                        [(''event_type'', event_type ev),
                         (''status'', status_value (o_status updated)),
                         (''symbol'', o_symbol updated)])] (ll_track updated st)))))"

section \<open>Runs of the loop\<close>

datatype ll_op =
  Submit datetime Order "rat option"
| BrokerEvent OrderEvent string
| Engage string string datetime
| Disengage string string

text \<open>A caller that survives the exceptions: what counts is the state each call leaves.\<close>

fun ll_step ::
  "(Order \<Rightarrow> 'b \<Rightarrow> (broker_error + SubmittedOrder) \<times> 'b) \<Rightarrow> ('o \<Rightarrow> KillSwitchSnapshot \<Rightarrow> bool)
    \<Rightarrow> ('b, 'o) LiveLoop \<Rightarrow> ll_op \<Rightarrow> ('b, 'o) LiveLoop" where
  "ll_step submit fails st (Submit now ord price) = snd (ll_submit submit fails now ord price st)"
| "ll_step submit fails st (BrokerEvent ev bid) = snd (apply_broker_event ev bid st)"
| "ll_step submit fails st (Engage r a t) = engage_switch fails r a t st"
| "ll_step submit fails st (Disengage c a) =
     (case disengage fails c a (ll_switch st) of
        (res, sw, effs) \<Rightarrow> ll_emit (map Switch effs) (st\<lparr>ll_switch := sw\<rparr>))"

definition ll_run ::
  "(Order \<Rightarrow> 'b \<Rightarrow> (broker_error + SubmittedOrder) \<times> 'b) \<Rightarrow> ('o \<Rightarrow> KillSwitchSnapshot \<Rightarrow> bool)
    \<Rightarrow> ('b, 'o) LiveLoop \<Rightarrow> ll_op list \<Rightarrow> ('b, 'o) LiveLoop" where
  "ll_run submit fails st ops = foldl (ll_step submit fails) st ops"

text \<open>The events of one broker order, applied in the order of the iterator.\<close>

fun consume :: "OrderEvent list \<Rightarrow> string \<Rightarrow> ('b, 'o) LiveLoop \<Rightarrow> ll_error option \<times> ('b, 'o) LiveLoop" where
  "consume [] bid st = (None, st)"
| "consume (e # es) bid st = (case apply_broker_event e bid st of
     (Inl x, st') \<Rightarrow> (Some x, st') | (Inr ord, st') \<Rightarrow> consume es bid st')"

section \<open>The registry of the loop\<close>

definition ll_ok :: "('b, 'o) LiveLoop \<Rightarrow> bool" where
  "ll_ok st \<longleftrightarrow> dict_ok (ll_by_oms st) \<and> dict_ok (ll_broker_to_oms st)
     \<and> (\<forall>k ord. map_of (ll_by_oms st) k = Some ord \<longrightarrow> o_id ord = k \<and> order_ok ord)
     \<and> (\<forall>bid k. map_of (ll_broker_to_oms st) bid = Some k \<longrightarrow> map_of (ll_by_oms st) k \<noteq> None)"

lemma ll_ok_order: "ll_ok st \<Longrightarrow> map_of (ll_by_oms st) k = Some ord \<Longrightarrow> o_id ord = k \<and> order_ok ord"
  by (simp add: ll_ok_def)

lemma ll_ok_linked:
  "ll_ok st \<Longrightarrow> map_of (ll_broker_to_oms st) bid = Some k \<Longrightarrow> map_of (ll_by_oms st) k \<noteq> None"
  unfolding ll_ok_def by blast

lemma ll_emit_simps [simp]:
  "ll_broker (ll_emit es st) = ll_broker st" "ll_gate (ll_emit es st) = ll_gate st"
  "ll_switch (ll_emit es st) = ll_switch st" "ll_by_oms (ll_emit es st) = ll_by_oms st"
  "ll_broker_to_oms (ll_emit es st) = ll_broker_to_oms st"
  by (simp_all add: ll_emit_def)

lemma ll_track_simps [simp]:
  "ll_broker (ll_track ord st) = ll_broker st" "ll_gate (ll_track ord st) = ll_gate st"
  "ll_switch (ll_track ord st) = ll_switch st"
  "ll_by_oms (ll_track ord st) = AList.update (o_id ord) ord (ll_by_oms st)"
  "ll_broker_to_oms (ll_track ord st) = ll_broker_to_oms st"
  by (simp_all add: ll_track_def Let_def)

lemma engage_switch_simps [simp]:
  "ll_broker (engage_switch fails r a t st) = ll_broker st"
  "ll_gate (engage_switch fails r a t st) = ll_gate st"
  "ll_by_oms (engage_switch fails r a t st) = ll_by_oms st"
  "ll_broker_to_oms (engage_switch fails r a t st) = ll_broker_to_oms st"
  "ll_switch (engage_switch fails r a t st) = fst (snd (engage fails r a t (ll_switch st)))"
  by (simp_all add: engage_switch_def split: prod.splits)

lemma ll_ok_cong:
  "ll_by_oms a = ll_by_oms b \<Longrightarrow> ll_broker_to_oms a = ll_broker_to_oms b \<Longrightarrow> ll_ok a \<longleftrightarrow> ll_ok b"
  by (simp add: ll_ok_def)

lemma ll_ok_emit [simp]: "ll_ok (ll_emit es st) \<longleftrightarrow> ll_ok st"
  by (rule ll_ok_cong) simp_all

lemma ll_ok_broker [simp]: "ll_ok (st\<lparr>ll_broker := b\<rparr>) \<longleftrightarrow> ll_ok st"
  by (rule ll_ok_cong) simp_all

lemma ll_ok_switch [simp]: "ll_ok (st\<lparr>ll_switch := sw\<rparr>) \<longleftrightarrow> ll_ok st"
  by (rule ll_ok_cong) simp_all

lemma ll_ok_engage [simp]: "ll_ok (engage_switch fails r a t st) \<longleftrightarrow> ll_ok st"
  by (rule ll_ok_cong) simp_all

lemma ll_ok_track: "ll_ok st \<Longrightarrow> order_ok ord \<Longrightarrow> ll_ok (ll_track ord st)"
  by (auto simp: ll_ok_def distinct_update)

lemma ll_ok_link:
  "ll_ok st \<Longrightarrow> map_of (ll_by_oms st) k \<noteq> None \<Longrightarrow>
     ll_ok (st\<lparr>ll_broker_to_oms := AList.update bid k (ll_broker_to_oms st)\<rparr>)"
  by (auto simp: ll_ok_def distinct_update)

lemma settle_ok:
  assumes "ll_ok st" "order_ok ord"
  shows "ll_ok (snd (settle ord ev bid outcome st))"
proof (cases "apply_event ord ev")
  case (Inr r)
  have "order_ok r" by (rule apply_event_order_ok [OF assms(2) Inr])
  then have "ll_ok (ll_track r st)" by (rule ll_ok_track [OF assms(1)])
  then show ?thesis
    using ll_ok_link [of "ll_track r st" "o_id r"]
    by (auto simp: settle_def Inr Let_def split: option.splits)
qed (simp add: settle_def assms(1))

lemma settle_simps [simp]:
  "ll_broker (snd (settle ord ev bid outcome st)) = ll_broker st"
  "ll_gate (snd (settle ord ev bid outcome st)) = ll_gate st"
  "ll_switch (snd (settle ord ev bid outcome st)) = ll_switch st"
  by (auto simp: settle_def Let_def split: sum.splits option.splits)

lemma ll_submit_ok:
  assumes "ll_ok st" "order_ok ord"
  shows "ll_ok (snd (ll_submit submit fails now ord price st))"
  using assms
  by (auto simp: ll_submit_def Let_def settle_ok split: prod.splits CheckResult.splits
      sum.splits broker_error.splits)

lemma apply_broker_event_ok:
  assumes "ll_ok st"
  shows "ll_ok (snd (apply_broker_event ev bid st))"
proof (cases "\<exists>r. fst (apply_broker_event ev bid st) = Inr r")
  case True
  then obtain k ord r where "map_of (ll_by_oms st) k = Some ord" "apply_event ord ev = Inr r"
    "ll_by_oms (snd (apply_broker_event ev bid st)) = ll_by_oms (ll_track r st)"
    "ll_broker_to_oms (snd (apply_broker_event ev bid st)) = ll_broker_to_oms (ll_track r st)"
    by (auto simp: apply_broker_event_def split: option.splits sum.splits)
  moreover from this have "order_ok r"
    using ll_ok_order [OF assms] apply_event_order_ok by blast
  ultimately show ?thesis
    using ll_ok_track [OF assms] ll_ok_cong by blast
next
  case False
  then have "snd (apply_broker_event ev bid st) = st"
    by (auto simp: apply_broker_event_def split: option.splits sum.splits)
  then show ?thesis using assms by simp
qed

definition submits_ok :: "ll_op list \<Rightarrow> bool" where
  "submits_ok ops \<longleftrightarrow> (\<forall>t ord p. Submit t ord p \<in> set ops \<longrightarrow> order_ok ord)"

lemma ll_step_ok:
  assumes "ll_ok st" "submits_ok [x]"
  shows "ll_ok (ll_step submit fails st x)"
proof (cases x)
  case (Submit t ord p)
  then show ?thesis using assms ll_submit_ok by (simp add: submits_ok_def)
next
  case (BrokerEvent e bid)
  then show ?thesis using assms(1) apply_broker_event_ok by simp
qed (use assms(1) in \<open>auto split: prod.splits\<close>)

lemma ll_run_ok: "ll_ok st \<Longrightarrow> submits_ok ops \<Longrightarrow> ll_ok (ll_run submit fails st ops)"
proof (induction ops arbitrary: st)
  case (Cons x ops)
  have "ll_ok (ll_step submit fails st x)"
    by (rule ll_step_ok [OF Cons.prems(1)]) (use Cons.prems(2) in \<open>auto simp: submits_ok_def\<close>)
  moreover have "submits_ok ops" using Cons.prems(2) by (auto simp: submits_ok_def)
  ultimately show ?case using Cons.IH by (simp add: ll_run_def)
qed (simp add: ll_run_def)

text \<open>
  C7.  The registry of the live loop stays consistent through every sequence of submissions, broker
  events and switch operations, whatever the broker answers and however many calls raise: each
  order is filed under its own id and is well-formed, and each broker id leads to a filed order,
  so \<open>apply_broker_event\<close> never meets a \<open>KeyError\<close>.
\<close>

theorem loop_registry_consistent:
  assumes "ll_ok st" "submits_ok ops"
  shows "ll_ok (ll_run submit fails st ops)
    \<and> fst (apply_broker_event ev bid (ll_run submit fails st ops)) \<noteq> Inl (LoopKeyError k)"
proof -
  have ok: "ll_ok (ll_run submit fails st ops)"
    by (rule ll_run_ok [OF assms])
  then show ?thesis using ll_ok_linked [OF ok, of bid]
    by (auto simp: apply_broker_event_def split: option.splits sum.splits)
qed

definition sample_loop :: "'b \<Rightarrow> ('b, nat) LiveLoop" where
  "sample_loop b = \<lparr>ll_broker = b, ll_gate = (\<lambda>sw. [KillSwitchCheck sw]), ll_persister = True,
     ll_switch = init_switch, ll_by_oms = [], ll_broker_to_oms = [], ll_trace = []\<rparr>"

lemma sample_loop_ok: "ll_ok (sample_loop b)"
  by (simp add: ll_ok_def sample_loop_def)

theorem loop_registry_consistent_witness:
  "ll_ok (ll_run (paper_submit (\<lambda>s. Some 100) ''1'' 5) (\<lambda>_ _. True) (sample_loop sample_paper)
     [Submit 1 (sample_order NEW) (Some 100), BrokerEvent (AckEvent 2 ''b'') ''PAPER-1''])"
  by (rule loop_registry_consistent [THEN conjunct1, OF sample_loop_ok])
    (auto simp: submits_ok_def intro: sample_order_ok)

section \<open>The kill switch stops submissions\<close>

definition guarded :: "('b, 'o) LiveLoop \<Rightarrow> bool" where
  "guarded st \<longleftrightarrow> (\<forall>sw. KillSwitchCheck sw \<in> set (ll_gate st sw))"

definition releases :: "ll_op \<Rightarrow> bool" where
  "releases x = (case x of Disengage c a \<Rightarrow> c = DISENGAGE_TOKEN | _ \<Rightarrow> False)"

lemma ll_submit_stopped:
  assumes "guarded st" "is_engaged (ll_switch st)"
  shows "ll_broker (snd (ll_submit submit fails now ord price st)) = ll_broker st
    \<and> ll_switch (snd (ll_submit submit fails now ord price st)) = ll_switch st
    \<and> ll_gate (snd (ll_submit submit fails now ord price st)) = ll_gate st"
proof -
  have "fst (evaluate (ll_gate st (ll_switch st)) ord price) \<noteq> Approve"
    using gate_blocks_engaged [OF assms(2)] assms(1) by (simp add: guarded_def)
  then obtain r ms where "evaluate (ll_gate st (ll_switch st)) ord price = (Reject r, ms)"
    by (cases "evaluate (ll_gate st (ll_switch st)) ord price", cases "fst (evaluate (ll_gate st (ll_switch st)) ord price)") auto
  then show ?thesis by (simp add: ll_submit_def Let_def)
qed

lemma apply_broker_event_frame:
  "ll_broker (snd (apply_broker_event ev bid st)) = ll_broker st
   \<and> ll_switch (snd (apply_broker_event ev bid st)) = ll_switch st
   \<and> ll_gate (snd (apply_broker_event ev bid st)) = ll_gate st"
  by (auto simp: apply_broker_event_def split: option.splits sum.splits)

lemma engage_when_engaged: "is_engaged sw \<Longrightarrow> fst (snd (engage fails r a t sw)) = sw"
  by (simp add: engage_def is_engaged_def)

lemma disengage_refused: "c \<noteq> DISENGAGE_TOKEN \<Longrightarrow> disengage fails c a sw = (Inl BadConfirmation, sw, [])"
  by (simp add: disengage_def)

lemma ll_step_stopped:
  assumes "guarded st" "is_engaged (ll_switch st)" "\<not> releases x"
  shows "guarded (ll_step submit fails st x) \<and> ll_broker (ll_step submit fails st x) = ll_broker st
    \<and> ll_switch (ll_step submit fails st x) = ll_switch st"
proof (cases x)
  case (Submit t ord p)
  then show ?thesis using ll_submit_stopped [OF assms(1,2), of submit fails t ord p] assms(1)
    by (simp add: guarded_def)
next
  case (BrokerEvent e bid)
  then show ?thesis using apply_broker_event_frame [of e bid st] assms(1) by (simp add: guarded_def)
next
  case (Engage r a t)
  then show ?thesis using assms(1) engage_when_engaged [OF assms(2)] by (simp add: guarded_def)
next
  case (Disengage c a)
  then show ?thesis using assms(1,3) disengage_refused [of c fails a]
    by (simp add: guarded_def releases_def)
qed

lemma ll_run_stopped:
  "guarded st \<Longrightarrow> is_engaged (ll_switch st) \<Longrightarrow> \<not> list_ex releases ops \<Longrightarrow>
     ll_broker (ll_run submit fails st ops) = ll_broker st
     \<and> is_engaged (ll_switch (ll_run submit fails st ops))"
proof (induction ops arbitrary: st)
  case (Cons x ops)
  note step = ll_step_stopped [OF Cons.prems(1,2), of x submit fails]
  show ?case using Cons.IH [of "ll_step submit fails st x"] step Cons.prems
    by (simp add: ll_run_def)
qed (simp add: ll_run_def)

text \<open>
  C1.  While the switch is engaged and the gate has the kill-switch check, no operation of the loop calls
  the broker, whatever is submitted and whatever events arrive: only a disengage with the
  confirmation token lets an order through again.
\<close>

theorem engaged_loop_spares_broker:
  assumes "guarded st" "is_engaged (ll_switch st)" "\<not> list_ex releases ops"
  shows "ll_broker (ll_run submit fails st ops) = ll_broker st
    \<and> is_engaged (ll_switch (ll_run submit fails st ops))"
  by (rule ll_run_stopped [OF assms])

theorem engaged_loop_spares_broker_witness:
  "ll_broker (ll_run (\<lambda>ord n. (Inl (BrokerError ''down''), n + 1)) (\<lambda>_ _. False)
     ((sample_loop (0::nat))\<lparr>ll_switch := init_switch\<lparr>ks_state := ENGAGED\<rparr>\<rparr>)
     [Submit 1 (sample_order NEW) None, Disengage ''yes'' ''ops'', Submit 2 (sample_order NEW) None]) = 0"
proof -
  let ?st = "(sample_loop (0::nat))\<lparr>ll_switch := init_switch\<lparr>ks_state := ENGAGED\<rparr>\<rparr>"
  have "guarded ?st" "is_engaged (ll_switch ?st)" "ll_broker ?st = 0"
    by (simp_all add: guarded_def sample_loop_def is_engaged_def)
  then show ?thesis
    using engaged_loop_spares_broker [of ?st "[Submit 1 (sample_order NEW) None,
        Disengage ''yes'' ''ops'', Submit 2 (sample_order NEW) None]"
        "\<lambda>ord n. (Inl (BrokerError ''down''), n + 1)" "\<lambda>_ _. False"]
    by (simp add: releases_def DISENGAGE_TOKEN_def)
qed

lemma engage_engages: "py_strip r \<noteq> [] \<Longrightarrow> is_engaged (fst (snd (engage fails r a t sw)))"
  by (auto simp: engage_def is_engaged_def Let_def py_strip_def)

lemma submit_auth_error:
  assumes "fst (ll_submit submit fails now ord price st) = Inl (LoopBroker (BrokerAuthError m))"
  shows "is_engaged (ll_switch (snd (ll_submit submit fails now ord price st)))
    \<and> ll_gate (snd (ll_submit submit fails now ord price st)) = ll_gate st"
proof -
  have "is_engaged (fst (snd (engage fails ''broker_auth_error'' ''live_loop'' now sw)))" for sw
    by (rule engage_engages) (simp add: py_strip_Nil_iff py_space_def)
  then show ?thesis using assms
    by (auto simp: ll_submit_def settle_def Let_def split: prod.splits CheckResult.splits
        sum.splits broker_error.splits)
qed

text \<open>
  C2.  An authentication error of the broker stops the loop: when \<open>submit\<close> raises it, the switch is
  engaged, and with the kill-switch check in the gate no later operation reaches the broker before
  a confirmed disengage.
\<close>

theorem auth_error_stops_loop:
  assumes "guarded st" "ll_submit submit fails now ord price st = (Inl (LoopBroker (BrokerAuthError m)), st')"
    and "\<not> list_ex releases ops"
  shows "is_engaged (ll_switch st') \<and> ll_broker (ll_run submit fails st' ops) = ll_broker st'"
proof -
  have st': "is_engaged (ll_switch st')" "ll_gate st' = ll_gate st"
    using submit_auth_error [of submit fails now ord price st m] assms(2) by simp_all
  then show ?thesis using ll_run_stopped [of st' ops submit fails] assms(1,3)
    by (simp add: guarded_def)
qed

theorem auth_error_stops_loop_witness:
  "\<exists>st' :: (nat, nat) LiveLoop. ll_broker st' = 1 \<and>
     ll_broker (ll_run (\<lambda>ord n. (Inl (BrokerAuthError ''401''), n + 1)) (\<lambda>_ _. False) st'
       [Submit 2 (sample_order NEW) None]) = (1::nat)"
proof -
  let ?f = "\<lambda>ord n. (Inl (BrokerAuthError ''401''), n + 1 :: nat)"
  obtain st' where sub: "ll_submit ?f (\<lambda>_ _. False) 1 (sample_order NEW) None (sample_loop 0) =
      (Inl (LoopBroker (BrokerAuthError ''401'')), st')" "ll_broker st' = 1"
    by (simp add: ll_submit_def sample_loop_def KillSwitchCheck_def is_engaged_def init_switch_def Let_def)
  have "guarded (sample_loop (0::nat))" by (simp add: guarded_def sample_loop_def)
  from auth_error_stops_loop [OF this sub(1), of "[Submit 2 (sample_order NEW) None]"] sub(2)
  show ?thesis by (auto simp: releases_def)
qed

section \<open>From the submission to the last event\<close>

lemma consume_applies:
  "map_of (ll_broker_to_oms st) bid = Some k \<Longrightarrow> map_of (ll_by_oms st) k = Some ord \<Longrightarrow> o_id ord = k \<Longrightarrow>
   apply_events ord es = Inr r \<Longrightarrow>
     fst (consume es bid st) = None \<and> ll_get k (snd (consume es bid st)) = Some r"
proof (induction es arbitrary: st ord)
  case Nil
  then show ?case by (simp add: ll_get_def)
next
  case (Cons e es)
  then obtain m where m: "apply_event ord e = Inr m" "apply_events m es = Inr r"
    by (auto split: sum.splits)
  have idm: "o_id m = k"
    using apply_event_frame [OF m(1)] Cons.prems(3) by (simp add: same_order_def)
  obtain st' where st': "apply_broker_event e bid st = (Inr m, st')"
    "ll_by_oms st' = ll_by_oms (ll_track m st)" "ll_broker_to_oms st' = ll_broker_to_oms st"
    using Cons.prems(1,2) m(1) by (simp add: apply_broker_event_def)
  show ?case using Cons.IH [of st' m] Cons.prems(1) m(2) st' idm by simp
qed

context broker_adapter
begin

text \<open>
  The loop on any broker that keeps the contract: an order the gate and the broker accept is
  filed, linked to its broker id, and the events the broker queued for it all apply.
\<close>

lemma submit_then_consume:
  assumes gate: "fst (evaluate (ll_gate st (ll_switch st)) ord price) = Approve"
    and fr: "fresh_order ord" and acc: "submit ord (ll_broker st) = (Inr s, b')"
  obtains es r st' ord' where "ll_submit submit fails now ord price st = (Inr ord', st')"
    "ll_broker st' = b'" "queue b' = queue (ll_broker st) @ es"
    "apply_events ord (SubmitEvent now (Some (sub_broker_order_id s)) # es) = Inr r" "order_ok r"
    "fst (consume es (sub_broker_order_id s) st') = None"
    "ll_get (o_id ord) (snd (consume es (sub_broker_order_id s) st')) = Some r"
proof -
  let ?bid = "sub_broker_order_id s"
  obtain ms where ms: "evaluate (ll_gate st (ll_switch st)) ord price = (Approve, ms)"
    using gate by (cases "evaluate (ll_gate st (ll_switch st)) ord price") simp
  obtain es r where es: "queue b' = queue (ll_broker st) @ es"
    and run: "apply_events ord (SubmitEvent now (Some ?bid) # es) = Inr r" and ok: "order_ok r"
    using queued_events_fit [OF acc fr, of now] by blast
  from run obtain m where m: "apply_event ord (SubmitEvent now (Some ?bid)) = Inr m" "apply_events m es = Inr r"
    unfolding apply_events.simps by (cases "apply_event ord (SubmitEvent now (Some ?bid))") auto
  have idm: "o_id m = o_id ord" using apply_event_frame [OF m(1)] by (simp add: same_order_def)
  obtain st' where st': "ll_submit submit fails now ord price st = (Inr m, st')" "ll_broker st' = b'"
    "map_of (ll_broker_to_oms st') ?bid = Some (o_id ord)" "map_of (ll_by_oms st') (o_id ord) = Some m"
    using ms acc m(1) idm by (simp add: ll_submit_def settle_def Let_def del: apply_event.simps)
  show ?thesis
    by (rule that [OF st'(1,2) es run ok]) (simp_all add: consume_applies [OF st'(3,4) idm m(2)])
qed

end

text \<open>
  C3.  A market order goes all the way with the paper broker: approved by the gate and accepted by the
  broker, it is submitted, and after the loop has consumed the events the broker queued for it the
  registry holds it \<open>FILLED\<close> with its whole quantity.
\<close>

theorem market_order_end_to_end:
  assumes "fst (evaluate (ll_gate st (ll_switch st)) ord price) = Approve"
    and "fresh_order ord" "o_type ord = MARKET"
    and "usable_price (price_for (o_symbol ord)) = Some p"
  shows "\<exists>es st' ord' r.
      ll_submit (paper_submit price_for fresh t) fails now ord price st = (Inr ord', st')
    \<and> pb_events (ll_broker st') = pb_events (ll_broker st) @ es
    \<and> fst (consume es (''PAPER-'' @ fresh) st') = None
    \<and> ll_get (o_id ord) (snd (consume es (''PAPER-'' @ fresh) st')) = Some r
    \<and> o_status r = FILLED \<and> o_filled r = o_quantity ord"
proof -
  let ?es = "[AckEvent t (''PAPER-'' @ fresh), FillEvent t (o_quantity ord) p (''FILL-PAPER-'' @ fresh)]"
  let ?s = "\<lparr>sub_order_id = o_id ord, sub_broker_order_id = ''PAPER-'' @ fresh\<rparr>"
  note sub = paper_submit_market [where price_for = price_for and fresh = fresh and now = t and b = "ll_broker st", OF assms(3,4)]
  obtain b' where acc: "paper_submit price_for fresh t ord (ll_broker st) = (Inr ?s, b')"
    "pb_events b' = pb_events (ll_broker st) @ ?es"
    using sub by (cases "paper_submit price_for fresh t ord (ll_broker st)") auto
  obtain r0 where r0: "apply_events ord (SubmitEvent now (Some (''PAPER-'' @ fresh)) # ?es) = Inr r0"
    "o_status r0 = FILLED" "o_filled r0 = o_quantity ord"
    using apply_submit_ack_fill [OF assms(2)] by blast
  obtain es r st' ord' where
    "ll_submit (paper_submit price_for fresh t) fails now ord price st = (Inr ord', st')"
    "ll_broker st' = b'" "pb_events b' = pb_events (ll_broker st) @ es"
    "apply_events ord (SubmitEvent now (Some (''PAPER-'' @ fresh)) # es) = Inr r" "order_ok r"
    "fst (consume es (''PAPER-'' @ fresh) st') = None"
    "ll_get (o_id ord) (snd (consume es (''PAPER-'' @ fresh) st')) = Some r"
    by (rule paper.submit_then_consume [OF assms(1,2) acc(1), of fails now,
          unfolded SubmittedOrder.select_convs])
  moreover from this have "es = ?es" using acc(2) by simp
  ultimately show ?thesis using r0 by (metis sum.inject(2))
qed

theorem market_order_end_to_end_witness:
  "\<exists>es st' r. fst (consume es ''PAPER-1'' st') = None
     \<and> ll_get ''a'' (snd (consume es ''PAPER-1'' st')) = Some (r :: Order) \<and> o_filled r = 10
     \<and> pb_events (ll_broker (st' :: (PaperBroker, nat) LiveLoop)) = es"
proof -
  let ?st = "sample_loop sample_paper"
  have "fst (evaluate (ll_gate ?st (ll_switch ?st)) (sample_order NEW) None) = Approve"
    by (simp add: sample_loop_def KillSwitchCheck_def is_engaged_def init_switch_def)
  moreover have "o_type (sample_order NEW) = MARKET" "usable_price (Some 100) = Some 100"
    by (simp_all add: sample_order_def usable_price_def)
  ultimately show ?thesis
    using market_order_end_to_end [OF _ sample_fresh, of ?st None "\<lambda>s. Some 100" 100 "''1''" 5
        "\<lambda>_ _. False" 4]
    by (auto simp: sample_order_def sample_loop_def sample_paper_def simp del: consume.simps)
qed

text \<open>
  An order that is not \<open>NEW\<close> still reaches the broker: when the gate approves it and the broker
  accepts it, \<open>submit\<close> raises the illegal transition only afterwards; the broker has the order and
  the loop tracks neither the order nor its broker id, so its later events are unknown.
\<close>

theorem resubmission_is_orphaned:
  assumes "fst (evaluate (ll_gate st (ll_switch st)) ord price) = Approve"
    and "submit ord (ll_broker st) = (Inr s, b')" "o_status ord \<noteq> NEW"
  shows "\<exists>st'. ll_submit submit fails now ord price st =
        (Inl (LoopOms (IllegalTransition (o_status ord) SUBMITTED)), st')
      \<and> ll_broker st' = b' \<and> ll_by_oms st' = ll_by_oms st
      \<and> ll_broker_to_oms st' = ll_broker_to_oms st"
proof -
  have "apply_event ord (SubmitEvent t bid) = Inl (IllegalTransition (o_status ord) SUBMITTED)" for t bid
    using assms(3) by (cases "o_status ord") (simp_all add: with_status_def can_transition_def)
  then show ?thesis using assms(1,2)
    by (cases "evaluate (ll_gate st (ll_switch st)) ord price")
      (simp add: ll_submit_def settle_def Let_def del: apply_event.simps)
qed

end
