(* ===== verification/CostModel.thy ===== *)
theory CostModel
  imports Prelude
begin

text \<open>
  Transaction costs and taxes, \<open>engine/core/cost_model.py\<close>: money, cost breakdowns, tax lots, and
  the operations of \<open>DefaultCostModel\<close>.

  A \<open>float\<close> is a rational and every operation on it rounds (\<open>fadd\<close>, \<open>fmul\<close>, ... of
  \<open>Rounding\<close>); an \<open>int\<close> that meets a float is converted by \<open>fint\<close>.  Overflow to infinity
  and NaN are outside the model.  The rates are the fields of the model's record.
  The clock an operation falls back on is the argument \<open>now\<close>.

  The locale \<open>cost_model\<close> is what a client of the abstract class \<open>ICostModel\<close> relies on.
\<close>

section \<open>Money and breakdowns\<close>

datatype TaxMethod = FIFO | LIFO | SPECIFIC_LOT

record Money =
  amount :: rat
  currency :: string

definition usd :: "rat \<Rightarrow> Money" where
  "usd x = \<lparr>amount = x, currency = ''USD''\<rparr>"

text \<open>The additions assert equal currencies; \<open>None\<close> is the \<open>AssertionError\<close>.\<close>

definition money_add :: "Money \<Rightarrow> Money \<Rightarrow> Money option" where
  "money_add a b = (if currency a = currency b
     then Some \<lparr>amount = fadd (amount a) (amount b), currency = currency a\<rparr> else None)"

definition money_sub :: "Money \<Rightarrow> Money \<Rightarrow> Money option" where
  "money_sub a b = (if currency a = currency b
     then Some \<lparr>amount = fsub (amount a) (amount b), currency = currency a\<rparr> else None)"

definition money_is_zero :: "Money \<Rightarrow> bool" where
  "money_is_zero a = (\<bar>amount a\<bar> < f64 (1 / 10 ^ 10))"

definition as_pct_of :: "Money \<Rightarrow> rat \<Rightarrow> rat" where
  "as_pct_of a whole = (if whole = 0 then 0 else fmul (fdiv (amount a) whole) 100)"

record CostBreakdown =
  commission :: Money
  spread :: Money
  slippage :: Money
  exchange_fee :: Money
  tax_estimate :: Money
  currency_conversion :: Money

definition cb_total :: "CostBreakdown \<Rightarrow> Money" where
  "cb_total c = usd (fadd (fadd (fadd (fadd (fadd (amount (commission c)) (amount (spread c)))
     (amount (slippage c))) (amount (exchange_fee c))) (amount (tax_estimate c)))
     (amount (currency_conversion c)))"

definition total_without_tax :: "CostBreakdown \<Rightarrow> Money" where
  "total_without_tax c = usd (fsub (amount (cb_total c)) (amount (tax_estimate c)))"

definition as_dict :: "CostBreakdown \<Rightarrow> (string, rat) dict" where
  "as_dict c = [(''commission'', amount (commission c)), (''spread'', amount (spread c)),
     (''slippage'', amount (slippage c)), (''exchange_fee'', amount (exchange_fee c)),
     (''tax_estimate'', amount (tax_estimate c)),
     (''currency_conversion'', amount (currency_conversion c)), (''total'', amount (cb_total c))]"

section \<open>Tax lots\<close>

record TaxLot =
  lot_symbol :: string
  lot_quantity :: int
  lot_price :: rat
  lot_date :: datetime
  lot_id :: string

definition is_long_term :: "datetime option \<Rightarrow> datetime \<Rightarrow> TaxLot \<Rightarrow> bool" where
  "is_long_term as_of now lot =
     (365 \<le> days_between (case as_of of Some d \<Rightarrow> d | None \<Rightarrow> now) (lot_date lot))"

definition lot_cost_basis :: "TaxLot \<Rightarrow> rat" where
  "lot_cost_basis lot = fmul (fint (lot_quantity lot)) (lot_price lot)"

text \<open>The order in which a method takes the lots; \<open>LIFO\<close> is Python's stable reverse sort.\<close>

definition lot_order :: "TaxMethod \<Rightarrow> TaxLot list \<Rightarrow> TaxLot list" where
  "lot_order m lots = (case m of
     FIFO \<Rightarrow> sort_key lot_date lots
   | LIFO \<Rightarrow> sort_key_desc lot_date lots
   | SPECIFIC_LOT \<Rightarrow> lots)"

section \<open>The default cost model\<close>

record DefaultCostModel =
  commission_per_trade :: rat
  spread_bps :: rat
  slippage_bps :: rat
  exchange_fee_per_share :: rat
  short_term_tax_rate :: rat
  long_term_tax_rate :: rat
  qualified_dividend_rate :: rat
  ordinary_dividend_rate :: rat
  wash_sale_window_days :: int

definition default_cost_model :: DefaultCostModel where
  "default_cost_model = \<lparr>commission_per_trade = 0, spread_bps = 5, slippage_bps = 10,
     exchange_fee_per_share = f64 (3 / 10000), short_term_tax_rate = f64 (37 / 100),
     long_term_tax_rate = f64 (20 / 100), qualified_dividend_rate = f64 (15 / 100),
     ordinary_dividend_rate = f64 (37 / 100), wash_sale_window_days = 30\<rparr>"

definition estimate_commission :: "DefaultCostModel \<Rightarrow> string \<Rightarrow> int \<Rightarrow> rat \<Rightarrow> Money" where
  "estimate_commission m symbol quantity price = usd (commission_per_trade m)"

definition estimate_spread :: "DefaultCostModel \<Rightarrow> string \<Rightarrow> rat \<Rightarrow> string \<Rightarrow> Money" where
  "estimate_spread m symbol price side = usd (fmul price (fdiv (spread_bps m) 10000))"

definition estimate_slippage :: "DefaultCostModel \<Rightarrow> string \<Rightarrow> int \<Rightarrow> rat \<Rightarrow> int \<Rightarrow> Money" where
  "estimate_slippage m symbol quantity price avg_volume =
     (let base = fmul (fmul price (fdiv (slippage_bps m) 10000)) (fint quantity) in
      if 0 < avg_volume
      then let participation_rate = f64 (of_int quantity / of_int avg_volume);
               impact_multiplier = fadd 1 (fmul participation_rate 10)
           in usd (fmul base impact_multiplier)
      else usd base)"

definition estimate_total ::
  "DefaultCostModel \<Rightarrow> string \<Rightarrow> int \<Rightarrow> rat \<Rightarrow> string \<Rightarrow> int \<Rightarrow> CostBreakdown" where
  "estimate_total m symbol quantity price side avg_volume =
     \<lparr>commission = estimate_commission m symbol quantity price,
      spread = estimate_spread m symbol price side,
      slippage = estimate_slippage m symbol quantity price avg_volume,
      exchange_fee = usd (fmul (exchange_fee_per_share m) (fint quantity)),
      tax_estimate = usd 0,
      currency_conversion = usd 0\<rparr>"

definition estimate_pct :: "DefaultCostModel \<Rightarrow> string \<Rightarrow> rat \<Rightarrow> string \<Rightarrow> rat" where
  "estimate_pct m symbol price side =
     (let one_side_bps = fadd (spread_bps m) (slippage_bps m);
          round_trip_bps = fmul one_side_bps 2;
          commission_bps = (if 0 < price then fmul (fdiv (commission_per_trade m) price) 10000 else 0)
      in fdiv (fadd round_trip_bps commission_bps) 10000)"

text \<open>The loop of \<open>estimate_tax\<close> over the ordered lots.\<close>

definition lot_tax :: "DefaultCostModel \<Rightarrow> rat \<Rightarrow> datetime \<Rightarrow> int \<Rightarrow> TaxLot \<Rightarrow> rat \<Rightarrow> rat" where
  "lot_tax m sell_price ref_date shares lot total_tax =
     (let gain = fmul (fsub sell_price (lot_price lot)) (fint shares) in
      if 0 < gain
      then let rate = (if is_long_term (Some ref_date) ref_date lot
                       then long_term_tax_rate m else short_term_tax_rate m)
           in fadd total_tax (fmul gain rate)
      else total_tax)"

fun tax_loop :: "DefaultCostModel \<Rightarrow> rat \<Rightarrow> datetime \<Rightarrow> int \<Rightarrow> rat \<Rightarrow> TaxLot list \<Rightarrow> rat" where
  "tax_loop m sell_price ref_date remaining total_tax [] = total_tax"
| "tax_loop m sell_price ref_date remaining total_tax (lot # lots) =
     (if remaining \<le> 0 then total_tax
      else let shares = min remaining (lot_quantity lot) in
        tax_loop m sell_price ref_date (remaining - shares)
          (lot_tax m sell_price ref_date shares lot total_tax) lots)"

definition estimate_tax :: "DefaultCostModel \<Rightarrow> string \<Rightarrow> rat \<Rightarrow> int \<Rightarrow> TaxLot list \<Rightarrow> TaxMethod
    \<Rightarrow> datetime option \<Rightarrow> datetime \<Rightarrow> Money" where
  "estimate_tax m symbol sell_price quantity lots tm sell_date now =
     usd (max 0 (tax_loop m sell_price (case sell_date of Some d \<Rightarrow> d | None \<Rightarrow> now) quantity 0
                   (lot_order tm lots)))"

definition estimate_dividend_tax :: "DefaultCostModel \<Rightarrow> rat \<Rightarrow> bool \<Rightarrow> Money" where
  "estimate_dividend_tax m dividend is_qualified = usd (fmul dividend
     (if is_qualified then qualified_dividend_rate m else ordinary_dividend_rate m))"

section \<open>Wash sales\<close>

text \<open>An entry of \<open>buy_history\<close> is a dictionary in which any key may be missing.\<close>

record Buy =
  buy_date :: "datetime option"
  buy_symbol :: "string option"
  buy_price :: "rat option"
  buy_quantity :: "int option"

datatype cost_error = MissingDate

record Replacement =
  rep_date :: datetime
  rep_price :: rat
  rep_quantity :: int

record WashAdjustment =
  is_wash_sale :: bool
  adjustment :: rat
  adjustment_per_share :: rat
  replacement_lots :: "Replacement list"

text \<open>\<open>buy.get("symbol", "") == symbol and window_start <= buy_date <= window_end\<close>.\<close>

definition in_window :: "DefaultCostModel \<Rightarrow> string \<Rightarrow> datetime \<Rightarrow> datetime \<Rightarrow> Buy \<Rightarrow> bool" where
  "in_window m symbol sell_date d buy =
     ((case buy_symbol buy of None \<Rightarrow> [] | Some s \<Rightarrow> s) = symbol
      \<and> sell_date - wash_sale_window_days m * us_per_day \<le> d
      \<and> d \<le> sell_date + wash_sale_window_days m * us_per_day)"

fun check_wash_sale :: "DefaultCostModel \<Rightarrow> string \<Rightarrow> datetime \<Rightarrow> Buy list \<Rightarrow> cost_error + bool" where
  "check_wash_sale m symbol sell_date [] = Inr False"
| "check_wash_sale m symbol sell_date (buy # buys) =
     (case buy_date buy of
        None \<Rightarrow> Inl MissingDate
      | Some d \<Rightarrow> if in_window m symbol sell_date d buy then Inr True
                  else check_wash_sale m symbol sell_date buys)"

fun replacements ::
  "DefaultCostModel \<Rightarrow> string \<Rightarrow> datetime \<Rightarrow> Buy list \<Rightarrow> cost_error + Replacement list" where
  "replacements m symbol sell_date [] = Inr []"
| "replacements m symbol sell_date (buy # buys) =
     (case buy_date buy of
        None \<Rightarrow> Inl MissingDate
      | Some d \<Rightarrow>
          (case replacements m symbol sell_date buys of
             Inl e \<Rightarrow> Inl e
           | Inr reps \<Rightarrow>
               Inr (if in_window m symbol sell_date d buy
                    then \<lparr>rep_date = d,
                          rep_price = (case buy_price buy of None \<Rightarrow> 0 | Some p \<Rightarrow> p),
                          rep_quantity = (case buy_quantity buy of None \<Rightarrow> 0 | Some q \<Rightarrow> q)\<rparr> # reps
                    else reps)))"

definition no_wash_sale :: WashAdjustment where
  "no_wash_sale = \<lparr>is_wash_sale = False, adjustment = 0, adjustment_per_share = 0,
     replacement_lots = []\<rparr>"

definition calculate_wash_sale_adjustment ::
  "DefaultCostModel \<Rightarrow> string \<Rightarrow> datetime \<Rightarrow> rat \<Rightarrow> Buy list \<Rightarrow> cost_error + WashAdjustment" where
  "calculate_wash_sale_adjustment m symbol sell_date loss_amount buy_history =
     (if 0 \<le> loss_amount then Inr no_wash_sale
      else case replacements m symbol sell_date buy_history of
        Inl e \<Rightarrow> Inl e
      | Inr [] \<Rightarrow> Inr no_wash_sale
      | Inr reps \<Rightarrow>
          let qty = sum_list (map rep_quantity reps) in
          Inr \<lparr>is_wash_sale = True, adjustment = \<bar>loss_amount\<bar>,
               adjustment_per_share = (if 0 < qty then fdiv \<bar>loss_amount\<bar> (fint qty) else 0),
               replacement_lots = reps\<rparr>)"

section \<open>The contract of a cost model\<close>

definition costs_nonneg :: "CostBreakdown \<Rightarrow> bool" where
  "costs_nonneg c \<longleftrightarrow> 0 \<le> amount (commission c) \<and> 0 \<le> amount (spread c) \<and> 0 \<le> amount (slippage c)
     \<and> 0 \<le> amount (exchange_fee c) \<and> 0 \<le> amount (tax_estimate c) \<and> 0 \<le> amount (currency_conversion c)"

lemma amount_usd [simp]: "amount (usd x) = x"
  by (simp add: usd_def)

lemma cb_total_nonneg: "costs_nonneg c \<Longrightarrow> 0 \<le> amount (cb_total c)"
  by (simp add: costs_nonneg_def cb_total_def float_nonneg)

lemma cb_total_ge_tax:
  assumes "costs_nonneg c" "f64 (amount (tax_estimate c)) = amount (tax_estimate c)"
  shows "amount (tax_estimate c) \<le> amount (cb_total c)"
proof -
  let ?a = "fadd (fadd (fadd (amount (commission c)) (amount (spread c))) (amount (slippage c)))
      (amount (exchange_fee c))"
  have "amount (tax_estimate c) \<le> fadd ?a (amount (tax_estimate c))"
    using assms(1) by (intro fadd_ge2 [OF assms(2)] float_nonneg) (simp_all add: costs_nonneg_def)
  also have "\<dots> \<le> fadd \<dots> (amount (currency_conversion c))"
    using assms(1) by (intro fadd_ge1) (simp_all add: costs_nonneg_def)
  finally show ?thesis by (simp add: cb_total_def)
qed

locale cost_model =
  fixes estimate :: "string \<Rightarrow> int \<Rightarrow> rat \<Rightarrow> string \<Rightarrow> int \<Rightarrow> CostBreakdown"
  assumes nonneg: "0 \<le> quantity \<Longrightarrow> 0 \<le> price \<Longrightarrow> costs_nonneg (estimate symbol quantity price side volume)"
    and tax_float: "f64 (amount (tax_estimate (estimate symbol quantity price side volume))) =
      amount (tax_estimate (estimate symbol quantity price side volume))"
begin

lemma total_nonneg:
  "0 \<le> quantity \<Longrightarrow> 0 \<le> price \<Longrightarrow> 0 \<le> amount (cb_total (estimate symbol quantity price side volume))"
  using cb_total_nonneg nonneg by blast

lemma tax_le_total:
  assumes "0 \<le> quantity" "0 \<le> price"
  shows "amount (tax_estimate (estimate symbol quantity price side volume))
    \<le> amount (cb_total (estimate symbol quantity price side volume))"
  by (rule cb_total_ge_tax [OF nonneg [OF assms] tax_float])

end

definition rates_nonneg :: "DefaultCostModel \<Rightarrow> bool" where
  "rates_nonneg m \<longleftrightarrow> 0 \<le> commission_per_trade m \<and> 0 \<le> spread_bps m \<and> 0 \<le> slippage_bps m
     \<and> 0 \<le> exchange_fee_per_share m \<and> 0 \<le> short_term_tax_rate m \<and> 0 \<le> long_term_tax_rate m"

lemma estimate_total_nonneg:
  assumes "rates_nonneg m" "0 \<le> quantity" "0 \<le> price"
  shows "costs_nonneg (estimate_total m symbol quantity price side volume)"
proof -
  have "0 \<le> f64 (of_int quantity / of_int volume :: rat)" if "0 < volume"
    using assms(2) that by (intro f64.div_nonneg) simp_all
  then show ?thesis using assms
    by (simp add: costs_nonneg_def estimate_total_def estimate_commission_def estimate_spread_def
        estimate_slippage_def rates_nonneg_def float_nonneg fint_nonneg Let_def)
qed

lemma default_rates_nonneg: "rates_nonneg default_cost_model"
  by (simp add: rates_nonneg_def default_cost_model_def f64.nonneg)

interpretation default_costs: cost_model "estimate_total default_cost_model"
  by unfold_locales (simp_all add: estimate_total_nonneg default_rates_nonneg, simp add: estimate_total_def)

end
