(* ===== verification/Portfolio.thy ===== *)
theory Portfolio
  imports CostModel
begin

text \<open>
  The portfolio of the back test and the paper runner, \<open>engine/core/portfolio.py\<close>: positions,
  tax lots, the trade and sell histories.

  The objects are mutable in the code: a \<open>TaxLot\<close> is shared by the list of its symbol and the
  sorted copy \<open>_consume_lots\<close> walks.  Lots are identified by their \<open>lot_id\<close> (a fresh
  \<open>uuid4\<close>), so writing to a lot is \<open>put_lot\<close> on the list of its symbol.  An operation returns its
  result or the exception, and the portfolio it leaves: an exception after a write leaves the write.
\<close>

section \<open>State\<close>

record Position =
  pos_symbol :: string
  pos_quantity :: int
  pos_avg_cost :: rat
  pos_price :: rat

definition pos_is_zero :: "Position \<Rightarrow> bool" where
  "pos_is_zero pos = (pos_quantity pos = 0)"

definition market_value :: "Position \<Rightarrow> rat" where
  "market_value pos = fmul (fint (pos_quantity pos))
     (if 0 < pos_price pos then pos_price pos else pos_avg_cost pos)"

record TradeRecord =
  tr_timestamp :: datetime
  tr_side :: string
  tr_symbol :: string
  tr_quantity :: int
  tr_price :: rat
  tr_cost :: rat
  tr_tax :: rat
  tr_lot_ids :: "string list"

record SellRecord =
  sell_symbol :: string
  sell_date :: datetime
  sell_quantity :: int
  sell_price :: rat
  sell_cost_basis :: rat
  sell_gain :: rat

record Portfolio =
  pf_initial_cash :: rat
  pf_cash :: rat
  pf_positions :: "(string, Position) dict"
  pf_tax_lots :: "(string, TaxLot list) dict"
  pf_trades :: "TradeRecord list"
  pf_sells :: "SellRecord list"
  pf_realized_pnl :: rat
  pf_tax_method :: TaxMethod
  pf_cost_model :: DefaultCostModel
  pf_transaction_date :: "datetime option"

definition new_portfolio :: "rat \<Rightarrow> TaxMethod \<Rightarrow> DefaultCostModel option \<Rightarrow> Portfolio" where
  "new_portfolio cash0 tm cm = \<lparr>pf_initial_cash = cash0, pf_cash = cash0, pf_positions = [],
     pf_tax_lots = [], pf_trades = [], pf_sells = [], pf_realized_pnl = 0, pf_tax_method = tm,
     pf_cost_model = (case cm of None \<Rightarrow> default_cost_model | Some m \<Rightarrow> m),
     pf_transaction_date = None\<rparr>"

definition total_value :: "Portfolio \<Rightarrow> rat" where
  "total_value p = fadd (pf_cash p) (fsum (map market_value (dict_values (pf_positions p))))"

definition total_return_pct :: "Portfolio \<Rightarrow> rat" where
  "total_return_pct p = (if pf_initial_cash p = 0 then 0
     else fmul (fdiv (fsub (total_value p) (pf_initial_cash p)) (pf_initial_cash p)) 100)"

datatype pf_error =
  NoTaxLots string
| LotsInsufficient int string
| InsufficientCash rat rat
| NoPosition string
| CannotSell int string int
| DivisionByZero

section \<open>Consuming lots\<close>

record Consumed =
  c_lot_id :: string
  c_quantity :: int
  c_price :: rat
  c_date :: datetime
  c_long_term :: bool

definition get_tax_lots :: "string \<Rightarrow> Portfolio \<Rightarrow> TaxLot list" where
  "get_tax_lots symbol p = (case map_of (pf_tax_lots p) symbol of None \<Rightarrow> [] | Some ls \<Rightarrow> ls)"

definition put_lot :: "TaxLot \<Rightarrow> TaxLot list \<Rightarrow> TaxLot list" where
  "put_lot lot lots = map (\<lambda>l. if lot_id l = lot_id lot then lot else l) lots"

text \<open>\<open>lot.quantity -= q\<close>, and \<open>lots.remove(lot)\<close> when nothing is left of it.\<close>

definition use_lot :: "int \<Rightarrow> TaxLot \<Rightarrow> TaxLot list \<Rightarrow> TaxLot list" where
  "use_lot q lot lots =
     (let lot' = lot\<lparr>lot_quantity := lot_quantity lot - q\<rparr>;
          lots' = put_lot lot' lots
      in if lot_quantity lot' \<le> 0 then remove1 lot' lots' else lots')"

text \<open>The loop: consumed entries, cost basis, what remains unfilled, and the lots of the symbol.\<close>

fun consume_loop ::
  "datetime \<Rightarrow> TaxLot list \<Rightarrow> int \<Rightarrow> rat \<Rightarrow> TaxLot list \<Rightarrow> Consumed list \<times> rat \<times> int \<times> TaxLot list" where
  "consume_loop d [] remaining basis lots = ([], basis, remaining, lots)"
| "consume_loop d (lot # rest) remaining basis lots =
     (if remaining \<le> 0 then ([], basis, remaining, lots)
      else
        let q = min remaining (lot_quantity lot);
            c = \<lparr>c_lot_id = lot_id lot, c_quantity = q, c_price = lot_price lot,
                 c_date = lot_date lot, c_long_term = is_long_term (Some d) d lot\<rparr>
        in case consume_loop d rest (remaining - q)
                  (fadd basis (fmul (fint q) (lot_price lot))) (use_lot q lot lots) of
             (cs, basis', remaining', lots') \<Rightarrow> (c # cs, basis', remaining', lots'))"

definition consume_lots ::
  "string \<Rightarrow> int \<Rightarrow> datetime \<Rightarrow> Portfolio \<Rightarrow> (pf_error + Consumed list \<times> rat) \<times> Portfolio" where
  "consume_lots symbol quantity d p =
     (let lots = get_tax_lots symbol p in
      if lots = [] then (Inl (NoTaxLots symbol), p)
      else case consume_loop d (lot_order (pf_tax_method p) lots) quantity 0 lots of
        (cs, basis, remaining, lots') \<Rightarrow>
          let p' = p\<lparr>pf_tax_lots := AList.update symbol lots' (pf_tax_lots p)\<rparr> in
          if 0 < remaining then (Inl (LotsInsufficient remaining symbol), p')
          else (Inr (cs, basis), p'))"

section \<open>Opening and closing\<close>

text \<open>The losses of earlier sells in the wash-sale window, prorated to the shares bought.\<close>

fun wash_adjustment ::
  "int \<Rightarrow> string \<Rightarrow> datetime \<Rightarrow> int \<Rightarrow> rat \<Rightarrow> SellRecord list \<Rightarrow> pf_error + rat" where
  "wash_adjustment window symbol d quantity acc [] = Inr acc"
| "wash_adjustment window symbol d quantity acc (sell # sells) =
     (if sell_symbol sell \<noteq> symbol \<or> 0 \<le> sell_gain sell
         \<or> \<not> (d - window * us_per_day \<le> sell_date sell \<and> sell_date sell \<le> d)
      then wash_adjustment window symbol d quantity acc sells
      else if sell_quantity sell = 0 then Inl DivisionByZero
      else let per_share = fdiv \<bar>sell_gain sell\<bar> (fint (sell_quantity sell));
               applicable = fmul (fint (min quantity (sell_quantity sell))) per_share
           in wash_adjustment window symbol d quantity (fadd acc applicable) sells)"

definition trade_date :: "datetime \<Rightarrow> Portfolio \<Rightarrow> datetime" where
  "trade_date now p = (case pf_transaction_date p of None \<Rightarrow> now | Some d \<Rightarrow> d)"

definition add_to_position :: "string \<Rightarrow> int \<Rightarrow> rat \<Rightarrow> Portfolio \<Rightarrow> pf_error + Portfolio" where
  "add_to_position symbol quantity adjusted_price p =
     (case map_of (pf_positions p) symbol of
        Some pos \<Rightarrow>
          let total_qty = pos_quantity pos + quantity;
              basis = fadd (fmul (fint (pos_quantity pos)) (pos_avg_cost pos))
                           (fmul (fint quantity) adjusted_price)
          in if total_qty = 0 then Inl DivisionByZero
             else Inr (p\<lparr>pf_positions := AList.update symbol
                   (pos\<lparr>pos_avg_cost := fdiv basis (fint total_qty), pos_quantity := total_qty\<rparr>)
                   (pf_positions p)\<rparr>)
      | None \<Rightarrow> Inr (p\<lparr>pf_positions := AList.update symbol
            \<lparr>pos_symbol = symbol, pos_quantity = quantity, pos_avg_cost = adjusted_price,
             pos_price = 0\<rparr> (pf_positions p)\<rparr>))"

definition open_position ::
  "string \<Rightarrow> datetime \<Rightarrow> string \<Rightarrow> int \<Rightarrow> rat \<Rightarrow> rat \<Rightarrow> Portfolio \<Rightarrow> (pf_error + string) \<times> Portfolio" where
  "open_position fresh now symbol quantity price cost p =
     (let total_cost = fadd (fmul (fint quantity) price) cost in
      if pf_cash p < total_cost then (Inl (InsufficientCash total_cost (pf_cash p)), p)
      else let d = trade_date now p in
        (case wash_adjustment (wash_sale_window_days (pf_cost_model p)) symbol d quantity 0 (pf_sells p) of
           Inl e \<Rightarrow> (Inl e, p)
         | Inr total_adjustment \<Rightarrow>
             if 0 < total_adjustment \<and> quantity = 0 then (Inl DivisionByZero, p)
             else let adjusted_price = (if 0 < total_adjustment
                         then fadd price (fdiv total_adjustment (fint quantity)) else price);
                    lot = \<lparr>lot_symbol = symbol, lot_quantity = quantity, lot_price = adjusted_price,
                           lot_date = d, lot_id = fresh\<rparr>;
                    p1 = p\<lparr>pf_cash := fsub (pf_cash p) total_cost,
                           pf_tax_lots := AList.update symbol (get_tax_lots symbol p @ [lot]) (pf_tax_lots p)\<rparr>
               in (case add_to_position symbol quantity adjusted_price p1 of
                     Inl e \<Rightarrow> (Inl e, p1)
                   | Inr p2 \<Rightarrow> (Inr fresh, p2\<lparr>pf_trades := pf_trades p2 @
                        [\<lparr>tr_timestamp = d, tr_side = ''buy'', tr_symbol = symbol,
                          tr_quantity = quantity, tr_price = price, tr_cost = cost, tr_tax = 0,
                          tr_lot_ids = [fresh]\<rparr>]\<rparr>))))"

definition close_position ::
  "datetime \<Rightarrow> string \<Rightarrow> int \<Rightarrow> rat \<Rightarrow> rat \<Rightarrow> rat \<Rightarrow> Portfolio
     \<Rightarrow> (pf_error + Consumed list) \<times> Portfolio" where
  "close_position now symbol quantity price cost tax p =
     (case map_of (pf_positions p) symbol of
        None \<Rightarrow> (Inl (NoPosition symbol), p)
      | Some pos \<Rightarrow>
          if pos_quantity pos < quantity
          then (Inl (CannotSell quantity symbol (pos_quantity pos)), p)
          else let d = trade_date now p in
            (case consume_lots symbol quantity d p of
               (Inl e, p1) \<Rightarrow> (Inl e, p1)
             | (Inr (cs, basis), p1) \<Rightarrow>
                 let left = pos_quantity pos - quantity;
                     positions' = (if left \<le> 0 then AList.delete symbol (pf_positions p1)
                                   else AList.update symbol (pos\<lparr>pos_quantity := left\<rparr>) (pf_positions p1));
                     proceeds = fmul (fint quantity) price;
                     gain = fsub (fsub (fsub proceeds basis) cost) tax
                 in (Inr cs,
                     p1\<lparr>pf_positions := positions',
                        pf_cash := fadd (pf_cash p1) (fsub (fsub proceeds cost) tax),
                        pf_realized_pnl := fadd (pf_realized_pnl p1) gain,
                        pf_sells := pf_sells p1 @
                          [\<lparr>sell_symbol = symbol, sell_date = d, sell_quantity = quantity,
                            sell_price = price, sell_cost_basis = basis, sell_gain = gain\<rparr>],
                        pf_trades := pf_trades p1 @
                          [\<lparr>tr_timestamp = d, tr_side = ''sell'', tr_symbol = symbol,
                            tr_quantity = quantity, tr_price = price, tr_cost = cost, tr_tax = tax,
                            tr_lot_ids = map c_lot_id cs\<rparr>]\<rparr>)))"

definition update_price :: "Portfolio \<Rightarrow> string \<times> rat \<Rightarrow> Portfolio" where
  "update_price p kv = (case map_of (pf_positions p) (fst kv) of
     None \<Rightarrow> p
   | Some pos \<Rightarrow> p\<lparr>pf_positions := AList.update (fst kv) (pos\<lparr>pos_price := snd kv\<rparr>) (pf_positions p)\<rparr>)"

definition update_prices :: "(string, rat) dict \<Rightarrow> Portfolio \<Rightarrow> Portfolio" where
  "update_prices prices p = foldl update_price p prices"

definition set_tax_method :: "TaxMethod \<Rightarrow> Portfolio \<Rightarrow> Portfolio" where
  "set_tax_method tm p = p\<lparr>pf_tax_method := tm\<rparr>"

section \<open>Snapshots\<close>

record PortfolioSnapshot =
  snap_cash :: rat
  snap_positions :: "(string, int \<times> rat \<times> rat) dict"
  snap_total_value :: rat
  snap_total_return_pct :: rat
  snap_realized_pnl :: rat

text \<open>A position's dictionary is its quantity, average cost and current price.\<close>

definition pf_snapshot :: "Portfolio \<Rightarrow> PortfolioSnapshot" where
  "pf_snapshot p = \<lparr>snap_cash = pf_cash p,
     snap_positions = map (\<lambda>(s, pos). (s, pos_quantity pos, pos_avg_cost pos, pos_price pos)) (pf_positions p),
     snap_total_value = total_value p, snap_total_return_pct = total_return_pct p,
     snap_realized_pnl = pf_realized_pnl p\<rparr>"

definition allocation_weight :: "string \<Rightarrow> PortfolioSnapshot \<Rightarrow> rat" where
  "allocation_weight symbol s =
     (case map_of (snap_positions s) symbol of
        None \<Rightarrow> 0
      | Some (quantity, avg_cost, current_price) \<Rightarrow>
          if snap_total_value s = 0 then 0
          else let price = (if current_price \<noteq> 0 then current_price else avg_cost)
            in fmul (fdiv (fmul (fint quantity) price) (snap_total_value s)) 100)"

section \<open>Lots\<close>

definition lots_ok :: "string \<Rightarrow> TaxLot list \<Rightarrow> bool" where
  "lots_ok s lots \<longleftrightarrow> distinct (map lot_id lots) \<and> (\<forall>l\<in>set lots. 0 < lot_quantity l \<and> lot_symbol l = s)"

definition shares :: "TaxLot list \<Rightarrow> int" where
  "shares lots = sum_list (map lot_quantity lots)"

lemma shares_simps [simp]:
  "shares [] = 0" "shares (l # ls) = lot_quantity l + shares ls" "shares (xs @ ys) = shares xs + shares ys"
  by (simp_all add: shares_def)

lemma shares_nonneg: "lots_ok s lots \<Longrightarrow> 0 \<le> shares lots"
  unfolding shares_def by (rule sum_list_nonneg) (auto simp: lots_ok_def intro: less_imp_le)

lemma shares_pos: "lots_ok s lots \<Longrightarrow> lots \<noteq> [] \<Longrightarrow> 0 < shares lots"
proof (cases lots)
  case (Cons l ls)
  assume ok: "lots_ok s lots"
  then have "lots_ok s ls" "0 < lot_quantity l" using Cons by (auto simp: lots_ok_def)
  then show ?thesis using shares_nonneg Cons by fastforce
qed simp

lemma shares_mset: "mset xs = mset ys \<Longrightarrow> shares xs = shares ys"
  unfolding shares_def by (metis mset_map sum_mset_sum_list)

text \<open>Where a lot stands in the list of its symbol, and what using it does there.\<close>

lemma use_lot_split:
  assumes "distinct (map lot_id (xs @ lot # ys))" "0 < q" "q \<le> lot_quantity lot"
  shows "use_lot q lot (xs @ lot # ys) =
    (if q = lot_quantity lot then xs @ ys
     else xs @ lot\<lparr>lot_quantity := lot_quantity lot - q\<rparr> # ys)"
proof -
  let ?lot = "lot\<lparr>lot_quantity := lot_quantity lot - q\<rparr>"
  have "lot_id l \<noteq> lot_id lot" if "l \<in> set xs \<or> l \<in> set ys" for l
    using assms(1) that by (auto simp: rev_image_eqI)
  note other = this
  have "put_lot ?lot (xs @ lot # ys) = xs @ ?lot # ys"
    using other by (auto simp: put_lot_def intro!: map_idI)
  moreover have "?lot \<notin> set xs"
    using other [of ?lot] by auto
  ultimately show ?thesis using assms(2,3)
    by (auto simp: use_lot_def Let_def remove1_append)
qed

lemma use_lot_ok:
  assumes "lots_ok s lots" "lot \<in> set lots" "0 < q" "q \<le> lot_quantity lot"
  shows "lots_ok s (use_lot q lot lots) \<and> shares (use_lot q lot lots) = shares lots - q
    \<and> (\<forall>l\<in>set lots. lot_id l \<noteq> lot_id lot \<longrightarrow> l \<in> set (use_lot q lot lots))
    \<and> (\<forall>l\<in>set (use_lot q lot lots). \<exists>l0\<in>set lots. lot_id l0 = lot_id l \<and> lot_date l0 = lot_date l)
    \<and> (q = lot_quantity lot \<longrightarrow> lot_id lot \<notin> lot_id ` set (use_lot q lot lots))"
proof -
  obtain xs ys where lots: "lots = xs @ lot # ys" using split_list [OF assms(2)] by blast
  then have use: "use_lot q lot lots =
      (if q = lot_quantity lot then xs @ ys else xs @ lot\<lparr>lot_quantity := lot_quantity lot - q\<rparr> # ys)"
    using use_lot_split assms(1,3,4) by (simp add: lots_ok_def)
  show ?thesis
  proof (cases "q = lot_quantity lot")
    case True
    then have "use_lot q lot lots = xs @ ys" using use by simp
    then show ?thesis using assms True by (auto simp: lots lots_ok_def)
  next
    case False
    then have "use_lot q lot lots = xs @ lot\<lparr>lot_quantity := lot_quantity lot - q\<rparr> # ys"
      using use by simp
    then show ?thesis using assms False by (auto simp: lots lots_ok_def)
  qed
qed

text \<open>
  The whole loop, on an order \<open>rest\<close> of lots that stand in the list: with enough shares nothing
  remains unfilled, exactly the requested shares are consumed and leave the list.
\<close>

lemma consume_loop_ok:
  assumes "lots_ok s lots" "set rest \<subseteq> set lots" "distinct (map lot_id rest)"
    and "0 \<le> n" "n \<le> shares rest" "consume_loop d rest n basis lots = (cs, b, r, ls)"
  shows "r = 0 \<and> lots_ok s ls \<and> shares ls = shares lots - n \<and> sum_list (map c_quantity cs) = n
    \<and> (\<forall>l\<in>set ls. \<exists>l0\<in>set lots. lot_id l0 = lot_id l \<and> lot_date l0 = lot_date l)"
  using assms
proof (induction rest arbitrary: n basis lots cs)
  case Nil
  then show ?case by auto
next
  case (Cons lot rest)
  show ?case
  proof (cases "n = 0")
    case True
    then show ?thesis using Cons.prems by auto
  next
    case False
    let ?q = "min n (lot_quantity lot)"
    have lot: "lot \<in> set lots" "0 < ?q" "?q \<le> lot_quantity lot"
      using Cons.prems(1,2,4) False by (auto simp: lots_ok_def)
    note use = use_lot_ok [OF Cons.prems(1) lot]
    obtain cs' where rec: "consume_loop d rest (n - ?q) (fadd basis (fmul (fint ?q) (lot_price lot)))
        (use_lot ?q lot lots) = (cs', b, r, ls)"
      and cs: "sum_list (map c_quantity cs) = ?q + sum_list (map c_quantity cs')"
      using Cons.prems(4,6) False by (auto simp: Let_def split: prod.splits)
    have "\<forall>l\<in>set rest. l \<in> set lots \<and> lot_id l \<noteq> lot_id lot"
      using Cons.prems(2,3) by (auto simp: rev_image_eqI)
    then have "set rest \<subseteq> set (use_lot ?q lot lots)" "distinct (map lot_id rest)"
      using use Cons.prems(3) by auto
    moreover have rest_ok: "lots_ok s rest"
      using Cons.prems(1-3) by (auto simp: lots_ok_def)
    moreover have "0 \<le> n - ?q" "n - ?q \<le> shares rest"
      using Cons.prems(5) shares_nonneg [of s rest] rest_ok by auto
    ultimately have ih: "r = 0 \<and> lots_ok s ls \<and> shares ls = shares (use_lot ?q lot lots) - (n - ?q)
        \<and> sum_list (map c_quantity cs') = n - ?q
        \<and> (\<forall>l\<in>set ls. \<exists>l0\<in>set (use_lot ?q lot lots). lot_id l0 = lot_id l \<and> lot_date l0 = lot_date l)"
      using Cons.IH [OF conjunct1 [OF use] _ _ _ _ rec] by blast
    have "\<forall>l\<in>set ls. \<exists>l0\<in>set lots. lot_id l0 = lot_id l \<and> lot_date l0 = lot_date l"
      using ih use by metis
    then show ?thesis using ih use cs by simp
  qed
qed

section \<open>The invariant of a portfolio\<close>

definition pf_ok :: "Portfolio \<Rightarrow> bool" where
  "pf_ok p \<longleftrightarrow> dict_ok (pf_positions p) \<and> dict_ok (pf_tax_lots p)
     \<and> (\<forall>s. lots_ok s (get_tax_lots s p))
     \<and> (\<forall>s. case map_of (pf_positions p) s of
            None \<Rightarrow> get_tax_lots s p = []
          | Some pos \<Rightarrow> pos_symbol pos = s \<and> 0 < pos_quantity pos
              \<and> pos_quantity pos = shares (get_tax_lots s p))
     \<and> (\<forall>sell\<in>set (pf_sells p). 0 < sell_quantity sell)"

lemma pf_ok_lots: "pf_ok p \<Longrightarrow> lots_ok s (get_tax_lots s p)"
  by (simp add: pf_ok_def)

lemma pf_ok_held:
  "pf_ok p \<Longrightarrow> map_of (pf_positions p) s = Some pos \<Longrightarrow>
     pos_symbol pos = s \<and> 0 < pos_quantity pos \<and> pos_quantity pos = shares (get_tax_lots s p)
     \<and> get_tax_lots s p \<noteq> []"
  unfolding pf_ok_def by (auto dest!: spec [of _ s])

lemma pf_ok_not_held: "pf_ok p \<Longrightarrow> map_of (pf_positions p) s = None \<Longrightarrow> get_tax_lots s p = []"
  unfolding pf_ok_def by (auto dest!: spec [of _ s])

lemma pf_ok_new: "pf_ok (new_portfolio c tm cm)"
  by (simp add: pf_ok_def new_portfolio_def get_tax_lots_def lots_ok_def)

lemma lot_order_mset [simp]: "mset (lot_order m lots) = mset lots"
  by (cases m) (simp_all add: lot_order_def)

lemma lot_order_set [simp]: "set (lot_order m lots) = set lots"
  by (metis lot_order_mset set_mset_mset)

lemma lot_order_ids: "distinct (map lot_id lots) \<Longrightarrow> distinct (map lot_id (lot_order m lots))"
  by (metis lot_order_mset mset_map mset_eq_imp_distinct_iff)

lemma shares_lot_order [simp]: "shares (lot_order m lots) = shares lots"
  by (rule shares_mset) simp

text \<open>Under the invariant a sale within the position always finds its lots.\<close>

lemma consume_lots_ok:
  assumes ok: "pf_ok p" and held: "map_of (pf_positions p) s = Some pos"
    and n: "0 \<le> n" "n \<le> pos_quantity pos"
  obtains cs basis lots where
    "consume_lots s n d p = (Inr (cs, basis), p\<lparr>pf_tax_lots := AList.update s lots (pf_tax_lots p)\<rparr>)"
    "consume_loop d (lot_order (pf_tax_method p) (get_tax_lots s p)) n 0 (get_tax_lots s p) = (cs, basis, 0, lots)"
    "lots_ok s lots" "shares lots = pos_quantity pos - n" "sum_list (map c_quantity cs) = n"
proof -
  let ?lots = "get_tax_lots s p"
  note pos = pf_ok_held [OF ok held] and lots_s = pf_ok_lots [OF ok, of s]
  obtain cs basis r lots where loop: "consume_loop d (lot_order (pf_tax_method p) ?lots) n 0 ?lots = (cs, basis, r, lots)"
    by (cases "consume_loop d (lot_order (pf_tax_method p) ?lots) n 0 ?lots")
  have "r = 0 \<and> lots_ok s lots \<and> shares lots = shares ?lots - n \<and> sum_list (map c_quantity cs) = n"
    using consume_loop_ok [OF lots_s _ _ n(1) _ loop] lots_s n(2) pos
    by (simp add: lot_order_ids lots_ok_def)
  then show ?thesis
    using that loop pos by (simp add: consume_lots_def Let_def)
qed

lemma get_tax_lots_update [simp]:
  "get_tax_lots s (p\<lparr>pf_tax_lots := AList.update s' lots (pf_tax_lots p)\<rparr>) =
     (if s = s' then lots else get_tax_lots s p)"
  by (simp add: get_tax_lots_def)

lemma get_tax_lots_cong: "pf_tax_lots p = pf_tax_lots p' \<Longrightarrow> get_tax_lots s p = get_tax_lots s p'"
  by (simp add: get_tax_lots_def)

lemma pf_ok_cong:
  assumes "pf_positions p = pf_positions p'" "pf_tax_lots p = pf_tax_lots p'" "pf_sells p = pf_sells p'"
  shows "pf_ok p \<longleftrightarrow> pf_ok p'"
  unfolding pf_ok_def assms get_tax_lots_cong [OF assms(2)] by (rule refl)

text \<open>How a portfolio that keeps the invariant may change: the lots and the position of one symbol.\<close>

lemma pf_ok_change:
  assumes "pf_ok p" "lots_ok s lots"
    and lots: "pf_tax_lots p' = AList.update s lots (pf_tax_lots p)"
    and pos: "dict_ok (pf_positions p')" "\<forall>s'. s' \<noteq> s \<longrightarrow> map_of (pf_positions p') s' = map_of (pf_positions p) s'"
    and here: "case map_of (pf_positions p') s of None \<Rightarrow> lots = []
      | Some pos \<Rightarrow> pos_symbol pos = s \<and> 0 < pos_quantity pos \<and> pos_quantity pos = shares lots"
    and sells: "\<forall>sell\<in>set (pf_sells p'). 0 < sell_quantity sell"
  shows "pf_ok p'"
proof -
  have get: "get_tax_lots s' p' = (if s' = s then lots else get_tax_lots s' p)" for s'
    by (simp add: get_tax_lots_def lots)
  have "dict_ok (pf_tax_lots p')" using assms(1) lots by (auto simp: pf_ok_def distinct_update)
  moreover have "case map_of (pf_positions p') s' of None \<Rightarrow> get_tax_lots s' p' = []
      | Some pos \<Rightarrow> pos_symbol pos = s' \<and> 0 < pos_quantity pos \<and> pos_quantity pos = shares (get_tax_lots s' p')" for s'
  proof (cases "s' = s")
    case False
    then show ?thesis
      using pos(2) pf_ok_held [OF assms(1), of s'] pf_ok_not_held [OF assms(1), of s']
      by (cases "map_of (pf_positions p) s'") (simp_all add: get)
  next
    case True
    then show ?thesis using here by (cases "map_of (pf_positions p') s") (simp_all add: get)
  qed
  ultimately show ?thesis
    using assms(1,2) pos(1) sells unfolding pf_ok_def by (simp add: get)
qed

definition fresh_lot :: "string \<Rightarrow> Portfolio \<Rightarrow> bool" where
  "fresh_lot i p \<longleftrightarrow> (\<forall>s. i \<notin> lot_id ` set (get_tax_lots s p))"

lemma wash_adjustment_total:
  "\<forall>sell\<in>set sells. 0 < sell_quantity sell \<Longrightarrow>
     \<exists>a. wash_adjustment w s d q acc sells = Inr a"
  by (induction w s d q acc sells rule: wash_adjustment.induct) (auto simp: Let_def)

lemma add_to_position_ok:
  assumes "pf_ok p" "0 < q" "fresh_lot (lot_id lot) p" "lot_symbol lot = s" "lot_quantity lot = q"
    and p1: "p1 = p\<lparr>pf_cash := c, pf_tax_lots := AList.update s (get_tax_lots s p @ [lot]) (pf_tax_lots p)\<rparr>"
  obtains p2 where "add_to_position s q price p1 = Inr p2" "pf_ok p2"
    "pf_cash p2 = c" "pf_sells p2 = pf_sells p" "pf_tax_lots p2 = pf_tax_lots p1"
proof -
  let ?lots = "get_tax_lots s p @ [lot]"
  have lots: "lots_ok s ?lots"
    using pf_ok_lots [OF assms(1), of s] assms(2-5) by (auto simp: lots_ok_def fresh_lot_def)
  have sells: "\<forall>sell\<in>set (pf_sells p). 0 < sell_quantity sell" using assms(1) by (simp add: pf_ok_def)
  have dict: "dict_ok (pf_positions p)" using assms(1) by (simp add: pf_ok_def)
  show ?thesis
  proof (cases "map_of (pf_positions p) s")
    case None
    let ?p2 = "p1\<lparr>pf_positions := AList.update s \<lparr>pos_symbol = s, pos_quantity = q,
        pos_avg_cost = price, pos_price = 0\<rparr> (pf_positions p)\<rparr>"
    have "add_to_position s q price p1 = Inr ?p2" using None by (simp add: add_to_position_def p1)
    moreover have "pf_ok ?p2"
      by (rule pf_ok_change [OF assms(1) lots])
        (use pf_ok_not_held [OF assms(1) None] sells dict assms(2,5) in \<open>simp_all add: p1 distinct_update\<close>)
    ultimately show ?thesis using that by (simp add: p1)
  next
    case (Some pos)
    note pos = pf_ok_held [OF assms(1) Some]
    obtain p2 pos2 where p2: "add_to_position s q price p1 = Inr p2"
        "p2 = p1\<lparr>pf_positions := AList.update s pos2 (pf_positions p)\<rparr>"
        "pos_symbol pos2 = s" "pos_quantity pos2 = pos_quantity pos + q"
      using Some pos assms(2) by (simp add: add_to_position_def p1 Let_def)
    moreover have "pf_ok p2"
      by (rule pf_ok_change [OF assms(1) lots])
        (use p2 pos sells dict assms(2,5) in \<open>simp_all add: p1 distinct_update\<close>)
    ultimately show ?thesis using that by (simp add: p1)
  qed
qed

lemma open_position_cases:
  assumes "pf_ok p" "0 < q" "fresh_lot fresh p"
  obtains (poor) "pf_cash p < fadd (fmul (fint q) price) cost"
      "open_position fresh now s q price cost p = (Inl (InsufficientCash (fadd (fmul (fint q) price) cost) (pf_cash p)), p)"
  | (opened) p' where "\<not> pf_cash p < fadd (fmul (fint q) price) cost"
      "open_position fresh now s q price cost p = (Inr fresh, p')" "pf_ok p'"
      "pf_cash p' = fsub (pf_cash p) (fadd (fmul (fint q) price) cost)"
      "\<exists>lot. lot_quantity lot = q \<and> lot_id lot = fresh \<and> get_tax_lots s p' = get_tax_lots s p @ [lot]"
      "\<forall>s'. s' \<noteq> s \<longrightarrow> get_tax_lots s' p' = get_tax_lots s' p"
proof (cases "pf_cash p < fadd (fmul (fint q) price) cost")
  case True
  then show ?thesis using poor by (simp add: open_position_def)
next
  case False
  let ?d = "trade_date now p"
  obtain adj where adj: "wash_adjustment (wash_sale_window_days (pf_cost_model p)) s ?d q 0 (pf_sells p) = Inr adj"
    using wash_adjustment_total assms(1) unfolding pf_ok_def by blast
  define ap where "ap = (if 0 < adj then fadd price (fdiv adj (fint q)) else price)"
  define lot where "lot = \<lparr>lot_symbol = s, lot_quantity = q, lot_price = ap, lot_date = ?d, lot_id = fresh\<rparr>"
  define p1 where "p1 = p\<lparr>pf_cash := fsub (pf_cash p) (fadd (fmul (fint q) price) cost),
      pf_tax_lots := AList.update s (get_tax_lots s p @ [lot]) (pf_tax_lots p)\<rparr>"
  obtain p2 where p2: "add_to_position s q ap p1 = Inr p2" "pf_ok p2"
    "pf_cash p2 = fsub (pf_cash p) (fadd (fmul (fint q) price) cost)" "pf_tax_lots p2 = pf_tax_lots p1"
    using add_to_position_ok [OF assms(1,2), of lot s p1 _ ap] assms(3) p1_def
    by (metis TaxLot.select_convs(1,2,5) lot_def)
  define p' where "p' = p2\<lparr>pf_trades := pf_trades p2 @ [\<lparr>tr_timestamp = ?d, tr_side = ''buy'', tr_symbol = s,
      tr_quantity = q, tr_price = price, tr_cost = cost, tr_tax = 0, tr_lot_ids = [fresh]\<rparr>]\<rparr>"
  have "open_position fresh now s q price cost p = (Inr fresh, p')"
    using False adj p2(1) assms(2)
    by (simp add: open_position_def Let_def p'_def p1_def lot_def flip: ap_def)
  moreover have "pf_ok p'"
    using p2(2) pf_ok_cong [of p' p2] by (simp add: p'_def)
  moreover have lots': "pf_tax_lots p' = AList.update s (get_tax_lots s p @ [lot]) (pf_tax_lots p)"
    using p2(4) by (simp add: p'_def p1_def)
  moreover have "get_tax_lots s p' = get_tax_lots s p @ [lot]"
    "\<forall>s'. s' \<noteq> s \<longrightarrow> get_tax_lots s' p' = get_tax_lots s' p"
    by (simp_all add: get_tax_lots_def [of _ p'] lots', simp add: get_tax_lots_def)
  moreover have "pf_cash p' = fsub (pf_cash p) (fadd (fmul (fint q) price) cost)"
    using p2(3) by (simp add: p'_def)
  ultimately show ?thesis using opened False by (auto simp: lot_def)
qed

lemma close_position_cases:
  assumes ok: "pf_ok p" and q: "0 < q"
  obtains (none) "map_of (pf_positions p) s = None"
      "close_position now s q price cost tax p = (Inl (NoPosition s), p)"
  | (few) pos where "map_of (pf_positions p) s = Some pos" "pos_quantity pos < q"
      "close_position now s q price cost tax p = (Inl (CannotSell q s (pos_quantity pos)), p)"
  | (closed) pos cs basis p' where "map_of (pf_positions p) s = Some pos" "q \<le> pos_quantity pos"
      "close_position now s q price cost tax p = (Inr cs, p')" "pf_ok p'"
      "consume_loop (trade_date now p) (lot_order (pf_tax_method p) (get_tax_lots s p)) q 0 (get_tax_lots s p)
         = (cs, basis, 0, get_tax_lots s p')"
      "sum_list (map c_quantity cs) = q"
      "shares (get_tax_lots s p') = pos_quantity pos - q"
      "pf_cash p' = fadd (pf_cash p) (fsub (fsub (fmul (fint q) price) cost) tax)"
      "\<forall>s'. s' \<noteq> s \<longrightarrow> get_tax_lots s' p' = get_tax_lots s' p"
proof (cases "map_of (pf_positions p) s")
  case None
  then show ?thesis using none by (simp add: close_position_def)
next
  case (Some pos)
  show ?thesis
  proof (cases "pos_quantity pos < q")
    case True
    then show ?thesis using few Some by (simp add: close_position_def)
  next
    case False
    let ?d = "trade_date now p"
    obtain cs basis lots where con:
      "consume_lots s q ?d p = (Inr (cs, basis), p\<lparr>pf_tax_lots := AList.update s lots (pf_tax_lots p)\<rparr>)"
      "consume_loop ?d (lot_order (pf_tax_method p) (get_tax_lots s p)) q 0 (get_tax_lots s p) = (cs, basis, 0, lots)"
      "lots_ok s lots" "shares lots = pos_quantity pos - q" "sum_list (map c_quantity cs) = q"
      using consume_lots_ok [OF ok Some, of q ?d] q False by auto
    obtain p' where p': "close_position now s q price cost tax p = (Inr cs, p')"
      "pf_tax_lots p' = AList.update s lots (pf_tax_lots p)"
      "pf_positions p' = (if pos_quantity pos - q \<le> 0 then AList.delete s (pf_positions p)
          else AList.update s (pos\<lparr>pos_quantity := pos_quantity pos - q\<rparr>) (pf_positions p))"
      "\<exists>sell. sell_quantity sell = q \<and> pf_sells p' = pf_sells p @ [sell]"
      "pf_cash p' = fadd (pf_cash p) (fsub (fsub (fmul (fint q) price) cost) tax)"
      using False con(1) by (simp add: close_position_def Some Let_def)
    have empty: "pos_quantity pos - q \<le> 0 \<Longrightarrow> lots = []"
      using con(3,4) shares_pos [of s lots] by fastforce
    have "pf_ok p'"
      by (rule pf_ok_change [OF ok con(3) p'(2)])
        (use p'(3,4) ok q empty pf_ok_held [OF ok Some] con(4)
          in \<open>auto simp: pf_ok_def distinct_update distinct_delete\<close>)
    moreover have "get_tax_lots s p' = lots" by (simp add: get_tax_lots_def p'(2))
    moreover have "\<forall>s'. s' \<noteq> s \<longrightarrow> get_tax_lots s' p' = get_tax_lots s' p"
      by (simp add: get_tax_lots_def p'(2))
    ultimately show ?thesis using closed Some False p'(1,5) con(2,4,5) by auto
  qed
qed

lemma close_position_Inr:
  assumes "pf_ok p" "0 < q" "close_position now s q price cost tax p = (Inr cs, p')"
  obtains pos basis where "map_of (pf_positions p) s = Some pos" "q \<le> pos_quantity pos"
    "consume_loop (trade_date now p) (lot_order (pf_tax_method p) (get_tax_lots s p)) q 0 (get_tax_lots s p)
         = (cs, basis, 0, get_tax_lots s p')"
proof (cases rule: close_position_cases [OF assms(1,2), of s now price cost tax])
  case (3 pos cs' basis p'')
  then have "cs' = cs" "p'' = p'" using assms(3) by simp_all
  then show ?thesis using that 3(1,2,5) by simp
qed (use assms(3) in simp_all)

section \<open>The order in which shares leave\<close>

text \<open>The key the tax method sorts by: purchase dates upwards for FIFO, downwards for LIFO.\<close>

definition method_key :: "TaxMethod \<Rightarrow> datetime \<Rightarrow> int" where
  "method_key m d = (if m = LIFO then - d else d)"

definition by_method :: "TaxMethod \<Rightarrow> TaxLot \<Rightarrow> TaxLot \<Rightarrow> bool" where
  "by_method m a b \<longleftrightarrow> method_key m (lot_date a) \<le> method_key m (lot_date b)"

lemma sorted_wrt_key: "sorted (map f xs) \<Longrightarrow> sorted_wrt (\<lambda>a b. f a \<le> f b) xs"
  by (simp add: sorted_map)

lemma lot_order_sorted: "m \<noteq> SPECIFIC_LOT \<Longrightarrow> sorted_wrt (by_method m) (lot_order m lots)"
proof (cases m)
  case FIFO
  then show ?thesis using sorted_wrt_key [OF sorted_sort_key [of lot_date lots]]
    by (simp add: lot_order_def by_method_def [abs_def] method_key_def)
next
  case LIFO
  then show ?thesis using sorted_wrt_key [OF sorted_sort_key [of "\<lambda>l. - lot_date l" lots]]
    by (simp add: lot_order_def by_method_def [abs_def] method_key_def sort_key_desc_def)
qed simp

lemma consume_loop_done: "n \<le> 0 \<Longrightarrow> consume_loop d rest n basis lots = ([], basis, n, lots)"
  by (cases rest) simp_all

lemma consume_loop_dates:
  "consume_loop d rest n basis lots = (cs, b, r, ls) \<Longrightarrow> set (map c_date cs) \<subseteq> set (map lot_date rest)"
proof (induction rest arbitrary: n basis lots cs)
  case (Cons lot rest)
  show ?case
  proof (cases "n \<le> 0")
    case False
    then obtain cs' where rec: "consume_loop d rest (n - min n (lot_quantity lot))
        (fadd basis (fmul (fint (min n (lot_quantity lot))) (lot_price lot)))
        (use_lot (min n (lot_quantity lot)) lot lots) = (cs', b, r, ls)"
      "set (map c_date cs) = insert (lot_date lot) (set (map c_date cs'))"
      using Cons.prems by (auto simp: Let_def split: prod.splits)
    have "set (map c_date cs') \<subseteq> set (map lot_date rest)" by (rule Cons.IH [OF rec(1)])
    then show ?thesis using rec(2) by auto
  qed (use Cons.prems in auto)
qed simp

text \<open>After the loop no share still held in the walked lots comes before a consumed one.\<close>

lemma consume_loop_order:
  assumes "lots_ok s lots" "set rest \<subseteq> set lots" "distinct (map lot_id rest)"
    and "0 \<le> n" "n \<le> shares rest" "consume_loop d rest n basis lots = (cs, b, r, ls)"
    and "sorted_wrt (by_method m) rest"
  shows "\<forall>c\<in>set cs. \<forall>l\<in>set ls. lot_id l \<in> lot_id ` set rest
    \<longrightarrow> method_key m (c_date c) \<le> method_key m (lot_date l)"
  using assms
proof (induction rest arbitrary: n basis lots cs)
  case (Cons lot rest)
  show ?case
  proof (cases "n = 0")
    case True
    then show ?thesis using Cons.prems(6) by auto
  next
    case False
    let ?q = "min n (lot_quantity lot)"
    have lot: "lot \<in> set lots" "0 < ?q" "?q \<le> lot_quantity lot"
      using Cons.prems(1,2,4) False by (auto simp: lots_ok_def)
    note use = use_lot_ok [OF Cons.prems(1) lot]
    obtain cs' where rec: "consume_loop d rest (n - ?q) (fadd basis (fmul (fint ?q) (lot_price lot)))
        (use_lot ?q lot lots) = (cs', b, r, ls)"
      and cs: "set (map c_date cs) = insert (lot_date lot) (set (map c_date cs'))"
      using Cons.prems(4,6) False by (auto simp: Let_def split: prod.splits)
    have other: "l \<in> set lots \<and> lot_id l \<noteq> lot_id lot \<and> by_method m lot l" if "l \<in> set rest" for l
      using that Cons.prems(2,3,7) by (auto simp: rev_image_eqI)
    have rest: "set rest \<subseteq> set (use_lot ?q lot lots)" "distinct (map lot_id rest)" "lots_ok s rest"
      "sorted_wrt (by_method m) rest"
      using other use Cons.prems(1,2,3,7) by (auto simp: lots_ok_def)
    have n: "0 \<le> n - ?q" "n - ?q \<le> shares rest"
      using Cons.prems(5) shares_nonneg [OF rest(3)] by auto
    note loop = consume_loop_ok [OF conjunct1 [OF use] rest(1,2) n rec]
    note ih = Cons.IH [OF conjunct1 [OF use] rest(1,2) n rec rest(4)]
    have same_date: "lot_date l = lot_date l0"
      if prem: "l \<in> set ls" "l0 \<in> set (lot # rest)" "lot_id l = lot_id l0" for l l0
    proof -
      have "\<forall>l\<in>set ls. \<exists>l0\<in>set (use_lot ?q lot lots). lot_id l0 = lot_id l \<and> lot_date l0 = lot_date l"
        using loop by (elim conjE)
      then obtain l2 where l2: "l2 \<in> set (use_lot ?q lot lots)" "lot_id l2 = lot_id l" "lot_date l2 = lot_date l"
        using prem(1) by blast
      have "\<forall>l\<in>set (use_lot ?q lot lots). \<exists>l0\<in>set lots. lot_id l0 = lot_id l \<and> lot_date l0 = lot_date l"
        using use by (elim conjE)
      then obtain l1 where "l1 \<in> set lots" "lot_id l1 = lot_id l2" "lot_date l1 = lot_date l2"
        using l2(1) by blast
      then have "l1 \<in> set lots" "lot_id l1 = lot_id l" "lot_date l1 = lot_date l"
        using l2 by simp_all
      moreover have "l0 \<in> set lots" using prem(2) Cons.prems(2) by auto
      ultimately have "l1 = l0" using prem(3) Cons.prems(1)
        by (auto simp: lots_ok_def distinct_map dest: inj_onD)
      then show ?thesis using \<open>lot_date l1 = lot_date l\<close> by simp
    qed
    have head: "method_key m (lot_date lot) \<le> method_key m (lot_date l)"
      if prem: "l \<in> set ls" "lot_id l \<in> lot_id ` set (lot # rest)" for l
    proof -
      obtain l0 where l0: "l0 \<in> set (lot # rest)" "lot_id l = lot_id l0" using prem(2) by auto
      then have "by_method m lot l0" using other by (auto simp: by_method_def)
      then show ?thesis using same_date [OF prem(1) l0] by (simp add: by_method_def)
    qed
    have tail: "method_key m (c_date c) \<le> method_key m (lot_date l)"
      if "c \<in> set cs'" "l \<in> set ls" "lot_id l \<in> lot_id ` set (lot # rest)" for c l
    proof (cases "lot_id l = lot_id lot")
      case False
      then show ?thesis using ih that by auto
    next
      case True
      have "n - ?q \<noteq> 0" using rec that(1) consume_loop_done [of "n - ?q"] by auto
      then have "?q = lot_quantity lot" by auto
      then have "lot_id lot \<notin> lot_id ` set (use_lot ?q lot lots)" using use by blast
      then show ?thesis using loop that(2) True by (metis image_eqI)
    qed
    show ?thesis
    proof (intro ballI impI)
      fix c l assume c: "c \<in> set cs" and l: "l \<in> set ls" "lot_id l \<in> lot_id ` set (lot # rest)"
      have "c_date c = lot_date lot \<or> (\<exists>c'\<in>set cs'. c_date c' = c_date c)"
        using c cs by (force simp: set_eq_iff)
      then show "method_key m (c_date c) \<le> method_key m (lot_date l)"
        using head [OF l] tail [OF _ l] by metis
    qed
  qed
qed simp

section \<open>Runs of operations\<close>

datatype pf_op =
  Open string datetime string int rat rat
| Close datetime string int rat rat rat
| UpdatePrices "(string, rat) dict"
| SetMethod TaxMethod
| SetDate "datetime option"

fun pf_step :: "Portfolio \<Rightarrow> pf_op \<Rightarrow> Portfolio" where
  "pf_step p (Open fresh now s q price cost) = snd (open_position fresh now s q price cost p)"
| "pf_step p (Close now s q price cost tax) = snd (close_position now s q price cost tax p)"
| "pf_step p (UpdatePrices prices) = update_prices prices p"
| "pf_step p (SetMethod m) = set_tax_method m p"
| "pf_step p (SetDate d) = p\<lparr>pf_transaction_date := d\<rparr>"

definition pf_run :: "Portfolio \<Rightarrow> pf_op list \<Rightarrow> Portfolio" where
  "pf_run p ops = foldl pf_step p ops"

fun op_shares_ok :: "pf_op \<Rightarrow> bool" where
  "op_shares_ok (Open fresh now s q price cost) = (0 < q)"
| "op_shares_ok (Close now s q price cost tax) = (0 < q)"
| "op_shares_ok x = True"

fun op_id :: "pf_op \<Rightarrow> string list" where
  "op_id (Open fresh now s q price cost) = [fresh]"
| "op_id x = []"

lemma pf_okI:
  assumes "dict_ok (pf_positions p)" "dict_ok (pf_tax_lots p)"
    and "\<And>s. lots_ok s (get_tax_lots s p)"
    and "\<And>s. map_of (pf_positions p) s = None \<Longrightarrow> get_tax_lots s p = []"
    and "\<And>s pos. map_of (pf_positions p) s = Some pos \<Longrightarrow>
      pos_symbol pos = s \<and> 0 < pos_quantity pos \<and> pos_quantity pos = shares (get_tax_lots s p)"
    and "\<And>sell. sell \<in> set (pf_sells p) \<Longrightarrow> 0 < sell_quantity sell"
  shows "pf_ok p"
proof -
  have "case map_of (pf_positions p) s of None \<Rightarrow> get_tax_lots s p = []
      | Some pos \<Rightarrow> pos_symbol pos = s \<and> 0 < pos_quantity pos \<and> pos_quantity pos = shares (get_tax_lots s p)" for s
  proof (cases "map_of (pf_positions p) s")
    case (Some pos)
    show ?thesis using assms(5) [OF Some] unfolding Some option.case .
  qed (use assms(4) in simp)
  then show ?thesis using assms(1-3,6) unfolding pf_ok_def by blast
qed

lemma update_price_ok: "pf_ok p \<Longrightarrow> pf_ok (update_price p kv) \<and> pf_tax_lots (update_price p kv) = pf_tax_lots p"
proof (cases "map_of (pf_positions p) (fst kv)")
  case (Some pos)
  assume ok: "pf_ok p"
  have lots: "pf_tax_lots (update_price p kv) = pf_tax_lots p"
    by (simp add: update_price_def Some)
  have "pf_ok (update_price p kv)"
  proof (rule pf_okI)
    fix s pos' assume "map_of (pf_positions (update_price p kv)) s = Some pos'"
    then obtain pos0 where "map_of (pf_positions p) s = Some pos0" "pos_symbol pos' = pos_symbol pos0"
      "pos_quantity pos' = pos_quantity pos0"
      using Some by (auto simp: update_price_def split: if_splits)
    then show "pos_symbol pos' = s \<and> 0 < pos_quantity pos' \<and> pos_quantity pos' = shares (get_tax_lots s (update_price p kv))"
      using pf_ok_held [OF ok, of s pos0] get_tax_lots_cong [OF lots] by simp
  next
    fix s assume "map_of (pf_positions (update_price p kv)) s = None"
    then have "map_of (pf_positions p) s = None" using Some by (auto simp: update_price_def split: if_splits)
    then show "get_tax_lots s (update_price p kv) = []"
      using pf_ok_not_held [OF ok] get_tax_lots_cong [OF lots] by simp
  qed (use ok get_tax_lots_cong [OF lots] in \<open>auto simp: pf_ok_def update_price_def Some distinct_update\<close>)
  then show ?thesis using lots by simp
qed (simp add: update_price_def)

lemma update_prices_ok: "pf_ok p \<Longrightarrow> pf_ok (update_prices ps p) \<and> pf_tax_lots (update_prices ps p) = pf_tax_lots p"
  unfolding update_prices_def
proof (induction ps arbitrary: p)
  case (Cons kv ps)
  then show ?case using update_price_ok [OF Cons.prems, of kv] by fastforce
qed simp

lemma fresh_lot_cong: "pf_tax_lots p = pf_tax_lots p' \<Longrightarrow> fresh_lot i p \<longleftrightarrow> fresh_lot i p'"
  by (simp add: fresh_lot_def get_tax_lots_def)

lemma put_lot_ids [simp]: "map lot_id (put_lot x lots) = map lot_id lots"
  by (simp add: put_lot_def)

lemma use_lot_ids: "lot_id ` set (use_lot q lot lots) \<subseteq> lot_id ` set lots"
proof -
  have "lot_id ` set (use_lot q lot lots) \<subseteq>
      lot_id ` set (put_lot (lot\<lparr>lot_quantity := lot_quantity lot - q\<rparr>) lots)"
    by (simp add: use_lot_def Let_def image_mono set_remove1_subset)
  also have "\<dots> = set (map lot_id (put_lot (lot\<lparr>lot_quantity := lot_quantity lot - q\<rparr>) lots))"
    by (simp only: set_map)
  finally show ?thesis by simp
qed

lemma consumed_ids:
  assumes "consume_loop d rest n basis lots = (cs, b, r, ls)"
  shows "lot_id ` set ls \<subseteq> lot_id ` set lots"
  using assms
proof (induction rest arbitrary: n basis lots cs)
  case (Cons lot rest)
  show ?case
  proof (cases "n \<le> 0")
    case False
    let ?q = "min n (lot_quantity lot)"
    obtain cs' where "consume_loop d rest (n - ?q) (fadd basis (fmul (fint ?q) (lot_price lot)))
        (use_lot ?q lot lots) = (cs', b, r, ls)"
      using Cons.prems False by (auto simp: Let_def split: prod.splits)
    then have "lot_id ` set ls \<subseteq> lot_id ` set (use_lot ?q lot lots)" by (rule Cons.IH)
    also have "\<dots> \<subseteq> lot_id ` set lots" by (rule use_lot_ids)
    finally show ?thesis .
  qed (use Cons.prems in auto)
qed simp

lemma pf_step_ok:
  assumes "pf_ok p" "op_shares_ok x" "\<forall>i\<in>set (op_id x). fresh_lot i p"
  shows "pf_ok (pf_step p x) \<and> (\<forall>i. fresh_lot i p \<longrightarrow> i \<notin> set (op_id x) \<longrightarrow> fresh_lot i (pf_step p x))"
proof (cases x)
  case (Open fresh now s q price cost)
  have q: "0 < q" and f: "fresh_lot fresh p" using assms(2,3) Open by simp_all
  show ?thesis
  proof (cases rule: open_position_cases [OF assms(1) q f, of price cost now s])
    case 1
    then show ?thesis using assms(1) Open by simp
  next
    case (2 p')
    obtain lot where lot: "lot_id lot = fresh" "get_tax_lots s p' = get_tax_lots s p @ [lot]"
      using 2(5) by blast
    have "fresh_lot i p'" if i: "fresh_lot i p" "i \<noteq> fresh" for i
      unfolding fresh_lot_def
    proof
      fix s'
      show "i \<notin> lot_id ` set (get_tax_lots s' p')"
        using i lot 2(6) by (cases "s' = s") (auto simp: fresh_lot_def)
    qed
    then show ?thesis using 2(2,3) Open by simp
  qed
next
  case (Close now s q price cost tax)
  have q: "0 < q" using assms(2) Close by simp
  show ?thesis
  proof (cases rule: close_position_cases [OF assms(1) q, of s now price cost tax])
    case (3 pos cs basis p')
    have "lot_id ` set (get_tax_lots s p') \<subseteq> lot_id ` set (get_tax_lots s p)"
      by (rule consumed_ids [OF 3(5)])
    note ids = this
    have "fresh_lot i p'" if i: "fresh_lot i p" for i
      unfolding fresh_lot_def
    proof
      fix s'
      show "i \<notin> lot_id ` set (get_tax_lots s' p')"
      proof (cases "s' = s")
        case True
        then show ?thesis using i ids unfolding fresh_lot_def by blast
      next
        case False
        then have "get_tax_lots s' p' = get_tax_lots s' p" using 3(9) by blast
        then show ?thesis using i unfolding fresh_lot_def by simp
      qed
    qed
    then show ?thesis using 3(3,4) Close by simp
  qed (use assms(1) Close in simp_all)
next
  case (UpdatePrices ps)
  then show ?thesis
    using update_prices_ok [OF assms(1), of ps] fresh_lot_cong [of "update_prices ps p" p] by simp
next
  case (SetMethod m)
  have "pf_ok (set_tax_method m p) \<longleftrightarrow> pf_ok p" by (rule pf_ok_cong) (simp_all add: set_tax_method_def)
  then show ?thesis
    using SetMethod assms(1) fresh_lot_cong [of "set_tax_method m p" p] by (simp add: set_tax_method_def)
next
  case (SetDate d)
  have "pf_ok (p\<lparr>pf_transaction_date := d\<rparr>) \<longleftrightarrow> pf_ok p" by (rule pf_ok_cong) simp_all
  then show ?thesis
    using SetDate assms(1) fresh_lot_cong [of "p\<lparr>pf_transaction_date := d\<rparr>" p] by simp
qed

text \<open>
  C9.  The books balance: starting from a balanced portfolio, after any sequence of purchases, sales, price
  updates and changes of the tax method, failed ones included, every open position has exactly as
  many shares as its tax lots together, no lot is empty or negative, a symbol without a position
  has no lots, and the lot ids of a symbol are distinct.
\<close>

theorem portfolio_books_balance:
  assumes "pf_ok p" "list_all op_shares_ok ops" "distinct (concat (map op_id ops))"
    and "\<forall>i\<in>set (concat (map op_id ops)). fresh_lot i p"
  shows "pf_ok (pf_run p ops)"
  using assms
proof (induction ops arbitrary: p)
  case (Cons x ops)
  have x: "pf_ok (pf_step p x)"
    "\<forall>i. fresh_lot i p \<longrightarrow> i \<notin> set (op_id x) \<longrightarrow> fresh_lot i (pf_step p x)"
    using pf_step_ok [OF Cons.prems(1), of x] Cons.prems(2,4) by auto
  have "pf_ok (pf_run (pf_step p x) ops)"
    by (rule Cons.IH [OF x(1)]) (use Cons.prems(2-4) x(2) in auto)
  then show ?case by (simp add: pf_run_def)
qed (simp add: pf_run_def)

theorem portfolio_books_balance_witness:
  "pf_ok (pf_run (new_portfolio 1000 FIFO None)
     [Open ''l1'' 1 ''A'' 5 10 0, Open ''l2'' 2 ''A'' 5 11 0, Close 3 ''A'' 7 12 1 0, Close 4 ''B'' 1 1 0 0])"
proof -
  have "fresh_lot i (new_portfolio c m cm)" for i c m cm
    by (simp add: fresh_lot_def new_portfolio_def get_tax_lots_def)
  then show ?thesis
    by (intro portfolio_books_balance pf_ok_new) simp_all
qed

text \<open>
  A sale is all or nothing: it fails only when there is no position or more shares are asked for
  than are held, and then leaves the portfolio as it was; otherwise the consumed lots
  hold exactly the shares sold, and exactly those leave the lots.  The two lot errors of the code
  are unreachable.
\<close>

theorem close_position_exact:
  assumes "pf_ok p" "0 < q"
  shows "case close_position now s q price cost tax p of
      (Inl e, p') \<Rightarrow> p' = p \<and> (e = NoPosition s \<or> (\<exists>held. held < q \<and> e = CannotSell q s held))
    | (Inr cs, p') \<Rightarrow> sum_list (map c_quantity cs) = q
        \<and> shares (get_tax_lots s p') + q = shares (get_tax_lots s p)"
proof (cases rule: close_position_cases [OF assms, of s now price cost tax])
  case (3 pos cs basis p')
  then show ?thesis using pf_ok_held [OF assms(1) 3(1)] by simp
qed simp_all

definition two_lots :: Portfolio where
  "two_lots = pf_run (new_portfolio 1000 FIFO None) [Open ''l1'' 1 ''A'' 5 10 0, Open ''l2'' 2 ''A'' 5 11 0]"

lemma two_lots_ok: "pf_ok two_lots"
proof -
  have fresh: "fresh_lot i (new_portfolio 1000 FIFO None)" for i
    by (simp add: fresh_lot_def new_portfolio_def get_tax_lots_def)
  let ?a = "pf_step (new_portfolio 1000 FIFO None) (Open ''l1'' 1 ''A'' 5 10 0)"
  have "pf_ok ?a \<and> (\<forall>i. fresh_lot i (new_portfolio 1000 FIFO None) \<longrightarrow> i \<notin> set [''l1''] \<longrightarrow> fresh_lot i ?a)"
    using pf_step_ok [OF pf_ok_new, of "Open ''l1'' 1 ''A'' 5 10 0" 1000 FIFO None] fresh by simp
  then have "pf_ok ?a" "fresh_lot ''l2'' ?a" using fresh by simp_all
  then have "pf_ok (pf_step ?a (Open ''l2'' 2 ''A'' 5 11 0))"
    using pf_step_ok [of ?a "Open ''l2'' 2 ''A'' 5 11 0"] by simp
  then show ?thesis by (simp add: two_lots_def pf_run_def)
qed

lemma two_lots_eval:
  "get_tax_lots ''A'' two_lots =
     [\<lparr>lot_symbol = ''A'', lot_quantity = 5, lot_price = 10, lot_date = 1, lot_id = ''l1''\<rparr>,
      \<lparr>lot_symbol = ''A'', lot_quantity = 5, lot_price = 11, lot_date = 2, lot_id = ''l2''\<rparr>]
   \<and> pf_sells two_lots = [] \<and> pf_cash two_lots = 895 \<and> pf_tax_method two_lots = FIFO
   \<and> map_of (pf_positions two_lots) ''A'' \<noteq> None"
  by (simp add: two_lots_def pf_run_def new_portfolio_def open_position_def add_to_position_def
      get_tax_lots_def trade_date_def float_op_defs fint_def Let_def)

lemma two_lots_sale:
  assumes "0 < q" "q \<le> 10"
  obtains cs p' where "close_position 3 ''A'' q 12 1 0 two_lots = (Inr cs, p')"
proof -
  obtain pos where pos: "map_of (pf_positions two_lots) ''A'' = Some pos" using two_lots_eval by blast
  have "pos_quantity pos = 10" using pf_ok_held [OF two_lots_ok pos] two_lots_eval by simp
  then show ?thesis
    using that pos assms(2)
    by (cases rule: close_position_cases [OF two_lots_ok assms(1), where s = "''A''" and now = 3
          and price = 12 and cost = 1 and tax = 0]) auto
qed

text \<open>
  Shares leave in the order of the tax method: after a sale under FIFO (LIFO) no share still held in
  the symbol was bought before (after) a share that was sold.
\<close>

theorem sale_follows_tax_method:
  assumes "pf_ok p" "0 < q" "pf_tax_method p \<noteq> SPECIFIC_LOT"
    and "close_position now s q price cost tax p = (Inr cs, p')"
    and "c \<in> set cs" "l \<in> set (get_tax_lots s p')"
  shows "if pf_tax_method p = FIFO then c_date c \<le> lot_date l else lot_date l \<le> c_date c"
proof -
  let ?m = "pf_tax_method p" and ?lots = "get_tax_lots s p"
  obtain pos basis where held: "map_of (pf_positions p) s = Some pos" "q \<le> pos_quantity pos"
    and loop: "consume_loop (trade_date now p) (lot_order ?m ?lots) q 0 ?lots = (cs, basis, 0, get_tax_lots s p')"
    by (rule close_position_Inr [OF assms(1,2,4)])
  have ok: "lots_ok s ?lots" by (rule pf_ok_lots [OF assms(1)])
  have n: "q \<le> shares (lot_order ?m ?lots)" using pf_ok_held [OF assms(1) held(1)] held(2) by simp
  have "lot_id l \<in> lot_id ` set (lot_order ?m ?lots)"
    using consumed_ids [OF loop] assms(6) by auto
  then have "method_key ?m (c_date c) \<le> method_key ?m (lot_date l)"
    using consume_loop_order [OF ok _ _ _ n loop lot_order_sorted [OF assms(3)]] assms(2,5,6) ok
    by (simp add: lot_order_ids lots_ok_def)
  then show ?thesis using assms(3) by (cases ?m) (simp_all add: method_key_def)
qed

text \<open>
  A purchase never overdraws: on a balanced portfolio \<open>open_position\<close> fails only for lack of cash, and
  then leaves the portfolio as it was; when it succeeds the cash that remains is not negative.
\<close>

theorem open_position_never_overdraws:
  assumes "pf_ok p" "0 < q" "fresh_lot fresh p"
  shows "case open_position fresh now s q price cost p of
      (Inl e, p') \<Rightarrow> p' = p \<and> (\<exists>need. e = InsufficientCash need (pf_cash p) \<and> pf_cash p < need)
    | (Inr i, p') \<Rightarrow> 0 \<le> pf_cash p' \<and> shares (get_tax_lots s p') = shares (get_tax_lots s p) + q"
proof (cases rule: open_position_cases [OF assms, of price cost now s])
  case (2 p')
  then have "0 \<le> pf_cash p'" using float_nonneg(4) by simp
  then show ?thesis using 2 by auto
qed simp

section \<open>The tax estimate and the sale agree\<close>

text \<open>\<open>lot_tax\<close> on a consumed entry.\<close>

definition consumed_tax :: "DefaultCostModel \<Rightarrow> rat \<Rightarrow> rat \<Rightarrow> Consumed \<Rightarrow> rat" where
  "consumed_tax m sp acc c =
     (let gain = fmul (fsub sp (c_price c)) (fint (c_quantity c)) in
      if 0 < gain
      then fadd acc (fmul gain (if c_long_term c then long_term_tax_rate m else short_term_tax_rate m))
      else acc)"

lemma tax_loop_consumed:
  "consume_loop d rest n basis lots = (cs, b, r, ls) \<Longrightarrow>
     tax_loop m price d n acc rest = foldl (consumed_tax m price) acc cs"
proof (induction rest arbitrary: n basis lots cs acc)
  case (Cons lot rest)
  show ?case
  proof (cases "n \<le> 0")
    case False
    let ?q = "min n (lot_quantity lot)"
    let ?c = "\<lparr>c_lot_id = lot_id lot, c_quantity = ?q, c_price = lot_price lot,
        c_date = lot_date lot, c_long_term = is_long_term (Some d) d lot\<rparr>"
    obtain cs' where rec: "consume_loop d rest (n - ?q) (fadd basis (fmul (fint ?q) (lot_price lot)))
        (use_lot ?q lot lots) = (cs', b, r, ls)" and cs: "cs = ?c # cs'"
      using Cons.prems False by (auto simp: Let_def split: prod.splits)
    have "lot_tax m price d ?q lot acc = consumed_tax m price acc ?c"
      by (simp add: lot_tax_def consumed_tax_def Let_def)
    then show ?thesis using Cons.IH [OF rec] False by (simp add: Let_def cs)
  qed (use Cons.prems in auto)
qed simp

text \<open>
  The tax estimate is the tax of the sale: \<open>estimate_tax\<close>, asked before a sale with the lots and the
  method of the portfolio and the date of the sale, adds up the gains, with their long- and
  short-term rates, of exactly the lots that \<open>close_position\<close> then consumes.
\<close>

theorem estimate_taxes_consumed_lots:
  assumes "pf_ok p" "0 < q" "close_position now s q price cost tax p = (Inr cs, p')"
  shows "amount (estimate_tax m s sp q (get_tax_lots s p) (pf_tax_method p)
      (Some (trade_date now p)) t) = max 0 (foldl (consumed_tax m sp) 0 cs)"
proof -
  obtain basis where "consume_loop (trade_date now p) (lot_order (pf_tax_method p) (get_tax_lots s p)) q 0
      (get_tax_lots s p) = (cs, basis, 0, get_tax_lots s p')"
    by (rule close_position_Inr [OF assms(1-3)])
  from tax_loop_consumed [OF this] show ?thesis by (simp add: estimate_tax_def)
qed

section \<open>Wash sales at purchase\<close>

lemma open_position_lot:
  assumes "open_position fresh now s q price cost p = (Inr i, p')"
    and "wash_adjustment (wash_sale_window_days (pf_cost_model p)) s (trade_date now p) q 0 (pf_sells p) = Inr adj"
    and "0 < adj"
  shows "map lot_price (get_tax_lots s p') =
      map lot_price (get_tax_lots s p) @ [fadd price (fdiv adj (fint q))]
    \<and> pf_sells p' = pf_sells p \<and> pf_cost_model p' = pf_cost_model p
    \<and> pf_transaction_date p' = pf_transaction_date p"
  using assms
  by (auto simp: open_position_def Let_def add_to_position_def get_tax_lots_def
      split: if_splits sum.splits option.splits)

text \<open>
  A disallowed loss is added more than once: when two purchases of the same symbol and quantity follow a
  losing sale within the window on the same date, both lots carry the whole adjustment, though
  the loss was realised once; nothing in the sell history is marked as used.
\<close>

theorem wash_sale_adjusts_every_purchase:
  assumes "pf_transaction_date p = Some d"
    and "wash_adjustment (wash_sale_window_days (pf_cost_model p)) s d q 0 (pf_sells p) = Inr adj" "0 < adj"
    and "open_position f1 t1 s q price cost p = (Inr i1, p1)"
    and "open_position f2 t2 s q price cost p1 = (Inr i2, p2)"
  shows "map lot_price (get_tax_lots s p2) = map lot_price (get_tax_lots s p)
      @ [fadd price (fdiv adj (fint q)), fadd price (fdiv adj (fint q))]"
proof -
  have d: "trade_date t p = d" for t using assms(1) by (simp add: trade_date_def)
  note a = open_position_lot [OF assms(4), unfolded d, OF assms(2,3)]
  have "trade_date t p1 = d" for t using assms(1) a by (simp add: trade_date_def)
  then show ?thesis using open_position_lot [OF assms(5)] assms(2,3) a by simp
qed

end
