(* ===== verification/RiskEngine.thy ===== *)
theory RiskEngine
  imports Portfolio
begin

text \<open>
  The portfolio-level risk engine, \<open>engine/core/risk_engine.py\<close>, and the order it reads, the
  class \<open>Order\<close> of \<open>engine/core/order_manager.py\<close> (not the order of \<open>engine/core/oms\<close>).

  Reasons and warnings that interpolate numbers are constructors holding the numbers.  A cash
  usage of infinity is \<open>None\<close>.
\<close>

section \<open>Orders of the order manager\<close>

datatype Side = SIDE_BUY | SIDE_SELL | SIDE_HOLD

fun signal_side_value :: "Side \<Rightarrow> string" where
  "signal_side_value SIDE_BUY = ''buy''"
| "signal_side_value SIDE_SELL = ''sell''"
| "signal_side_value SIDE_HOLD = ''hold''"

datatype OmStatus =
  OM_PENDING | OM_VALIDATED | OM_COSTED | OM_RISK_APPROVED | OM_RISK_REJECTED | OM_SUBMITTED
| OM_FILLED | OM_PARTIALLY_FILLED | OM_CANCELLED | OM_REJECTED | OM_FAILED

datatype risk_reason =
  BreakerActive rat
| BreakerTriggered rat rat
| MaxOpenPositions int
| PositionTooLarge string rat rat
| OrderValueTooLarge rat rat
| DailyTradeLimit int

datatype risk_warning = CashUsage "rat option"

datatype om_reason =
  NoReason
| Said string
| CostExceeds "rat option" rat
| RiskSaid risk_reason

record Change =
  ch_from :: OmStatus
  ch_to :: OmStatus
  ch_time :: datetime
  ch_reason :: om_reason

record Fill =
  fi_price :: rat
  fi_quantity :: int
  fi_time :: datetime

record OmOrder =
  om_id :: string
  om_signal_id :: string
  om_strategy_id :: string
  om_symbol :: string
  om_side :: Side
  om_quantity :: int
  om_status :: OmStatus
  om_history :: "Change list"
  om_cost_breakdown :: "(string, rat) dict option"
  om_fill_price :: "rat option"
  om_fill_quantity :: "int option"
  om_filled_at :: "datetime option"
  om_fills :: "Fill list"

definition om_transition :: "datetime \<Rightarrow> OmStatus \<Rightarrow> om_reason \<Rightarrow> OmOrder \<Rightarrow> OmOrder" where
  "om_transition now st rsn ord = ord\<lparr>
     om_history := om_history ord @
       [\<lparr>ch_from = om_status ord, ch_to = st, ch_time = now, ch_reason = rsn\<rparr>],
     om_status := st\<rparr>"

section \<open>The engine\<close>

record RiskEngine =
  re_max_position_pct :: rat
  re_max_portfolio_risk_pct :: rat
  re_max_open_positions :: int
  re_drawdown_pct :: rat
  re_max_daily_trades :: int
  re_max_order_value :: rat
  re_breaker :: bool
  re_daily_trades :: int

definition default_risk_engine :: RiskEngine where
  "default_risk_engine = \<lparr>re_max_position_pct = f64 (20 / 100),
     re_max_portfolio_risk_pct = f64 (25 / 100), re_max_open_positions = 50,
     re_drawdown_pct = f64 (10 / 100), re_max_daily_trades = 100, re_max_order_value = 50000,
     re_breaker = False, re_daily_trades = 0\<rparr>"

datatype RiskVerdict = Denied risk_reason | Approved "risk_warning list"

definition calculate_drawdown :: "Portfolio \<Rightarrow> rat" where
  "calculate_drawdown p = (if pf_initial_cash p = 0 then 0
     else max 0 (fdiv (fsub (pf_initial_cash p) (total_value p)) (pf_initial_cash p)))"

definition position_weight :: "OmOrder \<Rightarrow> Portfolio \<Rightarrow> rat \<Rightarrow> rat" where
  "position_weight ord p order_value =
     (let existing = (case map_of (pf_positions p) (om_symbol ord) of
                        None \<Rightarrow> 0 | Some pos \<Rightarrow> market_value pos)
      in fdiv (fadd existing order_value) (total_value p))"

definition cash_warnings :: "OmOrder \<Rightarrow> Portfolio \<Rightarrow> rat \<Rightarrow> risk_warning list" where
  "cash_warnings ord p order_value =
     (if om_side ord = SIDE_BUY
      then if 0 < pf_cash p
        then let usage = fdiv order_value (pf_cash p) in
          if 1 / 2 < usage then [CashUsage (Some usage)] else []
        else [CashUsage None]
      else [])"

definition check_order :: "OmOrder \<Rightarrow> Portfolio \<Rightarrow> rat \<Rightarrow> RiskEngine \<Rightarrow> RiskVerdict \<times> RiskEngine" where
  "check_order ord p market_price re =
     (if re_breaker re then (Denied (BreakerActive (re_drawdown_pct re)), re)
      else
        let drawdown = calculate_drawdown p;
            order_value = fmul (fint (om_quantity ord)) market_price;
            new_weight = position_weight ord p order_value
        in
        if re_drawdown_pct re \<le> drawdown
        then (Denied (BreakerTriggered drawdown (re_drawdown_pct re)), re\<lparr>re_breaker := True\<rparr>)
        else if om_side ord = SIDE_BUY \<and> map_of (pf_positions p) (om_symbol ord) = None
                \<and> re_max_open_positions re \<le> int (length (pf_positions p))
        then (Denied (MaxOpenPositions (re_max_open_positions re)), re)
        else if 0 < total_value p \<and> om_side ord = SIDE_BUY \<and> re_max_position_pct re < new_weight
        then (Denied (PositionTooLarge (om_symbol ord) new_weight (re_max_position_pct re)), re)
        else if re_max_order_value re < order_value
        then (Denied (OrderValueTooLarge order_value (re_max_order_value re)), re)
        else if re_max_daily_trades re \<le> re_daily_trades re
        then (Denied (DailyTradeLimit (re_max_daily_trades re)), re)
        else (Approved (cash_warnings ord p order_value),
              re\<lparr>re_daily_trades := re_daily_trades re + 1\<rparr>))"

definition reset_daily_counters :: "RiskEngine \<Rightarrow> RiskEngine" where
  "reset_daily_counters re = re\<lparr>re_daily_trades := 0\<rparr>"

definition reset_circuit_breaker :: "RiskEngine \<Rightarrow> RiskEngine" where
  "reset_circuit_breaker re = re\<lparr>re_breaker := False\<rparr>"

section \<open>What an approval means\<close>

text \<open>The value an order would bring its position to, as a share of the portfolio.\<close>

definition share_after :: "OmOrder \<Rightarrow> Portfolio \<Rightarrow> rat \<Rightarrow> rat" where
  "share_after ord p order_value = (case map_of (pf_positions p) (om_symbol ord) of
       None \<Rightarrow> fdiv (fadd 0 order_value) (total_value p)
     | Some pos \<Rightarrow> fdiv (fadd (market_value pos) order_value) (total_value p))"

lemma position_weight_share: "position_weight ord p v = share_after ord p v"
  by (simp add: position_weight_def share_after_def split: option.splits)

text \<open>Every limit of the engine, as a condition on the order, the portfolio and the price.\<close>

definition within_risk_limits :: "OmOrder \<Rightarrow> Portfolio \<Rightarrow> rat \<Rightarrow> RiskEngine \<Rightarrow> bool" where
  "within_risk_limits ord p price re \<longleftrightarrow>
     \<not> re_breaker re \<and> calculate_drawdown p < re_drawdown_pct re
     \<and> (om_side ord = SIDE_BUY \<longrightarrow> om_symbol ord \<notin> fst ` set (pf_positions p) \<longrightarrow>
          int (length (pf_positions p)) < re_max_open_positions re)
     \<and> (om_side ord = SIDE_BUY \<longrightarrow> 0 < total_value p \<longrightarrow>
          share_after ord p (fmul (fint (om_quantity ord)) price) \<le> re_max_position_pct re)
     \<and> fmul (fint (om_quantity ord)) price \<le> re_max_order_value re
     \<and> re_daily_trades re < re_max_daily_trades re"

text \<open>An approval means that all of them hold, and when all hold the order is approved.\<close>

lemma check_order_iff:
  "(\<exists>ws. fst (check_order ord p price re) = Approved ws) \<longleftrightarrow> within_risk_limits ord p price re"
  by (auto simp: check_order_def within_risk_limits_def position_weight_share map_of_eq_None_iff Let_def
    split: if_splits)

lemma check_order_Approved:
  assumes "check_order ord p price re = (Approved ws, re')"
  shows "within_risk_limits ord p price re \<and> re' = re\<lparr>re_daily_trades := re_daily_trades re + 1\<rparr>"
proof -
  have "within_risk_limits ord p price re" unfolding check_order_iff [symmetric] by (simp add: assms)
  then show ?thesis using assms by (auto simp: check_order_def Let_def split: if_splits)
qed

lemma check_order_Denied: "check_order ord p price re = (Denied r, re') \<Longrightarrow> \<not> within_risk_limits ord p price re"
  unfolding check_order_iff [symmetric] by simp

datatype re_op = Check OmOrder Portfolio rat | ResetDaily | ResetBreaker

fun re_step :: "RiskEngine \<Rightarrow> re_op \<Rightarrow> RiskEngine" where
  "re_step re (Check ord p price) = snd (check_order ord p price re)"
| "re_step re ResetDaily = reset_daily_counters re"
| "re_step re ResetBreaker = reset_circuit_breaker re"

definition re_run :: "RiskEngine \<Rightarrow> re_op list \<Rightarrow> RiskEngine" where
  "re_run re ops = foldl re_step re ops"

text \<open>The approvals among the checks of a run, in its order.\<close>

fun re_approvals :: "RiskEngine \<Rightarrow> re_op list \<Rightarrow> nat" where
  "re_approvals re [] = 0"
| "re_approvals re (x # xs) =
     (case x of
        Check ord p price \<Rightarrow>
          (case fst (check_order ord p price re) of Approved ws \<Rightarrow> 1 | Denied r \<Rightarrow> 0)
      | _ \<Rightarrow> 0) + re_approvals (re_step re x) xs"

lemma check_order_frame:
  "re_max_daily_trades (snd (check_order ord p price re)) = re_max_daily_trades re
   \<and> re_daily_trades (snd (check_order ord p price re)) =
       re_daily_trades re + (case fst (check_order ord p price re) of Approved ws \<Rightarrow> 1 | Denied r \<Rightarrow> 0)
   \<and> (re_breaker re \<longrightarrow> re_breaker (snd (check_order ord p price re)))"
  by (simp add: check_order_def Let_def)

lemma check_order_breaker:
  "re_breaker re \<Longrightarrow> check_order ord p price re = (Denied (BreakerActive (re_drawdown_pct re)), re)"
  by (simp add: check_order_def)

text \<open>
  The breaker holds: once the drawdown has reached the limit, every later order of any side is denied,
  whatever the portfolio has recovered to, until the breaker is reset.
\<close>

theorem breaker_denies_until_reset:
  assumes "\<not> re_breaker re" "re_drawdown_pct re \<le> calculate_drawdown p"
    and "ResetBreaker \<notin> set ops"
  shows "\<exists>r. fst (check_order ord' p' price' (re_run (snd (check_order ord p price re)) ops)) = Denied r"
proof -
  have "re_breaker (snd (check_order ord p price re))"
    using assms(1,2) by (simp add: check_order_def Let_def)
  then have "re_breaker (re_run (snd (check_order ord p price re)) ops)"
    using assms(3)
  proof (induction ops rule: rev_induct)
    case (snoc x xs)
    then show ?case
      by (cases x) (auto simp: re_run_def check_order_breaker reset_daily_counters_def)
  qed (simp add: re_run_def)
  then show ?thesis by (simp add: check_order_breaker)
qed

definition sample_om :: "Side \<Rightarrow> int \<Rightarrow> OmOrder" where
  "sample_om sd q = \<lparr>om_id = ''o1'', om_signal_id = ''s1'', om_strategy_id = ''st'', om_symbol = ''A'',
     om_side = sd, om_quantity = q, om_status = OM_PENDING, om_history = [], om_cost_breakdown = None,
     om_fill_price = None, om_fill_quantity = None, om_filled_at = None, om_fills = []\<rparr>"

text \<open>
  No run of checks approves more orders than the daily limit unless the counter is reset: the approvals
  of a run without a reset, added to the trades already counted, stay within
  \<open>max_daily_trades\<close>, whatever orders, portfolios and prices were checked.
\<close>

theorem daily_limit_bounds_approvals:
  assumes "ResetDaily \<notin> set ops" "re_daily_trades re \<le> re_max_daily_trades re"
  shows "re_daily_trades re + int (re_approvals re ops) \<le> re_max_daily_trades re"
  using assms
proof (induction ops arbitrary: re)
  case (Cons x ops)
  show ?case
  proof (cases x)
    case (Check ord p price)
    note frame = check_order_frame [of ord p price re]
    have "re_daily_trades (snd (check_order ord p price re)) \<le> re_max_daily_trades re"
    proof (cases "fst (check_order ord p price re)")
      case (Approved ws)
      then have "re_daily_trades re < re_max_daily_trades re"
        using check_order_Approved [of ord p price re ws "snd (check_order ord p price re)"]
        by (simp add: prod_eq_iff within_risk_limits_def)
      then show ?thesis using frame Approved by simp
    qed (use frame Cons.prems(2) in simp)
    then show ?thesis
      using Cons.IH [of "snd (check_order ord p price re)"] Cons.prems(1) frame Check
      by (auto split: RiskVerdict.splits)
  next
    case ResetBreaker
    then show ?thesis using Cons.IH [of "reset_circuit_breaker re"] Cons.prems
      by (simp add: reset_circuit_breaker_def)
  qed (use Cons.prems(1) in simp)
qed simp

end
