(* ===== verification/OrderManager.thy ===== *)
theory OrderManager
  imports RiskEngine
begin

text \<open>
  The order manager, \<open>engine/core/order_manager.py\<close>, with the execution backends it drives:
  \<open>engine/core/execution/base.py\<close> and \<open>backtest.py\<close>.

  The cost model and the backend are arguments: an \<open>estimate\<close> function and an \<open>execute\<close> on a
  backend state (\<open>None\<close> is the unset backend).  The clock and the uuid of a new lot are arguments.
  The event bus is a function that says how an emission ends: \<open>None\<close> for success, the name
  of the exception class for the three classes the code catches.  What the manager publishes and
  counts is the trace \<open>mg_trace\<close>.

  An order object is shared between the caller and \<open>completed_orders\<close>: \<open>continue_order\<close>
  writes the entry of the list.  An exception of the portfolio propagates as the left value,
  with the state it leaves.
\<close>

section \<open>Fills and the back-test backend\<close>

record FillResult =
  fr_success :: bool
  fr_price :: rat
  fr_quantity :: int
  fr_reason :: string

definition failed_fill :: "string \<Rightarrow> FillResult" where
  "failed_fill why = \<lparr>fr_success = False, fr_price = 0, fr_quantity = 0, fr_reason = why\<rparr>"

text \<open>\<open>round(x, k)\<close> on floats is correctly rounded.\<close>

definition py_round :: "nat \<Rightarrow> rat \<Rightarrow> rat" where
  "py_round k x = f64 (of_int (rhe (x * 10 ^ k)) / 10 ^ k)"

text \<open>
  \<open>random.Random\<close>: the generator is a source of naturals \<open>bits\<close>; \<open>random()\<close> is 53 of its bits over
  \<open>2^53\<close>, and \<open>uniform(a, b)\<close> is \<open>a + (b - a) * random()\<close>.
\<close>

definition rng_random :: "('g \<Rightarrow> nat \<times> 'g) \<Rightarrow> 'g \<Rightarrow> rat \<times> 'g" where
  "rng_random bits g = (case bits g of (n, g') \<Rightarrow> (of_nat (n mod 2 ^ 53) / 2 ^ 53, g'))"

definition rng_uniform :: "('g \<Rightarrow> nat \<times> 'g) \<Rightarrow> rat \<Rightarrow> rat \<Rightarrow> 'g \<Rightarrow> rat \<times> 'g" where
  "rng_uniform bits a b g = (case rng_random bits g of (r, g') \<Rightarrow> (fadd a (fmul (fsub b a) r), g'))"

record 'g BacktestBackend =
  bt_fill_probability :: rat
  bt_partial_fill :: bool
  bt_rng :: 'g

definition backtest_execute ::
  "('g \<Rightarrow> nat \<times> 'g) \<Rightarrow> OmOrder \<Rightarrow> rat \<Rightarrow> CostBreakdown \<Rightarrow> 'g BacktestBackend
     \<Rightarrow> FillResult \<times> 'g BacktestBackend" where
  "backtest_execute bits ord market_price costs b =
     (case rng_random bits (bt_rng b) of
        (r, g) \<Rightarrow>
          if bt_fill_probability b < r
          then (failed_fill ''Simulated fill failure (market conditions)'', b\<lparr>bt_rng := g\<rparr>)
          else
            let q = om_quantity ord;
                slip = (if 0 < q then fdiv (amount (slippage costs)) (fint q) else 0);
                price = (if om_side ord = SIDE_BUY then fadd market_price slip else fsub market_price slip);
                (q', g') = (if bt_partial_fill b \<and> 1000 < q
                            then (case rng_uniform bits (f64 (85 / 100)) 1 g of
                                    (ratio, g1) \<Rightarrow> (max 1 \<lfloor>fmul (fint q) ratio\<rfloor>, g1))
                            else (q, g))
            in (\<lparr>fr_success = True, fr_price = py_round 4 price, fr_quantity = q', fr_reason = []\<rparr>,
                b\<lparr>bt_rng := g'\<rparr>))"

section \<open>Signals\<close>

record Signal =
  sg_id :: string
  sg_symbol :: string
  sg_side :: Side
  sg_weight :: rat
  sg_quantity :: "int option"
  sg_strategy_id :: string
  sg_max_cost_pct :: "rat option"

definition trade_signals :: "Signal list \<Rightarrow> Signal list" where
  "trade_signals signals = filter (\<lambda>s. sg_side s \<noteq> SIDE_HOLD) signals"

section \<open>The manager\<close>

record FillPayload =
  fp_order_id :: string
  fp_symbol :: string
  fp_side :: string
  fp_qty :: "int option"
  fp_price :: "rat option"
  fp_timestamp :: "datetime option"
  fp_status :: OmStatus
  fp_strategy_id :: string
  fp_signal_id :: string

datatype om_effect = Emitted FillPayload | PublishFailed string

record 'x OrderManager =
  mg_risk :: RiskEngine
  mg_portfolio :: Portfolio
  mg_bus :: bool
  mg_backend :: "'x option"
  mg_pending :: "(string, OmOrder) dict"
  mg_completed :: "OmOrder list"
  mg_trace :: "om_effect list"

datatype om_error =
  PortfolioError pf_error
| UnknownOrder string
| NotPartiallyFilled string OmStatus
| NoBackend

type_synonym estimator = "string \<Rightarrow> int \<Rightarrow> rat \<Rightarrow> string \<Rightarrow> int \<Rightarrow> CostBreakdown"
type_synonym 'x executor = "OmOrder \<Rightarrow> rat \<Rightarrow> CostBreakdown \<Rightarrow> 'x \<Rightarrow> FillResult \<times> 'x"

text \<open>
  Float floor division by a positive divisor, as CPython computes it: \<open>fmod\<close>, the exact remainder of
  the truncated quotient, then a rounded quotient that is snapped to an integer.
\<close>

definition float_floordiv :: "rat \<Rightarrow> rat \<Rightarrow> int" where
  "float_floordiv x y =
     (let r = x - y * of_int (if 0 \<le> x then \<lfloor>x / y\<rfloor> else \<lceil>x / y\<rceil>);
          d0 = fdiv (fsub x r) y;
          d = (if r < 0 then fsub d0 1 else d0)
      in if 1 / 2 < fsub d (of_int \<lfloor>d\<rfloor>) then \<lfloor>d\<rfloor> + 1 else \<lfloor>d\<rfloor>)"

definition calculate_quantity :: "Signal \<Rightarrow> rat \<Rightarrow> Portfolio \<Rightarrow> int" where
  "calculate_quantity sg price p =
     (if price \<le> 0 then 0 else float_floordiv (fmul (pf_cash p) (sg_weight sg)) price)"

definition validate_order :: "OmOrder \<Rightarrow> rat \<Rightarrow> Portfolio \<Rightarrow> bool" where
  "validate_order ord price p =
     (if om_quantity ord \<le> 0 then False
      else case om_side ord of
        SIDE_BUY \<Rightarrow> \<not> pf_cash p < fmul (fint (om_quantity ord)) price
      | SIDE_SELL \<Rightarrow> (case map_of (pf_positions p) (om_symbol ord) of
                        None \<Rightarrow> False | Some pos \<Rightarrow> \<not> pos_quantity pos < om_quantity ord)
      | SIDE_HOLD \<Rightarrow> True)"

definition new_om_order :: "string \<Rightarrow> Signal \<Rightarrow> int \<Rightarrow> OmOrder" where
  "new_om_order oid sg q = \<lparr>om_id = oid, om_signal_id = sg_id sg, om_strategy_id = sg_strategy_id sg,
     om_symbol = sg_symbol sg, om_side = sg_side sg, om_quantity = q, om_status = OM_PENDING,
     om_history = [], om_cost_breakdown = None, om_fill_price = None, om_fill_quantity = None,
     om_filled_at = None, om_fills = []\<rparr>"

definition or_zero :: "rat option \<Rightarrow> rat" where
  "or_zero x = (case x of None \<Rightarrow> 0 | Some y \<Rightarrow> y)"

definition filled_so_far :: "OmOrder \<Rightarrow> int" where
  "filled_so_far ord = (case om_fill_quantity ord of None \<Rightarrow> 0 | Some q \<Rightarrow> q)"

text \<open>The order's part of \<open>_reconcile_fill\<close>, then the portfolio's.\<close>

definition record_fill :: "datetime \<Rightarrow> FillResult \<Rightarrow> OmOrder \<Rightarrow> OmOrder" where
  "record_fill now fill ord =
     (let prior_qty = filled_so_far ord;
          new_qty = prior_qty + fr_quantity fill;
          new_vwap = (if 0 < new_qty
            then fdiv (fadd (fmul (or_zero (om_fill_price ord)) (fint prior_qty))
                            (fmul (fr_price fill) (fint (fr_quantity fill)))) (fint new_qty)
            else fr_price fill);
          ord' = ord\<lparr>om_fill_price := Some new_vwap, om_fill_quantity := Some new_qty,
                   om_filled_at := Some now,
                   om_fills := om_fills ord @ [\<lparr>fi_price = fr_price fill,
                     fi_quantity = fr_quantity fill, fi_time = now\<rparr>]\<rparr>
      in om_transition now (if new_qty < om_quantity ord then OM_PARTIALLY_FILLED else OM_FILLED)
           NoReason ord')"

definition book_fill ::
  "string \<Rightarrow> datetime \<Rightarrow> OmOrder \<Rightarrow> FillResult \<Rightarrow> CostBreakdown \<Rightarrow> Portfolio \<Rightarrow> pf_error option \<times> Portfolio" where
  "book_fill fresh now ord fill costs p =
     (let total_cost = amount (cb_total costs) in
      case om_side ord of
        SIDE_BUY \<Rightarrow>
          (case open_position fresh now (om_symbol ord) (fr_quantity fill) (fr_price fill) total_cost p of
             (Inl e, p') \<Rightarrow> (Some e, p') | (Inr i, p') \<Rightarrow> (None, p'))
      | SIDE_SELL \<Rightarrow>
          (let tax = amount (tax_estimate costs) in
           case close_position now (om_symbol ord) (fr_quantity fill) (fr_price fill)
                  (fsub total_cost tax) tax p of
             (Inl e, p') \<Rightarrow> (Some e, p') | (Inr cs, p') \<Rightarrow> (None, p'))
      | SIDE_HOLD \<Rightarrow> (None, p))"

definition fill_payload :: "OmOrder \<Rightarrow> FillPayload" where
  "fill_payload ord = \<lparr>fp_order_id = om_id ord, fp_symbol = om_symbol ord,
     fp_side = signal_side_value (om_side ord), fp_qty = om_fill_quantity ord,
     fp_price = om_fill_price ord, fp_timestamp = om_filled_at ord, fp_status = om_status ord,
     fp_strategy_id = om_strategy_id ord, fp_signal_id = om_signal_id ord\<rparr>"

definition publish_fill_event ::
  "(FillPayload \<Rightarrow> string option) \<Rightarrow> OmOrder \<Rightarrow> 'x OrderManager \<Rightarrow> 'x OrderManager" where
  "publish_fill_event emit ord mg =
     (if \<not> mg_bus mg then mg
      else mg\<lparr>mg_trace := mg_trace mg @
        (case emit (fill_payload ord) of
           None \<Rightarrow> [Emitted (fill_payload ord)]
         | Some cls \<Rightarrow> [PublishFailed cls])\<rparr>)"

text \<open>The cost gate of a signal with \<open>max_cost_pct\<close>; an infinite percentage is \<open>None\<close>.\<close>

definition cost_objection :: "Signal \<Rightarrow> OmOrder \<Rightarrow> rat \<Rightarrow> CostBreakdown \<Rightarrow> om_reason option" where
  "cost_objection sg ord market_price costs =
     (case sg_max_cost_pct sg of
        None \<Rightarrow> None
      | Some limit \<Rightarrow>
          let trade_value = fmul (fint (om_quantity ord)) market_price in
          if 0 < trade_value
          then let pct = fdiv (amount (total_without_tax costs)) trade_value in
            if limit < pct then Some (CostExceeds (Some pct) limit) else None
          else Some (CostExceeds None limit))"

definition process_signal ::
  "estimator \<Rightarrow> 'x executor \<Rightarrow> (FillPayload \<Rightarrow> string option) \<Rightarrow> string \<Rightarrow> string \<Rightarrow> datetime
     \<Rightarrow> Signal \<Rightarrow> rat \<Rightarrow> int \<Rightarrow> 'x OrderManager \<Rightarrow> (om_error + OmOrder) \<times> 'x OrderManager" where
  "process_signal estimate execute emit oid fresh now sg market_price avg_volume mg =
     (let quantity = (case sg_quantity sg of
            Some q \<Rightarrow> if q = 0 then calculate_quantity sg market_price (mg_portfolio mg) else q
          | None \<Rightarrow> calculate_quantity sg market_price (mg_portfolio mg));
          ord0 = new_om_order oid sg quantity
      in
      if \<not> validate_order ord0 market_price (mg_portfolio mg)
      then (Inr (om_transition now OM_REJECTED (Said ''Validation failed'') ord0), mg)
      else
        let ord1 = om_transition now OM_VALIDATED NoReason ord0;
            costs = estimate (om_symbol ord1) quantity market_price (signal_side_value (om_side ord1)) avg_volume;
            ord2 = om_transition now OM_COSTED NoReason (ord1\<lparr>om_cost_breakdown := Some (as_dict costs)\<rparr>)
        in
        (case cost_objection sg ord2 market_price costs of
           Some why \<Rightarrow> (Inr (om_transition now OM_RISK_REJECTED why ord2), mg)
         | None \<Rightarrow>
             (case check_order ord2 (mg_portfolio mg) market_price (mg_risk mg) of
                (Denied r, re) \<Rightarrow>
                  (Inr (om_transition now OM_RISK_REJECTED (RiskSaid r) ord2), mg\<lparr>mg_risk := re\<rparr>)
              | (Approved ws, re) \<Rightarrow>
                  let mg1 = mg\<lparr>mg_risk := re\<rparr>;
                      ord3 = om_transition now OM_RISK_APPROVED NoReason ord2
                  in
                  (case mg_backend mg1 of
                     None \<Rightarrow>
                       (Inr (om_transition now OM_FAILED (Said ''No execution backend configured'') ord3), mg1)
                   | Some x \<Rightarrow>
                       let ord4 = om_transition now OM_SUBMITTED NoReason ord3 in
                       (case execute ord4 market_price costs x of
                          (fill, x') \<Rightarrow>
                            let mg2 = mg1\<lparr>mg_backend := Some x'\<rparr> in
                            if fr_success fill
                            then let ord5 = record_fill now fill ord4 in
                              (case book_fill fresh now ord5 fill costs (mg_portfolio mg2) of
                                 (Some e, p) \<Rightarrow> (Inl (PortfolioError e), mg2\<lparr>mg_portfolio := p\<rparr>)
                               | (None, p) \<Rightarrow>
                                   (Inr ord5, publish_fill_event emit ord5
                                     (mg2\<lparr>mg_portfolio := p, mg_completed := mg_completed mg2 @ [ord5]\<rparr>)))
                            else let ord5 = om_transition now OM_FAILED (Said (fr_reason fill)) ord4 in
                              (Inr ord5, mg2\<lparr>mg_completed := mg_completed mg2 @ [ord5]\<rparr>))))))"

section \<open>Continuing a partially filled order\<close>

definition find_completed :: "string \<Rightarrow> OmOrder list \<Rightarrow> OmOrder option" where
  "find_completed oid orders = find (\<lambda>ord. om_id ord = oid) orders"

definition find_order :: "string \<Rightarrow> 'x OrderManager \<Rightarrow> OmOrder option" where
  "find_order oid mg = (case map_of (mg_pending mg) oid of
     Some ord \<Rightarrow> Some ord | None \<Rightarrow> find_completed oid (mg_completed mg))"

text \<open>Writing the shared object: in \<open>pending_orders\<close> when it was found there, else in the list.\<close>

fun put_completed :: "OmOrder \<Rightarrow> OmOrder list \<Rightarrow> OmOrder list" where
  "put_completed ord [] = []"
| "put_completed ord (x # xs) = (if om_id x = om_id ord then ord # xs else x # put_completed ord xs)"

definition put_order :: "OmOrder \<Rightarrow> 'x OrderManager \<Rightarrow> 'x OrderManager" where
  "put_order ord mg =
     (if map_of (mg_pending mg) (om_id ord) \<noteq> None
      then mg\<lparr>mg_pending := AList.update (om_id ord) ord (mg_pending mg)\<rparr>
      else mg\<lparr>mg_completed := put_completed ord (mg_completed mg)\<rparr>)"

text \<open>The loop of \<open>continue_order\<close>; its first argument is \<open>attempts_cap - attempts\<close>.\<close>

fun continue_loop ::
  "nat \<Rightarrow> estimator \<Rightarrow> 'x executor \<Rightarrow> (FillPayload \<Rightarrow> string option) \<Rightarrow> (nat \<Rightarrow> string) \<Rightarrow> datetime
     \<Rightarrow> rat \<Rightarrow> OmOrder \<Rightarrow> 'x \<Rightarrow> 'x OrderManager \<Rightarrow> (om_error + OmOrder) \<times> 'x OrderManager" where
  "continue_loop 0 estimate execute emit fresh now price ord x mg = (Inr ord, mg)"
| "continue_loop (Suc n) estimate execute emit fresh now price ord x mg =
     (let remaining = om_quantity ord - filled_so_far ord in
      if om_status ord \<noteq> OM_PARTIALLY_FILLED \<or> remaining \<le> 0 then (Inr ord, mg)
      else
        let costs = estimate (om_symbol ord) remaining price (signal_side_value (om_side ord)) 0 in
        (case execute ord price costs x of
           (fill, x') \<Rightarrow>
             let mg1 = mg\<lparr>mg_backend := Some x'\<rparr> in
             if \<not> fr_success fill
             then let ord' = om_transition now OM_FAILED (Said (fr_reason fill)) ord in
               (Inr ord', put_order ord' mg1)
             else let ord' = record_fill now fill ord in
               (case book_fill (fresh n) now ord' fill costs (mg_portfolio mg1) of
                  (Some e, p) \<Rightarrow> (Inl (PortfolioError e), put_order ord' (mg1\<lparr>mg_portfolio := p\<rparr>))
                | (None, p) \<Rightarrow>
                    continue_loop n estimate execute emit fresh now price ord' x'
                      (publish_fill_event emit ord' (put_order ord' (mg1\<lparr>mg_portfolio := p\<rparr>))))))"

definition continue_order ::
  "estimator \<Rightarrow> 'x executor \<Rightarrow> (FillPayload \<Rightarrow> string option) \<Rightarrow> (nat \<Rightarrow> string) \<Rightarrow> datetime
     \<Rightarrow> string \<Rightarrow> rat option \<Rightarrow> int \<Rightarrow> 'x OrderManager \<Rightarrow> (om_error + OmOrder) \<times> 'x OrderManager" where
  "continue_order estimate execute emit fresh now oid market_price max_retries mg =
     (case find_order oid mg of
        None \<Rightarrow> (Inl (UnknownOrder oid), mg)
      | Some ord \<Rightarrow>
          if om_status ord \<noteq> OM_PARTIALLY_FILLED then (Inl (NotPartiallyFilled oid (om_status ord)), mg)
          else case mg_backend mg of
            None \<Rightarrow> (Inl NoBackend, mg)
          | Some x \<Rightarrow>
              let price = (case market_price of Some p \<Rightarrow> p | None \<Rightarrow> or_zero (om_fill_price ord)) in
              continue_loop (nat (max 1 max_retries)) estimate execute emit fresh now price ord x mg)"

section \<open>The contract of an execution backend\<close>

locale execution_backend =
  fixes execute :: "'x executor" and valid :: "'x \<Rightarrow> bool"
  assumes valid_step: "valid x \<Longrightarrow> execute ord price costs x = (fill, x') \<Longrightarrow> valid x'"
    and fill_bounds: "valid x \<Longrightarrow> execute ord price costs x = (fill, x') \<Longrightarrow> fr_success fill \<Longrightarrow>
      0 < om_quantity ord \<Longrightarrow> om_quantity ord \<le> 2 ^ 53 \<Longrightarrow>
      0 < fr_quantity fill \<and> fr_quantity fill \<le> om_quantity ord"

lemma record_fill_simps [simp]:
  "om_quantity (record_fill now fill ord) = om_quantity ord"
  "om_side (record_fill now fill ord) = om_side ord"
  "om_symbol (record_fill now fill ord) = om_symbol ord"
  "om_id (record_fill now fill ord) = om_id ord"
  "filled_so_far (record_fill now fill ord) = filled_so_far ord + fr_quantity fill"
  "om_fill_quantity (record_fill now fill ord) = Some (filled_so_far ord + fr_quantity fill)"
  "om_status (record_fill now fill ord) =
     (if filled_so_far ord + fr_quantity fill < om_quantity ord then OM_PARTIALLY_FILLED else OM_FILLED)"
  by (simp_all add: record_fill_def om_transition_def filled_so_far_def Let_def)

lemma om_transition_simps [simp]:
  "om_quantity (om_transition now st why ord) = om_quantity ord"
  "om_side (om_transition now st why ord) = om_side ord"
  "om_symbol (om_transition now st why ord) = om_symbol ord"
  "om_id (om_transition now st why ord) = om_id ord"
  "om_status (om_transition now st why ord) = st"
  "om_fill_quantity (om_transition now st why ord) = om_fill_quantity ord"
  "om_fills (om_transition now st why ord) = om_fills ord"
  by (simp_all add: om_transition_def)

lemma publish_fill_event_simps [simp]:
  "mg_portfolio (publish_fill_event emit ord mg) = mg_portfolio mg"
  "mg_completed (publish_fill_event emit ord mg) = mg_completed mg"
  "mg_pending (publish_fill_event emit ord mg) = mg_pending mg"
  "mg_backend (publish_fill_event emit ord mg) = mg_backend mg"
  "mg_risk (publish_fill_event emit ord mg) = mg_risk mg"
  by (simp_all add: publish_fill_event_def)

lemma put_order_simps [simp]:
  "mg_portfolio (put_order ord mg) = mg_portfolio mg" "mg_backend (put_order ord mg) = mg_backend mg"
  by (simp_all add: put_order_def)

lemma book_fill_ok:
  assumes "pf_ok p" "0 < fr_quantity fill" "fresh_lot fresh p"
  shows "pf_ok (snd (book_fill fresh now ord fill costs p))"
proof (cases "om_side ord")
  case SIDE_BUY
  show ?thesis
    by (cases rule: open_position_cases [OF assms, of "fr_price fill" "amount (cb_total costs)" now "om_symbol ord"])
      (simp_all add: book_fill_def SIDE_BUY assms(1))
next
  case SIDE_SELL
  show ?thesis
    by (cases rule: close_position_cases [OF assms(1,2), of "om_symbol ord" now "fr_price fill"
          "fsub (amount (cb_total costs)) (amount (tax_estimate costs))" "amount (tax_estimate costs)"])
      (simp_all add: book_fill_def SIDE_SELL assms(1) Let_def)
qed (simp add: book_fill_def assms(1))

text \<open>The branches of \<open>process_signal\<close> on an order that passes or fails each gate.\<close>

definition signal_quantity :: "Signal \<Rightarrow> rat \<Rightarrow> Portfolio \<Rightarrow> int" where
  "signal_quantity sg price p = (case sg_quantity sg of
     Some q \<Rightarrow> if q = 0 then calculate_quantity sg price p else q
   | None \<Rightarrow> calculate_quantity sg price p)"

text \<open>
  What holds of a signal for \<open>q\<close> shares when the backend is called: the size, the cover by cash or by the position, the
  cost limit of the signal, and each limit of the risk engine.
\<close>

definition passed_checks :: "Signal \<Rightarrow> int \<Rightarrow> rat \<Rightarrow> CostBreakdown \<Rightarrow> 'x OrderManager \<Rightarrow> bool" where
  "passed_checks sg q price costs mg \<longleftrightarrow> 0 < q
     \<and> (sg_side sg = SIDE_BUY \<longrightarrow> fmul (fint q) price \<le> pf_cash (mg_portfolio mg))
     \<and> (sg_side sg = SIDE_SELL \<longrightarrow> (\<exists>pos. map_of (pf_positions (mg_portfolio mg)) (sg_symbol sg) = Some pos
           \<and> q \<le> pos_quantity pos))
     \<and> (\<forall>limit. sg_max_cost_pct sg = Some limit \<longrightarrow> 0 < fmul (fint q) price
           \<and> fdiv (amount (total_without_tax costs)) (fmul (fint q) price) \<le> limit)
     \<and> \<not> re_breaker (mg_risk mg) \<and> calculate_drawdown (mg_portfolio mg) < re_drawdown_pct (mg_risk mg)
     \<and> (sg_side sg = SIDE_BUY \<longrightarrow> sg_symbol sg \<notin> fst ` set (pf_positions (mg_portfolio mg)) \<longrightarrow>
          int (length (pf_positions (mg_portfolio mg))) < re_max_open_positions (mg_risk mg))
     \<and> (sg_side sg = SIDE_BUY \<longrightarrow> 0 < total_value (mg_portfolio mg) \<longrightarrow>
          (case map_of (pf_positions (mg_portfolio mg)) (sg_symbol sg) of
             None \<Rightarrow> fdiv (fadd 0 (fmul (fint q) price)) (total_value (mg_portfolio mg))
           | Some pos \<Rightarrow> fdiv (fadd (market_value pos) (fmul (fint q) price)) (total_value (mg_portfolio mg)))
          \<le> re_max_position_pct (mg_risk mg))
     \<and> fmul (fint q) price \<le> re_max_order_value (mg_risk mg)
     \<and> re_daily_trades (mg_risk mg) < re_max_daily_trades (mg_risk mg)"

lemma validate_order_iff:
  "validate_order ord price p \<longleftrightarrow> 0 < om_quantity ord
     \<and> (om_side ord = SIDE_BUY \<longrightarrow> fmul (fint (om_quantity ord)) price \<le> pf_cash p)
     \<and> (om_side ord = SIDE_SELL \<longrightarrow> (\<exists>pos. map_of (pf_positions p) (om_symbol ord) = Some pos
           \<and> om_quantity ord \<le> pos_quantity pos))"
  by (auto simp: validate_order_def not_less split: Side.splits option.splits)

lemma cost_objection_None:
  "cost_objection sg ord price costs = None \<longleftrightarrow> (\<forall>limit. sg_max_cost_pct sg = Some limit \<longrightarrow>
     0 < fmul (fint (om_quantity ord)) price
     \<and> fdiv (amount (total_without_tax costs)) (fmul (fint (om_quantity ord)) price) \<le> limit)"
  by (auto simp: cost_objection_def Let_def split: option.splits)

definition path :: "OmOrder \<Rightarrow> OmStatus list" where
  "path ord = map ch_to (om_history ord)"

lemma path_simps [simp]:
  "path (new_om_order oid sg q) = []"
  "path (om_transition now st why ord) = path ord @ [st]"
  "path (ord\<lparr>om_cost_breakdown := cb\<rparr>) = path ord"
  "path (record_fill now fill ord) = path ord @
     [if filled_so_far ord + fr_quantity fill < om_quantity ord then OM_PARTIALLY_FILLED else OM_FILLED]"
  by (simp_all add: path_def om_transition_def new_om_order_def record_fill_def Let_def)

lemma new_om_order_simps [simp]:
  "om_quantity (new_om_order oid sg q) = q" "om_side (new_om_order oid sg q) = sg_side sg"
  "om_symbol (new_om_order oid sg q) = sg_symbol sg" "om_status (new_om_order oid sg q) = OM_PENDING"
  "om_id (new_om_order oid sg q) = oid" "om_fill_quantity (new_om_order oid sg q) = None"
  "om_fills (new_om_order oid sg q) = []"
  by (simp_all add: new_om_order_def)

text \<open>The three gates together are \<open>passed_checks\<close>, in both directions.\<close>

lemma gates_iff:
  assumes "om_quantity o0 = q" "om_side o0 = sg_side sg" "om_symbol o0 = sg_symbol sg"
    and "om_quantity o2 = q" "om_side o2 = sg_side sg" "om_symbol o2 = sg_symbol sg"
  shows "passed_checks sg q price costs mg \<longleftrightarrow> validate_order o0 price (mg_portfolio mg)
    \<and> cost_objection sg o2 price costs = None \<and> within_risk_limits o2 (mg_portfolio mg) price (mg_risk mg)"
  unfolding passed_checks_def validate_order_iff cost_objection_None within_risk_limits_def share_after_def assms by blast

text \<open>
  One lemma for all branches: either the signal stops at a gate, the backend and the portfolio
  untouched, or the checks have passed and the backend was called once.
\<close>

lemma process_signal_cases:
  assumes q_def: "q = signal_quantity sg price (mg_portfolio mg)"
    and costs_def: "costs = estimate (sg_symbol sg) q price (signal_side_value (sg_side sg)) vol"
  obtains (stopped) ord re where
      "process_signal estimate execute emit oid fresh now sg price vol mg = (Inr ord, mg\<lparr>mg_risk := re\<rparr>)"
      "om_quantity ord = q" "om_fill_quantity ord = None" "OM_SUBMITTED \<notin> set (path ord)"
      "om_status ord \<in> {OM_REJECTED, OM_RISK_REJECTED, OM_FAILED}"
      "mg_backend mg = None \<or> \<not> passed_checks sg q price costs mg"
  | (failed) ord x fill x' re where
      "mg_backend mg = Some x" "passed_checks sg q price costs mg"
      "execute ord price costs x = (fill, x')" "\<not> fr_success fill" "om_quantity ord = q"
      "path ord = [OM_VALIDATED, OM_COSTED, OM_RISK_APPROVED, OM_SUBMITTED]" "om_fill_quantity ord = None"
      "process_signal estimate execute emit oid fresh now sg price vol mg =
         (Inr (om_transition now OM_FAILED (Said (fr_reason fill)) ord),
          mg\<lparr>mg_risk := re, mg_backend := Some x',
             mg_completed := mg_completed mg @ [om_transition now OM_FAILED (Said (fr_reason fill)) ord]\<rparr>)"
      "re_daily_trades re = re_daily_trades (mg_risk mg) + 1"
  | (filled) ord x fill x' re p e where
      "mg_backend mg = Some x" "passed_checks sg q price costs mg"
      "execute ord price costs x = (fill, x')" "fr_success fill" "om_quantity ord = q"
      "om_side ord = sg_side sg" "om_symbol ord = sg_symbol sg"
      "path ord = [OM_VALIDATED, OM_COSTED, OM_RISK_APPROVED, OM_SUBMITTED]" "om_fill_quantity ord = None"
      "om_fills ord = []"
      "book_fill fresh now (record_fill now fill ord) fill costs (mg_portfolio mg) = (e, p)"
      "process_signal estimate execute emit oid fresh now sg price vol mg =
         (case e of Some err \<Rightarrow> (Inl (PortfolioError err),
              mg\<lparr>mg_risk := re, mg_backend := Some x', mg_portfolio := p\<rparr>)
          | None \<Rightarrow> (Inr (record_fill now fill ord),
              publish_fill_event emit (record_fill now fill ord)
                (mg\<lparr>mg_risk := re, mg_backend := Some x', mg_portfolio := p,
                    mg_completed := mg_completed mg @ [record_fill now fill ord]\<rparr>)))"
      "re_daily_trades re = re_daily_trades (mg_risk mg) + 1"
proof -
  define o0 where "o0 = new_om_order oid sg q"
  define o1 where "o1 = om_transition now OM_VALIDATED NoReason o0"
  define o2 where "o2 = om_transition now OM_COSTED NoReason (o1\<lparr>om_cost_breakdown := Some (as_dict costs)\<rparr>)"
  define o4 where "o4 = om_transition now OM_SUBMITTED NoReason (om_transition now OM_RISK_APPROVED NoReason o2)"
  let ?res = "process_signal estimate execute emit oid fresh now sg price vol mg"
  have same: "om_quantity o2 = q" "om_side o2 = sg_side sg" "om_symbol o2 = sg_symbol sg"
    "path o2 = [OM_VALIDATED, OM_COSTED]" "om_fill_quantity o2 = None" "om_fills o2 = []"
    by (simp_all add: o2_def o1_def o0_def)
  have same4: "om_quantity o4 = q" "om_side o4 = sg_side sg" "om_symbol o4 = sg_symbol sg"
    "path o4 = [OM_VALIDATED, OM_COSTED, OM_RISK_APPROVED, OM_SUBMITTED]" "om_fill_quantity o4 = None"
    "om_fills o4 = []"
    by (simp_all add: o4_def same)
  have unfold: "?res =
      (if \<not> validate_order o0 price (mg_portfolio mg)
       then (Inr (om_transition now OM_REJECTED (Said ''Validation failed'') o0), mg)
       else case cost_objection sg o2 price costs of
         Some why \<Rightarrow> (Inr (om_transition now OM_RISK_REJECTED why o2), mg)
       | None \<Rightarrow> (case check_order o2 (mg_portfolio mg) price (mg_risk mg) of
           (Denied r, re) \<Rightarrow> (Inr (om_transition now OM_RISK_REJECTED (RiskSaid r) o2), mg\<lparr>mg_risk := re\<rparr>)
         | (Approved ws, re) \<Rightarrow> (case mg_backend mg of
             None \<Rightarrow> (Inr (om_transition now OM_FAILED (Said ''No execution backend configured'')
                       (om_transition now OM_RISK_APPROVED NoReason o2)), mg\<lparr>mg_risk := re\<rparr>)
           | Some x \<Rightarrow> (case execute o4 price costs x of (fill, x') \<Rightarrow>
               if fr_success fill
               then (case book_fill fresh now (record_fill now fill o4) fill costs (mg_portfolio mg) of
                   (Some e, p) \<Rightarrow> (Inl (PortfolioError e),
                      mg\<lparr>mg_risk := re, mg_backend := Some x', mg_portfolio := p\<rparr>)
                 | (None, p) \<Rightarrow> (Inr (record_fill now fill o4),
                     publish_fill_event emit (record_fill now fill o4)
                       (mg\<lparr>mg_risk := re, mg_backend := Some x', mg_portfolio := p,
                           mg_completed := mg_completed mg @ [record_fill now fill o4]\<rparr>)))
               else (Inr (om_transition now OM_FAILED (Said (fr_reason fill)) o4),
                 mg\<lparr>mg_risk := re, mg_backend := Some x', mg_completed := mg_completed mg @
                    [om_transition now OM_FAILED (Said (fr_reason fill)) o4]\<rparr>)))))"
    unfolding process_signal_def Let_def signal_quantity_def [symmetric]
    by (simp add: o0_def o1_def o2_def o4_def q_def costs_def split del: if_split
        cong: if_cong option.case_cong prod.case_cong RiskVerdict.case_cong)
  have o0: "om_quantity o0 = q" "om_side o0 = sg_side sg" "om_symbol o0 = sg_symbol sg" by (simp_all add: o0_def)
  note gates = gates_iff [OF o0 same(1-3), of price costs mg]
  show ?thesis
  proof (cases "validate_order o0 price (mg_portfolio mg)")
    case False
    then show ?thesis using stopped [of "om_transition now OM_REJECTED (Said ''Validation failed'') o0" "mg_risk mg"] unfold gates
      by (simp add: o0_def)
  next
    case valid: True
    show ?thesis
    proof (cases "cost_objection sg o2 price costs")
      case (Some why)
      then show ?thesis
        using stopped [of "om_transition now OM_RISK_REJECTED why o2" "mg_risk mg"] unfold valid same gates by simp
    next
      case cost: None
      obtain v re where check: "check_order o2 (mg_portfolio mg) price (mg_risk mg) = (v, re)"
        by (cases "check_order o2 (mg_portfolio mg) price (mg_risk mg)")
      show ?thesis
      proof (cases v)
        case (Denied r)
        note no = check_order_Denied [OF check [unfolded Denied]]
        show ?thesis
          using stopped [of "om_transition now OM_RISK_REJECTED (RiskSaid r) o2" re] unfold valid cost check same gates no Denied
          by simp
      next
        case (Approved ws)
        note yes = check_order_Approved [OF check [unfolded Approved]]
        have passed: "passed_checks sg q price costs mg" using valid cost yes gates by simp
        have counted: "re_daily_trades re = re_daily_trades (mg_risk mg) + 1" using yes by simp
        show ?thesis
        proof (cases "mg_backend mg")
          case None
          then show ?thesis
            using stopped [of "om_transition now OM_FAILED (Said ''No execution backend configured'')
                       (om_transition now OM_RISK_APPROVED NoReason o2)" re]
              unfold valid cost check Approved same by simp
        next
          case (Some x)
          obtain fill x' where ex: "execute o4 price costs x = (fill, x')"
            by (cases "execute o4 price costs x")
          obtain e p where book: "book_fill fresh now (record_fill now fill o4) fill costs (mg_portfolio mg) = (e, p)"
            by (cases "book_fill fresh now (record_fill now fill o4) fill costs (mg_portfolio mg)")
          show ?thesis
          proof (cases "fr_success fill")
            case True
            then show ?thesis
              using filled [OF Some passed ex True same4(1,2,3,4,5,6) book _ counted] unfold valid cost check Approved Some ex book
              by (cases e) simp_all
          next
            case False
            then show ?thesis
              using failed [OF Some passed ex False same4(1,4,5) _ counted] unfold valid cost check Approved Some ex by simp
          qed
        qed
      qed
    qed
  qed
qed

context execution_backend
begin

text \<open>With any backend that keeps its bounds, a signal keeps the books balanced and does not overfill.\<close>

lemma process_signal_books:
  assumes ok: "pf_ok (mg_portfolio mg)" and fresh: "fresh_lot fresh (mg_portfolio mg)"
    and small: "signal_quantity sg price (mg_portfolio mg) \<le> 2 ^ 53"
    and valid: "\<forall>x. mg_backend mg = Some x \<longrightarrow> valid x"
    and run: "process_signal estimate execute emit oid fresh now sg price vol mg = (res, mg')"
  shows "pf_ok (mg_portfolio mg') \<and> (\<forall>x. mg_backend mg' = Some x \<longrightarrow> valid x)
    \<and> (\<forall>ord. res = Inr ord \<longrightarrow> filled_so_far ord \<le> om_quantity ord \<or> om_quantity ord \<le> 0)"
proof (cases rule: process_signal_cases [OF refl refl, where sg = sg and price = price and mg = mg
      and estimate = estimate and vol = vol and execute = execute and emit = emit and oid = oid
      and fresh = fresh and now = now])
  case (1 ord re)
  then show ?thesis using run ok valid by (auto simp: filled_so_far_def)
next
  case (2 ord x fill x' re)
  then have "valid x'" using valid valid_step by blast
  then show ?thesis using 2 run ok by (auto simp: filled_so_far_def)
next
  case (3 ord x fill x' re p e)
  have q: "0 < om_quantity ord" using 3(2,5) by (simp add: passed_checks_def)
  have b: "0 < fr_quantity fill \<and> fr_quantity fill \<le> om_quantity ord"
    by (rule fill_bounds [OF _ 3(3,4) q]) (use small valid 3(1,5) in simp_all)
  have "valid x'" using valid valid_step 3(1,3) by blast
  moreover have "pf_ok p" using book_fill_ok [OF ok _ fresh] b 3(11) by (metis snd_conv)
  moreover have "filled_so_far (record_fill now fill ord) \<le> om_quantity ord"
    using b 3(9) by (simp add: filled_so_far_def [of ord])
  ultimately show ?thesis using run 3(12) by (auto split: option.splits)
qed

end

section \<open>The back-test backend keeps the contract\<close>

lemma rng_random_range: "rng_random bits g = (r, g') \<Longrightarrow> 0 \<le> r \<and> r < 1"
proof -
  assume "rng_random bits g = (r, g')"
  moreover obtain n g1 where "bits g = (n, g1)" by (cases "bits g")
  ultimately have "r = of_nat (n mod 2 ^ 53) / 2 ^ 53" by (simp add: rng_random_def)
  moreover have "n mod 2 ^ 53 < 2 ^ 53" by simp
  then have "(of_nat (n mod 2 ^ 53) :: rat) < of_nat (2 ^ 53)" by (rule less_imp_of_nat_less)
  ultimately show ?thesis by simp
qed

text \<open>0.85 as a float; its difference to one is exact.\<close>

lemma f64_085: "f64 (17 / 20) = 7656119366529843 / 2 ^ 53"
proof -
  have "\<lceil>1 / (17 / 20) :: rat\<rceil> = 2" by (simp add: ceiling_eq_iff)
  then have m: "mag 2 (17 / 20) = - 1"
    by (simp add: mag_def ndigits.simps)
  then have "f64 (17 / 20) = of_int (rhe (17 / 20 / (2 powi (- 53)))) * 2 powi (- 53)"
    by (simp add: f64_def sig_round_def quantum_def Let_def)
  also have "rhe (17 / 20 / (2 powi (- 53) :: rat)) = 7656119366529843"
  proof -
    have "17 / 20 / (2 powi (- 53) :: rat) = 38280596832649216 / 5"
      by (simp add: power_int_minus)
    moreover have "\<lfloor>38280596832649216 / 5 :: rat\<rfloor> = 7656119366529843"
      by (simp add: floor_eq_iff)
    ultimately show ?thesis by (simp add: rhe_def Let_def)
  qed
  finally show ?thesis by (simp add: power_int_minus field_simps)
qed

lemma backtest_ratio:
  assumes "rng_uniform bits (f64 (85 / 100)) 1 g = (ratio, g')"
  shows "0 \<le> ratio \<and> ratio \<le> 1"
proof -
  let ?d = "(1351079888211149 :: rat) / 2 ^ 53"
  obtain r where r: "0 \<le> r" "r < 1" "ratio = fadd (f64 (85 / 100)) (fmul (fsub 1 (f64 (85 / 100))) r)"
    using assms rng_random_range by (fastforce simp: rng_uniform_def split: prod.splits)
  have d: "fsub 1 (f64 (85 / 100)) = ?d"
    using f64_dyadic [of 1351079888211149 53] by (simp add: fsub_def f64_085)
  have "?d * r \<le> ?d" using r(1,2) by simp
  then have "fmul ?d r \<le> ?d"
    using f64.mono [of "?d * r" ?d] f64_dyadic [of 1351079888211149 53] by (simp add: fmul_def)
  then have "f64 (85 / 100) + fmul ?d r \<le> 1" by (simp add: f64_085)
  then have "ratio \<le> f64 1" unfolding r(3) d fadd_def by (rule f64.mono)
  moreover have "0 \<le> ratio" unfolding r(3) d using r(1)
    by (intro float_nonneg) (simp_all add: f64.nonneg)
  ultimately show ?thesis by simp
qed

interpretation bt: execution_backend "backtest_execute bits" "\<lambda>_. True" for bits
proof unfold_locales
  fix ord price costs fill and x x' :: "'a BacktestBackend"
  assume ex: "backtest_execute bits ord price costs x = (fill, x')" and ok: "fr_success fill"
    and q: "0 < om_quantity ord" "om_quantity ord \<le> 2 ^ 53"
  let ?q = "om_quantity ord"
  have part: "max 1 \<lfloor>fmul (fint ?q) ratio\<rfloor> \<le> ?q" if "rng_uniform bits (f64 (85 / 100)) 1 g = (ratio, g')" for ratio g g'
  proof -
    have f: "fint ?q = of_int ?q" using q by (simp add: fint_exact)
    have "fint ?q * ratio \<le> fint ?q * 1"
      using backtest_ratio [OF that] q(1) by (intro mult_left_mono) (simp_all add: f)
    then have "fmul (fint ?q) ratio \<le> fint ?q"
      using f64.mono [of "fint ?q * ratio" "fint ?q"] by (simp add: fmul_def)
    then have "\<lfloor>fmul (fint ?q) ratio\<rfloor> \<le> ?q" unfolding f by (simp add: floor_le_iff)
    then show ?thesis using q(1) by simp
  qed
  show "0 < fr_quantity fill \<and> fr_quantity fill \<le> ?q"
    using ex ok q(1) part
    by (auto simp: backtest_execute_def failed_fill_def Let_def split: prod.splits if_splits)
qed

text \<open>
  A signal keeps the books: with the back-test backend, whatever the signal, the prices, the draws of
  the generator and the risk limits, \<open>process_signal\<close> leaves every position equal to the sum of
  its tax lots, also when booking raises; and no order it returns is filled beyond its quantity.
\<close>

theorem signal_keeps_books:
  assumes "pf_ok (mg_portfolio mg)" "fresh_lot fresh (mg_portfolio mg)"
    and "signal_quantity sg price (mg_portfolio mg) \<le> 2 ^ 53"
    and "process_signal estimate (backtest_execute bits) emit oid fresh now sg price vol mg = (res, mg')"
  shows "pf_ok (mg_portfolio mg') \<and> (\<forall>ord. res = Inr ord \<longrightarrow> filled_so_far ord \<le> om_quantity ord \<or> om_quantity ord \<le> 0)"
  using bt.process_signal_books [OF assms(1-3) _ assms(4)] by blast

definition sample_signal :: Signal where
  "sample_signal = \<lparr>sg_id = ''s1'', sg_symbol = ''A'', sg_side = SIDE_BUY, sg_weight = 1,
     sg_quantity = Some 10, sg_strategy_id = ''st'', sg_max_cost_pct = None\<rparr>"

definition sample_manager :: "'x \<Rightarrow> 'x OrderManager" where
  "sample_manager x = \<lparr>mg_risk = default_risk_engine\<lparr>re_max_position_pct := 1\<rparr>,
     mg_portfolio = new_portfolio 1000 FIFO None, mg_bus = True, mg_backend = Some x,
     mg_pending = [], mg_completed = [], mg_trace = []\<rparr>"

lemma fresh_new: "fresh_lot i (new_portfolio c m cm)"
  by (simp add: fresh_lot_def new_portfolio_def get_tax_lots_def)

text \<open>
  C8.  The gates of \<open>process_signal\<close>, each of them and nothing else: a signal reaches the backend exactly when there is a
  backend and, at that moment, the quantity is positive, the cash (a purchase) or the position (a sale) covers it, its cost is within the
  signal's limit, no breaker is active, the drawdown is below its limit, a purchase of a new symbol finds a free place among the
  open positions, a purchase leaves the symbol within its share of the portfolio, the value is within the order limit and the trades of the
  day within theirs.  Then the order went through validated, costed, risk approved, submitted and one outcome, in this order, and
  counts as a trade of the day; otherwise backend, portfolio and finished orders are untouched.  (\<open>continue_order\<close> is the other
  way to the backend; it repeats none of these checks.)
\<close>

theorem submitted_orders_passed_checks:
  assumes "process_signal estimate execute emit oid fresh now sg price vol mg = (res, mg')"
    and "q = signal_quantity sg price (mg_portfolio mg)"
    and "costs = estimate (sg_symbol sg) q price (signal_side_value (sg_side sg)) vol"
  shows "if mg_backend mg \<noteq> None \<and> passed_checks sg q price costs mg
     then (case res of
             Inl err \<Rightarrow> True
           | Inr ord \<Rightarrow> path ord \<in> (\<lambda>out. [OM_VALIDATED, OM_COSTED, OM_RISK_APPROVED, OM_SUBMITTED, out])
               ` {OM_FILLED, OM_PARTIALLY_FILLED, OM_FAILED})
       \<and> re_daily_trades (mg_risk mg') = re_daily_trades (mg_risk mg) + 1
     else (\<exists>ord. res = Inr ord \<and> OM_SUBMITTED \<notin> set (path ord))
       \<and> mg_backend mg' = mg_backend mg \<and> mg_portfolio mg' = mg_portfolio mg \<and> mg_completed mg' = mg_completed mg"
proof (cases rule: process_signal_cases [where execute = execute and emit = emit and oid = oid and fresh = fresh and now = now
      and estimate = estimate and sg = sg and price = price and vol = vol and mg = mg and q = q and costs = costs, OF assms(2,3)])
  case (1 ord re)
  then show ?thesis using assms(1) by auto
next
  case (2 ord x fill x' re)
  then show ?thesis using assms(1) by auto
next
  case (3 ord x fill x' re p e)
  show ?thesis
  proof (cases e)
    case None
    then have "res = Inr (record_fill now fill ord)" "re_daily_trades (mg_risk mg') = re_daily_trades (mg_risk mg) + 1"
      using 3(12,13) assms(1) by auto
    then show ?thesis using 3(1,2,8) by auto
  next
    case (Some err)
    then have "res = Inl (PortfolioError err)" "re_daily_trades (mg_risk mg') = re_daily_trades (mg_risk mg) + 1"
      using 3(12,13) assms(1) by auto
    then show ?thesis using 3(1,2) by auto
  qed
qed

definition fill_all :: "rat \<Rightarrow> OmOrder \<Rightarrow> rat \<Rightarrow> CostBreakdown \<Rightarrow> unit \<Rightarrow> FillResult \<times> unit" where
  "fill_all slip ord price costs x =
     (\<lparr>fr_success = True, fr_price = price + slip, fr_quantity = om_quantity ord, fr_reason = []\<rparr>, x)"

definition flat_costs :: "rat \<Rightarrow> string \<Rightarrow> int \<Rightarrow> rat \<Rightarrow> string \<Rightarrow> int \<Rightarrow> CostBreakdown" where
  "flat_costs c symbol q price sd vol = \<lparr>commission = usd c, spread = usd 0, slippage = usd 0,
     exchange_fee = usd 0, tax_estimate = usd 0, currency_conversion = usd 0\<rparr>"

lemmas om_eval = process_signal_def sample_signal_def sample_manager_def new_om_order_def validate_order_def
  cost_objection_def check_order_def calculate_drawdown_def total_value_def new_portfolio_def
  default_risk_engine_def dict_values_def fsum_def position_weight_def float_op_defs fint_def
  fill_all_def flat_costs_def book_fill_def open_position_def add_to_position_def cb_total_def
  get_tax_lots_def trade_date_def om_transition_def Let_def

lemma f64_tenth_pos: "0 < f64 (1 / 10)"
proof -
  have "f64 (1 / 16) \<le> f64 (1 / 10)" by (rule f64.mono) simp
  moreover have "f64 (1 / 16) = 1 / 16" using f64_dyadic [of 1 4] by simp
  ultimately show ?thesis by simp
qed

theorem submitted_orders_passed_checks_witness:
  "\<exists>ord mg'. process_signal (flat_costs 1) (fill_all 0) (\<lambda>_. None) ''o'' ''l'' 1 sample_signal 50 0
       (sample_manager ()) = (Inr ord, mg')
     \<and> passed_checks sample_signal 10 50 (flat_costs 1 ''A'' 10 50 ''buy'' 0) (sample_manager ())
     \<and> re_daily_trades (mg_risk mg') = 1"
proof -
  obtain ord mg' where run: "process_signal (flat_costs 1) (fill_all 0) (\<lambda>_. None) ''o'' ''l'' 1 sample_signal 50 0
       (sample_manager ()) = (Inr ord, mg')" "OM_SUBMITTED \<in> set (path ord)"
    using f64_tenth_pos f64_dyadic [of 1 1]
    by (simp add: om_eval path_def record_fill_def filled_so_far_def or_zero_def)
  have same: "10 = signal_quantity sample_signal 50 (mg_portfolio (sample_manager ()))"
    "flat_costs 1 ''A'' 10 50 ''buy'' 0 = flat_costs 1 (sg_symbol sample_signal) 10 50 (signal_side_value (sg_side sample_signal)) 0"
    "re_daily_trades (mg_risk (sample_manager ())) = 0"
    by (simp_all add: signal_quantity_def sample_signal_def sample_manager_def default_risk_engine_def)
  show ?thesis
    using submitted_orders_passed_checks [OF run(1) same(1,2)] run same(3) by (auto split: if_splits)
qed

text \<open>
  A purchase can be filled and then lost: when the checks pass and the backend fills, but cash does not
  cover the fill price with the costs, \<open>process_signal\<close> raises after the execution; the portfolio is
  unchanged and the filled order is neither returned, published nor in \<open>completed_orders\<close>.
\<close>

theorem unbookable_fill_is_lost:
  assumes "process_signal estimate execute emit oid fresh now sg price vol mg = (Inl e, mg')"
    and "sg_side sg = SIDE_BUY" "pf_ok (mg_portfolio mg)" "fresh_lot fresh (mg_portfolio mg)"
    and "\<forall>ord p costs x. 0 < om_quantity ord \<longrightarrow> 0 < fr_quantity (fst (execute ord p costs x))"
  shows "(\<exists>need. e = PortfolioError (InsufficientCash need (pf_cash (mg_portfolio mg))))
    \<and> mg_portfolio mg' = mg_portfolio mg \<and> mg_completed mg' = mg_completed mg
    \<and> mg_trace mg' = mg_trace mg
    \<and> (\<exists>ord p costs x. mg_backend mg = Some x \<and> fr_success (fst (execute ord p costs x))
         \<and> mg_backend mg' = Some (snd (execute ord p costs x)))"
proof (cases rule: process_signal_cases [OF refl refl, where sg = sg and price = price and mg = mg
      and estimate = estimate and vol = vol and execute = execute and emit = emit and oid = oid
      and fresh = fresh and now = now])
  case (3 ord x fill x' re p err)
  have q: "0 < fr_quantity fill" 
  proof -
    have "0 < om_quantity ord" using 3(2,5) by (simp add: passed_checks_def)
    then show ?thesis using assms(5) 3(3) by (metis fst_conv)
  qed
  obtain er where er: "err = Some er" "e = PortfolioError er"
    "mg' = mg\<lparr>mg_risk := re, mg_backend := Some x', mg_portfolio := p\<rparr>"
    using 3(12) assms(1) by (cases err) simp_all
  have "p = mg_portfolio mg \<and> (\<exists>need. er = InsufficientCash need (pf_cash (mg_portfolio mg)))"
    by (cases rule: open_position_cases [OF assms(3) q assms(4), of "fr_price fill"
          "amount (cb_total (estimate (sg_symbol sg) (signal_quantity sg price (mg_portfolio mg)) price
             (signal_side_value (sg_side sg)) vol))" now "om_symbol ord"])
      (use 3(6,11) assms(2) er(1) in \<open>auto simp: book_fill_def\<close>)
  then show ?thesis using er 3(1,3,4) by (auto intro!: exI [of _ ord]) (metis fst_conv snd_conv)
qed (use assms(1) in simp_all)

section \<open>Continuation\<close>

lemma find_put_completed:
  "find_completed (om_id ord) xs \<noteq> None \<Longrightarrow> find_completed (om_id ord) (put_completed ord xs) = Some ord"
  by (induction ord xs rule: put_completed.induct) (auto simp: find_completed_def)

lemma find_completed_id: "find_completed oid xs = Some ord \<Longrightarrow> om_id ord = oid"
  by (auto simp: find_completed_def find_Some_iff)

lemma find_put_order:
  "find_order (om_id ord) mg \<noteq> None \<Longrightarrow> find_order (om_id ord) (put_order ord mg) = Some ord"
  by (auto simp: find_order_def put_order_def find_put_completed split: option.splits)

lemma find_order_cong:
  "mg_pending a = mg_pending b \<Longrightarrow> mg_completed a = mg_completed b \<Longrightarrow> find_order i a = find_order i b"
  by (simp add: find_order_def split: option.split)

text \<open>
  C24.  A continuation overfills: the backend is given the whole order, not the residual, so with the back-test
  backend (partial fills off, or at most 1000 shares) an order with \<open>f\<close> of \<open>q\<close> shares filled ends
  with \<open>f + q\<close> shares filled and status \<open>FILLED\<close>, whether or not the portfolio could book it.
\<close>

theorem continuation_overfills:
  assumes "find_order oid mg = Some ord" "om_id ord = oid" "om_status ord = OM_PARTIALLY_FILLED"
    and "om_fill_quantity ord = Some f" "0 < f" "f < om_quantity ord"
    and "mg_backend mg = Some b" "bt_partial_fill b = False \<or> om_quantity ord \<le> 1000"
    and "1 \<le> bt_fill_probability b"
    and "continue_order estimate (backtest_execute bits) emit fresh now oid price n mg = (res, mg')"
  shows "\<exists>ord'. find_order oid mg' = Some ord' \<and> om_status ord' = OM_FILLED
    \<and> om_fill_quantity ord' = Some (f + om_quantity ord) \<and> om_quantity ord' = om_quantity ord"
proof -
  define price' where "price' = (case price of Some p \<Rightarrow> p | None \<Rightarrow> or_zero (om_fill_price ord))"
  define costs where "costs = estimate (om_symbol ord) (om_quantity ord - f) price' (signal_side_value (om_side ord)) 0"
  obtain r g where rg: "rng_random bits (bt_rng b) = (r, g)" by (cases "rng_random bits (bt_rng b)")
  then have "\<not> bt_fill_probability b < r" using rng_random_range [OF rg] assms(9) by linarith
  then obtain fill b' where ex: "backtest_execute bits ord price' costs b = (fill, b')"
      "fr_success fill" "fr_quantity fill = om_quantity ord"
    using assms(8) by (auto simp: backtest_execute_def rg Let_def)
  let ?ord = "record_fill now fill ord"
  obtain k where k: "nat (max 1 n) = Suc k" by (cases "nat (max 1 n)") auto
  have f: "filled_so_far ord = f" using assms(4) by (simp add: filled_so_far_def)
  have ord': "om_id ?ord = oid" "om_status ?ord = OM_FILLED" "om_fill_quantity ?ord = Some (f + om_quantity ord)"
    using assms(2,5) ex(3) f by simp_all
  obtain e p where book: "book_fill (fresh k) now ?ord fill costs (mg_portfolio mg) = (e, p)"
    by (cases "book_fill (fresh k) now ?ord fill costs (mg_portfolio mg)")
  let ?mg = "put_order ?ord (mg\<lparr>mg_backend := Some b', mg_portfolio := p\<rparr>)"
  have found: "find_order oid ?mg = Some ?ord"
    using find_put_order [of ?ord "mg\<lparr>mg_backend := Some b', mg_portfolio := p\<rparr>"] assms(1,2)
      find_order_cong [of "mg\<lparr>mg_backend := Some b', mg_portfolio := p\<rparr>" mg oid] by simp
  have "continue_order estimate (backtest_execute bits) emit fresh now oid price n mg =
      continue_loop (Suc k) estimate (backtest_execute bits) emit fresh now price' ord b mg"
    using assms(1,3,7) k by (simp add: continue_order_def price'_def Let_def del: continue_loop.simps)
  also have "\<dots> = (case e of Some er \<Rightarrow> (Inl (PortfolioError er), ?mg)
      | None \<Rightarrow> continue_loop k estimate (backtest_execute bits) emit fresh now price' ?ord b'
          (publish_fill_event emit ?ord ?mg))"
    using assms(3,6) f ex(1,2) book by (simp add: Let_def flip: costs_def split: option.splits)
  also have "\<dots> = (case e of Some er \<Rightarrow> (Inl (PortfolioError er), ?mg)
      | None \<Rightarrow> (Inr ?ord, publish_fill_event emit ?ord ?mg))"
    using ord'(2) by (cases k) (simp_all split: option.splits)
  finally have "mg' = ?mg \<or> mg' = publish_fill_event emit ?ord ?mg"
    using assms(10) by (cases e) simp_all
  moreover have "find_order oid (publish_fill_event emit ?ord ?mg) = find_order oid ?mg"
    by (rule find_order_cong) simp_all
  ultimately have "find_order oid mg' = Some ?ord" using found by auto
  then show ?thesis using ord' by auto
qed

definition partial_order :: OmOrder where
  "partial_order = (sample_om SIDE_BUY 100)\<lparr>om_status := OM_PARTIALLY_FILLED,
     om_fill_quantity := Some 90, om_fill_price := Some 1\<rparr>"

theorem continuation_overfills_witness:
  "\<exists>ord'. find_order ''o1'' (snd (continue_order (estimate_total default_cost_model) (backtest_execute (\<lambda>n. (n, n + 1)))
       (\<lambda>_. None) (\<lambda>n. ''l'') 1 ''o1'' None 10
       ((sample_manager \<lparr>bt_fill_probability = 1, bt_partial_fill = True, bt_rng = 5 :: nat\<rparr>)
          \<lparr>mg_completed := [partial_order]\<rparr>))) = Some ord'
     \<and> om_fill_quantity ord' = Some 190 \<and> om_quantity ord' = 100"
proof -
  let ?b = "\<lparr>bt_fill_probability = 1, bt_partial_fill = True, bt_rng = 5 :: nat\<rparr>"
  let ?mg = "(sample_manager ?b)\<lparr>mg_completed := [partial_order]\<rparr>"
  have ord: "om_id partial_order = ''o1''" "om_status partial_order = OM_PARTIALLY_FILLED"
    "om_fill_quantity partial_order = Some 90" "om_quantity partial_order = 100"
    by (simp_all add: partial_order_def sample_om_def)
  have mg: "find_order ''o1'' ?mg = Some partial_order" "mg_backend ?mg = Some ?b"
    by (simp_all add: find_order_def find_completed_def sample_manager_def ord)
  show ?thesis
    using continuation_overfills [OF mg(1) ord(1,2,3) _ _ mg(2), of "estimate_total default_cost_model"
        "\<lambda>n. (n, n + 1)" "\<lambda>_. None" "\<lambda>n. ''l''" 1 None 10] ord(4)
    by (fastforce simp: prod_eq_iff)
qed

text \<open>The backend with a counter of its calls.\<close>

definition counting :: "'x executor \<Rightarrow> ('x \<times> nat) executor" where
  "counting execute ord price costs xn = (case xn of (x, n) \<Rightarrow>
     (case execute ord price costs x of (fill, x') \<Rightarrow> (fill, (x', n + 1))))"

lemma continue_loop_calls:
  "continue_loop k estimate (counting execute) emit fresh now price ord (x, c) mg = (res, mg') \<Longrightarrow>
   mg_backend mg = Some (x, c) \<Longrightarrow> \<exists>x' c'. mg_backend mg' = Some (x', c') \<and> c' \<le> c + k"
proof (induction k arbitrary: ord x c mg)
  case (Suc k)
  show ?case
  proof (cases "om_status ord \<noteq> OM_PARTIALLY_FILLED \<or> om_quantity ord - filled_so_far ord \<le> 0")
    case True
    then show ?thesis using Suc.prems by auto
  next
    case False
    let ?costs = "estimate (om_symbol ord) (om_quantity ord - filled_so_far ord) price (signal_side_value (om_side ord)) 0"
    obtain fill x' where ex: "execute ord price ?costs x = (fill, x')" by (cases "execute ord price ?costs x")
    then have counted: "counting execute ord price ?costs (x, c) = (fill, (x', c + 1))"
      by (simp add: counting_def)
    let ?ord = "record_fill now fill ord"
    obtain e p where book: "book_fill (fresh k) now ?ord fill ?costs (mg_portfolio mg) = (e, p)"
      by (cases "book_fill (fresh k) now ?ord fill ?costs (mg_portfolio mg)")
    let ?mg = "publish_fill_event emit ?ord (put_order ?ord (mg\<lparr>mg_backend := Some (x', c + 1), mg_portfolio := p\<rparr>))"
    consider "mg_backend mg' = Some (x', c + 1)"
      | "continue_loop k estimate (counting execute) emit fresh now price ?ord (x', c + 1) ?mg = (res, mg')"
      using Suc.prems(1) False counted book
      by (cases "fr_success fill"; cases e) (auto simp: Let_def)
    then show ?thesis
    proof cases
      case 2
      have "mg_backend ?mg = Some (x', c + 1)" by simp
      from Suc.IH [OF 2 this] show ?thesis by force
    qed simp
  qed
qed simp

text \<open>
  C25.  A continuation is bounded: whatever the backend answers, \<open>continue_order\<close> returns (an order or an
  exception) after at most \<open>max(1, max_retries)\<close> calls of the backend.
\<close>

theorem continuation_is_bounded:
  assumes "continue_order estimate (counting execute) emit fresh now oid price n mg = (res, mg')"
    and "mg_backend mg = Some (x, c)"
  shows "\<exists>x' c'. mg_backend mg' = Some (x', c') \<and> int c' \<le> int c + max 1 n"
proof (cases "mg' = mg")
  case True
  then show ?thesis using assms(2) by simp
next
  case False
  then obtain ord p where "continue_loop (nat (max 1 n)) estimate (counting execute) emit fresh now p ord (x, c) mg = (res, mg')"
    using assms by (auto simp: continue_order_def split: option.splits if_splits)
  from continue_loop_calls [OF this assms(2)] show ?thesis by fastforce
qed

theorem continuation_is_bounded_witness:
  "\<exists>x' c'. mg_backend (snd (continue_order (flat_costs 1) (counting (\<lambda>ord p c x. (failed_fill ''no'', x)))
       (\<lambda>_. None) (\<lambda>n. ''l'') 1 ''o1'' None 3
       ((sample_manager ((), 0))\<lparr>mg_completed := [partial_order]\<rparr>))) = Some (x', c') \<and> int c' \<le> 3"
proof -
  have "mg_backend ((sample_manager ((), 0::nat))\<lparr>mg_completed := [partial_order]\<rparr>) = Some ((), 0)"
    by (simp add: sample_manager_def)
  from continuation_is_bounded [OF _ this, of "flat_costs 1" "\<lambda>ord p c x. (failed_fill ''no'', x)" "\<lambda>_. None"
      "\<lambda>n. ''l''" 1 "''o1''" None 3]
  show ?thesis by (fastforce simp: prod_eq_iff)
qed

end
