(* ===== verification/Versioning.thy ===== *)
theory Versioning
  imports Prelude
begin

text \<open>
  Strategy versions, \<open>engine/core/strategy_versioning.py\<close>: the registry protocol with its
  in-memory implementation, and the service that deploys, activates, rolls back and retires.

  The protocol \<open>StrategyRegistry\<close> is the record \<open>registry\<close> of its four operations; what the
  service may rely on is the locale \<open>strategy_registry\<close>, which \<open>InMemoryStrategyRegistry\<close>
  provides.  The service operations are functions of the registry operations and its state.  The
  SHA-256 of the code, the canonical hash of the configuration (\<open>None\<close> when it is not
  JSON), the fresh uuid and the clock are arguments.

  The lock of a strategy makes what happens under it atomic.  \<open>activate\<close> and \<open>retire\<close> read the
  target once before they wait for the lock: their second part is an operation of its own, so
  that a run may put other operations in between.
\<close>

section \<open>Versions and the registry\<close>

datatype VersionStatus = DRAFT | ACTIVE | RETIRED

record StrategyVersion =
  v_id :: string
  v_strategy :: string
  v_number :: int
  v_code_hash :: string
  v_config_hash :: string
  v_status :: VersionStatus
  v_created :: rat
  v_activated :: "rat option"

datatype version_error =
  EmptyCode
| CodeTooLarge nat
| VersionInvalidConfig
| VersionNotFound string
| RetiredVersion string
| ActiveVersion string
| NoRollbackCandidate string

definition MAX_CODE_SIZE_BYTES :: nat where
  "MAX_CODE_SIZE_BYTES = 5 * 1024 * 1024"

record 'r registry =
  reg_get :: "string \<Rightarrow> 'r \<Rightarrow> StrategyVersion option"
  reg_save :: "StrategyVersion \<Rightarrow> 'r \<Rightarrow> 'r"
  reg_list :: "string \<Rightarrow> 'r \<Rightarrow> StrategyVersion list"
  reg_find :: "string \<Rightarrow> string \<Rightarrow> string \<Rightarrow> 'r \<Rightarrow> StrategyVersion option"

record InMemoryRegistry =
  im_by_id :: "(string, StrategyVersion) dict"
  im_by_strategy :: "(string, string list) dict"

definition im_init :: InMemoryRegistry where
  "im_init = \<lparr>im_by_id = [], im_by_strategy = []\<rparr>"

definition im_get :: "string \<Rightarrow> InMemoryRegistry \<Rightarrow> StrategyVersion option" where
  "im_get i m = map_of (im_by_id m) i"

definition im_ids :: "string \<Rightarrow> InMemoryRegistry \<Rightarrow> string list" where
  "im_ids s m = (case map_of (im_by_strategy m) s of None \<Rightarrow> [] | Some is \<Rightarrow> is)"

definition im_save :: "StrategyVersion \<Rightarrow> InMemoryRegistry \<Rightarrow> InMemoryRegistry" where
  "im_save v m =
     (let m' = (if map_of (im_by_id m) (v_id v) = None
                then m\<lparr>im_by_strategy := AList.update (v_strategy v)
                        (im_ids (v_strategy v) m @ [v_id v]) (im_by_strategy m)\<rparr>
                else m)
      in m'\<lparr>im_by_id := AList.update (v_id v) v (im_by_id m')\<rparr>)"

definition im_list :: "string \<Rightarrow> InMemoryRegistry \<Rightarrow> StrategyVersion list" where
  "im_list s m = List.map_filter (map_of (im_by_id m)) (im_ids s m)"

definition im_find :: "string \<Rightarrow> string \<Rightarrow> string \<Rightarrow> InMemoryRegistry \<Rightarrow> StrategyVersion option" where
  "im_find s code config m =
     find (\<lambda>v. v_code_hash v = code \<and> v_config_hash v = config) (im_list s m)"

definition in_memory :: "InMemoryRegistry registry" where
  "in_memory = \<lparr>reg_get = im_get, reg_save = im_save, reg_list = im_list, reg_find = im_find\<rparr>"

section \<open>The service\<close>

definition next_number :: "StrategyVersion list \<Rightarrow> int" where
  "next_number siblings = (if siblings = [] then 0 else Max (set (map v_number siblings))) + 1"

definition deploy ::
  "'r registry \<Rightarrow> (nat list \<Rightarrow> string) \<Rightarrow> ('c \<Rightarrow> string option) \<Rightarrow> string \<Rightarrow> rat
     \<Rightarrow> string \<Rightarrow> nat list \<Rightarrow> 'c \<Rightarrow> 'r \<Rightarrow> (version_error + StrategyVersion) \<times> 'r" where
  "deploy reg sha config_hash fresh now strategy code config r =
     (if code = [] then (Inl EmptyCode, r)
      else if MAX_CODE_SIZE_BYTES < length code then (Inl (CodeTooLarge (length code)), r)
      else case config_hash config of
        None \<Rightarrow> (Inl VersionInvalidConfig, r)
      | Some ch \<Rightarrow>
          (case reg_find reg strategy (sha code) ch r of
             Some existing \<Rightarrow> (Inr existing, r)
           | None \<Rightarrow>
               let v = \<lparr>v_id = fresh, v_strategy = strategy,
                        v_number = next_number (reg_list reg strategy r),
                        v_code_hash = sha code, v_config_hash = ch, v_status = DRAFT,
                        v_created = now, v_activated = None\<rparr>
               in (Inr v, reg_save reg v r)))"

definition retire_sibling :: "'r registry \<Rightarrow> string \<Rightarrow> 'r \<Rightarrow> StrategyVersion \<Rightarrow> 'r" where
  "retire_sibling reg current_id r sibling =
     (if v_id sibling \<noteq> current_id \<and> v_status sibling = ACTIVE
      then reg_save reg (sibling\<lparr>v_status := RETIRED\<rparr>) r else r)"

text \<open>\<open>activate\<close> under the lock of the strategy.\<close>

definition activate_locked ::
  "'r registry \<Rightarrow> rat \<Rightarrow> string \<Rightarrow> 'r \<Rightarrow> (version_error + StrategyVersion) \<times> 'r" where
  "activate_locked reg now vid r =
     (case reg_get reg vid r of
        None \<Rightarrow> (Inl (VersionNotFound vid), r)
      | Some current \<Rightarrow>
          if v_status current = RETIRED then (Inl (RetiredVersion vid), r)
          else
            let r1 = foldl (retire_sibling reg (v_id current)) r (reg_list reg (v_strategy current) r);
                updated = current\<lparr>v_status := ACTIVE, v_activated := Some now\<rparr>
            in (Inr updated, reg_save reg updated r1))"

definition activate ::
  "'r registry \<Rightarrow> rat \<Rightarrow> string \<Rightarrow> 'r \<Rightarrow> (version_error + StrategyVersion) \<times> 'r" where
  "activate reg now vid r = (case reg_get reg vid r of
     None \<Rightarrow> (Inl (VersionNotFound vid), r) | Some target \<Rightarrow> activate_locked reg now vid r)"

definition activated_at :: "StrategyVersion \<Rightarrow> rat" where
  "activated_at v = (case v_activated v of None \<Rightarrow> 0 | Some t \<Rightarrow> t)"

text \<open>\<open>max(xs, key=f)\<close>: the first of the elements with the greatest key.\<close>

fun max_by :: "('a \<Rightarrow> rat) \<Rightarrow> 'a \<Rightarrow> 'a list \<Rightarrow> 'a" where
  "max_by f best [] = best"
| "max_by f best (x # xs) = max_by f (if f best < f x then x else best) xs"

definition rollback_candidates :: "StrategyVersion list \<Rightarrow> StrategyVersion list" where
  "rollback_candidates siblings =
     (let current = find (\<lambda>v. v_status v = ACTIVE) siblings in
      filter (\<lambda>v. v_status v = RETIRED \<and> v_activated v \<noteq> None
        \<and> (case current of None \<Rightarrow> True | Some c \<Rightarrow> v_id v \<noteq> v_id c)) siblings)"

definition rollback ::
  "'r registry \<Rightarrow> rat \<Rightarrow> string \<Rightarrow> 'r \<Rightarrow> (version_error + StrategyVersion) \<times> 'r" where
  "rollback reg now strategy r =
     (let siblings = reg_list reg strategy r in
      case rollback_candidates siblings of
        [] \<Rightarrow> (Inl (NoRollbackCandidate strategy), r)
      | v # vs \<Rightarrow>
          let previous = max_by activated_at v vs;
              r1 = (case find (\<lambda>v. v_status v = ACTIVE) siblings of
                      None \<Rightarrow> r
                    | Some current \<Rightarrow> reg_save reg (current\<lparr>v_status := RETIRED\<rparr>) r);
              promoted = previous\<lparr>v_status := ACTIVE, v_activated := Some now\<rparr>
          in (Inr promoted, reg_save reg promoted r1))"

definition retire_locked ::
  "'r registry \<Rightarrow> bool \<Rightarrow> string \<Rightarrow> 'r \<Rightarrow> (version_error + StrategyVersion) \<times> 'r" where
  "retire_locked reg allow_retire_active vid r =
     (case reg_get reg vid r of
        None \<Rightarrow> (Inl (VersionNotFound vid), r)
      | Some current \<Rightarrow>
          if v_status current = ACTIVE \<and> \<not> allow_retire_active then (Inl (ActiveVersion vid), r)
          else let updated = current\<lparr>v_status := RETIRED\<rparr> in (Inr updated, reg_save reg updated r))"

definition retire ::
  "'r registry \<Rightarrow> bool \<Rightarrow> string \<Rightarrow> 'r \<Rightarrow> (version_error + StrategyVersion) \<times> 'r" where
  "retire reg allow_retire_active vid r = (case reg_get reg vid r of
     None \<Rightarrow> (Inl (VersionNotFound vid), r) | Some target \<Rightarrow> retire_locked reg allow_retire_active vid r)"

definition list_for_strategy ::
  "'r registry \<Rightarrow> string \<Rightarrow> VersionStatus option \<Rightarrow> 'r \<Rightarrow> StrategyVersion list" where
  "list_for_strategy reg strategy status r =
     (let out = sort_key v_number (reg_list reg strategy r) in
      case status of None \<Rightarrow> out | Some st \<Rightarrow> filter (\<lambda>v. v_status v = st) out)"

definition get_active :: "'r registry \<Rightarrow> string \<Rightarrow> 'r \<Rightarrow> StrategyVersion option" where
  "get_active reg strategy r = find (\<lambda>v. v_status v = ACTIVE) (reg_list reg strategy r)"

section \<open>Runs\<close>

datatype version_op =
  DeployHash string string string string rat  \<comment> \<open>fresh id, strategy, code hash, config hash, time\<close>
| Activate string rat
| ActivateLocked string rat
| Rollback string rat
| Retire string bool
| RetireLocked string bool

text \<open>A successful \<open>deploy\<close> sees the code and the configuration only through their hashes.\<close>

definition deploy_hash ::
  "'r registry \<Rightarrow> string \<Rightarrow> string \<Rightarrow> string \<Rightarrow> string \<Rightarrow> rat \<Rightarrow> 'r
     \<Rightarrow> (version_error + StrategyVersion) \<times> 'r" where
  "deploy_hash reg fresh strategy ch cfg now r =
     deploy reg (\<lambda>c. ch) (\<lambda>c. Some cfg) fresh now strategy [0] () r"

fun version_step :: "'r registry \<Rightarrow> 'r \<Rightarrow> version_op \<Rightarrow> 'r" where
  "version_step reg r (DeployHash i s ch cfg t) = snd (deploy_hash reg i s ch cfg t r)"
| "version_step reg r (Activate i t) = snd (activate reg t i r)"
| "version_step reg r (ActivateLocked i t) = snd (activate_locked reg t i r)"
| "version_step reg r (Rollback s t) = snd (rollback reg t s r)"
| "version_step reg r (Retire i b) = snd (retire reg b i r)"
| "version_step reg r (RetireLocked i b) = snd (retire_locked reg b i r)"

definition version_run :: "'r registry \<Rightarrow> 'r \<Rightarrow> version_op list \<Rightarrow> 'r" where
  "version_run reg r ops = foldl (version_step reg) r ops"

fun new_ids :: "version_op \<Rightarrow> string list" where
  "new_ids (DeployHash i s ch cfg t) = [i]"
| "new_ids x = []"

section \<open>The contract of a registry\<close>

definition same_content :: "StrategyVersion \<Rightarrow> StrategyVersion \<Rightarrow> bool" where
  "same_content v w \<longleftrightarrow> v_id v = v_id w \<and> v_strategy v = v_strategy w \<and> v_number v = v_number w
     \<and> v_code_hash v = v_code_hash w \<and> v_config_hash v = v_config_hash w"

locale strategy_registry =
  fixes reg :: "'r registry" and ok :: "'r \<Rightarrow> bool"
  assumes get_save: "ok r \<Longrightarrow> (\<And>w. reg_get reg (v_id v) r = Some w \<Longrightarrow> v_strategy w = v_strategy v) \<Longrightarrow>
      reg_get reg i (reg_save reg v r) = (if i = v_id v then Some v else reg_get reg i r)"
    and ok_save: "ok r \<Longrightarrow> (\<And>w. reg_get reg (v_id v) r = Some w \<Longrightarrow> v_strategy w = v_strategy v) \<Longrightarrow>
      ok (reg_save reg v r)"
    and get_id: "ok r \<Longrightarrow> reg_get reg i r = Some v \<Longrightarrow> v_id v = i"
    and list_get: "ok r \<Longrightarrow> v \<in> set (reg_list reg s r) \<longleftrightarrow> reg_get reg (v_id v) r = Some v \<and> v_strategy v = s"
    and list_distinct: "ok r \<Longrightarrow> distinct (map v_id (reg_list reg s r))"
    and find_None: "ok r \<Longrightarrow> reg_find reg s ch cfg r = None \<Longrightarrow>
      v \<in> set (reg_list reg s r) \<Longrightarrow> \<not> (v_code_hash v = ch \<and> v_config_hash v = cfg)"
    and find_Some: "ok r \<Longrightarrow> reg_find reg s ch cfg r = Some v \<Longrightarrow>
      v \<in> set (reg_list reg s r) \<and> v_code_hash v = ch \<and> v_config_hash v = cfg"
begin

text \<open>The invariant of the service: no two active versions, no number and no content twice.\<close>

definition inv :: "'r \<Rightarrow> bool" where
  "inv r \<longleftrightarrow> ok r \<and> (\<forall>i j v w. reg_get reg i r = Some v \<longrightarrow> reg_get reg j r = Some w \<longrightarrow>
     v_strategy v = v_strategy w \<longrightarrow>
       (v_status v = ACTIVE \<longrightarrow> v_status w = ACTIVE \<longrightarrow> i = j)
       \<and> (v_number v = v_number w \<longrightarrow> i = j)
       \<and> (v_code_hash v = v_code_hash w \<longrightarrow> v_config_hash v = v_config_hash w \<longrightarrow> i = j))"

lemma inv_ok: "inv r \<Longrightarrow> ok r"
  by (simp add: inv_def)

lemma invD:
  "inv r \<Longrightarrow> reg_get reg i r = Some v \<Longrightarrow> reg_get reg j r = Some w \<Longrightarrow> v_strategy v = v_strategy w \<Longrightarrow>
       (v_status v = ACTIVE \<longrightarrow> v_status w = ACTIVE \<longrightarrow> i = j)
       \<and> (v_number v = v_number w \<longrightarrow> i = j)
       \<and> (v_code_hash v = v_code_hash w \<longrightarrow> v_config_hash v = v_config_hash w \<longrightarrow> i = j)"
  unfolding inv_def by blast

text \<open>Writing back a version with its content unchanged.\<close>

lemma save_same:
  assumes "ok r" "reg_get reg (v_id v) r = Some w" "same_content v w"
  shows "ok (reg_save reg v r) \<and> (\<forall>i. reg_get reg i (reg_save reg v r) = (if i = v_id v then Some v else reg_get reg i r))"
proof -
  have "\<And>x. reg_get reg (v_id v) r = Some x \<Longrightarrow> v_strategy x = v_strategy v"
    using assms(2,3) by (simp add: same_content_def)
  then show ?thesis using ok_save [OF assms(1)] get_save [OF assms(1)] by blast
qed

lemma save_same_inv:
  assumes "inv r" "reg_get reg (v_id v) r = Some w" "same_content v w"
    and "v_status v = ACTIVE \<Longrightarrow> \<forall>j x. reg_get reg j r = Some x \<longrightarrow> v_strategy x = v_strategy v
      \<longrightarrow> v_status x = ACTIVE \<longrightarrow> j = v_id v"
  shows "inv (reg_save reg v r)"
proof -
  note save = save_same [OF inv_ok [OF assms(1)] assms(2,3)]
  show ?thesis unfolding inv_def
  proof (intro conjI allI impI)
    show "ok (reg_save reg v r)" using save by blast
    fix i j x y
    assume x: "reg_get reg i (reg_save reg v r) = Some x" and y: "reg_get reg j (reg_save reg v r) = Some y"
      and s: "v_strategy x = v_strategy y"
    have old: "\<exists>z'. reg_get reg k r = Some z' \<and> same_content z z' \<and> (if k = v_id v then z = v else z' = z)"
      if "reg_get reg k (reg_save reg v r) = Some z" for k z
    proof (cases "k = v_id v")
      case True
      then have "z = v" using that save by simp
      then show ?thesis using True assms(2,3) by simp
    next
      case False
      then have "reg_get reg k r = Some z" using that save by simp
      then show ?thesis using False by (simp add: same_content_def)
    qed
    obtain x' where x': "reg_get reg i r = Some x'" "same_content x x'" "if i = v_id v then x = v else x' = x"
      using old [OF x] by blast
    obtain y' where y': "reg_get reg j r = Some y'" "same_content y y'" "if j = v_id v then y = v else y' = y"
      using old [OF y] by blast
    note xy = x'(1,2) y'(1,2)
    note D = invD [OF assms(1) xy(1,3)]
    show "v_number x = v_number y \<Longrightarrow> i = j"
      using D s xy(2,4) by (simp add: same_content_def)
    show "v_code_hash x = v_code_hash y \<Longrightarrow> v_config_hash x = v_config_hash y \<Longrightarrow> i = j"
      using D s xy(2,4) by (simp add: same_content_def)
    assume "v_status x = ACTIVE" "v_status y = ACTIVE"
    note act = this
    have s': "v_strategy x' = v_strategy y'" using s xy(2,4) by (simp add: same_content_def)
    show "i = j"
    proof (cases "i = v_id v"; cases "j = v_id v")
      assume "i = v_id v" "j \<noteq> v_id v"
      then have "x = v" "y' = y" using x'(3) y'(3) by simp_all
      then show ?thesis using assms(4) act xy(3) s \<open>i = v_id v\<close> by auto
    next
      assume "i \<noteq> v_id v" "j = v_id v"
      then have "x' = x" "y = v" using x'(3) y'(3) by simp_all
      then show ?thesis using assms(4) act xy(1) s \<open>j = v_id v\<close> by auto
    next
      assume "i \<noteq> v_id v" "j \<noteq> v_id v"
      then have "x' = x" "y' = y" using x'(3) y'(3) by simp_all
      then show ?thesis using D s' act by simp
    qed simp
  qed
qed

text \<open>What the loop of \<open>activate\<close> leaves in the registry.\<close>

definition demoted :: "string \<Rightarrow> StrategyVersion list \<Rightarrow> StrategyVersion \<Rightarrow> StrategyVersion" where
  "demoted cid siblings v =
     (if v_id v \<noteq> cid \<and> v_status v = ACTIVE \<and> v \<in> set siblings then v\<lparr>v_status := RETIRED\<rparr> else v)"

lemma retire_siblings:
  assumes "ok r" "distinct (map v_id L)" "\<forall>v\<in>set L. reg_get reg (v_id v) r = Some v"
  shows "ok (foldl (retire_sibling reg cid) r L)
    \<and> (\<forall>i. reg_get reg i (foldl (retire_sibling reg cid) r L) = map_option (demoted cid L) (reg_get reg i r))"
  using assms
proof (induction L arbitrary: r)
  case Nil
  then show ?case by (simp add: demoted_def [abs_def] option.map_ident)
next
  case (Cons s L)
  let ?r = "retire_sibling reg cid r s"
  have s: "reg_get reg (v_id s) r = Some s" using Cons.prems(3) by simp
  have step: "ok ?r \<and> (\<forall>i. reg_get reg i ?r = map_option (demoted cid [s]) (reg_get reg i r))"
  proof (cases "v_id s \<noteq> cid \<and> v_status s = ACTIVE")
    case True
    have "same_content (s\<lparr>v_status := RETIRED\<rparr>) s" by (simp add: same_content_def)
    note save = save_same [of r "s\<lparr>v_status := RETIRED\<rparr>" s, simplified, OF Cons.prems(1) s this]
    have get: "reg_get reg i ?r = (if i = v_id s then Some (s\<lparr>v_status := RETIRED\<rparr>) else reg_get reg i r)" for i
      using spec [OF conjunct2 [OF save], of i] True by (simp add: retire_sibling_def)
    have "reg_get reg i ?r = map_option (demoted cid [s]) (reg_get reg i r)" for i
    proof (cases "i = v_id s")
      case True
      then show ?thesis using s \<open>v_id s \<noteq> cid \<and> v_status s = ACTIVE\<close> by (simp add: get demoted_def)
    next
      case False
      then show ?thesis using get_id [OF Cons.prems(1), of i]
        by (cases "reg_get reg i r") (auto simp: get demoted_def)
    qed
    then show ?thesis using save True by (simp add: retire_sibling_def)
  next
    case False
    then have "demoted cid [s] = (\<lambda>v. v)" "?r = r" by (auto simp: demoted_def retire_sibling_def)
    then show ?thesis using Cons.prems(1) by (simp add: option.map_ident)
  qed
  have rest: "\<forall>v\<in>set L. reg_get reg (v_id v) ?r = Some v"
    using step Cons.prems(2,3) by (auto simp: demoted_def)
  have dist: "distinct (map v_id L)" using Cons.prems(2) by simp
  have comp: "demoted cid L (demoted cid [s] v) = demoted cid (s # L) v" if "reg_get reg (v_id v) r = Some v" for v
    using Cons.prems(2,3) that by (auto simp: demoted_def)
  have "map_option (demoted cid L) (map_option (demoted cid [s]) (reg_get reg i r)) = map_option (demoted cid (s # L)) (reg_get reg i r)" for i
    using comp get_id [OF Cons.prems(1), of i] by (cases "reg_get reg i r") auto
  then show ?case using Cons.IH [OF conjunct1 [OF step] dist rest] step by simp
qed

lemma retire_siblings_inv:
  assumes "inv r"
  shows "inv (foldl (retire_sibling reg cid) r (reg_list reg st r))
    \<and> (\<forall>i. reg_get reg i (foldl (retire_sibling reg cid) r (reg_list reg st r)) =
         map_option (demoted cid (reg_list reg st r)) (reg_get reg i r))"
proof -
  let ?L = "reg_list reg st r"
  note ok = inv_ok [OF assms]
  have fold: "ok (foldl (retire_sibling reg cid) r ?L)
    \<and> (\<forall>i. reg_get reg i (foldl (retire_sibling reg cid) r ?L) = map_option (demoted cid ?L) (reg_get reg i r))"
    by (rule retire_siblings [OF ok list_distinct [OF ok]]) (simp add: list_get [OF ok])
  have same: "same_content (demoted cid ?L v) v \<and> (v_status (demoted cid ?L v) = ACTIVE \<longrightarrow> v_status v = ACTIVE)" for v
    by (simp add: demoted_def same_content_def)
  have "inv (foldl (retire_sibling reg cid) r ?L)"
    unfolding inv_def
  proof (intro conjI allI impI)
    fix i j v w
    assume v: "reg_get reg i (foldl (retire_sibling reg cid) r ?L) = Some v"
      and w: "reg_get reg j (foldl (retire_sibling reg cid) r ?L) = Some w" and s: "v_strategy v = v_strategy w"
    obtain v' w' where v': "reg_get reg i r = Some v'" "v = demoted cid ?L v'" and w': "reg_get reg j r = Some w'" "w = demoted cid ?L w'"
      using v w fold by auto
    note D = invD [OF assms v'(1) w'(1)]
    have S: "same_content v v'" "same_content w w'" "v_status v = ACTIVE \<Longrightarrow> v_status v' = ACTIVE"
      "v_status w = ACTIVE \<Longrightarrow> v_status w' = ACTIVE"
      using same [of v'] same [of w'] by (simp_all only: v'(2) w'(2))
    show "v_number v = v_number w \<Longrightarrow> i = j" using D S(1,2) s by (simp add: same_content_def)
    show "v_code_hash v = v_code_hash w \<Longrightarrow> v_config_hash v = v_config_hash w \<Longrightarrow> i = j"
      using D S(1,2) s by (simp add: same_content_def)
    assume "v_status v = ACTIVE" "v_status w = ACTIVE"
    then show "i = j" using D S s by (simp add: same_content_def)
  qed (use fold in blast)
  then show ?thesis using fold by blast
qed

lemma deploy_inv:
  assumes "inv r" "reg_get reg fresh r = None" "deploy reg sha ch fresh now s code cfg r = (res, r')"
  shows "inv r' \<and> (\<forall>i. i \<noteq> fresh \<longrightarrow> reg_get reg i r' = reg_get reg i r)"
proof (cases "r' = r")
  case False
  note ok = inv_ok [OF assms(1)]
  obtain c where c: "reg_find reg s (sha code) c r = None"
    and r': "r' = reg_save reg \<lparr>v_id = fresh, v_strategy = s, v_number = next_number (reg_list reg s r),
        v_code_hash = sha code, v_config_hash = c, v_status = DRAFT, v_created = now, v_activated = None\<rparr> r"
    (is "r' = reg_save reg ?v r")
    using assms(3) False by (auto simp: deploy_def Let_def split: if_splits option.splits)
  have get: "reg_get reg i r' = (if i = fresh then Some ?v else reg_get reg i r)" for i
    using get_save [OF ok, of ?v i] assms(2) r' by simp
  have okr: "ok r'" using ok_save [OF ok, of ?v] assms(2) r' by simp
  have new: "v_number w \<noteq> v_number ?v \<and> \<not> (v_code_hash w = sha code \<and> v_config_hash w = c)"
    if "reg_get reg i r = Some w" "v_strategy w = s" for i w
  proof -
    have w: "w \<in> set (reg_list reg s r)"
      using that get_id [OF ok that(1)] by (simp add: list_get [OF ok])
    then have "v_number w \<le> Max (set (map v_number (reg_list reg s r)))" by simp
    then have "v_number w < v_number ?v" using w by (auto simp: next_number_def)
    then show ?thesis using find_None [OF ok c w] by simp
  qed
  have "inv r'" unfolding inv_def
  proof (intro conjI allI impI)
    fix i j v w
    assume v: "reg_get reg i r' = Some v" and w: "reg_get reg j r' = Some w" and st: "v_strategy v = v_strategy w"
    have vw: "if i = fresh then v = ?v else reg_get reg i r = Some v" "if j = fresh then w = ?v else reg_get reg j r = Some w"
      using v w get by (auto split: if_splits)
    note D = invD [OF assms(1), of i v j w]
    have diff: "v_number v \<noteq> v_number w \<and> \<not> (v_code_hash v = v_code_hash w \<and> v_config_hash v = v_config_hash w)"
      if "(i = fresh) \<noteq> (j = fresh)"
    proof (cases "i = fresh")
      case True
      then have vv: "v = ?v" and w: "reg_get reg j r = Some w" using vw that by simp_all
      have "v_strategy w = s" using st by (simp add: vv)
      from new [OF w this] show ?thesis by (auto simp: vv)
    next
      case False
      then have ww: "w = ?v" and v: "reg_get reg i r = Some v" using vw that by simp_all
      have "v_strategy v = s" using st by (simp add: ww)
      from new [OF v this] show ?thesis by (auto simp: ww)
    qed
    show "v_status v = ACTIVE \<Longrightarrow> v_status w = ACTIVE \<Longrightarrow> i = j"
      using vw D st by (cases "i = fresh"; cases "j = fresh") simp_all
    have old: "i = j \<or> (i = fresh) \<noteq> (j = fresh) \<or> reg_get reg i r = Some v \<and> reg_get reg j r = Some w"
      using vw by (cases "i = fresh"; cases "j = fresh") simp_all
    show "v_number v = v_number w \<Longrightarrow> i = j" using old diff D st by blast
    show "v_code_hash v = v_code_hash w \<Longrightarrow> v_config_hash v = v_config_hash w \<Longrightarrow> i = j"
      using old diff D st by blast
  qed (rule okr)
  then show ?thesis using get by simp
qed (use assms(1) in simp)

text \<open>After \<open>activate\<close> the version is the one active version of its strategy.\<close>

lemma activate_locked_inv:
  assumes "inv r" "activate_locked reg now vid r = (res, r')"
  shows "inv r' \<and> (\<forall>i. (reg_get reg i r' = None) = (reg_get reg i r = None))
    \<and> (\<forall>v. res = Inr v \<longrightarrow> v_id v = vid \<and> v_status v = ACTIVE \<and> reg_get reg vid r' = Some v
         \<and> (\<forall>i. i \<noteq> vid \<longrightarrow> reg_get reg i r' =
               map_option (demoted vid (reg_list reg (v_strategy v) r)) (reg_get reg i r)))"
proof (cases "reg_get reg vid r")
  case None
  then show ?thesis using assms by (auto simp: activate_locked_def)
next
  case (Some cur)
  show ?thesis
  proof (cases "v_status cur = RETIRED")
    case True
    then show ?thesis using assms Some by (auto simp: activate_locked_def)
  next
    case False
    note ok = inv_ok [OF assms(1)]
    let ?L = "reg_list reg (v_strategy cur) r"
    let ?r1 = "foldl (retire_sibling reg (v_id cur)) r ?L"
    let ?u = "cur\<lparr>v_status := ACTIVE, v_activated := Some now\<rparr>"
    have res: "res = Inr ?u" "r' = reg_save reg ?u ?r1"
      using assms(2) Some False by (simp_all add: activate_locked_def Let_def)
    have id: "v_id cur = vid" by (rule get_id [OF ok Some])
    note r1 = retire_siblings_inv [OF assms(1), of "v_id cur" "v_strategy cur"]
    have cur1: "reg_get reg (v_id cur) ?r1 = Some cur"
      using r1 Some id by (simp add: demoted_def)
    have none: "\<forall>j x. reg_get reg j ?r1 = Some x \<longrightarrow> v_strategy x = v_strategy ?u \<longrightarrow> v_status x = ACTIVE \<longrightarrow> j = v_id ?u"
    proof (intro allI impI)
      fix j x assume x: "reg_get reg j ?r1 = Some x" "v_strategy x = v_strategy ?u" "v_status x = ACTIVE"
      then obtain x' where x': "reg_get reg j r = Some x'" "x = demoted (v_id cur) ?L x'" using r1 by auto
      then have st: "v_strategy x' = v_strategy cur" "v_status x' = ACTIVE"
        using x(2,3) by (auto simp: demoted_def split: if_splits)
      have idx: "v_id x' = j" by (rule get_id [OF ok x'(1)])
      have "x' \<in> set ?L" using x'(1) idx st(1) by (simp add: list_get [OF ok])
      then show "j = v_id ?u" using x(3) x'(2) st idx by (auto simp: demoted_def split: if_splits)
    qed
    have "inv r'" unfolding res(2)
      by (rule save_same_inv [of ?r1 ?u cur]) (use r1 cur1 none in \<open>auto simp: same_content_def\<close>)
    moreover have "reg_get reg i r' = (if i = v_id cur then Some ?u else reg_get reg i ?r1)" for i
      using save_same [of ?r1 ?u cur] inv_ok r1 cur1 res(2) by (auto simp: same_content_def)
    ultimately show ?thesis using res(1) id r1 Some by auto
  qed
qed

lemma max_by_in: "max_by f b xs \<in> insert b (set xs) \<and> (\<forall>x\<in>insert b (set xs). f x \<le> f (max_by f b xs))"
  by (induction f b xs rule: max_by.induct) (auto intro: order_trans less_imp_le)

lemma rollback_inv:
  assumes "inv r" "rollback reg now s r = (res, r')"
  shows "inv r' \<and> (\<forall>i. (reg_get reg i r' = None) = (reg_get reg i r = None))
    \<and> (\<forall>v. res = Inr v \<longrightarrow> v_status v = ACTIVE \<and> reg_get reg (v_id v) r' = Some v
         \<and> (\<exists>p. reg_get reg (v_id v) r = Some p \<and> v_status p = RETIRED \<and> v_strategy p = s \<and> v_activated p \<noteq> None
             \<and> (\<forall>c\<in>set (rollback_candidates (reg_list reg s r)). activated_at c \<le> activated_at p)))"
proof (cases "rollback_candidates (reg_list reg s r)")
  case Nil
  then show ?thesis using assms by (auto simp: rollback_def)
next
  case (Cons c cs)
  note ok = inv_ok [OF assms(1)]
  let ?L = "reg_list reg s r"
  define p where "p = max_by activated_at c cs"
  define r1 where "r1 = (case find (\<lambda>v. v_status v = ACTIVE) ?L of None \<Rightarrow> r
      | Some cur \<Rightarrow> reg_save reg (cur\<lparr>v_status := RETIRED\<rparr>) r)"
  let ?u = "p\<lparr>v_status := ACTIVE, v_activated := Some now\<rparr>"
  have res: "res = Inr ?u" "r' = reg_save reg ?u r1"
    using assms(2) Cons by (simp_all add: rollback_def Let_def p_def r1_def)
  have pmax: "p \<in> set (c # cs)" "\<forall>x\<in>set (c # cs). activated_at x \<le> activated_at p"
    using max_by_in [of activated_at c cs] by (simp_all add: p_def)
  then have "p \<in> set (rollback_candidates ?L)" using Cons by simp
  then have p: "p \<in> set ?L" "v_status p = RETIRED" "v_activated p \<noteq> None"
    by (auto simp: rollback_candidates_def Let_def)
  then have gp: "reg_get reg (v_id p) r = Some p" "v_strategy p = s" by (simp_all add: list_get [OF ok])
  have r1: "inv r1 \<and> (\<forall>i. (reg_get reg i r1 = None) = (reg_get reg i r = None)) \<and> reg_get reg (v_id p) r1 = Some p
      \<and> (\<forall>j x. reg_get reg j r1 = Some x \<longrightarrow> v_strategy x = s \<longrightarrow> v_status x \<noteq> ACTIVE)"
  proof (cases "find (\<lambda>v. v_status v = ACTIVE) ?L")
    case None
    have "v_status x \<noteq> ACTIVE" if "reg_get reg j r = Some x" "v_strategy x = s" for j x
    proof -
      have "x \<in> set ?L" using that get_id [OF ok that(1)] by (simp add: list_get [OF ok])
      then show ?thesis using None by (auto simp: find_None_iff)
    qed
    then show ?thesis using assms(1) gp None by (simp add: r1_def)
  next
    case (Some cur)
    then have cur: "cur \<in> set ?L" "v_status cur = ACTIVE" by (auto simp: find_Some_iff)
    then have gc: "reg_get reg (v_id cur) r = Some cur" "v_strategy cur = s" by (simp_all add: list_get [OF ok])
    have r1: "r1 = reg_save reg (cur\<lparr>v_status := RETIRED\<rparr>) r" using Some by (simp add: r1_def)
    have get: "reg_get reg i r1 = (if i = v_id cur then Some (cur\<lparr>v_status := RETIRED\<rparr>) else reg_get reg i r)" for i
      using save_same [of r "cur\<lparr>v_status := RETIRED\<rparr>" cur] ok gc r1 by (simp add: same_content_def)
    have "inv r1" unfolding r1
      by (rule save_same_inv [OF assms(1), of _ cur]) (use gc in \<open>simp_all add: same_content_def\<close>)
    moreover have "v_id p \<noteq> v_id cur"
    proof
      assume "v_id p = v_id cur"
      then have "p = cur" using gp(1) gc(1) by (metis option.inject)
      then show False using p(2) cur(2) by (metis VersionStatus.distinct(5))
    qed
    moreover have others: "v_status x \<noteq> ACTIVE" if x: "reg_get reg j r1 = Some x" "v_strategy x = s" for j x
    proof (cases "j = v_id cur")
      case True
      then show ?thesis using x(1) by (auto simp: get)
    next
      case False
      then have xr: "reg_get reg j r = Some x" using x(1) by (simp add: get)
      have "v_strategy x = v_strategy cur" using x(2) gc(2) by simp
      from invD [OF assms(1) xr gc(1) this] False cur(2) show ?thesis by blast
    qed
    moreover have "(reg_get reg i r1 = None) = (reg_get reg i r = None)" for i
      using gc(1) by (simp add: get)
    ultimately show ?thesis using gp(1) by (simp add: get)
  qed
  have "inv r'" unfolding res(2)
    by (rule save_same_inv [of r1 ?u p]) (use r1 gp(2) in \<open>auto simp: same_content_def\<close>)
  moreover have "reg_get reg i r' = (if i = v_id p then Some ?u else reg_get reg i r1)" for i
    using save_same [of r1 ?u p] inv_ok r1 res(2) by (auto simp: same_content_def)
  moreover have "\<exists>q. reg_get reg (v_id ?u) r = Some q \<and> v_status q = RETIRED \<and> v_strategy q = s \<and> v_activated q \<noteq> None
      \<and> (\<forall>c\<in>set (rollback_candidates ?L). activated_at c \<le> activated_at q)"
    using gp p(2,3) pmax(2) unfolding Cons by (intro exI [of _ p]) simp
  ultimately show ?thesis using res(1) r1 gp(1) by simp
qed

lemma retire_locked_inv:
  assumes "inv r" "retire_locked reg b vid r = (res, r')"
  shows "inv r' \<and> (\<forall>i. (reg_get reg i r' = None) = (reg_get reg i r = None))"
proof (cases "r' = r")
  case False
  note ok = inv_ok [OF assms(1)]
  obtain cur where cur: "reg_get reg vid r = Some cur" "r' = reg_save reg (cur\<lparr>v_status := RETIRED\<rparr>) r"
    using assms(2) False by (auto simp: retire_locked_def Let_def split: option.splits if_splits)
  have id: "v_id cur = vid" by (rule get_id [OF ok cur(1)])
  have "inv r'" unfolding cur(2)
    by (rule save_same_inv [OF assms(1), of _ cur]) (use cur id in \<open>simp_all add: same_content_def\<close>)
  moreover have "reg_get reg i r' = (if i = vid then Some (cur\<lparr>v_status := RETIRED\<rparr>) else reg_get reg i r)" for i
    using save_same [of r "cur\<lparr>v_status := RETIRED\<rparr>" cur] ok cur id by (simp add: same_content_def)
  ultimately show ?thesis using cur by simp
qed (use assms(1) in simp)

lemma rollback_strategy:
  assumes "inv r" "rollback reg now s r = (Inr w, r')"
  shows "v_strategy w = s"
proof (cases "rollback_candidates (reg_list reg s r)")
  case (Cons c cs)
  let ?p = "max_by activated_at c cs"
  have "?p \<in> set (rollback_candidates (reg_list reg s r))"
    using max_by_in [of activated_at c cs] by (simp add: Cons)
  then have "?p \<in> set (reg_list reg s r)" by (auto simp: rollback_candidates_def Let_def)
  then have "v_strategy ?p = s" by (simp add: list_get [OF inv_ok [OF assms(1)]])
  then show ?thesis using assms(2) by (auto simp: rollback_def Cons Let_def)
qed (use assms(2) in \<open>simp add: rollback_def\<close>)

text \<open>Rolling back an activation makes the version active that was active before it.\<close>

lemma activate_then_rollback:
  assumes "inv r" "reg_get reg (v_id a) r = Some a" "v_status a = ACTIVE" "v_strategy a = s" "v_activated a \<noteq> None"
    and latest: "\<forall>x\<in>set (reg_list reg s r). v_id x \<noteq> v_id a \<longrightarrow> activated_at x < activated_at a"
    and act: "activate reg t1 bid r = (Inr b, r1)" "v_strategy b = s" "bid \<noteq> v_id a"
    and roll: "rollback reg t2 s r1 = (res, r2)"
  shows "\<exists>w. res = Inr w \<and> v_id w = v_id a \<and> get_active reg s r2 = Some w"
proof -
  have act': "activate_locked reg t1 bid r = (Inr b, r1)"
    using act(1) by (auto simp: activate_def split: option.splits)
  note A = activate_locked_inv [OF assms(1) act']
  then have ok1: "ok r1" and b: "v_id b = bid" "v_status b = ACTIVE" "reg_get reg bid r1 = Some b"
    and others: "\<And>i. i \<noteq> bid \<Longrightarrow> reg_get reg i r1 = map_option (demoted bid (reg_list reg s r)) (reg_get reg i r)"
    using act(2) by (simp_all add: inv_ok)
  note ok = inv_ok [OF assms(1)]
  let ?a = "a\<lparr>v_status := RETIRED\<rparr>"
  have "a \<in> set (reg_list reg s r)" using assms(2,4) by (simp add: list_get [OF ok])
  then have "reg_get reg (v_id a) r1 = Some ?a"
    using others [of "v_id a"] assms(2,3) act(3) by (simp add: demoted_def)
  then have a1: "?a \<in> set (reg_list reg s r1)" using assms(4) by (simp add: list_get [OF ok1])
  have "(case find (\<lambda>v. v_status v = ACTIVE) (reg_list reg s r1) of None \<Rightarrow> True | Some c \<Rightarrow> v_id ?a \<noteq> v_id c)"
  proof (cases "find (\<lambda>v. v_status v = ACTIVE) (reg_list reg s r1)")
    case (Some c)
    then have c: "c \<in> set (reg_list reg s r1)" "v_status c = ACTIVE" by (auto simp: find_Some_iff)
    then have "reg_get reg (v_id c) r1 = Some c" by (simp add: list_get [OF ok1])
    then show ?thesis using \<open>reg_get reg (v_id a) r1 = Some ?a\<close> c(2) Some by auto
  qed simp
  then have cand: "?a \<in> set (rollback_candidates (reg_list reg s r1))"
    using a1 assms(5) by (simp add: rollback_candidates_def Let_def)
  obtain w where w: "res = Inr w"
    using roll cand by (cases "rollback_candidates (reg_list reg s r1)") (auto simp: rollback_def Let_def)
  note R = rollback_inv [OF conjunct1 [OF A] roll]
  then obtain p where p: "reg_get reg (v_id w) r1 = Some p" "v_status p = RETIRED" "v_strategy p = s"
      "activated_at ?a \<le> activated_at p" and wact: "v_status w = ACTIVE" "reg_get reg (v_id w) r2 = Some w"
    using w cand by blast
  have "v_id w = v_id a"
  proof (rule ccontr)
    assume ne: "v_id w \<noteq> v_id a"
    have wb: "v_id w \<noteq> bid" using p(1,2) b by auto
    then obtain p0 where p0: "reg_get reg (v_id w) r = Some p0" "p = demoted bid (reg_list reg s r) p0"
      using others [OF wb] p(1) by (cases "reg_get reg (v_id w) r") auto
    have id: "v_id p0 = v_id w" by (rule get_id [OF ok p0(1)])
    have "p0 \<in> set (reg_list reg s r)" using p0 p(3) id by (auto simp: list_get [OF ok] demoted_def split: if_splits)
    then have "activated_at p0 < activated_at a" using latest ne id by auto
    moreover have "activated_at p = activated_at p0" using p0(2) by (simp add: demoted_def activated_at_def)
    ultimately show False using p(4) by (simp add: activated_at_def)
  qed
  moreover have "get_active reg s r2 = Some w"
  proof -
    have ok2: "ok r2" and inv2: "inv r2" using R inv_ok by blast+
    have ws: "v_strategy w = s"
      using rollback_strategy [OF conjunct1 [OF A]] roll w by blast
    then have "w \<in> set (reg_list reg s r2)" using wact(2) by (simp add: list_get [OF ok2])
    then obtain c where c: "find (\<lambda>v. v_status v = ACTIVE) (reg_list reg s r2) = Some c"
      using wact(1) by (cases "find (\<lambda>v. v_status v = ACTIVE) (reg_list reg s r2)") (auto simp: find_None_iff)
    then have "c \<in> set (reg_list reg s r2)" "v_status c = ACTIVE" by (auto simp: find_Some_iff)
    then have "reg_get reg (v_id c) r2 = Some c" "v_strategy c = s" "v_status c = ACTIVE"
      by (simp_all add: list_get [OF ok2])
    moreover from this have "v_id c = v_id w" using invD [OF inv2, of "v_id c" c "v_id w" w] wact ws by simp
    ultimately show ?thesis using c wact(2) by (simp add: get_active_def)
  qed
  ultimately show ?thesis using w by blast
qed

text \<open>Versions are never lost and never change what they are a version of.\<close>

definition keeps :: "'r \<Rightarrow> 'r \<Rightarrow> bool" where
  "keeps r r' \<longleftrightarrow> (\<forall>i v. reg_get reg i r = Some v \<longrightarrow> (\<exists>v'. reg_get reg i r' = Some v' \<and> same_content v' v))"

lemma keepsI:
  "(\<And>i v. reg_get reg i r = Some v \<Longrightarrow> \<exists>v'. reg_get reg i r' = Some v' \<and> same_content v' v) \<Longrightarrow> keeps r r'"
  by (simp add: keeps_def)

lemma keepsD: "keeps r r' \<Longrightarrow> reg_get reg i r = Some v \<Longrightarrow> \<exists>v'. reg_get reg i r' = Some v' \<and> same_content v' v"
  by (simp add: keeps_def)

lemma keeps_refl: "keeps r r"
  by (rule keepsI) (simp add: same_content_def)

lemma keeps_trans: "keeps a b \<Longrightarrow> keeps b c \<Longrightarrow> keeps a c"
proof (rule keepsI)
  fix i v assume "keeps a b" "keeps b c" "reg_get reg i a = Some v"
  then obtain v' v'' where "same_content v' v" "reg_get reg i c = Some v''" "same_content v'' v'"
    using keepsD by blast
  then show "\<exists>v'. reg_get reg i c = Some v' \<and> same_content v' v" by (simp add: same_content_def)
qed

lemma keeps_save:
  assumes "ok r" "reg_get reg (v_id v) r = Some w" "same_content v w"
  shows "keeps r (reg_save reg v r)"
proof (rule keepsI)
  fix i x assume x: "reg_get reg i r = Some x"
  have get: "reg_get reg i (reg_save reg v r) = (if i = v_id v then Some v else reg_get reg i r)"
    using save_same [OF assms] by blast
  show "\<exists>v'. reg_get reg i (reg_save reg v r) = Some v' \<and> same_content v' x"
  proof (cases "i = v_id v")
    case True
    then have "x = w" using x assms(2) by simp
    then show ?thesis using get True assms(3) by simp
  qed (use get x in \<open>simp add: same_content_def\<close>)
qed

lemma keeps_retire_siblings:
  assumes "inv r"
  shows "keeps r (foldl (retire_sibling reg cid) r (reg_list reg st r))"
proof (rule keepsI)
  fix i v assume "reg_get reg i r = Some v"
  then have "reg_get reg i (foldl (retire_sibling reg cid) r (reg_list reg st r)) = Some (demoted cid (reg_list reg st r) v)"
    using retire_siblings_inv [OF assms, of cid st] by simp
  then show "\<exists>v'. reg_get reg i (foldl (retire_sibling reg cid) r (reg_list reg st r)) = Some v' \<and> same_content v' v"
    by (simp add: demoted_def same_content_def)
qed

lemma activate_locked_keeps:
  assumes "inv r"
  shows "keeps r (snd (activate_locked reg now vid r))"
proof (cases "reg_get reg vid r")
  case None
  then show ?thesis by (simp add: activate_locked_def keeps_refl)
next
  case (Some cur)
  let ?r1 = "foldl (retire_sibling reg (v_id cur)) r (reg_list reg (v_strategy cur) r)"
  have id: "v_id cur = vid" by (rule get_id [OF inv_ok [OF assms] Some])
  note r1 = retire_siblings_inv [OF assms, of "v_id cur" "v_strategy cur"]
  have "reg_get reg vid ?r1 = Some cur" using r1 Some id by (simp add: demoted_def)
  then have "keeps ?r1 (reg_save reg (cur\<lparr>v_status := ACTIVE, v_activated := Some now\<rparr>) ?r1)"
    using r1 id by (intro keeps_save [of _ _ cur]) (simp_all add: inv_ok same_content_def)
  then have "keeps r (reg_save reg (cur\<lparr>v_status := ACTIVE, v_activated := Some now\<rparr>) ?r1)"
    by (rule keeps_trans [OF keeps_retire_siblings [OF assms]])
  then show ?thesis using Some by (simp add: activate_locked_def Let_def keeps_refl)
qed

lemma retire_locked_keeps:
  assumes "inv r"
  shows "keeps r (snd (retire_locked reg b vid r))"
proof (cases "reg_get reg vid r")
  case None
  then show ?thesis by (simp add: retire_locked_def keeps_refl)
next
  case (Some cur)
  have id: "v_id cur = vid" by (rule get_id [OF inv_ok [OF assms] Some])
  have "keeps r (reg_save reg (cur\<lparr>v_status := RETIRED\<rparr>) r)"
    by (rule keeps_save [of _ _ cur]) (simp_all add: inv_ok assms Some id same_content_def)
  then show ?thesis using Some by (simp add: retire_locked_def Let_def keeps_refl)
qed

lemma rollback_keeps:
  assumes "inv r"
  shows "keeps r (snd (rollback reg now s r))"
proof (cases "rollback_candidates (reg_list reg s r)")
  case Nil
  then show ?thesis by (simp add: rollback_def keeps_refl)
next
  case (Cons c cs)
  note ok = inv_ok [OF assms]
  let ?L = "reg_list reg s r" and ?p = "max_by activated_at c cs"
  define r1 where "r1 = (case find (\<lambda>v. v_status v = ACTIVE) ?L of None \<Rightarrow> r
      | Some cur \<Rightarrow> reg_save reg (cur\<lparr>v_status := RETIRED\<rparr>) r)"
  have "?p \<in> set (rollback_candidates ?L)" using max_by_in [of activated_at c cs] by (simp add: Cons)
  then have p: "?p \<in> set ?L" by (auto simp: rollback_candidates_def Let_def)
  have r1: "ok r1 \<and> keeps r r1"
  proof (cases "find (\<lambda>v. v_status v = ACTIVE) ?L")
    case None
    then show ?thesis using ok by (simp add: r1_def keeps_refl)
  next
    case (Some cur)
    then have "cur \<in> set ?L" by (auto simp: find_Some_iff)
    then have gc: "reg_get reg (v_id cur) r = Some cur" by (simp add: list_get [OF ok])
    have same: "same_content (cur\<lparr>v_status := RETIRED\<rparr>) cur" by (simp add: same_content_def)
    show ?thesis
      using keeps_save [OF ok _ same] save_same [OF ok _ same] gc by (simp add: r1_def Some)
  qed
  have "reg_get reg (v_id ?p) r = Some ?p" using p by (simp add: list_get [OF ok])
  then obtain p1 where p1: "reg_get reg (v_id ?p) r1 = Some p1" "same_content p1 ?p"
    using r1 keepsD by blast
  have "keeps r1 (reg_save reg (?p\<lparr>v_status := ACTIVE, v_activated := Some now\<rparr>) r1)"
    using r1 p1 by (intro keeps_save [of _ _ p1]) (simp_all add: same_content_def)
  then have "keeps r (reg_save reg (?p\<lparr>v_status := ACTIVE, v_activated := Some now\<rparr>) r1)"
    using keeps_trans r1 by blast
  then show ?thesis by (simp add: rollback_def Cons r1_def Let_def)
qed

lemma version_step_inv:
  assumes "inv r" "\<forall>i\<in>set (new_ids x). reg_get reg i r = None"
  shows "inv (version_step reg r x) \<and> keeps r (version_step reg r x)
    \<and> (\<forall>i. reg_get reg i r = None \<longrightarrow> i \<notin> set (new_ids x) \<longrightarrow> reg_get reg i (version_step reg r x) = None)"
proof (cases x)
  case (DeployHash i s ch cfg t)
  obtain res r' where d: "deploy_hash reg i s ch cfg t r = (res, r')" by (cases "deploy_hash reg i s ch cfg t r")
  have fresh: "reg_get reg i r = None" using assms(2) DeployHash by simp
  note inv' = deploy_inv [OF assms(1) fresh d [unfolded deploy_hash_def]]
  have "keeps r r'"
  proof (rule keepsI)
    fix k v assume k: "reg_get reg k r = Some v"
    then have "k \<noteq> i" using fresh by auto
    then show "\<exists>v'. reg_get reg k r' = Some v' \<and> same_content v' v"
      using inv' k by (simp add: same_content_def)
  qed
  then show ?thesis using inv' d DeployHash by auto
next
  case (Activate i t)
  obtain res r' where a: "activate_locked reg t i r = (res, r')" by (cases "activate_locked reg t i r")
  show ?thesis
    using activate_locked_inv [OF assms(1) a] activate_locked_keeps [OF assms(1), of t i] a Activate assms(1) keeps_refl
    by (auto simp: activate_def split: option.splits)
next
  case (ActivateLocked i t)
  obtain res r' where a: "activate_locked reg t i r = (res, r')" by (cases "activate_locked reg t i r")
  show ?thesis
    using activate_locked_inv [OF assms(1) a] activate_locked_keeps [OF assms(1), of t i] a ActivateLocked by simp
next
  case (Rollback s t)
  obtain res r' where a: "rollback reg t s r = (res, r')" by (cases "rollback reg t s r")
  show ?thesis
    using rollback_inv [OF assms(1) a] rollback_keeps [OF assms(1), of t s] a Rollback by simp
next
  case (Retire i b)
  obtain res r' where a: "retire_locked reg b i r = (res, r')" by (cases "retire_locked reg b i r")
  show ?thesis
    using retire_locked_inv [OF assms(1) a] retire_locked_keeps [OF assms(1), of b i] a Retire assms(1) keeps_refl
    by (auto simp: retire_def split: option.splits)
next
  case (RetireLocked i b)
  obtain res r' where a: "retire_locked reg b i r = (res, r')" by (cases "retire_locked reg b i r")
  show ?thesis
    using retire_locked_inv [OF assms(1) a] retire_locked_keeps [OF assms(1), of b i] a RetireLocked by simp
qed

lemma version_run_inv:
  "inv r \<Longrightarrow> distinct (concat (map new_ids ops)) \<Longrightarrow> \<forall>i\<in>set (concat (map new_ids ops)). reg_get reg i r = None \<Longrightarrow>
     inv (version_run reg r ops) \<and> keeps r (version_run reg r ops)"
proof (induction ops arbitrary: r)
  case Nil
  then show ?case by (simp add: version_run_def keeps_refl)
next
  case (Cons x ops)
  let ?r = "version_step reg r x"
  have step: "inv ?r \<and> keeps r ?r \<and> (\<forall>i. reg_get reg i r = None \<longrightarrow> i \<notin> set (new_ids x) \<longrightarrow> reg_get reg i ?r = None)"
    by (rule version_step_inv [OF Cons.prems(1)]) (use Cons.prems(3) in simp)
  have "inv (version_run reg ?r ops) \<and> keeps ?r (version_run reg ?r ops)"
    by (rule Cons.IH) (use step Cons.prems(2,3) in auto)
  then show ?case using keeps_trans step by (auto simp: version_run_def)
qed

lemma version_run_none:
  "inv r \<Longrightarrow> distinct (concat (map new_ids ops)) \<Longrightarrow> \<forall>i\<in>set (concat (map new_ids ops)). reg_get reg i r = None \<Longrightarrow>
     reg_get reg k r = None \<Longrightarrow> k \<notin> set (concat (map new_ids ops)) \<Longrightarrow> reg_get reg k (version_run reg r ops) = None"
proof (induction ops arbitrary: r)
  case (Cons x ops)
  let ?r = "version_step reg r x"
  have step: "inv ?r \<and> (\<forall>i. reg_get reg i r = None \<longrightarrow> i \<notin> set (new_ids x) \<longrightarrow> reg_get reg i ?r = None)"
    using version_step_inv [OF Cons.prems(1), of x] Cons.prems(3) by simp
  have "reg_get reg i ?r = None" if i: "i \<in> set (concat (map new_ids ops))" for i
  proof -
    have "i \<notin> set (new_ids x)" using Cons.prems(2) i by auto
    moreover have "reg_get reg i r = None" using Cons.prems(3) i by simp
    ultimately show ?thesis using step by blast
  qed
  then have "reg_get reg k (version_run reg ?r ops) = None"
    by (intro Cons.IH) (use step Cons.prems(2,4,5) in auto)
  then show ?case by (simp add: version_run_def)
qed (simp add: version_run_def)

lemma deploy_result:
  assumes "inv r" "reg_get reg fresh r = None" "deploy reg sha canon fresh now s code config r = (Inr v, r')"
  shows "\<exists>cfg. code \<noteq> [] \<and> length code \<le> MAX_CODE_SIZE_BYTES \<and> canon config = Some cfg
    \<and> reg_get reg (v_id v) r' = Some v \<and> v_strategy v = s \<and> v_code_hash v = sha code \<and> v_config_hash v = cfg"
proof -
  note ok = inv_ok [OF assms(1)]
  obtain cfg where c: "code \<noteq> []" "length code \<le> MAX_CODE_SIZE_BYTES" "canon config = Some cfg"
    using assms(3) by (auto simp: deploy_def split: if_splits option.splits)
  show ?thesis
  proof (cases "reg_find reg s (sha code) cfg r")
    case None
    let ?v = "\<lparr>v_id = fresh, v_strategy = s, v_number = next_number (reg_list reg s r),
        v_code_hash = sha code, v_config_hash = cfg, v_status = DRAFT, v_created = now, v_activated = None\<rparr>"
    have "v = ?v" "r' = reg_save reg ?v r" using assms(3) c None by (auto simp: deploy_def Let_def)
    then show ?thesis using get_save [OF ok, of ?v fresh] assms(2) c by simp
  next
    case (Some w)
    then have "v = w" "r' = r" using assms(3) c by (auto simp: deploy_def)
    then show ?thesis using find_Some [OF ok Some] c by (auto simp: list_get [OF ok])
  qed
qed

text \<open>Deploying the same content again finds the version of the first deployment.\<close>

lemma redeploy:
  assumes "inv r" "reg_get reg i r = Some v" "v_strategy v = s" "v_code_hash v = sha code" "v_config_hash v = cfg"
    and "canon config = Some cfg" "code \<noteq> []" "length code \<le> MAX_CODE_SIZE_BYTES"
  shows "\<exists>w. deploy reg sha canon fresh now s code config r = (Inr w, r) \<and> v_id w = i"
proof -
  note ok = inv_ok [OF assms(1)]
  have "v \<in> set (reg_list reg s r)" using assms(2,3) get_id [OF ok assms(2)] by (simp add: list_get [OF ok])
  then obtain w where w: "reg_find reg s (sha code) cfg r = Some w"
    using find_None [OF ok, of s "sha code" cfg v] assms(4,5) by (cases "reg_find reg s (sha code) cfg r") auto
  note fw = find_Some [OF ok w]
  then have "reg_get reg (v_id w) r = Some w" "v_strategy w = s" by (simp_all add: list_get [OF ok])
  then have "v_id w = i" using invD [OF assms(1), of "v_id w" w i v] assms(2-5) fw by simp
  then show ?thesis using w assms(6-8) by (simp add: deploy_def)
qed

end

section \<open>The in-memory registry keeps the contract\<close>

definition im_ok :: "InMemoryRegistry \<Rightarrow> bool" where
  "im_ok m \<longleftrightarrow> (\<forall>i v. map_of (im_by_id m) i = Some v \<longrightarrow> v_id v = i)
     \<and> (\<forall>s. distinct (im_ids s m))
     \<and> (\<forall>s i. i \<in> set (im_ids s m) \<longleftrightarrow> (\<exists>v. map_of (im_by_id m) i = Some v \<and> v_strategy v = s))"

lemma im_ids_save:
  "im_ids s (im_save v m) =
     (if map_of (im_by_id m) (v_id v) = None \<and> s = v_strategy v then im_ids s m @ [v_id v] else im_ids s m)"
  by (simp add: im_save_def im_ids_def Let_def)

lemma im_by_id_save: "map_of (im_by_id (im_save v m)) = (map_of (im_by_id m))(v_id v \<mapsto> v)"
  by (simp add: im_save_def Let_def)

lemma im_ok_save:
  assumes ok: "im_ok m" and same: "\<And>w. im_get (v_id v) m = Some w \<Longrightarrow> v_strategy w = v_strategy v"
  shows "im_ok (im_save v m)"
  unfolding im_ok_def
proof (intro conjI allI impI)
  show "v_id w = i" if "map_of (im_by_id (im_save v m)) i = Some w" for i w
    using ok that by (auto simp: im_ok_def im_by_id_save split: if_splits)
  have "v_id v \<notin> set (im_ids (v_strategy v) m)" if "map_of (im_by_id m) (v_id v) = None"
    using ok that by (simp add: im_ok_def)
  then show "distinct (im_ids s (im_save v m))" for s
    using ok by (auto simp: im_ok_def im_ids_save)
  show "i \<in> set (im_ids s (im_save v m)) \<longleftrightarrow>
      (\<exists>w. map_of (im_by_id (im_save v m)) i = Some w \<and> v_strategy w = s)" for s i
  proof (cases "i = v_id v")
    case False
    then show ?thesis using ok by (auto simp: im_ok_def im_ids_save im_by_id_save)
  next
    case True
    then show ?thesis using ok same
      by (cases "map_of (im_by_id m) (v_id v)") (auto simp: im_ok_def im_ids_save im_by_id_save im_get_def)
  qed
qed

lemma im_okD:
  assumes "im_ok m"
  shows "map_of (im_by_id m) i = Some v \<Longrightarrow> v_id v = i"
    and "i \<in> set (im_ids s m) \<longleftrightarrow> (\<exists>v. map_of (im_by_id m) i = Some v \<and> v_strategy v = s)"
  using assms unfolding im_ok_def by blast+

lemma im_list_set:
  assumes "im_ok m"
  shows "v \<in> set (im_list s m) \<longleftrightarrow> im_get (v_id v) m = Some v \<and> v_strategy v = s"
proof -
  have "v \<in> set (im_list s m) \<longleftrightarrow> (\<exists>i\<in>set (im_ids s m). map_of (im_by_id m) i = Some v)"
    by (auto simp: im_list_def List.map_filter_def) (force intro: rev_image_eqI)
  also have "\<dots> \<longleftrightarrow> im_get (v_id v) m = Some v \<and> v_strategy v = s"
  proof
    assume "\<exists>i\<in>set (im_ids s m). map_of (im_by_id m) i = Some v"
    then obtain i where i: "i \<in> set (im_ids s m)" "map_of (im_by_id m) i = Some v" by blast
    then show "im_get (v_id v) m = Some v \<and> v_strategy v = s"
      using im_okD(1) [OF assms i(2)] i(1) unfolding im_okD(2) [OF assms] im_get_def by fastforce
  next
    assume "im_get (v_id v) m = Some v \<and> v_strategy v = s"
    then have "map_of (im_by_id m) (v_id v) = Some v" "v_id v \<in> set (im_ids s m)"
      unfolding im_okD(2) [OF assms] im_get_def by simp_all
    then show "\<exists>i\<in>set (im_ids s m). map_of (im_by_id m) i = Some v" by blast
  qed
  finally show ?thesis .
qed

lemma im_list_ids:
  assumes "im_ok m"
  shows "map v_id (im_list s m) = im_ids s m"
proof -
  have "map v_id (List.map_filter (map_of (im_by_id m)) is) = is"
    if "\<forall>i\<in>set is. \<exists>v. map_of (im_by_id m) i = Some v \<and> v_id v = i" for "is"
    using that by (induction "is") (auto simp: List.map_filter_def)
  moreover have "\<forall>i\<in>set (im_ids s m). \<exists>v. map_of (im_by_id m) i = Some v \<and> v_id v = i"
    using assms unfolding im_ok_def by blast
  ultimately show ?thesis by (simp add: im_list_def)
qed

interpretation im: strategy_registry in_memory im_ok
proof unfold_locales
  fix m i and v :: StrategyVersion assume ok: "im_ok m"
    and same: "\<And>w. reg_get in_memory (v_id v) m = Some w \<Longrightarrow> v_strategy w = v_strategy v"
  show "reg_get in_memory i (reg_save in_memory v m) = (if i = v_id v then Some v else reg_get in_memory i m)"
    by (simp add: in_memory_def im_get_def im_by_id_save)
  show "im_ok (reg_save in_memory v m)"
    using im_ok_save [OF ok, of v] same by (simp add: in_memory_def)
next
  fix m i and v :: StrategyVersion assume "im_ok m" "reg_get in_memory i m = Some v"
  then show "v_id v = i" by (simp add: in_memory_def im_get_def im_ok_def)
next
  fix m s and v :: StrategyVersion assume "im_ok m"
  then show "v \<in> set (reg_list in_memory s m) \<longleftrightarrow> reg_get in_memory (v_id v) m = Some v \<and> v_strategy v = s"
    using im_list_set by (simp add: in_memory_def)
next
  fix m s assume "im_ok m"
  then show "distinct (map v_id (reg_list in_memory s m))"
    by (simp add: in_memory_def im_list_ids) (simp add: im_ok_def)
next
  fix m s ch cfg and v :: StrategyVersion assume "reg_find in_memory s ch cfg m = None" "v \<in> set (reg_list in_memory s m)"
  then show "\<not> (v_code_hash v = ch \<and> v_config_hash v = cfg)"
    by (auto simp: in_memory_def im_find_def find_None_iff)
next
  fix m s ch cfg v assume "reg_find in_memory s ch cfg m = Some v"
  then show "v \<in> set (reg_list in_memory s m) \<and> v_code_hash v = ch \<and> v_config_hash v = cfg"
    by (auto simp: in_memory_def im_find_def find_Some_iff)
qed

lemma im_inv_init: "im.inv im_init"
  unfolding im.inv_def by (simp add: im_ok_def im_init_def im_ids_def in_memory_def im_get_def)

lemma im_run_inv:
  assumes "distinct (concat (map new_ids ops))"
  shows "im.inv (version_run in_memory im_init ops)"
  using im.version_run_inv [OF im_inv_init assms]
  by (simp add: in_memory_def im_get_def im_init_def)

lemma distinct_le_1:
  assumes "distinct xs" "\<And>x y. x \<in> set xs \<Longrightarrow> y \<in> set xs \<Longrightarrow> x = y"
  shows "length xs \<le> 1"
proof (rule ccontr)
  assume "\<not> length xs \<le> 1"
  then obtain a b ys where "xs = a # b # ys" by (cases xs; cases "tl xs") auto
  then show False using assms(1) assms(2) [of a b] by simp
qed

section \<open>What the service guarantees on the in-memory registry\<close>

text \<open>
  C26.  A strategy never has two live deployments: whatever sequence of deployments, activations,
  rollbacks and retirements ran (also with other operations between the first read and the locked part
  of an activation), at most one version of a strategy is active, no version number and
  no content occurs twice.
\<close>

theorem one_active_version:
  assumes "distinct (concat (map new_ids ops))"
  shows "(let vs = list_for_strategy in_memory s None (version_run in_memory im_init ops) in
      length (filter (\<lambda>v. v_status v = ACTIVE) vs) \<le> 1
      \<and> distinct (map v_number vs) \<and> distinct (map (\<lambda>v. (v_code_hash v, v_config_hash v)) vs))"
proof -
  let ?r = "version_run in_memory im_init ops"
  let ?vs = "list_for_strategy in_memory s None ?r"
  note inv = im_run_inv [OF assms] and ok = im.inv_ok [OF im_run_inv [OF assms]]
  have sort: "mset ?vs = mset (reg_list in_memory s ?r)" by (simp add: list_for_strategy_def Let_def)
  then have set: "set ?vs = set (reg_list in_memory s ?r)" by (metis set_mset_mset)
  have "distinct (map v_id (reg_list in_memory s ?r))" by (rule im.list_distinct [OF ok])
  then have ids: "distinct (map v_id ?vs)" using sort by (metis mset_map mset_eq_imp_distinct_iff)
  then have dist: "distinct ?vs" by (simp add: distinct_map)
  have get: "reg_get in_memory (v_id v) ?r = Some v \<and> v_strategy v = s" if "v \<in> set ?vs" for v
    using that set im.list_get [OF ok] by simp
  have same: "v = w" if "v \<in> set ?vs" "w \<in> set ?vs" "v_id v = v_id w" for v w
    using that ids by (simp add: distinct_map inj_on_def)
  have uniq: "v = w" if "v \<in> set ?vs" "w \<in> set ?vs"
      "v_status v = ACTIVE \<and> v_status w = ACTIVE \<or> v_number v = v_number w
        \<or> v_code_hash v = v_code_hash w \<and> v_config_hash v = v_config_hash w" for v w
    using same [OF that(1,2)] im.invD [OF inv, of "v_id v" v "v_id w" w] get [OF that(1)] get [OF that(2)] that(3)
    by auto
  have "distinct (map v_number ?vs)" using dist uniq by (auto simp: distinct_map inj_on_def)
  moreover have "distinct (map (\<lambda>v. (v_code_hash v, v_config_hash v)) ?vs)"
    using dist uniq by (auto simp: distinct_map inj_on_def)
  moreover have "length (filter (\<lambda>v. v_status v = ACTIVE) ?vs) \<le> 1"
  proof -
    let ?as = "filter (\<lambda>v. v_status v = ACTIVE) ?vs"
    have one: "x = y" if "x \<in> set ?as" "y \<in> set ?as" for x y
      using uniq [of x y] that by simp
    have "distinct ?as" using dist by simp
    then show ?thesis using one by (rule distinct_le_1)
  qed
  ultimately show ?thesis by (simp add: Let_def)
qed

definition sample_ops :: "version_op list" where
  "sample_ops = [DeployHash ''v1'' ''s'' ''a'' ''c'' 1, Activate ''v1'' 2, DeployHash ''v2'' ''s'' ''b'' ''c'' 3]"

theorem one_active_version_witness:
  "length (filter (\<lambda>v. v_status v = ACTIVE)
     (list_for_strategy in_memory ''s'' None (version_run in_memory im_init (sample_ops @ [Activate ''v2'' 4])))) \<le> 1"
  using one_active_version [of "sample_ops @ [Activate ''v2'' 4]" "''s''"]
  by (simp add: sample_ops_def Let_def)

text \<open>
  Deployments are idempotent: once a version has been deployed, deploying the same code and configuration for
  the strategy again, after any further operations, returns a version with the same id and
  leaves the registry as it is.
\<close>

theorem redeploy_is_idempotent:
  assumes "distinct (concat (map new_ids (ops1 @ ops2)))"
    and "i \<notin> set (concat (map new_ids (ops1 @ ops2)))"
    and "deploy in_memory sha canon i t s code config (version_run in_memory im_init ops1) = (Inr v, r)"
  shows "\<exists>w. deploy in_memory sha canon j t' s code config (version_run in_memory r ops2)
      = (Inr w, version_run in_memory r ops2) \<and> v_id w = v_id v"
proof -
  let ?r1 = "version_run in_memory im_init ops1"
  have d: "distinct (concat (map new_ids ops1))" "distinct (concat (map new_ids ops2))"
    "set (concat (map new_ids ops1)) \<inter> set (concat (map new_ids ops2)) = {}"
    using assms(1) by auto
  have none0: "reg_get in_memory k im_init = None" for k by (simp add: in_memory_def im_get_def im_init_def)
  have none1: "k \<notin> set (concat (map new_ids ops)) \<Longrightarrow> reg_get in_memory k (version_run in_memory im_init ops) = None"
    if "distinct (concat (map new_ids ops))" for k ops
    using im.version_run_none [OF im_inv_init that] none0 by blast
  have i1: "reg_get in_memory i ?r1 = None" using none1 [OF d(1), of i] assms(2) by auto
  note inv1 = im_run_inv [OF d(1)]
  note dep = im.deploy_inv [OF inv1 i1 assms(3)]
  obtain cfg where code: "code \<noteq> []" "length code \<le> MAX_CODE_SIZE_BYTES" "canon config = Some cfg"
    and v: "reg_get in_memory (v_id v) r = Some v" "v_strategy v = s" "v_code_hash v = sha code" "v_config_hash v = cfg"
    using im.deploy_result [OF inv1 i1 assms(3)] by blast
  have "\<forall>k\<in>set (concat (map new_ids ops2)). reg_get in_memory k r = None"
  proof
    fix k assume k: "k \<in> set (concat (map new_ids ops2))"
    then have "k \<noteq> i" "k \<notin> set (concat (map new_ids ops1))" using assms(2) d(3) by auto
    then show "reg_get in_memory k r = None" using dep none1 [OF d(1)] by simp
  qed
  then have run: "im.inv (version_run in_memory r ops2)" "im.keeps r (version_run in_memory r ops2)"
    using im.version_run_inv [OF conjunct1 [OF dep] d(2)] by blast+
  obtain v' where v': "reg_get in_memory (v_id v) (version_run in_memory r ops2) = Some v'" "same_content v' v"
    using im.keepsD [OF run(2) v(1)] by blast
  show ?thesis
    using im.redeploy [OF run(1) v'(1), of s sha code cfg canon config] v' v code by (simp add: same_content_def)
qed

text \<open>
  A rollback undoes an activation: when a version is active and was activated last, and another version of
  the strategy is activated, \<open>rollback\<close> succeeds and the first version is the active one again.
\<close>

theorem rollback_undoes_activation:
  assumes "distinct (concat (map new_ids ops))" "r = version_run in_memory im_init ops"
    and "im_get (v_id a) r = Some a" "v_status a = ACTIVE" "v_strategy a = s" "v_activated a \<noteq> None"
    and "\<forall>x\<in>set (im_list s r). v_id x \<noteq> v_id a \<longrightarrow> activated_at x < activated_at a"
    and "activate in_memory t1 bid r = (Inr b, r1)" "v_strategy b = s" "bid \<noteq> v_id a"
  shows "\<exists>w r2. rollback in_memory t2 s r1 = (Inr w, r2) \<and> v_id w = v_id a
    \<and> get_active in_memory s r2 = Some w"
proof -
  obtain res r2 where r2: "rollback in_memory t2 s r1 = (res, r2)" by (cases "rollback in_memory t2 s r1")
  have "reg_get in_memory (v_id a) r = Some a"
    "\<forall>x\<in>set (reg_list in_memory s r). v_id x \<noteq> v_id a \<longrightarrow> activated_at x < activated_at a"
    using assms(3,7) by (simp_all add: in_memory_def)
  from im.activate_then_rollback [OF im_run_inv [OF assms(1), folded assms(2)] this(1) assms(4-6) this(2) assms(8-10) r2]
  show ?thesis using r2 by auto
qed

end
