(* ===== verification/EventBus.thy ===== *)
theory EventBus
  imports Prelude
begin

text \<open>
  The event bus, \<open>engine/events/bus.py\<close>: subscription, publishing to the in-process handlers and to
  Redis, the bounded event log, and the process-wide instance.

  The lists of handlers are objects: \<open>publish\<close> walks over the list it found in the dictionary,
  \<open>subscribe\<close> appends to that same list, \<open>unsubscribe\<close> puts a new list in the dictionary.
  Therefore \<open>bus_lists\<close> is a store of lists, whose positions are the identities of the lists,
  and the dictionary holds identities.

  A handler is any value of \<open>'h\<close>; what it does with an event is the parameter \<open>react\<close>: the
  calls it makes on the bus, in order, and whether it raises in the end.  A handler may publish,
  so \<open>publish\<close> is recursive and may run forever; it has fuel, and \<open>None\<close> is a run that does not
  end within it.  Whether Redis answers is an argument.
\<close>

section \<open>Events\<close>

datatype EventType =
  MARKET_DATA_UPDATE | MARKET_OPEN | MARKET_CLOSE
| SIGNAL_EMITTED | SIGNAL_BATCH | SIGNAL_GENERATED
| ORDER_CREATED | ORDER_VALIDATED | ORDER_SUBMITTED | ORDER_FILLED | ORDER_PARTIALLY_FILLED
| ORDER_CANCELLED | ORDER_REJECTED | ORDER_FAILED
| PORTFOLIO_UPDATED | POSITION_OPENED | POSITION_CLOSED
| STRATEGY_LOADED | STRATEGY_UNLOADED | STRATEGY_ERROR
| RISK_WARNING | CIRCUIT_BREAKER
| ENGINE_STARTED | ENGINE_STOPPED | BACKTEST_STARTED | BACKTEST_COMPLETED | BACKTEST_FAILED

fun event_type_value :: "EventType \<Rightarrow> string" where
  "event_type_value MARKET_DATA_UPDATE = ''market.data.update''"
| "event_type_value MARKET_OPEN = ''market.open''"
| "event_type_value MARKET_CLOSE = ''market.close''"
| "event_type_value SIGNAL_EMITTED = ''signal.emitted''"
| "event_type_value SIGNAL_BATCH = ''signal.batch''"
| "event_type_value SIGNAL_GENERATED = ''signal.generated''"
| "event_type_value ORDER_CREATED = ''order.created''"
| "event_type_value ORDER_VALIDATED = ''order.validated''"
| "event_type_value ORDER_SUBMITTED = ''order.submitted''"
| "event_type_value ORDER_FILLED = ''order.filled''"
| "event_type_value ORDER_PARTIALLY_FILLED = ''order.partially_filled''"
| "event_type_value ORDER_CANCELLED = ''order.cancelled''"
| "event_type_value ORDER_REJECTED = ''order.rejected''"
| "event_type_value ORDER_FAILED = ''order.failed''"
| "event_type_value PORTFOLIO_UPDATED = ''portfolio.updated''"
| "event_type_value POSITION_OPENED = ''position.opened''"
| "event_type_value POSITION_CLOSED = ''position.closed''"
| "event_type_value STRATEGY_LOADED = ''strategy.loaded''"
| "event_type_value STRATEGY_UNLOADED = ''strategy.unloaded''"
| "event_type_value STRATEGY_ERROR = ''strategy.error''"
| "event_type_value RISK_WARNING = ''risk.warning''"
| "event_type_value CIRCUIT_BREAKER = ''risk.circuit_breaker''"
| "event_type_value ENGINE_STARTED = ''engine.started''"
| "event_type_value ENGINE_STOPPED = ''engine.stopped''"
| "event_type_value BACKTEST_STARTED = ''backtest.started''"
| "event_type_value BACKTEST_COMPLETED = ''backtest.completed''"
| "event_type_value BACKTEST_FAILED = ''backtest.failed''"

record 'd Event =
  ev_type :: EventType
  ev_data :: "(string, 'd) dict"
  ev_source :: string
  ev_timestamp :: string

record 'd EventDict =
  ed_type :: string
  ed_data :: "(string, 'd) dict"
  ed_source :: string
  ed_timestamp :: string

definition new_event ::
  "EventType \<Rightarrow> (string, 'd) dict option \<Rightarrow> string \<Rightarrow> string \<Rightarrow> 'd Event" where
  "new_event t d src now =
     \<lparr>ev_type = t, ev_data = (case d of None \<Rightarrow> [] | Some x \<Rightarrow> x), ev_source = src, ev_timestamp = now\<rparr>"

definition to_dict :: "'d Event \<Rightarrow> 'd EventDict" where
  "to_dict e = \<lparr>ed_type = event_type_value (ev_type e), ed_data = ev_data e, ed_source = ev_source e,
     ed_timestamp = ev_timestamp e\<rparr>"

section \<open>The bus\<close>

datatype ('h, 'd) bus_effect =
  BusCounter string string       \<comment> \<open>metric and the tag \<open>event_type\<close>\<close>
| BusDuration string             \<comment> \<open>the histogram \<open>handler_duration_ms\<close>; the time itself is left out\<close>
| Called 'h "'d EventDict"
| RedisPublish string "'d EventDict"

record ('h, 'd) EventBus =
  bus_url :: string
  bus_lists :: "'h list list"
  bus_handlers :: "(EventType, nat) dict"
  bus_redis :: bool
  bus_log :: "'d EventDict list"
  bus_max :: int
  bus_trace :: "('h, 'd) bus_effect list"

definition new_bus :: "string \<Rightarrow> int \<Rightarrow> ('h, 'd) EventBus" where
  "new_bus url max_log_size = \<lparr>bus_url = url, bus_lists = [], bus_handlers = [], bus_redis = False,
     bus_log = [], bus_max = max_log_size, bus_trace = []\<rparr>"

definition bus_connect :: "bool \<Rightarrow> ('h, 'd) EventBus \<Rightarrow> ('h, 'd) EventBus" where
  "bus_connect answers b = b\<lparr>bus_redis := answers\<rparr>"

definition bus_disconnect :: "('h, 'd) EventBus \<Rightarrow> ('h, 'd) EventBus" where
  "bus_disconnect b = (if bus_redis b then b\<lparr>bus_redis := False\<rparr> else b)"

definition bus_note :: "('h, 'd) bus_effect list \<Rightarrow> ('h, 'd) EventBus \<Rightarrow> ('h, 'd) EventBus" where
  "bus_note es b = b\<lparr>bus_trace := bus_trace b @ es\<rparr>"

definition subscribe :: "EventType \<Rightarrow> 'h \<Rightarrow> ('h, 'd) EventBus \<Rightarrow> ('h, 'd) EventBus" where
  "subscribe t h b = (case map_of (bus_handlers b) t of
     None \<Rightarrow> b\<lparr>bus_lists := bus_lists b @ [[h]],
               bus_handlers := AList.update t (length (bus_lists b)) (bus_handlers b)\<rparr>
   | Some ref \<Rightarrow> b\<lparr>bus_lists := (bus_lists b)[ref := bus_lists b ! ref @ [h]]\<rparr>)"

definition unsubscribe :: "EventType \<Rightarrow> 'h \<Rightarrow> ('h, 'd) EventBus \<Rightarrow> ('h, 'd) EventBus" where
  "unsubscribe t h b = (case map_of (bus_handlers b) t of
     None \<Rightarrow> b
   | Some ref \<Rightarrow> b\<lparr>bus_lists := bus_lists b @ [filter (\<lambda>x. x \<noteq> h) (bus_lists b ! ref)],
                   bus_handlers := AList.update t (length (bus_lists b)) (bus_handlers b)\<rparr>)"

text \<open>The slice \<open>xs[-n:]\<close>; it is the whole list when \<open>n\<close> is 0.\<close>

definition py_last :: "int \<Rightarrow> 'a list \<Rightarrow> 'a list" where
  "py_last n xs = (if 0 < n then drop (length xs - nat n) xs else drop (nat (- n)) xs)"

definition append_log :: "'d EventDict \<Rightarrow> ('h, 'd) EventBus \<Rightarrow> ('h, 'd) EventBus" where
  "append_log d b =
     (let l = bus_log b @ [d] in
      b\<lparr>bus_log := (if bus_max b < int (length l) then py_last (bus_max b) l else l)\<rparr>)"

definition redis_part :: "('d EventDict \<Rightarrow> bool) \<Rightarrow> 'd Event \<Rightarrow> ('h, 'd) EventBus \<Rightarrow> ('h, 'd) bus_effect list" where
  "redis_part redis_ok e b =
     (if bus_redis b
      then RedisPublish (''nexus:'' @ event_type_value (ev_type e)) (to_dict e)
        # (if redis_ok (to_dict e) then [] else [BusCounter ''event_bus.redis_publish_error'' (event_type_value (ev_type e))])
      else [])"

definition finish_publish ::
  "('d EventDict \<Rightarrow> bool) \<Rightarrow> 'd Event \<Rightarrow> ('h, 'd) EventBus \<Rightarrow> ('h, 'd) EventBus" where
  "finish_publish redis_ok e b = append_log (to_dict e) (bus_note (redis_part redis_ok e b) b)"

definition handler_metrics :: "'d Event \<Rightarrow> bool \<Rightarrow> ('h, 'd) bus_effect list" where
  "handler_metrics e raised =
     BusDuration (event_type_value (ev_type e))
     # (if raised then [BusCounter ''event_bus.handler_error'' (event_type_value (ev_type e))] else [])"

datatype ('h, 'd) bus_call =
  Subscribe EventType 'h
| Unsubscribe EventType 'h
| Emit EventType "(string, 'd) dict option" string string

type_synonym ('h, 'd) reaction = "'h \<Rightarrow> 'd EventDict \<Rightarrow> ('h, 'd) bus_call list \<times> bool"

fun publish :: "('h, 'd) reaction \<Rightarrow> ('d EventDict \<Rightarrow> bool) \<Rightarrow> nat \<Rightarrow> 'd Event
      \<Rightarrow> ('h, 'd) EventBus \<Rightarrow> ('h, 'd) EventBus option"
  and deliver :: "('h, 'd) reaction \<Rightarrow> ('d EventDict \<Rightarrow> bool) \<Rightarrow> nat \<Rightarrow> nat \<Rightarrow> nat \<Rightarrow> 'd Event
      \<Rightarrow> ('h, 'd) EventBus \<Rightarrow> ('h, 'd) EventBus option"
  and perform :: "('h, 'd) reaction \<Rightarrow> ('d EventDict \<Rightarrow> bool) \<Rightarrow> nat \<Rightarrow> ('h, 'd) bus_call list
      \<Rightarrow> ('h, 'd) EventBus \<Rightarrow> ('h, 'd) EventBus option" where
  "publish react redis_ok 0 e b = None"
| "publish react redis_ok (Suc f) e b =
     (let b1 = bus_note [BusCounter ''event_bus.published'' (event_type_value (ev_type e))] b in
      case map_of (bus_handlers b) (ev_type e) of
        None \<Rightarrow> Some (finish_publish redis_ok e b1)
      | Some ref \<Rightarrow> map_option (finish_publish redis_ok e) (deliver react redis_ok f ref 0 e b1))"
| "deliver react redis_ok 0 ref i e b = None"
| "deliver react redis_ok (Suc f) ref i e b =
     (if length (bus_lists b ! ref) \<le> i then Some b
      else let h = bus_lists b ! ref ! i in
        (case react h (to_dict e) of (calls, raised) \<Rightarrow>
           case perform react redis_ok f calls (bus_note [Called h (to_dict e)] b) of
             None \<Rightarrow> None
           | Some b' \<Rightarrow> deliver react redis_ok f ref (Suc i) e (bus_note (handler_metrics e raised) b')))"
| "perform react redis_ok f [] b = Some b"
| "perform react redis_ok 0 (c # cs) b = None"
| "perform react redis_ok (Suc f) (c # cs) b =
     (case (case c of
              Subscribe t h \<Rightarrow> Some (subscribe t h b)
            | Unsubscribe t h \<Rightarrow> Some (unsubscribe t h b)
            | Emit t d src now \<Rightarrow> publish react redis_ok f (new_event t d src now) b) of
        None \<Rightarrow> None
      | Some b' \<Rightarrow> perform react redis_ok f cs b')"

definition bus_emit :: "('h, 'd) reaction \<Rightarrow> ('d EventDict \<Rightarrow> bool) \<Rightarrow> nat \<Rightarrow> EventType
    \<Rightarrow> (string, 'd) dict option \<Rightarrow> string \<Rightarrow> string \<Rightarrow> ('h, 'd) EventBus \<Rightarrow> ('h, 'd) EventBus option" where
  "bus_emit react redis_ok f t d src now b = publish react redis_ok f (new_event t d src now) b"

definition get_recent_events :: "EventType option \<Rightarrow> int \<Rightarrow> ('h, 'd) EventBus \<Rightarrow> 'd EventDict list" where
  "get_recent_events t limit b =
     py_last limit (case t of None \<Rightarrow> bus_log b
                    | Some x \<Rightarrow> filter (\<lambda>e. ed_type e = event_type_value x) (bus_log b))"

section \<open>The process-wide bus\<close>

definition get_event_bus ::
  "string \<Rightarrow> (string \<Rightarrow> bool) \<Rightarrow> string option \<Rightarrow> ('h, 'd) EventBus option
     \<Rightarrow> ('h, 'd) EventBus \<times> ('h, 'd) EventBus option" where
  "get_event_bus valkey_url answers redis_url st = (case st of
     Some b \<Rightarrow> (b, st)
   | None \<Rightarrow>
       let url = (case redis_url of None \<Rightarrow> valkey_url | Some u \<Rightarrow> if u = '''' then valkey_url else u);
           b = bus_connect (answers url) (new_bus url 10000)
       in (b, Some b))"

definition set_event_bus :: "('h, 'd) EventBus option \<Rightarrow> ('h, 'd) EventBus option" where
  "set_event_bus b = b"

section \<open>Fuel\<close>

lemma deliver_Suc:
  "deliver react rd (Suc f) ref i e b =
     (if length (bus_lists b ! ref) \<le> i then Some b
      else Option.bind (perform react rd f (fst (react (bus_lists b ! ref ! i) (to_dict e)))
             (bus_note [Called (bus_lists b ! ref ! i) (to_dict e)] b))
           (\<lambda>b'. deliver react rd f ref (Suc i) e
             (bus_note (handler_metrics e (snd (react (bus_lists b ! ref ! i) (to_dict e)))) b')))"
  by (simp add: Let_def split: prod.splits option.splits)

lemma perform_Suc:
  "perform react rd (Suc f) (c # cs) b =
     Option.bind (case c of
         Subscribe t h \<Rightarrow> Some (subscribe t h b)
       | Unsubscribe t h \<Rightarrow> Some (unsubscribe t h b)
       | Emit t d src now \<Rightarrow> publish react rd f (new_event t d src now) b)
     (perform react rd f cs)"
  by (cases c) (simp_all split: option.splits)

lemma publish_Suc:
  "publish react rd (Suc f) e b =
     (let b1 = bus_note [BusCounter ''event_bus.published'' (event_type_value (ev_type e))] b in
      case map_of (bus_handlers b) (ev_type e) of
        None \<Rightarrow> Some (finish_publish rd e b1)
      | Some ref \<Rightarrow> map_option (finish_publish rd e) (deliver react rd f ref 0 e b1))"
  by simp

lemmas bus_unfold = publish_Suc deliver_Suc perform_Suc

declare publish.simps(2) [simp del] deliver.simps(2) [simp del] perform.simps(3) [simp del]

text \<open>A run that ends within its fuel ends in the same way with more.\<close>

lemma bus_fuel_mono:
  "(\<forall>e b b'. publish react rd f e b = Some b' \<longrightarrow> publish react rd (Suc f) e b = Some b')
   \<and> (\<forall>ref i e b b'. deliver react rd f ref i e b = Some b' \<longrightarrow> deliver react rd (Suc f) ref i e b = Some b')
   \<and> (\<forall>cs b b'. perform react rd f cs b = Some b' \<longrightarrow> perform react rd (Suc f) cs b = Some b')"
proof (induction f)
  case 0
  have "perform react rd 0 cs b = Some b' \<longrightarrow> perform react rd (Suc 0) cs b = Some b'" for cs b b'
    by (cases cs) simp_all
  then show ?case by simp
next
  case (Suc f)
  note IH = Suc.IH [THEN conjunct1, rule_format] Suc.IH [THEN conjunct2, THEN conjunct1, rule_format]
    Suc.IH [THEN conjunct2, THEN conjunct2, rule_format]
  have "publish react rd (Suc (Suc f)) e b = Some b'" if "publish react rd (Suc f) e b = Some b'" for e b b'
    using that IH(2) unfolding publish_Suc Let_def by (auto split: option.splits)
  moreover have "deliver react rd (Suc (Suc f)) ref i e b = Some b'"
    if "deliver react rd (Suc f) ref i e b = Some b'" for ref i e b b'
    using that unfolding deliver_Suc [of react rd f ref i] deliver_Suc [of react rd "Suc f" ref i]
    by (auto split: if_splits simp: bind_eq_Some_conv dest: IH(3) IH(2))
  moreover have "perform react rd (Suc (Suc f)) cs b = Some b'"
    if run: "perform react rd (Suc f) cs b = Some b'" for cs b b'
  proof (cases cs)
    case (Cons c cs')
    show ?thesis
      using run unfolding Cons perform_Suc [of react rd f] perform_Suc [of react rd "Suc f"] bind_eq_Some_conv
      by (cases c) (auto dest: IH(1) IH(3))
  qed (use run in simp)
  ultimately show ?case by blast
qed

lemma publish_more_fuel:
  assumes "publish react rd f e b = Some b'" "f \<le> g"
  shows "publish react rd g e b = Some b'"
  using assms(2)
  by (induction rule: dec_induct) (use assms(1) bus_fuel_mono in blast)+

section \<open>Invariants of the bus\<close>

text \<open>What every primitive of the bus keeps, \<open>publish\<close> keeps, whatever the handlers do.\<close>

lemma publish_keeps:
  assumes bus_note: "\<And>es b. P b \<Longrightarrow> P (bus_note es b)" and sub: "\<And>t h b. P b \<Longrightarrow> P (subscribe t h b)"
    and unsub: "\<And>t h b. P b \<Longrightarrow> P (unsubscribe t h b)" and log: "\<And>d b. P b \<Longrightarrow> P (append_log d b)"
  shows "(\<forall>e b b'. publish react rd f e b = Some b' \<longrightarrow> P b \<longrightarrow> P b')
   \<and> (\<forall>ref i e b b'. deliver react rd f ref i e b = Some b' \<longrightarrow> P b \<longrightarrow> P b')
   \<and> (\<forall>cs b b'. perform react rd f cs b = Some b' \<longrightarrow> P b \<longrightarrow> P b')"
proof (induction f)
  case 0
  have "perform react rd 0 cs b = Some b' \<longrightarrow> P b \<longrightarrow> P b'" for cs b b'
    by (cases cs) simp_all
  then show ?case by simp
next
  case (Suc f)
  note IH = Suc.IH [THEN conjunct1, rule_format] Suc.IH [THEN conjunct2, THEN conjunct1, rule_format]
    Suc.IH [THEN conjunct2, THEN conjunct2, rule_format]
  have fin: "P (finish_publish rd e b)" if "P b" for e b
    using that by (simp add: finish_publish_def bus_note log)
  have "P b'" if "publish react rd (Suc f) e b = Some b'" "P b" for e b b'
    using that unfolding publish_Suc Let_def
    by (auto split: option.splits intro: fin bus_note dest: IH(2))
  moreover have "P b'" if "deliver react rd (Suc f) ref i e b = Some b'" "P b" for ref i e b b'
    using that unfolding deliver_Suc
    by (auto split: if_splits simp: bind_eq_Some_conv intro: bus_note dest!: IH(2) IH(3))
  moreover have "P b'" if run: "perform react rd (Suc f) cs b = Some b'" and "P b" for cs b b'
  proof (cases cs)
    case (Cons c cs')
    obtain b1 where "P b1" "perform react rd f cs' b1 = Some b'"
      using run \<open>P b\<close> unfolding Cons perform_Suc bind_eq_Some_conv
      by (cases c) (auto intro: sub unsub dest: IH(1))
    then show ?thesis by (auto dest: IH(3))
  qed (use run \<open>P b\<close> in simp)
  ultimately show ?case by blast
qed

text \<open>The states of a bus: any sequence of its operations.\<close>

inductive reachable :: "('h, 'd) reaction \<Rightarrow> ('d EventDict \<Rightarrow> bool) \<Rightarrow> ('h, 'd) EventBus \<Rightarrow> bool"
  for react rd where
  init: "reachable react rd (new_bus url n)"
| connect: "reachable react rd b \<Longrightarrow> reachable react rd (bus_connect a b)"
| disconnect: "reachable react rd b \<Longrightarrow> reachable react rd (bus_disconnect b)"
| subscribe: "reachable react rd b \<Longrightarrow> reachable react rd (subscribe t h b)"
| unsubscribe: "reachable react rd b \<Longrightarrow> reachable react rd (unsubscribe t h b)"
| publish: "reachable react rd b \<Longrightarrow> publish react rd f e b = Some b' \<Longrightarrow> reachable react rd b'"

text \<open>Every event type has a list of its own.\<close>

definition bus_ok :: "('h, 'd) EventBus \<Rightarrow> bool" where
  "bus_ok b \<longleftrightarrow> (\<forall>t r. map_of (bus_handlers b) t = Some r \<longrightarrow> r < length (bus_lists b))
     \<and> (\<forall>t u r. map_of (bus_handlers b) t = Some r \<longrightarrow> map_of (bus_handlers b) u = Some r \<longrightarrow> t = u)"

definition log_ok :: "('h, 'd) EventBus \<Rightarrow> bool" where
  "log_ok b \<longleftrightarrow> (0 < bus_max b \<longrightarrow> int (length (bus_log b)) \<le> bus_max b)"

lemma bus_ok_note [simp]: "bus_ok (bus_note es b) = bus_ok b"
  by (simp add: bus_ok_def bus_note_def)

lemma bus_ok_append_log [simp]: "bus_ok (append_log d b) = bus_ok b"
  by (simp add: bus_ok_def append_log_def Let_def)

lemma bus_ok_fresh: "bus_ok b \<Longrightarrow> bus_ok (b\<lparr>bus_lists := bus_lists b @ [hs],
    bus_handlers := AList.update t (length (bus_lists b)) (bus_handlers b)\<rparr>)"
  unfolding bus_ok_def by (auto simp: less_Suc_eq)

lemma bus_ok_subscribe: "bus_ok b \<Longrightarrow> bus_ok (subscribe t h b)"
  by (cases "map_of (bus_handlers b) t") (simp_all add: subscribe_def bus_ok_fresh, simp add: bus_ok_def)

lemma bus_ok_unsubscribe: "bus_ok b \<Longrightarrow> bus_ok (unsubscribe t h b)"
  by (cases "map_of (bus_handlers b) t") (simp_all add: unsubscribe_def bus_ok_fresh)

lemma length_py_last: "0 < n \<Longrightarrow> length (py_last n xs) = min (length xs) (nat n)"
  by (simp add: py_last_def)

lemma log_ok_primitives:
  "log_ok b \<Longrightarrow> log_ok (bus_note es b)" "log_ok b \<Longrightarrow> log_ok (subscribe t h b)"
  "log_ok b \<Longrightarrow> log_ok (unsubscribe t h b)" "log_ok (append_log d b)"
  by (simp_all add: log_ok_def bus_note_def subscribe_def unsubscribe_def append_log_def Let_def length_py_last
      split: option.splits)

lemma reachable_ok: "reachable react rd b \<Longrightarrow> bus_ok b \<and> log_ok b"
proof (induction rule: reachable.induct)
  case (publish b f e b')
  have "bus_ok b'"
    by (rule publish_keeps [THEN conjunct1, rule_format, of bus_ok, OF _ _ _ _ publish(2)])
      (simp_all add: publish bus_ok_subscribe bus_ok_unsubscribe)
  moreover have "log_ok b'"
    by (rule publish_keeps [THEN conjunct1, rule_format, of log_ok, OF _ _ _ _ publish(2)])
      (simp_all add: publish log_ok_primitives)
  ultimately show ?case by simp
qed (simp_all add: log_ok_primitives bus_ok_subscribe bus_ok_unsubscribe,
     simp_all add: bus_ok_def log_ok_def new_bus_def bus_connect_def bus_disconnect_def)

section \<open>Delivery\<close>

definition handlers_of :: "EventType \<Rightarrow> ('h, 'd) EventBus \<Rightarrow> 'h list" where
  "handlers_of t b = (case map_of (bus_handlers b) t of None \<Rightarrow> [] | Some r \<Rightarrow> bus_lists b ! r)"

text \<open>A handler that neither publishes nor subscribes for the type it is handling.\<close>

definition calm_call :: "EventType \<Rightarrow> ('h, 'd) bus_call \<Rightarrow> bool" where
  "calm_call t c = (case c of Subscribe u h \<Rightarrow> u \<noteq> t | Unsubscribe u h \<Rightarrow> True | Emit u d src now \<Rightarrow> False)"

definition loop_ok :: "EventType \<Rightarrow> nat \<Rightarrow> ('h, 'd) EventBus \<Rightarrow> bool" where
  "loop_ok t ref b \<longleftrightarrow> bus_ok b \<and> ref < length (bus_lists b)
     \<and> (\<forall>u. map_of (bus_handlers b) u = Some ref \<longrightarrow> u = t)"

definition same_rest :: "nat \<Rightarrow> ('h, 'd) EventBus \<Rightarrow> ('h, 'd) EventBus \<Rightarrow> bool" where
  "same_rest ref b b' \<longleftrightarrow> bus_lists b' ! ref = bus_lists b ! ref \<and> bus_log b' = bus_log b
     \<and> bus_redis b' = bus_redis b \<and> bus_max b' = bus_max b"

lemma calm_subscribe:
  assumes "loop_ok t ref b" "u \<noteq> t"
  shows "loop_ok t ref (subscribe u h b) \<and> same_rest ref b (subscribe u h b)
    \<and> bus_trace (subscribe u h b) = bus_trace b"
proof (cases "map_of (bus_handlers b) u")
  case None
  then show ?thesis using assms bus_ok_subscribe [of b u h]
    by (auto simp: loop_ok_def same_rest_def subscribe_def nth_append)
next
  case (Some r)
  then have "r \<noteq> ref" using assms by (auto simp: loop_ok_def)
  then show ?thesis using Some assms bus_ok_subscribe [of b u h]
    by (auto simp: loop_ok_def same_rest_def subscribe_def)
qed

lemma calm_unsubscribe:
  assumes "loop_ok t ref b"
  shows "loop_ok t ref (unsubscribe u h b) \<and> same_rest ref b (unsubscribe u h b)
    \<and> bus_trace (unsubscribe u h b) = bus_trace b"
  using assms bus_ok_unsubscribe [of b u h]
  by (auto simp: loop_ok_def same_rest_def unsubscribe_def nth_append split: option.splits)

lemma perform_calm:
  assumes "loop_ok t ref b" "\<forall>c\<in>set cs. calm_call t c" "length cs \<le> f"
  shows "\<exists>b'. perform react rd f cs b = Some b' \<and> loop_ok t ref b' \<and> same_rest ref b b' \<and> bus_trace b' = bus_trace b"
  using assms
proof (induction cs arbitrary: b f)
  case Nil
  then show ?case by (simp add: same_rest_def)
next
  case (Cons c cs)
  then obtain g where g: "f = Suc g" "length cs \<le> g" by (cases f) auto
  obtain b1 where b1: "loop_ok t ref b1" "same_rest ref b b1" "bus_trace b1 = bus_trace b"
    "perform react rd f (c # cs) b = perform react rd g cs b1"
  proof (cases c)
    case (Subscribe u h)
    then have "u \<noteq> t" using Cons.prems(2) by (simp add: calm_call_def)
    then show thesis using calm_subscribe [OF Cons.prems(1), of u h] that [of "subscribe u h b"] Subscribe
      by (simp add: g perform_Suc)
  next
    case (Unsubscribe u h)
    then show thesis using calm_unsubscribe [OF Cons.prems(1), of u h] that [of "unsubscribe u h b"]
      by (simp add: g perform_Suc)
  next
    case (Emit u d src now)
    then show thesis using Cons.prems(2) by (simp add: calm_call_def)
  qed
  obtain b' where "perform react rd g cs b1 = Some b'" "loop_ok t ref b'" "same_rest ref b1 b'" "bus_trace b' = bus_trace b1"
    using Cons.IH [OF b1(1) _ g(2)] Cons.prems(2) by auto
  then show ?case using b1 by (auto simp: same_rest_def)
qed

definition delivery :: "('h, 'd) reaction \<Rightarrow> 'd Event \<Rightarrow> 'h \<Rightarrow> ('h, 'd) bus_effect list" where
  "delivery react e h = Called h (to_dict e) # handler_metrics e (snd (react h (to_dict e)))"

lemma note_rest [simp]:
  "loop_ok t ref (bus_note es b) = loop_ok t ref b" "bus_lists (bus_note es b) = bus_lists b"
  "same_rest ref (bus_note es b) b' = same_rest ref b b'" "same_rest ref b (bus_note es b') = same_rest ref b b'"
  "bus_trace (bus_note es b) = bus_trace b @ es" "bus_handlers (bus_note es b) = bus_handlers b"
  "bus_log (bus_note es b) = bus_log b" "bus_redis (bus_note es b) = bus_redis b" "bus_max (bus_note es b) = bus_max b"
  by (simp_all add: loop_ok_def same_rest_def bus_note_def bus_ok_def)

lemma deliver_calm:
  assumes "loop_ok t ref b" "bus_lists b ! ref = hs" "t = ev_type e"
    and "\<forall>h\<in>set hs. (\<forall>c\<in>set (fst (react h (to_dict e))). calm_call t c) \<and> length (fst (react h (to_dict e))) \<le> m"
    and "length hs - i + m < f"
  shows "\<exists>b'. deliver react rd f ref i e b = Some b' \<and> same_rest ref b b'
    \<and> bus_trace b' = bus_trace b @ concat (map (delivery react e) (drop i hs))"
  using assms
proof (induction "length hs - i" arbitrary: i b f)
  case 0
  then show ?case by (cases f) (simp_all add: deliver_Suc same_rest_def)
next
  case (Suc n)
  obtain g where g: "f = Suc g" using Suc.prems(5) by (cases f) auto
  have i: "i < length hs" "n = length hs - Suc i" using Suc.hyps(2) by simp_all
  let ?h = "hs ! i"
  have h: "\<forall>c\<in>set (fst (react ?h (to_dict e))). calm_call t c" "length (fst (react ?h (to_dict e))) \<le> m"
    using bspec [OF Suc.prems(4) nth_mem [OF i(1)]] by blast+
  have mg: "length (fst (react ?h (to_dict e))) \<le> g" using h(2) Suc.prems(5) g i by linarith
  obtain b1 where b1: "perform react rd g (fst (react ?h (to_dict e))) (bus_note [Called ?h (to_dict e)] b) = Some b1"
    "loop_ok t ref b1" "same_rest ref b b1" "bus_trace b1 = bus_trace b @ [Called ?h (to_dict e)]"
    using perform_calm [of t ref "bus_note [Called ?h (to_dict e)] b", OF _ h(1) mg] Suc.prems(1) by auto
  let ?b = "bus_note (handler_metrics e (snd (react ?h (to_dict e)))) b1"
  have "bus_lists ?b ! ref = hs" using b1(3) Suc.prems(2) by (simp add: same_rest_def)
  then obtain b' where b': "deliver react rd g ref (Suc i) e ?b = Some b'" "same_rest ref ?b b'"
    "bus_trace b' = bus_trace ?b @ concat (map (delivery react e) (drop (Suc i) hs))"
    using Suc.hyps(1) [OF i(2), of ?b g] Suc.prems(3-5) b1(2) g i by fastforce
  have "deliver react rd f ref i e b = Some b'"
    using i(1) b1(1) b'(1) Suc.prems(2) by (simp add: g deliver_Suc)
  moreover have "drop i hs = ?h # drop (Suc i) hs" using i(1) by (simp add: Cons_nth_drop_Suc)
  ultimately show ?case using b1(3,4) b'(2,3) by (auto simp: same_rest_def delivery_def)
qed

section \<open>What a publication does\<close>

text \<open>
  Every handler hears an event once: \<open>publish\<close> ends, and it calls exactly the handlers that were
  subscribed for the type when it started, once each and in the order of subscription, also when
  handlers raise (each raise is counted) or unsubscribe one another meanwhile; then
  the event goes to Redis if it is connected and to the log.  The handlers must not publish or
  subscribe for the type they are handling.
\<close>

theorem handlers_called_once:
  assumes "reachable react rd b"
    and calm: "\<forall>h\<in>set (handlers_of (ev_type e) b). \<forall>c\<in>set (fst (react h (to_dict e))). calm_call (ev_type e) c"
  shows "\<exists>b' m. (\<forall>f\<ge>m. publish react rd f e b = Some b')
    \<and> bus_trace b' = bus_trace b @ BusCounter ''event_bus.published'' (event_type_value (ev_type e))
        # concat (map (delivery react e) (handlers_of (ev_type e) b)) @ redis_part rd e b
    \<and> bus_log b' = bus_log (append_log (to_dict e) b)"
proof -
  let ?b1 = "bus_note [BusCounter ''event_bus.published'' (event_type_value (ev_type e))] b"
  let ?hs = "handlers_of (ev_type e) b"
  have fin: "bus_trace (finish_publish rd e b') = bus_trace b' @ redis_part rd e b'"
      "bus_log (finish_publish rd e b') = bus_log (append_log (to_dict e) b')" for b' :: "('a, 'b) EventBus"
    by (simp_all add: finish_publish_def append_log_def Let_def)
  have rest: "redis_part rd e b' = redis_part rd e b"
      "bus_log (append_log d b') = bus_log (append_log d b)" if "same_rest ref b b'" for b' ref and d :: "'b EventDict"
    using that by (simp_all add: same_rest_def redis_part_def append_log_def Let_def)
  have ok: "bus_ok b" using reachable_ok [OF assms(1)] by simp
  show ?thesis
  proof (cases "map_of (bus_handlers b) (ev_type e)")
    case None
    have same: "same_rest 0 b ?b1" by (simp add: same_rest_def)
    have "publish react rd f e b = Some (finish_publish rd e ?b1)" if "Suc 0 \<le> f" for f
      using that None by (cases f) (simp_all add: publish_Suc)
    moreover have "?hs = []" by (simp add: handlers_of_def None)
    ultimately show ?thesis using fin [of ?b1] rest [OF same] by fastforce
  next
    case (Some ref)
    have hs: "bus_lists ?b1 ! ref = ?hs" by (simp add: handlers_of_def Some)
    have loop: "loop_ok (ev_type e) ref ?b1" using ok Some by (auto simp: loop_ok_def bus_ok_def)
    define m where "m = (\<Sum>h\<leftarrow>?hs. length (fst (react h (to_dict e))))"
    have m: "\<forall>h\<in>set ?hs. (\<forall>c\<in>set (fst (react h (to_dict e))). calm_call (ev_type e) c)
        \<and> length (fst (react h (to_dict e))) \<le> m"
      using calm by (auto simp: m_def intro: member_le_sum_list)
    have ex: "\<exists>b'. deliver react rd f ref 0 e ?b1 = Some b' \<and> same_rest ref ?b1 b'
        \<and> bus_trace b' = bus_trace ?b1 @ concat (map (delivery react e) ?hs)" if "length ?hs + m < f" for f
      using deliver_calm [where e = e and react = react, OF loop hs refl m, of 0 f rd] that by simp
    obtain b' where b': "deliver react rd (Suc (length ?hs + m)) ref 0 e ?b1 = Some b'" "same_rest ref ?b1 b'"
        "bus_trace b' = bus_trace ?b1 @ concat (map (delivery react e) ?hs)"
      using ex by blast
    have pub: "publish react rd (Suc (Suc (length ?hs + m))) e b = Some (finish_publish rd e b')"
      using b'(1) Some by (simp add: publish_Suc Let_def)
    have same: "same_rest ref b b'" using b'(2) by simp
    show ?thesis
    proof (intro exI conjI allI impI)
      show "publish react rd f e b = Some (finish_publish rd e b')" if "Suc (Suc (length ?hs + m)) \<le> f" for f
        by (rule publish_more_fuel [OF pub that])
    qed (use fin [of b'] rest [OF same] b'(3) in simp_all)
  qed
qed

definition sample_react :: "(nat, unit) reaction" where
  "sample_react h d = (if h = 1 then ([Unsubscribe ORDER_FILLED 2], True) else ([], False))"

definition sample_bus :: "(nat, unit) EventBus" where
  "sample_bus = subscribe ORDER_FILLED 2 (subscribe ORDER_FILLED 1 (new_bus ''redis'' 10))"

lemma sample_reachable: "reachable react rd sample_bus"
  unfolding sample_bus_def by (intro reachable.intros)

lemma sample_handlers: "handlers_of ORDER_FILLED sample_bus = [1, 2]"
  by (simp add: handlers_of_def sample_bus_def subscribe_def new_bus_def)

lemma last_py_last:
  assumes "xs \<noteq> []" "0 < n"
  shows "py_last n xs \<noteq> [] \<and> last (py_last n xs) = last xs"
proof -
  have "length xs - nat n < length xs" using assms by (cases xs) auto
  then show ?thesis using assms(2) by (simp add: py_last_def)
qed

text \<open>
  The log keeps the latest events: with a positive \<open>max_log_size\<close> it never holds more events than
  that, whatever the handlers publish meanwhile, and after a publication the event is
  the newest one of the log and of the recent events of its type.
\<close>

theorem log_bounded_and_latest:
  assumes "reachable react rd b" "publish react rd f e b = Some b'" "0 < bus_max b" "0 < limit"
  shows "int (length (bus_log b')) \<le> bus_max b \<and> bus_log b' \<noteq> [] \<and> last (bus_log b') = to_dict e
    \<and> length (get_recent_events (Some (ev_type e)) limit b') \<le> nat limit
    \<and> get_recent_events (Some (ev_type e)) limit b' \<noteq> []
    \<and> last (get_recent_events (Some (ev_type e)) limit b') = to_dict e"
proof -
  have max_b': "bus_max b' = bus_max b"
    by (rule publish_keeps [THEN conjunct1, rule_format, of "\<lambda>x. bus_max x = bus_max b", OF _ _ _ _ assms(2)])
      (auto simp: subscribe_def unsubscribe_def append_log_def Let_def split: option.splits)
  have "log_ok b'" using reachable_ok [OF reachable.publish [OF assms(1,2)]] by simp
  then have len: "int (length (bus_log b')) \<le> bus_max b" using assms(3) max_b' by (simp add: log_ok_def)
  obtain b1 where b1: "b' = finish_publish rd e b1"
    using assms(2) by (cases f) (auto simp: publish_Suc Let_def split: option.splits)
  have "bus_max b1 = bus_max b" using max_b' by (simp add: b1 finish_publish_def append_log_def Let_def)
  then have log: "bus_log b' \<noteq> [] \<and> last (bus_log b') = to_dict e"
    using assms(3) last_py_last [of "bus_log b1 @ [to_dict e]" "bus_max b"]
    by (simp add: b1 finish_publish_def append_log_def Let_def)
  let ?ev = "filter (\<lambda>d. ed_type d = event_type_value (ev_type e)) (bus_log b')"
  obtain l where l: "bus_log b' = l @ [to_dict e]" using log by (metis append_butlast_last_id)
  have "?ev \<noteq> [] \<and> last ?ev = to_dict e" by (simp add: l to_dict_def)
  then show ?thesis
    using len log last_py_last [of ?ev limit] length_py_last [of limit ?ev] assms(4)
    by (simp add: get_recent_events_def)
qed

text \<open>The slice \<open>[-0:]\<close> is the whole list: a limit of 0 returns every event, and a log of size 0 grows.\<close>

lemma recent_events_limit_0: "get_recent_events None 0 b = bus_log b"
  by (simp add: get_recent_events_def py_last_def)

lemma log_of_size_0_grows: "bus_max b = 0 \<Longrightarrow> bus_log (append_log d b) = bus_log b @ [d]"
  by (simp add: append_log_def py_last_def Let_def)

lemma deliver_resubscribing:
  assumes "map_of (bus_handlers b) (ev_type e) = Some ref" "ref < length (bus_lists b)"
    and "set (bus_lists b ! ref) \<subseteq> H" "i < length (bus_lists b ! ref)"
    and "\<forall>h\<in>H. \<exists>h'\<in>H. fst (react h (to_dict e)) = [Subscribe (ev_type e) h']"
  shows "deliver react rd f ref i e b = None"
  using assms(1-4)
proof (induction f arbitrary: i b)
  case 0
  then show ?case by simp
next
  case (Suc f)
  let ?h = "bus_lists b ! ref ! i" and ?L = "bus_lists b ! ref"
  have "?h \<in> H" using Suc.prems(3,4) by (auto dest: nth_mem)
  then obtain h' where h': "h' \<in> H" "fst (react ?h (to_dict e)) = [Subscribe (ev_type e) h']"
    using assms(5) by blast
  let ?b = "bus_note [Called ?h (to_dict e)] b"
  show ?case
  proof (cases f)
    case 0
    then show ?thesis using Suc.prems(4) h'(2) by (simp add: deliver_Suc)
  next
    case (Suc g)
    let ?b2 = "bus_note (handler_metrics e (snd (react ?h (to_dict e)))) (subscribe (ev_type e) h' ?b)"
    have lists: "bus_lists (subscribe (ev_type e) h' ?b) ! ref = ?L @ [h']"
      "bus_handlers (subscribe (ev_type e) h' ?b) = bus_handlers b"
      "length (bus_lists (subscribe (ev_type e) h' ?b)) = length (bus_lists b)"
      using Suc.prems(1,2) by (simp_all add: subscribe_def)
    have "deliver react rd f ref (Suc i) e ?b2 = None"
      by (rule Suc.IH) (use Suc.prems h'(1) lists in auto)
    then show ?thesis using Suc.prems(4) h'(2) by (simp add: deliver_Suc perform_Suc \<open>f = Suc g\<close>)
  qed
qed

text \<open>
  C27.  A handler that subscribes again while it handles an event hears the same event again: the list that
  \<open>publish\<close> walks over grows as fast as it is read.  When every handler of a type answers the event with
  such a subscription, \<open>publish\<close> never returns.
\<close>

theorem resubscribing_never_ends:
  assumes "reachable react rd b" "handlers_of (ev_type e) b \<noteq> []" "set (handlers_of (ev_type e) b) \<subseteq> H"
    and "\<forall>h\<in>H. \<exists>h'\<in>H. fst (react h (to_dict e)) = [Subscribe (ev_type e) h']"
  shows "publish react rd f e b = None"
proof (cases f)
  case (Suc g)
  obtain ref where ref: "map_of (bus_handlers b) (ev_type e) = Some ref" "handlers_of (ev_type e) b = bus_lists b ! ref"
    using assms(2) by (auto simp: handlers_of_def split: option.splits)
  have "ref < length (bus_lists b)" using reachable_ok [OF assms(1)] ref(1) by (simp add: bus_ok_def)
  then have "deliver react rd g ref 0 e (bus_note [BusCounter ''event_bus.published'' (event_type_value (ev_type e))] b) = None"
    by (intro deliver_resubscribing [where H = H]) (use ref assms(2-4) in simp_all)
  then show ?thesis using ref(1) by (simp add: Suc publish_Suc Let_def)
qed simp

theorem resubscribing_never_ends_witness:
  "publish (\<lambda>h d. ([Subscribe ORDER_FILLED h], False)) (\<lambda>d. True) 50 (new_event ORDER_FILLED None ''engine'' ''t'') sample_bus = None"
  using resubscribing_never_ends [of "\<lambda>h d. ([Subscribe ORDER_FILLED h], False)" "\<lambda>d. True" sample_bus
      "new_event ORDER_FILLED None ''engine'' ''t''" UNIV 50] sample_reachable sample_handlers
  by (simp add: new_event_def)

end
