(* ===== verification/RiskLimits.thy ===== *)
theory RiskLimits
  imports Prelude
begin

text \<open>
  The pre-trade limits of \<open>engine/core/risk_limits.py\<close>: the validated inputs, and the gate with
  its daily-loss circuit breaker and its rolling window of approved orders.

  The constructors take \<open>py_float\<close> values, which may be infinite or NaN, and refuse those; what they
  store are finite floats, so the gate itself computes on \<open>rat\<close> with the rounding of binary64.
  The gate works under a lock: one check is one step.
\<close>

section \<open>Validated inputs\<close>

datatype py_float = Finite rat | NotFinite

datatype limits_error =
  MustBeFinite string
| NegativeNotional rat
| BadSide string
| NegativeTotalValue rat

definition require_finite :: "py_float \<Rightarrow> string \<Rightarrow> limits_error + rat" where
  "require_finite v label = (case v of Finite x \<Rightarrow> Inr x | NotFinite \<Rightarrow> Inl (MustBeFinite label))"

fun freeze_mapping :: "string \<Rightarrow> (string, py_float) dict \<Rightarrow> limits_error + (string, rat) dict" where
  "freeze_mapping name [] = Inr []"
| "freeze_mapping name ((k, v) # kvs) =
     (case require_finite v (name @ ''['' @ k @ '']'') of
        Inl e \<Rightarrow> Inl e
      | Inr f \<Rightarrow> (case freeze_mapping name kvs of Inl e \<Rightarrow> Inl e | Inr m \<Rightarrow> Inr ((k, f) # m)))"

record OrderIntent =
  oi_symbol :: string
  oi_side :: string
  oi_notional :: rat
  oi_sector :: string
  oi_asset_class :: string

definition new_intent :: "string \<Rightarrow> string \<Rightarrow> py_float \<Rightarrow> string \<Rightarrow> string \<Rightarrow> limits_error + OrderIntent" where
  "new_intent symb sd notional sector asset_class =
     (case require_finite notional ''OrderIntent.notional'' of
        Inl e \<Rightarrow> Inl e
      | Inr n \<Rightarrow>
          if n < 0 then Inl (NegativeNotional n)
          else if sd \<notin> {''buy'', ''sell''} then Inl (BadSide sd)
          else Inr \<lparr>oi_symbol = symb, oi_side = sd, oi_notional = n, oi_sector = sector,
                 oi_asset_class = asset_class\<rparr>)"

record AccountState =
  acct_cash :: rat
  acct_total_value :: rat
  acct_daily_pnl :: rat
  acct_exposures :: "(string, rat) dict"
  acct_sector_exposures :: "(string, rat) dict"
  acct_asset_class_exposures :: "(string, rat) dict"

definition new_account ::
  "py_float \<Rightarrow> py_float \<Rightarrow> py_float \<Rightarrow> (string, py_float) dict \<Rightarrow> (string, py_float) dict \<Rightarrow> (string, py_float) dict
     \<Rightarrow> limits_error + AccountState" where
  "new_account cash tv pnl ex sec ac =
     (case require_finite cash ''AccountState.cash'' of Inl e \<Rightarrow> Inl e | Inr cash' \<Rightarrow>
      case require_finite tv ''AccountState.total_value'' of Inl e \<Rightarrow> Inl e | Inr tv' \<Rightarrow>
      case require_finite pnl ''AccountState.daily_pnl'' of Inl e \<Rightarrow> Inl e | Inr pnl' \<Rightarrow>
      if tv' < 0 then Inl (NegativeTotalValue tv')
      else case freeze_mapping ''exposures'' ex of Inl e \<Rightarrow> Inl e | Inr ex' \<Rightarrow>
        case freeze_mapping ''sector_exposures'' sec of Inl e \<Rightarrow> Inl e | Inr sec' \<Rightarrow>
        case freeze_mapping ''asset_class_exposures'' ac of Inl e \<Rightarrow> Inl e | Inr ac' \<Rightarrow>
        Inr \<lparr>acct_cash = cash', acct_total_value = tv', acct_daily_pnl = pnl', acct_exposures = ex',
          acct_sector_exposures = sec', acct_asset_class_exposures = ac'\<rparr>)"

record RiskLimits =
  max_single_order_notional :: "rat option"
  max_position_notional :: "(string, rat) dict"
  max_sector_concentration_pct :: "(string, rat) dict"
  max_asset_class_concentration_pct :: "(string, rat) dict"
  max_orders_per_window :: "int option"
  velocity_window_seconds :: rat
  max_daily_loss :: "rat option"

definition require_finite_opt :: "py_float option \<Rightarrow> string \<Rightarrow> limits_error + rat option" where
  "require_finite_opt v label = (case v of None \<Rightarrow> Inr None
     | Some x \<Rightarrow> (case require_finite x label of Inl e \<Rightarrow> Inl e | Inr y \<Rightarrow> Inr (Some y)))"

definition new_limits ::
  "py_float option \<Rightarrow> (string, py_float) dict \<Rightarrow> (string, py_float) dict \<Rightarrow> (string, py_float) dict \<Rightarrow> int option \<Rightarrow> py_float
     \<Rightarrow> py_float option \<Rightarrow> limits_error + RiskLimits" where
  "new_limits single pos sec ac n w loss =
     (case require_finite_opt single ''max_single_order_notional'' of Inl e \<Rightarrow> Inl e | Inr single' \<Rightarrow>
      case require_finite_opt loss ''max_daily_loss'' of Inl e \<Rightarrow> Inl e | Inr loss' \<Rightarrow>
      case require_finite w ''velocity_window_seconds'' of Inl e \<Rightarrow> Inl e | Inr w' \<Rightarrow>
      case freeze_mapping ''max_position_notional'' pos of Inl e \<Rightarrow> Inl e | Inr pos' \<Rightarrow>
      case freeze_mapping ''max_sector_concentration_pct'' sec of Inl e \<Rightarrow> Inl e | Inr sec' \<Rightarrow>
      case freeze_mapping ''max_asset_class_concentration_pct'' ac of Inl e \<Rightarrow> Inl e | Inr ac' \<Rightarrow>
      Inr \<lparr>max_single_order_notional = single', max_position_notional = pos',
        max_sector_concentration_pct = sec', max_asset_class_concentration_pct = ac',
        max_orders_per_window = n, velocity_window_seconds = w', max_daily_loss = loss'\<rparr>)"

section \<open>The gate\<close>

record RiskDecision =
  rd_approved :: bool
  rd_breached :: "string list"
  rd_warnings :: "string list"

record LimitGate =
  lg_limits :: RiskLimits
  lg_timestamps :: "rat list"
  lg_tripped :: bool

definition new_limit_gate :: "RiskLimits \<Rightarrow> LimitGate" where
  "new_limit_gate limits = \<lparr>lg_limits = limits, lg_timestamps = [], lg_tripped = False\<rparr>"

definition reset_limit_breaker :: "LimitGate \<Rightarrow> LimitGate" where
  "reset_limit_breaker g = g\<lparr>lg_tripped := False\<rparr>"

text \<open>\<open>d.get(k, 0.0)\<close>.\<close>

definition exposure :: "(string, rat) dict \<Rightarrow> string \<Rightarrow> rat" where
  "exposure d k = (case map_of d k of None \<Rightarrow> 0 | Some x \<Rightarrow> x)"

definition loss_reached :: "RiskLimits \<Rightarrow> AccountState \<Rightarrow> bool" where
  "loss_reached limits st = (case max_daily_loss limits of None \<Rightarrow> False | Some m \<Rightarrow> acct_daily_pnl st \<le> - m)"

definition breaker_breach :: "LimitGate \<Rightarrow> AccountState \<Rightarrow> string list" where
  "breaker_breach g st =
     (if lg_tripped g then [''circuit_breaker'']
      else if loss_reached (lg_limits g) st then [''daily_loss''] else [])"

definition single_breach :: "RiskLimits \<Rightarrow> OrderIntent \<Rightarrow> string list" where
  "single_breach limits x = (case max_single_order_notional limits of None \<Rightarrow> []
     | Some m \<Rightarrow> if m < oi_notional x then [''single_order_notional''] else [])"

definition position_breach :: "RiskLimits \<Rightarrow> OrderIntent \<Rightarrow> AccountState \<Rightarrow> string list" where
  "position_breach limits x st =
     (if oi_side x = ''buy''
      then case map_of (max_position_notional limits) (oi_symbol x) of None \<Rightarrow> []
        | Some cap \<Rightarrow> if cap < fadd (exposure (acct_exposures st) (oi_symbol x)) (oi_notional x)
                    then [''position_notional['' @ oi_symbol x @ '']''] else []
      else [])"

definition concentration_breach ::
  "string \<Rightarrow> (string, rat) dict \<Rightarrow> (string, rat) dict \<Rightarrow> string \<Rightarrow> OrderIntent \<Rightarrow> AccountState \<Rightarrow> string list" where
  "concentration_breach label caps exposures k x st =
     (case map_of caps k of None \<Rightarrow> []
      | Some cap \<Rightarrow> if cap < fdiv (fadd (exposure exposures k) (oi_notional x)) (acct_total_value st)
                  then [label @ ''['' @ k @ '']''] else [])"

definition concentration_breaches :: "RiskLimits \<Rightarrow> OrderIntent \<Rightarrow> AccountState \<Rightarrow> string list" where
  "concentration_breaches limits x st =
     (if 0 < acct_total_value st
      then concentration_breach ''sector_concentration'' (max_sector_concentration_pct limits)
             (acct_sector_exposures st) (oi_sector x) x st
         @ concentration_breach ''asset_class_concentration'' (max_asset_class_concentration_pct limits)
             (acct_asset_class_exposures st) (oi_asset_class x) x st
      else [])"

definition check_limits :: "OrderIntent \<Rightarrow> AccountState \<Rightarrow> rat \<Rightarrow> LimitGate \<Rightarrow> RiskDecision \<times> LimitGate" where
  "check_limits x st now g =
     (let limits = lg_limits g;
          g1 = (if \<not> lg_tripped g \<and> loss_reached limits st then g\<lparr>lg_tripped := True\<rparr> else g);
          breaches = breaker_breach g st @ single_breach limits x @ position_breach limits x st
            @ concentration_breaches limits x st
      in case max_orders_per_window limits of
           None \<Rightarrow> (\<lparr>rd_approved = (breaches = []), rd_breached = breaches, rd_warnings = []\<rparr>, g1)
         | Some n \<Rightarrow>
             let window_start = fsub now (velocity_window_seconds limits);
                 stamps = filter (\<lambda>t. window_start \<le> t) (lg_timestamps g1);
                 all_breaches = breaches @ (if n \<le> int (length stamps) then [''velocity''] else []);
                 approved = (all_breaches = [])
             in (\<lparr>rd_approved = approved, rd_breached = all_breaches, rd_warnings = []\<rparr>,
                 g1\<lparr>lg_timestamps := (if approved then stamps @ [now] else stamps)\<rparr>))"

section \<open>Verdicts\<close>

text \<open>The limits as a contract.\<close>

definition below :: "rat \<Rightarrow> rat option \<Rightarrow> bool" where
  "below v cap = (case cap of None \<Rightarrow> True | Some c \<Rightarrow> v \<le> c)"

definition within_limits :: "RiskLimits \<Rightarrow> OrderIntent \<Rightarrow> AccountState \<Rightarrow> bool" where
  "within_limits limits x st \<longleftrightarrow>
     below (oi_notional x) (max_single_order_notional limits)
     \<and> (oi_side x = ''buy'' \<longrightarrow> below (fadd (exposure (acct_exposures st) (oi_symbol x)) (oi_notional x))
          (map_of (max_position_notional limits) (oi_symbol x)))
     \<and> (0 < acct_total_value st \<longrightarrow>
          below (fdiv (fadd (exposure (acct_sector_exposures st) (oi_sector x)) (oi_notional x)) (acct_total_value st))
            (map_of (max_sector_concentration_pct limits) (oi_sector x))
        \<and> below (fdiv (fadd (exposure (acct_asset_class_exposures st) (oi_asset_class x)) (oi_notional x)) (acct_total_value st))
            (map_of (max_asset_class_concentration_pct limits) (oi_asset_class x)))"

definition window_part :: "LimitGate \<Rightarrow> rat \<Rightarrow> rat list \<Rightarrow> rat list" where
  "window_part g now ts = filter (\<lambda>t. fsub now (velocity_window_seconds (lg_limits g)) \<le> t) ts"

definition velocity_free :: "LimitGate \<Rightarrow> rat \<Rightarrow> bool" where
  "velocity_free g now = (case max_orders_per_window (lg_limits g) of None \<Rightarrow> True
     | Some n \<Rightarrow> int (length (window_part g now (lg_timestamps g))) < n)"

lemma breaches_Nil:
  "breaker_breach g st @ single_breach limits x @ position_breach limits x st @ concentration_breaches limits x st = []
     \<longleftrightarrow> \<not> lg_tripped g \<and> \<not> loss_reached (lg_limits g) st \<and> within_limits limits x st"
  by (auto simp: breaker_breach_def single_breach_def position_breach_def concentration_breaches_def
      concentration_breach_def within_limits_def below_def split: option.splits)

lemma check_limits_approved:
  "rd_approved (fst (check_limits x st now g)) = (\<not> lg_tripped g \<and> \<not> loss_reached (lg_limits g) st
     \<and> within_limits (lg_limits g) x st \<and> velocity_free g now)"
  using breaches_Nil [of g st "lg_limits g" x]
  by (cases "max_orders_per_window (lg_limits g)")
    (simp_all add: check_limits_def Let_def velocity_free_def window_part_def split del: if_split, auto)

lemma check_limits_breached:
  "rd_approved (fst (check_limits x st now g)) = (rd_breached (fst (check_limits x st now g)) = [])"
  by (cases "max_orders_per_window (lg_limits g)") (simp_all add: check_limits_def Let_def)

lemma check_limits_state [simp]:
  "lg_limits (snd (check_limits x st now g)) = lg_limits g"
  "lg_tripped (snd (check_limits x st now g)) = (lg_tripped g \<or> loss_reached (lg_limits g) st)"
  by (auto simp: check_limits_def Let_def split: option.splits)

lemma check_limits_stamps:
  "lg_timestamps (snd (check_limits x st now g)) =
     (if max_orders_per_window (lg_limits g) = None then lg_timestamps g
      else window_part g now (lg_timestamps g) @ (if rd_approved (fst (check_limits x st now g)) then [now] else []))"
  by (auto simp: check_limits_def Let_def window_part_def split: option.splits)

text \<open>
  The limit gate reports completely: an order is approved exactly when the breaker has not tripped,
  the daily loss is not reached, every configured limit holds (order size, position after a
  purchase, sector and asset-class share) and the window has room; what it reports as breached is
  empty exactly then, and the breaker is tripped afterwards when it was or the loss is reached.
\<close>

theorem limit_gate_verdict:
  "rd_approved (fst (check_limits x st now g)) = (\<not> lg_tripped g \<and> \<not> loss_reached (lg_limits g) st
     \<and> within_limits (lg_limits g) x st \<and> velocity_free g now)
   \<and> rd_approved (fst (check_limits x st now g)) = (rd_breached (fst (check_limits x st now g)) = [])
   \<and> lg_tripped (snd (check_limits x st now g)) = (lg_tripped g \<or> loss_reached (lg_limits g) st)"
  by (simp only: check_limits_approved check_limits_breached [symmetric] check_limits_state)

text \<open>
  The sector and asset-class caps do not look at the side of the order: a sale out of a sector that is over its
  cap is refused, although it brings the sector down.
\<close>

lemma sale_refused_over_cap:
  assumes "oi_side x = ''sell''" "0 < acct_total_value st"
    and "map_of (max_sector_concentration_pct (lg_limits g)) (oi_sector x) = Some cap"
    and "cap < fdiv (fadd (exposure (acct_sector_exposures st) (oi_sector x)) (oi_notional x)) (acct_total_value st)"
  shows "\<not> rd_approved (fst (check_limits x st now g))"
  using assms by (simp add: check_limits_approved within_limits_def below_def)

section \<open>Orders in a window\<close>

datatype limit_op = Check OrderIntent AccountState rat | Reset

fun op_times :: "limit_op \<Rightarrow> rat list" where
  "op_times (Check x st now) = [now]"
| "op_times Reset = []"

text \<open>The times at which a run of the gate approves an order.\<close>

fun approvals :: "LimitGate \<Rightarrow> limit_op list \<Rightarrow> rat list" where
  "approvals g [] = []"
| "approvals g (Check x st now # ops) =
     (case check_limits x st now g of (d, g') \<Rightarrow> (if rd_approved d then [now] else []) @ approvals g' ops)"
| "approvals g (Reset # ops) = approvals (reset_limit_breaker g) ops"

lemma fsub_mono: "x \<le> y \<Longrightarrow> fsub x w \<le> fsub y w"
  by (simp add: fsub_def f64.mono)

lemma window_part_later:
  assumes "t \<le> now" "lg_limits g' = lg_limits g"
  shows "window_part g now (window_part g' t ts) = window_part g now ts"
proof -
  have "fsub t w \<le> fsub now w" for w by (rule fsub_mono [OF assms(1)])
  then show ?thesis unfolding window_part_def filter_filter assms(2)
    by (intro filter_cong refl) (blast intro: order_trans)
qed

lemma window_part_append [simp]: "window_part g now (xs @ ys) = window_part g now xs @ window_part g now ys"
  by (simp add: window_part_def)

lemma window_part_check: "window_part (snd (check_limits x st now g)) t ts = window_part g t ts"
  by (simp add: window_part_def)

text \<open>The stored times tell, for every later instant, all the approvals of its window.\<close>

definition knows :: "LimitGate \<Rightarrow> rat list \<Rightarrow> rat \<Rightarrow> bool" where
  "knows g H c \<longleftrightarrow> (\<forall>now\<ge>c. window_part g now (lg_timestamps g) = window_part g now H)"

lemma knows_check:
  assumes "knows g H c" "c \<le> now" "max_orders_per_window (lg_limits g) = Some n"
  shows "knows (snd (check_limits x st now g))
      (H @ (if rd_approved (fst (check_limits x st now g)) then [now] else [])) now"
  unfolding knows_def
proof (intro allI impI)
  fix t assume t: "now \<le> t"
  let ?g = "snd (check_limits x st now g)"
  let ?new = "if rd_approved (fst (check_limits x st now g)) then [now] else []"
  have "window_part ?g t (lg_timestamps ?g) = window_part g t (window_part g now (lg_timestamps g) @ ?new)"
    using assms(3) by (simp add: check_limits_stamps window_part_check)
  also have "\<dots> = window_part g t (lg_timestamps g) @ window_part g t ?new"
    using window_part_later [OF t refl, of g] by simp
  also have "window_part g t (lg_timestamps g) = window_part g t H"
    using assms(1,2) t by (simp add: knows_def)
  finally show "window_part ?g t (lg_timestamps ?g) = window_part ?g t (H @ ?new)"
    by (simp add: window_part_check)
qed

lemma approvals_capped:
  assumes "knows g H c" "max_orders_per_window (lg_limits g) = Some n"
    and "sorted (c # concat (map op_times ops))" "length H \<le> i" "i < length (H @ approvals g ops)"
  shows "int (length (window_part g ((H @ approvals g ops) ! i) (take (Suc i) (H @ approvals g ops)))) \<le> n"
  using assms
proof (induction ops arbitrary: g H c)
  case Nil
  then show ?case by simp
next
  case (Cons op ops)
  show ?case
  proof (cases op)
    case Reset
    have "knows (reset_limit_breaker g) H c"
      using Cons.prems(1) by (simp add: knows_def reset_limit_breaker_def window_part_def)
    then have "int (length (window_part (reset_limit_breaker g)
        ((H @ approvals (reset_limit_breaker g) ops) ! i) (take (Suc i) (H @ approvals (reset_limit_breaker g) ops)))) \<le> n"
      using Cons.prems(2-5) by (intro Cons.IH) (simp_all add: Reset reset_limit_breaker_def del: sorted_wrt.simps)
    then show ?thesis by (simp add: Reset window_part_def reset_limit_breaker_def)
  next
    case (Check x st now)
    let ?d = "fst (check_limits x st now g)" and ?g = "snd (check_limits x st now g)"
    let ?new = "if rd_approved ?d then [now] else []"
    have all: "approvals g (op # ops) = ?new @ approvals ?g ops"
      by (simp add: Check split: prod.splits)
    have now: "c \<le> now" "sorted (now # concat (map op_times ops))" using Cons.prems(3) by (simp_all add: Check)
    note k = knows_check [OF Cons.prems(1) now(1) Cons.prems(2), of x st]
    show ?thesis
    proof (cases "rd_approved ?d \<and> i = length H")
      case True
      have w: "window_part g now (lg_timestamps g) = window_part g now H"
        using Cons.prems(1) now(1) by (simp add: knows_def)
      have "velocity_free g now" using True check_limits_approved [of x st now g] by simp
      then have "int (length (window_part g now H)) < n" using Cons.prems(2) w by (simp add: velocity_free_def)
      moreover have "length (window_part g now [now]) \<le> 1" by (simp add: window_part_def)
      ultimately have "int (length (window_part g now (H @ [now]))) \<le> n" by simp
      then show ?thesis using True all by (simp add: nth_append)
    next
      case False
      then have "length (H @ ?new) \<le> i" using Cons.prems(4) by auto
      then have "int (length (window_part ?g ((H @ approvals g (op # ops)) ! i) (take (Suc i) (H @ approvals g (op # ops))))) \<le> n"
        using Cons.IH [OF k _ now(2)] Cons.prems(2,5) unfolding all by simp
      then show ?thesis by (simp add: window_part_check)
    qed
  qed
qed

text \<open>
  The velocity limit holds over a whole run: with a clock that does not go back, whenever an order is approved, the
  orders approved up to and including it that lie in its window are at most \<open>max_orders_per_window\<close>.
\<close>

theorem velocity_limit_holds:
  assumes "max_orders_per_window limits = Some n"
    and "sorted (concat (map op_times ops))"
    and "approvals (new_limit_gate limits) ops = ts" "i < length ts"
  shows "int (length (filter (\<lambda>t. fsub (ts ! i) (velocity_window_seconds limits) \<le> t) (take (Suc i) ts))) \<le> n"
proof -
  let ?times = "concat (map op_times ops)"
  let ?c = "if ?times = [] then 0 else hd ?times"
  have "sorted (hd ts # ts)" if "sorted ts" "ts \<noteq> []" for ts :: "rat list"
    using that by (cases ts) auto
  then have "sorted (?c # ?times)" using assms(2) by (cases "?times = []") (simp_all only: if_True if_False simp_thms sorted1)
  moreover have "knows (new_limit_gate limits) [] ?c" by (simp add: knows_def new_limit_gate_def)
  ultimately show ?thesis
    using approvals_capped [of "new_limit_gate limits" "[]" ?c n ops i] assms
    by (simp add: new_limit_gate_def window_part_def)
qed

definition sample_limits :: RiskLimits where
  "sample_limits = \<lparr>max_single_order_notional = None, max_position_notional = [], max_sector_concentration_pct = [],
     max_asset_class_concentration_pct = [], max_orders_per_window = Some 1, velocity_window_seconds = 60,
     max_daily_loss = None\<rparr>"

definition sample_intent :: OrderIntent where
  "sample_intent = \<lparr>oi_symbol = ''A'', oi_side = ''buy'', oi_notional = 1, oi_sector = ''s'', oi_asset_class = ''c''\<rparr>"

definition sample_account :: AccountState where
  "sample_account = \<lparr>acct_cash = 0, acct_total_value = 0, acct_daily_pnl = 0, acct_exposures = [],
     acct_sector_exposures = [], acct_asset_class_exposures = []\<rparr>"

end
