(* ===== verification/CapitalAllocation.thy ===== *)
theory CapitalAllocation
  imports Prelude "HOL-Library.List_Lexorder" "HOL-Library.Char_ord" "HOL-Library.Product_Lexorder"
begin

text \<open>
  The apportionment of capital among strategies, \<open>engine/core/capital_allocation.py\<close>: validation, the
  largest-remainder method in whole cents, and the total of an allocation.

  The inputs are Python numbers; \<open>PyFloat\<close> carries the decimal that \<open>str\<close> prints for the
  float, which is all that \<open>_to_decimal\<close> reads of it.  The decimals have 28 digits.  Strings are
  ordered by their characters, as in Python.
\<close>

declare divide_eq_eq_numeral1 [simp del] eq_divide_eq_numeral1 [simp del]

section \<open>Validation\<close>

datatype py_number = PyBool bool | PyInt int | PyFloat rat | PyNonFinite | PyOther

datatype allocation_error =
  NotANumber string
| NumberNotFinite string
| NegativeCapital rat
| NoWeights
| EmptyWeights
| NegativeWeight string rat
| ZeroWeights
| RemainderOutOfRange int
| DecimalInvalidOperation
| IntTooLarge

text \<open>\<open>math.isfinite\<close> converts an \<open>int\<close> to a float first, which fails from \<open>2 ^ 1024 - 2 ^ 970\<close> on.\<close>

definition to_decimal :: "py_number \<Rightarrow> string \<Rightarrow> allocation_error + rat" where
  "to_decimal v name = (case v of
     PyBool b \<Rightarrow> Inl (NotANumber name)
   | PyOther \<Rightarrow> Inl (NotANumber name)
   | PyInt n \<Rightarrow> if 2 ^ 1024 - 2 ^ 970 \<le> \<bar>n\<bar> then Inl IntTooLarge else Inr (of_int n)
   | PyNonFinite \<Rightarrow> Inl (NumberNotFinite name)
   | PyFloat x \<Rightarrow> Inr x)"

fun weights_loop :: "(string, py_number) dict \<Rightarrow> rat \<Rightarrow> allocation_error + (string, rat) dict \<times> rat" where
  "weights_loop [] s = Inr ([], s)"
| "weights_loop ((sid, w) # ws) s =
     (case to_decimal w (''strategy_weights['' @ sid @ '']'') of
        Inl e \<Rightarrow> Inl e
      | Inr d \<Rightarrow>
          if d < 0 then Inl (NegativeWeight sid d)
          else (case weights_loop ws (dadd s d) of
                  Inl e \<Rightarrow> Inl e
                | Inr (m, s') \<Rightarrow> Inr ((sid, d) # m, s')))"

section \<open>Apportionment\<close>

text \<open>\<open>int(x.quantize(Decimal(1), rounding=ROUND_DOWN))\<close>.\<close>

definition quantize_down :: "rat \<Rightarrow> int option" where
  "quantize_down x = (let m = (if 0 \<le> x then \<lfloor>x\<rfloor> else \<lceil>x\<rceil>) in if 10 ^ 28 \<le> \<bar>m\<bar> then None else Some m)"

definition raw_cents :: "int \<Rightarrow> rat \<Rightarrow> rat \<Rightarrow> rat" where
  "raw_cents total_cents weight_sum w = ddiv (dmul (of_int total_cents) w) weight_sum"

text \<open>The floors and the fractions of the strategies, in the order of the weights.\<close>

fun shares :: "int \<Rightarrow> rat \<Rightarrow> (string, rat) dict \<Rightarrow> (string \<times> int \<times> rat) list option" where
  "shares total_cents weight_sum [] = Some []"
| "shares total_cents weight_sum ((sid, w) # ws) =
     (let raw = raw_cents total_cents weight_sum w in
      case quantize_down raw of
        None \<Rightarrow> None
      | Some fl \<Rightarrow> map_option (\<lambda>r. (sid, fl, dsub raw (of_int fl)) # r) (shares total_cents weight_sum ws))"

text \<open>The remaining cents go to the greatest fractions, ties to the smaller id.\<close>

definition ranking :: "(string \<times> int \<times> rat) list \<Rightarrow> string list" where
  "ranking sh = map (fst) (sort_key (\<lambda>(sid, fl, fr). (- fr, sid)) sh)"

definition add_cents :: "string list \<Rightarrow> (string \<times> int \<times> rat) list \<Rightarrow> (string, int) dict" where
  "add_cents winners sh = map (\<lambda>(sid, fl, fr). (sid, if sid \<in> set winners then fl + 1 else fl)) sh"

fun to_amounts :: "(string, int) dict \<Rightarrow> (string, rat) dict option" where
  "to_amounts [] = Some []"
| "to_amounts ((sid, c) # cs) =
     (case quantize 2 (ddiv (of_int c) 100) of
        None \<Rightarrow> None
      | Some a \<Rightarrow> map_option ((#) (sid, a)) (to_amounts cs))"

definition apportion :: "int \<Rightarrow> rat \<Rightarrow> (string, rat) dict \<Rightarrow> allocation_error + (string, rat) dict" where
  "apportion total_cents weight_sum ws =
     (case shares total_cents weight_sum ws of
        None \<Rightarrow> Inl DecimalInvalidOperation
      | Some sh \<Rightarrow>
          let remainder = total_cents - sum_list (map (fst \<circ> snd) sh) in
          if remainder < 0 \<or> int (length ws) < remainder then Inl (RemainderOutOfRange remainder)
          else case to_amounts (add_cents (take (nat remainder) (ranking sh)) sh) of
                 None \<Rightarrow> Inl DecimalInvalidOperation
               | Some a \<Rightarrow> Inr a)"

definition allocate_capital ::
  "py_number \<Rightarrow> (string, py_number) dict option \<Rightarrow> allocation_error + (string, rat) dict" where
  "allocate_capital total_capital strategy_weights =
     (case to_decimal total_capital ''total_capital'' of
        Inl e \<Rightarrow> Inl e
      | Inr capital \<Rightarrow>
          if capital < 0 then Inl (NegativeCapital capital)
          else case strategy_weights of
            None \<Rightarrow> Inl NoWeights
          | Some ws \<Rightarrow>
              if ws = [] then (if 0 < capital then Inl EmptyWeights else Inr [])
              else case weights_loop ws 0 of
                Inl e \<Rightarrow> Inl e
              | Inr (weights, weight_sum) \<Rightarrow>
                  if weight_sum = 0 then Inl ZeroWeights
                  else case quantize_down (dmul capital 100) of
                    None \<Rightarrow> Inl DecimalInvalidOperation
                  | Some total_cents \<Rightarrow> apportion total_cents weight_sum weights)"

definition allocation_total :: "(string, rat) dict \<Rightarrow> rat option" where
  "allocation_total a = quantize 2 (foldl dadd 0 (map snd a))"

section \<open>The amounts\<close>

lemma shares_fst: "shares t s ws = Some sh \<Longrightarrow> map fst sh = map fst ws"
  by (induction ws arbitrary: sh) (auto simp: Let_def split: option.splits)

lemma shares_floor:
  assumes "shares t s ws = Some sh" "(sid, fl, fr) \<in> set sh"
  shows "\<exists>w. (sid, w) \<in> set ws \<and> quantize_down (raw_cents t s w) = Some fl \<and> fr = dsub (raw_cents t s w) (of_int fl)"
  using assms
proof (induction ws arbitrary: sh)
  case (Cons x ws)
  obtain k v where x: "x = (k, v)" by (cases x)
  obtain m r where m: "quantize_down (raw_cents t s v) = Some m" "shares t s ws = Some r"
    "sh = (k, m, dsub (raw_cents t s v) (of_int m)) # r"
    using Cons.prems(1) by (auto simp: x Let_def split: option.splits)
  show ?case
  proof (cases "(sid, fl, fr) \<in> set r")
    case True
    then show ?thesis using Cons.IH [OF m(2)] by auto
  qed (use m Cons.prems(2) x in auto)
qed simp

lemma weights_loop_result:
  "weights_loop ws s = Inr (m, s') \<Longrightarrow> map fst m = map fst ws \<and> (\<forall>d\<in>set (map snd m). 0 \<le> d) \<and> s' = foldl dadd s (map snd m)"
proof (induction ws arbitrary: m s)
  case (Cons x ws)
  obtain sid w where x: "x = (sid, w)" by (cases x)
  obtain d m' where d: "\<not> d < 0" "m = (sid, d) # m'" "weights_loop ws (dadd s d) = Inr (m', s')"
    using Cons.prems by (auto simp: x split: sum.splits if_splits prod.splits)
  show ?case using Cons.IH [OF d(3)] d(1,2) by (simp add: x)
qed simp

lemma quantize_down_nonneg: "quantize_down x = Some m \<Longrightarrow> 0 \<le> x \<Longrightarrow> 0 \<le> m \<and> m = \<lfloor>x\<rfloor> \<and> m < 10 ^ 28"
  by (auto simp: quantize_down_def Let_def split: if_splits)

lemma foldl_dadd_nonneg: "0 \<le> s \<Longrightarrow> \<forall>x\<in>set xs. 0 \<le> x \<Longrightarrow> 0 \<le> foldl dadd s xs"
  by (induction xs arbitrary: s) (auto simp: dadd_def intro: dec.add_nonneg)

lemma raw_cents_nonneg: "0 \<le> t \<Longrightarrow> 0 \<le> s \<Longrightarrow> 0 \<le> w \<Longrightarrow> 0 \<le> raw_cents t s w"
  by (simp add: raw_cents_def dmul_def ddiv_def dec.nonneg)

text \<open>The cents given out: the floors, and one for each winner.\<close>

lemma sum_add_cents:
  assumes "distinct (map fst sh)" "distinct winners" "set winners \<subseteq> set (map fst sh)"
  shows "sum_list (map snd (add_cents winners sh)) = sum_list (map (fst \<circ> snd) sh) + int (length winners)"
proof -
  have "sum_list (map snd (add_cents winners sh)) =
      sum_list (map (fst \<circ> snd) sh) + int (length (filter (\<lambda>sid. sid \<in> set winners) (map fst sh)))" for sh
    by (induction sh) (auto simp: add_cents_def)
  moreover have "length (filter (\<lambda>sid. sid \<in> set winners) (map fst sh)) = length winners"
  proof -
    have "set (filter (\<lambda>sid. sid \<in> set winners) (map fst sh)) = set winners" using assms(3) by auto
    then show ?thesis
      using assms(1,2) distinct_card [of winners] distinct_card [of "filter (\<lambda>sid. sid \<in> set winners) (map fst sh)"]
      by simp
  qed
  ultimately show ?thesis by simp
qed

lemma ranking_perm: "mset (ranking sh) = mset (map fst sh)"
  by (simp add: ranking_def)

lemma to_amounts_exact:
  assumes "\<forall>(sid, c)\<in>set cs. 0 \<le> c \<and> c < 10 ^ 28"
  shows "to_amounts cs = Some (map (\<lambda>(sid, c). (sid, of_int c / 100)) cs)"
  using assms
proof (induction cs)
  case (Cons x cs)
  obtain sid c where x: "x = (sid, c)" by (cases x)
  have c: "\<bar>c\<bar> < 10 ^ 28" using Cons.prems x by simp
  have d: "ddiv (of_int c) 100 = of_int c / 100"
    using dec28_places [of c 2] c by (simp add: ddiv_def)
  have "quantize 2 (of_int c / 100) = Some (of_int c / 100)"
    using quantize_places [OF c, of 2] by simp
  then show ?case using Cons unfolding x to_amounts.simps d by simp
qed simp

lemma weights_nonneg:
  assumes "weights_loop ws 0 = Inr (m, s)"
  shows "0 \<le> s" "\<forall>(sid, d)\<in>set m. 0 \<le> d"
  using weights_loop_result [OF assms] foldl_dadd_nonneg [of 0 "map snd m"] by auto

text \<open>What \<open>apportion\<close> returns, with the parts it was made of.\<close>

lemma apportion_result:
  assumes "apportion t s ws = Inr a" "0 \<le> t" "t < 10 ^ 28" "0 \<le> s" "\<forall>(sid, w)\<in>set ws. 0 \<le> w" "distinct (map fst ws)"
  obtains sh cents where "shares t s ws = Some sh" "a = map (\<lambda>(sid, c). (sid, of_int c / 100)) cents"
    "map fst cents = map fst ws" "sum_list (map snd cents) = t"
    "\<forall>(sid, c)\<in>set cents. \<exists>w. (sid, w) \<in> set ws \<and> \<lfloor>raw_cents t s w\<rfloor> \<le> c \<and> c \<le> \<lfloor>raw_cents t s w\<rfloor> + 1 \<and> 0 \<le> c"
proof -
  obtain sh where sh: "shares t s ws = Some sh"
    using assms(1) by (auto simp: apportion_def split: option.splits)
  let ?r = "t - sum_list (map (fst \<circ> snd) sh)"
  let ?cents = "add_cents (take (nat ?r) (ranking sh)) sh"
  have r: "0 \<le> ?r" "?r \<le> int (length ws)"
    using assms(1) by (auto simp: apportion_def sh Let_def split: if_splits)
  have fst_sh: "map fst sh = map fst ws" by (rule shares_fst [OF sh])
  have len: "length (ranking sh) = length ws"
    using arg_cong [OF ranking_perm [of sh], of size] arg_cong [OF fst_sh, of length] by simp
  have dist: "distinct (ranking sh)"
    using assms(6) fst_sh ranking_perm [of sh] by (metis mset_eq_imp_distinct_iff)
  have "set (ranking sh) = set (map fst sh)" by (metis ranking_perm set_mset_mset)
  then have sub: "set (take (nat ?r) (ranking sh)) \<subseteq> set (map fst sh)" using set_take_subset by fastforce
  have total_c: "sum_list (map snd ?cents) = t"
    using sum_add_cents [OF _ _ sub] assms(6) fst_sh dist r len by simp
  have each: "\<exists>w. (sid, w) \<in> set ws \<and> \<lfloor>raw_cents t s w\<rfloor> \<le> c \<and> c \<le> \<lfloor>raw_cents t s w\<rfloor> + 1 \<and> 0 \<le> c"
    if c: "(sid, c) \<in> set ?cents" for sid c
  proof -
    obtain fl fr where fl: "(sid, fl, fr) \<in> set sh" "c = fl \<or> c = fl + 1"
      using c by (auto simp: add_cents_def split: if_splits)
    obtain w where w: "(sid, w) \<in> set ws" "quantize_down (raw_cents t s w) = Some fl"
      using shares_floor [OF sh fl(1)] by blast
    have "0 \<le> raw_cents t s w" using assms(2,4,5) w(1) by (intro raw_cents_nonneg) auto
    from quantize_down_nonneg [OF w(2) this] show ?thesis using w(1) fl(2) by (intro exI [of _ w]) auto
  qed
  have nonneg: "0 \<le> c" if c: "c \<in> set (map snd ?cents)" for c
  proof -
    obtain sid where "(sid, c) \<in> set ?cents" using c by auto
    then show ?thesis using each by blast
  qed
  have "c \<le> t" if "c \<in> set (map snd ?cents)" for c
    using member_le_sum_list [OF that] nonneg total_c by simp
  then have small: "\<forall>(sid, c)\<in>set ?cents. 0 \<le> c \<and> c < 10 ^ 28"
    using nonneg assms(3) by force
  have "a = map (\<lambda>(sid, c). (sid, of_int c / 100)) ?cents"
    using assms(1) r to_amounts_exact [OF small] by (simp add: apportion_def sh Let_def)
  moreover have "map fst ?cents = map fst ws" using fst_sh by (simp add: add_cents_def comp_def case_prod_beta)
  ultimately show thesis using that [OF sh] total_c each by blast
qed

text \<open>Adding whole cents is exact.\<close>

lemma foldl_dadd_cents:
  assumes "0 \<le> k" "\<forall>c\<in>set cs. 0 \<le> c" "k + sum_list cs \<le> 10 ^ 28"
  shows "foldl dadd (of_int k / 100) (map (\<lambda>c. of_int c / 100) cs) = of_int (k + sum_list cs) / 100"
  using assms
proof (induction cs arbitrary: k)
  case (Cons c cs)
  have nn: "0 \<le> sum_list cs" using Cons.prems(2) by (intro sum_list_nonneg) simp
  then have "\<bar>k + c\<bar> \<le> 10 ^ 28" using Cons.prems by simp
  then have "dadd (of_int k / 100) (of_int c / 100) = of_int (k + c) / 100"
    using dec28_places [of "k + c" 2] by (simp add: dadd_def add_divide_distrib)
  then show ?case using Cons.IH [of "k + c"] Cons.prems by (simp add: add.assoc)
qed simp

text \<open>
  An allocation distributes the capital exactly: whenever \<open>allocate_capital\<close> returns, there is one amount
  for each strategy, in the given order; every amount is a non-negative number of whole
  cents, within a cent of the share computed for its weight; the amounts add up to the capital
  rounded down to cents, and \<open>allocation_total\<close> returns that sum.
\<close>

theorem allocation_is_exact:
  assumes "allocate_capital total_capital (Some ws) = Inr a" "distinct (map fst ws)"
    and "to_decimal total_capital ''total_capital'' = Inr capital"
    and "weights_loop ws 0 = Inr (weights, weight_sum)" "ws \<noteq> []"
  shows "map fst a = map fst ws
    \<and> sum_list (map snd a) = of_int \<lfloor>dmul capital 100\<rfloor> / 100
    \<and> allocation_total a = Some (of_int \<lfloor>dmul capital 100\<rfloor> / 100)
    \<and> (\<forall>(sid, x)\<in>set a. \<exists>c w. x = of_int c / 100 \<and> 0 \<le> c \<and> (sid, w) \<in> set weights
         \<and> \<lfloor>raw_cents \<lfloor>dmul capital 100\<rfloor> weight_sum w\<rfloor> \<le> c
         \<and> c \<le> \<lfloor>raw_cents \<lfloor>dmul capital 100\<rfloor> weight_sum w\<rfloor> + 1)"
proof -
  have cap: "0 \<le> capital" using assms(1,3) by (auto simp: allocate_capital_def split: if_splits)
  obtain t where t: "quantize_down (dmul capital 100) = Some t" "apportion t weight_sum weights = Inr a"
    using assms by (auto simp: allocate_capital_def split: if_splits option.splits)
  have "0 \<le> dmul capital 100" using cap by (simp add: dmul_def dec.nonneg)
  note t_floor = quantize_down_nonneg [OF t(1) this]
  note w = weights_nonneg [OF assms(4)]
  have fst_w: "map fst weights = map fst ws" using weights_loop_result [OF assms(4)] by simp
  have d: "distinct (map fst weights)" using assms(2) fst_w by simp
  have tb: "0 \<le> t" "t < 10 ^ 28" using t_floor by blast+
  obtain cents where c: "a = map (\<lambda>(sid, c). (sid, of_int c / 100)) cents"
    "map fst cents = map fst weights" "sum_list (map snd cents) = t"
    "\<forall>(sid, c)\<in>set cents. \<exists>w. (sid, w) \<in> set weights \<and> \<lfloor>raw_cents t weight_sum w\<rfloor> \<le> c
       \<and> c \<le> \<lfloor>raw_cents t weight_sum w\<rfloor> + 1 \<and> 0 \<le> c"
    by (rule apportion_result [OF t(2) tb w d]) (rule that)
  have snd_a: "map snd a = map (\<lambda>c. of_int c / 100) (map snd cents)"
    by (simp add: c(1) comp_def case_prod_beta)
  have "sum_list (map (\<lambda>c. of_int c / 100 :: rat) xs) = of_int (sum_list xs) / 100" for xs
    by (induction xs) (simp_all add: add_divide_distrib)
  then have sum: "sum_list (map snd a) = of_int t / 100" by (simp only: snd_a c(3))
  have "foldl dadd 0 (map snd a) = of_int t / 100"
  proof -
    have "\<forall>x\<in>set (map snd cents). 0 \<le> x" using c(4) by fastforce
    moreover have "0 + sum_list (map snd cents) \<le> 10 ^ 28" using c(3) tb by simp
    ultimately have "foldl dadd (of_int 0 / 100) (map snd a) = of_int (0 + sum_list (map snd cents)) / 100"
      unfolding snd_a by (intro foldl_dadd_cents) simp_all
    then show ?thesis using c(3) by simp
  qed
  moreover have "quantize 2 (of_int t / 100) = Some (of_int t / 100)"
    using quantize_places [of t 2] tb by simp
  ultimately have total_a: "allocation_total a = Some (of_int t / 100)" by (simp add: allocation_total_def)
  have "map fst a = map fst ws" using fst_w c(2) by (simp add: c(1) comp_def case_prod_beta)
  moreover have "\<forall>(sid, x)\<in>set a. \<exists>c w. x = of_int c / 100 \<and> 0 \<le> c \<and> (sid, w) \<in> set weights
         \<and> \<lfloor>raw_cents t weight_sum w\<rfloor> \<le> c \<and> c \<le> \<lfloor>raw_cents t weight_sum w\<rfloor> + 1"
    using c(4) by (fastforce simp: c(1))
  ultimately show ?thesis using sum total_a t_floor by simp
qed

section \<open>The internal check never fires\<close>

text \<open>The weights a float or an int can be: zero, or between the bounds of binary64.\<close>

definition tiny :: rat where "tiny = 10 powi (- 400)"

definition huge :: rat where "huge = 10 ^ 400"

definition smallest :: rat where "smallest = 10 powi (- 900)"

definition plausible_weight :: "rat \<Rightarrow> bool" where
  "plausible_weight w \<longleftrightarrow> w = 0 \<or> tiny \<le> w \<and> w \<le> huge"

definition large_enough :: "rat \<Rightarrow> bool" where
  "large_enough x \<longleftrightarrow> x = 0 \<or> smallest \<le> x"

lemma dec28_close: "large_enough x \<Longrightarrow> \<bar>dec28 x - x\<bar> \<le> x / 10 ^ 27"
  using dec28_rel [of x, folded smallest_def] unfolding large_enough_def by (elim disjE) simp_all

lemma tiny_pos: "0 < tiny"
  unfolding tiny_def by (rule zero_less_power_int) simp

lemma huge_pos: "0 < huge"
  unfolding huge_def by (rule zero_less_power) simp

lemma powi_shift: "(10::rat) powi (i + int n) = 10 powi i * 10 ^ n"
  by (simp add: power_int_add)

lemma powi10_mono: "i \<le> j \<Longrightarrow> (10::rat) powi i \<le> 10 powi j"
  using powi_le_iff [of 10 i j] by simp

lemma smallest_le_ratio: "smallest * 10 ^ 90 * huge \<le> tiny"
proof -
  have "smallest * 10 ^ 90 * huge = 10 powi (- 900 + int 90 + int 400)"
    unfolding smallest_def huge_def powi_shift ..
  also have "\<dots> \<le> 10 powi (- 400)" by (rule powi10_mono) simp
  finally show ?thesis by (simp only: tiny_def)
qed

lemma smallest_pos: "0 < smallest"
  unfolding smallest_def by (rule zero_less_power_int) simp

lemma one_le_huge: "1 \<le> huge"
  unfolding huge_def by (rule one_le_power) simp

lemma smallest_le: "smallest \<le> tiny / 10 ^ 90"
proof -
  have "smallest * 10 ^ 90 * 1 \<le> smallest * 10 ^ 90 * huge" using one_le_huge smallest_pos by (intro mult_left_mono) simp_all
  then have "smallest * 10 ^ 90 \<le> tiny" using smallest_le_ratio by linarith
  then show ?thesis by (simp only: le_divide_eq zero_less_power zero_less_numeral if_True)
qed

lemma large_half: "tiny \<le> y \<Longrightarrow> y / 2 \<le> x \<Longrightarrow> large_enough x"
  using smallest_le tiny_pos unfolding large_enough_def by simp

lemma plausible_nonneg: "plausible_weight w \<Longrightarrow> 0 \<le> w"
  using tiny_pos unfolding plausible_weight_def by linarith

lemma sum_plausible:
  "\<forall>w\<in>set ws. plausible_weight w \<Longrightarrow> 0 \<le> sum_list ws \<and> (sum_list ws = 0 \<or> tiny \<le> sum_list ws)
     \<and> sum_list ws \<le> of_nat (length ws) * huge"
proof (induction ws)
  case (Cons w ws)
  have "0 \<le> w" "w = 0 \<or> tiny \<le> w" "w \<le> huge"
    using Cons.prems plausible_nonneg [of w] huge_pos by (auto simp: plausible_weight_def)
  then show ?case using Cons by (auto simp: distrib_right)
qed simp

lemma sum_close:
  "\<forall>w\<in>set ws. plausible_weight w \<Longrightarrow> length ws \<le> 10 ^ 6 \<Longrightarrow>
     \<bar>foldl dadd 0 ws - sum_list ws\<bar> \<le> of_nat (length ws) * (2 / 10 ^ 27) * sum_list ws"
proof (induction ws rule: rev_induct)
  case (snoc w ws)
  define s W k :: rat where "s = foldl dadd 0 ws" and "W = sum_list ws" and "k = of_nat (length ws)"
  have W: "0 \<le> W" "W = 0 \<or> tiny \<le> W" using sum_plausible [of ws] snoc.prems by (auto simp: W_def)
  have w: "0 \<le> w" "w = 0 \<or> tiny \<le> w"
    using snoc.prems plausible_nonneg [of w] by (auto simp: plausible_weight_def)
  have IH: "\<bar>s - W\<bar> \<le> k * (2 / 10 ^ 27) * W" using snoc by (simp add: s_def W_def k_def)
  have "k \<le> of_nat (10 ^ 6)" using snoc.prems(2) unfolding k_def of_nat_le_iff by simp
  then have "k * (2 / 10 ^ 27) * W \<le> 1 / 2 * W" using W(1) by (intro mult_right_mono) simp_all
  then have s: "W / 2 \<le> s" "s \<le> 2 * W" using IH W(1) by linarith+
  have large: "large_enough (s + w)"
  proof (cases "w = 0"; cases "W = 0")
    assume "w = 0" "W = 0"
    then show ?thesis using s by (simp add: large_enough_def)
  next
    assume "w = 0" "W \<noteq> 0"
    then show ?thesis using W(2) s(1) by (intro large_half [of W]) simp_all
  qed (use w s(1) W(1) in \<open>auto intro: large_half [of w]\<close>)
  note d = dec28_close [OF large]
  have "\<bar>dadd s w - (W + w)\<bar> \<le> (s + w) / 10 ^ 27 + k * (2 / 10 ^ 27) * W"
    using d IH unfolding dadd_def by linarith
  also have "\<dots> \<le> 2 * (W + w) / 10 ^ 27 + k * (2 / 10 ^ 27) * (W + w)"
    using s(2) w(1) W(1) by (intro add_mono divide_right_mono mult_left_mono) (simp_all add: k_def)
  also have "\<dots> = (k + 1) * (2 / 10 ^ 27) * (W + w)" by (simp add: field_simps)
  finally show ?case by (simp add: s_def W_def k_def add.commute)
qed simp

text \<open>The computed share is the exact one up to a relative error of 10^-18.\<close>

lemma raw_close:
  fixes t :: int
  assumes w: "plausible_weight w" and t: "0 \<le> t" and W: "tiny \<le> W" "W \<le> 10 ^ 6 * huge"
    and s: "\<bar>s - W\<bar> \<le> 2 / 10 ^ 21 * W"
  shows "\<bar>raw_cents t s w - of_int t * w / W\<bar> \<le> of_int t * w / W / 10 ^ 18"
proof (cases "t = 0 \<or> w = 0")
  case True
  then show ?thesis by (auto simp: raw_cents_def dmul_def ddiv_def)
next
  case False
  define y p x :: rat where "y = of_int t * w" and "p = dec28 y" and "x = y / W"
  have W0: "0 < W" using W(1) tiny_pos by linarith
  have "1 * tiny \<le> of_int t * w"
    using False t w tiny_pos by (intro mult_mono) (auto simp: plausible_weight_def)
  then have y: "tiny \<le> y" "0 < y" using tiny_pos by (simp_all add: y_def)
  have "large_enough y" using y by (intro large_half [of y]) simp_all
  then have p: "\<bar>p - y\<bar> \<le> y / 10 ^ 27" unfolding p_def by (rule dec28_close)
  have sp: "(1 - 2 / 10 ^ 21) * W \<le> s" "s \<le> (1 + 2 / 10 ^ 21) * W"
    using s unfolding left_diff_distrib distrib_right by linarith+
  then have s0: "0 < s" "s \<le> 2 * W" using W0 less_le_trans [of 0 "(1 - 2 / 10 ^ 21) * W" s] by simp_all
  have xW: "x * W = y" using W0 by (simp add: x_def)
  have x0: "0 < x" using y(2) W0 by (simp add: x_def)
  have xs: "x * ((1 - 2 / 10 ^ 21) * W) \<le> x * s" "x * s \<le> x * ((1 + 2 / 10 ^ 21) * W)"
    using sp x0 by (auto intro!: mult_left_mono)
  then have xs': "(1 - 2 / 10 ^ 21) * y \<le> x * s" "x * s \<le> (1 + 2 / 10 ^ 21) * y"
    by (simp_all only: mult.left_commute [of x] xW)
  define z where "z = x * s"
  have p12: "p \<le> y + y / 10 ^ 27" "y - y / 10 ^ 27 \<le> p" using p by linarith+
  note z = xs' [folded z_def]
  have "p \<le> (1 + 1 / 10 ^ 20) * z" using p12(1) z(1) y(2) by (simp add: field_simps)
  then have "p \<le> (1 + 1 / 10 ^ 20) * (x * s)" by (simp only: z_def)
  then have q1: "p / s \<le> (1 + 1 / 10 ^ 20) * x" using s0 by (simp add: pos_divide_le_eq mult.assoc)
  have "(1 - 1 / 10 ^ 20) * z \<le> p" using p12(2) z(2) y(2) by (simp add: field_simps)
  then have "(1 - 1 / 10 ^ 20) * (x * s) \<le> p" by (simp only: z_def)
  then have q2: "(1 - 1 / 10 ^ 20) * x \<le> p / s" using s0 by (simp add: pos_le_divide_eq mult.assoc)
  have "large_enough (p / s)"
  proof -
    have "smallest * s \<le> smallest * (10 ^ 89 * huge)"
      using s0 W(2) huge_pos smallest_pos by (intro mult_left_mono) simp_all
    also have "\<dots> \<le> tiny / 10" using smallest_le_ratio by (simp add: mult_ac)
    also have "\<dots> \<le> p" using p12(2) y by simp
    finally have "smallest \<le> p / s" using s0 by (simp add: pos_le_divide_eq)
    then show ?thesis by (simp add: large_enough_def)
  qed
  then have "\<bar>dec28 (p / s) - p / s\<bar> \<le> p / s / 10 ^ 27" by (rule dec28_close)
  moreover define q where "q = p / s"
  ultimately have "\<bar>dec28 q - q\<bar> \<le> q / 10 ^ 27" by simp
  then have "dec28 q \<le> q + q / 10 ^ 27" "q - q / 10 ^ 27 \<le> dec28 q" by linarith+
  moreover note q1 [folded q_def] q2 [folded q_def]
  ultimately have "dec28 q - x \<le> x / 10 ^ 18" "x - dec28 q \<le> x / 10 ^ 18" using x0 by (simp_all add: field_simps)
  then have "\<bar>dec28 (p / s) - x\<bar> \<le> x / 10 ^ 18" unfolding q_def by linarith
  then show ?thesis by (simp add: raw_cents_def dmul_def ddiv_def p_def x_def y_def)
qed

lemma shares_Some:
  assumes "\<forall>(sid, w)\<in>set ws. 0 \<le> raw_cents t s w \<and> raw_cents t s w < 10 ^ 28"
  shows "\<exists>sh. shares t s ws = Some sh \<and> map (fst \<circ> snd) sh = map (\<lambda>(sid, w). \<lfloor>raw_cents t s w\<rfloor>) ws"
  using assms
proof (induction ws)
  case (Cons x ws)
  obtain sid w where x: "x = (sid, w)" by (cases x)
  then have "0 \<le> raw_cents t s w" "raw_cents t s w < 10 ^ 28" using Cons.prems by simp_all
  then have "quantize_down (raw_cents t s w) = Some \<lfloor>raw_cents t s w\<rfloor>"
    by (simp add: quantize_down_def Let_def floor_less_iff not_le)
  then show ?case using Cons by (auto simp: x Let_def)
qed simp

text \<open>The floors of shares that nearly add up to \<open>t\<close> leave between 0 and \<open>n\<close> cents.\<close>

lemma floors_in_range:
  fixes f g :: "'a \<Rightarrow> rat" and t :: int
  assumes "\<forall>x\<in>set xs. \<bar>f x - g x\<bar> \<le> g x / 10 ^ 18" "sum_list (map g xs) = of_int t" "0 \<le> t" "t \<le> 10 ^ 17 + 1"
  shows "0 \<le> t - sum_list (map (\<lambda>x. \<lfloor>f x\<rfloor>) xs) \<and> t - sum_list (map (\<lambda>x. \<lfloor>f x\<rfloor>) xs) \<le> int (length xs)"
proof -
  have floors: "sum_list (map f ys) - of_nat (length ys) \<le> of_int (sum_list (map (\<lambda>x. \<lfloor>f x\<rfloor>) ys))
      \<and> of_int (sum_list (map (\<lambda>x. \<lfloor>f x\<rfloor>) ys)) \<le> sum_list (map f ys)" for ys
    by (induction ys) (simp_all, linarith)
  have "\<bar>sum_list (map f ys) - sum_list (map g ys)\<bar> \<le> sum_list (map g ys) / 10 ^ 18"
    if "\<forall>x\<in>set ys. \<bar>f x - g x\<bar> \<le> g x / 10 ^ 18" for ys
    using that
  proof (induction ys)
    case (Cons y ys)
    then have "\<bar>f y - g y\<bar> \<le> g y / 10 ^ 18"
      "\<bar>sum_list (map f ys) - sum_list (map g ys)\<bar> \<le> sum_list (map g ys) / 10 ^ 18" by simp_all
    then show ?case unfolding list.map sum_list.Cons add_divide_distrib by linarith
  qed simp
  from this [OF assms(1)] have "\<bar>sum_list (map f xs) - of_int t\<bar> \<le> of_int t / 10 ^ 18" by (simp only: assms(2))
  moreover have "(of_int t :: rat) \<le> of_int (10 ^ 17 + 1)" using assms(4) by (simp only: of_int_le_iff)
  then have "(of_int t :: rat) / 10 ^ 18 \<le> 1 / 2" by simp
  ultimately have close: "sum_list (map f xs) \<le> of_int t + 1 / 2" "of_int t - 1 / 2 \<le> sum_list (map f xs)"
    by linarith+
  then have "(of_int (sum_list (map (\<lambda>x. \<lfloor>f x\<rfloor>) xs)) :: rat) < of_int (t + 1)"
    "(of_int (t - int (length xs) - 1) :: rat) < of_int (sum_list (map (\<lambda>x. \<lfloor>f x\<rfloor>) xs))"
    using floors [of xs] unfolding of_int_add of_int_diff of_int_1 of_int_of_nat_eq by linarith+
  then show ?thesis unfolding of_int_less_iff by simp
qed

lemma apportion_succeeds:
  assumes ws: "\<forall>w\<in>set (map snd ws). plausible_weight w" "\<exists>w\<in>set (map snd ws). 0 < w" "length ws \<le> 10 ^ 6"
    and t: "0 \<le> t" "t \<le> 10 ^ 17 + 1" and s: "s = foldl dadd 0 (map snd ws)"
  shows "s \<noteq> 0 \<and> (\<exists>a. apportion t s ws = Inr a)"
proof -
  define W where "W = sum_list (map snd ws)"
  have W: "0 \<le> W" "W = 0 \<or> tiny \<le> W" "W \<le> of_nat (length ws) * huge"
    using sum_plausible [OF ws(1)] by (simp_all add: W_def)
  obtain w where "w \<in> set (map snd ws)" "0 < w" using ws(2) by blast
  moreover have "\<forall>v\<in>set (map snd ws). 0 \<le> v" using ws(1) plausible_nonneg by blast
  ultimately have "W \<noteq> 0" unfolding W_def using sum_list_nonneg_eq_0_iff [of "map snd ws"] by force
  then have W1: "tiny \<le> W" "0 < W" using W tiny_pos by linarith+
  have n: "(of_nat (length ws) :: rat) \<le> of_nat (10 ^ 6)" using ws(3) by (simp only: of_nat_le_iff)
  then have "of_nat (length ws) * huge \<le> 10 ^ 6 * huge" using huge_pos by (intro mult_right_mono) simp_all
  then have W2: "W \<le> 10 ^ 6 * huge" using W(3) by linarith
  have "\<bar>s - W\<bar> \<le> of_nat (length ws) * (2 / 10 ^ 27) * W"
    using sum_close [OF ws(1)] ws(3) by (simp add: s W_def)
  also have "\<dots> \<le> 2 / 10 ^ 21 * W" using n W(1) by (intro mult_right_mono) simp_all
  finally have sW: "\<bar>s - W\<bar> \<le> 2 / 10 ^ 21 * W" .
  then have "W - 2 / 10 ^ 21 * W \<le> s" by linarith
  then have s0: "0 < s" using W1(2) by simp
  define x where "x = (\<lambda>p :: string \<times> rat. of_int t * snd p / W)"
  have close: "\<forall>p\<in>set ws. \<bar>raw_cents t s (snd p) - x p\<bar> \<le> x p / 10 ^ 18"
    using raw_close [OF _ t(1) W1(1) W2 sW] ws(1) by (simp add: x_def)
  have "sum_list (map x qs) = of_int t * sum_list (map snd qs) / W" for qs
    by (induction qs) (simp_all add: x_def add_divide_distrib distrib_left)
  then have sum_x: "sum_list (map x ws) = of_int t" using W1(2) by (simp add: W_def [symmetric])
  have xnn: "\<forall>p\<in>set ws. 0 \<le> x p" using ws(1) plausible_nonneg t(1) W1(2) by (auto simp: x_def)
  have xle: "x p \<le> of_int t" if "p \<in> set ws" for p
  proof -
    have "x p \<le> sum_list (map x ws)"
      by (rule member_le_sum_list) (use that xnn in auto)
    then show ?thesis by (simp only: sum_x)
  qed
  have raw: "0 \<le> raw_cents t s (snd p) \<and> raw_cents t s (snd p) < 10 ^ 28" if p: "p \<in> set ws" for p
  proof -
    have "x p \<le> of_int t" by (rule xle [OF p])
    also have "(of_int t :: rat) \<le> of_int (10 ^ 17 + 1)" using t(2) by (simp only: of_int_le_iff)
    finally have "x p \<le> 10 ^ 17 + 1" by simp
    moreover have "0 \<le> raw_cents t s (snd p)"
      using p ws(1) plausible_nonneg t(1) s0 by (intro raw_cents_nonneg) auto
    moreover have "raw_cents t s (snd p) \<le> x p + x p / 10 ^ 18" using bspec [OF close p] by linarith
    ultimately show ?thesis by simp
  qed
  obtain sh where sh: "shares t s ws = Some sh" "map (fst \<circ> snd) sh = map (\<lambda>(sid, w). \<lfloor>raw_cents t s w\<rfloor>) ws"
    using shares_Some [of ws t s] raw by fastforce
  have fl: "map (fst \<circ> snd) sh = map (\<lambda>p. \<lfloor>raw_cents t s (snd p)\<rfloor>) ws" using sh(2) by (simp add: case_prod_beta)
  note range = floors_in_range [OF close sum_x t]
  have "\<forall>(sid, c)\<in>set (add_cents q sh). 0 \<le> c \<and> c < 10 ^ 28" for q
  proof clarify
    fix sid c assume "(sid, c) \<in> set (add_cents q sh)"
    then obtain m fr where m: "(sid, m, fr) \<in> set sh" "c = m \<or> c = m + 1"
      by (auto simp: add_cents_def split: if_splits)
    obtain w where "(sid, w) \<in> set ws" "quantize_down (raw_cents t s w) = Some m"
      using shares_floor [OF sh(1) m(1)] by blast
    moreover from this raw have "0 \<le> raw_cents t s w" by fastforce
    ultimately have "0 \<le> m" "m = \<lfloor>raw_cents t s w\<rfloor>" "(sid, w) \<in> set ws" using quantize_down_nonneg by blast+
    moreover have "m \<le> 10 ^ 18"
    proof -
      have "x (sid, w) \<le> of_int t"
        by (rule xle) fact
      moreover have "raw_cents t s w \<le> x (sid, w) + x (sid, w) / 10 ^ 18"
        using bspec [OF close \<open>(sid, w) \<in> set ws\<close>] unfolding snd_conv by linarith
      moreover have "(of_int t :: rat) \<le> of_int (10 ^ 17 + 1)" using t(2) by (simp only: of_int_le_iff)
      ultimately have "raw_cents t s w \<le> 10 ^ 18" by simp
      then show ?thesis using \<open>m = _\<close> by (simp add: floor_le_iff)
    qed
    ultimately show "0 \<le> c \<and> c < 10 ^ 28" using m(2) by auto
  qed
  from to_amounts_exact [OF this] show ?thesis
    using s0 range fl by (simp add: apportion_def sh(1) Let_def)
qed

text \<open>
  Valid input is always apportioned: for a capital of up to 10^15 and at most a million strategies with weights that
  floats can have, one of them positive, \<open>allocate_capital\<close> returns.  In particular the rounding errors
  of the 28-digit decimals never trigger the internal remainder check.
\<close>

theorem allocation_succeeds:
  assumes "to_decimal total_capital ''total_capital'' = Inr capital" "0 \<le> capital" "capital \<le> 10 ^ 15"
    and "weights_loop ws 0 = Inr (weights, weight_sum)" "length ws \<le> 10 ^ 6"
    and "\<forall>w\<in>set (map snd weights). plausible_weight w" "\<exists>w\<in>set (map snd weights). 0 < w"
  shows "\<exists>a. allocate_capital total_capital (Some ws) = Inr a"
proof -
  note w = weights_loop_result [OF assms(4)]
  have len: "length weights = length ws" using arg_cong [OF conjunct1 [OF w], of length] by simp
  then have ws: "ws \<noteq> []" using assms(7) by auto
  let ?t = "\<lfloor>dmul capital 100\<rfloor>"
  have "dmul capital 100 \<le> dec28 (of_int (10 ^ 17))"
    unfolding dmul_def by (rule dec.mono) (use assms(3) in simp)
  also have "dec28 (of_int (10 ^ 17)) = of_int (10 ^ 17)" by (rule dec28_int) simp
  finally have dm: "dmul capital 100 \<le> of_int (10 ^ 17)" .
  have "0 \<le> dmul capital 100" using assms(2) by (simp add: dmul_def dec.nonneg)
  then have t: "quantize_down (dmul capital 100) = Some ?t" "0 \<le> ?t" "?t \<le> 10 ^ 17 + 1"
    using dm by (simp_all add: quantize_down_def Let_def floor_le_iff floor_less_iff not_le)
  have "length weights \<le> 10 ^ 6" using len assms(5) by simp
  from apportion_succeeds [OF assms(6,7) this t(2,3)] w
  obtain a where "weight_sum \<noteq> 0" "apportion ?t weight_sum weights = Inr a" by blast
  then show ?thesis using assms(1,2,4) t(1) ws by (simp add: allocate_capital_def)
qed

end
