(* ===== verification/WashSale.thy ===== *)
theory WashSale
  imports Prelude "HOL-Library.List_Lexorder" "HOL-Library.Char_ord" "HOL-Library.Product_Lexorder"
begin

text \<open>
  The wash-sale detector, \<open>engine/core/tax/wash_sale.py\<close>: trades, the first-in-first-out pass that
  gives every sale a cost basis and leaves the surviving lots, and the matching of loss sales with
  surviving purchases inside the window.

  The mutable \<open>_BuyState\<close> and \<open>_SaleState\<close> objects are records that each step returns updated; a lot
  keeps its place in its list.  Quantities, prices and losses are 28-digit decimals, times
  are in microseconds.
\<close>

section \<open>Trades\<close>

definition WASH_SALE_WINDOW_DAYS :: int where
  "WASH_SALE_WINDOW_DAYS = 30"

datatype TradeSide = BUY | SELL

record Trade =
  trade_id :: string
  trade_symbol :: string
  trade_side :: TradeSide
  trade_quantity :: rat
  trade_price :: rat
  trade_when :: datetime

datatype wash_error =
  QuantityNotPositive string
| PriceNegative string
| WindowNegative
| WindowTooLarge
| LossNotRepresentable

definition new_trade :: "string \<Rightarrow> string \<Rightarrow> TradeSide \<Rightarrow> rat \<Rightarrow> rat \<Rightarrow> datetime \<Rightarrow> wash_error + Trade" where
  "new_trade i symb sd q p w =
     (if q \<le> 0 then Inl (QuantityNotPositive i)
      else if p < 0 then Inl (PriceNegative i)
      else Inr \<lparr>trade_id = i, trade_symbol = symb, trade_side = sd, trade_quantity = q, trade_price = p,
             trade_when = w\<rparr>)"

definition gross :: "Trade \<Rightarrow> rat" where
  "gross t = dmul (trade_quantity t) (trade_price t)"

record WashSaleAdjustment =
  sale_trade_id :: string
  replacement_trade_id :: string
  adj_symbol :: string
  matched_quantity :: rat
  disallowed_loss :: rat

record BuyState =
  buy_trade :: Trade
  available_qty :: rat

record SaleState =
  sale_trade :: Trade
  sale_cost_basis :: rat
  total_loss :: rat
  remaining_qty :: rat
  remaining_loss :: rat

section \<open>First in, first out\<close>

fun consume_fifo :: "BuyState list \<Rightarrow> rat \<Rightarrow> rat \<Rightarrow> rat \<times> BuyState list" where
  "consume_fifo [] remaining basis = (basis, [])"
| "consume_fifo (lot # lots) remaining basis =
     (if remaining \<le> 0 then (basis, lot # lots)
      else let q = min (available_qty lot) remaining in
        if q \<le> 0 then (case consume_fifo lots remaining basis of (b, ls) \<Rightarrow> (b, lot # ls))
        else (case consume_fifo lots (dsub remaining q) (dadd basis (dmul q (trade_price (buy_trade lot)))) of
                (b, ls) \<Rightarrow> (b, lot\<lparr>available_qty := dsub (available_qty lot) q\<rparr> # ls)))"

definition lots_of :: "(string, BuyState list) dict \<Rightarrow> string \<Rightarrow> BuyState list" where
  "lots_of d symb = (case map_of d symb of None \<Rightarrow> [] | Some ls \<Rightarrow> ls)"

definition fifo_step ::
  "(string, BuyState list) dict \<times> (string, rat) dict \<Rightarrow> Trade
     \<Rightarrow> (string, BuyState list) dict \<times> (string, rat) dict" where
  "fifo_step st t = (case st of (lots, basis) \<Rightarrow>
     (case trade_side t of
        BUY \<Rightarrow> (AList.update (trade_symbol t)
                 (lots_of lots (trade_symbol t) @ [\<lparr>buy_trade = t, available_qty = trade_quantity t\<rparr>]) lots, basis)
      | SELL \<Rightarrow>
          (case consume_fifo (lots_of lots (trade_symbol t)) (trade_quantity t) 0 of (consumed, ls) \<Rightarrow>
            (if map_of lots (trade_symbol t) = None then lots else AList.update (trade_symbol t) ls lots,
             if map_of basis (trade_id t) = None then AList.update (trade_id t) consumed basis else basis))))"

definition fifo_pass ::
  "Trade list \<Rightarrow> (string, rat) dict \<Rightarrow> (string, BuyState list) dict \<times> (string, rat) dict" where
  "fifo_pass trades basis = foldl fifo_step ([], basis) (sort_key trade_when trades)"

section \<open>Matching\<close>

definition loss_sale :: "(string, rat) dict \<Rightarrow> Trade \<Rightarrow> SaleState option" where
  "loss_sale cost_basis s =
     (let basis = (case map_of cost_basis (trade_id s) of None \<Rightarrow> 0 | Some b \<Rightarrow> b);
          loss = dsub basis (gross s)
      in if loss \<le> 0 then None
         else Some \<lparr>sale_trade = s, sale_cost_basis = basis, total_loss = loss,
                remaining_qty = trade_quantity s, remaining_loss = loss\<rparr>)"

definition loss_sales :: "Trade list \<Rightarrow> (string, rat) dict \<Rightarrow> SaleState list" where
  "loss_sales trades cost_basis =
     sort_key (\<lambda>s. trade_when (sale_trade s))
       (List.map_filter (loss_sale cost_basis) (filter (\<lambda>t. trade_side t = SELL) trades))"

definition surviving_lots :: "(string, BuyState list) dict \<Rightarrow> BuyState list" where
  "surviving_lots lots =
     sort_key (\<lambda>b. trade_when (buy_trade b)) (filter (\<lambda>l. 0 < available_qty l) (concat (map snd lots)))"

definition may_replace :: "int \<Rightarrow> SaleState \<Rightarrow> BuyState \<Rightarrow> bool" where
  "may_replace window sale buy \<longleftrightarrow>
     0 < available_qty buy \<and> trade_symbol (buy_trade buy) = trade_symbol (sale_trade sale)
     \<and> \<bar>trade_when (buy_trade buy) - trade_when (sale_trade sale)\<bar> \<le> window
     \<and> trade_id (buy_trade buy) \<noteq> trade_id (sale_trade sale)"

fun match_sale :: "int \<Rightarrow> SaleState \<Rightarrow> BuyState list \<Rightarrow> (WashSaleAdjustment list \<times> BuyState list) option" where
  "match_sale window sale [] = Some ([], [])"
| "match_sale window sale (buy # buys) =
     (let q = min (remaining_qty sale) (available_qty buy) in
      if \<not> may_replace window sale buy \<or> q \<le> 0
      then map_option (\<lambda>(as, bs). (as, buy # bs)) (match_sale window sale buys)
      else case quantize 4 (dmul (total_loss sale) (ddiv q (trade_quantity (sale_trade sale)))) of
             None \<Rightarrow> None
           | Some disallowed \<Rightarrow>
               let a = \<lparr>sale_trade_id = trade_id (sale_trade sale),
                     replacement_trade_id = trade_id (buy_trade buy), adj_symbol = trade_symbol (sale_trade sale),
                     matched_quantity = q, disallowed_loss = disallowed\<rparr>;
                   sale' = sale\<lparr>remaining_qty := dsub (remaining_qty sale) q,
                     remaining_loss := dsub (remaining_loss sale) disallowed\<rparr>;
                   buy' = buy\<lparr>available_qty := dsub (available_qty buy) q\<rparr>
               in if remaining_qty sale' \<le> 0 \<or> remaining_loss sale' \<le> 0 then Some ([a], buy' # buys)
                  else map_option (\<lambda>(as, bs). (a # as, buy' # bs)) (match_sale window sale' buys))"

fun match_sales :: "int \<Rightarrow> SaleState list \<Rightarrow> BuyState list \<Rightarrow> WashSaleAdjustment list option" where
  "match_sales window [] buys = Some []"
| "match_sales window (s # ss) buys =
     (case match_sale window s buys of
        None \<Rightarrow> None
      | Some (as, buys') \<Rightarrow> map_option ((@) as) (match_sales window ss buys'))"

definition detect_wash_sales ::
  "Trade list \<Rightarrow> (string, rat) dict option \<Rightarrow> int \<Rightarrow> wash_error + WashSaleAdjustment list" where
  "detect_wash_sales trades cost_basis_for window_days =
     (if window_days < 0 then Inl WindowNegative
      else if window_days = 0 then Inr []
      else
        case fifo_pass trades (case cost_basis_for of None \<Rightarrow> [] | Some d \<Rightarrow> d) of (lots, basis) \<Rightarrow>
          if 999999999 < window_days then Inl WindowTooLarge
          else case match_sales (window_days * us_per_day) (loss_sales trades basis) (surviving_lots lots) of
                 None \<Rightarrow> Inl LossNotRepresentable
               | Some as \<Rightarrow> Inr (sort_key (\<lambda>a. (sale_trade_id a, replacement_trade_id a)) as))"

definition detect_wash_sales_for_jurisdiction ::
  "Trade list \<Rightarrow> int \<Rightarrow> (string, rat) dict option \<Rightarrow> wash_error + WashSaleAdjustment list" where
  "detect_wash_sales_for_jurisdiction trades wash_sale_window_days cost_basis_for =
     detect_wash_sales trades cost_basis_for wash_sale_window_days"

section \<open>Exact quantities\<close>

text \<open>Shares are counted in units of 10^-8; then the subtractions of the detector are exact.\<close>

definition share_count :: "rat \<Rightarrow> bool" where
  "share_count x \<longleftrightarrow> (\<exists>n. x = of_int n / 10 ^ 8 \<and> \<bar>n\<bar> \<le> 10 ^ 28)"

lemma share_count_dsub:
  assumes "share_count x" "share_count y" "0 \<le> y" "y \<le> x"
  shows "dsub x y = x - y \<and> share_count (x - y)"
proof -
  obtain m n where x: "x = of_int m / 10 ^ 8" "\<bar>m\<bar> \<le> 10 ^ 28" and y: "y = of_int n / 10 ^ 8" "\<bar>n\<bar> \<le> 10 ^ 28"
    using assms(1,2) unfolding share_count_def by blast
  have "0 \<le> n" "n \<le> m" using assms(3,4) by (simp_all add: x y divide_le_cancel)
  then have b: "\<bar>m - n\<bar> \<le> 10 ^ 28" using x(2) by simp
  have d: "x - y = of_int (m - n) / 10 ^ 8" by (simp add: x y diff_divide_distrib)
  have "dsub x y = x - y" unfolding dsub_def d by (rule dec28_places [OF b]) simp
  then show ?thesis using d b unfolding share_count_def by blast
qed

lemma share_count_min: "share_count x \<Longrightarrow> share_count y \<Longrightarrow> share_count (min x y)"
  by (simp add: min_def)

section \<open>The lots after the first-in-first-out pass\<close>

definition lot_ok :: "BuyState \<Rightarrow> bool" where
  "lot_ok b \<longleftrightarrow> share_count (available_qty b) \<and> 0 \<le> available_qty b \<and> available_qty b \<le> trade_quantity (buy_trade b)"

lemma consume_fifo_lots:
  "list_all lot_ok lots \<Longrightarrow> share_count r \<Longrightarrow>
     map buy_trade (snd (consume_fifo lots r b)) = map buy_trade lots \<and> list_all lot_ok (snd (consume_fifo lots r b))"
proof (induction lots r b rule: consume_fifo.induct)
  case (2 lot lots r b)
  let ?q = "min (available_qty lot) r"
  show ?case
  proof (cases "r \<le> 0 \<or> ?q \<le> 0")
    case True
    then show ?thesis using 2 by (auto simp: Let_def split: prod.splits)
  next
    case False
    have q: "share_count ?q" "0 \<le> ?q" "?q \<le> available_qty lot" "?q \<le> r"
      using 2(3,4) False share_count_min by (auto simp: lot_ok_def)
    have lot: "lot_ok lot" using 2(3) by simp
    have a: "dsub (available_qty lot) ?q = available_qty lot - ?q \<and> share_count (available_qty lot - ?q)"
      by (rule share_count_dsub) (use q lot in \<open>simp_all add: lot_ok_def\<close>)
    have r: "share_count (dsub r ?q)" using share_count_dsub [of r ?q] q 2(4) by simp
    have "lot_ok (lot\<lparr>available_qty := dsub (available_qty lot) ?q\<rparr>)"
      using conjunct1 [OF a] conjunct2 [OF a] q(2,3) lot unfolding lot_ok_def by simp linarith
    then show ?thesis using 2(2) [OF _ refl _ _ r] 2(3) False by (auto simp: Let_def split: prod.splits)
  qed
qed simp

lemma mset_update_lots:
  "mset (concat (map snd (AList.update k v d))) + mset (lots_of d k) = mset (concat (map snd d)) + mset v"
proof (induction d)
  case (Cons x d)
  then show ?case by (cases x) (auto simp: lots_of_def split: if_splits)
qed (simp add: lots_of_def)

lemma set_lots_of: "set (lots_of d k) \<subseteq> set (concat (map snd d))"
proof (cases "map_of d k")
  case (Some ls)
  then have "(k, ls) \<in> set d" by (rule map_of_SomeD)
  then show ?thesis using Some by (auto simp: lots_of_def)
qed (simp add: lots_of_def)

definition all_lots :: "(string, BuyState list) dict \<Rightarrow> BuyState list" where
  "all_lots d = concat (map snd d)"

lemma all_lots_update:
  "mset (map buy_trade v) = mset (map buy_trade (lots_of d k)) + M \<Longrightarrow>
     mset (map buy_trade (all_lots (AList.update k v d))) = mset (map buy_trade (all_lots d)) + M"
  using arg_cong [OF mset_update_lots [of k v d], of "image_mset buy_trade"] by (simp add: all_lots_def)

lemma all_lots_ok_update:
  "list_all lot_ok (all_lots d) \<Longrightarrow> list_all lot_ok v \<Longrightarrow> list_all lot_ok (all_lots (AList.update k v d))"
  by (induction d) (auto simp: all_lots_def list_all_iff)

lemma fifo_step_lots:
  assumes "list_all lot_ok (all_lots (fst st))" "share_count (trade_quantity t)" "0 < trade_quantity t"
  shows "list_all lot_ok (all_lots (fst (fifo_step st t)))
    \<and> mset (map buy_trade (all_lots (fst (fifo_step st t)))) =
        mset (map buy_trade (all_lots (fst st))) + (if trade_side t = BUY then {#t#} else {#})"
proof -
  obtain lots basis where st: "st = (lots, basis)" by (cases st)
  have ok: "list_all lot_ok (lots_of lots (trade_symbol t))"
    using assms(1) set_lots_of [of lots "trade_symbol t"] unfolding list_all_iff all_lots_def st by fastforce
  show ?thesis
  proof (cases "trade_side t")
    case BUY
    have "lot_ok \<lparr>buy_trade = t, available_qty = trade_quantity t\<rparr>" using assms(2,3) by (simp add: lot_ok_def)
    then show ?thesis
      using all_lots_ok_update assms(1) ok all_lots_update [of "lots_of lots (trade_symbol t) @ [\<lparr>buy_trade = t, available_qty = trade_quantity t\<rparr>]" lots "trade_symbol t" "{#t#}"]
      by (simp add: fifo_step_def st BUY)
  next
    case SELL
    obtain b ls where c: "consume_fifo (lots_of lots (trade_symbol t)) (trade_quantity t) 0 = (b, ls)" by fastforce
    then have ls: "map buy_trade ls = map buy_trade (lots_of lots (trade_symbol t))" "list_all lot_ok ls"
      using consume_fifo_lots [OF ok assms(2), of 0] by simp_all
    then show ?thesis
      using all_lots_ok_update [of lots ls "trade_symbol t"] assms(1) all_lots_update [of ls lots "trade_symbol t" "{#}"]
      by (simp add: fifo_step_def st SELL c)
  qed
qed

lemma fifo_pass_lots:
  assumes "\<forall>t\<in>set trades. share_count (trade_quantity t) \<and> 0 < trade_quantity t"
  shows "list_all lot_ok (all_lots (fst (fifo_pass trades basis)))
    \<and> mset (map buy_trade (all_lots (fst (fifo_pass trades basis)))) = mset (filter (\<lambda>t. trade_side t = BUY) trades)"
proof -
  have "list_all lot_ok (all_lots (fst (foldl fifo_step st ts)))
    \<and> mset (map buy_trade (all_lots (fst (foldl fifo_step st ts)))) =
       mset (map buy_trade (all_lots (fst st))) + mset (filter (\<lambda>t. trade_side t = BUY) ts)"
    if "\<forall>t\<in>set ts. share_count (trade_quantity t) \<and> 0 < trade_quantity t" "list_all lot_ok (all_lots (fst st))" for ts st
    using that
  proof (induction ts arbitrary: st)
    case (Cons t ts)
    have t: "share_count (trade_quantity t)" "0 < trade_quantity t" using Cons.prems(1) by simp_all
    note f = fifo_step_lots [OF Cons.prems(2) t]
    then show ?case using Cons.IH [of "fifo_step st t"] Cons.prems(1) by simp
  qed simp
  from this [of "sort_key trade_when trades" "([], basis)"] show ?thesis
    using assms by (simp add: fifo_pass_def all_lots_def mset_filter)
qed

section \<open>What a matching consumes\<close>

definition used :: "string \<Rightarrow> WashSaleAdjustment list \<Rightarrow> rat" where
  "used i as = sum_list (map matched_quantity (filter (\<lambda>a. replacement_trade_id a = i) as))"

definition sold :: "string \<Rightarrow> WashSaleAdjustment list \<Rightarrow> rat" where
  "sold i as = sum_list (map matched_quantity (filter (\<lambda>a. sale_trade_id a = i) as))"

lemma used_simps [simp]:
  "used i [] = 0" "used i (a # as) = (if replacement_trade_id a = i then matched_quantity a else 0) + used i as"
  "used i (as @ bs) = used i as + used i bs"
  by (simp_all add: used_def)

lemma sold_simps [simp]:
  "sold i [] = 0" "sold i (a # as) = (if sale_trade_id a = i then matched_quantity a else 0) + sold i as"
  "sold i (as @ bs) = sold i as + sold i bs"
  by (simp_all add: sold_def)

text \<open>An adjustment of a loss sale and a purchase of the same symbol inside the window.\<close>

definition links :: "int \<Rightarrow> WashSaleAdjustment \<Rightarrow> Trade \<Rightarrow> Trade \<Rightarrow> bool" where
  "links window a s b \<longleftrightarrow> sale_trade_id a = trade_id s \<and> replacement_trade_id a = trade_id b
     \<and> trade_symbol b = trade_symbol s \<and> adj_symbol a = trade_symbol s
     \<and> \<bar>trade_when b - trade_when s\<bar> \<le> window \<and> 0 < matched_quantity a"

definition drained :: "WashSaleAdjustment list \<Rightarrow> BuyState \<Rightarrow> BuyState \<Rightarrow> bool" where
  "drained as b b' \<longleftrightarrow> buy_trade b' = buy_trade b \<and> share_count (available_qty b') \<and> 0 \<le> available_qty b'
     \<and> available_qty b' = available_qty b - used (trade_id (buy_trade b)) as"

abbreviation buy_id :: "BuyState \<Rightarrow> string" where
  "buy_id b \<equiv> trade_id (buy_trade b)"

abbreviation buy_ok :: "BuyState \<Rightarrow> bool" where
  "buy_ok b \<equiv> share_count (available_qty b) \<and> 0 \<le> available_qty b"

lemma used_other: "\<forall>a\<in>set as. replacement_trade_id a \<noteq> i \<Longrightarrow> used i as = 0"
  by (induction as) auto

lemma drained_other: "\<forall>a\<in>set as. replacement_trade_id a \<noteq> buy_id b \<Longrightarrow> buy_ok b \<Longrightarrow> drained as b b"
  by (simp add: drained_def used_other)

lemma list_all2_drained_Cons:
  "list_all2 (drained as) bs bs' \<Longrightarrow> \<forall>b\<in>set bs. buy_id b \<noteq> replacement_trade_id a \<Longrightarrow> list_all2 (drained (a # as)) bs bs'"
  by (erule list.rel_mono_strong) (auto simp: drained_def)

text \<open>The two ways in which \<open>match_sale\<close> treats the first purchase.\<close>

lemma match_sale_Cons:
  assumes "match_sale w s (b # bs) = Some (as, bs')"
  obtains (skip) bs1 where "match_sale w s bs = Some (as, bs1)" "bs' = b # bs1"
  | (last) a d where "may_replace w s b" "as = [a]"
      "a = \<lparr>sale_trade_id = trade_id (sale_trade s), replacement_trade_id = buy_id b,
         adj_symbol = trade_symbol (sale_trade s),
         matched_quantity = min (remaining_qty s) (available_qty b), disallowed_loss = d\<rparr>"
      "0 < min (remaining_qty s) (available_qty b)"
      "bs' = b\<lparr>available_qty := dsub (available_qty b) (min (remaining_qty s) (available_qty b))\<rparr> # bs"
  | (more) a d as1 bs1 s1 where "may_replace w s b" "as = a # as1"
      "a = \<lparr>sale_trade_id = trade_id (sale_trade s), replacement_trade_id = buy_id b,
         adj_symbol = trade_symbol (sale_trade s),
         matched_quantity = min (remaining_qty s) (available_qty b), disallowed_loss = d\<rparr>"
      "0 < min (remaining_qty s) (available_qty b)"
      "s1 = s\<lparr>remaining_qty := dsub (remaining_qty s) (min (remaining_qty s) (available_qty b)),
         remaining_loss := dsub (remaining_loss s) d\<rparr>"
      "match_sale w s1 bs = Some (as1, bs1)"
      "bs' = b\<lparr>available_qty := dsub (available_qty b) (min (remaining_qty s) (available_qty b))\<rparr> # bs1"
proof -
  define q where "q = min (remaining_qty s) (available_qty b)"
  note run = assms [unfolded match_sale.simps Let_def, folded q_def]
  note skip' = skip and last' = last [folded q_def] and more' = more [folded q_def]
  show thesis
  proof (cases "\<not> may_replace w s b \<or> q \<le> 0")
    case True
    then show thesis using run skip' by auto
  next
    case False
    then have r: "may_replace w s b" "0 < q" by simp_all
    then obtain d where d: "quantize 4 (dmul (total_loss s) (ddiv q (trade_quantity (sale_trade s)))) = Some d"
      using run by (auto split: option.splits)
    let ?s = "s\<lparr>remaining_qty := dsub (remaining_qty s) q, remaining_loss := dsub (remaining_loss s) d\<rparr>"
    show thesis
    proof (cases "remaining_qty ?s \<le> 0 \<or> remaining_loss ?s \<le> 0")
      case True
      then show thesis using run r d by (intro last' [where d = d, OF r(1) _ refl r(2)]) simp_all
    next
      case f: False
      then obtain as1 bs1 where m: "match_sale w ?s bs = Some (as1, bs1)"
        using run r d by auto
      then show thesis using run r d f by (intro more' [OF r(1) _ refl r(2) refl m]) auto
    qed
  qed
qed

lemma match_sale_consumes:
  "match_sale w s bs = Some (as, bs') \<Longrightarrow> distinct (map buy_id bs) \<Longrightarrow> list_all buy_ok bs \<Longrightarrow>
   share_count (remaining_qty s) \<Longrightarrow> 0 \<le> remaining_qty s \<Longrightarrow>
     list_all2 (drained as) bs bs' \<and> sum_list (map matched_quantity as) \<le> remaining_qty s
     \<and> (\<forall>a\<in>set as. \<exists>b\<in>set bs. links w a (sale_trade s) (buy_trade b))"
proof (induction bs arbitrary: s as bs')
  case Nil
  then show ?case by simp
next
  case (Cons b bs)
  let ?q = "min (remaining_qty s) (available_qty b)"
  have b: "buy_ok b" "list_all buy_ok bs" "distinct (map buy_id bs)" "buy_id b \<notin> buy_id ` set bs"
    using Cons.prems(2,3) by auto
  have other: "replacement_trade_id a \<noteq> buy_id b" if "\<exists>b\<in>set bs. links w a (sale_trade t) (buy_trade b)" for a t
    using that b(4) by (auto simp: links_def)
  have a_dsub: "dsub (available_qty b) ?q = available_qty b - ?q \<and> share_count (available_qty b - ?q)" if "0 < ?q"
    using that b(1) Cons.prems(4) by (intro share_count_dsub share_count_min) auto
  have r_dsub: "dsub (remaining_qty s) ?q = remaining_qty s - ?q \<and> share_count (remaining_qty s - ?q)" if "0 < ?q"
    using that b(1) Cons.prems(4) by (intro share_count_dsub share_count_min) auto
  have qle: "?q \<le> available_qty b" "?q \<le> remaining_qty s" by simp_all
  have rest: "list_all2 (drained []) bs bs" using b(2) by (auto simp: list_all2_same drained_def list_all_iff)
  have head: "\<forall>c\<in>set bs. buy_id c \<noteq> replacement_trade_id a" if "replacement_trade_id a = buy_id b" for a
    using b(4) that by (auto intro: image_eqI [OF sym])
  from Cons.prems(1) show ?case
  proof (cases rule: match_sale_Cons)
    case (skip bs1)
    note IH = Cons.IH [OF skip(1) b(3,2) Cons.prems(4,5)]
    then have "drained as b b" using b(1) other by (intro drained_other) blast+
    then show ?thesis using IH skip(2) by auto
  next
    case (last a d)
    have "drained as b (b\<lparr>available_qty := dsub (available_qty b) ?q\<rparr>)"
      using a_dsub [OF last(4)] qle(1) last(2,3) by (simp add: drained_def)
    moreover have "list_all2 (drained as) bs bs"
      unfolding last(2) by (rule list_all2_drained_Cons [OF rest head]) (simp add: last(3))
    moreover have "links w a (sale_trade s) (buy_trade b)"
      using last(1,3,4) by (simp add: links_def may_replace_def)
    ultimately show ?thesis using last(2,3,5) by simp
  next
    case (more a d as1 bs1 s1)
    have s1: "share_count (remaining_qty s1)" "0 \<le> remaining_qty s1" "remaining_qty s1 = remaining_qty s - ?q"
      "sale_trade s1 = sale_trade s"
      using r_dsub [OF more(4)] more(5) qle(2) by simp_all
    note IH = Cons.IH [OF more(6) b(3,2) s1(1,2)]
    have "used (buy_id b) as1 = 0" using IH other by (intro used_other) blast
    then have "drained as b (b\<lparr>available_qty := dsub (available_qty b) ?q\<rparr>)"
      using a_dsub [OF more(4)] qle(1) more(2,3) by (simp add: drained_def)
    moreover have "list_all2 (drained as) bs bs1"
      unfolding more(2) by (rule list_all2_drained_Cons [OF conjunct1 [OF IH] head]) (simp add: more(3))
    moreover have "links w a (sale_trade s) (buy_trade b)"
      using more(1,3,4) by (simp add: links_def may_replace_def)
    moreover have "sum_list (map matched_quantity as) \<le> remaining_qty s" using IH s1(3) more(2,3) by simp
    ultimately show ?thesis using IH more(2,7) s1(4) by auto
  qed
qed

lemma sum_sold: "\<forall>a\<in>set as. sale_trade_id a = i \<Longrightarrow> sum_list (map matched_quantity as) = sold i as"
  by (induction as) auto

lemma sold_other: "\<forall>a\<in>set as. sale_trade_id a \<noteq> i \<Longrightarrow> sold i as = 0"
  by (induction as) auto

abbreviation sale_id :: "SaleState \<Rightarrow> string" where
  "sale_id s \<equiv> trade_id (sale_trade s)"

lemma drained_ids: "list_all2 (drained as) bs bs' \<Longrightarrow> map buy_trade bs' = map buy_trade bs \<and> list_all buy_ok bs'"
  by (induction rule: list_all2_induct) (auto simp: drained_def)

lemma match_sales_consumes:
  "match_sales w ss bs = Some as \<Longrightarrow> distinct (map buy_id bs) \<Longrightarrow> list_all buy_ok bs \<Longrightarrow> distinct (map sale_id ss) \<Longrightarrow>
   \<forall>s\<in>set ss. share_count (remaining_qty s) \<and> 0 \<le> remaining_qty s \<Longrightarrow>
     (\<forall>b\<in>set bs. used (buy_id b) as \<le> available_qty b) \<and> (\<forall>s\<in>set ss. sold (sale_id s) as \<le> remaining_qty s)
     \<and> (\<forall>a\<in>set as. \<exists>s\<in>set ss. \<exists>b\<in>set bs. links w a (sale_trade s) (buy_trade b))"
proof (induction ss arbitrary: bs as)
  case Nil
  then show ?case by (auto simp: list_all_iff)
next
  case (Cons s ss)
  obtain as1 bs1 as2 where m: "match_sale w s bs = Some (as1, bs1)" "match_sales w ss bs1 = Some as2" "as = as1 @ as2"
    using Cons.prems(1) by (auto split: option.splits)
  have s: "share_count (remaining_qty s)" "0 \<le> remaining_qty s" "sale_id s \<notin> sale_id ` set ss" "distinct (map sale_id ss)"
    using Cons.prems(4,5) by simp_all
  note M = match_sale_consumes [OF m(1) Cons.prems(2,3) s(1,2)]
  have d1: "list_all2 (drained as1) bs bs1" using M by blast
  note bs1 = drained_ids [OF d1]
  have ids: "map buy_id bs1 = map buy_id bs"
    using arg_cong [OF conjunct1 [OF bs1], of "map trade_id"] by (simp add: comp_def)
  have dist1: "distinct (map buy_id bs1)" using Cons.prems(2) by (simp only: ids)
  have rest: "\<forall>s\<in>set ss. share_count (remaining_qty s) \<and> 0 \<le> remaining_qty s" using Cons.prems(5) by simp
  note IH = Cons.IH [OF m(2) dist1 conjunct2 [OF bs1] s(4) rest]
  have "used (buy_id b) as \<le> available_qty b" if "b \<in> set bs" for b
  proof -
    obtain i where i: "i < length bs" "b = bs ! i" using \<open>b \<in> set bs\<close> by (auto simp: in_set_conv_nth)
    then have dr: "drained as1 b (bs1 ! i)" "bs1 ! i \<in> set bs1" using d1 by (auto simp: list_all2_conv_all_nth)
    then have "used (buy_id (bs1 ! i)) as2 \<le> available_qty (bs1 ! i)" using IH by blast
    then show ?thesis using dr(1) by (simp add: drained_def m(3))
  qed
  moreover have as1_ids: "\<forall>a\<in>set as1. sale_trade_id a = sale_id s" using M by (auto simp: links_def)
  have "sold (sale_id x) as \<le> remaining_qty x" if x: "x \<in> set (s # ss)" for x
  proof (cases "x = s")
    case True
    have "sale_trade_id a \<noteq> sale_id s" if "a \<in> set as2" for a
    proof -
      have "\<exists>x\<in>set ss. \<exists>c\<in>set bs1. links w a (sale_trade x) (buy_trade c)"
        by (rule bspec [OF conjunct2 [OF conjunct2 [OF IH]] that])
      then show ?thesis using s(3) by (auto simp: links_def intro: image_eqI [OF sym])
    qed
    then have "sold (sale_id s) as2 = 0" by (intro sold_other) blast
    moreover have "sum_list (map matched_quantity as1) = sold (sale_id s) as1"
      using as1_ids by (rule sum_sold)
    ultimately show ?thesis using M True m(3) by simp
  next
    case False
    then have "x \<in> set ss" using x by simp
    then have "sale_id x \<noteq> sale_id s" using s(3) by (auto intro: image_eqI [OF sym])
    then have "sold (sale_id x) as1 = 0" using as1_ids by (intro sold_other) auto
    then show ?thesis using IH \<open>x \<in> set ss\<close> m(3) by simp
  qed
  moreover have "\<exists>x\<in>set (s # ss). \<exists>b\<in>set bs. links w a (sale_trade x) (buy_trade b)" if "a \<in> set as" for a
  proof -
    have "set (map buy_trade bs1) = set (map buy_trade bs)" using bs1 by (simp only:)
    then have tr: "\<exists>b\<in>set bs. buy_trade b = buy_trade c" if "c \<in> set bs1" for c
      using imageI [OF that, of buy_trade] by auto
    from that consider "a \<in> set as1" | "a \<in> set as2" by (auto simp: m(3))
    then show ?thesis
    proof cases
      case 1
      then show ?thesis using M by auto
    next
      case 2
      then obtain x c where x: "x \<in> set ss" "c \<in> set bs1" "links w a (sale_trade x) (buy_trade c)" using IH by blast
      then obtain b where b: "b \<in> set bs" "buy_trade b = buy_trade c" using tr by blast
      have "links w a (sale_trade x) (buy_trade b)" using x(3) b(2) by simp
      then show ?thesis using x(1) b(1) by (meson list.set_intros(2))
    qed
  qed
  ultimately show ?case by blast
qed

lemma used_mset: "mset as = mset bs \<Longrightarrow> used i as = used i bs"
  by (simp add: used_def flip: sum_mset_sum_list)

lemma sold_mset: "mset as = mset bs \<Longrightarrow> sold i as = sold i bs"
  by (simp add: sold_def flip: sum_mset_sum_list)

section \<open>The detector\<close>

lemma loss_sale_fields:
  "loss_sale d t = Some s \<Longrightarrow> sale_trade s = t \<and> remaining_qty s = trade_quantity t"
  by (auto simp: loss_sale_def Let_def split: if_splits)

lemma map_filter_sales:
  "map sale_trade (List.map_filter (loss_sale d) ts) = filter (\<lambda>t. loss_sale d t \<noteq> None) ts"
  by (induction ts) (auto simp: List.map_filter_def loss_sale_fields)

lemma loss_sales_trades:
  "mset (map sale_trade (loss_sales ts d)) = mset (filter (\<lambda>t. loss_sale d t \<noteq> None) (filter (\<lambda>t. trade_side t = SELL) ts))"
  "s \<in> set (loss_sales ts d) \<Longrightarrow> remaining_qty s = trade_quantity (sale_trade s)"
proof -
  have "mset (loss_sales ts d) = mset (List.map_filter (loss_sale d) (filter (\<lambda>t. trade_side t = SELL) ts))"
    by (simp add: loss_sales_def)
  then have "image_mset sale_trade (mset (loss_sales ts d)) =
      mset (map sale_trade (List.map_filter (loss_sale d) (filter (\<lambda>t. trade_side t = SELL) ts)))" by simp
  then show "mset (map sale_trade (loss_sales ts d)) = mset (filter (\<lambda>t. loss_sale d t \<noteq> None) (filter (\<lambda>t. trade_side t = SELL) ts))"
    by (simp only: map_filter_sales mset_map)
next
  assume "s \<in> set (loss_sales ts d)"
  then show "remaining_qty s = trade_quantity (sale_trade s)"
    by (auto simp: loss_sales_def List.map_filter_def loss_sale_fields)
qed

lemma distinct_filter_ids: "distinct (map f ts) \<Longrightarrow> distinct (map f (filter P ts))"
  by (rule distinct_map_filter)

lemma surviving_buys:
  assumes "fifo_pass trades basis0 = (lots, basis)" "distinct (map trade_id trades)"
    and "\<forall>t\<in>set trades. share_count (trade_quantity t) \<and> 0 < trade_quantity t"
  shows "distinct (map buy_id (surviving_lots lots))"
    and "\<forall>b\<in>set (surviving_lots lots). lot_ok b \<and> buy_trade b \<in> set trades \<and> trade_side (buy_trade b) = BUY"
proof -
  let ?bs = "surviving_lots lots"
  have L: "list_all lot_ok (all_lots lots)" "mset (map buy_trade (all_lots lots)) = mset (filter (\<lambda>t. trade_side t = BUY) trades)"
    using fifo_pass_lots [OF assms(3), of basis0] by (simp_all add: assms(1))
  have "mset (map buy_id (all_lots lots)) = mset (map trade_id (filter (\<lambda>t. trade_side t = BUY) trades))"
    using arg_cong [OF L(2), of "image_mset trade_id"] by (simp add: multiset.map_comp comp_def)
  then have "distinct (map buy_id (all_lots lots))"
    using distinct_filter_ids [OF assms(2)] by (metis mset_eq_imp_distinct_iff)
  then have "distinct (map buy_id (filter (\<lambda>l. 0 < available_qty l) (all_lots lots)))" by (rule distinct_filter_ids)
  moreover have "mset (map buy_id ?bs) = mset (map buy_id (filter (\<lambda>l. 0 < available_qty l) (all_lots lots)))"
    by (simp add: surviving_lots_def all_lots_def)
  ultimately show "distinct (map buy_id ?bs)" by (metis mset_eq_imp_distinct_iff)
  have "set ?bs \<subseteq> set (all_lots lots)" by (auto simp: surviving_lots_def all_lots_def)
  moreover have "buy_trade ` set (all_lots lots) = {t \<in> set trades. trade_side t = BUY}"
    using mset_eq_setD [OF L(2)] by simp
  ultimately show "\<forall>b\<in>set ?bs. lot_ok b \<and> buy_trade b \<in> set trades \<and> trade_side (buy_trade b) = BUY"
    using L(1) by (auto simp: list_all_iff)
qed

lemma detected_sales:
  assumes "distinct (map trade_id trades)"
  shows "distinct (map sale_id (loss_sales trades basis))"
    and "\<forall>s\<in>set (loss_sales trades basis). sale_trade s \<in> set trades \<and> trade_side (sale_trade s) = SELL"
proof -
  let ?ss = "loss_sales trades basis"
  note T = loss_sales_trades(1) [of trades basis]
  have "mset (map sale_id ?ss) = mset (map trade_id (filter (\<lambda>t. loss_sale basis t \<noteq> None) (filter (\<lambda>t. trade_side t = SELL) trades)))"
    using arg_cong [OF T, of "image_mset trade_id"] by (simp add: multiset.map_comp comp_def)
  then show "distinct (map sale_id ?ss)"
    using distinct_filter_ids [OF distinct_filter_ids [OF assms]] by (metis mset_eq_imp_distinct_iff)
  show "\<forall>s\<in>set ?ss. sale_trade s \<in> set trades \<and> trade_side (sale_trade s) = SELL"
    using mset_eq_setD [OF T] by auto
qed

text \<open>An amount matched per id is bounded for every trade when it is bounded for the ones that can be matched.\<close>

lemma matched_at_most:
  assumes ids: "distinct (map trade_id trades)" and t: "t \<in> set trades" "0 \<le> trade_quantity t"
    and cs: "\<forall>c\<in>set cs. trade_of c \<in> set trades" "\<forall>c\<in>set cs. amt (trade_id (trade_of c)) \<le> trade_quantity (trade_of c)"
    and rest: "\<forall>i. i \<notin> (\<lambda>c. trade_id (trade_of c)) ` set cs \<longrightarrow> amt i = (0 :: rat)"
  shows "amt (trade_id t) \<le> trade_quantity t"
proof (cases "trade_id t \<in> (\<lambda>c. trade_id (trade_of c)) ` set cs")
  case True
  then obtain c where c: "c \<in> set cs" "trade_id t = trade_id (trade_of c)" by blast
  then have "t = trade_of c" using ids t(1) cs(1) by (auto simp: distinct_map inj_on_def)
  then show ?thesis using c cs(2) by blast
qed (use rest t(2) in simp)

text \<open>
  C28.  Shares are matched once: with distinct trade ids, every adjustment of \<open>detect_wash_sales\<close> links a sale and a
  purchase of the same symbol inside the window, the replacement shares of a purchase never
  exceed its quantity, and the shares matched to a sale never exceed the shares sold.
\<close>

theorem wash_sales_match_once:
  assumes "detect_wash_sales trades d window_days = Inr as" "distinct (map trade_id trades)"
    and "\<forall>t\<in>set trades. share_count (trade_quantity t) \<and> 0 < trade_quantity t"
  shows "(\<forall>a\<in>set as. \<exists>s\<in>set trades. \<exists>b\<in>set trades. trade_side s = SELL \<and> trade_side b = BUY
           \<and> links (window_days * us_per_day) a s b)
    \<and> (\<forall>b\<in>set trades. used (trade_id b) as \<le> trade_quantity b)
    \<and> (\<forall>s\<in>set trades. sold (trade_id s) as \<le> trade_quantity s)"
proof (cases "window_days = 0")
  case True
  then have "as = []" using assms(1) by (simp add: detect_wash_sales_def)
  then show ?thesis using assms(3) by (auto intro: less_imp_le)
next
  case False
  obtain lots basis where pass: "fifo_pass trades (case d of None \<Rightarrow> [] | Some d \<Rightarrow> d) = (lots, basis)" by fastforce
  let ?w = "window_days * us_per_day" and ?ss = "loss_sales trades basis" and ?bs = "surviving_lots lots"
  obtain as' where as': "match_sales ?w ?ss ?bs = Some as'" "mset as = mset as'" "set as = set as'"
    using assms(1) False pass by (auto simp: detect_wash_sales_def split: if_splits option.splits)
  note B = surviving_buys [OF pass assms(2,3)] and S = detected_sales [OF assms(2), of basis]
  have "list_all buy_ok ?bs" using B(2) by (auto simp: list_all_iff lot_ok_def)
  moreover have "\<forall>s\<in>set ?ss. share_count (remaining_qty s) \<and> 0 \<le> remaining_qty s"
    using S(2) assms(3) loss_sales_trades(2) by (auto intro: less_imp_le)
  ultimately have M: "\<forall>b\<in>set ?bs. used (buy_id b) as' \<le> available_qty b" "\<forall>s\<in>set ?ss. sold (sale_id s) as' \<le> remaining_qty s"
      "\<forall>a\<in>set as'. \<exists>s\<in>set ?ss. \<exists>b\<in>set ?bs. links ?w a (sale_trade s) (buy_trade b)"
    using match_sales_consumes [OF as'(1) B(1) _ S(1)] by blast+
  have "\<exists>s\<in>set trades. \<exists>b\<in>set trades. trade_side s = SELL \<and> trade_side b = BUY \<and> links ?w a s b" if "a \<in> set as" for a
    using that M(3) B(2) S(2) as'(3) by blast
  moreover have "used (trade_id b) as \<le> trade_quantity b" if "b \<in> set trades" for b
  proof (rule matched_at_most [OF assms(2) that, where cs = ?bs and trade_of = buy_trade])
    show "\<forall>i. i \<notin> buy_id ` set ?bs \<longrightarrow> used i as = 0"
      using M(3) used_mset [OF as'(2)] by (auto intro!: used_other simp: links_def)
  qed (use that assms(3) B(2) M(1) used_mset [OF as'(2)] in \<open>fastforce simp: lot_ok_def intro: less_imp_le\<close>)+
  moreover have "sold (trade_id s) as \<le> trade_quantity s" if "s \<in> set trades" for s
  proof (rule matched_at_most [OF assms(2) that, where cs = ?ss and trade_of = sale_trade])
    show "\<forall>i. i \<notin> sale_id ` set ?ss \<longrightarrow> sold i as = 0"
      using M(3) sold_mset [OF as'(2)] by (auto intro!: sold_other simp: links_def)
  qed (use that assms(3) S(2) M(2) sold_mset [OF as'(2)] loss_sales_trades(2) in \<open>fastforce intro: less_imp_le\<close>)+
  ultimately show ?thesis by blast
qed

section \<open>Replacement shares that are sold again\<close>

text \<open>Buy and sell at a loss, buy again ten days later; the replacement shares are sold half a year later.\<close>

definition first_buy :: Trade where
  "first_buy = \<lparr>trade_id = ''b1'', trade_symbol = ''A'', trade_side = BUY, trade_quantity = 100, trade_price = 10, trade_when = 0\<rparr>"

definition loss_trade :: Trade where
  "loss_trade = \<lparr>trade_id = ''s1'', trade_symbol = ''A'', trade_side = SELL, trade_quantity = 100, trade_price = 5,
     trade_when = 100 * us_per_day\<rparr>"

definition replacement_buy :: Trade where
  "replacement_buy = \<lparr>trade_id = ''b2'', trade_symbol = ''A'', trade_side = BUY, trade_quantity = 100, trade_price = 5,
     trade_when = 110 * us_per_day\<rparr>"

definition last_sale :: Trade where
  "last_sale = \<lparr>trade_id = ''s2'', trade_symbol = ''A'', trade_side = SELL, trade_quantity = 100, trade_price = 6,
     trade_when = 290 * us_per_day\<rparr>"

lemmas sample_trades = first_buy_def loss_trade_def replacement_buy_def last_sale_def us_per_day_def

lemmas detector_unfold = detect_wash_sales_def fifo_pass_def fifo_step_def lots_of_def loss_sales_def loss_sale_def
  surviving_lots_def gross_def may_replace_def

lemma detect_with_replacement:
  "detect_wash_sales [first_buy, loss_trade, replacement_buy] None 30 =
     Inr [\<lparr>sale_trade_id = ''s1'', replacement_trade_id = ''b2'', adj_symbol = ''A'', matched_quantity = 100, disallowed_loss = 500\<rparr>]"
proof -
  have q: "quantize 4 500 = Some 500" using quantize_places [of 5000000 4] by simp
  show ?thesis
    by (simp add: detector_unfold sample_trades Let_def dadd_def dsub_def dmul_def ddiv_def List.map_filter_def q)
qed

text \<open>
  A replacement that is sold escapes: a sale at a loss followed by a purchase of the same shares ten days later is
  a wash sale, but once the replacement shares have been sold as well, even half a year
  later, the detector reports no adjustment at all for the same history.
\<close>

theorem sold_replacement_escapes:
  "length (case detect_wash_sales [first_buy, loss_trade, replacement_buy] None WASH_SALE_WINDOW_DAYS of Inr as \<Rightarrow> as | Inl e \<Rightarrow> []) = 1
   \<and> detect_wash_sales [first_buy, loss_trade, replacement_buy, last_sale] None WASH_SALE_WINDOW_DAYS = Inr []"
proof
  show "length (case detect_wash_sales [first_buy, loss_trade, replacement_buy] None WASH_SALE_WINDOW_DAYS of Inr as \<Rightarrow> as | Inl e \<Rightarrow> []) = 1"
    by (simp add: detect_with_replacement WASH_SALE_WINDOW_DAYS_def)
  have "match_sales w ss [] = Some []" for w ss by (induction ss) simp_all
  then show "detect_wash_sales [first_buy, loss_trade, replacement_buy, last_sale] None WASH_SALE_WINDOW_DAYS = Inr []"
    by (simp add: detector_unfold sample_trades Let_def dadd_def dsub_def dmul_def WASH_SALE_WINDOW_DAYS_def)
qed

theorem wash_sales_match_once_witness:
  "\<exists>as. detect_wash_sales [first_buy, loss_trade, replacement_buy] None 30 = Inr as \<and> as \<noteq> [] \<and> used ''b2'' as \<le> 100"
proof -
  have "share_count 100" unfolding share_count_def by (rule exI [of _ "100 * 10 ^ 8"]) simp
  then have "\<forall>t\<in>set [first_buy, loss_trade, replacement_buy]. share_count (trade_quantity t) \<and> 0 < trade_quantity t"
    by (simp add: sample_trades)
  from wash_sales_match_once [OF detect_with_replacement _ this] detect_with_replacement
  show ?thesis by (simp add: sample_trades)
qed

end
