(* ===== verification/Streaming.thy ===== *)
theory Streaming
  imports Prelude "HOL-Library.Sublist"
begin

text \<open>
  The bounded containers of the streaming layer: \<open>BoundedBuffer\<close> of
  \<open>engine/data/streaming/ring_buffer.py\<close> with its two drop policies and counters, and
  \<open>ReplayLog\<close> of \<open>engine/data/streaming/replay.py\<close>, the recent history with sequence numbers.

  A \<open>deque\<close> is a list, its left end the head; \<open>deque(maxlen=n)\<close> drops from the left when it
  is full.  Every method works under the lock of its object, so it is one step.
\<close>

section \<open>The bounded buffer\<close>

datatype DropPolicy = DROP_OLDEST | DROP_NEWEST

datatype stream_error = SizeNotPositive | PopFromEmpty

record 'a BoundedBuffer =
  bb_maxsize :: int
  bb_policy :: DropPolicy
  bb_items :: "'a list"
  bb_dropped_oldest :: int
  bb_dropped_newest :: int

definition new_buffer :: "int \<Rightarrow> DropPolicy \<Rightarrow> stream_error + 'a BoundedBuffer" where
  "new_buffer maxsize policy =
     (if maxsize \<le> 0 then Inl SizeNotPositive
      else Inr \<lparr>bb_maxsize = maxsize, bb_policy = policy, bb_items = [], bb_dropped_oldest = 0, bb_dropped_newest = 0\<rparr>)"

definition dropped_total :: "'a BoundedBuffer \<Rightarrow> int" where
  "dropped_total b = bb_dropped_oldest b + bb_dropped_newest b"

definition bb_len :: "'a BoundedBuffer \<Rightarrow> int" where
  "bb_len b = int (length (bb_items b))"

definition is_full :: "'a BoundedBuffer \<Rightarrow> bool" where
  "is_full b = (bb_maxsize b \<le> int (length (bb_items b)))"

definition is_empty :: "'a BoundedBuffer \<Rightarrow> bool" where
  "is_empty b = (bb_items b = [])"

definition put :: "'a \<Rightarrow> 'a BoundedBuffer \<Rightarrow> bool \<times> 'a BoundedBuffer" where
  "put x b =
     (if int (length (bb_items b)) < bb_maxsize b then (True, b\<lparr>bb_items := bb_items b @ [x]\<rparr>)
      else case bb_policy b of
        DROP_OLDEST \<Rightarrow> (True, b\<lparr>bb_items := tl (bb_items b) @ [x], bb_dropped_oldest := bb_dropped_oldest b + 1\<rparr>)
      | DROP_NEWEST \<Rightarrow> (False, b\<lparr>bb_dropped_newest := bb_dropped_newest b + 1\<rparr>))"

definition get :: "'a BoundedBuffer \<Rightarrow> (stream_error + 'a) \<times> 'a BoundedBuffer" where
  "get b = (case bb_items b of [] \<Rightarrow> (Inl PopFromEmpty, b) | x # xs \<Rightarrow> (Inr x, b\<lparr>bb_items := xs\<rparr>))"

definition get_nowait_or :: "'a \<Rightarrow> 'a BoundedBuffer \<Rightarrow> 'a \<times> 'a BoundedBuffer" where
  "get_nowait_or fallback b = (case bb_items b of [] \<Rightarrow> (fallback, b) | x # xs \<Rightarrow> (x, b\<lparr>bb_items := xs\<rparr>))"

definition drain :: "'a BoundedBuffer \<Rightarrow> 'a list \<times> 'a BoundedBuffer" where
  "drain b = (bb_items b, b\<lparr>bb_items := []\<rparr>)"

definition bb_snapshot :: "'a BoundedBuffer \<Rightarrow> 'a list" where
  "bb_snapshot b = bb_items b"

definition bb_iter :: "'a BoundedBuffer \<Rightarrow> 'a list" where
  "bb_iter b = bb_snapshot b"

definition reset_drop_counters :: "'a BoundedBuffer \<Rightarrow> 'a BoundedBuffer" where
  "reset_drop_counters b = b\<lparr>bb_dropped_oldest := 0, bb_dropped_newest := 0\<rparr>"

section \<open>Accounting\<close>

datatype 'a buffer_op = Put 'a | Get | GetOr 'a | Drain

fun op_puts :: "'a buffer_op \<Rightarrow> 'a list" where
  "op_puts (Put x) = [x]"
| "op_puts op = []"

text \<open>One operation on the buffer, and what it delivers to the consumer.\<close>

fun buffer_step :: "'a BoundedBuffer \<Rightarrow> 'a buffer_op \<Rightarrow> 'a BoundedBuffer \<times> 'a list" where
  "buffer_step b (Put x) = (snd (put x b), [])"
| "buffer_step b Get = (case get b of (Inl e, b') \<Rightarrow> (b', []) | (Inr x, b') \<Rightarrow> (b', [x]))"
| "buffer_step b (GetOr d) = (case get_nowait_or d b of (x, b') \<Rightarrow> (b', if is_empty b then [] else [x]))"
| "buffer_step b Drain = (case drain b of (xs, b') \<Rightarrow> (b', xs))"

fun buffer_run :: "'a BoundedBuffer \<Rightarrow> 'a buffer_op list \<Rightarrow> 'a BoundedBuffer \<times> 'a list" where
  "buffer_run b [] = (b, [])"
| "buffer_run b (x # xs) = (case buffer_step b x of (b1, out1) \<Rightarrow>
     case buffer_run b1 xs of (b2, out2) \<Rightarrow> (b2, out1 @ out2))"

definition puts :: "'a buffer_op list \<Rightarrow> 'a list" where
  "puts ops = concat (map op_puts ops)"

definition buffer_ok :: "'a BoundedBuffer \<Rightarrow> 'a list \<Rightarrow> 'a list \<Rightarrow> bool" where
  "buffer_ok b xs out \<longleftrightarrow> 0 < bb_maxsize b \<and> int (length (bb_items b)) \<le> bb_maxsize b
     \<and> subseq (out @ bb_items b) xs
     \<and> int (length xs) = int (length out) + int (length (bb_items b)) + dropped_total b
     \<and> (bb_policy b = DROP_OLDEST \<longrightarrow> suffix (bb_items b) xs)"

lemma buffer_ok_put:
  assumes "buffer_ok b xs out"
  shows "buffer_ok (snd (put x b)) (xs @ [x]) out"
proof (cases "int (length (bb_items b)) < bb_maxsize b")
  case True
  have "subseq ((out @ bb_items b) @ [x]) (xs @ [x])" using assms by (simp only: subseq_append buffer_ok_def)
  then show ?thesis using assms True by (auto simp: put_def buffer_ok_def dropped_total_def)
next
  case full: False
  then obtain y ys where items: "bb_items b = y # ys" using assms by (cases "bb_items b") (auto simp: buffer_ok_def)
  show ?thesis
  proof (cases "bb_policy b")
    case DROP_OLDEST
    have "subseq (out @ ys) (out @ y # ys)" by (intro list_emb_append_mono) auto
    then have "subseq (out @ ys) xs" using assms items unfolding buffer_ok_def by (metis subseq_order.trans)
    then have "subseq ((out @ ys) @ [x]) (xs @ [x])" by (simp only: subseq_append)
    moreover have "suffix (ys @ [x]) (xs @ [x])" using assms items DROP_OLDEST
      by (auto simp: buffer_ok_def suffix_def)
    ultimately show ?thesis using assms full items DROP_OLDEST by (auto simp: put_def buffer_ok_def dropped_total_def)
  next
    case DROP_NEWEST
    have "subseq (out @ bb_items b) (xs @ [x])" using assms by (auto simp: buffer_ok_def)
    then show ?thesis using assms full DROP_NEWEST by (auto simp: put_def buffer_ok_def dropped_total_def)
  qed
qed

lemma buffer_ok_deliver:
  assumes "buffer_ok b xs out" "bb_items b = ys @ zs"
  shows "buffer_ok (b\<lparr>bb_items := zs\<rparr>) xs (out @ ys)"
  using assms by (auto simp: buffer_ok_def dropped_total_def dest: suffix_appendD)

lemma buffer_ok_step:
  assumes "buffer_ok b xs out"
  shows "buffer_ok (fst (buffer_step b op)) (xs @ op_puts op) (out @ snd (buffer_step b op))"
proof (cases op)
  case (Put x)
  then show ?thesis using buffer_ok_put [OF assms] by simp
next
  case Get
  then show ?thesis using assms buffer_ok_deliver [OF assms, of "[hd (bb_items b)]" "tl (bb_items b)"]
    by (cases "bb_items b") (simp_all add: get_def)
next
  case (GetOr d)
  then show ?thesis using assms buffer_ok_deliver [OF assms, of "[hd (bb_items b)]" "tl (bb_items b)"]
    by (cases "bb_items b") (simp_all add: get_nowait_or_def is_empty_def)
next
  case Drain
  then show ?thesis using buffer_ok_deliver [OF assms, of "bb_items b" "[]"] by (simp add: drain_def)
qed

lemma buffer_ok_run:
  "buffer_ok b xs out \<Longrightarrow> buffer_ok (fst (buffer_run b ops)) (xs @ puts ops) (out @ snd (buffer_run b ops))"
proof (induction ops arbitrary: b xs out)
  case (Cons op ops)
  then show ?case using Cons.IH [OF buffer_ok_step [OF Cons.prems, of op]]
    by (simp add: puts_def case_prod_beta)
qed (simp add: puts_def)

text \<open>
  The buffer loses nothing silently: after any sequence of puts, gets and drains it holds at most
  \<open>maxsize\<close> items; what was delivered followed by what it holds is, in order, a part of what was put, and
  the counters account for exactly the missing items.  With \<open>DROP_OLDEST\<close> it holds the latest items.
\<close>

theorem buffer_accounts_for_all:
  assumes "new_buffer maxsize policy = Inr b" "buffer_run b ops = (b', out)"
  shows "int (length (bb_items b')) \<le> maxsize \<and> subseq (out @ bb_items b') (puts ops)
    \<and> int (length (puts ops)) = int (length out) + int (length (bb_items b')) + dropped_total b'
    \<and> (policy = DROP_OLDEST \<longrightarrow> suffix (bb_items b') (puts ops))"
proof -
  have b: "b = \<lparr>bb_maxsize = maxsize, bb_policy = policy, bb_items = [], bb_dropped_oldest = 0, bb_dropped_newest = 0\<rparr>"
    "0 < maxsize" using assms(1) by (auto simp: new_buffer_def split: if_splits)
  then have "buffer_ok b [] []" by (simp add: buffer_ok_def dropped_total_def)
  from buffer_ok_run [OF this, of ops] have "buffer_ok b' (puts ops) out" by (simp add: assms(2))
  moreover have "bb_maxsize (fst (buffer_step c op)) = bb_maxsize c \<and> bb_policy (fst (buffer_step c op)) = bb_policy c"
    for c :: "'a BoundedBuffer" and op
    by (cases op) (auto simp: put_def get_def get_nowait_or_def drain_def split: list.splits DropPolicy.splits)
  then have "bb_maxsize (fst (buffer_run c xs)) = bb_maxsize c \<and> bb_policy (fst (buffer_run c xs)) = bb_policy c"
    for c :: "'a BoundedBuffer" and xs
    by (induction xs arbitrary: c) (simp_all add: case_prod_beta)
  from this [of b ops, unfolded assms(2)] have "bb_maxsize b' = maxsize" "bb_policy b' = policy" by (simp_all add: b(1))
  ultimately show ?thesis by (simp add: buffer_ok_def)
qed

section \<open>The replay log\<close>

record 'a ReplayLog =
  rl_capacity :: int
  rl_items :: "(int \<times> 'a) list"
  rl_next_seq :: int

definition new_replay_log :: "int \<Rightarrow> stream_error + 'a ReplayLog" where
  "new_replay_log capacity =
     (if capacity \<le> 0 then Inl SizeNotPositive
      else Inr \<lparr>rl_capacity = capacity, rl_items = [], rl_next_seq = 0\<rparr>)"

definition rl_len :: "'a ReplayLog \<Rightarrow> int" where
  "rl_len l = int (length (rl_items l))"

text \<open>Appending to a \<open>deque\<close> of bounded length.\<close>

definition bounded_append :: "int \<Rightarrow> 'a \<Rightarrow> 'a list \<Rightarrow> 'a list" where
  "bounded_append n x xs = (if int (length xs) < n then xs @ [x] else tl xs @ [x])"

definition replay_record :: "'a \<Rightarrow> 'a ReplayLog \<Rightarrow> int \<times> 'a ReplayLog" where
  "replay_record p l =
     (rl_next_seq l,
      l\<lparr>rl_items := bounded_append (rl_capacity l) (rl_next_seq l, p) (rl_items l), rl_next_seq := rl_next_seq l + 1\<rparr>)"

definition since_seq :: "int \<Rightarrow> 'a ReplayLog \<Rightarrow> 'a list" where
  "since_seq after l = map snd (filter (\<lambda>e. after < fst e) (rl_items l))"

definition oldest_seq :: "'a ReplayLog \<Rightarrow> int option" where
  "oldest_seq l = (case rl_items l of [] \<Rightarrow> None | e # es \<Rightarrow> Some (fst e))"

definition latest :: "int \<Rightarrow> 'a ReplayLog \<Rightarrow> 'a list" where
  "latest n l =
     (if n \<le> 0 then []
      else map (\<lambda>i. snd (rl_items l ! i)) [nat (max (int (length (rl_items l)) - n) 0)..<length (rl_items l)])"

definition replay_clear :: "'a ReplayLog \<Rightarrow> 'a ReplayLog" where
  "replay_clear l = l\<lparr>rl_items := []\<rparr>"

section \<open>The log refines an unbounded history\<close>

text \<open>
  The specification: a history that keeps every message with its number since the last \<open>clear\<close>, and how
  many messages were ever recorded.  A client of a log with capacity \<open>n\<close> sees the last \<open>n\<close> of them.
\<close>

record 'a history =
  h_entries :: "(int \<times> 'a) list"
  h_count :: int

definition spec_init :: "'a history" where
  "spec_init = \<lparr>h_entries = [], h_count = 0\<rparr>"

definition spec_record :: "'a \<Rightarrow> 'a history \<Rightarrow> int \<times> 'a history" where
  "spec_record p h = (h_count h, \<lparr>h_entries = h_entries h @ [(h_count h, p)], h_count = h_count h + 1\<rparr>)"

definition spec_clear :: "'a history \<Rightarrow> 'a history" where
  "spec_clear h = h\<lparr>h_entries := []\<rparr>"

definition last_n :: "int \<Rightarrow> 'a list \<Rightarrow> 'a list" where
  "last_n n xs = drop (length xs - nat n) xs"

definition spec_since :: "int \<Rightarrow> int \<Rightarrow> 'a history \<Rightarrow> 'a list" where
  "spec_since n after h = map snd (filter (\<lambda>e. after < fst e) (last_n n (h_entries h)))"

definition spec_latest :: "int \<Rightarrow> int \<Rightarrow> 'a history \<Rightarrow> 'a list" where
  "spec_latest n k h = map snd (last_n (min k n) (h_entries h))"

definition refines :: "'a ReplayLog \<Rightarrow> 'a history \<Rightarrow> bool" where
  "refines l h \<longleftrightarrow> 0 < rl_capacity l \<and> rl_items l = last_n (rl_capacity l) (h_entries h) \<and> rl_next_seq l = h_count h
     \<and> map fst (h_entries h) = [h_count h - int (length (h_entries h))..h_count h - 1]"

lemma length_last_n: "0 \<le> n \<Longrightarrow> int (length (last_n n xs)) = min n (int (length xs))"
  by (auto simp: last_n_def)

lemma bounded_append_last_n:
  assumes "0 < n"
  shows "bounded_append n x (last_n n xs) = last_n n (xs @ [x])"
proof (cases "int (length xs) < n")
  case True
  then show ?thesis using assms by (auto simp: bounded_append_def last_n_def)
next
  case False
  then have "length (last_n n xs) = nat n" using length_last_n [of n xs] assms by linarith
  moreover have "length xs - nat n < length xs" using False assms by linarith
  then have "tl (drop (length xs - nat n) xs) = drop (Suc (length xs - nat n)) xs" by (simp add: drop_Suc tl_drop)
  moreover have "Suc (length xs) - nat n = Suc (length xs - nat n)" using False assms by linarith
  ultimately show ?thesis using False assms by (auto simp: bounded_append_def last_n_def)
qed

lemma refines_record:
  assumes "refines l h"
  shows "fst (replay_record p l) = fst (spec_record p h) \<and> refines (snd (replay_record p l)) (snd (spec_record p h))"
proof -
  have "[h_count h - int (length (h_entries h))..h_count h] = [h_count h - int (length (h_entries h))..h_count h - 1] @ [h_count h]"
    using upto_rec2 [of "h_count h - int (length (h_entries h))" "h_count h"] by simp
  then show ?thesis
    using assms bounded_append_last_n by (auto simp: refines_def replay_record_def spec_record_def algebra_simps)
qed

lemma refines_clear: "refines l h \<Longrightarrow> refines (replay_clear l) (spec_clear h)"
  by (simp add: refines_def replay_clear_def spec_clear_def last_n_def)

lemma map_nth_drop: "map (\<lambda>i. f (xs ! i)) [k..<length xs] = map f (drop k xs)"
  by (rule nth_equalityI) auto

lemma drop_last_n: "drop (length (last_n n xs) - k) (last_n n xs) = drop (length xs - min k (nat n)) xs"
  by (auto simp: last_n_def intro!: arg_cong [of _ _ "\<lambda>j. drop j xs"])

lemma latest_last_n:
  assumes "0 < rl_capacity l" "rl_items l = last_n (rl_capacity l) es" "0 < k"
  shows "latest k l = map snd (last_n (min k (rl_capacity l)) es)"
proof -
  have k: "nat (max (int (length (rl_items l)) - k) 0) = length (rl_items l) - nat k" using assms(3) by linarith
  have "latest k l = map snd (drop (length (rl_items l) - nat k) (rl_items l))"
    using assms(3) k by (simp add: latest_def map_nth_drop)
  also have "\<dots> = map snd (drop (length es - min (nat k) (nat (rl_capacity l))) es)"
    by (simp only: assms(2) drop_last_n)
  finally show ?thesis by (simp add: last_n_def min_def)
qed

datatype 'a replay_op = Record 'a | Clear

fun replay_step :: "'a ReplayLog \<Rightarrow> 'a replay_op \<Rightarrow> 'a ReplayLog" where
  "replay_step l (Record p) = snd (replay_record p l)"
| "replay_step l Clear = replay_clear l"

fun spec_step :: "'a history \<Rightarrow> 'a replay_op \<Rightarrow> 'a history" where
  "spec_step h (Record p) = snd (spec_record p h)"
| "spec_step h Clear = spec_clear h"

lemma refines_run: "refines l h \<Longrightarrow> refines (foldl replay_step l ops) (foldl spec_step h ops)"
proof (induction ops arbitrary: l h)
  case (Cons op ops)
  have "refines (replay_step l op) (spec_step h op)"
    using refines_record [OF Cons.prems] refines_clear [OF Cons.prems] by (cases op) simp_all
  then show ?case using Cons.IH by simp
qed simp

lemma replay_step_capacity: "rl_capacity (foldl replay_step l ops) = rl_capacity l"
proof (induction ops arbitrary: l)
  case (Cons x ops)
  then show ?case by (cases x) (simp_all add: replay_record_def replay_clear_def)
qed simp

lemma refines_from_new:
  assumes "new_replay_log capacity = Inr l0"
  shows "refines (foldl replay_step l0 ops) (foldl spec_step spec_init ops)"
    "rl_capacity (foldl replay_step l0 ops) = capacity" "0 < capacity"
proof -
  have l0: "l0 = \<lparr>rl_capacity = capacity, rl_items = [], rl_next_seq = 0\<rparr>" "0 < capacity"
    using assms by (auto simp: new_replay_log_def split: if_splits)
  show "0 < capacity" by (rule l0(2))
  have "refines l0 spec_init" using l0 by (simp add: refines_def spec_init_def last_n_def)
  then show "refines (foldl replay_step l0 ops) (foldl spec_step spec_init ops)" by (rule refines_run)
  show "rl_capacity (foldl replay_step l0 ops) = capacity" by (simp add: replay_step_capacity l0(1))
qed

text \<open>
  C29.  The replay log refines the unbounded history: after any records and clears, the number that
  \<open>record\<close> returns next is that of the history, and \<open>since_seq\<close>, \<open>latest\<close>, \<open>oldest_seq\<close> and the length
  answer what the last \<open>capacity\<close> messages of the history say.
\<close>

theorem replay_log_refines_history:
  assumes "new_replay_log capacity = Inr l0" "l = foldl replay_step l0 ops" "h = foldl spec_step spec_init ops" "0 < k"
  shows "fst (replay_record p l) = fst (spec_record p h)
    \<and> since_seq after l = spec_since capacity after h
    \<and> latest k l = spec_latest capacity k h
    \<and> rl_len l = min capacity (int (length (h_entries h)))
    \<and> oldest_seq l = (if h_entries h = [] then None else Some (h_count h - min capacity (int (length (h_entries h)))))"
proof -
  note new = refines_from_new [OF assms(1)]
  have r: "refines l h" and cap: "rl_capacity l = capacity" using new(1,2) by (simp_all add: assms(2,3))
  let ?n = "length (h_entries h)"
  have items: "rl_items l = last_n capacity (h_entries h)" using r cap by (simp add: refines_def)
  have "oldest_seq l = (if h_entries h = [] then None else Some (h_count h - min capacity (int ?n)))"
  proof (cases "h_entries h = []")
    case False
    let ?d = "?n - nat capacity"
    have d: "?d < ?n" using False new(3) by (cases "h_entries h") auto
    then have "rl_items l = h_entries h ! ?d # drop (Suc ?d) (h_entries h)"
      by (simp add: items last_n_def Cons_nth_drop_Suc)
    moreover have "fst (h_entries h ! ?d) = map fst (h_entries h) ! ?d" using d by simp
    moreover have "map fst (h_entries h) ! ?d = h_count h - int ?n + int ?d" using r d by (simp add: refines_def)
    moreover have "int ?n - int ?d = min capacity (int ?n)" using new(3) by auto
    ultimately show ?thesis using False by (simp add: oldest_seq_def)
  qed (simp add: oldest_seq_def items last_n_def)
  then show ?thesis
    using refines_record [OF r, of p] latest_last_n [of l "h_entries h" k] items cap new(3) assms(4)
      length_last_n [of capacity "h_entries h"]
    by (simp add: since_seq_def spec_since_def spec_latest_def rl_len_def)
qed

theorem replay_log_refines_history_witness:
  "\<exists>l0. new_replay_log 2 = Inr l0 \<and> since_seq 0 (foldl replay_step l0 [Record ''a'', Record ''b'', Record ''c''])
     = spec_since 2 0 (foldl spec_step spec_init [Record ''a'', Record ''b'', Record ''c''])"
proof -
  obtain l0 :: "string ReplayLog" where l0: "new_replay_log 2 = Inr l0" by (simp add: new_replay_log_def)
  then show ?thesis
    using replay_log_refines_history [OF l0 refl refl, of 1 _ "[Record ''a'', Record ''b'', Record ''c'']" 0] by (intro exI [of _ l0]) simp
qed

text \<open>
  A consumer catches up: when messages \<open>ps\<close> are recorded after message number \<open>s\<close>, at most \<open>capacity\<close> of them
  and with no \<open>clear\<close>, asking for everything since \<open>s\<close> returns exactly \<open>ps\<close>, in order.
\<close>

theorem missed_messages_recovered:
  assumes "new_replay_log capacity = Inr l0" "l = foldl replay_step l0 ops" "replay_record p l = (s, l1)"
    and "int (length ps) \<le> capacity"
  shows "since_seq s (foldl replay_step l1 (map Record ps)) = ps"
proof -
  let ?h = "foldl spec_step spec_init ops"
  note new0 = refines_from_new [OF assms(1)]
  have r: "refines l ?h" unfolding assms(2) by (rule new0(1))
  have r1: "refines l1 (snd (spec_record p ?h))" and s: "s = h_count ?h"
    using refines_record [OF r, of p] assms(3) by (simp_all add: spec_record_def)
  have ext: "h_entries (foldl spec_step h (map Record qs)) = h_entries h @ zip [h_count h..h_count h + int (length qs) - 1] qs
      \<and> h_count (foldl spec_step h (map Record qs)) = h_count h + int (length qs)" for h :: "'a history" and qs
  proof (induction qs arbitrary: h)
    case (Cons q qs)
    then show ?case using upto_rec1 [of "h_count h" "h_count h + int (length qs)"] by (simp add: spec_record_def algebra_simps)
  qed simp
  let ?h1 = "snd (spec_record p ?h)" and ?l2 = "foldl replay_step l1 (map Record ps)"
  let ?new = "zip [h_count ?h1..h_count ?h1 + int (length ps) - 1] ps"
  have new: "length ?new = length ps" "\<forall>e\<in>set ?new. s < fst e" "map snd ?new = ps"
    by (auto simp: s spec_record_def dest: set_zip_leftD)
  have r2: "refines ?l2 (foldl spec_step ?h1 (map Record ps))" by (rule refines_run [OF r1])
  have cap: "rl_capacity ?l2 = capacity" using new0(2) [of ops] assms(2,3) by (auto simp: replay_step_capacity replay_record_def)
  let ?es = "h_entries ?h1"
  have "\<forall>e\<in>set ?es. fst e \<le> s"
  proof
    fix e assume "e \<in> set ?es"
    then have "fst e \<in> set (map fst ?es)" by simp
    also have "map fst ?es = [h_count ?h1 - int (length ?es)..h_count ?h1 - 1]" using r1 by (simp add: refines_def)
    finally have "fst e \<le> h_count ?h1 - 1" by simp
    then show "fst e \<le> s" by (simp add: s spec_record_def)
  qed
  then have old: "filter (\<lambda>e. s < fst e) es' = []" if "set es' \<subseteq> set ?es" for es'
    using that by (fastforce simp: filter_empty_conv)
  have "rl_items ?l2 = last_n capacity (?es @ ?new)"
    using r2 cap ext [of ?h1 ps] by (simp add: refines_def)
  also have "\<dots> = drop (length ?es + length ps - nat capacity) ?es @ ?new"
    using assms(4) new(1) by (simp add: last_n_def)
  finally have "since_seq s ?l2 = map snd (filter (\<lambda>e. s < fst e) ?new)"
    using old [OF set_drop_subset] by (simp add: since_seq_def)
  also have "\<dots> = ps" using new(2,3) by (simp add: filter_id_conv [THEN iffD2])
  finally show ?thesis .
qed

end
