(* ===== verification/Execution.thy ===== *)
theory Execution
  imports OrderManager "HOL-Library.List_Lexorder" "HOL-Library.Char_ord"
begin

text \<open>
  The execution backends besides the back-test one: the paper backend of
  \<open>engine/core/execution/paper.py\<close>, the live scaffold of \<open>live.py\<close>, and the registry of \<open>factory.py\<close>.

  The paper backend draws from its generator in the order of the code: the Gaussian latency (a
  parameter, as it uses transcendental functions), the fill decision, the slippage jitter, the
  fill ratio.  \<open>execute\<close> is one step: other executions that run during its simulated latency
  interleave with whole steps.  Times of connections are clock values given as arguments.
\<close>

section \<open>The paper backend\<close>

datatype SlippageModel = FIXED | PERCENTAGE | RANDOM

fun slippage_value :: "SlippageModel \<Rightarrow> string" where
  "slippage_value FIXED = ''fixed''"
| "slippage_value PERCENTAGE = ''percentage''"
| "slippage_value RANDOM = ''random''"

record PaperFillStats =
  total_fills :: int
  successful_fills :: int
  failed_fills :: int
  partial_fills :: int
  total_slippage_bps :: rat
  total_fill_quantity :: int
  total_fill_value :: rat

definition no_fills :: PaperFillStats where
  "no_fills = \<lparr>total_fills = 0, successful_fills = 0, failed_fills = 0, partial_fills = 0,
     total_slippage_bps = 0, total_fill_quantity = 0, total_fill_value = 0\<rparr>"

definition avg_slippage_bps :: "PaperFillStats \<Rightarrow> rat" where
  "avg_slippage_bps s = (if successful_fills s = 0 then 0 else fdiv (total_slippage_bps s) (fint (successful_fills s)))"

definition fill_rate :: "PaperFillStats \<Rightarrow> rat" where
  "fill_rate s = (if total_fills s = 0 then 0 else fdiv (fint (successful_fills s)) (fint (total_fills s)))"

definition fill_stats_dict :: "PaperFillStats \<Rightarrow> (string, rat) dict" where
  "fill_stats_dict s =
     [(''total_fills'', of_int (total_fills s)), (''successful_fills'', of_int (successful_fills s)),
      (''failed_fills'', of_int (failed_fills s)), (''partial_fills'', of_int (partial_fills s)),
      (''avg_slippage_bps'', py_round 4 (avg_slippage_bps s)), (''fill_rate'', py_round 4 (fill_rate s)),
      (''total_fill_quantity'', of_int (total_fill_quantity s)), (''total_fill_value'', py_round 2 (total_fill_value s))]"

datatype paper_metric =
  PaperCounter string "(string \<times> string) list"
| PaperHistogram string rat "(string \<times> string) list"

record 'g PaperExecutionBackend =
  px_fill_probability :: rat
  px_slippage_model :: SlippageModel
  px_slippage_bps :: rat
  px_fixed_amount :: rat
  px_jitter_range :: rat
  px_partial_fill :: bool
  px_min_ratio :: rat
  px_volume_threshold :: int
  px_latency_mean :: rat
  px_latency_std :: rat
  px_provider :: "(string \<Rightarrow> rat option) option"
  px_connected :: bool
  px_connected_at :: "rat option"
  px_rng :: 'g
  px_stats :: PaperFillStats
  px_trace :: "paper_metric list"

datatype backend_error =
  FillProbabilityOutOfRange
| NegativeSlippage
| MinRatioOutOfRange
| EmptyBackendName
| NotABackend string
| UnknownBackend string "string list"
| UnknownSlippageModel string
| LiveAuthError string
| LiveNotImplemented

definition new_paper_backend ::
  "rat \<Rightarrow> SlippageModel \<Rightarrow> rat \<Rightarrow> rat \<Rightarrow> rat \<Rightarrow> bool \<Rightarrow> rat \<Rightarrow> int \<Rightarrow> rat \<Rightarrow> rat \<Rightarrow> 'g
     \<Rightarrow> (string \<Rightarrow> rat option) option \<Rightarrow> backend_error + 'g PaperExecutionBackend" where
  "new_paper_backend prob model bps fixed jitter partial ratio threshold mean std rng provider =
     (if \<not> (0 \<le> prob \<and> prob \<le> 1) then Inl FillProbabilityOutOfRange
      else if bps < 0 then Inl NegativeSlippage
      else if \<not> (0 \<le> ratio \<and> ratio \<le> 1) then Inl MinRatioOutOfRange
      else Inr \<lparr>px_fill_probability = prob, px_slippage_model = model, px_slippage_bps = bps,
        px_fixed_amount = fixed, px_jitter_range = jitter, px_partial_fill = partial, px_min_ratio = ratio,
        px_volume_threshold = threshold, px_latency_mean = mean, px_latency_std = std, px_provider = provider,
        px_connected = False, px_connected_at = None, px_rng = rng, px_stats = no_fills, px_trace = []\<rparr>)"

text \<open>The alias \<open>PaperBackend()\<close>: no rejections and no partial fills, the other parameters by default.\<close>

definition PaperBackend :: "'g \<Rightarrow> backend_error + 'g PaperExecutionBackend" where
  "PaperBackend rng = new_paper_backend 1 RANDOM 5 (f64 (1 / 100)) (f64 (3 / 10)) False (f64 (8 / 10)) 500 50 20 rng None"

definition px_emit :: "paper_metric list \<Rightarrow> 'g PaperExecutionBackend \<Rightarrow> 'g PaperExecutionBackend" where
  "px_emit ms x = x\<lparr>px_trace := px_trace x @ ms\<rparr>"

definition set_price_provider :: "(string \<Rightarrow> rat option) \<Rightarrow> 'g PaperExecutionBackend \<Rightarrow> 'g PaperExecutionBackend" where
  "set_price_provider provider x = x\<lparr>px_provider := Some provider\<rparr>"

definition paper_connect :: "rat \<Rightarrow> 'g PaperExecutionBackend \<Rightarrow> 'g PaperExecutionBackend" where
  "paper_connect now x =
     px_emit [PaperCounter ''paper_backend.connect'' []] (x\<lparr>px_connected := True, px_connected_at := Some now\<rparr>)"

definition paper_disconnect :: "rat \<Rightarrow> 'g PaperExecutionBackend \<Rightarrow> 'g PaperExecutionBackend" where
  "paper_disconnect now x =
     px_emit ((case px_connected_at x of None \<Rightarrow> []
               | Some t \<Rightarrow> [PaperHistogram ''paper_backend.session_duration_seconds'' (fsub now t) []])
              @ [PaperCounter ''paper_backend.disconnect'' []])
       (x\<lparr>px_connected := False, px_connected_at := None\<rparr>)"

definition resolve_price :: "string \<Rightarrow> rat \<Rightarrow> 'g PaperExecutionBackend \<Rightarrow> rat option" where
  "resolve_price symbol market_price x =
     (let market = (if 0 < market_price then Some market_price else None) in
      case px_provider x of
        None \<Rightarrow> market
      | Some provider \<Rightarrow> (case provider symbol of
          None \<Rightarrow> market | Some p \<Rightarrow> if 0 < p then Some p else market))"

definition calculate_slippage ::
  "('g \<Rightarrow> nat \<times> 'g) \<Rightarrow> rat \<Rightarrow> int \<Rightarrow> CostBreakdown \<Rightarrow> 'g PaperExecutionBackend \<Rightarrow> 'g \<Rightarrow> rat \<times> 'g" where
  "calculate_slippage bits price quantity costs x g =
     (case px_slippage_model x of
        FIXED \<Rightarrow> (\<bar>px_fixed_amount x\<bar>, g)
      | PERCENTAGE \<Rightarrow> (\<bar>fmul price (fdiv (px_slippage_bps x) 10000)\<bar>, g)
      | RANDOM \<Rightarrow>
          let cost_slippage = (if 0 < quantity then fdiv (amount (slippage costs)) (fint quantity) else 0);
              model_slippage = fmul price (fdiv (px_slippage_bps x) 10000);
              base_slippage = fdiv (fadd cost_slippage model_slippage) 2
          in (case rng_uniform bits (- px_jitter_range x) (fadd (px_jitter_range x) (f64 (2 / 10))) g of
                (u, g') \<Rightarrow> (\<bar>fadd base_slippage (fmul base_slippage u)\<bar>, g')))"

definition calculate_fill_quantity ::
  "('g \<Rightarrow> nat \<times> 'g) \<Rightarrow> int \<Rightarrow> 'g PaperExecutionBackend \<Rightarrow> 'g \<Rightarrow> int \<times> 'g" where
  "calculate_fill_quantity bits requested x g =
     (if \<not> px_partial_fill x \<or> requested \<le> px_volume_threshold x then (requested, g)
      else (case rng_uniform bits (px_min_ratio x) 1 g of
              (ratio, g') \<Rightarrow> (max 1 (let v = fmul (fint requested) ratio in if 0 \<le> v then \<lfloor>v\<rfloor> else \<lceil>v\<rceil>), g')))"

definition paper_failure :: "string \<Rightarrow> string \<Rightarrow> 'g \<Rightarrow> 'g PaperExecutionBackend \<Rightarrow> FillResult \<times> 'g PaperExecutionBackend" where
  "paper_failure outcome why g x =
     (failed_fill why,
      px_emit [PaperCounter ''paper_backend.execute'' [(''outcome'', outcome)]]
        (x\<lparr>px_rng := g, px_stats := (px_stats x)\<lparr>failed_fills := failed_fills (px_stats x) + 1\<rparr>\<rparr>))"

definition count_fill :: "rat \<Rightarrow> int \<Rightarrow> int \<Rightarrow> rat \<Rightarrow> PaperFillStats \<Rightarrow> PaperFillStats" where
  "count_fill bps quantity ordered price s =
     s\<lparr>successful_fills := successful_fills s + 1, total_slippage_bps := fadd (total_slippage_bps s) bps,
       total_fill_quantity := total_fill_quantity s + quantity,
       total_fill_value := fadd (total_fill_value s) (fmul price (fint quantity)),
       partial_fills := (if quantity < ordered then partial_fills s + 1 else partial_fills s)\<rparr>"

definition paper_execute ::
  "(rat \<Rightarrow> rat \<Rightarrow> 'g \<Rightarrow> rat \<times> 'g) \<Rightarrow> ('g \<Rightarrow> nat \<times> 'g) \<Rightarrow> OmOrder \<Rightarrow> rat \<Rightarrow> CostBreakdown
     \<Rightarrow> 'g PaperExecutionBackend \<Rightarrow> FillResult \<times> 'g PaperExecutionBackend" where
  "paper_execute gauss bits ord market_price costs x0 =
     (let x = x0\<lparr>px_stats := (px_stats x0)\<lparr>total_fills := total_fills (px_stats x0) + 1\<rparr>\<rparr>;
          g0 = snd (gauss (px_latency_mean x) (px_latency_std x) (px_rng x))
      in
      if \<not> px_connected x then paper_failure ''not_connected'' ''Paper backend not connected'' g0 x
      else case resolve_price (om_symbol ord) market_price x of
        None \<Rightarrow> paper_failure ''no_price'' (''No valid price for '' @ om_symbol ord) g0 x
      | Some price \<Rightarrow>
          (case rng_random bits g0 of (r, g1) \<Rightarrow>
             if px_fill_probability x < r
             then paper_failure ''fill_rejected'' ''Simulated fill failure (market conditions)'' g1 x
             else case calculate_slippage bits price (om_quantity ord) costs x g1 of (s, g2) \<Rightarrow>
               let slip = max 0 s;
                   fill_price = py_round 4 (if om_side ord = SIDE_BUY then max price (fadd price slip)
                                            else min price (fsub price slip))
               in (case calculate_fill_quantity bits (om_quantity ord) x g2 of (q, g3) \<Rightarrow>
                 let bps = fmul \<bar>fdiv slip price\<bar> 10000 in
                 (\<lparr>fr_success = True, fr_price = fill_price, fr_quantity = q, fr_reason = []\<rparr>,
                  px_emit [PaperCounter ''paper_backend.execute'' [(''outcome'', ''filled'')],
                           PaperHistogram ''paper_backend.slippage_bps'' bps [(''side'', signal_side_value (om_side ord))]]
                    (x\<lparr>px_rng := g3, px_stats := count_fill bps q (om_quantity ord) fill_price (px_stats x)\<rparr>)))))"

section \<open>The live scaffold\<close>

record 'c LiveBackend =
  lb_scaffold :: bool
  lb_broker_name :: string
  lb_api_key :: string
  lb_api_secret :: string
  lb_base_url :: string
  lb_client :: "'c option"
  lb_connected :: bool
  lb_connected_at :: "rat option"

definition new_live_backend :: "bool \<Rightarrow> string \<Rightarrow> string \<Rightarrow> string \<Rightarrow> string \<Rightarrow> 'c LiveBackend" where
  "new_live_backend scaffold broker key secret url =
     \<lparr>lb_scaffold = scaffold, lb_broker_name = broker, lb_api_key = key, lb_api_secret = secret,
      lb_base_url = url, lb_client = None, lb_connected = False, lb_connected_at = None\<rparr>"

definition reset_connection_state :: "'c LiveBackend \<Rightarrow> 'c LiveBackend" where
  "reset_connection_state b = b\<lparr>lb_connected := False, lb_connected_at := None, lb_client := None\<rparr>"

text \<open>
  A subclass sets \<open>_is_scaffold\<close> to false and overrides the two hooks; the class itself raises
  \<open>NotImplementedError\<close> in both.
\<close>

definition do_connect :: "'c LiveBackend \<Rightarrow> (backend_error + unit) \<times> 'c LiveBackend" where
  "do_connect b = (Inl LiveNotImplemented, b)"

definition live_connect ::
  "('c LiveBackend \<Rightarrow> (backend_error + unit) \<times> 'c LiveBackend) \<Rightarrow> rat \<Rightarrow> 'c LiveBackend
     \<Rightarrow> (backend_error + unit) \<times> 'c LiveBackend" where
  "live_connect hook now b =
     (if lb_scaffold b then (Inr (), b\<lparr>lb_connected := False, lb_connected_at := None\<rparr>)
      else if lb_api_key b = '''' \<or> lb_api_secret b = ''''
      then (Inl (LiveAuthError (lb_broker_name b)), reset_connection_state b)
      else case hook b of
        (Inl e, b') \<Rightarrow> (Inl e, b')
      | (Inr u, b') \<Rightarrow> (Inr (), b'\<lparr>lb_connected := True, lb_connected_at := Some now\<rparr>))"

definition live_disconnect :: "'c LiveBackend \<Rightarrow> 'c LiveBackend" where
  "live_disconnect b = reset_connection_state b"

datatype submit_outcome = Filled FillResult | SubmitNotImplemented | SubmitRaised string

definition live_execute ::
  "(OmOrder \<Rightarrow> rat \<Rightarrow> CostBreakdown \<Rightarrow> 'c LiveBackend \<Rightarrow> submit_outcome \<times> 'c LiveBackend)
     \<Rightarrow> OmOrder \<Rightarrow> rat \<Rightarrow> CostBreakdown \<Rightarrow> 'c LiveBackend \<Rightarrow> (backend_error + FillResult) \<times> 'c LiveBackend" where
  "live_execute hook ord market_price costs b =
     (if lb_scaffold b
      then (Inr (failed_fill ''Live execution not yet implemented. Use paper or backtest mode.''), b)
      else if lb_client b = None then (Inr (failed_fill ''Broker client not connected''), b)
      else case hook ord market_price costs b of
        (Filled r, b') \<Rightarrow> (Inr r, b')
      | (SubmitNotImplemented, b') \<Rightarrow> (Inl LiveNotImplemented, b')
      | (SubmitRaised e, b') \<Rightarrow> (Inr (failed_fill (''Broker error: '' @ e)), b'))"

definition submit_order ::
  "OmOrder \<Rightarrow> rat \<Rightarrow> CostBreakdown \<Rightarrow> 'c LiveBackend \<Rightarrow> submit_outcome \<times> 'c LiveBackend" where
  "submit_order ord market_price costs b = (SubmitNotImplemented, b)"

section \<open>The registry and the factory\<close>

text \<open>
  A class is \<open>Builtin\<close> or named by the client; \<open>is_subclass\<close> stands for \<open>issubclass(cls, ExecutionBackend)\<close>.
  The keyword arguments are a record of optional values.  \<open>create_backend\<close> gives the paper backend it
  builds, or the constructor call \<open>cls(**kwargs)\<close> it makes on another class.
\<close>

datatype backend_class = BacktestClass | PaperClass | LiveClass | ClientClass string

type_synonym backend_registry = "(string, backend_class) dict"

definition builtin_backends :: backend_registry where
  "builtin_backends = [(''backtest'', BacktestClass), (''paper'', PaperClass), (''live'', LiveClass)]"

record kwargs =
  kw_fill_probability :: "rat option"
  kw_slippage_model :: "(string + SlippageModel) option"
  kw_slippage_bps :: "rat option"
  kw_slippage_fixed_amount :: "rat option"
  kw_slippage_jitter_range :: "rat option"
  kw_partial_fill_enabled :: "bool option"
  kw_partial_fill_min_ratio :: "rat option"
  kw_partial_fill_volume_threshold :: "int option"
  kw_latency_ms_mean :: "rat option"
  kw_latency_ms_std :: "rat option"
  kw_random_seed :: "int option"
  kw_price_provider :: "(string \<Rightarrow> rat option) option"
  kw_broker_name :: "string option"
  kw_api_key :: "string option"
  kw_api_secret :: "string option"
  kw_base_url :: "string option"
  kw_other :: "(string, string) dict"

definition no_kwargs :: kwargs where
  "no_kwargs = \<lparr>kw_fill_probability = None, kw_slippage_model = None, kw_slippage_bps = None,
     kw_slippage_fixed_amount = None, kw_slippage_jitter_range = None, kw_partial_fill_enabled = None,
     kw_partial_fill_min_ratio = None, kw_partial_fill_volume_threshold = None, kw_latency_ms_mean = None,
     kw_latency_ms_std = None, kw_random_seed = None, kw_price_provider = None, kw_broker_name = None,
     kw_api_key = None, kw_api_secret = None, kw_base_url = None, kw_other = []\<rparr>"

definition register_backend ::
  "(backend_class \<Rightarrow> bool) \<Rightarrow> string \<Rightarrow> backend_class \<Rightarrow> backend_registry \<Rightarrow> backend_error + backend_registry" where
  "register_backend is_subclass name cls reg =
     (if name = [] \<or> py_strip name = [] then Inl EmptyBackendName
      else if \<not> is_subclass cls then Inl (NotABackend (py_strip (py_lower name)))
      else Inr (AList.update (py_strip (py_lower name)) cls reg))"

definition list_backends :: "backend_registry \<Rightarrow> string list" where
  "list_backends reg = sorted_list_of_set (set (map fst builtin_backends) \<union> set (map fst reg))"

definition parse_slippage_model :: "string \<Rightarrow> backend_error + SlippageModel" where
  "parse_slippage_model s =
     (case find (\<lambda>m. slippage_value m = s) [FIXED, PERCENTAGE, RANDOM] of
        None \<Rightarrow> Inl (UnknownSlippageModel s) | Some m \<Rightarrow> Inr m)"

definition kw_get :: "'a option \<Rightarrow> 'a \<Rightarrow> 'a" where
  "kw_get v d = (case v of None \<Rightarrow> d | Some x \<Rightarrow> x)"

definition construct_paper_backend ::
  "(int option \<Rightarrow> 'g) \<Rightarrow> kwargs \<Rightarrow> backend_error + 'g PaperExecutionBackend" where
  "construct_paper_backend seeded kw =
     (case (case kw_get (kw_slippage_model kw) (Inr RANDOM) of Inl s \<Rightarrow> parse_slippage_model s | Inr m \<Rightarrow> Inr m) of
        Inl e \<Rightarrow> Inl e
      | Inr model \<Rightarrow> new_paper_backend (kw_get (kw_fill_probability kw) (f64 (95 / 100))) model
          (kw_get (kw_slippage_bps kw) 5) (kw_get (kw_slippage_fixed_amount kw) (f64 (1 / 100)))
          (kw_get (kw_slippage_jitter_range kw) (f64 (3 / 10))) (kw_get (kw_partial_fill_enabled kw) True)
          (kw_get (kw_partial_fill_min_ratio kw) (f64 (8 / 10))) (kw_get (kw_partial_fill_volume_threshold kw) 500)
          (kw_get (kw_latency_ms_mean kw) 50) (kw_get (kw_latency_ms_std kw) 20)
          (seeded (kw_random_seed kw)) (kw_price_provider kw))"

datatype 'g construction = Paper "'g PaperExecutionBackend" | Call backend_class kwargs

definition construct_backend ::
  "(int option \<Rightarrow> 'g) \<Rightarrow> backend_class \<Rightarrow> string \<Rightarrow> kwargs \<Rightarrow> backend_error + 'g construction" where
  "construct_backend seeded cls name kw =
     (if name = ''paper'' then (case construct_paper_backend seeded kw of Inl e \<Rightarrow> Inl e | Inr x \<Rightarrow> Inr (Paper x))
      else if name = ''backtest''
      then Inr (Call cls (no_kwargs\<lparr>kw_fill_probability := kw_fill_probability kw,
             kw_partial_fill_enabled := kw_partial_fill_enabled kw, kw_random_seed := kw_random_seed kw\<rparr>))
      else if name = ''live''
      then Inr (Call cls (no_kwargs\<lparr>kw_broker_name := kw_broker_name kw, kw_api_key := kw_api_key kw,
             kw_api_secret := kw_api_secret kw, kw_base_url := kw_base_url kw\<rparr>))
      else Inr (Call cls kw))"

definition create_backend ::
  "(int option \<Rightarrow> 'g) \<Rightarrow> backend_registry \<Rightarrow> string \<Rightarrow> kwargs \<Rightarrow> backend_error + 'g construction" where
  "create_backend seeded reg name0 kw =
     (let name = py_strip (py_lower name0) in
      case (case map_of reg name of Some cls \<Rightarrow> Some cls | None \<Rightarrow> map_of builtin_backends name) of
        None \<Rightarrow> Inl (UnknownBackend name (list_backends reg))
      | Some cls \<Rightarrow> construct_backend seeded cls name kw)"

section \<open>The paper backend keeps the contract\<close>

text \<open>A draw between a ratio and one stays there, the two roundings included.\<close>

lemma f64_err:
  assumes "0 < x" "x < 2"
  shows "\<bar>f64 x - x\<bar> \<le> 1 / 2 ^ 53"
proof -
  have "mag 2 x < 1" using assms by (intro mag_less_if_less_powi) simp_all
  then have q: "quantum 2 53 (- 1074) x \<le> - 52" by (simp add: quantum_def)
  define u :: rat where "u = 2 powi quantum 2 53 (- 1074) x"
  have u: "0 < u" by (simp add: u_def zero_less_power_int)
  have u1: "u \<le> 1 / 2 ^ 52"
  proof -
    have "u \<le> 2 powi (- 52)" using powi_le_iff [of 2 "quantum 2 53 (- 1074) x" "- 52"] q by (simp only: u_def) simp
    also have "(2::rat) powi (- 52) = 1 / 2 ^ 52" by (simp add: power_int_minus)
    finally show ?thesis .
  qed
  have "f64 x - x = (of_int (rhe (x / u)) - x / u) * u"
    using assms(1) u by (simp add: f64_def sig_round_def u_def Let_def left_diff_distrib)
  then have "\<bar>f64 x - x\<bar> = \<bar>of_int (rhe (x / u)) - x / u\<bar> * u" using u by (simp add: abs_mult)
  also have "\<dots> \<le> 1 / 2 * u" using rhe_dist [of "x / u"] u by (intro mult_right_mono) simp_all
  also have "\<dots> \<le> 1 / 2 ^ 53" using u1 by simp
  finally show ?thesis .
qed

lemma f64_just_above_one: "f64 (1 + 1 / 2 ^ 53) = 1"
proof -
  have "mag 2 (1 + 1 / 2 ^ 53) = 0"
  proof -
    have "\<lfloor>1 + 1 / 2 ^ 53 :: rat\<rfloor> = 1" by (simp add: floor_eq_iff)
    then show ?thesis by (simp add: mag_def ndigits.simps)
  qed
  then have "f64 (1 + 1 / 2 ^ 53) = of_int (rhe ((1 + 1 / 2 ^ 53) / (2 powi (- 52)))) * 2 powi (- 52)"
    by (simp add: f64_def sig_round_def quantum_def Let_def)
  also have "rhe ((1 + 1 / 2 ^ 53) / (2 powi (- 52) :: rat)) = 2 ^ 52"
  proof -
    have "(1 + 1 / 2 ^ 53) / (2 powi (- 52) :: rat) = 2 ^ 52 + 1 / 2" by (simp add: power_int_minus)
    moreover have "\<lfloor>2 ^ 52 + 1 / 2 :: rat\<rfloor> = 2 ^ 52" by (simp add: floor_eq_iff)
    ultimately show ?thesis by (simp add: rhe_def Let_def)
  qed
  finally show ?thesis by (simp add: power_int_minus)
qed

lemma uniform_to_one:
  assumes "rng_uniform bits a 1 g = (u, g')" "0 \<le> a" "a \<le> 1" "f64 a = a"
  shows "0 \<le> u \<and> u \<le> 1"
proof -
  obtain r where r: "0 \<le> r" "r < 1" and u: "u = fadd a (fmul (fsub 1 a) r)"
    using assms(1) rng_random_range by (fastforce simp: rng_uniform_def split: prod.splits)
  have d: "0 \<le> fsub 1 a" using assms(3) by (rule float_nonneg(4))
  have "0 \<le> u" unfolding u by (rule float_nonneg(1) [OF assms(2) float_nonneg(2) [OF d r(1)]])
  have "fsub 1 a * r \<le> fsub 1 a * 1" using r d by (intro mult_left_mono) simp_all
  then have m: "fmul (fsub 1 a) r \<le> fsub 1 a" using f64.mono [of "fsub 1 a * r" "fsub 1 a"] by (simp add: fmul_def)
  have "fsub 1 a \<le> 1 - a + 1 / 2 ^ 53"
  proof (cases "a = 1")
    case False
    then have "\<bar>f64 (1 - a) - (1 - a)\<bar> \<le> 1 / 2 ^ 53" using assms(2,3) by (intro f64_err) simp_all
    then show ?thesis unfolding fsub_def by linarith
  qed (simp add: fsub_def)
  then have "a + fmul (fsub 1 a) r \<le> 1 + 1 / 2 ^ 53" using m by linarith
  then have "u \<le> f64 (1 + 1 / 2 ^ 53)" unfolding u fadd_def by (rule f64.mono)
  then show ?thesis using \<open>0 \<le> u\<close> by (simp only: f64_just_above_one)
qed

lemma part_of_quantity:
  assumes "0 \<le> ratio" "ratio \<le> 1" "0 < q" "q \<le> 2 ^ 53"
  shows "max 1 (let v = fmul (fint q) ratio in if 0 \<le> v then \<lfloor>v\<rfloor> else \<lceil>v\<rceil>) \<le> q"
proof -
  have f: "fint q = of_int q" using assms(3,4) by (simp add: fint_exact)
  have "fint q * ratio \<le> fint q * 1" using assms by (intro mult_left_mono) (simp_all add: f)
  then have "fmul (fint q) ratio \<le> fint q" using f64.mono [of "fint q * ratio" "fint q"] by (simp add: fmul_def)
  then have "\<lfloor>fmul (fint q) ratio\<rfloor> \<le> q" unfolding f by (simp add: floor_le_iff)
  moreover have "0 \<le> fmul (fint q) ratio" using assms(1,3) by (intro float_nonneg fint_nonneg) simp_all
  ultimately show ?thesis using assms(3) by (simp add: Let_def)
qed

definition paper_valid :: "'g PaperExecutionBackend \<Rightarrow> bool" where
  "paper_valid x \<longleftrightarrow> 0 \<le> px_min_ratio x \<and> px_min_ratio x \<le> 1 \<and> f64 (px_min_ratio x) = px_min_ratio x"

lemma new_paper_backend_valid:
  "new_paper_backend prob model bps fixed jitter partial ratio threshold mean std rng provider = Inr x
     \<Longrightarrow> f64 ratio = ratio \<Longrightarrow> paper_valid x"
  by (auto simp: new_paper_backend_def paper_valid_def split: if_splits)

text \<open>The calls of \<open>execute\<close>: a failure that is counted as such, or a fill from a resolved price.\<close>

lemma paper_execute_cases:
  assumes "paper_execute gauss bits ord market_price costs x = (fill, x')"
  obtains (fail) "\<not> fr_success fill" "fr_quantity fill = 0"
      "px_stats x' = (px_stats x)\<lparr>total_fills := total_fills (px_stats x) + 1,
         failed_fills := failed_fills (px_stats x) + 1\<rparr>"
      "px_min_ratio x' = px_min_ratio x"
  | (fill) price slip g g' bps where "fr_success fill" "px_connected x" "resolve_price (om_symbol ord) market_price x = Some price"
      "0 \<le> slip"
      "fr_price fill = py_round 4 (if om_side ord = SIDE_BUY then max price (fadd price slip) else min price (fsub price slip))"
      "calculate_fill_quantity bits (om_quantity ord) x g = (fr_quantity fill, g')"
      "px_stats x' = count_fill bps (fr_quantity fill) (om_quantity ord) (fr_price fill)
         ((px_stats x)\<lparr>total_fills := total_fills (px_stats x) + 1\<rparr>)"
      "px_min_ratio x' = px_min_ratio x"
proof -
  define x1 where "x1 = x\<lparr>px_stats := (px_stats x)\<lparr>total_fills := total_fills (px_stats x) + 1\<rparr>\<rparr>"
  obtain d g0 where g0: "gauss (px_latency_mean x) (px_latency_std x) (px_rng x) = (d, g0)" by (cases "gauss (px_latency_mean x) (px_latency_std x) (px_rng x)")
  obtain r g1 where r: "rng_random bits g0 = (r, g1)" by (cases "rng_random bits g0")
  note run = assms [unfolded paper_execute_def, folded x1_def, unfolded Let_def, simplified x1_def [symmetric]]
  have same: "px_connected x1 = px_connected x" "px_min_ratio x1 = px_min_ratio x" "px_fill_probability x1 = px_fill_probability x"
    "resolve_price a b x1 = resolve_price a b x" "calculate_fill_quantity bits q x1 g = calculate_fill_quantity bits q x g"
    "px_latency_mean x1 = px_latency_mean x" "px_latency_std x1 = px_latency_std x" "px_rng x1 = px_rng x"
    "px_stats x1 = (px_stats x)\<lparr>total_fills := total_fills (px_stats x) + 1\<rparr>" for a b q g
    by (simp_all add: x1_def resolve_price_def calculate_fill_quantity_def)
  have failed: thesis if "paper_failure a b g x1 = (fill, x')" for a b g
    using that by (intro fail) (auto simp: paper_failure_def failed_fill_def px_emit_def same)
  consider (down) "\<not> px_connected x" | (no_price) "px_connected x" "resolve_price (om_symbol ord) market_price x = None"
    | (rejected) price where "px_connected x" "resolve_price (om_symbol ord) market_price x = Some price" "px_fill_probability x < r"
    | (go) price where "px_connected x" "resolve_price (om_symbol ord) market_price x = Some price" "\<not> px_fill_probability x < r"
    by (cases "px_connected x"; cases "resolve_price (om_symbol ord) market_price x"; cases "px_fill_probability x < r") auto
  then show thesis
  proof cases
    case (go price)
    obtain s g2 where s: "calculate_slippage bits price (om_quantity ord) costs x1 g1 = (s, g2)"
      by (cases "calculate_slippage bits price (om_quantity ord) costs x1 g1")
    obtain q g3 where q: "calculate_fill_quantity bits (om_quantity ord) x g2 = (q, g3)"
      by (cases "calculate_fill_quantity bits (om_quantity ord) x g2")
    show thesis using run go q
      by (intro fill [of price "max 0 s" g2 g3 "fmul \<bar>fdiv (max 0 s) price\<bar> 10000"])
        (auto simp: same g0 r s px_emit_def)
    next
    case down
    then show thesis using run failed by (auto simp: same g0)
  next
    case no_price
    then show thesis using run failed by (auto simp: same g0)
  next
    case rejected
    then show thesis using run failed by (auto simp: same g0 r)
  qed
qed

lemma fill_quantity_bounds:
  assumes "calculate_fill_quantity bits q x g = (n, g')" "paper_valid x" "0 < q" "q \<le> 2 ^ 53"
  shows "0 < n \<and> n \<le> q"
proof (cases "\<not> px_partial_fill x \<or> q \<le> px_volume_threshold x")
  case False
  obtain ratio h where u: "rng_uniform bits (px_min_ratio x) 1 g = (ratio, h)"
    by (cases "rng_uniform bits (px_min_ratio x) 1 g")
  have "0 \<le> ratio \<and> ratio \<le> 1" using uniform_to_one [OF u] assms(2) by (simp add: paper_valid_def)
  then show ?thesis using part_of_quantity [of ratio q] assms(1,3,4) False u
    by (auto simp: calculate_fill_quantity_def)
qed (use assms in \<open>auto simp: calculate_fill_quantity_def\<close>)

interpretation px: execution_backend "paper_execute gauss bits" paper_valid for gauss bits
proof unfold_locales
  fix ord price costs fill and x x' :: "'a PaperExecutionBackend"
  assume ex: "paper_execute gauss bits ord price costs x = (fill, x')" and v: "paper_valid x"
  show "paper_valid x'" using v by (cases rule: paper_execute_cases [OF ex]) (simp_all add: paper_valid_def)
  assume ok: "fr_success fill" and q: "0 < om_quantity ord" "om_quantity ord \<le> 2 ^ 53"
  show "0 < fr_quantity fill \<and> fr_quantity fill \<le> om_quantity ord"
    by (cases rule: paper_execute_cases [OF ex]) (use ok fill_quantity_bounds [OF _ v q] in blast)+
qed

lemma py_round_mono: "x \<le> y \<Longrightarrow> py_round k x \<le> py_round k y"
  unfolding py_round_def by (intro f64.mono divide_right_mono) (simp_all add: rhe_mono)

text \<open>
  A paper fill is fair: it happens only while connected and at a resolved positive price, no buyer pays
  less and no seller gets more than that price to four places, and the quantity is positive and
  at most the ordered one (all of it when partial fills are off or the order is small).
\<close>

theorem paper_fill_fair:
  assumes "paper_execute gauss bits ord market_price costs x = (fill, x')" "fr_success fill"
    and "paper_valid x" "0 < om_quantity ord" "om_quantity ord \<le> 2 ^ 53"
  shows "px_connected x \<and> (\<exists>price>0. resolve_price (om_symbol ord) market_price x = Some price
      \<and> (if om_side ord = SIDE_BUY then py_round 4 price \<le> fr_price fill else fr_price fill \<le> py_round 4 price))
    \<and> 0 < fr_quantity fill \<and> fr_quantity fill \<le> om_quantity ord
    \<and> (\<not> px_partial_fill x \<or> om_quantity ord \<le> px_volume_threshold x \<longrightarrow> fr_quantity fill = om_quantity ord)"
proof (cases rule: paper_execute_cases [OF assms(1)])
  case 1
  then show ?thesis using assms(2) by simp
next
  case (2 price slip g g' bps)
  have "0 < price" using 2(3) by (auto simp: resolve_price_def Let_def split: option.splits if_splits)
  moreover have "fr_quantity fill = om_quantity ord" if "\<not> px_partial_fill x \<or> om_quantity ord \<le> px_volume_threshold x"
    using 2(6) that by (auto simp: calculate_fill_quantity_def)
  ultimately show ?thesis using 2(2,3,5) fill_quantity_bounds [OF 2(6) assms(3-5)] by (simp add: py_round_mono)
qed

definition sample_paper :: "nat PaperExecutionBackend" where
  "sample_paper = \<lparr>px_fill_probability = 1, px_slippage_model = FIXED, px_slippage_bps = 0, px_fixed_amount = 1,
     px_jitter_range = 0, px_partial_fill = True, px_min_ratio = 1, px_volume_threshold = 500, px_latency_mean = 0,
     px_latency_std = 0, px_provider = None, px_connected = True, px_connected_at = Some 0, px_rng = 0,
     px_stats = no_fills, px_trace = []\<rparr>"

definition sample_ticks :: "nat \<Rightarrow> nat \<times> nat" where
  "sample_ticks n = (n, n + 1)"

definition no_gauss :: "rat \<Rightarrow> rat \<Rightarrow> nat \<Rightarrow> rat \<times> nat" where
  "no_gauss mean std n = (mean, n)"

definition paper_sale :: OmOrder where
  "paper_sale = (new_om_order ''o'' sample_signal 10)\<lparr>om_side := SIDE_SELL\<rparr>"

definition no_costs :: CostBreakdown where
  "no_costs = flat_costs 0 [] 0 0 [] 0"

lemma sample_paper_run:
  "0 < p \<Longrightarrow> paper_execute no_gauss sample_ticks paper_sale p no_costs sample_paper =
     (\<lparr>fr_success = True, fr_price = py_round 4 (min p (fsub p 1)), fr_quantity = 10, fr_reason = []\<rparr>,
      snd (paper_execute no_gauss sample_ticks paper_sale p no_costs sample_paper))"
  by (simp add: paper_execute_def sample_paper_def no_gauss_def sample_ticks_def paper_sale_def sample_signal_def
      new_om_order_def resolve_price_def rng_random_def calculate_slippage_def calculate_fill_quantity_def Let_def)

text \<open>The executions of a run, in order.\<close>

fun paper_run ::
  "(rat \<Rightarrow> rat \<Rightarrow> 'g \<Rightarrow> rat \<times> 'g) \<Rightarrow> ('g \<Rightarrow> nat \<times> 'g) \<Rightarrow> (OmOrder \<times> rat \<times> CostBreakdown) list
     \<Rightarrow> 'g PaperExecutionBackend \<Rightarrow> FillResult list \<times> 'g PaperExecutionBackend" where
  "paper_run gauss bits [] x = ([], x)"
| "paper_run gauss bits ((ord, price, costs) # calls) x =
     (case paper_execute gauss bits ord price costs x of (fill, x') \<Rightarrow>
        (case paper_run gauss bits calls x' of (fills, x'') \<Rightarrow> (fill # fills, x'')))"

definition filled_of :: "FillResult list \<Rightarrow> FillResult list" where
  "filled_of fills = filter fr_success fills"

lemma paper_run_stats:
  assumes "paper_run gauss bits calls x = (fills, x')" "partial_fills (px_stats x) \<le> successful_fills (px_stats x)"
  shows "total_fills (px_stats x') = total_fills (px_stats x) + int (length calls)
    \<and> successful_fills (px_stats x') = successful_fills (px_stats x) + int (length (filled_of fills))
    \<and> failed_fills (px_stats x') = failed_fills (px_stats x) + int (length calls) - int (length (filled_of fills))
    \<and> total_fill_quantity (px_stats x') = total_fill_quantity (px_stats x) + (\<Sum>f\<leftarrow>filled_of fills. fr_quantity f)
    \<and> partial_fills (px_stats x') \<le> successful_fills (px_stats x')
    \<and> length (filled_of fills) \<le> length calls"
  using assms
proof (induction calls arbitrary: x fills x')
  case (Cons call calls)
  obtain ord price costs where call: "call = (ord, price, costs)" by (cases call)
  obtain fill x1 where ex: "paper_execute gauss bits ord price costs x = (fill, x1)" by force
  obtain fills' where run: "paper_run gauss bits calls x1 = (fills', x')" and fills: "fills = fill # fills'"
    using Cons.prems(1) by (auto simp: call ex split: prod.splits)
  show ?case
  proof (cases rule: paper_execute_cases [OF ex])
    case 1
    then show ?thesis using Cons.IH [OF run] Cons.prems(2) by (simp add: fills filled_of_def)
  next
    case (2 p slip g g' bps)
    then show ?thesis using Cons.IH [OF run] Cons.prems(2)
      by (cases "fr_quantity fill < om_quantity ord") (simp_all add: fills filled_of_def count_fill_def)
  qed
qed (simp add: filled_of_def)

lemma ratio_range: "0 \<le> a \<Longrightarrow> a \<le> b \<Longrightarrow> 0 < b \<Longrightarrow> 0 \<le> fdiv (fint a) (fint b) \<and> fdiv (fint a) (fint b) \<le> 1"
proof -
  assume a: "0 \<le> a" "a \<le> b" "0 < b"
  have le: "fint a \<le> fint b" using a(2) unfolding fint_def by (intro f64.mono) simp
  have "0 \<le> fint a" using a(1) by (rule fint_nonneg)
  moreover have "fint 1 \<le> fint b" unfolding fint_def using a(3) by (intro f64.mono) simp
  then have pos: "0 < fint b" by (simp add: fint_def)
  ultimately have "0 \<le> fdiv (fint a) (fint b)" by (intro float_nonneg) simp_all
  moreover have "f64 (fint a / fint b) \<le> f64 1" using le pos by (intro f64.mono) simp
  ultimately show ?thesis by (simp add: fdiv_def)
qed

text \<open>
  The statistics of the paper backend add up: after any sequence of executions on a fresh backend, every
  call was counted as a success or a failure, the successes and their quantities are those of the
  fills returned, partial fills are among the successes, and the fill rate is between zero and one.
\<close>

theorem paper_statistics_add_up:
  assumes "new_paper_backend prob model bps fixed jitter partial ratio threshold mean std rng provider = Inr x0"
    and "paper_run gauss bits calls (paper_connect now x0) = (fills, x)"
  shows "total_fills (px_stats x) = int (length calls)
    \<and> successful_fills (px_stats x) = int (length (filled_of fills))
    \<and> failed_fills (px_stats x) = total_fills (px_stats x) - successful_fills (px_stats x)
    \<and> partial_fills (px_stats x) \<le> successful_fills (px_stats x)
    \<and> total_fill_quantity (px_stats x) = (\<Sum>f\<leftarrow>filled_of fills. fr_quantity f)
    \<and> 0 \<le> fill_rate (px_stats x) \<and> fill_rate (px_stats x) \<le> 1"
proof -
  have "px_stats (paper_connect now x0) = no_fills"
    using assms(1) by (auto simp: new_paper_backend_def paper_connect_def px_emit_def split: if_splits)
  then have all: "total_fills (px_stats x) = int (length calls) \<and> successful_fills (px_stats x) = int (length (filled_of fills))
    \<and> failed_fills (px_stats x) = int (length calls) - int (length (filled_of fills))
    \<and> total_fill_quantity (px_stats x) = (\<Sum>f\<leftarrow>filled_of fills. fr_quantity f)
    \<and> partial_fills (px_stats x) \<le> successful_fills (px_stats x) \<and> length (filled_of fills) \<le> length calls"
    using paper_run_stats [OF assms(2)] by (simp add: no_fills_def)
  have "0 \<le> fill_rate (px_stats x) \<and> fill_rate (px_stats x) \<le> 1"
    using ratio_range [of "successful_fills (px_stats x)" "total_fills (px_stats x)"] all
    by (simp add: fill_rate_def)
  then show ?thesis using all by simp
qed

text \<open>
  With the paper backend a signal keeps the books: whatever the slippage model, the latency and the draws
  of the generator, every position stays the sum of its tax lots, no order is filled beyond its
  quantity, and the backend keeps a valid minimal fill ratio for the next signal.
\<close>

theorem paper_signal_keeps_books:
  assumes "pf_ok (mg_portfolio mg)" "fresh_lot fresh (mg_portfolio mg)"
    and "signal_quantity sg price (mg_portfolio mg) \<le> 2 ^ 53"
    and "\<forall>x. mg_backend mg = Some x \<longrightarrow> paper_valid x"
    and "process_signal estimate (paper_execute gauss bits) emit oid fresh now sg price vol mg = (res, mg')"
  shows "pf_ok (mg_portfolio mg') \<and> (\<forall>x. mg_backend mg' = Some x \<longrightarrow> paper_valid x)
    \<and> (\<forall>ord. res = Inr ord \<longrightarrow> filled_so_far ord \<le> om_quantity ord \<or> om_quantity ord \<le> 0)"
  by (rule px.process_signal_books [OF assms])

text \<open>
  A fixed slippage larger than the price sells below zero: such a sale on a connected paper backend that
  never rejects is reported as a success, for the whole of a small order, at a price that is not
  positive (the seller pays to sell).
\<close>

theorem fixed_slippage_sells_below_zero:
  assumes "px_connected x" "px_slippage_model x = FIXED" "1 \<le> px_fill_probability x" "om_side ord \<noteq> SIDE_BUY"
    and "resolve_price (om_symbol ord) market_price x = Some price" "price \<le> px_fixed_amount x"
    and "om_quantity ord \<le> px_volume_threshold x"
  shows "fr_success (fst (paper_execute gauss bits ord market_price costs x))
    \<and> fr_price (fst (paper_execute gauss bits ord market_price costs x)) \<le> 0
    \<and> fr_quantity (fst (paper_execute gauss bits ord market_price costs x)) = om_quantity ord"
proof -
  obtain r g where r: "rng_random bits (snd (gauss (px_latency_mean x) (px_latency_std x) (px_rng x))) = (r, g)"
    by (cases "rng_random bits (snd (gauss (px_latency_mean x) (px_latency_std x) (px_rng x)))")
  have pos: "0 < price" using assms(5) by (auto simp: resolve_price_def Let_def split: option.splits if_splits)
  have "\<not> px_fill_probability x < r" using rng_random_range [OF r] assms(3) by linarith
  moreover have "min price (fsub price \<bar>px_fixed_amount x\<bar>) \<le> 0"
    using f64.nonpos [of "price - \<bar>px_fixed_amount x\<bar>"] assms(6) pos by (simp add: fsub_def min_le_iff_disj)
  then have "py_round 4 (min price (fsub price \<bar>px_fixed_amount x\<bar>)) \<le> py_round 4 0" by (rule py_round_mono)
  moreover have "py_round 4 0 = 0" by (simp add: py_round_def rhe_of_int [of 0, simplified])
  ultimately show ?thesis using assms r
    by (auto simp: paper_execute_def resolve_price_def calculate_slippage_def calculate_fill_quantity_def Let_def)
qed

section \<open>What the factory creates\<close>

lemma list_backends_set [simp]: "set (list_backends reg) = {''backtest'', ''paper'', ''live''} \<union> set (map fst reg)"
  unfolding list_backends_def by (subst set_sorted_list_of_set) (auto simp: builtin_backends_def)

lemma construct_backend_known:
  "construct_backend seeded cls name kw \<noteq> Inl (UnknownBackend a b)"
  by (auto simp: construct_backend_def construct_paper_backend_def new_paper_backend_def parse_slippage_model_def
      split: sum.splits option.splits)

text \<open>
  The registry decides what the factory builds, except for the paper backend: a registered class is listed
  once and in order, is called with all the arguments under a name of its own and with the
  filtered ones under a built-in name, but a class registered as \<open>paper\<close> is ignored; and a name is
  unknown exactly when it is not listed.
\<close>

theorem registered_class_is_created:
  assumes "register_backend is_subclass n cls reg = Inr reg'" "py_strip (py_lower m) = py_strip (py_lower n)"
  shows "py_strip (py_lower n) \<in> set (list_backends reg') \<and> sorted (list_backends reg') \<and> distinct (list_backends reg')
    \<and> (py_strip (py_lower n) \<notin> {''backtest'', ''paper'', ''live''} \<longrightarrow> create_backend seeded reg' m kw = Inr (Call cls kw))
    \<and> (py_strip (py_lower n) \<in> {''backtest'', ''live''} \<longrightarrow> (\<exists>kw'. create_backend seeded reg' m kw = Inr (Call cls kw')))
    \<and> (py_strip (py_lower n) = ''paper'' \<longrightarrow> create_backend seeded reg' m kw = create_backend seeded [] ''paper'' kw)
    \<and> (\<forall>name. (\<exists>l. create_backend seeded reg' name kw = Inl (UnknownBackend (py_strip (py_lower name)) l))
         \<longleftrightarrow> py_strip (py_lower name) \<notin> set (list_backends reg'))"
proof -
  let ?n = "py_strip (py_lower n)"
  have reg: "reg' = AList.update ?n cls reg" using assms(1) by (simp add: register_backend_def split: if_splits)
  have paper: "py_strip (py_lower ''paper'') = ''paper''"
    by (simp add: py_strip_def py_lower_def py_space_def upper_char_def Let_def)
  have "?n \<in> fst ` set reg'" unfolding reg by (metis map_of_eq_None_iff map_of_update fun_upd_same option.distinct(1))
  moreover have "sorted (list_backends reg')" "distinct (list_backends reg')" by (simp_all add: list_backends_def)
  moreover have made: "create_backend seeded reg' m kw = construct_backend seeded cls ?n kw"
    using assms(2) by (simp add: create_backend_def reg Let_def)
  then have "?n \<notin> {''backtest'', ''paper'', ''live''} \<longrightarrow> create_backend seeded reg' m kw = Inr (Call cls kw)"
    "?n \<in> {''backtest'', ''live''} \<longrightarrow> (\<exists>kw'. create_backend seeded reg' m kw = Inr (Call cls kw'))"
    by (simp_all add: construct_backend_def)
  moreover have "?n = ''paper'' \<longrightarrow> create_backend seeded reg' m kw = create_backend seeded [] ''paper'' kw"
    unfolding made by (simp add: create_backend_def paper builtin_backends_def construct_backend_def)
  moreover have "\<forall>name. (\<exists>l. create_backend seeded reg' name kw = Inl (UnknownBackend (py_strip (py_lower name)) l))
     \<longleftrightarrow> py_strip (py_lower name) \<notin> set (list_backends reg')"
  proof
    fix name
    let ?m = "py_strip (py_lower name)"
    have "?m \<notin> set (list_backends reg') \<longleftrightarrow> map_of reg' ?m = None \<and> map_of builtin_backends ?m = None"
      by (simp add: map_of_eq_None_iff builtin_backends_def)
    then show "(\<exists>l. create_backend seeded reg' name kw = Inl (UnknownBackend ?m l)) \<longleftrightarrow> ?m \<notin> set (list_backends reg')"
      by (simp add: create_backend_def Let_def construct_backend_known split: option.splits)
  qed
  ultimately show ?thesis unfolding list_backends_set set_map by blast
qed

section \<open>The scaffold\<close>

text \<open>A live backend without broker wiring answers every order itself; the flags of a connection agree.\<close>

lemma scaffold_calls_no_broker:
  "lb_scaffold b \<Longrightarrow> live_execute hook ord price costs b = live_execute submit_order ord price costs b"
  by (simp add: live_execute_def)

lemma live_flags_agree:
  assumes "live_connect hook now b = (res, b')" "lb_connected b \<longleftrightarrow> lb_connected_at b \<noteq> None"
    and "\<And>r b1. hook b = (r, b1) \<Longrightarrow> lb_connected b1 = lb_connected b \<and> lb_connected_at b1 = lb_connected_at b"
  shows "(lb_connected b' \<longleftrightarrow> lb_connected_at b' \<noteq> None) \<and> (lb_scaffold b \<longrightarrow> \<not> lb_connected b' \<and> lb_client b' = lb_client b)"
  using assms by (auto simp: live_connect_def reset_connection_state_def split: if_splits prod.splits sum.splits)

end
