(* ===== verification/AuditLog.thy ===== *)
theory AuditLog
  imports Prelude
begin

text \<open>
  The hash-chained audit log of \<open>engine/core/audit_log.py\<close> and the redaction of payloads it applies,
  \<open>engine/observability/redact.py\<close>.

  The canonical JSON bytes of an event with their SHA-256 digest are one function \<open>hash\<close>; the scrubbing
  of a string by the regular expressions of the module is a function \<open>scrub\<close>, and the UTF-8 decoding
  of bytes is \<open>decode\<close>.  The clock and the uuid of an event are arguments.
\<close>

section \<open>Redaction\<close>

text \<open>The values of a payload; numbers, booleans and other objects are atoms, which are left alone.\<close>

datatype 'a pval = Str string | Bytes "nat list" | Atom 'a
  | PList "'a pval list" | PTuple "'a pval list" | PDict "(string \<times> 'a pval) list"

definition REDACTED :: string where
  "REDACTED = ''***REDACTED***''"

definition BANNED_KEYS :: "string list" where
  "BANNED_KEYS =
     [''password'', ''passwd'', ''pw'', ''pwd'', ''passphrase'', ''passcode'',
      ''token'', ''auth_token'', ''access_token'', ''refresh_token'', ''session_token'', ''id_token'',
      ''jwt'', ''csrf_token'', ''otp'', ''mfa_code'', ''verification_code'',
      ''secret'', ''client_secret'', ''webhook_secret'', ''signing_secret'', ''private_key'', ''ssh_key'',
      ''signing_key'', ''encryption_key'', ''mfa_encryption_key'', ''api_key'', ''apikey'', ''x_api_key'',
      ''x_auth_token'', ''credentials'',
      ''authorization'', ''proxy_authorization'', ''auth'', ''bearer'', ''cookie'', ''set_cookie'', ''session_id'',
      ''credit_card'', ''creditcard'', ''card_number'', ''cardnumber'', ''cvv'', ''ssn'', ''iban'',
      ''swift_code'', ''routing_number'', ''bank_account'', ''account_number'']"

definition is_banned :: "string \<Rightarrow> bool" where
  "is_banned key = (map (\<lambda>c. if c = CHR ''-'' then CHR ''_'' else c) (py_lower key) \<in> set BANNED_KEYS)"

fun scrub_value :: "(string \<Rightarrow> string) \<Rightarrow> (nat list \<Rightarrow> string) \<Rightarrow> 'a pval \<Rightarrow> 'a pval" where
  "scrub_value scrub decode (Str s) = Str (scrub s)"
| "scrub_value scrub decode (Bytes b) = Str (scrub (decode b))"
| "scrub_value scrub decode (Atom a) = Atom a"
| "scrub_value scrub decode (PList vs) = PList (map (scrub_value scrub decode) vs)"
| "scrub_value scrub decode (PTuple vs) = PTuple (map (scrub_value scrub decode) vs)"
| "scrub_value scrub decode (PDict kvs) =
     PDict (map (\<lambda>(k, v). (k, if is_banned k then Str REDACTED else scrub_value scrub decode v)) kvs)"

definition redact_processor ::
  "(string \<Rightarrow> string) \<Rightarrow> (nat list \<Rightarrow> string) \<Rightarrow> (string \<times> 'a pval) list \<Rightarrow> (string \<times> 'a pval) list" where
  "redact_processor scrub decode d =
     map (\<lambda>(k, v). (k, if is_banned k then Str REDACTED else scrub_value scrub decode v)) d"

text \<open>The Luhn checksum that decides which digit runs are card numbers.\<close>

definition digit_of :: "char \<Rightarrow> nat" where
  "digit_of c = of_char c - 48"

definition is_digit :: "char \<Rightarrow> bool" where
  "is_digit c = (48 \<le> (of_char c :: nat) \<and> (of_char c :: nat) \<le> 57)"

definition luhn_digit :: "nat \<Rightarrow> nat \<Rightarrow> nat" where
  "luhn_digit i d = (if i mod 2 = 1 then (if 9 < d * 2 then d * 2 - 9 else d * 2) else d)"

definition luhn_sum :: "nat list \<Rightarrow> nat" where
  "luhn_sum ds = sum_list (map (\<lambda>(i, d). luhn_digit i d) (enumerate 0 (rev ds)))"

definition luhn_valid :: "string \<Rightarrow> bool" where
  "luhn_valid candidate =
     (let digits = filter is_digit candidate in
      if length digits < 13 \<or> 19 < length digits then False
      else luhn_sum (map digit_of digits) mod 10 = 0)"

section \<open>Events and the log\<close>

record 'a AuditEvent =
  ae_id :: string
  ae_sequence :: int
  ae_event_type :: string
  ae_actor :: string
  ae_payload :: "(string \<times> 'a pval) list"
  ae_prev_hash :: string
  ae_hash :: string
  ae_created_at :: rat

text \<open>The fields that are hashed, as \<open>_canonical_bytes\<close> puts them in a dictionary.\<close>

record 'a AuditBody =
  ab_sequence :: int
  ab_event_type :: string
  ab_actor :: string
  ab_payload :: "(string \<times> 'a pval) list"
  ab_prev_hash :: string
  ab_created_at :: rat

definition body_of :: "'a AuditEvent \<Rightarrow> 'a AuditBody" where
  "body_of e = \<lparr>ab_sequence = ae_sequence e, ab_event_type = ae_event_type e, ab_actor = ae_actor e,
     ab_payload = ae_payload e, ab_prev_hash = ae_prev_hash e, ab_created_at = ae_created_at e\<rparr>"

definition GENESIS_PREV_HASH :: string where
  "GENESIS_PREV_HASH = replicate 64 CHR ''0''"

definition al_append :: "'a AuditEvent \<Rightarrow> 'a AuditEvent list \<Rightarrow> 'a AuditEvent list" where
  "al_append e events = events @ [e]"

definition al_list :: "string option \<Rightarrow> 'a AuditEvent list \<Rightarrow> 'a AuditEvent list" where
  "al_list actor events = (case actor of None \<Rightarrow> events | Some a \<Rightarrow> filter (\<lambda>e. ae_actor e = a) events)"

definition al_get_by_sequence :: "int \<Rightarrow> 'a AuditEvent list \<Rightarrow> 'a AuditEvent option" where
  "al_get_by_sequence n events = find (\<lambda>e. ae_sequence e = n) events"

definition al_last :: "'a AuditEvent list \<Rightarrow> 'a AuditEvent option" where
  "al_last events = (if events = [] then None else Some (last events))"

definition al_all :: "'a AuditEvent list \<Rightarrow> 'a AuditEvent list" where
  "al_all events = events"

section \<open>The service\<close>

datatype audit_error = EmptyEventType | EmptyActor

text \<open>
  \<open>append\<close> reads the last event, then appends: over a log whose calls suspend, other tasks run
  between the two.  \<open>next_audit_event\<close> is the part between: what is appended after having read \<open>prev\<close>.
\<close>

definition next_audit_event ::
  "('a AuditBody \<Rightarrow> string) \<Rightarrow> string \<Rightarrow> rat \<Rightarrow> string \<Rightarrow> string \<Rightarrow> (string \<times> 'a pval) list
     \<Rightarrow> 'a AuditEvent option \<Rightarrow> 'a AuditEvent" where
  "next_audit_event hash eid now event_type actor redacted prev =
     (let n = (case prev of None \<Rightarrow> 1 | Some e \<Rightarrow> ae_sequence e + 1);
          prev_hash = (case prev of None \<Rightarrow> GENESIS_PREV_HASH | Some e \<Rightarrow> ae_hash e);
          digest = hash \<lparr>ab_sequence = n, ab_event_type = event_type, ab_actor = actor, ab_payload = redacted,
                     ab_prev_hash = prev_hash, ab_created_at = now\<rparr>
      in \<lparr>ae_id = eid, ae_sequence = n, ae_event_type = event_type, ae_actor = actor, ae_payload = redacted,
          ae_prev_hash = prev_hash, ae_hash = digest, ae_created_at = now\<rparr>)"

definition audit_append ::
  "('s \<Rightarrow> 'a AuditEvent option) \<Rightarrow> ('a AuditEvent \<Rightarrow> 's \<Rightarrow> 's) \<Rightarrow> ('a AuditBody \<Rightarrow> string)
     \<Rightarrow> ((string \<times> 'a pval) list \<Rightarrow> (string \<times> 'a pval) list)
     \<Rightarrow> string \<Rightarrow> rat \<Rightarrow> string \<Rightarrow> string \<Rightarrow> (string \<times> 'a pval) list \<Rightarrow> 's
     \<Rightarrow> (audit_error + 'a AuditEvent) \<times> 's" where
  "audit_append read_last write hash redact eid now event_type actor payload st =
     (if py_strip event_type = [] then (Inl EmptyEventType, st)
      else if py_strip actor = [] then (Inl EmptyActor, st)
      else let e = next_audit_event hash eid now event_type actor (redact payload) (read_last st)
           in (Inr e, write e st))"

fun verify_from :: "('a AuditBody \<Rightarrow> string) \<Rightarrow> int \<Rightarrow> string \<Rightarrow> 'a AuditEvent list \<Rightarrow> bool" where
  "verify_from hash expected_seq expected_prev [] = True"
| "verify_from hash expected_seq expected_prev (e # es) =
     (if ae_sequence e \<noteq> expected_seq then False
      else if ae_prev_hash e \<noteq> expected_prev then False
      else if hash (body_of e) \<noteq> ae_hash e then False
      else verify_from hash (expected_seq + 1) (ae_hash e) es)"

definition verify_chain :: "('s \<Rightarrow> 'a AuditEvent list) \<Rightarrow> ('a AuditBody \<Rightarrow> string) \<Rightarrow> 's \<Rightarrow> bool" where
  "verify_chain read_all hash st = verify_from hash 1 GENESIS_PREV_HASH (read_all st)"

section \<open>The persistence protocol\<close>

text \<open>What the service relies on: the log keeps the events in the order of the appends.\<close>

locale audit_log =
  fixes append_event :: "'a AuditEvent \<Rightarrow> 's \<Rightarrow> 's" and read_last :: "'s \<Rightarrow> 'a AuditEvent option"
    and read_all :: "'s \<Rightarrow> 'a AuditEvent list"
  assumes all_append: "read_all (append_event e s) = read_all s @ [e]"
    and last_all: "read_last s = (if read_all s = [] then None else Some (last (read_all s)))"

interpretation mem: audit_log al_append al_last al_all
  by unfold_locales (simp_all add: al_append_def al_last_def al_all_def)

text \<open>What a chain that verifies from some point on determines.\<close>

definition chain_end :: "int \<Rightarrow> string \<Rightarrow> 'a AuditEvent list \<Rightarrow> int \<times> string" where
  "chain_end n p es = (n + int (length es), if es = [] then p else ae_hash (last es))"

lemma chain_end_Cons: "chain_end n p (e # es) = chain_end (n + 1) (ae_hash e) es"
  by (simp add: chain_end_def)

lemma verify_append:
  "verify_from hash n p (es @ es') \<longleftrightarrow>
     verify_from hash n p es \<and> verify_from hash (fst (chain_end n p es)) (snd (chain_end n p es)) es'"
  by (induction es arbitrary: n p) (simp_all add: chain_end_Cons, simp add: chain_end_def)

lemma verify_sequence:
  "verify_from hash n p es \<Longrightarrow> i < length es \<Longrightarrow> ae_sequence (es ! i) = n + int i"
  by (induction es arbitrary: n p i) (auto simp: nth_Cons split: nat.splits if_splits)

lemma verify_hash:
  "verify_from hash n p es \<Longrightarrow> e \<in> set es \<Longrightarrow> ae_hash e = hash (body_of e)"
  by (induction es arbitrary: n p) (auto split: if_splits)

context audit_log
begin

lemma next_verifies:
  assumes "verify_from hash 1 GENESIS_PREV_HASH (read_all s)"
  shows "verify_from hash 1 GENESIS_PREV_HASH (read_all s @ [next_audit_event hash eid now t a d (read_last s)])"
proof (cases "read_all s = []")
  case True
  then show ?thesis by (simp add: last_all next_audit_event_def body_of_def Let_def)
next
  case False
  then have "ae_sequence (last (read_all s)) = int (length (read_all s))"
    using verify_sequence [OF assms, of "length (read_all s) - 1"] by (simp add: last_conv_nth of_nat_diff Suc_le_eq)
  then show ?thesis using assms False
    by (simp add: verify_append chain_end_def last_all next_audit_event_def body_of_def Let_def)
qed

lemma append_verifies:
  assumes "verify_chain read_all hash s"
    and "audit_append read_last append_event hash redact eid now t a d s = (res, s')"
  shows "verify_chain read_all hash s'"
    and "case res of Inl _ \<Rightarrow> read_all s' = read_all s | Inr e \<Rightarrow> read_all s' = read_all s @ [e] \<and> ae_payload e = redact d"
  using assms next_verifies [of hash s]
  by (auto simp: verify_chain_def audit_append_def all_append next_audit_event_def Let_def split: if_splits)

text \<open>After two appends that have read the same state no continuation verifies.\<close>

lemma all_appends: "read_all (foldl (\<lambda>s e. append_event e s) s es) = read_all s @ es"
  by (induction es arbitrary: s) (simp_all add: all_append)

lemma same_read_breaks:
  "\<not> verify_chain read_all hash (foldl (\<lambda>s e. append_event e s)
     (append_event (next_audit_event hash i2 t2 ty2 a2 d2 (read_last s)) (append_event (next_audit_event hash i1 t1 ty1 a1 d1 (read_last s)) s)) later)"
  (is "\<not> verify_chain _ _ (foldl _ (append_event ?e2 (append_event ?e1 s)) _)")
proof
  assume "verify_chain read_all hash (foldl (\<lambda>s e. append_event e s) (append_event ?e2 (append_event ?e1 s)) later)"
  then have v: "verify_from hash 1 GENESIS_PREV_HASH (read_all s @ ?e1 # ?e2 # later)"
    by (simp add: verify_chain_def all_appends all_append)
  have "ae_sequence ?e1 = ae_sequence ?e2" by (simp add: next_audit_event_def Let_def)
  then show False
    using verify_sequence [OF v, of "length (read_all s)"] verify_sequence [OF v, of "Suc (length (read_all s))"]
    by (simp add: nth_append)
qed

end

section \<open>What the audit trail guarantees\<close>

text \<open>A value exposes a secret when a banned key, at any depth, keeps a value that is not redacted.\<close>

fun exposes :: "'a pval \<Rightarrow> bool" where
  "exposes (Str s) = False"
| "exposes (Bytes b) = False"
| "exposes (Atom a) = False"
| "exposes (PList vs) = list_ex exposes vs"
| "exposes (PTuple vs) = list_ex exposes vs"
| "exposes (PDict kvs) = list_ex (\<lambda>(k, v). if is_banned k then v \<noteq> Str REDACTED else exposes v) kvs"

lemma exposes_PDict:
  "exposes (PDict kvs) \<longleftrightarrow> (\<exists>k v. (k, v) \<in> set kvs \<and> (if is_banned k then v \<noteq> Str REDACTED else exposes v))"
  by (auto simp: list_ex_iff)

declare exposes.simps(6) [simp del]

lemma redacted_entries:
  assumes "\<And>k v. (k, v) \<in> set kvs \<Longrightarrow> \<not> is_banned k \<Longrightarrow> \<not> exposes (f v)"
  shows "\<not> exposes (PDict (map (\<lambda>(k, v). (k, if is_banned k then Str REDACTED else f v)) kvs))"
  by (auto simp: exposes_PDict split: if_splits dest: assms)

lemma scrub_value_safe: "\<not> exposes (scrub_value scrub decode v)"
proof (induction scrub decode v rule: scrub_value.induct)
  case (6 scrub decode kvs)
  then show ?case unfolding scrub_value.simps by (intro redacted_entries) auto
qed (auto simp: list_ex_iff)

lemma redact_safe: "\<not> exposes (PDict (redact_processor scrub decode d))"
  unfolding redact_processor_def by (intro redacted_entries scrub_value_safe)

text \<open>Requests to the service, one after the other, each with the uuid and the clock it sees.\<close>

record 'a audit_request =
  rq_id :: string
  rq_now :: rat
  rq_type :: string
  rq_actor :: string
  rq_payload :: "(string \<times> 'a pval) list"

fun audit_requests ::
  "('a AuditBody \<Rightarrow> string) \<Rightarrow> (string \<Rightarrow> string) \<Rightarrow> (nat list \<Rightarrow> string) \<Rightarrow> 'a audit_request list
     \<Rightarrow> 'a AuditEvent list \<Rightarrow> (audit_error + 'a AuditEvent) list \<times> 'a AuditEvent list" where
  "audit_requests hash scrub decode [] st = ([], st)"
| "audit_requests hash scrub decode (r # rs) st =
     (case audit_append al_last al_append hash (redact_processor scrub decode) (rq_id r) (rq_now r) (rq_type r)
             (rq_actor r) (rq_payload r) st of
        (res, st') \<Rightarrow> (case audit_requests hash scrub decode rs st' of (out, st'') \<Rightarrow> (res # out, st'')))"

lemma audit_requests_ok:
  assumes "audit_requests hash scrub decode rs st = (out, st')" "verify_chain al_all hash st"
  shows "verify_chain al_all hash st' \<and> st' = st @ [e. Inr e \<leftarrow> out]
    \<and> (\<forall>e. Inr e \<in> set out \<longrightarrow> \<not> exposes (PDict (ae_payload e)))"
  using assms
proof (induction rs arbitrary: st out st')
  case (Cons r rs)
  obtain res st1 where step: "audit_append al_last al_append hash (redact_processor scrub decode) (rq_id r) (rq_now r)
      (rq_type r) (rq_actor r) (rq_payload r) st = (res, st1)" by force
  obtain out1 where rest: "audit_requests hash scrub decode rs st1 = (out1, st')" "out = res # out1"
    using Cons.prems(1) by (auto simp: step split: prod.splits)
  note A = mem.append_verifies [OF Cons.prems(2) step, unfolded al_all_def [of st] al_all_def [of st1]]
  show ?case using Cons.IH [OF rest(1) A(1)] A(2) redact_safe [of scrub decode]
    by (cases res) (auto simp: rest(2))
qed simp

text \<open>
  C30.  The audit trail of the in-memory log always verifies: after any requests on an empty log, refused ones
  included, the chain verifies, the log holds exactly the accepted events in order, numbered
  from one without gaps, each is found under its number, and no payload exposes a banned key.
\<close>

theorem audit_trail_verifies:
  assumes "audit_requests hash scrub decode rs [] = (out, st)"
  shows "verify_chain al_all hash st \<and> st = [e. Inr e \<leftarrow> out]
    \<and> (\<forall>i<length st. ae_sequence (st ! i) = int i + 1 \<and> al_get_by_sequence (int i + 1) st = Some (st ! i))
    \<and> (\<forall>e\<in>set st. \<not> exposes (PDict (ae_payload e)))"
proof -
  have ok: "verify_chain al_all hash st" "st = [e. Inr e \<leftarrow> out]" "\<forall>e. Inr e \<in> set out \<longrightarrow> \<not> exposes (PDict (ae_payload e))"
    using audit_requests_ok [OF assms] by (auto simp: verify_chain_def al_all_def)
  then have seq: "ae_sequence (st ! i) = int i + 1" if "i < length st" for i
    using verify_sequence [of hash 1 GENESIS_PREV_HASH st i] that by (simp add: verify_chain_def al_all_def)
  have "al_get_by_sequence (int i + 1) st = Some (st ! i)" if "i < length st" for i
    unfolding al_get_by_sequence_def find_Some_iff using that seq by (intro exI [of _ i]) auto
  moreover have "\<forall>e\<in>set st. \<not> exposes (PDict (ae_payload e))"
    using ok(2,3) by (auto split: sum.splits)
  ultimately show ?thesis using ok(1,2) seq by blast
qed

definition login_request :: "string \<Rightarrow> unit audit_request" where
  "login_request who = \<lparr>rq_id = ''id'', rq_now = 0, rq_type = ''login'', rq_actor = who,
     rq_payload = [(''Password'', Str ''hunter2''), (''n'', Atom ())]\<rparr>"

theorem audit_trail_verifies_witness:
  "verify_chain al_all (\<lambda>b. ab_actor b) (snd (audit_requests (\<lambda>b. ab_actor b) (\<lambda>s. s) (\<lambda>_. [])
     [login_request ''ann'', login_request [], login_request ''bob''] []))"
  using audit_trail_verifies [OF prod.collapse [symmetric], of "\<lambda>b. ab_actor b" "\<lambda>s. s" "\<lambda>_. []"
      "[login_request ''ann'', login_request [], login_request ''bob'']"] by blast

text \<open>Two chains with one end agree from there backwards, as long as no two bodies collide.\<close>

lemma verified_determines:
  assumes "verify_from hash n p es" "verify_from hash n p' es'" "length es = length es'"
    and "es \<noteq> [] \<Longrightarrow> ae_hash (last es) = ae_hash (last es')"
    and "\<And>i. i < length es \<Longrightarrow> hash (body_of (es ! i)) = hash (body_of (es' ! i)) \<Longrightarrow> body_of (es ! i) = body_of (es' ! i)"
  shows "map body_of es = map body_of es' \<and> (es \<noteq> [] \<longrightarrow> p = p')"
  using assms
proof (induction es arbitrary: n p p' es')
  case (Cons e es)
  obtain f fs where es': "es' = f # fs" "length es = length fs" using Cons.prems(3) by (cases es') auto
  have ve: "ae_prev_hash e = p" "hash (body_of e) = ae_hash e" "verify_from hash (n + 1) (ae_hash e) es"
    using Cons.prems(1) by (auto split: if_splits)
  have vf: "ae_prev_hash f = p'" "hash (body_of f) = ae_hash f" "verify_from hash (n + 1) (ae_hash f) fs"
    using Cons.prems(2) by (auto simp: es' split: if_splits)
  have IH: "map body_of es = map body_of fs \<and> (es \<noteq> [] \<longrightarrow> ae_hash e = ae_hash f)"
  proof (rule Cons.IH [OF ve(3) vf(3) es'(2)])
    show "ae_hash (last es) = ae_hash (last fs)" if "es \<noteq> []"
      using Cons.prems(4) that es' by (cases fs) auto
    show "body_of (es ! i) = body_of (fs ! i)" if "i < length es" "hash (body_of (es ! i)) = hash (body_of (fs ! i))" for i
      using Cons.prems(5) [of "Suc i"] that by (simp add: es')
  qed
  have "ae_hash e = ae_hash f"
    using IH Cons.prems(4) es' by (cases "es = []") auto
  then have b: "body_of e = body_of f" using Cons.prems(5) [of 0] ve(2) vf(2) by (simp add: es')
  have "p = p'" using arg_cong [OF b, of ab_prev_hash] ve(1) vf(1) by (simp add: body_of_def)
  then show ?case using IH b by (simp add: es')
qed simp

text \<open>
  C31.  A change that keeps the last hash needs a collision: when two logs of the same length both verify and end with
  the same hash, they agree in every hashed field of every event, or at some position two
  different events have the same digest.
\<close>

theorem tampering_needs_a_collision:
  assumes "verify_chain al_all hash es" "verify_chain al_all hash es'" "length es = length es'"
    and "es \<noteq> []" "ae_hash (last es) = ae_hash (last es')"
  shows "map body_of es = map body_of es'
    \<or> (\<exists>i<length es. body_of (es ! i) \<noteq> body_of (es' ! i) \<and> hash (body_of (es ! i)) = hash (body_of (es' ! i)))"
  using verified_determines [of hash 1 GENESIS_PREV_HASH es GENESIS_PREV_HASH es'] assms
  unfolding verify_chain_def al_all_def by blast

theorem tampering_needs_a_collision_witness:
  "map body_of (al_append (next_audit_event (\<lambda>b. ab_actor b) ''i'' 0 ''t'' ''ann'' ([] :: (string \<times> unit pval) list) None) [])
     = map body_of (al_append (next_audit_event (\<lambda>b. ab_actor b) ''j'' 0 ''t'' ''ann'' [] None) [])"
proof -
  let ?e = "\<lambda>i. next_audit_event (\<lambda>b. ab_actor b) i 0 ''t'' ''ann'' ([] :: (string \<times> unit pval) list) None"
  have v: "verify_chain al_all (\<lambda>b. ab_actor b) (al_append (?e i) [])" for i
    by (simp add: verify_chain_def al_all_def al_append_def next_audit_event_def body_of_def Let_def)
  show ?thesis
    using tampering_needs_a_collision [OF v [of "''i''"] v [of "''j''"]]
    by (simp add: al_append_def next_audit_event_def body_of_def Let_def)
qed

text \<open>What the chain does not see: the ids of the events, and a tail that is cut off.\<close>

lemma ids_are_not_covered: "verify_from hash n p (map (\<lambda>e. e\<lparr>ae_id := f e\<rparr>) es) = verify_from hash n p es"
  by (induction es arbitrary: n p) (simp_all add: body_of_def)

lemma cut_log_verifies: "verify_chain al_all hash es \<Longrightarrow> verify_chain al_all hash (take k es)"
  using verify_append [of hash 1 GENESIS_PREV_HASH "take k es" "drop k es"] by (simp add: verify_chain_def al_all_def)

text \<open>
  Interleaved appends break the chain for good: over any log that keeps the protocol, when two tasks have read
  the same last event before either appends, the log never verifies again, whatever is
  appended later.
\<close>

theorem interleaved_appends_break_chain:
  assumes "audit_log append_event read_last read_all"
    and "e1 = next_audit_event hash i1 t1 ty1 a1 d1 (read_last s)" "e2 = next_audit_event hash i2 t2 ty2 a2 d2 (read_last s)"
  shows "\<not> verify_chain read_all hash (foldl (\<lambda>s e. append_event e s) (append_event e2 (append_event e1 s)) later)"
  unfolding assms(2,3) by (rule audit_log.same_read_breaks [OF assms(1)])

end
