(* ===== verification/Lifecycle.thy ===== *)
theory Lifecycle
  imports Prelude Rounding
begin

text \<open>
  The promotion state machine of strategies, \<open>engine/core/strategy_lifecycle.py\<close>: draft, back test, paper, live,
  retired, with gates on the evidence of the two critical promotions.

  Evidence is what a caller hands over, so its floats may be NaN or infinite: \<open>flt\<close> has them, with
  Python's comparisons.  \<open>set_stage\<close> and \<open>promote\<close> hold the lock of their strategy and do not suspend
  under it, so each is one step; the clock readings are arguments (\<open>promote\<close> reads it in the gate
  and again for the record).
\<close>

section \<open>Stages and evidence\<close>

datatype LifecycleStage = DRAFT | BACKTEST | PAPER | LIVE | RETIRED_STAGE

fun stage_value :: "LifecycleStage \<Rightarrow> string" where
  "stage_value DRAFT = ''draft''"
| "stage_value BACKTEST = ''backtest''"
| "stage_value PAPER = ''paper''"
| "stage_value LIVE = ''live''"
| "stage_value RETIRED_STAGE = ''retired''"

datatype flt = Fin rat | PosInf | NegInf | NaN

fun flt_less :: "flt \<Rightarrow> flt \<Rightarrow> bool" where
  "flt_less (Fin x) (Fin y) = (x < y)"
| "flt_less NaN y = False"
| "flt_less x NaN = False"
| "flt_less NegInf y = (y \<noteq> NegInf)"
| "flt_less x NegInf = False"
| "flt_less x PosInf = (x \<noteq> PosInf)"
| "flt_less PosInf y = False"

record LifecycleEvidence =
  le_backtest_id :: "string option"
  le_sharpe :: "flt option"
  le_max_drawdown_pct :: "flt option"
  le_paper_days :: "int option"
  le_paper_sharpe :: "flt option"
  le_window_start :: "rat option"
  le_reason :: "string option"

definition no_evidence :: LifecycleEvidence where
  "no_evidence = \<lparr>le_backtest_id = None, le_sharpe = None, le_max_drawdown_pct = None, le_paper_days = None,
     le_paper_sharpe = None, le_window_start = None, le_reason = None\<rparr>"

record LifecycleTransition =
  lt_strategy :: string
  lt_target :: LifecycleStage
  lt_evidence :: LifecycleEvidence
  lt_at :: rat

datatype transition_error =
  NoCurrentStage string
| NotAllowed LifecycleStage LifecycleStage
| NoBacktestId
| SharpeTooLow "flt option"
| SharpeImplausible flt
| DrawdownTooHigh "flt option"
| TooFewPaperDays "int option"
| TooManyPaperDays int
| WindowTooShort rat int
| PaperSharpeTooLow "flt option"
| PaperSharpeImplausible flt

definition LIFECYCLE_TRANSITIONS :: "LifecycleStage \<Rightarrow> LifecycleStage list" where
  "LIFECYCLE_TRANSITIONS s = (case s of
     DRAFT \<Rightarrow> [BACKTEST, RETIRED_STAGE] | BACKTEST \<Rightarrow> [PAPER, RETIRED_STAGE]
   | PAPER \<Rightarrow> [LIVE, RETIRED_STAGE] | LIVE \<Rightarrow> [RETIRED_STAGE] | RETIRED_STAGE \<Rightarrow> [])"

definition MIN_SHARPE_FOR_PAPER :: rat where "MIN_SHARPE_FOR_PAPER = 1 / 2"
definition MAX_DRAWDOWN_PCT_FOR_PAPER :: rat where "MAX_DRAWDOWN_PCT_FOR_PAPER = 25"
definition MIN_PAPER_DAYS :: int where "MIN_PAPER_DAYS = 7"
definition MIN_PAPER_SHARPE :: rat where "MIN_PAPER_SHARPE = 1 / 2"
definition MAX_PLAUSIBLE_SHARPE :: rat where "MAX_PLAUSIBLE_SHARPE = 10"
definition MAX_PLAUSIBLE_PAPER_DAYS :: int where "MAX_PLAUSIBLE_PAPER_DAYS = 730"

lemmas lifecycle_limits = MIN_SHARPE_FOR_PAPER_def MAX_DRAWDOWN_PCT_FOR_PAPER_def MIN_PAPER_DAYS_def
  MIN_PAPER_SHARPE_def MAX_PLAUSIBLE_SHARPE_def MAX_PLAUSIBLE_PAPER_DAYS_def

section \<open>The gates\<close>

definition gate_backtest_to_paper :: "LifecycleEvidence \<Rightarrow> transition_error option" where
  "gate_backtest_to_paper ev =
     (if le_backtest_id ev = None \<or> le_backtest_id ev = Some [] then Some NoBacktestId
      else case le_sharpe ev of
        None \<Rightarrow> Some (SharpeTooLow None)
      | Some s \<Rightarrow>
          if flt_less s (Fin MIN_SHARPE_FOR_PAPER) then Some (SharpeTooLow (Some s))
          else if flt_less (Fin MAX_PLAUSIBLE_SHARPE) s then Some (SharpeImplausible s)
          else case le_max_drawdown_pct ev of
            None \<Rightarrow> Some (DrawdownTooHigh None)
          | Some d \<Rightarrow>
              if flt_less (Fin MAX_DRAWDOWN_PCT_FOR_PAPER) d then Some (DrawdownTooHigh (Some d)) else None)"

definition gate_window :: "rat \<Rightarrow> int \<Rightarrow> rat option \<Rightarrow> transition_error option" where
  "gate_window now days start =
     (case start of
        None \<Rightarrow> None
      | Some t \<Rightarrow> let elapsed = fdiv (fsub now t) 86400 in
          if elapsed < of_int days then Some (WindowTooShort elapsed days) else None)"

definition gate_paper_to_live :: "rat \<Rightarrow> LifecycleEvidence \<Rightarrow> transition_error option" where
  "gate_paper_to_live now ev =
     (case le_paper_days ev of
        None \<Rightarrow> Some (TooFewPaperDays None)
      | Some days \<Rightarrow>
          if days < MIN_PAPER_DAYS then Some (TooFewPaperDays (Some days))
          else if MAX_PLAUSIBLE_PAPER_DAYS < days then Some (TooManyPaperDays days)
          else case gate_window now days (le_window_start ev) of
            Some e \<Rightarrow> Some e
          | None \<Rightarrow> (case le_paper_sharpe ev of
              None \<Rightarrow> Some (PaperSharpeTooLow None)
            | Some s \<Rightarrow>
                if flt_less s (Fin MIN_PAPER_SHARPE) then Some (PaperSharpeTooLow (Some s))
                else if flt_less (Fin MAX_PLAUSIBLE_SHARPE) s then Some (PaperSharpeImplausible s)
                else None))"

definition lifecycle_gate :: "rat \<Rightarrow> LifecycleStage \<Rightarrow> LifecycleStage \<Rightarrow> LifecycleEvidence \<Rightarrow> transition_error option" where
  "lifecycle_gate now current target ev =
     (if current = BACKTEST \<and> target = PAPER then gate_backtest_to_paper ev
      else if current = PAPER \<and> target = LIVE then gate_paper_to_live now ev
      else None)"

section \<open>The service\<close>

record LifecycleService =
  sl_stage :: "(string, LifecycleStage) dict"
  sl_history :: "(string, LifecycleTransition list) dict"

definition new_lifecycle :: LifecycleService where
  "new_lifecycle = \<lparr>sl_stage = [], sl_history = []\<rparr>"

definition lifecycle_history :: "string \<Rightarrow> LifecycleService \<Rightarrow> LifecycleTransition list" where
  "lifecycle_history sid st = (case map_of (sl_history st) sid of None \<Rightarrow> [] | Some h \<Rightarrow> h)"

definition current_stage :: "string \<Rightarrow> LifecycleService \<Rightarrow> LifecycleStage option" where
  "current_stage sid st = map_of (sl_stage st) sid"

text \<open>The common end of both operations: the stage and one more entry in the history.\<close>

definition record_stage :: "LifecycleTransition \<Rightarrow> LifecycleService \<Rightarrow> LifecycleService" where
  "record_stage t st =
     st\<lparr>sl_stage := AList.update (lt_strategy t) (lt_target t) (sl_stage st),
        sl_history := AList.update (lt_strategy t) (lifecycle_history (lt_strategy t) st @ [t]) (sl_history st)\<rparr>"

definition set_stage :: "rat \<Rightarrow> string \<Rightarrow> LifecycleStage \<Rightarrow> LifecycleService \<Rightarrow> LifecycleTransition \<times> LifecycleService" where
  "set_stage now sid stage st =
     (let t = \<lparr>lt_strategy = sid, lt_target = stage, lt_evidence = no_evidence, lt_at = now\<rparr>
      in (t, record_stage t st))"

definition promote ::
  "rat \<Rightarrow> rat \<Rightarrow> string \<Rightarrow> LifecycleStage \<Rightarrow> LifecycleEvidence \<Rightarrow> LifecycleService
     \<Rightarrow> (transition_error + LifecycleTransition) \<times> LifecycleService" where
  "promote gate_now now sid target ev st =
     (case map_of (sl_stage st) sid of
        None \<Rightarrow> (Inl (NoCurrentStage sid), st)
      | Some current \<Rightarrow>
          if target \<notin> set (LIFECYCLE_TRANSITIONS current) then (Inl (NotAllowed current target), st)
          else case lifecycle_gate gate_now current target ev of
            Some e \<Rightarrow> (Inl e, st)
          | None \<Rightarrow>
              let t = \<lparr>lt_strategy = sid, lt_target = target, lt_evidence = ev, lt_at = now\<rparr>
              in (Inr t, record_stage t st))"

section \<open>No skipping\<close>

datatype lifecycle_op = SetStage rat string LifecycleStage
  | Promote rat rat string LifecycleStage LifecycleEvidence

fun lifecycle_step :: "LifecycleService \<Rightarrow> lifecycle_op \<Rightarrow> LifecycleService" where
  "lifecycle_step st (SetStage now sid stage) = snd (set_stage now sid stage st)"
| "lifecycle_step st (Promote g now sid target ev) = snd (promote g now sid target ev st)"

text \<open>
  What the history of a strategy must end with in each stage, when \<open>set_stage\<close> only ever registers drafts: the
  whole path, with evidence that its gates accept.
\<close>

definition went_through :: "LifecycleStage list \<Rightarrow> LifecycleTransition list \<Rightarrow> bool" where
  "went_through stages h \<longleftrightarrow> (\<exists>before path. h = before @ path \<and> map lt_target path = stages
     \<and> (\<forall>t\<in>set path. (lt_target t = PAPER \<longrightarrow> gate_backtest_to_paper (lt_evidence t) = None)
          \<and> (lt_target t = LIVE \<longrightarrow> (\<exists>now. gate_paper_to_live now (lt_evidence t) = None))))"

definition path_to :: "LifecycleStage \<Rightarrow> LifecycleStage list" where
  "path_to s = (case s of DRAFT \<Rightarrow> [DRAFT] | BACKTEST \<Rightarrow> [DRAFT, BACKTEST] | PAPER \<Rightarrow> [DRAFT, BACKTEST, PAPER]
     | LIVE \<Rightarrow> [DRAFT, BACKTEST, PAPER, LIVE] | RETIRED_STAGE \<Rightarrow> [RETIRED_STAGE])"

definition drafts_only :: "string \<Rightarrow> lifecycle_op \<Rightarrow> bool" where
  "drafts_only sid op = (case op of SetStage now s stage \<Rightarrow> s = sid \<longrightarrow> stage = DRAFT | _ \<Rightarrow> True)"

lemma record_stage_simps:
  "current_stage sid (record_stage t st) = (if sid = lt_strategy t then Some (lt_target t) else current_stage sid st)"
  "lifecycle_history sid (record_stage t st) =
     (if sid = lt_strategy t then lifecycle_history sid st @ [t] else lifecycle_history sid st)"
  by (simp_all add: record_stage_def current_stage_def lifecycle_history_def)

lemma went_throughI:
  assumes "went_through stages h"
    and "lt_target t = PAPER \<Longrightarrow> gate_backtest_to_paper (lt_evidence t) = None"
    and "lt_target t = LIVE \<Longrightarrow> \<exists>now. gate_paper_to_live now (lt_evidence t) = None"
  shows "went_through (stages @ [lt_target t]) (h @ [t])"
proof -
  obtain before path where p: "h = before @ path" "map lt_target path = stages"
    "\<forall>t\<in>set path. (lt_target t = PAPER \<longrightarrow> gate_backtest_to_paper (lt_evidence t) = None)
       \<and> (lt_target t = LIVE \<longrightarrow> (\<exists>now. gate_paper_to_live now (lt_evidence t) = None))"
    using assms(1) by (auto simp: went_through_def)
  show ?thesis unfolding went_through_def
    using p assms(2,3) by (intro exI [of _ before] exI [of _ "path @ [t]"]) auto
qed

lemma went_through_start: "lt_target t \<notin> {PAPER, LIVE} \<Longrightarrow> went_through [lt_target t] (h @ [t])"
  unfolding went_through_def by (intro exI [of _ h] exI [of _ "[t]"]) auto

lemma lifecycle_step_path:
  assumes inv: "\<And>s. current_stage sid st = Some s \<Longrightarrow> went_through (path_to s) (lifecycle_history sid st)"
    and ok: "drafts_only sid op" and now: "current_stage sid (lifecycle_step st op) = Some s'"
  shows "went_through (path_to s') (lifecycle_history sid (lifecycle_step st op))"
proof (cases op)
  case (SetStage t sid' stage)
  show ?thesis
  proof (cases "sid' = sid")
    case True
    then have "stage = DRAFT" "s' = DRAFT"
      using ok now by (auto simp: SetStage drafts_only_def set_stage_def record_stage_simps Let_def)
    then show ?thesis using went_through_start [of "\<lparr>lt_strategy = sid, lt_target = DRAFT, lt_evidence = no_evidence, lt_at = t\<rparr>"]
      by (simp add: SetStage True set_stage_def record_stage_simps Let_def path_to_def)
  qed (use inv now in \<open>simp add: SetStage set_stage_def record_stage_simps Let_def\<close>)
next
  case (Promote g t sid' target ev)
  show ?thesis
  proof (cases "snd (promote g t sid' target ev st) = st \<or> sid' \<noteq> sid")
    case True
    then have "current_stage sid (snd (promote g t sid' target ev st)) = current_stage sid st
      \<and> lifecycle_history sid (snd (promote g t sid' target ev st)) = lifecycle_history sid st"
    proof
      assume "sid' \<noteq> sid"
      then show ?thesis by (simp add: promote_def record_stage_simps Let_def split: option.splits)
    qed simp
    then show ?thesis using inv now by (simp add: Promote)
  next
    case False
    let ?t = "\<lparr>lt_strategy = sid, lt_target = target, lt_evidence = ev, lt_at = t\<rparr>"
    obtain cur where cur: "current_stage sid st = Some cur" "target \<in> set (LIFECYCLE_TRANSITIONS cur)"
      "lifecycle_gate g cur target ev = None" "snd (promote g t sid' target ev st) = record_stage ?t st"
      using False by (auto simp: promote_def current_stage_def Let_def split: option.splits if_splits)
    have s': "s' = target" using now cur(4) by (simp add: Promote record_stage_simps)
    show ?thesis
    proof (cases "target = RETIRED_STAGE")
      case True
      then show ?thesis using went_through_start [of ?t] cur(4) by (simp add: Promote s' record_stage_simps path_to_def)
    next
      case False
      then have "path_to target = path_to cur @ [target]"
        using cur(2) by (cases cur) (auto simp: path_to_def LIFECYCLE_TRANSITIONS_def)
      moreover have "target = PAPER \<Longrightarrow> gate_backtest_to_paper ev = None" "target = LIVE \<Longrightarrow> \<exists>now. gate_paper_to_live now ev = None"
        using cur(2,3) by (cases cur; auto simp: LIFECYCLE_TRANSITIONS_def lifecycle_gate_def)+
      ultimately show ?thesis
        using went_throughI [OF inv [OF cur(1)], of ?t] cur(4) by (simp add: Promote s' record_stage_simps)
    qed
  qed
qed

text \<open>
  No strategy skips a stage: when \<open>set_stage\<close> only registers drafts, a strategy that is live after any sequence
  of operations has a history that ends with draft, back test, paper and live, where the back-test
  and the paper evidence were accepted by their gates (and the other stages likewise).
\<close>

theorem live_strategy_was_promoted:
  assumes "\<forall>op\<in>set ops. drafts_only sid op" "current_stage sid (foldl lifecycle_step new_lifecycle ops) = Some stage"
  shows "went_through (path_to stage) (lifecycle_history sid (foldl lifecycle_step new_lifecycle ops))"
  using assms
proof (induction ops arbitrary: stage rule: rev_induct)
  case Nil
  then show ?case by (simp add: new_lifecycle_def current_stage_def)
next
  case (snoc op ops)
  then show ?case using lifecycle_step_path [of sid "foldl lifecycle_step new_lifecycle ops" op stage] by simp
qed

definition good_evidence :: LifecycleEvidence where
  "good_evidence = no_evidence\<lparr>le_backtest_id := Some ''b'', le_sharpe := Some (Fin 1), le_max_drawdown_pct := Some (Fin 10),
     le_paper_days := Some 30, le_paper_sharpe := Some (Fin 1)\<rparr>"

definition road_to_live :: "lifecycle_op list" where
  "road_to_live = [SetStage 0 ''s'' DRAFT, Promote 1 1 ''s'' LIVE good_evidence, Promote 1 1 ''s'' BACKTEST no_evidence,
     Promote 2 2 ''s'' PAPER good_evidence, Promote 3 3 ''s'' LIVE good_evidence]"

text \<open>
  Evidence that is not a number passes the gates: a strategy in the back-test stage is promoted to paper with a NaN
  Sharpe ratio and a NaN drawdown, and from there to live with a NaN Sharpe ratio, as every
  comparison with NaN is false.
\<close>

theorem nan_evidence_is_promoted:
  assumes "current_stage sid st = Some BACKTEST" "le_backtest_id ev = Some b" "b \<noteq> []"
    and "le_sharpe ev = Some NaN" "le_max_drawdown_pct ev = Some NaN" "le_paper_sharpe ev = Some NaN"
    and "le_paper_days ev = Some days" "7 \<le> days" "days \<le> 730" "le_window_start ev = None"
  shows "current_stage sid (foldl lifecycle_step st [Promote g now sid PAPER ev, Promote g' now' sid LIVE ev]) = Some LIVE"
proof -
  have paper: "current_stage sid (snd (promote g now sid PAPER ev st)) = Some PAPER"
    using assms by (simp add: promote_def current_stage_def LIFECYCLE_TRANSITIONS_def lifecycle_gate_def
        gate_backtest_to_paper_def record_stage_def Let_def)
  then show ?thesis
    using assms by (simp add: promote_def [of g'] current_stage_def [of sid "snd _"] LIFECYCLE_TRANSITIONS_def
        lifecycle_gate_def gate_paper_to_live_def gate_window_def record_stage_simps lifecycle_limits Let_def)
qed

end
