(* ===== verification/Aggregator.thy ===== *)
theory Aggregator
  imports OrderManager
begin

text \<open>
  The signal aggregator, \<open>engine/core/signal_aggregator.py\<close>: the batches of several strategies become one decision
  per symbol.

  Dictionaries keep the order of first insertion, as Python's do, and the code's results depend on it
  (templates, ties of the sort).  Weights come as floats that may be infinite or NaN; the
  constructor refuses those.  Every method of \<open>_decide\<close> returns a signal, so \<open>decide\<close> does.
\<close>

section \<open>The aggregator\<close>

datatype AggregationMethod = UNANIMOUS | MAJORITY | WEIGHTED | PRIORITY | INDEPENDENT

fun method_value :: "AggregationMethod \<Rightarrow> string" where
  "method_value UNANIMOUS = ''unanimous''"
| "method_value MAJORITY = ''majority''"
| "method_value WEIGHTED = ''weighted''"
| "method_value PRIORITY = ''priority''"
| "method_value INDEPENDENT = ''independent''"

definition parse_method :: "string \<Rightarrow> AggregationMethod option" where
  "parse_method s = find (\<lambda>m. method_value m = s) [UNANIMOUS, MAJORITY, WEIGHTED, PRIORITY, INDEPENDENT]"

datatype aggregator_error = UnknownMethod string | WeightNotFinite string | NegativeWeight string rat | AllWeightsZero

record SignalAggregator =
  sa_method :: AggregationMethod
  sa_weights :: "(string, rat) dict"

text \<open>\<open>None\<close> is a weight that is not finite.\<close>

fun check_weights :: "(string, rat option) dict \<Rightarrow> aggregator_error + (string, rat) dict" where
  "check_weights [] = Inr []"
| "check_weights ((sid, w) # ws) =
     (case w of
        None \<Rightarrow> Inl (WeightNotFinite sid)
      | Some x \<Rightarrow>
          if x < 0 then Inl (NegativeWeight sid x)
          else (case check_weights ws of Inl e \<Rightarrow> Inl e | Inr ws' \<Rightarrow> Inr ((sid, x) # ws')))"

definition new_aggregator :: "string \<Rightarrow> (string, rat option) dict \<Rightarrow> aggregator_error + SignalAggregator" where
  "new_aggregator method weights =
     (case parse_method method of
        None \<Rightarrow> Inl (UnknownMethod method)
      | Some m \<Rightarrow> (case check_weights weights of
          Inl e \<Rightarrow> Inl e
        | Inr ws \<Rightarrow>
            if m = WEIGHTED \<and> ws \<noteq> [] \<and> fsum (dict_values ws) = 0 then Inl AllWeightsZero
            else Inr \<lparr>sa_method = m, sa_weights = ws\<rparr>))"

definition AGGREGATED_STRATEGY_ID :: string where
  "AGGREGATED_STRATEGY_ID = ''aggregated''"

definition aggregated :: "Signal \<Rightarrow> Side \<Rightarrow> Signal" where
  "aggregated template sd = template\<lparr>sg_side := sd, sg_strategy_id := AGGREGATED_STRATEGY_ID\<rparr>"

definition hold_like :: "Signal \<Rightarrow> Signal" where
  "hold_like template = aggregated template SIDE_HOLD"

type_synonym by_strategy = "(string, Signal) dict"

definition active_signals :: "by_strategy \<Rightarrow> Signal list" where
  "active_signals bs = trade_signals (dict_values bs)"

definition first_signal :: "by_strategy \<Rightarrow> Signal" where
  "first_signal bs = hd (dict_values bs)"

definition decide_unanimous :: "by_strategy \<Rightarrow> Signal" where
  "decide_unanimous bs =
     (let active = active_signals bs in
      if active = [] then hold_like (first_signal bs)
      else if card (sg_side ` set active) = 1 then aggregated (hd active) (sg_side (hd active))
      else hold_like (hd active))"

definition side_totals :: "(string \<Rightarrow> rat) \<Rightarrow> by_strategy \<Rightarrow> (Side, rat) dict" where
  "side_totals weight_for bs =
     foldl (\<lambda>totals (sid, sg). if sg_side sg = SIDE_HOLD then totals
              else AList.update (sg_side sg) (fadd (case map_of totals (sg_side sg) of None \<Rightarrow> 0 | Some x \<Rightarrow> x) (weight_for sid)) totals)
       [] bs"

definition decide_weighted_with :: "(string \<Rightarrow> rat) \<Rightarrow> by_strategy \<Rightarrow> Signal" where
  "decide_weighted_with weight_for bs =
     (let totals = side_totals weight_for bs;
          ranked = sort_key (\<lambda>kv. - snd kv) totals
      in if totals = [] then hold_like (first_signal bs)
         else if length ranked = 1 \<or> snd (ranked ! 1) < snd (ranked ! 0)
         then let winner = fst (ranked ! 0)
              in aggregated (hd (filter (\<lambda>s. sg_side s = winner) (dict_values bs))) winner
         else hold_like (first_signal bs))"

definition decide_majority :: "by_strategy \<Rightarrow> Signal" where
  "decide_majority bs = decide_weighted_with (\<lambda>sid. 1) bs"

definition weight_of :: "(string, rat) dict \<Rightarrow> rat \<Rightarrow> string \<Rightarrow> rat" where
  "weight_of ws d sid = (case map_of ws sid of None \<Rightarrow> d | Some w \<Rightarrow> w)"

definition decide_weighted :: "(string, rat) dict \<Rightarrow> by_strategy \<Rightarrow> Signal" where
  "decide_weighted ws bs = decide_weighted_with (weight_of ws 1) bs"

definition decide_priority :: "(string, rat) dict \<Rightarrow> by_strategy \<Rightarrow> Signal" where
  "decide_priority ws bs =
     (let active = map (\<lambda>(sid, sg). (weight_of ws 0 sid, sg)) (filter (\<lambda>(sid, sg). sg_side sg \<noteq> SIDE_HOLD) bs) in
      if active = [] then hold_like (first_signal bs)
      else let top_prio = Max (set (map fst active));
               top = filter (\<lambda>t. fst t = top_prio) active
           in if 1 < card (sg_side ` snd ` set top) then hold_like (snd (hd top))
              else aggregated (snd (hd top)) (sg_side (snd (hd top))))"

definition decide :: "SignalAggregator \<Rightarrow> by_strategy \<Rightarrow> Signal" where
  "decide a bs = (case sa_method a of
     UNANIMOUS \<Rightarrow> decide_unanimous bs
   | MAJORITY \<Rightarrow> decide_majority bs
   | WEIGHTED \<Rightarrow> decide_weighted (sa_weights a) bs
   | _ \<Rightarrow> decide_priority (sa_weights a) bs)"

record SignalBatch =
  sb_strategy_id :: string
  sb_signals :: "Signal list"

definition put_signal :: "string \<Rightarrow> (string, by_strategy) dict \<Rightarrow> Signal \<Rightarrow> (string, by_strategy) dict" where
  "put_signal sid d sg =
     AList.update (sg_symbol sg) (AList.update sid sg (case map_of d (sg_symbol sg) of None \<Rightarrow> [] | Some bs \<Rightarrow> bs)) d"

definition per_symbol :: "SignalBatch list \<Rightarrow> (string, by_strategy) dict" where
  "per_symbol batches = foldl (\<lambda>d b. foldl (put_signal (sb_strategy_id b)) d (sb_signals b)) [] batches"

definition aggregate :: "SignalAggregator \<Rightarrow> SignalBatch list \<Rightarrow> Signal list" where
  "aggregate a batches =
     (if sa_method a = INDEPENDENT then concat (map sb_signals batches)
      else map (\<lambda>(symb, bs). decide a bs) (per_symbol batches))"

section \<open>What a method decides\<close>

text \<open>The strategies that voted for a side, and the sum of their weights in floats.\<close>

definition voters :: "Side \<Rightarrow> by_strategy \<Rightarrow> string list" where
  "voters sd bs = map fst (filter (\<lambda>(sid, sg). sg_side sg = sd) bs)"

definition vote_total :: "(string \<Rightarrow> rat) \<Rightarrow> Side \<Rightarrow> by_strategy \<Rightarrow> rat" where
  "vote_total w sd bs = fsum (map w (voters sd bs))"

definition heavier_side :: "(string \<Rightarrow> rat) \<Rightarrow> by_strategy \<Rightarrow> Side" where
  "heavier_side w bs =
     (if voters SIDE_BUY bs = [] \<and> voters SIDE_SELL bs = [] then SIDE_HOLD
      else if voters SIDE_SELL bs = [] then SIDE_BUY
      else if voters SIDE_BUY bs = [] then SIDE_SELL
      else if vote_total w SIDE_SELL bs < vote_total w SIDE_BUY bs then SIDE_BUY
      else if vote_total w SIDE_BUY bs < vote_total w SIDE_SELL bs then SIDE_SELL
      else SIDE_HOLD)"

lemma side_totals_spec:
  "dict_ok (side_totals w bs) \<and> map_of (side_totals w bs) SIDE_HOLD = None
   \<and> (sd \<noteq> SIDE_HOLD \<longrightarrow> map_of (side_totals w bs) sd = (if voters sd bs = [] then None else Some (vote_total w sd bs)))"
proof (induction bs rule: rev_induct)
  case Nil
  then show ?case by (simp add: side_totals_def voters_def)
next
  case (snoc x bs)
  obtain sid sg where x: "x = (sid, sg)" by (cases x)
  show ?case
  proof (cases "sg_side sg = SIDE_HOLD")
    case True
    then show ?thesis using snoc by (auto simp: side_totals_def voters_def vote_total_def x)
  next
    case False
    then have "side_totals w (bs @ [x]) = AList.update (sg_side sg)
       (fadd (case map_of (side_totals w bs) (sg_side sg) of None \<Rightarrow> 0 | Some x \<Rightarrow> x) (w sid)) (side_totals w bs)"
      by (simp add: side_totals_def x)
    then show ?thesis using snoc False
      by (cases "sg_side sg"; cases sd)
        (auto simp: voters_def vote_total_def x fsum_def intro: dict_ok_update split: if_splits)
  qed
qed

lemma two_sides:
  assumes "dict_ok t" "map_of t SIDE_HOLD = None"
  shows "t = [] \<or> (\<exists>sd x. sd \<noteq> SIDE_HOLD \<and> t = [(sd, x)])
    \<or> (\<exists>x y. t = [(SIDE_BUY, x), (SIDE_SELL, y)] \<or> t = [(SIDE_SELL, y), (SIDE_BUY, x)])"
proof -
  have no_hold: "SIDE_HOLD \<notin> fst ` set t" using assms(2) by (simp add: map_of_eq_None_iff)
  consider "t = []" | a where "t = [a]" | a b c where "t = a # b # c" by (metis list.exhaust)
  then show ?thesis
  proof cases
    case (3 a b c)
    obtain sa xa sb xb where ab: "a = (sa, xa)" "b = (sb, xb)" by fastforce
    have "c = []"
    proof (cases c)
      case (Cons d ds)
      then show ?thesis using assms(1) no_hold ab 3 by (cases sa; cases sb; cases "fst d") auto
    qed
    then show ?thesis using assms(1) no_hold ab 3 by (cases sa; cases sb) auto
  qed (use no_hold in auto)
qed

lemma aggregated_side [simp]: "sg_side (aggregated t sd) = sd" "sg_side (hold_like t) = SIDE_HOLD"
  by (simp_all add: aggregated_def hold_like_def)

lemma decide_weighted_side: "sg_side (decide_weighted_with w bs) = heavier_side w bs"
proof -
  let ?t = "side_totals w bs"
  note T = side_totals_spec [of w bs]
  have B: "map_of ?t SIDE_BUY = (if voters SIDE_BUY bs = [] then None else Some (vote_total w SIDE_BUY bs))"
    and S: "map_of ?t SIDE_SELL = (if voters SIDE_SELL bs = [] then None else Some (vote_total w SIDE_SELL bs))"
    using T [of SIDE_BUY] T [of SIDE_SELL] by simp_all
  from two_sides [OF T [THEN conjunct1] T [THEN conjunct2, THEN conjunct1]] consider "?t = []" | sd x where "sd \<noteq> SIDE_HOLD" "?t = [(sd, x)]"
    | x y where "?t = [(SIDE_BUY, x), (SIDE_SELL, y)]" | x y where "?t = [(SIDE_SELL, y), (SIDE_BUY, x)]" by blast
  then show ?thesis
  proof cases
    case (2 sd x)
    then show ?thesis using B S
      by (cases sd) (auto simp: decide_weighted_with_def heavier_side_def Let_def split: if_splits)
  qed (use B S in \<open>auto simp: decide_weighted_with_def heavier_side_def Let_def split: if_splits\<close>)
qed

lemma fsum_ones:
  assumes "int (length xs) \<le> 2 ^ 53"
  shows "fsum (map (\<lambda>x. 1) xs) = of_nat (length xs)"
  using assms
proof (induction xs rule: rev_induct)
  case (snoc x xs)
  have "fsum (map (\<lambda>x. 1) (xs @ [x])) = fadd (fsum (map (\<lambda>x. 1) xs)) 1" by (simp add: fsum_def)
  also have "\<dots> = f64 (of_int (int (length xs) + 1))" using snoc by (simp add: fadd_def)
  also have "\<dots> = of_int (int (length xs) + 1)" by (rule f64_int) (use snoc.prems in simp)
  finally show ?case by simp
qed (simp add: fsum_def)

lemma length_voters: "length (voters sd bs) \<le> length bs"
  by (simp add: voters_def)

definition majority_side :: "by_strategy \<Rightarrow> Side" where
  "majority_side bs =
     (if length (voters SIDE_SELL bs) < length (voters SIDE_BUY bs) then SIDE_BUY
      else if length (voters SIDE_BUY bs) < length (voters SIDE_SELL bs) then SIDE_SELL else SIDE_HOLD)"

lemma decide_majority_side:
  assumes "int (length bs) \<le> 2 ^ 53"
  shows "sg_side (decide_majority bs) = majority_side bs"
proof -
  have "int (length (voters sd bs)) \<le> 2 ^ 53" for sd using assms length_voters [of sd bs] by linarith
  then have "vote_total (\<lambda>sid. 1) sd bs = of_nat (length (voters sd bs))" for sd
    unfolding vote_total_def by (rule fsum_ones)
  then show ?thesis by (simp add: decide_majority_def decide_weighted_side heavier_side_def majority_side_def)
qed

definition unanimous_side :: "by_strategy \<Rightarrow> Side" where
  "unanimous_side bs =
     (if voters SIDE_BUY bs \<noteq> [] \<and> voters SIDE_SELL bs = [] then SIDE_BUY
      else if voters SIDE_SELL bs \<noteq> [] \<and> voters SIDE_BUY bs = [] then SIDE_SELL else SIDE_HOLD)"

lemma side_in_active: "sd \<in> sg_side ` set (active_signals bs) \<longleftrightarrow> sd \<noteq> SIDE_HOLD \<and> voters sd bs \<noteq> []"
  by (force simp: active_signals_def trade_signals_def dict_values_def voters_def filter_empty_conv)

lemma active_sides:
  "sg_side ` set (active_signals bs) =
     (if voters SIDE_BUY bs = [] then {} else {SIDE_BUY}) \<union> (if voters SIDE_SELL bs = [] then {} else {SIDE_SELL})"
proof (rule set_eqI)
  fix sd
  show "sd \<in> sg_side ` set (active_signals bs) \<longleftrightarrow> sd \<in> (if voters SIDE_BUY bs = [] then {} else {SIDE_BUY})
       \<union> (if voters SIDE_SELL bs = [] then {} else {SIDE_SELL})"
    unfolding side_in_active by (cases sd) auto
qed

lemma decide_unanimous_side: "sg_side (decide_unanimous bs) = unanimous_side bs"
proof (cases "active_signals bs")
  case Nil
  then show ?thesis using active_sides [of bs] by (auto simp: decide_unanimous_def unanimous_side_def split: if_splits)
next
  case (Cons a as)
  then have "sg_side a \<in> sg_side ` set (active_signals bs)" by simp
  then show ?thesis
    unfolding decide_unanimous_def unanimous_side_def Let_def active_sides by (auto simp: Cons split: if_splits)
qed

text \<open>A side has the highest priority when one of its voters has a weight that no voter exceeds.\<close>

definition top_side :: "(string, rat) dict \<Rightarrow> by_strategy \<Rightarrow> Side \<Rightarrow> bool" where
  "top_side ws bs sd \<longleftrightarrow> (\<exists>sid\<in>set (voters sd bs).
     \<forall>sid'\<in>set (voters SIDE_BUY bs @ voters SIDE_SELL bs). weight_of ws 0 sid' \<le> weight_of ws 0 sid)"

definition priority_side :: "(string, rat) dict \<Rightarrow> by_strategy \<Rightarrow> Side" where
  "priority_side ws bs =
     (if top_side ws bs SIDE_BUY \<and> \<not> top_side ws bs SIDE_SELL then SIDE_BUY
      else if top_side ws bs SIDE_SELL \<and> \<not> top_side ws bs SIDE_BUY then SIDE_SELL else SIDE_HOLD)"

lemma filter_top:
  assumes "A \<noteq> []"
  shows "x \<in> set (filter (\<lambda>t. fst t = Max (set (map fst A))) A) \<longleftrightarrow> x \<in> set A \<and> (\<forall>y\<in>set A. fst y \<le> fst x)"
    and "filter (\<lambda>t. fst t = Max (set (map fst A))) A \<noteq> []"
proof -
  have fin: "finite (set (map fst A))" "set (map fst A) \<noteq> {}" using assms by simp_all
  have "x \<in> set A \<Longrightarrow> fst x = Max (set (map fst A)) \<longleftrightarrow> (\<forall>y\<in>set A. fst y \<le> fst x)"
    using eq_Max_iff [OF fin, of "fst x"] by auto
  then show "x \<in> set (filter (\<lambda>t. fst t = Max (set (map fst A))) A) \<longleftrightarrow> x \<in> set A \<and> (\<forall>y\<in>set A. fst y \<le> fst x)"
    by auto
  have "Max (set (map fst A)) \<in> fst ` set A" using Max_in [OF fin] by simp
  then show "filter (\<lambda>t. fst t = Max (set (map fst A))) A \<noteq> []" by (fastforce simp: filter_empty_conv)
qed

lemma set_voters: "set (voters sd bs) = {sid. \<exists>sg. (sid, sg) \<in> set bs \<and> sg_side sg = sd}"
  by (force simp: voters_def)

lemma trading_side: "sd \<noteq> SIDE_HOLD \<longleftrightarrow> sd = SIDE_BUY \<or> sd = SIDE_SELL"
  by (cases sd) simp_all

lemma card_sides:
  "\<not> S SIDE_HOLD \<Longrightarrow> 1 < card {sd. S sd} \<longleftrightarrow> S SIDE_BUY \<and> S SIDE_SELL"
proof -
  assume "\<not> S SIDE_HOLD"
  then have "{sd. S sd} = (if S SIDE_BUY then {SIDE_BUY} else {}) \<union> (if S SIDE_SELL then {SIDE_SELL} else {})"
    by (auto simp: split: if_splits) (metis Side.exhaust)+
  then show ?thesis by simp
qed

lemma decide_priority_side: "sg_side (decide_priority ws bs) = priority_side ws bs"
proof -
  let ?active = "map (\<lambda>(sid, sg). (weight_of ws 0 sid, sg)) (filter (\<lambda>(sid, sg). sg_side sg \<noteq> SIDE_HOLD) bs)"
  let ?top = "filter (\<lambda>t. fst t = Max (set (map fst ?active))) ?active"
  have all: "(\<forall>y\<in>set ?active. fst y \<le> w) \<longleftrightarrow>
      (\<forall>sid'\<in>set (voters SIDE_BUY bs @ voters SIDE_SELL bs). weight_of ws 0 sid' \<le> w)" for w
    by (simp add: set_voters trading_side ball_Un) blast
  show ?thesis
  proof (cases "?active = []")
    case True
    then have "voters sd bs = []" if "sd \<noteq> SIDE_HOLD" for sd using that by (auto simp: voters_def filter_empty_conv)
    then show ?thesis using True by (simp add: decide_priority_def priority_side_def top_side_def)
  next
    case False
    have tops: "sd \<in> sg_side ` snd ` set ?top \<longleftrightarrow> sd \<noteq> SIDE_HOLD \<and> top_side ws bs sd" for sd
      unfolding image_iff Bex_def filter_top(1) [OF False] all top_side_def set_voters by force
    have "sg_side ` snd ` set ?top = {sd. sd \<noteq> SIDE_HOLD \<and> top_side ws bs sd}" using tops by blast
    then have card: "1 < card (sg_side ` snd ` set ?top) \<longleftrightarrow> top_side ws bs SIDE_BUY \<and> top_side ws bs SIDE_SELL"
      using card_sides [of "\<lambda>sd. sd \<noteq> SIDE_HOLD \<and> top_side ws bs sd"] by simp
    have "sg_side (snd (hd ?top)) \<in> sg_side ` snd ` set ?top" using filter_top(2) [OF False] by (intro imageI hd_in_set)
    then have h: "sg_side (snd (hd ?top)) \<noteq> SIDE_HOLD" "top_side ws bs (sg_side (snd (hd ?top)))" using tops by blast+
    have "sg_side (decide_priority ws bs) =
        (if 1 < card (sg_side ` snd ` set ?top) then SIDE_HOLD else sg_side (snd (hd ?top)))"
      using False by (simp add: decide_priority_def Let_def)
    then show ?thesis unfolding card using h by (cases "sg_side (snd (hd ?top))") (auto simp: priority_side_def)
  qed
qed

section \<open>One decision per symbol\<close>

text \<open>The signals in the order they are read, with the strategy of their batch; the last one of a strategy counts.\<close>

definition cast :: "SignalBatch list \<Rightarrow> (string \<times> Signal) list" where
  "cast batches = concat (map (\<lambda>b. map (Pair (sb_strategy_id b)) (sb_signals b)) batches)"

definition latest :: "(string \<times> Signal) list \<Rightarrow> string \<Rightarrow> string \<Rightarrow> Signal option" where
  "latest votes symb sid = (let own = filter (\<lambda>(i, sg). i = sid \<and> sg_symbol sg = symb) votes in if own = [] then None else Some (snd (last own)))"

definition collected :: "(string \<times> Signal) list \<Rightarrow> (string, by_strategy) dict" where
  "collected votes = foldl (\<lambda>d (sid, sg). put_signal sid d sg) [] votes"

lemma per_symbol_collected: "per_symbol batches = collected (cast batches)"
proof -
  have "foldl (\<lambda>d b. foldl (put_signal (sb_strategy_id b)) d (sb_signals b)) d batches
      = foldl (\<lambda>d (sid, sg). put_signal sid d sg) d (cast batches)" for d
  proof (induction batches arbitrary: d)
    case (Cons b batches)
    have "foldl (put_signal i) d sgs = foldl (\<lambda>d (sid, sg). put_signal sid d sg) d (map (Pair i) sgs)" for i sgs d
      by (induction sgs arbitrary: d) simp_all
    then show ?case using Cons by (simp add: cast_def)
  qed (simp add: cast_def)
  then show ?thesis by (simp add: per_symbol_def collected_def)
qed

lemma collected_snoc: "collected (votes @ [(sid, sg)]) = put_signal sid (collected votes) sg"
  by (simp add: collected_def)

lemma latest_snoc:
  "latest (votes @ [(sid, sg)]) symb i = (if i = sid \<and> symb = sg_symbol sg then Some sg else latest votes symb i)"
  by (auto simp: latest_def Let_def)

lemma values_update: "x \<in> snd ` set (AList.update k v d) \<Longrightarrow> x = v \<or> x \<in> snd ` set d"
  by (induction d) (auto split: if_splits)

lemma dom_update_keys: "fst ` set (AList.update k v d) = insert k (fst ` set d)"
  by (induction d) auto

definition votes_ok :: "(string \<times> Signal) list \<Rightarrow> string \<Rightarrow> by_strategy \<Rightarrow> bool" where
  "votes_ok votes symb bs \<longleftrightarrow> dict_ok bs \<and> length bs \<le> length votes \<and> (\<forall>sg\<in>snd ` set bs. sg_symbol sg = symb)
     \<and> (\<forall>sid. map_of bs sid = latest votes symb sid)"

lemma votes_ok_update:
  "votes_ok votes (sg_symbol sg) bs \<Longrightarrow> votes_ok (votes @ [(sid, sg)]) (sg_symbol sg) (AList.update sid sg bs)"
  unfolding votes_ok_def
  by (intro conjI ballI) (auto simp: latest_snoc length_update intro: dict_ok_update dest!: values_update)

lemma votes_ok_other:
  "votes_ok votes symb bs \<Longrightarrow> symb \<noteq> sg_symbol sg \<Longrightarrow> votes_ok (votes @ [(sid, sg)]) symb bs"
  unfolding votes_ok_def by (simp add: latest_snoc)

lemma votes_ok_Nil: "symb \<notin> sg_symbol ` snd ` set votes \<Longrightarrow> votes_ok votes symb []"
  by (force simp: votes_ok_def latest_def Let_def filter_empty_conv)

lemma collected_spec:
  "dict_ok (collected votes) \<and> set (map fst (collected votes)) = sg_symbol ` snd ` set votes
   \<and> (\<forall>symb bs. map_of (collected votes) symb = Some bs \<longrightarrow> bs \<noteq> [] \<and> votes_ok votes symb bs)"
proof (induction votes rule: rev_induct)
  case (snoc v votes)
  obtain sid sg where v: "v = (sid, sg)" by (cases v)
  let ?d = "collected votes"
  let ?old = "case map_of ?d (sg_symbol sg) of None \<Rightarrow> [] | Some bs \<Rightarrow> bs"
  have d: "collected (votes @ [v]) = AList.update (sg_symbol sg) (AList.update sid sg ?old) ?d"
    by (simp add: v collected_snoc put_signal_def)
  have old: "votes_ok votes (sg_symbol sg) ?old"
  proof (cases "map_of ?d (sg_symbol sg)")
    case None
    then have "sg_symbol sg \<notin> sg_symbol ` snd ` set votes" using snoc by (simp add: map_of_eq_None_iff)
    then show ?thesis using None by (simp add: votes_ok_Nil)
  qed (use snoc in simp)
  have "AList.update sid sg bs \<noteq> []" for bs by (cases bs) auto
  then have "bs \<noteq> [] \<and> votes_ok (votes @ [v]) symb bs" if "map_of (collected (votes @ [v])) symb = Some bs" for symb bs
    using that votes_ok_update [OF old] votes_ok_other snoc unfolding d unfolding v by (auto split: if_splits)
  moreover have "set (map fst (collected (votes @ [v]))) = sg_symbol ` snd ` set (votes @ [v])"
    using snoc unfolding d unfolding v by (simp add: dom_update_keys)
  ultimately show ?case using snoc unfolding d by (auto intro: dict_ok_update)
qed (simp add: collected_def)

text \<open>What the method of an aggregator says of the votes on one symbol.\<close>

definition method_side :: "SignalAggregator \<Rightarrow> by_strategy \<Rightarrow> Side" where
  "method_side a bs = (case sa_method a of
     UNANIMOUS \<Rightarrow> unanimous_side bs
   | MAJORITY \<Rightarrow> majority_side bs
   | WEIGHTED \<Rightarrow> heavier_side (weight_of (sa_weights a) 1) bs
   | _ \<Rightarrow> priority_side (sa_weights a) bs)"

lemma decide_side: "int (length bs) \<le> 2 ^ 53 \<Longrightarrow> sg_side (decide a bs) = method_side a bs"
  by (cases "sa_method a") (simp_all add: decide_def method_side_def decide_unanimous_side decide_majority_side
      decide_weighted_def decide_weighted_side decide_priority_side)

lemma aggregated_from [simp]:
  "sg_symbol (aggregated t sd) = sg_symbol t" "sg_strategy_id (aggregated t sd) = AGGREGATED_STRATEGY_ID"
  "sg_symbol (hold_like t) = sg_symbol t" "sg_strategy_id (hold_like t) = AGGREGATED_STRATEGY_ID"
  by (simp_all add: aggregated_def hold_like_def)

text \<open>The template of a decision is one of the votes, so it has their symbol.\<close>

definition decided_from :: "by_strategy \<Rightarrow> Signal \<Rightarrow> bool" where
  "decided_from bs sg \<longleftrightarrow> (\<exists>t\<in>snd ` set bs. \<exists>sd. sg = aggregated t sd)"

lemma decided_fromI: "t \<in> snd ` set bs \<Longrightarrow> decided_from bs (aggregated t sd)" "t \<in> snd ` set bs \<Longrightarrow> decided_from bs (hold_like t)"
  by (auto simp: decided_from_def hold_like_def)

lemma first_signal_in: "bs \<noteq> [] \<Longrightarrow> first_signal bs \<in> snd ` set bs"
  by (cases bs) (simp_all add: first_signal_def dict_values_def)

lemma hd_filter_in: "filter P xs \<noteq> [] \<Longrightarrow> hd (filter P xs) \<in> set xs"
  by (metis hd_in_set filter_is_subset subsetD)

lemma weighted_from:
  assumes "bs \<noteq> []"
  shows "decided_from bs (decide_weighted_with w bs)"
proof (cases "side_totals w bs = []")
  case False
  let ?r = "sort_key (\<lambda>kv. - snd kv) (side_totals w bs)"
  have "?r ! 0 \<in> set (side_totals w bs)" using False nth_mem [of 0 ?r] by (simp add: length_greater_0_conv)
  then have "map_of (side_totals w bs) (fst (?r ! 0)) \<noteq> None"
    by (metis imageI map_of_eq_None_iff)
  then have "voters (fst (?r ! 0)) bs \<noteq> []"
    using side_totals_spec [of w bs "fst (?r ! 0)"] by (cases "fst (?r ! 0)") auto
  then have "filter (\<lambda>s. sg_side s = fst (?r ! 0)) (dict_values bs) \<noteq> []"
    by (force simp: voters_def dict_values_def filter_empty_conv)
  from hd_filter_in [OF this] show ?thesis
    using first_signal_in [OF assms] decided_fromI by (simp add: decide_weighted_with_def Let_def dict_values_def)
qed (use first_signal_in [OF assms] decided_fromI in \<open>simp add: decide_weighted_with_def\<close>)

lemma decide_from:
  assumes "bs \<noteq> []"
  shows "decided_from bs (decide a bs)"
proof -
  note F = first_signal_in [OF assms] and I = decided_fromI
  have "decided_from bs (decide_unanimous bs)"
    using F I hd_filter_in [of "\<lambda>s. sg_side s \<noteq> SIDE_HOLD" "dict_values bs"]
    by (auto simp: decide_unanimous_def Let_def active_signals_def trade_signals_def dict_values_def)
  moreover have "decided_from bs (decide_priority ws bs)" for ws
  proof -
    let ?active = "map (\<lambda>(sid, sg). (weight_of ws 0 sid, sg)) (filter (\<lambda>(sid, sg). sg_side sg \<noteq> SIDE_HOLD) bs)"
    let ?top = "filter (\<lambda>t. fst t = Max (set (map fst ?active))) ?active"
    show ?thesis
    proof (cases "?active = []")
      case False
      have "hd ?top \<in> set ?active" using filter_top(2) [OF False] by (rule hd_filter_in)
      then have "snd (hd ?top) \<in> snd ` set bs" by force
      then show ?thesis using False I by (simp add: decide_priority_def Let_def)
    qed (use F I in \<open>simp add: decide_priority_def\<close>)
  qed
  ultimately show ?thesis using weighted_from [OF assms]
    by (cases "sa_method a") (simp_all add: decide_def decide_majority_def decide_weighted_def)
qed

text \<open>
  The aggregator makes one decision per symbol: with any method but \<open>INDEPENDENT\<close> the output has exactly one signal
  for each symbol in the batches, from the strategy \<open>aggregated\<close>, and its side is what the method says of the
  latest signal of each strategy on the symbol: all voters agree, more voters, a larger sum of
  weights, or the voters of the highest priority agree; otherwise it holds.
\<close>

theorem one_decision_per_symbol:
  assumes "sa_method a \<noteq> INDEPENDENT" "int (length (cast batches)) \<le> 2 ^ 53"
  shows "distinct (map sg_symbol (aggregate a batches))
    \<and> set (map sg_symbol (aggregate a batches)) = sg_symbol ` snd ` set (cast batches)
    \<and> (\<forall>sg\<in>set (aggregate a batches). sg_strategy_id sg = AGGREGATED_STRATEGY_ID
         \<and> (\<exists>bs. dict_ok bs \<and> (\<forall>sid. map_of bs sid = latest (cast batches) (sg_symbol sg) sid) \<and> sg_side sg = method_side a bs))"
proof -
  let ?v = "cast batches" and ?d = "collected (cast batches)"
  note C = collected_spec [of ?v]
  have out: "aggregate a batches = map (\<lambda>(symb, bs). decide a bs) ?d"
    using assms(1) by (simp add: aggregate_def per_symbol_collected)
  have each: "sg_symbol (decide a bs) = symb \<and> sg_strategy_id (decide a bs) = AGGREGATED_STRATEGY_ID
      \<and> votes_ok ?v symb bs \<and> sg_side (decide a bs) = method_side a bs" if "(symb, bs) \<in> set ?d" for symb bs
  proof -
    have "map_of ?d symb = Some bs" using C that by simp
    then have ok: "bs \<noteq> []" "votes_ok ?v symb bs" using C by simp_all
    moreover have "int (length bs) \<le> 2 ^ 53" using ok(2) assms(2) by (simp add: votes_ok_def)
    ultimately show ?thesis using decide_from [of bs a] by (auto simp: decided_from_def votes_ok_def decide_side)
  qed
  then have "map sg_symbol (aggregate a batches) = map fst ?d" unfolding out by auto
  moreover have "sg_strategy_id sg = AGGREGATED_STRATEGY_ID \<and> (\<exists>bs. dict_ok bs
      \<and> (\<forall>sid. map_of bs sid = latest ?v (sg_symbol sg) sid) \<and> sg_side sg = method_side a bs)"
    if "sg \<in> set (aggregate a batches)" for sg
    using that each unfolding out votes_ok_def by force
  ultimately show ?thesis using C by simp
qed

definition vote :: "Side \<Rightarrow> Signal" where
  "vote sd = sample_signal\<lparr>sg_side := sd\<rparr>"

text \<open>A vote of weight zero decides when nobody votes against it.\<close>

lemma zero_weight_decides:
  assumes "map_of ws sid = Some 0" "sg_side sg = SIDE_BUY"
  shows "sg_side (decide_weighted ws [(sid, sg)]) = SIDE_BUY"
  using assms by (simp add: decide_weighted_def decide_weighted_side heavier_side_def voters_def)

end
