(* ===== verification/RateLimit.thy ===== *)
theory RateLimit
  imports Prelude Rounding
begin

text \<open>
  The token-bucket rate limiter, \<open>engine/api/rate_limit.py\<close>: the in-memory and the Valkey backend, the
  configuration, the principal of a request and the middleware.

  A backend update runs under a lock (in memory) or as one script (Valkey), so it is one step.  The
  clock that the caller reads and the clock of the Valkey server are arguments.  Headers are pairs of
  strings of Latin-1 characters; the JWT decoder is an argument, \<open>None\<close> when it fails.
\<close>

section \<open>The in-memory backend\<close>

definition MIN_RETRY_AFTER_SEC :: rat where "MIN_RETRY_AFTER_SEC = f64 (1 / 1000)"
definition MAX_RETRY_AFTER_SEC :: rat where "MAX_RETRY_AFTER_SEC = 86400"
definition DEFAULT_MAX_KEYS :: nat where "DEFAULT_MAX_KEYS = 100000"

definition clamp_retry :: "rat \<Rightarrow> rat" where
  "clamp_retry r = max MIN_RETRY_AFTER_SEC (min r MAX_RETRY_AFTER_SEC)"

text \<open>\<open>int(x)\<close> of a float.\<close>

definition py_int :: "rat \<Rightarrow> int" where
  "py_int x = (if 0 \<le> x then \<lfloor>x\<rfloor> else \<lceil>x\<rceil>)"

record BucketBackend =
  bk_state :: "(string, rat \<times> rat) dict"
  bk_max_keys :: nat

definition new_bucket_backend :: "nat \<Rightarrow> BucketBackend" where
  "new_bucket_backend n = \<lparr>bk_state = [], bk_max_keys = n\<rparr>"

definition refilled :: "int \<Rightarrow> rat \<Rightarrow> rat \<Rightarrow> (rat \<times> rat) option \<Rightarrow> rat" where
  "refilled capacity refill now existing =
     (case (case existing of None \<Rightarrow> (fint capacity, now) | Some b \<Rightarrow> b) of
        (tokens, before) \<Rightarrow> min (fint capacity) (fadd tokens (fmul (max 0 (fsub now before)) refill)))"

text \<open>An entry is moved to the end of the ordered dictionary; the oldest are dropped above the cap.\<close>

definition put_bucket :: "string \<Rightarrow> rat \<times> rat \<Rightarrow> BucketBackend \<Rightarrow> BucketBackend" where
  "put_bucket key b st =
     (let d = AList.delete key (bk_state st) @ [(key, b)]
      in st\<lparr>bk_state := drop (length d - bk_max_keys st) d\<rparr>)"

definition retry_after :: "rat \<Rightarrow> rat \<Rightarrow> rat" where
  "retry_after refill tokens =
     (if 0 < refill then min (max MIN_RETRY_AFTER_SEC (fdiv (fsub 1 tokens) refill)) MAX_RETRY_AFTER_SEC
      else MAX_RETRY_AFTER_SEC)"

type_synonym bucket_answer = "bool \<times> int \<times> rat"

definition mem_update :: "string \<Rightarrow> int \<Rightarrow> rat \<Rightarrow> rat \<Rightarrow> BucketBackend \<Rightarrow> bucket_answer \<times> BucketBackend" where
  "mem_update key capacity refill now st =
     (let tokens = refilled capacity refill now (map_of (bk_state st) key) in
      if 1 \<le> tokens
      then let left = fsub tokens 1 in ((True, py_int left, 0), put_bucket key (left, now) st)
      else ((False, 0, retry_after refill tokens), put_bucket key (tokens, now) st))"

section \<open>The Valkey backend\<close>

text \<open>
  The script over the keys of the server: a hash with the fields \<open>tokens\<close> and \<open>ts\<close>, and a deadline when
  \<open>EXPIRE\<close> was called.  In the reply Lua numbers become integers: the fraction is cut off.
\<close>

type_synonym valkey_store = "(string, (rat \<times> rat) \<times> rat option) dict"

definition live_hash :: "rat \<Rightarrow> string \<Rightarrow> valkey_store \<Rightarrow> (rat \<times> rat) option" where
  "live_hash server key st = (case map_of st key of
     None \<Rightarrow> None
   | Some (h, deadline) \<Rightarrow> (case deadline of None \<Rightarrow> Some h | Some d \<Rightarrow> if d \<le> server then None else Some h))"

definition token_bucket_script ::
  "string \<Rightarrow> int \<Rightarrow> rat \<Rightarrow> rat \<Rightarrow> int \<Rightarrow> rat \<Rightarrow> valkey_store \<Rightarrow> (int \<times> int \<times> int) \<times> valkey_store" where
  "token_bucket_script key capacity refill now ttl server st =
     (let (tokens, ts) = (case live_hash server key st of None \<Rightarrow> (fint capacity, now) | Some h \<Rightarrow> h);
          elapsed = (if ts < now then fsub now ts else 0);
          tokens1 = min (fint capacity) (fadd tokens (fmul elapsed refill));
          ok = (1 \<le> tokens1);
          tokens2 = (if ok then fsub tokens1 1 else tokens1);
          retry = (if ok then 0 else if 0 < refill then fdiv (fsub 1 tokens1) refill else 86400);
          deadline = (if 0 < ttl then Some (server + of_int ttl)
                      else if live_hash server key st = None then None
                      else case map_of st key of None \<Rightarrow> None | Some (h, d) \<Rightarrow> d)
      in (((if ok then 1 else 0), \<lfloor>tokens2\<rfloor>, py_int retry),
          AList.update key ((tokens2, now), deadline) st))"

text \<open>
  The client: does loading the script succeed, does \<open>EVALSHA\<close>, does \<open>EVAL\<close>.  A failing call changes nothing
  at the server and raises; the second failure reaches the caller.
\<close>

record ValkeyBackend =
  vk_store :: valkey_store
  vk_ttl :: int
  vk_script_loaded :: bool

definition new_valkey_backend :: "int \<Rightarrow> valkey_store \<Rightarrow> ValkeyBackend" where
  "new_valkey_backend key_ttl_sec store = \<lparr>vk_store = store, vk_ttl = max 0 key_ttl_sec, vk_script_loaded = False\<rparr>"

definition ensure_script :: "bool \<Rightarrow> ValkeyBackend \<Rightarrow> bool \<times> ValkeyBackend" where
  "ensure_script load_ok v =
     (if vk_script_loaded v then (True, v)
      else if load_ok then (True, v\<lparr>vk_script_loaded := True\<rparr>) else (False, v))"

definition valkey_update ::
  "bool \<Rightarrow> bool \<Rightarrow> bool \<Rightarrow> rat \<Rightarrow> string \<Rightarrow> int \<Rightarrow> rat \<Rightarrow> rat \<Rightarrow> ValkeyBackend
     \<Rightarrow> bucket_answer option \<times> ValkeyBackend" where
  "valkey_update load_ok first_ok second_ok server key capacity refill now v0 =
     (let v1 = snd (ensure_script load_ok v0);
          (raw, st) = token_bucket_script key capacity refill now (vk_ttl v1) server (vk_store v1);
          (ok, remaining, retry) = raw;
          answer = (ok \<noteq> 0, remaining, clamp_retry (of_int retry))
      in if first_ok then (Some answer, v1\<lparr>vk_store := st\<rparr>)
         else if second_ok then (Some answer, v1\<lparr>vk_store := st, vk_script_loaded := False\<rparr>)
         else (None, v1\<lparr>vk_script_loaded := False\<rparr>))"

section \<open>The configuration\<close>

record RateLimitConfig =
  rc_per_minute :: int
  rc_burst :: int
  rc_exempt :: "string list"
  rc_overrides :: "(string, int \<times> int) dict"
  rc_role_tiers :: "(string, int \<times> int) dict"
  rc_proxy_depth :: int
  rc_expose_headers :: bool

definition starts_with :: "string \<Rightarrow> string \<Rightarrow> bool" where
  "starts_with prefix s = (take (length prefix) s = prefix)"

definition rstrip_slash :: "string \<Rightarrow> string" where
  "rstrip_slash s = rev (dropWhile (\<lambda>c. c = CHR ''/'') (rev s))"

definition route_override_for :: "RateLimitConfig \<Rightarrow> string \<Rightarrow> (int \<times> int) option" where
  "route_override_for cfg path = map_option snd (find (\<lambda>(prefix, limits). starts_with prefix path) (rc_overrides cfg))"

definition limits_for_path :: "RateLimitConfig \<Rightarrow> string \<Rightarrow> (int \<times> int) option" where
  "limits_for_path cfg path =
     (if list_ex (\<lambda>exempt. path = exempt \<or> starts_with (rstrip_slash exempt @ ''/'') path) (rc_exempt cfg) then None
      else case route_override_for cfg path of
        Some limits \<Rightarrow> Some limits
      | None \<Rightarrow> Some (rc_per_minute cfg, rc_burst cfg))"

definition limits_for_role :: "RateLimitConfig \<Rightarrow> string option \<Rightarrow> int \<times> int" where
  "limits_for_role cfg role =
     (case role of
        None \<Rightarrow> (rc_per_minute cfg, rc_burst cfg)
      | Some r \<Rightarrow> if r = [] then (rc_per_minute cfg, rc_burst cfg)
          else (case map_of (rc_role_tiers cfg) r of None \<Rightarrow> (rc_per_minute cfg, rc_burst cfg) | Some l \<Rightarrow> l))"

section \<open>The principal of a request\<close>

record http_scope =
  sc_type :: string
  sc_method :: string
  sc_path :: string
  sc_headers :: "(string \<times> string) list"
  sc_client :: "string option"

text \<open>\<open>value.split(None, 1)\<close>: at most two parts, around the first run of whitespace.\<close>

definition split_once :: "string \<Rightarrow> string list" where
  "split_once s =
     (let s1 = dropWhile py_space s;
          first = takeWhile (\<lambda>c. \<not> py_space c) s1;
          rest = dropWhile py_space (dropWhile (\<lambda>c. \<not> py_space c) s1)
      in if first = [] then [] else if rest = [] then [first] else [first, rest])"

fun extract_bearer_token :: "(string \<times> string) list \<Rightarrow> string option" where
  "extract_bearer_token [] = None"
| "extract_bearer_token ((name, v) # hs) =
     (if name \<noteq> ''authorization'' then extract_bearer_token hs
      else case split_once v of
        [scheme, token] \<Rightarrow> if py_lower scheme = ''bearer'' then Some (py_strip token) else extract_bearer_token hs
      | _ \<Rightarrow> extract_bearer_token hs)"

fun extract_api_key :: "(string \<times> string) list \<Rightarrow> string option" where
  "extract_api_key [] = None"
| "extract_api_key ((name, v) # hs) =
     (if name = ''x-api-key'' then (if py_strip v = [] then None else Some (py_strip v)) else extract_api_key hs)"

definition api_key_principal :: "string option \<Rightarrow> string option" where
  "api_key_principal key = (case key of
     None \<Rightarrow> None
   | Some k \<Rightarrow> if starts_with ''nxs_'' k \<and> 12 \<le> length k then Some (''apikey:'' @ take 12 k) else None)"

text \<open>The decoder answers with the claims \<open>sub\<close> and \<open>role\<close> where they are strings.\<close>

definition resolve_principal ::
  "(string \<Rightarrow> (string option \<times> string option) option) \<Rightarrow> (string \<times> string) list \<Rightarrow> string option \<times> string option" where
  "resolve_principal jwt_decode hs =
     (let bearer = extract_bearer_token hs;
          user = (case bearer of
             None \<Rightarrow> None
           | Some t \<Rightarrow> if t = [] \<or> starts_with ''nxs_'' t then None
               else (case jwt_decode t of
                  None \<Rightarrow> None
                | Some (sub, role) \<Rightarrow> (case sub of
                    None \<Rightarrow> None | Some s \<Rightarrow> if s = [] then None else Some (''user:'' @ s, role))))
      in case user of
        Some (u, role) \<Rightarrow> (Some u, role)
      | None \<Rightarrow> (case api_key_principal (extract_api_key hs) of
          Some k \<Rightarrow> (Some k, None)
        | None \<Rightarrow> (api_key_principal bearer, None)))"

section \<open>The middleware\<close>

fun split_commas :: "string \<Rightarrow> string list" where
  "split_commas [] = [[]]"
| "split_commas (c # cs) =
     (case split_commas cs of
        [] \<Rightarrow> [[c]]
      | p # ps \<Rightarrow> if c = CHR '','' then [] # p # ps else (c # p) # ps)"

definition ascii_space :: "char \<Rightarrow> bool" where
  "ascii_space c = (let n = of_char c :: nat in 9 \<le> n \<and> n \<le> 13 \<or> n = 32)"

definition bytes_strip :: "string \<Rightarrow> string" where
  "bytes_strip s = rev (dropWhile ascii_space (rev (dropWhile ascii_space s)))"

fun forwarded_for :: "nat \<Rightarrow> (string \<times> string) list \<Rightarrow> string option" where
  "forwarded_for depth [] = None"
| "forwarded_for depth ((name, v) # hs) =
     (if name \<noteq> ''x-forwarded-for'' then forwarded_for depth hs
      else let parts = filter (\<lambda>p. p \<noteq> []) (map bytes_strip (split_commas v)) in
        if depth \<le> length parts then Some (parts ! (length parts - depth)) else forwarded_for depth hs)"

definition default_ip_key :: "RateLimitConfig \<Rightarrow> http_scope \<Rightarrow> string" where
  "default_ip_key cfg sc =
     (case (if 0 < rc_proxy_depth cfg then forwarded_for (nat (rc_proxy_depth cfg)) (sc_headers sc) else None) of
        Some ip \<Rightarrow> ''ip:'' @ ip
      | None \<Rightarrow> (case sc_client sc of Some host \<Rightarrow> ''ip:'' @ host | None \<Rightarrow> ''ip:unknown''))"

datatype rl_outcome =
  Unlimited
| Forwarded "(int \<times> int) option"
| TooManyRequests int int int

definition build_429 :: "int \<Rightarrow> int \<Rightarrow> rat \<Rightarrow> rl_outcome" where
  "build_429 burst remaining retry =
     TooManyRequests burst remaining (max 1 (py_int (fadd (clamp_retry retry) (f64 (999 / 1000)))))"

text \<open>
  What the middleware does with a request: pass it on untouched, ask the bucket and pass it on (with the
  burst and the remaining tokens in headers when exposed), or answer 429.  \<open>key_func\<close> and \<open>update\<close>
  are the key function and the backend it was built with.
\<close>

definition bucket_request ::
  "(string \<Rightarrow> (string option \<times> string option) option) \<Rightarrow> (http_scope \<Rightarrow> string) \<Rightarrow> RateLimitConfig \<Rightarrow> http_scope
     \<Rightarrow> (string \<times> int \<times> rat) option" where
  "bucket_request jwt_decode key_func cfg sc =
     (if sc_type sc \<noteq> ''http'' \<or> sc_method sc \<in> {''OPTIONS'', ''HEAD''} then None
      else case limits_for_path cfg (sc_path sc) of
        None \<Rightarrow> None
      | Some (per_minute, burst) \<Rightarrow>
          (case resolve_principal jwt_decode (sc_headers sc) of
             (None, role) \<Rightarrow> Some (key_func sc, burst, fdiv (fint per_minute) 60)
           | (Some who, role) \<Rightarrow>
               let (tier_per_min, tier_burst) =
                     (if route_override_for cfg (sc_path sc) = None then limits_for_role cfg role else (per_minute, burst))
               in Some (who @ '':'' @ sc_path sc, tier_burst, fdiv (fint tier_per_min) 60)))"

definition rate_limit_call ::
  "(string \<Rightarrow> int \<Rightarrow> rat \<Rightarrow> rat \<Rightarrow> 'b \<Rightarrow> bucket_answer \<times> 'b)
     \<Rightarrow> (string \<Rightarrow> (string option \<times> string option) option) \<Rightarrow> (http_scope \<Rightarrow> string) \<Rightarrow> RateLimitConfig \<Rightarrow> rat
     \<Rightarrow> http_scope \<Rightarrow> 'b \<Rightarrow> rl_outcome \<times> 'b" where
  "rate_limit_call update jwt_decode key_func cfg now sc b =
     (case bucket_request jwt_decode key_func cfg sc of
        None \<Rightarrow> (Unlimited, b)
      | Some (key, burst, refill) \<Rightarrow>
          (case update key burst refill now b of
             ((ok, remaining, retry), b') \<Rightarrow>
               (if ok then Forwarded (if rc_expose_headers cfg then Some (burst, remaining) else None)
                else build_429 burst remaining retry, b')))"

section \<open>The error of one float operation\<close>

definition tiny :: rat where
  "tiny = 1 / 2 ^ 1000"

lemma tiny_gt_0: "0 < tiny" and tiny_small: "tiny \<le> 1 / 2 ^ 200"
proof -
  show "0 < tiny" by (simp only: tiny_def zero_less_divide_iff zero_less_power zero_less_one zero_less_numeral simp_thms)
  have "(2::rat) ^ 200 \<le> 2 ^ 1000" by (rule power_increasing) simp_all
  then show "tiny \<le> 1 / 2 ^ 200" unfolding tiny_def by (intro divide_left_mono) simp_all
qed

lemma f64_tiny: "f64 tiny = tiny"
proof -
  have "f64 (of_int 1 / 2 ^ 1000) = of_int 1 / 2 ^ 1000" by (rule f64_dyadic) simp_all
  then show ?thesis unfolding tiny_def by (simp only: of_int_1)
qed

lemma tiny_powi: "tiny = 2 powi (- 1000)"
proof -
  have "(2::rat) powi (- int 1000) = inverse (2 powi int 1000)" by (rule power_int_minus)
  also have "\<dots> = inverse (2 ^ 1000)" by (simp only: power_int_of_nat)
  finally show ?thesis unfolding tiny_def by (simp only: inverse_eq_divide of_nat_numeral)
qed

text \<open>A float operation with a nonnegative result is at most a relative and an absolute error too large.\<close>

lemma f64_upper:
  assumes "0 \<le> x"
  shows "f64 x \<le> x + x / 2 ^ 52 + tiny"
proof (cases "x \<le> tiny")
  case True
  then have "f64 x \<le> tiny" using f64.mono [OF True] f64_tiny by simp
  moreover have "0 \<le> x / 2 ^ 52" using assms by simp
  ultimately show ?thesis using assms by linarith
next
  case False
  then have x: "0 < x" "tiny < x" using tiny_gt_0 by linarith+
  let ?m = "mag 2 x"
  have m: "(2::rat) powi ?m \<le> x" "x < 2 powi (?m + 1)" using mag_bounds [of 2 x] x(1) by simp_all
  have "(2::rat) powi (- 1000) < 2 powi (?m + 1)" using x(2) m(2) unfolding tiny_powi by (rule less_trans)
  then have "- 1001 < ?m" using powi_less_iff [of 2 "- 1000" "?m + 1"] by (simp only: of_nat_numeral simp_thms) simp
  then have q: "quantum 2 53 (- 1074) x = ?m - 52" by (simp add: quantum_def)
  define u :: rat where "u = 2 powi (?m - 52)"
  have u: "0 < u" by (simp add: u_def zero_less_power_int)
  have "f64 x = of_int (rhe (x / u)) * u" using x(1) q by (simp add: f64_def sig_round_def u_def Let_def)
  then have "f64 x - x = (of_int (rhe (x / u)) - x / u) * u" using u by (simp add: left_diff_distrib)
  also have "\<dots> \<le> 1 * u" using rhe_dist [of "x / u"] u by (intro mult_right_mono) linarith+
  also have "u = 2 powi ?m / 2 ^ 52" by (simp add: u_def power_int_diff)
  also have "1 * (2 powi ?m / 2 ^ 52) \<le> x / 2 ^ 52" using m(1) by (simp add: divide_right_mono)
  finally show ?thesis using tiny_gt_0 by linarith
qed

section \<open>The limit of a bucket\<close>

text \<open>The buckets of the sensible configurations: a capacity of at least one and a rate that is not negative.\<close>

definition bucket_params :: "int \<Rightarrow> rat \<Rightarrow> bool" where
  "bucket_params capacity refill \<longleftrightarrow> 1 \<le> capacity \<and> capacity \<le> 2 ^ 53 \<and> 0 \<le> refill \<and> refill \<le> 2 ^ 53"

lemma tiny_refill:
  assumes "0 \<le> refill" "refill \<le> 2 ^ 53"
  shows "tiny * refill \<le> 1 / 2 ^ 60 \<and> tiny \<le> 1 / 2 ^ 60"
proof -
  have "tiny * refill \<le> 1 / 2 ^ 200 * 2 ^ 53" using tiny_small assms tiny_gt_0 by (intro mult_mono) simp_all
  then show ?thesis using tiny_small by simp
qed

text \<open>What the roundings of one update can add to a bucket.\<close>

definition slack :: "int \<Rightarrow> rat" where
  "slack capacity = (5 * of_int capacity + 1) / 2 ^ 52"

definition bucket_ok :: "int \<Rightarrow> rat \<times> rat \<Rightarrow> bool" where
  "bucket_ok capacity b \<longleftrightarrow> 0 \<le> fst b \<and> fst b \<le> of_int capacity"

lemma capacity_float: "bucket_params capacity refill \<Longrightarrow> fint capacity = of_int capacity"
  by (simp add: bucket_params_def fint_exact)

lemma refilled_fresh:
  assumes "bucket_params capacity refill"
  shows "refilled capacity refill now None = of_int capacity"
proof -
  have "f64 (of_int capacity) = of_int capacity" using assms by (intro f64_int) (simp add: bucket_params_def)
  then show ?thesis by (simp add: refilled_def capacity_float [OF assms] fsub_def fmul_def fadd_def)
qed

lemma refilled_range:
  assumes "bucket_params capacity refill" "bucket_ok capacity (tokens, before)"
  shows "0 \<le> refilled capacity refill now (Some (tokens, before)) \<and> refilled capacity refill now (Some (tokens, before)) \<le> of_int capacity"
proof -
  have "0 \<le> fadd tokens (fmul (max 0 (fsub now before)) refill)"
    using assms by (intro float_nonneg) (simp_all add: bucket_ok_def bucket_params_def)
  then show ?thesis using assms(1) by (simp add: refilled_def capacity_float [OF assms(1)] bucket_params_def)
qed

lemma error_sum:
  fixes y :: rat
  assumes "er \<le> p + p / 2 ^ 52 + tr" "m \<le> er + er / 2 ^ 52 + t" "y \<le> (tok + m) + (tok + m) / 2 ^ 52 + t"
    and "0 \<le> tok" "0 \<le> p" "tok + p < c" "1 \<le> c" "0 < t" "tr \<le> 1 / 2 ^ 60" "t \<le> 1 / 2 ^ 60"
  shows "y \<le> tok + p + (5 * c + 1) / 2 ^ 52 - c / 2 ^ 52 - t"
  using assms by (simp add: field_simps)

lemma refilled_bound:
  assumes P: "bucket_params capacity refill" and B: "bucket_ok capacity (tokens, before)" and T: "before \<le> now"
  shows "refilled capacity refill now (Some (tokens, before)) \<le> tokens + refill * (now - before) + slack capacity - of_int capacity / 2 ^ 52 - tiny"
proof -
  let ?C = "of_int capacity :: rat" and ?p = "refill * (now - before)"
  let ?e = "fsub now before" and ?m = "fmul (fsub now before) refill"
  have r: "0 \<le> refill" "refill \<le> 2 ^ 53" "1 \<le> ?C" using P by (simp_all add: bucket_params_def)
  have t: "0 \<le> tokens" "tokens \<le> ?C" using B by (simp_all add: bucket_ok_def)
  have p: "0 \<le> ?p" using r(1) T by simp
  have e0: "0 \<le> ?e" using T by (rule float_nonneg(4))
  have eq: "refilled capacity refill now (Some (tokens, before)) = min ?C (fadd tokens ?m)"
    using e0 by (simp add: refilled_def capacity_float [OF P])
  have small: "0 < tiny" "tiny * refill \<le> 1 / 2 ^ 60" "tiny \<le> 1 / 2 ^ 60"
    using tiny_refill [OF r(1,2)] tiny_gt_0 by simp_all
  show ?thesis
  proof (cases "tokens + ?p < ?C")
    case True
    have "?e \<le> (now - before) + (now - before) / 2 ^ 52 + tiny"
      unfolding fsub_def using T by (intro f64_upper) simp
    then have "?e * refill \<le> ((now - before) + (now - before) / 2 ^ 52 + tiny) * refill"
      using r(1) by (rule mult_right_mono)
    then have er: "?e * refill \<le> ?p + ?p / 2 ^ 52 + tiny * refill" by (simp add: algebra_simps)
    have m: "?m \<le> ?e * refill + ?e * refill / 2 ^ 52 + tiny"
      unfolding fmul_def using e0 r(1) by (intro f64_upper) simp
    have m0: "0 \<le> ?m" using e0 r(1) by (rule float_nonneg(2))
    have y: "fadd tokens ?m \<le> (tokens + ?m) + (tokens + ?m) / 2 ^ 52 + tiny"
      unfolding fadd_def using t(1) m0 by (intro f64_upper) simp
    show ?thesis unfolding eq slack_def
      by (rule min.coboundedI2, rule error_sum [OF er m y t(1) p True r(3) small])
  next
    case False
    have "?C \<le> tokens + ?p + (5 * ?C + 1) / 2 ^ 52 - ?C / 2 ^ 52 - tiny"
      using False r(3) small by (simp add: field_simps)
    then show ?thesis unfolding eq slack_def by (rule min.coboundedI1)
  qed
qed

text \<open>One update seen from its key.\<close>

definition bucket_step :: "int \<Rightarrow> rat \<Rightarrow> rat \<Rightarrow> (rat \<times> rat) option \<Rightarrow> bool \<times> rat \<times> rat" where
  "bucket_step capacity refill now existing =
     (let tokens = refilled capacity refill now existing in
      if 1 \<le> tokens then (True, fsub tokens 1, now) else (False, tokens, now))"

lemma mem_update_step:
  "mem_update key capacity refill now st = (ans, st') \<Longrightarrow>
     bucket_step capacity refill now (map_of (bk_state st) key) = (fst ans, b) \<Longrightarrow> st' = put_bucket key b st"
  by (auto simp: mem_update_def bucket_step_def Let_def split: if_splits)

lemma mem_update_ok:
  "mem_update key capacity refill now st = (ans, st') \<Longrightarrow>
     fst ans = fst (bucket_step capacity refill now (map_of (bk_state st) key))"
  by (auto simp: mem_update_def bucket_step_def Let_def split: if_splits)

lemma spend_one:
  assumes "bucket_params capacity refill" "1 \<le> t" "t \<le> of_int capacity"
  shows "0 \<le> fsub t 1 \<and> fsub t 1 \<le> of_int capacity \<and> fsub t 1 \<le> t - 1 + of_int capacity / 2 ^ 52 + tiny"
proof -
  have "fsub t 1 \<le> (t - 1) + (t - 1) / 2 ^ 52 + tiny" unfolding fsub_def using assms(2) by (intro f64_upper) simp
  moreover have "(t - 1) / 2 ^ 52 \<le> of_int capacity / 2 ^ 52" using assms(3) by (intro divide_right_mono) simp_all
  ultimately have "fsub t 1 \<le> t - 1 + of_int capacity / 2 ^ 52 + tiny" by linarith
  moreover have "f64 (t - 1) \<le> f64 (of_int capacity)" using assms(3) by (intro f64.mono) simp
  moreover have "f64 (of_int capacity) = of_int capacity"
    using assms(1) by (intro f64_int) (simp add: bucket_params_def)
  ultimately show ?thesis using assms(2) by (simp only: fsub_def) (simp add: f64.nonneg)
qed

text \<open>A step keeps the bucket within its capacity; what it grants and leaves, it had or was refilled.\<close>

definition filled_to :: "int \<Rightarrow> rat \<Rightarrow> rat \<Rightarrow> (rat \<times> rat) option \<Rightarrow> rat" where
  "filled_to capacity refill now existing =
     (case existing of None \<Rightarrow> of_int capacity | Some (tokens, before) \<Rightarrow> tokens + refill * (now - before))"

lemma bucket_step_bound:
  assumes P: "bucket_params capacity refill"
    and B: "\<forall>b. existing = Some b \<longrightarrow> bucket_ok capacity b \<and> snd b \<le> now"
    and S: "bucket_step capacity refill now existing = (ok, b')"
  shows "bucket_ok capacity b' \<and> snd b' = now
    \<and> fst b' + (if ok then 1 else 0) \<le> filled_to capacity refill now existing + slack capacity"
proof -
  let ?t = "refilled capacity refill now existing"
  have C: "1 \<le> (of_int capacity :: rat)" "0 \<le> (of_int capacity / 2 ^ 52 :: rat)" using P by (simp_all add: bucket_params_def)
  have t: "0 \<le> ?t \<and> ?t \<le> of_int capacity
      \<and> ?t \<le> filled_to capacity refill now existing + slack capacity - of_int capacity / 2 ^ 52 - tiny"
  proof (cases existing)
    case None
    have "tiny \<le> 1 / 2 ^ 60" using tiny_refill [of 0] by simp
    then show ?thesis using C by (simp add: None refilled_fresh [OF P] filled_to_def slack_def field_simps)
  next
    case (Some b)
    then show ?thesis using B refilled_range [OF P, of "fst b" "snd b"] refilled_bound [OF P, of "fst b" "snd b" now]
      by (cases b) (simp add: filled_to_def)
  qed
  show ?thesis
  proof (cases "1 \<le> ?t")
    case True
    then show ?thesis using S t spend_one [OF P True] unfolding bucket_step_def bucket_ok_def Let_def by auto
  next
    case False
    then show ?thesis using S t C tiny_gt_0 unfolding bucket_step_def bucket_ok_def Let_def by auto
  qed
qed

text \<open>The requests of a run; as long as the keys fit, none is evicted.\<close>

record bucket_call =
  bc_key :: string
  bc_capacity :: int
  bc_refill :: rat
  bc_now :: rat

fun mem_run :: "bucket_call list \<Rightarrow> BucketBackend \<Rightarrow> bucket_answer list \<times> BucketBackend" where
  "mem_run [] st = ([], st)"
| "mem_run (c # cs) st =
     (case mem_update (bc_key c) (bc_capacity c) (bc_refill c) (bc_now c) st of
        (a, st') \<Rightarrow> (case mem_run cs st' of (as, st'') \<Rightarrow> (a # as, st'')))"

definition fits :: "string set \<Rightarrow> BucketBackend \<Rightarrow> bool" where
  "fits K st \<longleftrightarrow> finite K \<and> card K \<le> bk_max_keys st \<and> dict_ok (bk_state st) \<and> fst ` set (bk_state st) \<subseteq> K"

lemma keys_delete: "fst ` set (AList.delete k d) = fst ` set d - {k}"
  by (induction d) auto

lemma put_bucket_fits:
  assumes "fits K st" "key \<in> K"
  shows "fits K (put_bucket key b st) \<and> map_of (bk_state (put_bucket key b st)) = (map_of (bk_state st))(key \<mapsto> b)"
proof -
  let ?d = "AList.delete key (bk_state st) @ [(key, b)]"
  have "key \<notin> fst ` set (AList.delete key (bk_state st))"
    by (metis map_of_delete map_of_eq_None_iff fun_upd_same)
  then have ok: "dict_ok ?d" using assms(1) by (simp add: fits_def dict_ok_delete)
  have keys: "fst ` set ?d \<subseteq> K" using assms by (auto simp: fits_def keys_delete)
  have "length ?d = card (fst ` set ?d)" using distinct_card [OF ok] by simp
  also have "\<dots> \<le> card K" using assms(1) keys by (intro card_mono) (simp_all add: fits_def)
  finally have "length ?d - bk_max_keys st = 0" using assms(1) by (simp add: fits_def)
  then have st: "bk_state (put_bucket key b st) = ?d" "bk_max_keys (put_bucket key b st) = bk_max_keys st"
    by (simp_all add: put_bucket_def Let_def)
  have "map_of ?d = (map_of (bk_state st))(key \<mapsto> b)" by (auto simp: map_add_def fun_eq_iff split: option.splits)
  then show ?thesis using assms(1) ok keys by (simp add: fits_def st)
qed

lemma mem_update_fits:
  assumes "fits K st" "key \<in> K" "mem_update key capacity refill now st = (ans, st')"
  shows "fits K st' \<and> map_of (bk_state st') =
     (map_of (bk_state st))(key \<mapsto> snd (bucket_step capacity refill now (map_of (bk_state st) key)))"
proof -
  have "bucket_step capacity refill now (map_of (bk_state st) key) =
      (fst ans, snd (bucket_step capacity refill now (map_of (bk_state st) key)))"
    using mem_update_ok [OF assms(3)] by simp
  from mem_update_step [OF assms(3) this] show ?thesis using put_bucket_fits [OF assms(1,2)] by simp
qed

definition times_of :: "string \<Rightarrow> bucket_call list \<Rightarrow> rat list" where
  "times_of k cs = map bc_now (filter (\<lambda>c. bc_key c = k) cs)"

definition granted :: "string \<Rightarrow> bucket_call list \<Rightarrow> bucket_answer list \<Rightarrow> rat" where
  "granted k cs as = of_nat (length (filter (\<lambda>(c, a). bc_key c = k \<and> fst a) (zip cs as)))"

text \<open>The same parameters at every call for the key.\<close>

definition uniform_calls :: "string \<Rightarrow> int \<Rightarrow> rat \<Rightarrow> bucket_call list \<Rightarrow> bool" where
  "uniform_calls k capacity refill cs \<longleftrightarrow> (\<forall>c\<in>set cs. bc_key c = k \<longrightarrow> bc_capacity c = capacity \<and> bc_refill c = refill)"

lemma mem_run_bound:
  assumes "bucket_params capacity refill" "uniform_calls k capacity refill cs" "fits K st" "bc_key ` set cs \<subseteq> K"
    and "\<forall>b. map_of (bk_state st) k = Some b \<longrightarrow> bucket_ok capacity b \<and> (\<forall>t\<in>set (times_of k cs). snd b \<le> t)"
    and "sorted (times_of k cs)" "mem_run cs st = (as, st')" "times_of k cs \<noteq> []"
  shows "granted k cs as \<le> filled_to capacity refill (last (times_of k cs)) (case map_of (bk_state st) k of
       None \<Rightarrow> Some (of_int capacity, hd (times_of k cs)) | Some b \<Rightarrow> Some b)
     + of_nat (length (times_of k cs)) * slack capacity"
  using assms(2-8)
proof (induction cs arbitrary: st as)
  case (Cons c cs)
  obtain a st1 where u: "mem_update (bc_key c) (bc_capacity c) (bc_refill c) (bc_now c) st = (a, st1)"
    by (cases "mem_update (bc_key c) (bc_capacity c) (bc_refill c) (bc_now c) st")
  obtain as1 where r: "mem_run cs st1 = (as1, st')" "as = a # as1"
    using Cons.prems(6) by (auto simp: u split: prod.splits)
  have key: "bc_key c \<in> K" using Cons.prems(3) by simp
  note F = mem_update_fits [OF Cons.prems(2) key u]
  have unif: "uniform_calls k capacity refill cs" using Cons.prems(1) by (simp add: uniform_calls_def)
  show ?case
  proof (cases "bc_key c = k")
    case False
    then have same: "times_of k (c # cs) = times_of k cs" "granted k (c # cs) as = granted k cs as1"
      "map_of (bk_state st1) k = map_of (bk_state st) k"
      using F by (simp_all add: times_of_def granted_def r(2))
    have "fits K st1" "bc_key ` set cs \<subseteq> K" using F Cons.prems(3) by simp_all
    from Cons.IH [OF unif this] show ?thesis using Cons.prems(4,5,7) r(1) unfolding same by simp
  next
    case True
    let ?ex = "map_of (bk_state st) k" and ?now = "bc_now c" and ?T = "times_of k cs"
    have par: "bc_capacity c = capacity" "bc_refill c = refill" using Cons.prems(1) True by (simp_all add: uniform_calls_def)
    have T: "times_of k (c # cs) = ?now # ?T" by (simp add: times_of_def True)
    obtain ok b where step: "bucket_step capacity refill ?now ?ex = (ok, b)" by (cases "bucket_step capacity refill ?now ?ex") blast
    have B: "bucket_ok capacity b" "snd b = ?now" "fst b + (if ok then 1 else 0) \<le> filled_to capacity refill ?now ?ex + slack capacity"
      using bucket_step_bound [OF assms(1) _ step] Cons.prems(4) unfolding T by simp_all
    have st1: "fits K st1" "map_of (bk_state st1) k = Some b" using F by (simp_all add: True par step)
    have ok: "fst a = ok" using mem_update_ok [OF u] by (simp add: True par step)
    have g: "granted k (c # cs) as = (if ok then 1 else 0) + granted k cs as1"
      by (simp add: granted_def r(2) True ok)
    define end_of where "end_of t = filled_to capacity refill t (case ?ex of None \<Rightarrow> Some (of_int capacity, ?now) | Some b \<Rightarrow> Some b)" for t
    have now: "filled_to capacity refill ?now ?ex + refill * (t - ?now) = end_of t" for t
      unfolding end_of_def by (cases ?ex) (auto simp: filled_to_def algebra_simps)
    show ?thesis
    proof (cases "?T = []")
      case True
      have "granted k cs as1 = 0" using True by (force simp: granted_def times_of_def filter_empty_conv dest: set_zip_leftD)
      then show ?thesis using B now [of ?now] unfolding T list.sel(1) g end_of_def by (simp add: True bucket_ok_def)
    next
      case False
      have "\<forall>t\<in>set ?T. ?now \<le> t" "sorted ?T" using Cons.prems(5) unfolding T by simp_all
      then have "granted k cs as1 \<le> fst b + refill * (last ?T - ?now) + of_nat (length ?T) * slack capacity"
        using Cons.IH [OF unif st1(1) _ _ _ r(1) False] Cons.prems(3) B(1,2) st1(2)
        by (cases b) (simp add: filled_to_def)
      then have "granted k (c # cs) as \<le> end_of (last ?T) + slack capacity + of_nat (length ?T) * slack capacity"
        using B(3) now [of "last ?T"] unfolding g by linarith
      then show ?thesis using False unfolding T list.sel(1) end_of_def by (simp add: algebra_simps)
    qed
  qed
qed (simp add: times_of_def)

text \<open>
  C32.  The bucket limits the requests: on a fresh in-memory backend that has room for all keys, with a fixed capacity and
  rate for a key and a clock that does not go back, the requests granted to the key are at most
  the capacity plus the rate times the time between its first and last request, up to the
  rounding of the floats (\<open>slack\<close>, about 5/2^52 of the capacity, per request).
\<close>

theorem bucket_limits_requests:
  assumes "bucket_params capacity refill" "uniform_calls k capacity refill cs" "card (bc_key ` set cs) \<le> max_keys"
    and "sorted (times_of k cs)" "times_of k cs \<noteq> []" "mem_run cs (new_bucket_backend max_keys) = (as, st)"
  shows "granted k cs as \<le> of_int capacity + refill * (last (times_of k cs) - hd (times_of k cs))
    + of_nat (length (times_of k cs)) * slack capacity"
proof -
  have "fits (bc_key ` set cs) (new_bucket_backend max_keys)"
    using assms(3) by (simp add: fits_def new_bucket_backend_def)
  from mem_run_bound [OF assms(1,2) this order.refl _ assms(4,6,5)]
  show ?thesis by (simp add: new_bucket_backend_def filled_to_def)
qed

definition burst_of :: "nat \<Rightarrow> bucket_call list" where
  "burst_of n = replicate n \<lparr>bc_key = ''k'', bc_capacity = 2, bc_refill = 1, bc_now = 5\<rparr>"

theorem bucket_limits_requests_witness:
  "granted ''k'' (burst_of 9) (fst (mem_run (burst_of 9) (new_bucket_backend 1))) \<le> 2 + 9 * slack 2"
proof -
  have c: "times_of ''k'' (burst_of 9) = replicate 9 5" "bc_key ` set (burst_of 9) = {''k''}"
    "uniform_calls ''k'' 2 1 (burst_of 9)"
    by (auto simp: times_of_def burst_of_def uniform_calls_def)
  show ?thesis
    using bucket_limits_requests [OF _ c(3) _ _ _ prod.collapse [symmetric], of 1] unfolding c
    by (simp add: bucket_params_def last_replicate)
qed

section \<open>The two backends\<close>

text \<open>The stores tell the same: the same tokens and times, no deadlines.\<close>

definition same_buckets :: "BucketBackend \<Rightarrow> valkey_store \<Rightarrow> bool" where
  "same_buckets st vk \<longleftrightarrow> (\<forall>k. map_of vk k = map_option (\<lambda>b. (b, None)) (map_of (bk_state st) k))
     \<and> (\<forall>k b. map_of (bk_state st) k = Some b \<longrightarrow> 0 \<le> fst b)"

lemma same_live_hash: "same_buckets st vk \<Longrightarrow> live_hash server k vk = map_of (bk_state st) k"
  by (cases "map_of (bk_state st) k") (simp_all add: same_buckets_def live_hash_def)

lemma refilled_script:
  "refilled capacity refill now existing =
     (case (case existing of None \<Rightarrow> (fint capacity, now) | Some h \<Rightarrow> h) of
        (tokens, ts) \<Rightarrow> min (fint capacity) (fadd tokens (fmul (if ts < now then fsub now ts else 0) refill)))"
proof -
  have "max 0 (fsub now ts) = (if ts < now then fsub now ts else 0)" for ts
    using f64.nonneg [of "now - ts"] f64.nonpos [of "now - ts"] by (auto simp: fsub_def max_def)
  then show ?thesis by (simp add: refilled_def split: prod.splits)
qed

lemma refilled_nonneg:
  assumes "0 \<le> capacity" "0 \<le> refill" "\<forall>b. existing = Some b \<longrightarrow> 0 \<le> fst b"
  shows "0 \<le> refilled capacity refill now existing"
proof -
  have "0 \<le> fint capacity" using assms(1) by (rule fint_nonneg)
  moreover have "0 \<le> fadd t (fmul (max 0 e) refill)" if "0 \<le> t" for t e
    using that assms(2) by (intro float_nonneg) simp_all
  ultimately show ?thesis using assms(3) by (cases existing) (auto simp: refilled_def)
qed

lemma script_agrees:
  assumes "same_buckets st vk" "0 \<le> capacity" "0 \<le> refill" "fits K st" "key \<in> K"
    and "mem_update key capacity refill now st = ((ok, remaining, retry), st')"
    and "token_bucket_script key capacity refill now ttl server vk = ((ok', remaining', retry'), vk')" "ttl \<le> 0"
  shows "(ok' \<noteq> 0) = ok \<and> remaining' = remaining \<and> same_buckets st' vk'"
proof -
  let ?t = "refilled capacity refill now (map_of (bk_state st) key)"
  have t: "0 \<le> ?t" using assms(1,2,3) by (intro refilled_nonneg) (auto simp: same_buckets_def)
  have script: "token_bucket_script key capacity refill now ttl server vk =
     ((if 1 \<le> ?t then 1 else 0, \<lfloor>if 1 \<le> ?t then fsub ?t 1 else ?t\<rfloor>,
       py_int (if 1 \<le> ?t then 0 else if 0 < refill then fdiv (fsub 1 ?t) refill else 86400)),
      AList.update key ((if 1 \<le> ?t then fsub ?t 1 else ?t, now), None) vk)"
  proof -
    have d: "(if live_hash server key vk = None then None else case map_of vk key of None \<Rightarrow> None | Some (h, d) \<Rightarrow> d) = None"
      using assms(1) by (cases "map_of (bk_state st) key") (simp_all add: same_buckets_def)
    show ?thesis using assms(8) d
      by (auto simp: token_bucket_script_def same_live_hash [OF assms(1)] refilled_script Let_def split: prod.splits)
  qed
  have step: "bucket_step capacity refill now (map_of (bk_state st) key) =
      (1 \<le> ?t, if 1 \<le> ?t then fsub ?t 1 else ?t, now)" by (simp add: bucket_step_def Let_def)
  have st': "map_of (bk_state st') = (map_of (bk_state st))(key \<mapsto> (if 1 \<le> ?t then fsub ?t 1 else ?t, now))"
    using mem_update_fits [OF assms(4,5,6)] by (simp add: step)
  have "0 \<le> fsub ?t 1" if "1 \<le> ?t" using that by (rule float_nonneg(4))
  then have "same_buckets st' vk'"
    using assms(1,7) t unfolding script by (auto simp: same_buckets_def st')
  moreover have "(ok' \<noteq> 0) = ok \<and> remaining' = remaining"
  proof (cases "1 \<le> ?t")
    case True
    then show ?thesis using assms(6,7) float_nonneg(4) [OF True] unfolding script by (auto simp: mem_update_def py_int_def Let_def)
  next
    case False
    then have "\<lfloor>?t\<rfloor> = 0" using t by (simp add: floor_eq_iff)
    then show ?thesis using assms(6,7) False unfolding script by (auto simp: mem_update_def Let_def)
  qed
  ultimately show ?thesis by blast
qed

lemma ensure_script_keeps [simp]:
  "vk_ttl (snd (ensure_script load v)) = vk_ttl v" "vk_store (snd (ensure_script load v)) = vk_store v"
  by (simp_all add: ensure_script_def)

lemma valkey_update_answer:
  assumes "token_bucket_script key capacity refill now (vk_ttl v) server (vk_store v) = ((ok, remaining, retry), vk')"
  obtains v' where "valkey_update load True second server key capacity refill now v =
      (Some (ok \<noteq> 0, remaining, clamp_retry (of_int retry)), v')" "vk_store v' = vk'" "vk_ttl v' = vk_ttl v"
  using assms by (simp add: valkey_update_def Let_def)

text \<open>The same calls at the Valkey backend, each at a time of the server.\<close>

fun valkey_run :: "(rat \<times> bucket_call) list \<Rightarrow> ValkeyBackend \<Rightarrow> bucket_answer option list \<times> ValkeyBackend" where
  "valkey_run [] v = ([], v)"
| "valkey_run ((server, c) # cs) v =
     (case valkey_update True True True server (bc_key c) (bc_capacity c) (bc_refill c) (bc_now c) v of
        (a, v') \<Rightarrow> (case valkey_run cs v' of (as, v'') \<Rightarrow> (a # as, v'')))"

definition verdict :: "bucket_answer \<Rightarrow> bool \<times> int" where
  "verdict a = (fst a, fst (snd a))"

lemma run_agrees:
  assumes "same_buckets st (vk_store v)" "vk_ttl v \<le> 0" "fits K st" "(\<lambda>c. bc_key (snd c)) ` set cs \<subseteq> K"
    and "\<forall>c\<in>set cs. 0 \<le> bc_capacity (snd c) \<and> 0 \<le> bc_refill (snd c)"
  shows "map (map_option verdict) (fst (valkey_run cs v)) = map (\<lambda>a. Some (verdict a)) (fst (mem_run (map snd cs) st))"
  using assms
proof (induction cs arbitrary: st v)
  case (Cons x cs)
  obtain server c where x: "x = (server, c)" by (cases x)
  obtain ok remaining retry st' where m: "mem_update (bc_key c) (bc_capacity c) (bc_refill c) (bc_now c) st = ((ok, remaining, retry), st')"
    by (metis prod_cases3 surj_pair)
  obtain ok' remaining' retry' vk' where s: "token_bucket_script (bc_key c) (bc_capacity c) (bc_refill c) (bc_now c) (vk_ttl v) server (vk_store v)
      = ((ok', remaining', retry'), vk')" by (metis prod_cases3 surj_pair)
  have key: "bc_key c \<in> K" using Cons.prems(4) x by simp
  note A = script_agrees [OF Cons.prems(1) _ _ Cons.prems(3) key m s Cons.prems(2)]
  have eq: "(ok' \<noteq> 0) = ok" "remaining' = remaining" "same_buckets st' vk'"
    using A Cons.prems(5) x by simp_all
  obtain v' where u: "valkey_update True True True server (bc_key c) (bc_capacity c) (bc_refill c) (bc_now c) v =
      (Some (ok' \<noteq> 0, remaining', clamp_retry (of_int retry')), v')" "vk_store v' = vk'" "vk_ttl v' = vk_ttl v"
    by (rule valkey_update_answer [OF s])
  have "fits K st'" using mem_update_fits [OF Cons.prems(3) key m] by simp
  with Cons.IH [of st' v'] show ?case
    using Cons.prems(2,4,5) eq u m by (simp add: x verdict_def case_prod_beta)
qed simp

text \<open>
  The two backends agree: without expiry, and while all keys fit in memory, the same calls get the same
  verdicts and the same remaining tokens from the Valkey script and from the in-memory backend,
  whatever the clock of the server.
\<close>

theorem valkey_agrees_with_memory:
  assumes "card ((\<lambda>c. bc_key (snd c)) ` set cs) \<le> max_keys" "ttl \<le> 0"
    and "\<forall>c\<in>set cs. 0 \<le> bc_capacity (snd c) \<and> 0 \<le> bc_refill (snd c)"
  shows "map (map_option verdict) (fst (valkey_run cs (new_valkey_backend ttl [])))
       = map (\<lambda>a. Some (verdict a)) (fst (mem_run (map snd cs) (new_bucket_backend max_keys)))"
proof (rule run_agrees)
  show "fits ((\<lambda>c. bc_key (snd c)) ` set cs) (new_bucket_backend max_keys)"
    using assms(1) by (simp add: fits_def new_bucket_backend_def)
qed (use assms(2,3) in \<open>simp_all add: same_buckets_def new_bucket_backend_def new_valkey_backend_def\<close>)

section \<open>Two pods share a bucket\<close>

text \<open>
  \<open>time.monotonic()\<close> starts anew on every host.  Pairs of requests, one from a pod whose clock is ahead and one
  from the other pod; \<open>a\<close> and \<open>b\<close> are their readings.
\<close>

definition pod_calls :: "string \<Rightarrow> int \<Rightarrow> rat \<Rightarrow> (rat \<times> rat \<times> rat \<times> rat) list \<Rightarrow> (rat \<times> bucket_call) list" where
  "pod_calls k capacity refill pairs = concat (map (\<lambda>(s, a, s', b).
     [(s, \<lparr>bc_key = k, bc_capacity = capacity, bc_refill = refill, bc_now = a\<rparr>),
      (s', \<lparr>bc_key = k, bc_capacity = capacity, bc_refill = refill, bc_now = b\<rparr>)]) pairs)"

definition far_behind :: "int \<Rightarrow> rat \<Rightarrow> rat \<Rightarrow> rat \<Rightarrow> bool" where
  "far_behind capacity refill b a \<longleftrightarrow> b < a \<and> of_int capacity \<le> fmul (fsub a b) refill"

lemma full_bucket:
  assumes "2 \<le> capacity" "capacity \<le> 2 ^ 53" "\<forall>b. h = Some b \<longrightarrow> 0 \<le> fst b \<and> far_behind capacity refill (snd b) now"
  shows "refilled capacity refill now h = of_int capacity"
proof -
  have C: "fint capacity = of_int capacity" "f64 (of_int capacity) = of_int capacity"
    using assms(1,2) by (simp_all add: fint_exact f64_int)
  show ?thesis
  proof (cases h)
    case None
    then show ?thesis by (simp add: refilled_script C fmul_def fadd_def)
  next
    case (Some b)
    then have "f64 (of_int capacity) \<le> fadd (fst b) (fmul (fsub now (snd b)) refill)" "snd b < now"
      using assms(3) unfolding fadd_def far_behind_def by (auto intro!: f64.mono)
    then show ?thesis by (cases b) (simp add: refilled_script C Some)
  qed
qed

lemma kept_bucket:
  assumes "2 \<le> capacity" "capacity \<le> 2 ^ 53" "1 \<le> tokens" "now \<le> ts"
  shows "1 \<le> refilled capacity refill now (Some (tokens, ts))"
proof -
  have "f64 1 \<le> fadd tokens 0" unfolding fadd_def using assms(3) by (intro f64.mono) simp
  then show ?thesis using assms by (simp add: refilled_script fint_exact fmul_def)
qed

lemma script_grants:
  assumes "1 \<le> refilled capacity refill now (live_hash server k vk)"
  obtains remaining deadline where "token_bucket_script k capacity refill now ttl server vk = ((1, remaining, 0),
      AList.update k ((fsub (refilled capacity refill now (live_hash server k vk)) 1, now), deadline) vk)"
  using assms by (auto simp: token_bucket_script_def refilled_script Let_def py_int_def split: prod.splits)

lemma live_after_update:
  "live_hash server k (AList.update k (h, deadline) vk) \<in> {None, Some h}"
  by (simp add: live_hash_def split: option.splits)

text \<open>Before each pair the bucket is gone or was last written by the pod that is behind.\<close>

definition behind :: "string \<Rightarrow> rat set \<Rightarrow> valkey_store \<Rightarrow> bool" where
  "behind k bs vk \<longleftrightarrow> (\<forall>server h. live_hash server k vk = Some h \<longrightarrow> 0 \<le> fst h \<and> snd h \<in> bs)"

lemma pair_granted:
  assumes cap: "2 \<le> capacity" "capacity \<le> 2 ^ 53" and far: "\<forall>b'\<in>bs. far_behind capacity refill b' a" "b \<in> bs"
    and vk: "behind k bs (vk_store v)"
  obtains r1 r2 v' where "valkey_run [(s, \<lparr>bc_key = k, bc_capacity = capacity, bc_refill = refill, bc_now = a\<rparr>),
      (s', \<lparr>bc_key = k, bc_capacity = capacity, bc_refill = refill, bc_now = b\<rparr>)] v
    = ([Some (True, r1), Some (True, r2)], v')" "behind k bs (vk_store v')"
proof -
  have one: "fsub (of_int capacity) 1 = of_int (capacity - 1)"
    using f64_int [of "capacity - 1"] cap by (simp add: fsub_def)
  have full: "refilled capacity refill a (live_hash s k (vk_store v)) = of_int capacity"
    using vk far by (intro full_bucket [OF cap]) (auto simp: behind_def)
  obtain r d where A: "token_bucket_script k capacity refill a (vk_ttl v) s (vk_store v) =
      ((1, r, 0), AList.update k ((of_int (capacity - 1), a), d) (vk_store v))"
    by (rule script_grants [of capacity refill a s k "vk_store v" "vk_ttl v"]) (use full cap one in simp_all)
  let ?vk1 = "AList.update k ((of_int (capacity - 1), a), d) (vk_store v)"
  obtain v1 where u1: "valkey_update True True True s k capacity refill a v = (Some (True, r, clamp_retry 0), v1)"
      "vk_store v1 = ?vk1" "vk_ttl v1 = vk_ttl v"
    by (rule valkey_update_answer [OF A, of True True]) simp_all
  let ?t = "refilled capacity refill b (live_hash s' k ?vk1)"
  have "b < a" using far by (auto simp: far_behind_def)
  have t: "1 \<le> ?t"
  proof (cases "live_hash s' k ?vk1")
    case None
    then show ?thesis using full_bucket [OF cap, of None refill b] cap by simp
  next
    case (Some h)
    then have h: "h = (of_int (capacity - 1), a)" using live_after_update [of s' k "(of_int (capacity - 1), a)" d "vk_store v"] by auto
    show ?thesis unfolding Some h by (rule kept_bucket [OF cap]) (use cap \<open>b < a\<close> in simp_all)
  qed
  obtain r' d' where B: "token_bucket_script k capacity refill b (vk_ttl v1) s' (vk_store v1) =
      ((1, r', 0), AList.update k ((fsub ?t 1, b), d') ?vk1)"
    using script_grants [OF t, of "vk_ttl v1"] u1(2) by metis
  obtain v2 where u2: "valkey_update True True True s' k capacity refill b v1 = (Some (True, r', clamp_retry 0), v2)"
      "vk_store v2 = AList.update k ((fsub ?t 1, b), d') ?vk1"
    by (rule valkey_update_answer [OF B, of True True]) simp_all
  have "behind k bs (vk_store v2)" unfolding behind_def
  proof (intro allI impI)
    fix server h
    assume "live_hash server k (vk_store v2) = Some h"
    then have "h = (fsub ?t 1, b)" using live_after_update [of server k "(fsub ?t 1, b)" d' ?vk1] unfolding u2(2) by auto
    then show "0 \<le> fst h \<and> snd h \<in> bs" using far(2) float_nonneg(4) [OF t] by simp
  qed
  then show ?thesis using that u1(1) u2(1) by simp
qed

lemma valkey_run_append:
  "valkey_run (cs @ ds) v = (case valkey_run cs v of (as, v1) \<Rightarrow> (case valkey_run ds v1 of (bs, v2) \<Rightarrow> (as @ bs, v2)))"
  by (induction cs arbitrary: v) (auto simp: case_prod_beta)

text \<open>
  Two pods defeat the shared limit: when the monotonic clock of one pod is behind that of the other by at least the
  time that fills a bucket, requests for one key that alternate between the pods are all granted,
  however many and however fast, although both use the same Valkey bucket.
\<close>

theorem pods_defeat_shared_limit:
  assumes "2 \<le> capacity" "capacity \<le> 2 ^ 53"
    and "\<forall>(s, a, s', b)\<in>set pairs. \<forall>(t, a', t', b')\<in>set pairs. far_behind capacity refill b a'"
  shows "\<forall>answer\<in>set (fst (valkey_run (pod_calls k capacity refill pairs) (new_valkey_backend ttl []))). \<exists>r. answer = Some (True, r)"
proof -
  let ?bs = "(\<lambda>(s, a, s', b). b) ` set pairs"
  have "\<forall>answer\<in>set (fst (valkey_run (pod_calls k capacity refill ps) v)). \<exists>r. answer = Some (True, r)"
    if "set ps \<subseteq> set pairs" "behind k ?bs (vk_store v)" for ps v
    using that
  proof (induction ps arbitrary: v)
    case (Cons p ps)
    obtain s a s' b where p: "p = (s, a, s', b)" by (metis prod_cases4)
    have pin: "(s, a, s', b) \<in> set pairs" using Cons.prems(1) p by simp
    have far: "\<forall>b'\<in>?bs. far_behind capacity refill b' a" "b \<in> ?bs"
    proof
      fix b'
      assume "b' \<in> ?bs"
      then obtain t a' t' where q: "(t, a', t', b') \<in> set pairs" by (auto split: prod.splits)
      show "far_behind capacity refill b' a" using bspec [OF bspec [OF assms(3) q, simplified] pin] by simp
    next
      show "b \<in> ?bs" by (rule image_eqI [OF _ pin]) simp
    qed
    from pair_granted [OF assms(1,2) far Cons.prems(2)] obtain r1 r2 v'
      where v': "valkey_run [(s, \<lparr>bc_key = k, bc_capacity = capacity, bc_refill = refill, bc_now = a\<rparr>),
          (s', \<lparr>bc_key = k, bc_capacity = capacity, bc_refill = refill, bc_now = b\<rparr>)] v
        = ([Some (True, r1), Some (True, r2)], v')" "behind k ?bs (vk_store v')" by blast
    have calls: "pod_calls k capacity refill (p # ps) = [(s, \<lparr>bc_key = k, bc_capacity = capacity, bc_refill = refill, bc_now = a\<rparr>),
          (s', \<lparr>bc_key = k, bc_capacity = capacity, bc_refill = refill, bc_now = b\<rparr>)] @ pod_calls k capacity refill ps"
      by (simp add: pod_calls_def p)
    show ?case using Cons.IH [OF _ v'(2)] Cons.prems(1)
      unfolding calls valkey_run_append v'(1) by (auto simp: case_prod_beta)
  qed (simp add: pod_calls_def)
  note all = this
  show ?thesis by (rule all [OF order.refl]) (simp add: behind_def live_hash_def new_valkey_backend_def)
qed

section \<open>Requests with made-up API keys\<close>

fun limited_requests ::
  "(string \<Rightarrow> (string option \<times> string option) option) \<Rightarrow> (http_scope \<Rightarrow> string) \<Rightarrow> RateLimitConfig \<Rightarrow> (rat \<times> http_scope) list
     \<Rightarrow> BucketBackend \<Rightarrow> rl_outcome list" where
  "limited_requests jwt key_func cfg [] b = []"
| "limited_requests jwt key_func cfg ((now, sc) # scs) b =
     (case rate_limit_call mem_update jwt key_func cfg now sc b of
        (out, b') \<Rightarrow> out # limited_requests jwt key_func cfg scs b')"

definition api_key_request :: "string \<Rightarrow> string \<Rightarrow> http_scope" where
  "api_key_request path key = \<lparr>sc_type = ''http'', sc_method = ''GET'', sc_path = path,
     sc_headers = [(''x-api-key'', key)], sc_client = Some ''10.0.0.1''\<rparr>"

definition api_key_shape :: "string \<Rightarrow> bool" where
  "api_key_shape key \<longleftrightarrow> py_strip key = key \<and> starts_with ''nxs_'' key \<and> 12 \<le> length key"

lemma api_key_bucket:
  assumes "limits_for_path cfg path = Some l" "route_override_for cfg path = None" "api_key_shape key"
  shows "bucket_request jwt key_func cfg (api_key_request path key) =
     Some (''apikey:'' @ take 12 key @ '':'' @ path, rc_burst cfg, fdiv (fint (rc_per_minute cfg)) 60)"
proof -
  have "key \<noteq> []" using assms(3) by (auto simp: api_key_shape_def)
  then have "resolve_principal jwt [(''x-api-key'', key)] = (Some (''apikey:'' @ take 12 key), None)"
    using assms(3) by (simp add: resolve_principal_def api_key_principal_def api_key_shape_def)
  then show ?thesis using assms(1,2)
    by (cases l) (simp add: bucket_request_def api_key_request_def limits_for_role_def)
qed

lemma put_bucket_keys: "fst ` set (bk_state (put_bucket key b st)) \<subseteq> insert key (fst ` set (bk_state st))"
proof -
  let ?d = "AList.delete key (bk_state st) @ [(key, b)]"
  have "bk_state (put_bucket key b st) = drop (length ?d - bk_max_keys st) ?d" by (simp add: put_bucket_def Let_def)
  then have "fst ` set (bk_state (put_bucket key b st)) \<subseteq> fst ` set ?d"
    by (simp only:) (intro image_mono set_drop_subset)
  also have "\<dots> \<subseteq> insert key (fst ` set (bk_state st))" by (auto simp: keys_delete)
  finally show ?thesis .
qed

lemma fresh_key_granted:
  assumes "1 \<le> burst" "burst \<le> 2 ^ 53" "key \<notin> fst ` set (bk_state st)"
  shows "\<exists>r st'. mem_update key burst refill now st = ((True, r), st')
    \<and> fst ` set (bk_state st') \<subseteq> insert key (fst ` set (bk_state st))"
proof -
  have "map_of (bk_state st) key = None" using assms(3) by (simp add: map_of_eq_None_iff)
  moreover have "refilled burst refill now None = of_int burst"
    using assms(1,2) f64_int [of burst] by (simp add: refilled_script fint_exact fmul_def fadd_def)
  ultimately show ?thesis using assms(1) put_bucket_keys [of key _ st] by (simp add: mem_update_def Let_def)
qed

text \<open>
  Made-up API keys escape the limit: the middleware keys a request with an \<open>nxs_\<close> header on the first twelve
  characters of that header without verifying it, so a client that sends a new prefix with
  every request is never limited, on any path that has no override, whatever its rate.
\<close>

theorem made_up_api_keys_escape:
  assumes "limits_for_path cfg path \<noteq> None" "route_override_for cfg path = None"
    and "1 \<le> rc_burst cfg" "rc_burst cfg \<le> 2 ^ 53"
    and "\<forall>(now, key)\<in>set reqs. api_key_shape key" "distinct (map (\<lambda>(now, key). take 12 key) reqs)"
  shows "\<forall>out\<in>set (limited_requests jwt key_func cfg (map (\<lambda>(now, key). (now, api_key_request path key)) reqs)
      (new_bucket_backend max_keys)). \<exists>h. out = Forwarded h"
proof -
  define bucket where "bucket key = ''apikey:'' @ take 12 key @ '':'' @ path" for key
  have inj: "bucket key = bucket key' \<Longrightarrow> api_key_shape key \<Longrightarrow> api_key_shape key' \<Longrightarrow> take 12 key = take 12 key'" for key key'
    by (simp add: bucket_def api_key_shape_def append_eq_append_conv)
  have "\<forall>out\<in>set (limited_requests jwt key_func cfg (map (\<lambda>(now, key). (now, api_key_request path key)) rs) b). \<exists>h. out = Forwarded h"
    if "\<forall>(now, key)\<in>set rs. api_key_shape key" "distinct (map (\<lambda>(now, key). take 12 key) rs)"
      "\<forall>(now, key)\<in>set rs. bucket key \<notin> fst ` set (bk_state b)" for rs b
    using that
  proof (induction rs arbitrary: b)
    case (Cons r rs)
    obtain now key where r: "r = (now, key)" by (cases r)
    obtain l where l: "limits_for_path cfg path = Some l" using assms(1) by auto
    have shape: "api_key_shape key" using Cons.prems(1) by (simp add: r)
    obtain x st' where u: "mem_update (bucket key) (rc_burst cfg) (fdiv (fint (rc_per_minute cfg)) 60) now b = ((True, x), st')"
      "fst ` set (bk_state st') \<subseteq> insert (bucket key) (fst ` set (bk_state b))"
      using fresh_key_granted [OF assms(3,4), of "bucket key" b "fdiv (fint (rc_per_minute cfg)) 60" now] Cons.prems(3)
      by (simp add: r) blast
    obtain h where call: "rate_limit_call mem_update jwt key_func cfg now (api_key_request path key) b = (Forwarded h, st')"
      using u(1) api_key_bucket [OF l assms(2) shape, of jwt key_func]
      by (cases x) (simp add: rate_limit_call_def bucket_def)
    have "bucket key' \<notin> fst ` set (bk_state st')" if k: "(now', key') \<in> set rs" for now' key'
    proof -
      have k': "api_key_shape key'" "take 12 key' \<noteq> take 12 key" "bucket key' \<notin> fst ` set (bk_state b)"
        using bspec [OF Cons.prems(1), of "(now', key')"] bspec [OF Cons.prems(3), of "(now', key')"] Cons.prems(2)
          imageI [OF k, of "\<lambda>(now, key). take 12 key"] k
        by (auto simp: r)
      then have "bucket key' \<noteq> bucket key" using inj shape by blast
      then show ?thesis using u(2) k'(3) by blast
    qed
    then have "\<forall>(now, key')\<in>set rs. bucket key' \<notin> fst ` set (bk_state st')" by blast
    with Cons.IH [of st'] Cons.prems(1,2) show ?case by (simp add: r call)
  qed simp
  note all = this
  show ?thesis by (rule all [OF assms(5,6)]) (simp add: new_bucket_backend_def)
qed

definition sample_limits :: RateLimitConfig where
  "sample_limits = \<lparr>rc_per_minute = 60, rc_burst = 1, rc_exempt = [''/health''], rc_overrides = [], rc_role_tiers = [],
     rc_proxy_depth = 0, rc_expose_headers = False\<rparr>"

section \<open>What the middleware needs of a backend\<close>

text \<open>
  The contract of \<open>BucketBackend\<close>: on a sound state the remaining tokens are not negative and a refusal comes with a
  waiting time in the range of the clamp.
\<close>

locale bucket_backend =
  fixes update :: "string \<Rightarrow> int \<Rightarrow> rat \<Rightarrow> rat \<Rightarrow> 'b \<Rightarrow> bucket_answer \<times> 'b" and sound :: "'b \<Rightarrow> bool"
  assumes sound_step: "sound b \<Longrightarrow> 0 \<le> capacity \<Longrightarrow> 0 \<le> refill \<Longrightarrow>
      update key capacity refill now b = ((ok, remaining, retry), b') \<Longrightarrow> sound b'"
    and answer_range: "sound b \<Longrightarrow> 0 \<le> capacity \<Longrightarrow> 0 \<le> refill \<Longrightarrow>
      update key capacity refill now b = ((ok, remaining, retry), b') \<Longrightarrow>
      0 \<le> remaining \<and> (\<not> ok \<longrightarrow> 0 \<le> retry \<and> retry \<le> MAX_RETRY_AFTER_SEC)"

lemma retry_seconds:
  assumes "0 \<le> retry" "retry \<le> MAX_RETRY_AFTER_SEC"
  shows "py_int (fadd (clamp_retry retry) (f64 (999 / 1000))) \<le> 86400"
proof -
  have "f64 (999 / 1000) \<le> 4095 / 2 ^ 12"
    using f64.mono [of "999 / 1000" "4095 / 2 ^ 12"] f64_dyadic [of 4095 12] by simp
  moreover have "clamp_retry retry \<le> 86400"
    using f64.mono [of "1 / 1000" 1] assms(2) by (simp add: clamp_retry_def MIN_RETRY_AFTER_SEC_def MAX_RETRY_AFTER_SEC_def)
  ultimately have "clamp_retry retry + f64 (999 / 1000) \<le> 353898495 / 2 ^ 12" by simp
  then have "fadd (clamp_retry retry) (f64 (999 / 1000)) \<le> 353898495 / 2 ^ 12"
    using f64.mono [of "clamp_retry retry + f64 (999 / 1000)" "353898495 / 2 ^ 12"] f64_dyadic [of 353898495 12]
    by (simp add: fadd_def)
  then have "fadd (clamp_retry retry) (f64 (999 / 1000)) < 86401" by simp
  then show ?thesis by (auto simp: py_int_def floor_le_iff ceiling_le_iff)
qed

context bucket_backend
begin

text \<open>An answer 429 tells to come back after between one second and a day.\<close>

lemma refusal_shape:
  assumes "sound b" "rate_limit_call update jwt key_func cfg now sc b = (TooManyRequests burst remaining seconds, b')"
    and "\<And>key capacity refill. bucket_request jwt key_func cfg sc = Some (key, capacity, refill) \<Longrightarrow> 0 \<le> capacity \<and> 0 \<le> refill"
  shows "0 \<le> remaining \<and> 1 \<le> seconds \<and> seconds \<le> 86400 \<and> sound b'"
proof -
  obtain key capacity refill where req: "bucket_request jwt key_func cfg sc = Some (key, capacity, refill)"
    using assms(2) by (auto simp: rate_limit_call_def split: option.splits)
  obtain ok rem retry where u: "update key capacity refill now b = ((ok, rem, retry), b')"
      "(if ok then Forwarded (if rc_expose_headers cfg then Some (capacity, rem) else None) else build_429 capacity rem retry)
        = TooManyRequests burst remaining seconds"
    using assms(2) by (auto simp: rate_limit_call_def req split: prod.splits)
  then have r: "\<not> ok" "remaining = rem" "seconds = max 1 (py_int (fadd (clamp_retry retry) (f64 (999 / 1000))))"
    by (auto simp: build_429_def split: if_splits)
  show ?thesis
    using answer_range [OF assms(1) _ _ u(1)] sound_step [OF assms(1) _ _ u(1)] assms(3) [OF req] retry_seconds [of retry] r
    by auto
qed

end

definition mem_sound :: "BucketBackend \<Rightarrow> bool" where
  "mem_sound st \<longleftrightarrow> (\<forall>b\<in>snd ` set (bk_state st). 0 \<le> fst b)"

lemma set_delete_part: "set (AList.delete k d) \<subseteq> set d"
  by (induction d) auto

lemma put_bucket_sound: "mem_sound st \<Longrightarrow> 0 \<le> fst b \<Longrightarrow> mem_sound (put_bucket key b st)"
  using set_drop_subset set_delete_part
  by (fastforce simp: mem_sound_def put_bucket_def Let_def)

lemma MIN_RETRY_nonneg: "0 \<le> MIN_RETRY_AFTER_SEC"
  by (simp add: MIN_RETRY_AFTER_SEC_def f64.nonneg)

lemma mem_tokens_nonneg:
  assumes "mem_sound st" "0 \<le> capacity" "0 \<le> refill"
  shows "0 \<le> refilled capacity refill now (map_of (bk_state st) key)"
  using assms by (intro refilled_nonneg) (force simp: mem_sound_def dest: map_of_SomeD)+

interpretation mem: bucket_backend mem_update mem_sound
proof unfold_locales
  fix b b' :: BucketBackend and capacity ok remaining and refill retry now :: rat and key
  assume a: "mem_sound b" "0 \<le> capacity" "0 \<le> refill" "mem_update key capacity refill now b = ((ok, remaining, retry), b')"
  note t = mem_tokens_nonneg [OF a(1-3), of now key]
  show "mem_sound b'" using a(4) t float_nonneg(4) put_bucket_sound [OF a(1)]
    by (auto simp: mem_update_def Let_def split: if_splits)
  show "0 \<le> remaining \<and> (\<not> ok \<longrightarrow> 0 \<le> retry \<and> retry \<le> MAX_RETRY_AFTER_SEC)"
    using a(4) float_nonneg(4) [of 1 "refilled capacity refill now (map_of (bk_state b) key)"] MIN_RETRY_nonneg
    by (auto simp: mem_update_def Let_def retry_after_def py_int_def MAX_RETRY_AFTER_SEC_def split: if_splits)
qed

end
