(* ===== verification/Calendar.thy ===== *)
theory Calendar
  imports Prelude
begin

text \<open>
  The market calendar, \<open>engine/core/market_calendar.py\<close>: which instants a venue is open, and when it opens next.

  A date is its ordinal (\<open>date.toordinal\<close>), a time of day its microseconds.  Zone conversion needs the IANA
  database, so \<open>astimezone\<close> is an argument \<open>to_local\<close>, and the local wall clock is a pair of both; the
  aware datetimes that the code combines from a date, a time and the zone of the calendar are such pairs.
\<close>

section \<open>Calendars\<close>

type_synonym wall = "int \<times> int"

record VenueCalendar =
  vc_mic :: string
  vc_timezone :: string
  vc_open :: int
  vc_close :: int
  vc_holidays :: "int list"
  vc_half_days :: "(int, int) dict"

datatype calendar_error = BadMic string | OpenNotBeforeClose int int | BadTimezone string | NaiveDatetime
  | NoSession string | NoBuiltin string

definition alnum_char :: "char \<Rightarrow> bool" where
  "alnum_char c = (let n = of_char c :: nat in
     48 \<le> n \<and> n \<le> 57 \<or> lower_char c \<or> upper_char c \<or> n \<in> {178, 179, 185, 188, 189, 190})"

definition py_isalnum :: "string \<Rightarrow> bool" where
  "py_isalnum s = (s \<noteq> [] \<and> list_all alnum_char s)"

definition new_calendar ::
  "(string \<Rightarrow> bool) \<Rightarrow> string \<Rightarrow> string \<Rightarrow> int \<Rightarrow> int \<Rightarrow> int list \<Rightarrow> (int, int) dict \<Rightarrow> calendar_error + VenueCalendar" where
  "new_calendar known_zone mic zone op cl holidays half_days =
     (if length mic \<noteq> 4 \<or> \<not> py_isalnum mic then Inl (BadMic mic)
      else if cl \<le> op then Inl (OpenNotBeforeClose op cl)
      else if \<not> known_zone zone then Inl (BadTimezone zone)
      else Inr \<lparr>vc_mic = mic, vc_timezone = zone, vc_open = op, vc_close = cl, vc_holidays = holidays,
             vc_half_days = half_days\<rparr>)"

text \<open>Monday is 0; day 1 of the ordinals was one.\<close>

definition weekday :: "int \<Rightarrow> int" where
  "weekday day = (day + 6) mod 7"

definition is_trading_day :: "VenueCalendar \<Rightarrow> int \<Rightarrow> bool" where
  "is_trading_day cal day = (if 5 \<le> weekday day then False else day \<notin> set (vc_holidays cal))"

definition close_for_day :: "VenueCalendar \<Rightarrow> int \<Rightarrow> int" where
  "close_for_day cal day = (case map_of (vc_half_days cal) day of None \<Rightarrow> vc_close cal | Some half \<Rightarrow> half)"

definition open_at :: "VenueCalendar \<Rightarrow> wall \<Rightarrow> bool" where
  "open_at cal w = (case w of (day, t) \<Rightarrow>
     is_trading_day cal day \<and> vc_open cal \<le> t \<and> t < close_for_day cal day)"

definition is_open :: "(VenueCalendar \<Rightarrow> 'd \<Rightarrow> wall option) \<Rightarrow> VenueCalendar \<Rightarrow> 'd \<Rightarrow> calendar_error + bool" where
  "is_open to_local cal dt = (case to_local cal dt of None \<Rightarrow> Inl NaiveDatetime | Some w \<Rightarrow> Inr (open_at cal w))"

definition session_bounds :: "VenueCalendar \<Rightarrow> int \<Rightarrow> (wall \<times> wall) option" where
  "session_bounds cal day =
     (if \<not> is_trading_day cal day then None else Some ((day, vc_open cal), (day, close_for_day cal day)))"

definition MAX_LOOKAHEAD_DAYS :: nat where
  "MAX_LOOKAHEAD_DAYS = 366"

fun next_open_loop :: "nat \<Rightarrow> VenueCalendar \<Rightarrow> int \<Rightarrow> int \<Rightarrow> wall option" where
  "next_open_loop 0 cal day t = None"
| "next_open_loop (Suc n) cal day t =
     (case session_bounds cal day of
        None \<Rightarrow> next_open_loop n cal (day + 1) 0
      | Some (open_dt, close_dt) \<Rightarrow>
          if t < snd open_dt then Some open_dt
          else if t < snd close_dt then Some (day, t)
          else next_open_loop n cal (day + 1) 0)"

definition next_open :: "(VenueCalendar \<Rightarrow> 'd \<Rightarrow> wall option) \<Rightarrow> VenueCalendar \<Rightarrow> 'd \<Rightarrow> calendar_error + wall" where
  "next_open to_local cal dt =
     (case to_local cal dt of
        None \<Rightarrow> Inl NaiveDatetime
      | Some (day, t) \<Rightarrow> (case next_open_loop MAX_LOOKAHEAD_DAYS cal day t of
          None \<Rightarrow> Inl (NoSession (vc_mic cal)) | Some w \<Rightarrow> Inr w))"

section \<open>The catalog\<close>

definition clock :: "int \<Rightarrow> int \<Rightarrow> int" where
  "clock h m = (h * 60 + m) * 60 * 1000000"

definition plain_calendar :: "string \<Rightarrow> string \<Rightarrow> int \<Rightarrow> int \<Rightarrow> VenueCalendar" where
  "plain_calendar mic zone op cl = \<lparr>vc_mic = mic, vc_timezone = zone, vc_open = op, vc_close = cl,
     vc_holidays = [], vc_half_days = []\<rparr>"

definition BUILTIN_CALENDARS :: "(string, VenueCalendar) dict" where
  "BUILTIN_CALENDARS =
     [(''XNAS'', plain_calendar ''XNAS'' ''America/New_York'' (clock 9 30) (clock 16 0)),
      (''XNYS'', plain_calendar ''XNYS'' ''America/New_York'' (clock 9 30) (clock 16 0)),
      (''XLON'', plain_calendar ''XLON'' ''Europe/London'' (clock 8 0) (clock 16 30)),
      (''XHKG'', plain_calendar ''XHKG'' ''Asia/Hong_Kong'' (clock 9 30) (clock 16 0)),
      (''XTKS'', plain_calendar ''XTKS'' ''Asia/Tokyo'' (clock 9 0) (clock 15 0)),
      (''XETR'', plain_calendar ''XETR'' ''Europe/Berlin'' (clock 9 0) (clock 17 30))]"

definition builtin_calendar :: "string \<Rightarrow> calendar_error + VenueCalendar" where
  "builtin_calendar mic = (case map_of BUILTIN_CALENDARS mic of None \<Rightarrow> Inl (NoBuiltin mic) | Some cal \<Rightarrow> Inr cal)"

definition for_venue :: "(string, VenueCalendar) dict \<Rightarrow> string \<Rightarrow> calendar_error + VenueCalendar" where
  "for_venue overrides mic = (case map_of overrides mic of Some cal \<Rightarrow> Inr cal | None \<Rightarrow> builtin_calendar mic)"

section \<open>The next open instant\<close>

definition not_after :: "wall \<Rightarrow> wall \<Rightarrow> bool" where
  "not_after v w \<longleftrightarrow> fst v < fst w \<or> fst v = fst w \<and> snd v \<le> snd w"

text \<open>Half days close after the opening; the constructor does not check it.\<close>

definition sane_hours :: "VenueCalendar \<Rightarrow> bool" where
  "sane_hours cal \<longleftrightarrow> 0 \<le> vc_open cal \<and> (\<forall>day. vc_open cal < close_for_day cal day)"

text \<open>The first open instant from \<open>w\<close> on.\<close>

definition first_open :: "VenueCalendar \<Rightarrow> wall \<Rightarrow> wall \<Rightarrow> bool" where
  "first_open cal w v \<longleftrightarrow> open_at cal v \<and> not_after w v
     \<and> (\<forall>u. open_at cal u \<and> not_after w u \<longrightarrow> not_after v u)"

lemma first_open_later_day:
  assumes "\<And>u. open_at cal (day, u) \<Longrightarrow> u < t" "first_open cal (day + 1, 0) v" "0 \<le> vc_open cal"
  shows "first_open cal (day, t) v"
proof -
  have "not_after (day + 1, 0) u" if "open_at cal u" "not_after (day, t) u" for u
  proof (cases "fst u = day")
    case True
    then show ?thesis using that assms(1) [of "snd u"] by (cases u) (auto simp: not_after_def)
  next
    case False
    then show ?thesis using that assms(3) by (cases u) (auto simp: not_after_def open_at_def)
  qed
  then show ?thesis using assms(2) by (auto simp: first_open_def not_after_def)
qed

lemma next_open_loop_spec:
  assumes "sane_hours cal" "0 \<le> t"
  shows "case next_open_loop n cal day t of
      Some v \<Rightarrow> first_open cal (day, t) v \<and> fst v < day + int n
    | None \<Rightarrow> \<forall>d u. open_at cal (d, u) \<and> not_after (day, t) (d, u) \<longrightarrow> day + int n \<le> d"
  using assms(2)
proof (induction n arbitrary: day t)
  case (Suc n)
  have o: "0 \<le> vc_open cal" "vc_open cal < close_for_day cal day" using assms(1) by (simp_all add: sane_hours_def)
  have later: ?case if none: "\<And>u. open_at cal (day, u) \<Longrightarrow> u < t"
    and loop: "next_open_loop (Suc n) cal day t = next_open_loop n cal (day + 1) 0"
  proof (cases "next_open_loop n cal (day + 1) 0")
    case None
    have "day + int (Suc n) \<le> d" if "open_at cal (d, u)" "not_after (day, t) (d, u)" for d u
    proof (cases "d = day")
      case True
      then show ?thesis using that none [of u] by (auto simp: not_after_def)
    next
      case False
      then show ?thesis using that Suc.IH [where t = 0 and day = "day + 1"] None o(1) by (force simp: not_after_def open_at_def)
    qed
    then show ?thesis unfolding loop None by auto
  next
    case (Some v)
    then show ?thesis using Suc.IH [where t = 0 and day = "day + 1"] first_open_later_day [OF none _ o(1), where v = v] unfolding loop by simp
  qed
  show ?case
  proof (cases "is_trading_day cal day")
    case False
    then show ?thesis by (intro later) (simp_all add: open_at_def session_bounds_def)
  next
    case trading: True
    consider "t < vc_open cal" | "vc_open cal \<le> t" "t < close_for_day cal day" | "vc_open cal \<le> t" "close_for_day cal day \<le> t"
      by linarith
    then show ?thesis
    proof cases
      case 1
      then show ?thesis using trading o
        by (auto simp: session_bounds_def first_open_def not_after_def open_at_def)
    next
      case 2
      then show ?thesis using trading
        by (auto simp: session_bounds_def first_open_def not_after_def open_at_def)
    next
      case 3
      then show ?thesis using trading by (intro later) (auto simp: open_at_def session_bounds_def)
    qed
  qed
qed (auto simp: not_after_def)

text \<open>
  \<open>next_open\<close> gives the earliest open instant: when half days close after the opening, its answer is an instant at
  which the venue is open, not before the given one, and no open instant lies between; it fails
  exactly when the venue has no session on the given day and the 365 days after it (a naive
  datetime apart).
\<close>

theorem next_open_is_earliest:
  assumes "sane_hours cal" "to_local cal dt = Some w" "0 \<le> snd w"
  shows "(\<forall>v. next_open to_local cal dt = Inr v \<longrightarrow> first_open cal w v)
    \<and> ((\<exists>e. next_open to_local cal dt = Inl e) \<longleftrightarrow>
         (\<forall>v. open_at cal v \<and> not_after w v \<longrightarrow> fst w + 366 \<le> fst v))"
proof -
  obtain day t where w: "w = (day, t)" by (cases w)
  note L = next_open_loop_spec [OF assms(1), where t = t and n = MAX_LOOKAHEAD_DAYS and day = day]
  show ?thesis
  proof (cases "next_open_loop MAX_LOOKAHEAD_DAYS cal day t")
    case None
    then show ?thesis using L assms(2,3) by (simp add: next_open_def w MAX_LOOKAHEAD_DAYS_def)
  next
    case (Some v)
    then have v: "first_open cal w v" "fst v < day + 366" using L assms(3) by (simp_all add: w MAX_LOOKAHEAD_DAYS_def)
    then have "open_at cal v \<and> not_after w v \<and> \<not> fst w + 366 \<le> fst v" by (simp add: w first_open_def)
    then show ?thesis using v assms(2) Some by (cases v) (simp add: next_open_def w, metis)
  qed
qed

text \<open>Saturday noon in New York: the next session opens on Monday at half past nine.\<close>

text \<open>A half day that closes before the opening: the answer is an instant at which the venue is closed.\<close>

lemma next_open_when_closed:
  assumes "is_trading_day cal day" "map_of (vc_half_days cal) day = Some half" "half \<le> vc_open cal" "t < vc_open cal"
  shows "next_open (\<lambda>c w. Some w) cal (day, t) = Inr (day, vc_open cal) \<and> \<not> open_at cal (day, vc_open cal)"
  using assms by (simp add: next_open_def MAX_LOOKAHEAD_DAYS_def numeral_eq_Suc session_bounds_def open_at_def close_for_day_def)

end
