(* ===== verification/MarketData.thy ===== *)
theory MarketData
  imports OrderManager
begin

text \<open>
  Market snapshots, \<open>engine/data/market_state.py\<close>: the state a strategy sees, its indicators, and the builder
  that cuts a data frame at a point of simulated time.

  A data frame is its index (microseconds; with a zone they are instants), its columns and one
  function of cells per row, \<open>None\<close> for NaN.  A zone is the pair of its two conversions, from
  wall-clock time to instants and back.  The cleaning rules of \<open>DataValidator\<close> and the data provider
  are arguments.  A bar holds floats: a cell that a cleaning rule leaves empty has no bar.
\<close>

section \<open>Python sequences\<close>

text \<open>\<open>xs[i:]\<close>, \<open>xs[:i]\<close> and \<open>xs[i]\<close>; a negative index counts from the end.\<close>

definition slice_from :: "int \<Rightarrow> 'a list \<Rightarrow> 'a list" where
  "slice_from i xs = drop (nat (if i < 0 then i + int (length xs) else i)) xs"

definition slice_upto :: "int \<Rightarrow> 'a list \<Rightarrow> 'a list" where
  "slice_upto i xs = take (nat (if i < 0 then i + int (length xs) else i)) xs"

definition py_nth :: "'a list \<Rightarrow> int \<Rightarrow> 'a option" where
  "py_nth xs i = (let k = (if i < 0 then i + int (length xs) else i) in
     if 0 \<le> k \<and> k < int (length xs) then Some (xs ! nat k) else None)"

text \<open>\<open>xs[j]\<close> for all \<open>j\<close> of \<open>range(i, len(xs))\<close>.\<close>

definition items_from :: "int \<Rightarrow> 'a list \<Rightarrow> 'a list option" where
  "items_from i xs = those (map (py_nth xs) [i..int (length xs) - 1])"

lemma slice_from_nonneg: "0 \<le> i \<Longrightarrow> slice_from i xs = drop (nat i) xs"
  by (simp add: slice_from_def)

lemma slice_from_tail: "0 < n \<Longrightarrow> n \<le> int (length xs) \<Longrightarrow> slice_from (- n) xs = drop (length xs - nat n) xs"
  by (simp add: slice_from_def nat_diff_distrib)

lemma slice_upto_nonneg: "0 \<le> i \<Longrightarrow> slice_upto i xs = take (nat i) xs"
  by (simp add: slice_upto_def)

lemma slice_from_subset: "set (slice_from i xs) \<subseteq> set xs"
  by (simp add: slice_from_def set_drop_subset)

section \<open>Market states and indicators\<close>

datatype stamp = Naive int | Aware int int

record Bar =
  bar_timestamp :: int
  bar_open :: rat
  bar_high :: rat
  bar_low :: rat
  bar_close :: rat
  bar_volume :: int

record MarketState =
  ms_timestamp :: stamp
  ms_prices :: "(string, rat) dict"
  ms_volumes :: "(string, int) dict"
  ms_ohlcv :: "(string, Bar list) dict"

datatype md_error =
  NoDataFor string
| InsufficientBars string nat int
| NaNDetected string string "int list"
| DuplicateTimestamps string "int list"
| InsufficientAfterCleaning string nat int
| LookAhead string int stamp
| MissingColumn string
| EmptyCell string int
| ProviderFailed string
| ZeroDivision
| IndexOutOfRange
| ZipMismatch
| ComplexRoot

text \<open>The exceptions of class \<open>ValidationError\<close>.\<close>

fun is_validation_error :: "md_error \<Rightarrow> bool" where
  "is_validation_error (NoDataFor s) = True"
| "is_validation_error (InsufficientBars s n m) = True"
| "is_validation_error (NaNDetected s c ts) = True"
| "is_validation_error (DuplicateTimestamps s ts) = True"
| "is_validation_error (InsufficientAfterCleaning s n m) = True"
| "is_validation_error e = False"

definition bars_of :: "string \<Rightarrow> MarketState \<Rightarrow> Bar list" where
  "bars_of symbol ms = (case map_of (ms_ohlcv ms) symbol of None \<Rightarrow> [] | Some bars \<Rightarrow> bars)"

definition ms_latest :: "string \<Rightarrow> MarketState \<Rightarrow> rat option" where
  "ms_latest symbol ms = map_of (ms_prices ms) symbol"

definition sma :: "string \<Rightarrow> int \<Rightarrow> MarketState \<Rightarrow> md_error + rat option" where
  "sma symbol period ms =
     (let bars = bars_of symbol ms in
      if int (length bars) < period then Inr None
      else let closes = map bar_close (slice_from (- period) bars) in
        if period = 0 then Inl ZeroDivision else Inr (Some (fdiv (fsum closes) (fint period))))"

text \<open>\<open>x ** 0.5\<close> of a float is an argument; for a negative one Python answers a complex number.\<close>

definition std :: "(rat \<Rightarrow> rat) \<Rightarrow> string \<Rightarrow> int \<Rightarrow> MarketState \<Rightarrow> md_error + rat option" where
  "std pow_half symbol period ms =
     (let bars = bars_of symbol ms in
      if int (length bars) < period then Inr None
      else let closes = map bar_close (slice_from (- period) bars) in
        if period = 0 then Inl ZeroDivision
        else
          let mean = fdiv (fsum closes) (fint period);
              variance = fdiv (fsum (map (\<lambda>c. fmul (fsub c mean) (fsub c mean)) closes)) (fint period)
          in if variance < 0 then Inl ComplexRoot else Inr (Some (pow_half variance)))"

definition ema_step :: "rat \<Rightarrow> rat \<Rightarrow> rat \<Rightarrow> rat" where
  "ema_step multiplier value price = fadd (fmul (fsub price value) multiplier) value"

definition ema :: "string \<Rightarrow> int \<Rightarrow> MarketState \<Rightarrow> md_error + rat option" where
  "ema symbol period ms =
     (let bars = bars_of symbol ms in
      if int (length bars) < period then Inr None
      else if period = - 1 \<or> period = 0 then Inl ZeroDivision
      else
        let closes = map bar_close bars;
            multiplier = fdiv 2 (fint (period + 1));
            start = fdiv (fsum (slice_upto period closes)) (fint period)
        in Inr (Some (foldl (ema_step multiplier) start (slice_from period closes))))"

fun deltas :: "rat list \<Rightarrow> rat list" where
  "deltas (x # y # zs) = fsub y x # deltas (y # zs)"
| "deltas xs = []"

definition wilder_step :: "int \<Rightarrow> rat \<times> rat \<Rightarrow> rat \<times> rat \<Rightarrow> rat \<times> rat" where
  "wilder_step period avg x =
     (let smooth = (\<lambda>a g. fdiv (fadd (fmul a (fint (period - 1))) g) (fint period))
      in (smooth (fst avg) (fst x), smooth (snd avg) (snd x)))"

definition rsi :: "string \<Rightarrow> int \<Rightarrow> MarketState \<Rightarrow> md_error + rat option" where
  "rsi symbol period ms =
     (let bars = bars_of symbol ms in
      if int (length bars) < period + 1 then Inr None
      else
        let ds = deltas (map bar_close bars);
            gains = map (\<lambda>d. max 0 d) ds;
            losses = map (\<lambda>d. max 0 (- d)) ds
        in if period = 0 then Inl ZeroDivision
        else case items_from period (zip gains losses) of
          None \<Rightarrow> Inl IndexOutOfRange
        | Some later \<Rightarrow>
            let (avg_gain, avg_loss) = foldl (wilder_step period)
                  (fdiv (fsum (slice_upto period gains)) (fint period),
                   fdiv (fsum (slice_upto period losses)) (fint period)) later
            in if avg_loss = 0 then Inr (Some 100)
               else let rs = fdiv avg_gain avg_loss in
                 if fadd 1 rs = 0 then Inl ZeroDivision
                 else Inr (Some (fsub 100 (fdiv 100 (fadd 1 rs)))))"

fun ema_values :: "rat \<Rightarrow> rat \<Rightarrow> rat list \<Rightarrow> rat list" where
  "ema_values multiplier value [] = [value]"
| "ema_values multiplier value (p # ps) = value # ema_values multiplier (ema_step multiplier value p) ps"

definition compute_ema_series :: "int \<Rightarrow> rat list \<Rightarrow> md_error + rat list" where
  "compute_ema_series period values =
     (if int (length values) < period then Inr []
      else if period = - 1 \<or> period = 0 then Inl ZeroDivision
      else Inr (ema_values (fdiv 2 (fint (period + 1)))
             (fdiv (fsum (slice_upto period values)) (fint period)) (slice_from period values)))"

definition macd :: "string \<Rightarrow> int \<Rightarrow> int \<Rightarrow> int \<Rightarrow> MarketState \<Rightarrow> md_error + (rat \<times> rat \<times> rat) option" where
  "macd symbol fast slow signal ms =
     (let bars = bars_of symbol ms in
      if int (length bars) < slow + signal then Inr None
      else
        let closes = map bar_close bars in
        case compute_ema_series fast closes of
          Inl e \<Rightarrow> Inl e
        | Inr fast_ema \<Rightarrow> (case compute_ema_series slow closes of
            Inl e \<Rightarrow> Inl e
          | Inr slow_ema \<Rightarrow>
              let rest = slice_from (int (length fast_ema) - int (length slow_ema)) fast_ema in
              if length rest \<noteq> length slow_ema then Inl ZipMismatch
              else
                let macd_line = map2 fsub rest slow_ema in
                (case compute_ema_series signal macd_line of
                   Inl e \<Rightarrow> Inl e
                 | Inr signal_line \<Rightarrow>
                     if macd_line = [] \<or> signal_line = [] then Inr None
                     else Inr (Some (last macd_line, last signal_line, fsub (last macd_line) (last signal_line))))))"

definition get_window :: "int \<Rightarrow> MarketState \<Rightarrow> MarketState" where
  "get_window n ms = ms\<lparr>ms_ohlcv := map (\<lambda>(symbol, bars).
     (symbol, if n < int (length bars) then slice_from (- n) bars else bars)) (ms_ohlcv ms)\<rparr>"

section \<open>Data frames\<close>

record frame =
  df_tz :: "((int \<Rightarrow> int) \<times> (int \<Rightarrow> int)) option"
  df_columns :: "string list"
  df_rows :: "(int \<times> (string \<Rightarrow> rat option)) list"

definition df_empty :: "frame \<Rightarrow> bool" where
  "df_empty df \<longleftrightarrow> df_rows df = [] \<or> df_columns df = []"

text \<open>\<open>index.tolist()\<close>.\<close>

definition index_stamp :: "frame \<Rightarrow> int \<Rightarrow> stamp" where
  "index_stamp df t = (case df_tz df of None \<Rightarrow> Naive t | Some (localize, wall) \<Rightarrow> Aware t (wall t))"

definition cutoff :: "frame \<Rightarrow> stamp \<Rightarrow> int" where
  "cutoff df ts = (case (df_tz df, ts) of
     (Some (localize, wall), Naive w) \<Rightarrow> localize w
   | (None, Aware i w) \<Rightarrow> w
   | (Some _, Aware i w) \<Rightarrow> i
   | (None, Naive w) \<Rightarrow> w)"

definition slice_to_timestamp :: "frame \<Rightarrow> stamp \<Rightarrow> frame" where
  "slice_to_timestamp df ts = df\<lparr>df_rows := filter (\<lambda>row. fst row \<le> cutoff df ts) (df_rows df)\<rparr>"

definition OHLCV :: "string list" where
  "OHLCV = [''open'', ''high'', ''low'', ''close'', ''volume'']"

definition nan_rows :: "string \<Rightarrow> frame \<Rightarrow> int list" where
  "nan_rows col df = map fst (filter (\<lambda>row. snd row col = None) (df_rows df))"

fun duplicated :: "int list \<Rightarrow> int list \<Rightarrow> int list" where
  "duplicated seen [] = []"
| "duplicated seen (t # ts) = (if t \<in> set seen then t # duplicated seen ts else duplicated (t # seen) ts)"

definition validate_frame :: "int \<Rightarrow> string \<Rightarrow> frame \<Rightarrow> md_error option" where
  "validate_frame min_bars symbol df =
     (if int (length (df_rows df)) < min_bars then Some (InsufficientBars symbol (length (df_rows df)) min_bars)
      else case find (\<lambda>col. col \<in> set (df_columns df) \<and> nan_rows col df \<noteq> []) OHLCV of
        Some col \<Rightarrow> Some (NaNDetected symbol col (nan_rows col df))
      | None \<Rightarrow>
          (case duplicated [] (map fst (df_rows df)) of
             [] \<Rightarrow> None
           | dups \<Rightarrow> Some (DuplicateTimestamps symbol dups)))"

text \<open>\<open>int()\<close> of a float cuts towards zero.\<close>

definition cut_int :: "rat \<Rightarrow> int" where
  "cut_int x = (if x < 0 then \<lceil>x\<rceil> else \<lfloor>x\<rfloor>)"

definition cell :: "frame \<Rightarrow> int \<times> (string \<Rightarrow> rat option) \<Rightarrow> string \<Rightarrow> md_error + rat" where
  "cell df row col =
     (if col \<notin> set (df_columns df) then Inl (MissingColumn col)
      else case snd row col of None \<Rightarrow> Inl (EmptyCell col (fst row)) | Some x \<Rightarrow> Inr x)"

definition row_bar :: "frame \<Rightarrow> int \<times> (string \<Rightarrow> rat option) \<Rightarrow> md_error + Bar" where
  "row_bar df row =
     (case cell df row ''open'' of Inl e \<Rightarrow> Inl e | Inr op \<Rightarrow>
      case cell df row ''high'' of Inl e \<Rightarrow> Inl e | Inr hi \<Rightarrow>
      case cell df row ''low'' of Inl e \<Rightarrow> Inl e | Inr lo \<Rightarrow>
      case cell df row ''close'' of Inl e \<Rightarrow> Inl e | Inr cl \<Rightarrow>
      case cell df row ''volume'' of Inl e \<Rightarrow> Inl e | Inr vol \<Rightarrow>
        Inr \<lparr>bar_timestamp = fst row, bar_open = op, bar_high = hi, bar_low = lo, bar_close = cl,
             bar_volume = cut_int vol\<rparr>)"

fun rows_bars :: "frame \<Rightarrow> (int \<times> (string \<Rightarrow> rat option)) list \<Rightarrow> md_error + Bar list" where
  "rows_bars df [] = Inr []"
| "rows_bars df (row # rows) = (case row_bar df row of Inl e \<Rightarrow> Inl e
     | Inr bar \<Rightarrow> (case rows_bars df rows of Inl e \<Rightarrow> Inl e | Inr bars \<Rightarrow> Inr (bar # bars)))"

definition df_to_bars :: "frame \<Rightarrow> md_error + Bar list" where
  "df_to_bars df = rows_bars df (df_rows df)"

text \<open>
  The debug assertion: a zone-less side is taken as UTC, so both sides compare as instants of UTC.
\<close>

definition late_bar :: "stamp \<Rightarrow> Bar \<Rightarrow> bool" where
  "late_bar ts bar = ((case ts of Naive w \<Rightarrow> w | Aware i w \<Rightarrow> i) < bar_timestamp bar)"

definition assert_no_look_ahead :: "Bar list \<Rightarrow> stamp \<Rightarrow> string \<Rightarrow> md_error option" where
  "assert_no_look_ahead bars ts symbol =
     (case find (late_bar ts) bars of None \<Rightarrow> None | Some bar \<Rightarrow> Some (LookAhead symbol (bar_timestamp bar) ts))"

section \<open>The builder\<close>

record 'r MarketStateBuilder =
  mb_min_bars :: int
  mb_debug :: bool
  mb_use_validator :: bool
  mb_last_report :: "'r option"

definition new_builder :: "int \<Rightarrow> bool \<Rightarrow> bool \<Rightarrow> 'r MarketStateBuilder" where
  "new_builder min_bars debug use_validator = \<lparr>mb_min_bars = min_bars, mb_debug = debug,
     mb_use_validator = use_validator, mb_last_report = None\<rparr>"

definition start_report :: "'r \<Rightarrow> 'r MarketStateBuilder \<Rightarrow> 'r MarketStateBuilder" where
  "start_report empty_report b = (if mb_use_validator b then b\<lparr>mb_last_report := Some empty_report\<rparr> else b)"

text \<open>The cleaning step both methods share.\<close>

definition clean_frame ::
  "(frame \<Rightarrow> string \<Rightarrow> 'r \<Rightarrow> frame \<times> 'r) \<Rightarrow> string \<Rightarrow> frame \<Rightarrow> 'r MarketStateBuilder
     \<Rightarrow> (md_error + frame) \<times> 'r MarketStateBuilder" where
  "clean_frame clean symbol df b =
     (if \<not> mb_use_validator b then (Inr df, b)
      else case mb_last_report b of
        None \<Rightarrow> (Inr df, b)
      | Some report \<Rightarrow>
          (case clean df symbol report of
             (df', report') \<Rightarrow>
               (if int (length (df_rows df')) < mb_min_bars b
                then Inl (InsufficientAfterCleaning symbol (length (df_rows df')) (mb_min_bars b)) else Inr df',
                b\<lparr>mb_last_report := Some report'\<rparr>)))"

definition put_symbol :: "string \<Rightarrow> Bar list \<Rightarrow> MarketState \<Rightarrow> MarketState" where
  "put_symbol symbol bars ms =
     (let ms' = (if bars = [] then ms
                 else ms\<lparr>ms_prices := AList.update symbol (bar_close (last bars)) (ms_prices ms),
                         ms_volumes := AList.update symbol (bar_volume (last bars)) (ms_volumes ms)\<rparr>)
      in ms'\<lparr>ms_ohlcv := AList.update symbol bars (ms_ohlcv ms')\<rparr>)"

definition last_bars :: "int \<Rightarrow> Bar list \<Rightarrow> Bar list" where
  "last_bars n bars = (if n < int (length bars) then slice_from (- n) bars else bars)"

text \<open>The body of the loop of \<open>build_for_backtest\<close> up to the bars of a symbol.\<close>

definition backtest_bars ::
  "(frame \<Rightarrow> string \<Rightarrow> 'r \<Rightarrow> frame \<times> 'r) \<Rightarrow> (string, frame) dict \<Rightarrow> stamp \<Rightarrow> string
     \<Rightarrow> 'r MarketStateBuilder \<Rightarrow> (md_error + Bar list) \<times> 'r MarketStateBuilder" where
  "backtest_bars clean data ts symbol b =
     (case map_of data symbol of
        None \<Rightarrow> (Inl (NoDataFor symbol), b)
      | Some df0 \<Rightarrow>
          let df = slice_to_timestamp df0 ts in
          (case validate_frame (mb_min_bars b) symbol df of
             Some e \<Rightarrow> (Inl e, b)
           | None \<Rightarrow>
               (case clean_frame clean symbol df b of
                  (Inl e, b') \<Rightarrow> (Inl e, b')
                | (Inr df', b') \<Rightarrow>
                    (case df_to_bars df' of
                       Inl e \<Rightarrow> (Inl e, b')
                     | Inr bars \<Rightarrow>
                         (case (if mb_debug b' then assert_no_look_ahead (last_bars (mb_min_bars b') bars) ts symbol
                                else None) of
                            Some e \<Rightarrow> (Inl e, b')
                          | None \<Rightarrow> (Inr (last_bars (mb_min_bars b') bars), b'))))))"

fun backtest_symbols ::
  "(frame \<Rightarrow> string \<Rightarrow> 'r \<Rightarrow> frame \<times> 'r) \<Rightarrow> (string, frame) dict \<Rightarrow> stamp \<Rightarrow> string list \<Rightarrow> MarketState
     \<Rightarrow> 'r MarketStateBuilder \<Rightarrow> (md_error + MarketState) \<times> 'r MarketStateBuilder" where
  "backtest_symbols clean data ts [] ms b = (Inr ms, b)"
| "backtest_symbols clean data ts (symbol # symbols) ms b =
     (case backtest_bars clean data ts symbol b of
        (Inl e, b') \<Rightarrow> (Inl e, b')
      | (Inr bars, b') \<Rightarrow> backtest_symbols clean data ts symbols (put_symbol symbol bars ms) b')"

definition empty_state :: "stamp \<Rightarrow> (string, rat) dict \<Rightarrow> MarketState" where
  "empty_state ts prices = \<lparr>ms_timestamp = ts, ms_prices = prices, ms_volumes = [], ms_ohlcv = []\<rparr>"

definition build_for_backtest ::
  "(frame \<Rightarrow> string \<Rightarrow> 'r \<Rightarrow> frame \<times> 'r) \<Rightarrow> 'r \<Rightarrow> (string, frame) dict \<Rightarrow> stamp \<Rightarrow> string list
     \<Rightarrow> 'r MarketStateBuilder \<Rightarrow> (md_error + MarketState) \<times> 'r MarketStateBuilder" where
  "build_for_backtest clean empty_report data ts symbols b =
     backtest_symbols clean data ts symbols (empty_state ts []) (start_report empty_report b)"

text \<open>Live: prices come from the provider, bars and volumes from the frames it has.\<close>

fun live_symbols ::
  "(frame \<Rightarrow> string \<Rightarrow> 'r \<Rightarrow> frame \<times> 'r) \<Rightarrow> (string \<Rightarrow> md_error + frame option) \<Rightarrow> string list \<Rightarrow> MarketState
     \<Rightarrow> 'r MarketStateBuilder \<Rightarrow> (md_error + MarketState) \<times> 'r MarketStateBuilder" where
  "live_symbols clean get_ohlcv [] ms b = (Inr ms, b)"
| "live_symbols clean get_ohlcv (symbol # symbols) ms b =
     (case get_ohlcv symbol of
        Inl e \<Rightarrow> (Inl e, b)
      | Inr None \<Rightarrow> live_symbols clean get_ohlcv symbols ms b
      | Inr (Some df) \<Rightarrow>
          if df_empty df then live_symbols clean get_ohlcv symbols ms b
          else (case validate_frame (mb_min_bars b) symbol df of
             Some e \<Rightarrow> (Inl e, b)
           | None \<Rightarrow>
               (case clean_frame clean symbol df b of
                  (Inl e, b') \<Rightarrow> (Inl e, b')
                | (Inr df', b') \<Rightarrow>
                    (case df_to_bars df' of
                       Inl e \<Rightarrow> (Inl e, b')
                     | Inr bars0 \<Rightarrow>
                         let bars = slice_from (- mb_min_bars b') bars0;
                             ms' = (if bars = [] then ms
                                    else ms\<lparr>ms_volumes := AList.update symbol (bar_volume (last bars)) (ms_volumes ms)\<rparr>)
                         in live_symbols clean get_ohlcv symbols
                              (ms'\<lparr>ms_ohlcv := AList.update symbol bars (ms_ohlcv ms')\<rparr>) b'))))"

definition build_for_live ::
  "(frame \<Rightarrow> string \<Rightarrow> 'r \<Rightarrow> frame \<times> 'r) \<Rightarrow> 'r \<Rightarrow> (string list \<Rightarrow> md_error + (string, rat) dict)
     \<Rightarrow> (string \<Rightarrow> md_error + frame option) \<Rightarrow> stamp \<Rightarrow> string list
     \<Rightarrow> 'r MarketStateBuilder \<Rightarrow> (md_error + MarketState) \<times> 'r MarketStateBuilder" where
  "build_for_live clean empty_report get_multiple_prices get_ohlcv now symbols b =
     (let b0 = start_report empty_report b in
      case get_multiple_prices symbols of
        Inl e \<Rightarrow> (Inl e, b0)
      | Inr prices \<Rightarrow> live_symbols clean get_ohlcv symbols (empty_state now prices) b0)"

section \<open>No look-ahead\<close>

text \<open>Equal up to \<open>ts\<close>: the frames may differ in any later row.\<close>

definition same_past :: "stamp \<Rightarrow> string list \<Rightarrow> (string, frame) dict \<Rightarrow> (string, frame) dict \<Rightarrow> bool" where
  "same_past ts symbols data data' \<longleftrightarrow> (\<forall>s\<in>set symbols.
     map_option (\<lambda>df. slice_to_timestamp df ts) (map_of data s) =
     map_option (\<lambda>df. slice_to_timestamp df ts) (map_of data' s))"

lemma backtest_bars_past:
  assumes "same_past ts [symbol] data data'"
  shows "backtest_bars clean data ts symbol b = backtest_bars clean data' ts symbol b"
  using assms by (auto simp: same_past_def backtest_bars_def split: option.splits)

lemma build_past:
  assumes "same_past ts symbols data data'"
  shows "build_for_backtest clean r data ts symbols b = build_for_backtest clean r data' ts symbols b"
proof -
  have "backtest_symbols clean data ts symbols ms b = backtest_symbols clean data' ts symbols ms b" for ms b
    using assms
  proof (induction symbols arbitrary: ms b)
    case (Cons s ss)
    have "backtest_bars clean data ts s b = backtest_bars clean data' ts s b"
      using Cons.prems by (intro backtest_bars_past) (simp add: same_past_def)
    moreover have "same_past ts ss data data'" using Cons.prems by (simp add: same_past_def)
    ultimately show ?case using Cons.IH by (simp split: prod.splits sum.splits)
  qed simp
  then show ?thesis by (simp add: build_for_backtest_def)
qed

lemma rows_bars_times: "rows_bars df rows = Inr bars \<Longrightarrow> map bar_timestamp bars = map fst rows"
  by (induction rows arbitrary: bars) (auto simp: row_bar_def split: sum.splits)

lemma df_to_bars_length: "df_to_bars df = Inr bars \<Longrightarrow> length bars = length (df_rows df)"
  using rows_bars_times [of df "df_rows df" bars] map_eq_imp_length_eq by (fastforce simp: df_to_bars_def)

lemma df_to_bars_times: "df_to_bars df = Inr bars \<Longrightarrow> bar \<in> set bars \<Longrightarrow> bar_timestamp bar \<in> fst ` set (df_rows df)"
  using rows_bars_times [of df "df_rows df" bars] by (metis df_to_bars_def image_eqI list.set_map)

lemma last_bars_subset: "set (last_bars n bars) \<subseteq> set bars"
  by (auto simp: last_bars_def dest: subsetD [OF slice_from_subset])

lemma backtest_bars_without_validator:
  assumes "\<not> mb_use_validator b" "backtest_bars clean data ts symbol b = (Inr bars, b')"
  shows "b' = b \<and> (\<exists>df all. map_of data symbol = Some df \<and> df_to_bars (slice_to_timestamp df ts) = Inr all
     \<and> mb_min_bars b \<le> int (length all) \<and> bars = last_bars (mb_min_bars b) all)"
  using assms df_to_bars_length
  by (auto simp: backtest_bars_def clean_frame_def validate_frame_def Let_def
      split: option.splits sum.splits if_splits list.splits)

lemma map_of_put_symbol:
  "map_of (ms_ohlcv (put_symbol s bars ms)) = (map_of (ms_ohlcv ms))(s \<mapsto> bars)"
  "ms_timestamp (put_symbol s bars ms) = ms_timestamp ms"
  "bars \<noteq> [] \<Longrightarrow> map_of (ms_prices (put_symbol s bars ms)) = (map_of (ms_prices ms))(s \<mapsto> bar_close (last bars))"
  "bars = [] \<Longrightarrow> ms_prices (put_symbol s bars ms) = ms_prices ms"
  by (simp_all add: put_symbol_def Let_def)

text \<open>What a strategy sees of a symbol: its last \<open>min_bars\<close> bars up to \<open>ts\<close>, and the last close as its price.\<close>

definition sees_past :: "(string, frame) dict \<Rightarrow> stamp \<Rightarrow> int \<Rightarrow> MarketState \<Rightarrow> string \<Rightarrow> bool" where
  "sees_past data ts n ms s \<longleftrightarrow> (\<exists>df all. map_of data s = Some df
     \<and> df_to_bars (slice_to_timestamp df ts) = Inr all \<and> n \<le> int (length all)
     \<and> bars_of s ms = last_bars n all
     \<and> (bars_of s ms \<noteq> [] \<longrightarrow> map_of (ms_prices ms) s = Some (bar_close (last all))))"

lemma last_last_bars: "last_bars n all \<noteq> [] \<Longrightarrow> last (last_bars n all) = last all"
  by (auto simp: last_bars_def slice_from_def last_drop split: if_splits)

lemma backtest_symbols_sees:
  assumes "\<not> mb_use_validator b" "backtest_symbols clean data ts symbols ms b = (Inr ms', b')"
  shows "b' = b \<and> ms_timestamp ms' = ms_timestamp ms
    \<and> (\<forall>s. (s \<in> set symbols \<longrightarrow> sees_past data ts (mb_min_bars b) ms' s)
         \<and> (s \<notin> set symbols \<longrightarrow> map_of (ms_ohlcv ms') s = map_of (ms_ohlcv ms) s
              \<and> map_of (ms_prices ms') s = map_of (ms_prices ms) s))"
  using assms(2)
proof (induction symbols arbitrary: ms)
  case (Cons x xs)
  then obtain bars b1 where x: "backtest_bars clean data ts x b = (Inr bars, b1)"
    by (auto split: prod.splits sum.splits)
  then obtain df all where all: "b1 = b" "map_of data x = Some df" "df_to_bars (slice_to_timestamp df ts) = Inr all"
      "mb_min_bars b \<le> int (length all)" "bars = last_bars (mb_min_bars b) all"
    using backtest_bars_without_validator [OF assms(1) x] by blast
  let ?ms = "put_symbol x bars ms"
  have IH: "b' = b \<and> ms_timestamp ms' = ms_timestamp ?ms
    \<and> (\<forall>s. (s \<in> set xs \<longrightarrow> sees_past data ts (mb_min_bars b) ms' s)
         \<and> (s \<notin> set xs \<longrightarrow> map_of (ms_ohlcv ms') s = map_of (ms_ohlcv ?ms) s
              \<and> map_of (ms_prices ms') s = map_of (ms_prices ?ms) s))"
    using Cons x all(1) by simp
  have "sees_past data ts (mb_min_bars b) ms' x" if "x \<notin> set xs"
    using IH that all last_last_bars [of "mb_min_bars b" all]
    by (auto simp: sees_past_def bars_of_def map_of_put_symbol)
  moreover have "map_of (ms_prices ?ms) s = map_of (ms_prices ms) s" if "s \<noteq> x" for s
    using that by (cases "bars = []") (simp_all add: map_of_put_symbol)
  ultimately show ?case using IH by (auto simp: map_of_put_symbol)
qed simp

text \<open>
  No look-ahead: the snapshot that \<open>build_for_backtest\<close> makes at a simulated time does not depend on any row
  after it (two data sets with the same past give the same answer, error or not, whatever the
  cleaning rules do), and without cleaning every symbol shows exactly its last \<open>min_bars\<close> bars up
  to that time, with the last close as the price.
\<close>

theorem backtest_state_is_causal:
  assumes "same_past ts symbols data data'"
    and "build_for_backtest clean r data ts symbols b = (res, b')"
  shows "build_for_backtest clean r data' ts symbols b = (res, b')
    \<and> (\<not> mb_use_validator b \<longrightarrow> (\<forall>ms. res = Inr ms \<longrightarrow> ms_timestamp ms = ts
          \<and> (\<forall>s\<in>set symbols. sees_past data ts (mb_min_bars b) ms s)))"
proof
  show "build_for_backtest clean r data' ts symbols b = (res, b')"
    using build_past [OF assms(1)] assms(2) by metis
  show "\<not> mb_use_validator b \<longrightarrow> (\<forall>ms. res = Inr ms \<longrightarrow> ms_timestamp ms = ts
      \<and> (\<forall>s\<in>set symbols. sees_past data ts (mb_min_bars b) ms s))"
    using backtest_symbols_sees [of b clean data ts symbols "empty_state ts []" _ b'] assms(2)
    by (auto simp: build_for_backtest_def start_report_def empty_state_def)
qed

text \<open>Two days, and a third that only one of the two data sets has.\<close>

definition day_row :: "int \<Rightarrow> rat \<Rightarrow> int \<times> (string \<Rightarrow> rat option)" where
  "day_row t c = (t, \<lambda>col. Some c)"

definition sample_frame :: "(int \<times> (string \<Rightarrow> rat option)) list \<Rightarrow> frame" where
  "sample_frame rows = \<lparr>df_tz = None, df_columns = OHLCV, df_rows = rows\<rparr>"

lemma sample_bars:
  "df_to_bars (sample_frame [day_row 1 5, day_row 2 7]) =
     Inr [\<lparr>bar_timestamp = 1, bar_open = 5, bar_high = 5, bar_low = 5, bar_close = 5, bar_volume = 5\<rparr>,
          \<lparr>bar_timestamp = 2, bar_open = 7, bar_high = 7, bar_low = 7, bar_close = 7, bar_volume = 7\<rparr>]"
  by (simp add: df_to_bars_def sample_frame_def day_row_def row_bar_def cell_def OHLCV_def cut_int_def)

lemma sample_slice:
  "slice_to_timestamp (sample_frame [day_row 1 5, day_row 2 7, day_row 3 9]) (Naive 2) = sample_frame [day_row 1 5, day_row 2 7]"
  "slice_to_timestamp (sample_frame [day_row 1 5, day_row 2 7]) (Naive 2) = sample_frame [day_row 1 5, day_row 2 7]"
  by (simp_all add: slice_to_timestamp_def sample_frame_def cutoff_def day_row_def)

text \<open>
  The debug guard agrees with the cut when the zones do: with an index stamp of the frame it never
  fires.  With a zone-less stamp and a zoned index it compares another instant than the cut does.
\<close>

lemma guard_never_fires:
  assumes "df_to_bars (slice_to_timestamp df (index_stamp df t)) = Inr bars"
  shows "assert_no_look_ahead (last_bars n bars) (index_stamp df t) symbol = None"
proof -
  have "\<not> late_bar (index_stamp df t) bar" if "bar \<in> set (last_bars n bars)" for bar
    using df_to_bars_times [OF assms] that last_bars_subset [of n bars]
    by (force simp: late_bar_def index_stamp_def slice_to_timestamp_def cutoff_def split: option.splits)
  then show ?thesis by (auto simp: assert_no_look_ahead_def find_None_iff split: option.splits)
qed

lemma guard_rejects_the_past:
  assumes "df_tz df = Some (localize, wall)" "w < localize w" "localize w \<in> fst ` set (df_rows df)"
    and "df_to_bars (slice_to_timestamp df (Naive w)) = Inr bars" "int (length bars) \<le> n"
  shows "assert_no_look_ahead (last_bars n bars) (Naive w) symbol \<noteq> None"
proof -
  have "localize w \<in> fst ` set (df_rows (slice_to_timestamp df (Naive w)))"
    using assms(1,3) by (force simp: slice_to_timestamp_def cutoff_def)
  then have "localize w \<in> bar_timestamp ` set bars"
    using rows_bars_times assms(4) by (metis df_to_bars_def list.set_map)
  then show ?thesis using assms(2,5)
    by (auto simp: assert_no_look_ahead_def last_bars_def late_bar_def find_None_iff split: option.splits)
qed

section \<open>Indicators\<close>

lemma items_from_nonneg: "0 \<le> i \<Longrightarrow> items_from i xs = Some (drop (nat i) xs)"
proof -
  assume i: "0 \<le> i"
  have "map (py_nth xs) [i..int (length xs) - 1] = map Some (drop (nat i) xs)"
    by (rule nth_equalityI) (use i in \<open>auto simp: py_nth_def Let_def nth_upto nat_add_distrib add.commute\<close>)
  moreover have "those (map Some ys) = Some ys" for ys :: "'a list" by (induction ys) simp_all
  ultimately show ?thesis by (simp add: items_from_def)
qed

lemma wilder_nonneg:
  assumes "1 \<le> period" "0 \<le> fst avg" "0 \<le> snd avg" "\<forall>x\<in>set xs. 0 \<le> fst x \<and> 0 \<le> snd x"
  shows "0 \<le> fst (foldl (wilder_step period) avg xs) \<and> 0 \<le> snd (foldl (wilder_step period) avg xs)"
  using assms
proof (induction xs arbitrary: avg)
  case (Cons x xs)
  have "0 \<le> fint (period - 1)" "0 \<le> fint period" using Cons.prems(1) by (simp_all add: fint_nonneg)
  then have "0 \<le> fst (wilder_step period avg x)" "0 \<le> snd (wilder_step period avg x)"
    using Cons.prems by (simp_all add: wilder_step_def float_nonneg)
  then show ?case using Cons.IH [of "wilder_step period avg x"] Cons.prems(1,4) by simp
qed simp

lemma slice_upto_subset: "set (slice_upto i xs) \<subseteq> set xs"
  by (simp add: slice_upto_def set_take_subset)

lemma rsi_formula:
  assumes "0 \<le> gain" "0 < loss"
  shows "0 \<le> fsub 100 (fdiv 100 (fadd 1 (fdiv gain loss))) \<and> fsub 100 (fdiv 100 (fadd 1 (fdiv gain loss))) \<le> 100"
proof -
  have rs: "1 \<le> fadd 1 (fdiv gain loss)" by (rule fadd_ge1) (use assms in \<open>simp_all add: float_nonneg\<close>)
  then have "100 / fadd 1 (fdiv gain loss) \<le> 100 / 1" by (intro divide_left_mono) simp_all
  then have q: "fdiv 100 (fadd 1 (fdiv gain loss)) \<le> 100"
    using f64.mono [of _ 100] by (simp add: fdiv_def)
  moreover have "0 \<le> fdiv 100 (fadd 1 (fdiv gain loss))" using rs by (intro float_nonneg(3)) simp_all
  ultimately show ?thesis by (simp add: fsub_le) (simp add: fsub_def f64.sub_nonneg)
qed

text \<open>
  The relative strength index is an index: for every period from 1 on and every price history, \<open>rsi\<close> raises
  nothing, answers nothing exactly when there are not \<open>period + 1\<close> bars, and otherwise a number
  from 0 to 100, with the roundings of the floats.
\<close>

theorem rsi_is_an_index:
  assumes "1 \<le> period"
  shows "\<exists>r. rsi symbol period ms = Inr r \<and> (r = None \<longleftrightarrow> int (length (bars_of symbol ms)) < period + 1)
    \<and> (\<forall>x. r = Some x \<longrightarrow> 0 \<le> x \<and> x \<le> 100)"
proof (cases "int (length (bars_of symbol ms)) < period + 1")
  case False
  let ?ds = "deltas (map bar_close (bars_of symbol ms))"
  let ?g = "map (\<lambda>d. max 0 d) ?ds" and ?l = "map (\<lambda>d. max 0 (- d)) ?ds"
  let ?start = "(fdiv (fsum (slice_upto period ?g)) (fint period), fdiv (fsum (slice_upto period ?l)) (fint period))"
  define avg where "avg = foldl (wilder_step period) ?start (drop (nat period) (zip ?g ?l))"
  have "0 \<le> fsum (slice_upto period ?g)" "0 \<le> fsum (slice_upto period ?l)"
    by (rule fsum_nonneg, auto dest!: subsetD [OF slice_upto_subset])+
  moreover have "0 \<le> fint period" using assms by (simp add: fint_nonneg)
  ultimately have start: "0 \<le> fst ?start" "0 \<le> snd ?start" by (simp_all add: float_nonneg)
  have "0 \<le> a \<and> 0 \<le> b" if "(a, b) \<in> set (drop (nat period) (zip ?g ?l))" for a b
    using set_zip_leftD [OF in_set_dropD [OF that]] set_zip_rightD [OF in_set_dropD [OF that]] by auto
  then have "\<forall>x\<in>set (drop (nat period) (zip ?g ?l)). 0 \<le> fst x \<and> 0 \<le> snd x" by (metis prod.collapse)
  then have "0 \<le> fst avg \<and> 0 \<le> snd avg" unfolding avg_def by (rule wilder_nonneg [OF assms start])
  then obtain gain loss where avg: "avg = (gain, loss)" "0 \<le> gain" "0 \<le> loss" by (cases avg) simp
  have eval: "rsi symbol period ms = (if loss = 0 then Inr (Some 100)
      else let rs = fdiv gain loss in
        if fadd 1 rs = 0 then Inl ZeroDivision else Inr (Some (fsub 100 (fdiv 100 (fadd 1 rs)))))"
    using False assms avg(1) by (simp add: rsi_def items_from_nonneg Let_def flip: avg_def)
  have "1 \<le> fadd 1 (fdiv gain loss)" by (rule fadd_ge1) (use avg in \<open>simp_all add: float_nonneg\<close>)
  then show ?thesis using eval rsi_formula [of gain loss] avg False by (cases "loss = 0") (auto simp: Let_def)
qed (simp add: rsi_def)

definition rising :: MarketState where
  "rising = \<lparr>ms_timestamp = Naive 3, ms_prices = [], ms_volumes = [],
     ms_ohlcv = [(''A'', map (\<lambda>t. \<lparr>bar_timestamp = t, bar_open = 1, bar_high = 3, bar_low = 1,
        bar_close = of_int t, bar_volume = 1\<rparr>) [1, 2, 3])]\<rparr>"

lemma last_ema_values: "last (ema_values m v ps) = foldl (ema_step m) v ps"
proof (induction ps arbitrary: v)
  case (Cons p ps)
  then show ?case by (cases ps) simp_all
qed simp

lemma ema_values_length: "length (ema_values m v ps) = length ps + 1"
  by (induction ps arbitrary: v) simp_all

text \<open>
  C0.  The two implementations of the exponential average agree: \<open>ema\<close> is the last value of the series that \<open>macd\<close>
  computes with \<open>compute_ema_series\<close>, for every period, the errors included.
\<close>

theorem ema_is_last_of_series:
  "ema symbol period ms = (case compute_ema_series period (map bar_close (bars_of symbol ms)) of
      Inl e \<Rightarrow> Inl e | Inr values \<Rightarrow> Inr (if values = [] then None else Some (last values)))"
proof -
  have "ema_values m v ps \<noteq> []" for m v and ps :: "rat list" by (cases ps) simp_all
  then show ?thesis by (simp add: ema_def compute_ema_series_def last_ema_values Let_def)
qed

text \<open>With sensible periods \<open>macd\<close> raises nothing, and with enough bars it has a value.\<close>

lemma macd_total:
  assumes "1 \<le> fast" "fast \<le> slow" "1 \<le> signal"
  shows "\<exists>r. macd symbol fast slow signal ms = Inr r
    \<and> (r = None \<longleftrightarrow> int (length (bars_of symbol ms)) < slow + signal)"
proof (cases "int (length (bars_of symbol ms)) < slow + signal")
  case False
  let ?c = "map bar_close (bars_of symbol ms)"
  have series: "\<exists>vs. compute_ema_series n xs = Inr vs \<and> int (length vs) = int (length xs) - n + 1"
    if "1 \<le> n" "n \<le> int (length xs)" for n and xs :: "rat list"
    using that by (simp add: compute_ema_series_def ema_values_length slice_from_nonneg)
  obtain f where f: "compute_ema_series fast ?c = Inr f" "int (length f) = int (length ?c) - fast + 1"
    using series [of fast ?c] False assms by auto
  obtain s where s: "compute_ema_series slow ?c = Inr s" "int (length s) = int (length ?c) - slow + 1"
    using series [of slow ?c] False assms by auto
  let ?rest = "slice_from (int (length f) - int (length s)) f"
  have rest: "length ?rest = length s" using f(2) s(2) assms(2) by (simp add: slice_from_nonneg)
  then have line: "length (map2 fsub ?rest s) = length s" by simp
  obtain g where g: "compute_ema_series signal (map2 fsub ?rest s) = Inr g" "int (length g) = int (length s) - signal + 1"
    using series [of signal "map2 fsub ?rest s"] False assms s(2) rest by auto
  have "map2 fsub ?rest s \<noteq> []" "g \<noteq> []" using line g(2) s(2) False assms by auto
  then show ?thesis using False f(1) s(1) g(1) rest by (simp add: macd_def Let_def)
qed (simp add: macd_def)

text \<open>\<open>get_window(0)\<close> keeps every bar.\<close>

lemma window_of_nothing: "ms_ohlcv (get_window 0 ms) = ms_ohlcv ms"
proof -
  have "map (\<lambda>(symbol, bars). (symbol, if 0 < int (length bars) then slice_from (- 0) bars else bars)) xs = xs"
    for xs :: "(string \<times> Bar list) list"
    by (induction xs) (auto simp: slice_from_def)
  then show ?thesis unfolding get_window_def by (metis (no_types, lifting) MarketState.select_convs(4) MarketState.surjective MarketState.update_convs(4))
qed

end
