(* ===== verification/Runners.thy ===== *)
theory Runners
  imports Execution MarketData
begin

text \<open>
  The loops that wire the components together: \<open>engine/core/backtest_runner.py\<close> and
  \<open>engine/paper_trade/runner.py\<close>.

  The strategy (with the sandbox it runs in) is a function on a state of its own; what it sees is the snapshot
  and the market state, by value.  New ids and the wall clock are functions of the number of
  signals processed so far.  The performance report of a finished back test is an argument.
\<close>

section \<open>The engine around a signal\<close>

record 'x engine_env =
  en_estimate :: estimator
  en_execute :: "'x executor"
  en_emit :: "FillPayload \<Rightarrow> string option"
  en_order_id :: "nat \<Rightarrow> string"
  en_lot_id :: "nat \<Rightarrow> string"
  en_now :: "nat \<Rightarrow> datetime"

definition env_process :: "'x engine_env \<Rightarrow> nat \<Rightarrow> Signal \<Rightarrow> rat \<Rightarrow> 'x OrderManager
    \<Rightarrow> (om_error + OmOrder) \<times> 'x OrderManager" where
  "env_process env n sg price mg = process_signal (en_estimate env) (en_execute env) (en_emit env)
     (en_order_id env n) (en_lot_id env n) (en_now env n) sg price 0 mg"

section \<open>The back-test runner\<close>

record BacktestConfig =
  bc_symbol :: string
  bc_start :: int
  bc_end :: int
  bc_initial_capital :: rat
  bc_min_bars :: int
  bc_debug :: bool
  bc_random_seed :: "int option"

record BtTrade =
  bt_timestamp :: stamp
  bt_symbol :: string
  bt_side :: Side
  bt_quantity :: "int option"
  bt_fill_price :: "rat option"
  bt_costs :: "(string, rat) dict option"
  bt_realized_pnl :: rat

record BtPoint =
  pt_timestamp :: stamp
  pt_total_value :: rat
  pt_cash :: rat

record 'm BacktestResult =
  br_equity_curve :: "BtPoint list"
  br_trades :: "BtTrade list"
  br_metrics :: 'm
  br_final_capital :: rat
  br_total_return_pct :: rat

datatype run_error =
  NoProvider
| NoStrategy
| NoOhlcvData string
| NoDataInRange int int
| MarketDataError md_error
| SignalError om_error

record ('s, 'x) BtState =
  bs_manager :: "'x OrderManager"
  bs_builder :: "unit MarketStateBuilder"
  bs_strategy :: 's
  bs_count :: nat
  bs_trades :: "BtTrade list"
  bs_curve :: "BtPoint list"

definition bt_trade :: "stamp \<Rightarrow> rat option \<Rightarrow> OmOrder \<Rightarrow> BtTrade" where
  "bt_trade ts sell_avg_cost ord = \<lparr>bt_timestamp = ts, bt_symbol = om_symbol ord, bt_side = om_side ord,
     bt_quantity = om_fill_quantity ord, bt_fill_price = om_fill_price ord, bt_costs = om_cost_breakdown ord,
     bt_realized_pnl =
       (if om_side ord = SIDE_SELL
        then fsub (fmul (fsub (or_zero (om_fill_price ord)) (or_zero sell_avg_cost)) (fint (filled_so_far ord)))
               (or_zero (map_of (case om_cost_breakdown ord of None \<Rightarrow> [] | Some costs \<Rightarrow> costs) ''total''))
        else 0)\<rparr>"

definition avg_cost_before :: "Signal \<Rightarrow> Portfolio \<Rightarrow> rat option" where
  "avg_cost_before sg p = (if sg_side sg = SIDE_SELL
     then map_option pos_avg_cost (map_of (pf_positions p) (sg_symbol sg)) else None)"

text \<open>The loop over the signals of a bar; an exception of \<open>process_signal\<close> ends the run.\<close>

fun bt_signals :: "string \<Rightarrow> 'x engine_env \<Rightarrow> stamp \<Rightarrow> rat \<Rightarrow> Signal list \<Rightarrow> ('s, 'x) BtState
    \<Rightarrow> run_error option \<times> ('s, 'x) BtState" where
  "bt_signals symbol env ts price [] st = (None, st)"
| "bt_signals symbol env ts price (sg # sgs) st =
     (if sg_side sg = SIDE_HOLD \<or> sg_symbol sg \<noteq> symbol then bt_signals symbol env ts price sgs st
      else
        (case env_process env (bs_count st) sg price (bs_manager st) of
           (Inl e, mg) \<Rightarrow> (Some (SignalError e), st\<lparr>bs_manager := mg, bs_count := bs_count st + 1\<rparr>)
         | (Inr ord, mg) \<Rightarrow>
             let st1 = st\<lparr>bs_manager := mg, bs_count := bs_count st + 1\<rparr> in
             if om_status ord \<noteq> OM_FILLED then bt_signals symbol env ts price sgs st1
             else bt_signals symbol env ts price sgs
                    (st1\<lparr>bs_trades := bs_trades st @
                       [bt_trade ts (avg_cost_before sg (mg_portfolio (bs_manager st))) ord]\<rparr>)))"

type_synonym 's evaluator = "PortfolioSnapshot \<Rightarrow> MarketState \<Rightarrow> 's \<Rightarrow> Signal list \<times> 's"

definition no_cleaning :: "frame \<Rightarrow> string \<Rightarrow> unit \<Rightarrow> frame \<times> unit" where
  "no_cleaning df symbol report = (df, report)"

definition bt_bar :: "string \<Rightarrow> 'x engine_env \<Rightarrow> 's evaluator \<Rightarrow> (string, frame) dict \<Rightarrow> stamp \<Rightarrow> ('s, 'x) BtState
    \<Rightarrow> run_error option \<times> ('s, 'x) BtState" where
  "bt_bar symbol env evaluate all_data ts st =
     (case build_for_backtest no_cleaning () all_data ts [symbol] (bs_builder st) of
        (Inl e, b) \<Rightarrow>
          if is_validation_error e then (None, st\<lparr>bs_builder := b\<rparr>)
          else (Some (MarketDataError e), st\<lparr>bs_builder := b\<rparr>)
      | (Inr market, b) \<Rightarrow>
          let price = or_zero (map_of (ms_prices market) symbol);
              mg = (bs_manager st)\<lparr>mg_portfolio := update_prices (ms_prices market) (mg_portfolio (bs_manager st))\<rparr>
          in (case evaluate (pf_snapshot (mg_portfolio mg)) market (bs_strategy st) of
                (signals, s) \<Rightarrow>
                  (case bt_signals symbol env ts price signals
                          (st\<lparr>bs_builder := b, bs_manager := mg, bs_strategy := s\<rparr>) of
                     (Some e, st') \<Rightarrow> (Some e, st')
                   | (None, st') \<Rightarrow>
                       let p = mg_portfolio (bs_manager st') in
                       (None, st'\<lparr>bs_curve := bs_curve st' @
                          [\<lparr>pt_timestamp = ts, pt_total_value = total_value p, pt_cash = pf_cash p\<rparr>]\<rparr>))))"

fun bt_loop :: "string \<Rightarrow> 'x engine_env \<Rightarrow> 's evaluator \<Rightarrow> (string, frame) dict \<Rightarrow> stamp list \<Rightarrow> ('s, 'x) BtState
    \<Rightarrow> run_error option \<times> ('s, 'x) BtState" where
  "bt_loop symbol env evaluate all_data [] st = (None, st)"
| "bt_loop symbol env evaluate all_data (ts # tss) st =
     (case bt_bar symbol env evaluate all_data ts st of
        (Some e, st') \<Rightarrow> (Some e, st')
      | (None, st') \<Rightarrow> bt_loop symbol env evaluate all_data tss st')"

definition in_range :: "BacktestConfig \<Rightarrow> frame \<Rightarrow> int \<Rightarrow> bool" where
  "in_range cfg df t = (case df_tz df of
     None \<Rightarrow> bc_start cfg \<le> t \<and> t \<le> bc_end cfg
   | Some (localize, wall) \<Rightarrow> localize (bc_start cfg) \<le> t \<and> t \<le> localize (bc_end cfg))"

definition cut_frame :: "BacktestConfig \<Rightarrow> frame \<Rightarrow> frame" where
  "cut_frame cfg df = df\<lparr>df_rows := filter (\<lambda>row. in_range cfg df (fst row)) (df_rows df)\<rparr>"

text \<open>The defaults of \<open>BacktestBackend\<close>, \<open>RiskEngine\<close> and \<open>DefaultCostModel\<close>; there is no event bus.\<close>

definition new_backtest_backend :: "(int option \<Rightarrow> 'g) \<Rightarrow> int option \<Rightarrow> 'g BacktestBackend" where
  "new_backtest_backend seeded seed =
     \<lparr>bt_fill_probability = f64 (98 / 100), bt_partial_fill = True, bt_rng = seeded seed\<rparr>"

definition backtest_manager :: "(int option \<Rightarrow> 'g) \<Rightarrow> BacktestConfig \<Rightarrow> 'g BacktestBackend OrderManager" where
  "backtest_manager seeded cfg = \<lparr>mg_risk = default_risk_engine,
     mg_portfolio = new_portfolio (bc_initial_capital cfg) FIFO None, mg_bus = False,
     mg_backend = Some (new_backtest_backend seeded (bc_random_seed cfg)), mg_pending = [], mg_completed = [],
     mg_trace = []\<rparr>"

definition backtest_env :: "('g \<Rightarrow> nat \<times> 'g) \<Rightarrow> (nat \<Rightarrow> string) \<Rightarrow> (nat \<Rightarrow> string) \<Rightarrow> (nat \<Rightarrow> datetime)
    \<Rightarrow> 'g BacktestBackend engine_env" where
  "backtest_env bits oids lots clk = \<lparr>en_estimate = estimate_total default_cost_model,
     en_execute = backtest_execute bits, en_emit = (\<lambda>_. None), en_order_id = oids, en_lot_id = lots, en_now = clk\<rparr>"

definition bt_start :: "(int option \<Rightarrow> 'g) \<Rightarrow> BacktestConfig \<Rightarrow> 's \<Rightarrow> ('s, 'g BacktestBackend) BtState" where
  "bt_start seeded cfg s = \<lparr>bs_manager = backtest_manager seeded cfg,
     bs_builder = new_builder (bc_min_bars cfg) (bc_debug cfg) False, bs_strategy = s, bs_count = 0,
     bs_trades = [], bs_curve = []\<rparr>"

definition bt_result :: "(BtPoint list \<Rightarrow> BtTrade list \<Rightarrow> rat \<Rightarrow> 'm) \<Rightarrow> BacktestConfig \<Rightarrow> ('s, 'x) BtState \<Rightarrow> 'm BacktestResult" where
  "bt_result report cfg st =
     (let final = total_value (mg_portfolio (bs_manager st)); cap = bc_initial_capital cfg in
      \<lparr>br_equity_curve = bs_curve st, br_trades = bs_trades st,
       br_metrics = report (bs_curve st) (bs_trades st) cap, br_final_capital = final,
       br_total_return_pct = (if 0 < cap then fmul (fdiv (fsub final cap) cap) 100 else 0)\<rparr>)"

definition backtest_run ::
  "(int option \<Rightarrow> 'g) \<Rightarrow> 'g BacktestBackend engine_env \<Rightarrow> (BtPoint list \<Rightarrow> BtTrade list \<Rightarrow> rat \<Rightarrow> 'm)
     \<Rightarrow> BacktestConfig \<Rightarrow> ('s \<times> 's evaluator) option \<Rightarrow> frame option
     \<Rightarrow> run_error + 'm BacktestResult" where
  "backtest_run seeded env report cfg strategy provider =
     (case provider of None \<Rightarrow> Inl NoProvider
      | Some df0 \<Rightarrow> (case strategy of None \<Rightarrow> Inl NoStrategy
        | Some (s, evaluate) \<Rightarrow>
            if df_empty df0 then Inl (NoOhlcvData (bc_symbol cfg))
            else let df = cut_frame cfg df0 in
              if df_empty df then Inl (NoDataInRange (bc_start cfg) (bc_end cfg))
              else (case bt_loop (bc_symbol cfg) env evaluate [(bc_symbol cfg, df)]
                           (map (\<lambda>row. index_stamp df (fst row)) (df_rows df)) (bt_start seeded cfg s) of
                      (Some e, st) \<Rightarrow> Inl e
                    | (None, st) \<Rightarrow> Inr (bt_result report cfg st))))"

section \<open>A back test does not look ahead\<close>

lemma bt_signals_extends:
  "bt_signals symbol env ts price sgs st = (r, st') \<Longrightarrow>
     bs_curve st' = bs_curve st \<and> (\<exists>more. bs_trades st' = bs_trades st @ more)"
proof (induction symbol env ts price sgs st arbitrary: r st' rule: bt_signals.induct)
  case (2 symbol env ts price sg sgs st)
  obtain res mg where p: "env_process env (bs_count st) sg price (bs_manager st) = (res, mg)"
    by (cases "env_process env (bs_count st) sg price (bs_manager st)")
  show ?case
  proof (cases "sg_side sg = SIDE_HOLD \<or> sg_symbol sg \<noteq> symbol")
    case True
    then show ?thesis using 2(1,4) by simp
  next
    case False
    show ?thesis
    proof (cases res)
      case (Inr ord)
      then show ?thesis
        using 2(2) [OF False p [symmetric] Inr refl] 2(3) [OF False p [symmetric] Inr refl] 2(4) False p
        by (cases "om_status ord = OM_FILLED") fastforce+
    qed (use 2(4) False p in auto)
  qed
qed simp

lemma bt_bar_extends:
  assumes "bt_bar symbol env evaluate data ts st = (r, st')"
  shows "\<exists>more more'. bs_curve st' = bs_curve st @ more \<and> bs_trades st' = bs_trades st @ more'"
proof -
  obtain res b where build: "build_for_backtest no_cleaning () data ts [symbol] (bs_builder st) = (res, b)"
    by (cases "build_for_backtest no_cleaning () data ts [symbol] (bs_builder st)")
  show ?thesis
  proof (cases res)
    case (Inl e)
    then show ?thesis using assms build by (auto simp: bt_bar_def split: if_splits)
  next
    case (Inr market)
    let ?mg = "(bs_manager st)\<lparr>mg_portfolio := update_prices (ms_prices market) (mg_portfolio (bs_manager st))\<rparr>"
    obtain signals s where e: "evaluate (pf_snapshot (mg_portfolio ?mg)) market (bs_strategy st) = (signals, s)"
      by (cases "evaluate (pf_snapshot (mg_portfolio ?mg)) market (bs_strategy st)")
    let ?st = "st\<lparr>bs_builder := b, bs_manager := ?mg, bs_strategy := s\<rparr>"
    obtain q st1 where s: "bt_signals symbol env ts (or_zero (map_of (ms_prices market) symbol)) signals ?st = (q, st1)"
      by (cases "bt_signals symbol env ts (or_zero (map_of (ms_prices market) symbol)) signals ?st")
    then show ?thesis using bt_signals_extends [OF s] assms build Inr e
      by (auto simp: bt_bar_def Let_def split: option.splits)
  qed
qed

lemma bt_loop_extends:
  "bt_loop symbol env evaluate data tss st = (r, st') \<Longrightarrow>
     \<exists>more more'. bs_curve st' = bs_curve st @ more \<and> bs_trades st' = bs_trades st @ more'"
proof (induction tss arbitrary: st)
  case (Cons ts tss)
  obtain q st1 where bar: "bt_bar symbol env evaluate data ts st = (q, st1)"
    by (cases "bt_bar symbol env evaluate data ts st")
  show ?case
  proof (cases q)
    case None
    then have "bt_loop symbol env evaluate data tss st1 = (r, st')" using Cons.prems bar by simp
    from Cons.IH [OF this] bt_bar_extends [OF bar] show ?thesis by fastforce
  next
    case (Some e)
    then show ?thesis using Cons.prems bt_bar_extends [OF bar] bar by simp
  qed
qed simp

lemma bt_loop_append:
  "bt_loop symbol env evaluate data (xs @ ys) st =
     (case bt_loop symbol env evaluate data xs st of
        (Some e, st') \<Rightarrow> (Some e, st') | (None, st') \<Rightarrow> bt_loop symbol env evaluate data ys st')"
  by (induction xs arbitrary: st) (simp_all split: prod.splits option.splits)

lemma bt_loop_past:
  assumes "\<forall>ts\<in>set tss. same_past ts [symbol] data data'"
  shows "bt_loop symbol env evaluate data tss st = bt_loop symbol env evaluate data' tss st"
  using assms
proof (induction tss arbitrary: st)
  case (Cons ts tss)
  have "bt_bar symbol env evaluate data ts st = bt_bar symbol env evaluate data' ts st"
    unfolding bt_bar_def by (subst build_past [of ts "[symbol]" data data']) (use Cons.prems in simp_all)
  then show ?case using Cons by (simp split: prod.splits option.splits)
qed simp

lemma cutoff_index_stamp [simp]: "df_tz df' = df_tz df \<Longrightarrow> cutoff df (index_stamp df' t) = t"
  by (auto simp: cutoff_def index_stamp_def split: option.splits)

lemma bt_result_simps [simp]:
  "br_equity_curve (bt_result report cfg st) = bs_curve st" "br_trades (bt_result report cfg st) = bs_trades st"
  by (simp_all add: bt_result_def Let_def)

text \<open>
  C4.  A back test does not look ahead: when the data are extended by later rows, whatever these hold, the run on
  the longer history first does exactly what the run on the shorter one did; its equity curve
  and its trades begin with those of the shorter run, for every strategy and every seed.
\<close>

theorem backtest_is_causal:
  assumes "df_rows df' = df_rows df @ later" "df_tz df' = df_tz df" "df_columns df' = df_columns df"
    and "\<forall>row\<in>set (df_rows df). \<forall>row'\<in>set later. fst row < fst row'"
    and "backtest_run seeded env report cfg strategy (Some df) = Inr r"
    and "backtest_run seeded env report cfg strategy (Some df') = Inr r'"
  shows "\<exists>points trades. br_equity_curve r' = br_equity_curve r @ points \<and> br_trades r' = br_trades r @ trades"
proof -
  let ?c = "cut_frame cfg df" and ?c' = "cut_frame cfg df'" and ?sym = "bc_symbol cfg"
  obtain s evaluate where strategy: "strategy = Some (s, evaluate)"
    using assms(5) by (auto simp: backtest_run_def split: option.splits)
  define xs where "xs = map (\<lambda>row. index_stamp ?c (fst row)) (df_rows ?c)"
  define ys where "ys = map (\<lambda>row. index_stamp ?c (fst row)) (filter (\<lambda>row. in_range cfg df (fst row)) later)"
  have tz: "df_tz ?c' = df_tz ?c" and same: "in_range cfg df' = in_range cfg df"
    by (simp_all add: assms(2) cut_frame_def in_range_def fun_eq_iff)
  have rows: "df_rows ?c' = df_rows ?c @ filter (\<lambda>row. in_range cfg df (fst row)) later"
    using same by (simp add: cut_frame_def assms(1))
  have stamps: "map (\<lambda>row. index_stamp ?c' (fst row)) (df_rows ?c') = xs @ ys"
    by (simp add: rows xs_def ys_def index_stamp_def tz)
  have past: "slice_to_timestamp ?c' ts = slice_to_timestamp ?c ts" if "ts \<in> set xs" for ts
  proof -
    have sub: "set (df_rows ?c) \<subseteq> set (df_rows df)" by (simp add: cut_frame_def)
    have "ts \<in> (\<lambda>row. index_stamp ?c (fst row)) ` set (df_rows ?c)" using that by (simp add: xs_def)
    then obtain row where row: "row \<in> set (df_rows df)" "ts = index_stamp ?c (fst row)" using sub by blast
    have "\<not> fst row' \<le> fst row" if "row' \<in> set later" for row' using assms(4) row(1) that by fastforce
    then have "filter (\<lambda>r. fst r \<le> fst row) (filter (\<lambda>row. in_range cfg df (fst row)) later) = []"
      by (auto simp: filter_empty_conv)
    then have "filter (\<lambda>r. fst r \<le> fst row) (df_rows ?c') = filter (\<lambda>r. fst r \<le> fst row) (df_rows ?c)"
      by (simp add: rows)
    moreover have "cutoff ?c' ts = fst row" "cutoff ?c ts = fst row" using row(2) tz by simp_all
    ultimately have "df_rows (slice_to_timestamp ?c' ts) = df_rows (slice_to_timestamp ?c ts)"
      by (simp add: slice_to_timestamp_def)
    then show ?thesis using tz assms(3) by (simp add: slice_to_timestamp_def cut_frame_def)
  qed
  let ?loop = "\<lambda>df. bt_loop ?sym env evaluate [(?sym, df)]" and ?st = "bt_start seeded cfg s"
  have prefix: "?loop ?c' xs ?st = ?loop ?c xs ?st"
    by (rule bt_loop_past) (simp add: same_past_def past)
  obtain st where st: "?loop ?c xs ?st = (None, st)" "r = bt_result report cfg st"
    using assms(5) unfolding strategy xs_def
    by (auto simp: backtest_run_def Let_def split: if_splits prod.splits option.splits)
  have "\<exists>st'. ?loop ?c' (xs @ ys) ?st = (None, st') \<and> r' = bt_result report cfg st'"
    using assms(6) unfolding strategy stamps [symmetric]
    by (auto simp: backtest_run_def Let_def split: if_splits prod.splits option.splits)
  then obtain st' where st': "?loop ?c' ys st = (None, st')" "r' = bt_result report cfg st'"
    using prefix st(1) by (auto simp: bt_loop_append)
  show ?thesis using bt_loop_extends [OF st'(1)] st(2) st'(2) by simp
qed

text \<open>Buy-and-never: a strategy without signals, on one and on two days.\<close>

definition idle :: "unit evaluator" where
  "idle snapshot market s = ([], s)"

definition sample_config :: BacktestConfig where
  "sample_config = \<lparr>bc_symbol = ''A'', bc_start = 0, bc_end = 9, bc_initial_capital = 1000, bc_min_bars = 1,
     bc_debug = True, bc_random_seed = Some 42\<rparr>"

definition sample_run :: "(int \<times> (string \<Rightarrow> rat option)) list \<Rightarrow> run_error + nat BacktestResult" where
  "sample_run rows = backtest_run (\<lambda>_. 5 :: nat) (backtest_env (\<lambda>n. (n, n + 1)) (\<lambda>n. ''o'') (\<lambda>n. ''l'') int)
     (\<lambda>curve trades cap. length curve) sample_config (Some ((), idle)) (Some (sample_frame rows))"

lemma sample_run_one: "\<exists>r. sample_run [day_row 1 5] = Inr r \<and> length (br_equity_curve r) = 1"
  by (simp add: sample_run_def backtest_run_def sample_frame_def df_empty_def OHLCV_def Let_def cut_frame_def in_range_def
      sample_config_def day_row_def bt_bar_def build_for_backtest_def start_report_def bt_start_def new_builder_def
      backtest_bars_def slice_to_timestamp_def cutoff_def index_stamp_def validate_frame_def nan_rows_def
      clean_frame_def df_to_bars_def row_bar_def cell_def assert_no_look_ahead_def late_bar_def last_bars_def
      cut_int_def idle_def bt_result_def split: prod.splits)

lemma sample_run_two: "\<exists>r. sample_run [day_row 1 5, day_row 2 7] = Inr r"
  by (simp add: sample_run_def backtest_run_def sample_frame_def df_empty_def OHLCV_def Let_def cut_frame_def in_range_def
      sample_config_def day_row_def bt_bar_def build_for_backtest_def start_report_def bt_start_def new_builder_def
      backtest_bars_def slice_to_timestamp_def cutoff_def index_stamp_def validate_frame_def nan_rows_def
      clean_frame_def df_to_bars_def row_bar_def cell_def assert_no_look_ahead_def late_bar_def last_bars_def
      slice_from_def cut_int_def idle_def bt_result_def split: prod.splits)

theorem backtest_is_causal_witness:
  "\<exists>r r'. sample_run [day_row 1 5] = Inr r \<and> sample_run [day_row 1 5, day_row 2 7] = Inr r'
     \<and> take 1 (br_equity_curve r') = br_equity_curve r"
proof -
  obtain r r' where r: "sample_run [day_row 1 5] = Inr r" "length (br_equity_curve r) = 1"
      "sample_run [day_row 1 5, day_row 2 7] = Inr r'"
    using sample_run_one sample_run_two by blast
  have "\<exists>points trades. br_equity_curve r' = br_equity_curve r @ points \<and> br_trades r' = br_trades r @ trades"
    by (rule backtest_is_causal [OF _ _ _ _ r(1,3) [unfolded sample_run_def], where later = "[day_row 2 7]"])
      (simp_all add: sample_frame_def day_row_def)
  then show ?thesis using r by auto
qed

section \<open>The books of a run\<close>

text \<open>A fill that is booked is positive, however large the order.\<close>

locale positive_backend = execution_backend +
  assumes fill_positive: "valid x \<Longrightarrow> execute ord price costs x = (fill, x') \<Longrightarrow> fr_success fill \<Longrightarrow>
    0 < om_quantity ord \<Longrightarrow> 0 < fr_quantity fill"

lemma book_fill_step:
  assumes "0 < fr_quantity fill"
  shows "\<exists>ops. list_all op_shares_ok ops \<and> length ops \<le> 1 \<and> set (concat (map op_id ops)) \<subseteq> {fresh}
    \<and> snd (book_fill fresh now ord fill costs p) = pf_run p ops"
proof (cases "om_side ord")
  case SIDE_BUY
  then have "snd (book_fill fresh now ord fill costs p) =
      pf_run p [Open fresh now (om_symbol ord) (fr_quantity fill) (fr_price fill) (amount (cb_total costs))]"
    by (simp add: book_fill_def pf_run_def split: prod.splits sum.splits)
  then show ?thesis using assms by (intro exI) (auto simp: list_all_def)
next
  case SIDE_SELL
  then have "snd (book_fill fresh now ord fill costs p) =
      pf_run p [Close now (om_symbol ord) (fr_quantity fill) (fr_price fill)
        (fsub (amount (cb_total costs)) (amount (tax_estimate costs))) (amount (tax_estimate costs))]"
    by (simp add: book_fill_def pf_run_def Let_def split: prod.splits sum.splits)
  then show ?thesis using assms by (intro exI) (auto simp: list_all_def)
next
  case SIDE_HOLD
  then have "snd (book_fill fresh now ord fill costs p) = pf_run p []" by (simp add: book_fill_def pf_run_def)
  then show ?thesis by (intro exI) auto
qed

text \<open>Balanced books and unused ids from the \<open>n\<close>-th on.\<close>

definition books_from :: "(nat \<Rightarrow> string) \<Rightarrow> nat \<Rightarrow> Portfolio \<Rightarrow> bool" where
  "books_from lots n p \<longleftrightarrow> pf_ok p \<and> (\<forall>k\<ge>n. fresh_lot (lots k) p)"

lemma books_from_step:
  assumes "inj lots" "books_from lots n p" "list_all op_shares_ok ops" "length ops \<le> 1"
    and "set (concat (map op_id ops)) \<subseteq> {lots n}"
  shows "books_from lots (Suc n) (pf_run p ops)"
proof (cases ops)
  case Nil
  then show ?thesis using assms(2) by (simp add: books_from_def pf_run_def)
next
  case (Cons x xs)
  then have x: "ops = [x]" using assms(4) by (cases xs) simp_all
  have ids: "set (op_id x) \<subseteq> {lots n}" using assms(5) x by simp
  have "pf_ok (pf_step p x) \<and> (\<forall>i. fresh_lot i p \<longrightarrow> i \<notin> set (op_id x) \<longrightarrow> fresh_lot i (pf_step p x))"
    by (rule pf_step_ok) (use assms(2,3) ids x in \<open>auto simp: books_from_def\<close>)
  moreover have "lots k \<notin> set (op_id x)" if "Suc n \<le> k" for k
    using ids that assms(1) by (auto dest: injD)
  ultimately show ?thesis using assms(2) by (auto simp: books_from_def pf_run_def x)
qed

lemma books_from_prices: "books_from lots n p \<Longrightarrow> books_from lots n (update_prices prices p)"
  using update_prices_ok [of p prices] fresh_lot_cong [of "update_prices prices p" p] by (auto simp: books_from_def)

lemma books_from_date: "books_from lots n p \<Longrightarrow> books_from lots n (p\<lparr>pf_transaction_date := d\<rparr>)"
  using pf_ok_cong [of "p\<lparr>pf_transaction_date := d\<rparr>" p] fresh_lot_cong [of "p\<lparr>pf_transaction_date := d\<rparr>" p]
  by (auto simp: books_from_def)

context positive_backend
begin

lemma signal_books:
  assumes "en_execute env = execute" "inj (en_lot_id env)" "books_from (en_lot_id env) n (mg_portfolio mg)"
    and "\<forall>x. mg_backend mg = Some x \<longrightarrow> valid x" "env_process env n sg price mg = (res, mg')"
  shows "books_from (en_lot_id env) (Suc n) (mg_portfolio mg') \<and> (\<forall>x. mg_backend mg' = Some x \<longrightarrow> valid x)"
proof -
  have next_id: "books_from (en_lot_id env) (Suc n) (mg_portfolio mg)"
    using assms(3) by (auto simp: books_from_def)
  note run = assms(5) [unfolded env_process_def assms(1)]
  show ?thesis
  proof (cases rule: process_signal_cases [OF refl refl, where sg = sg and price = price and mg = mg
        and estimate = "en_estimate env" and vol = 0 and execute = execute and emit = "en_emit env"
        and oid = "en_order_id env n" and fresh = "en_lot_id env n" and now = "en_now env n"])
    case (1 ord re)
    then show ?thesis using run next_id assms(4) by auto
  next
    case (2 ord x fill x' re)
    then have "valid x'" using assms(4) valid_step by blast
    then show ?thesis using 2 run next_id by auto
  next
    case (3 ord x fill x' re p e)
    have q: "0 < om_quantity ord" using 3(2,5) by (simp add: passed_checks_def)
    have "0 < fr_quantity fill" by (rule fill_positive [OF _ 3(3,4) q]) (use assms(4) 3(1) in simp)
    from book_fill_step [OF this, of "en_lot_id env n" "en_now env n" "record_fill (en_now env n) fill ord"]
    obtain ops where ops: "list_all op_shares_ok ops" "length ops \<le> 1"
        "set (concat (map op_id ops)) \<subseteq> {en_lot_id env n}" "p = pf_run (mg_portfolio mg) ops"
      using 3(11) by (metis snd_conv)
    have "valid x'" using assms(4) valid_step 3(1,3) by blast
    moreover have "books_from (en_lot_id env) (Suc n) p"
      unfolding ops(4) by (rule books_from_step [OF assms(2,3) ops(1-3)])
    ultimately show ?thesis using run 3(12) by (auto split: option.splits)
  qed
qed

lemma bt_signals_books:
  assumes "en_execute env = execute" "inj (en_lot_id env)"
    and "books_from (en_lot_id env) (bs_count st) (mg_portfolio (bs_manager st))"
    and "\<forall>x. mg_backend (bs_manager st) = Some x \<longrightarrow> valid x"
    and "bt_signals symbol env ts price sgs st = (r, st')"
  shows "books_from (en_lot_id env) (bs_count st') (mg_portfolio (bs_manager st'))
    \<and> (\<forall>x. mg_backend (bs_manager st') = Some x \<longrightarrow> valid x)"
  using assms(3-5)
proof (induction sgs arbitrary: st)
  case (Cons sg sgs)
  obtain res mg where p: "env_process env (bs_count st) sg price (bs_manager st) = (res, mg)"
    by (cases "env_process env (bs_count st) sg price (bs_manager st)")
  note step = signal_books [OF assms(1,2) Cons.prems(1,2) p]
  show ?case
  proof (cases "sg_side sg = SIDE_HOLD \<or> sg_symbol sg \<noteq> symbol")
    case True
    then have skip: "bt_signals symbol env ts price sgs st = (r, st')" using Cons.prems(3) by simp
    show ?thesis by (rule Cons.IH [OF Cons.prems(1,2) skip])
  next
    case False
    show ?thesis
    proof (cases res)
      case (Inl e)
      then have "st' = st\<lparr>bs_manager := mg, bs_count := bs_count st + 1\<rparr>" using Cons.prems(3) False p by simp
      then show ?thesis using step by simp
    next
      case (Inr ord)
      obtain st1 where st1: "bt_signals symbol env ts price sgs st1 = (r, st')"
          "bs_manager st1 = mg" "bs_count st1 = Suc (bs_count st)"
        using Cons.prems(3) False p Inr by (auto simp: Let_def split: if_splits)
      show ?thesis by (rule Cons.IH [OF _ _ st1(1)]) (use st1 step in simp_all)
    qed
  qed
qed simp

lemma bt_loop_books:
  assumes "en_execute env = execute" "inj (en_lot_id env)"
    and "books_from (en_lot_id env) (bs_count st) (mg_portfolio (bs_manager st))"
    and "\<forall>x. mg_backend (bs_manager st) = Some x \<longrightarrow> valid x"
    and "bt_loop symbol env evaluate data tss st = (r, st')"
  shows "pf_ok (mg_portfolio (bs_manager st'))"
  using assms(3-5)
proof (induction tss arbitrary: st)
  case (Cons ts tss)
  obtain q st1 where bar: "bt_bar symbol env evaluate data ts st = (q, st1)"
    by (cases "bt_bar symbol env evaluate data ts st")
  have ok: "books_from (en_lot_id env) (bs_count st1) (mg_portfolio (bs_manager st1))
    \<and> (\<forall>x. mg_backend (bs_manager st1) = Some x \<longrightarrow> valid x)"
  proof -
    obtain res b where build: "build_for_backtest no_cleaning () data ts [symbol] (bs_builder st) = (res, b)"
      by (cases "build_for_backtest no_cleaning () data ts [symbol] (bs_builder st)")
    show ?thesis
    proof (cases res)
      case (Inl e)
      then show ?thesis using bar build Cons.prems by (auto simp: bt_bar_def split: if_splits)
    next
      case (Inr market)
      let ?mg = "(bs_manager st)\<lparr>mg_portfolio := update_prices (ms_prices market) (mg_portfolio (bs_manager st))\<rparr>"
      obtain signals s where e: "evaluate (pf_snapshot (mg_portfolio ?mg)) market (bs_strategy st) = (signals, s)"
        by (cases "evaluate (pf_snapshot (mg_portfolio ?mg)) market (bs_strategy st)")
      let ?st = "st\<lparr>bs_builder := b, bs_manager := ?mg, bs_strategy := s\<rparr>"
      obtain q1 st2 where s: "bt_signals symbol env ts (or_zero (map_of (ms_prices market) symbol)) signals ?st = (q1, st2)"
        by (cases "bt_signals symbol env ts (or_zero (map_of (ms_prices market) symbol)) signals ?st")
      have "books_from (en_lot_id env) (bs_count st2) (mg_portfolio (bs_manager st2))
        \<and> (\<forall>x. mg_backend (bs_manager st2) = Some x \<longrightarrow> valid x)"
        by (rule bt_signals_books [OF assms(1,2) _ _ s]) (use Cons.prems books_from_prices in simp_all)
      moreover have "bs_manager st1 = bs_manager st2" "bs_count st1 = bs_count st2"
        using bar build Inr e s by (auto simp: bt_bar_def Let_def split: option.splits)
      ultimately show ?thesis by simp
    qed
  qed
  show ?case
  proof (cases q)
    case None
    show ?thesis by (rule Cons.IH [where st = st1]) (use ok Cons.prems bar None in auto)
  qed (use ok Cons.prems bar in \<open>auto simp: books_from_def\<close>)
qed (simp add: books_from_def)

end

interpretation bt_pos: positive_backend "backtest_execute bits" "\<lambda>_. True" for bits
  by unfold_locales (auto simp: backtest_execute_def failed_fill_def Let_def split: prod.splits if_splits)

interpretation px_pos: positive_backend "paper_execute gauss bits" paper_valid for gauss bits
proof unfold_locales
  fix ord price costs fill and x x' :: "'a PaperExecutionBackend"
  assume ex: "paper_execute gauss bits ord price costs x = (fill, x')" and ok: "fr_success fill" and q: "0 < om_quantity ord"
  have pos: "0 < k" if "calculate_fill_quantity bits (om_quantity ord) y g = (k, g')" for y g k g'
    using that q by (auto simp: calculate_fill_quantity_def split: prod.splits if_splits)
  then show "0 < fr_quantity fill"
    by (cases rule: paper_execute_cases [OF ex]) (use ok pos in blast)+
qed

text \<open>
  C5.  The books balance after a back test: with fresh lot ids, for every strategy, data set, seed and
  configuration, also when an order ends the run with an exception, every position of the
  portfolio is the sum of its tax lots.
\<close>

theorem backtest_books_balance:
  assumes "inj lots"
    and "bt_loop symbol (backtest_env bits oids lots clk) evaluate data tss (bt_start seeded cfg s) = (r, st)"
  shows "pf_ok (mg_portfolio (bs_manager st))"
  by (rule bt_pos.bt_loop_books [OF _ _ _ _ assms(2)])
    (simp_all add: assms(1) backtest_env_def bt_start_def backtest_manager_def books_from_def pf_ok_new fresh_new)

definition nth_lot :: "nat \<Rightarrow> string" where
  "nth_lot n = replicate n CHR ''l''"

lemma inj_nth_lot: "inj nth_lot"
  by (rule injI) (metis length_replicate nth_lot_def)

text \<open>A strategy that buys all it can on every bar; its last order of the day may fail to be booked.\<close>

definition eager :: "nat evaluator" where
  "eager snapshot market s = ([sample_signal\<lparr>sg_quantity := None\<rparr>, sample_signal], s + 1)"

theorem backtest_books_balance_witness:
  "pf_ok (mg_portfolio (bs_manager (snd (bt_loop ''A'' (backtest_env (\<lambda>n. (n, n + 1)) (\<lambda>n. ''o'') nth_lot int) eager
      [(''A'', sample_frame [day_row 1 5, day_row 2 7])] [Naive 1, Naive 2] (bt_start (\<lambda>_. 5 :: nat) sample_config 0)))))"
  by (rule backtest_books_balance [OF inj_nth_lot prod.collapse [symmetric]])

text \<open>
  A partial fill is booked but is not in the trade log, which holds filled orders only.
\<close>

theorem partial_fill_not_logged:
  assumes "sg_side sg \<noteq> SIDE_HOLD" "sg_symbol sg = symbol"
    and "env_process env (bs_count st) sg price (bs_manager st) = (Inr ord, mg)" "om_status ord = OM_PARTIALLY_FILLED"
  shows "\<exists>st'. bt_signals symbol env ts price [sg] st = (None, st') \<and> bs_trades st' = bs_trades st
    \<and> bs_manager st' = mg"
  using assms by simp

text \<open>An order whose booking raises ends the back test without a result.\<close>

theorem unbookable_order_ends_backtest:
  assumes "bt_loop (bc_symbol cfg) env evaluate [(bc_symbol cfg, cut_frame cfg df)]
      (map (\<lambda>row. index_stamp (cut_frame cfg df) (fst row)) (df_rows (cut_frame cfg df))) (bt_start seeded cfg s)
        = (Some e, st)"
    and "\<not> df_empty df" "\<not> df_empty (cut_frame cfg df)"
  shows "backtest_run seeded env report cfg (Some (s, evaluate)) (Some df) = Inl e"
  using assms by (simp add: backtest_run_def Let_def)

end
