(* ===== verification/PaperTrade.thy ===== *)
theory PaperTrade
  imports Runners
begin

text \<open>
  The paper-trading runner, \<open>engine/paper_trade/runner.py\<close>: a feed of market states drives a strategy whose
  signals go through the order manager to the paper broker.

  The broker object is shared: once the runner has started it is the backend of the order manager
  (\<open>pr_attached\<close>), and connecting and disconnecting change it there.  A strategy is a record of
  its methods on a state of its own; a missing hook changes nothing, a hook that raises leaves
  the state it reached.  The feed is the list of its ticks, each with whether \<open>stop\<close> was called
  while the runner waited for it.  The portfolio of an order manager is never absent in the model.
\<close>

section \<open>Configuration, statistics, strategies\<close>

record PaperTradeConfig =
  pc_initial_capital :: rat
  pc_watchlist :: "string list"
  pc_max_ticks :: "int option"
  pc_stop_on_error :: bool

definition default_paper_config :: PaperTradeConfig where
  "default_paper_config = \<lparr>pc_initial_capital = 100000, pc_watchlist = [], pc_max_ticks = None,
     pc_stop_on_error = False\<rparr>"

record PaperTradeStats =
  ticks_processed :: int
  evaluations :: int
  evaluation_errors :: int
  signals_emitted :: int
  signals_skipped_hold :: int
  signals_no_price :: int
  signals_routed :: int
  orders_filled :: int
  orders_rejected :: int
  orders_failed :: int

definition no_ticks :: PaperTradeStats where
  "no_ticks = \<lparr>ticks_processed = 0, evaluations = 0, evaluation_errors = 0, signals_emitted = 0,
     signals_skipped_hold = 0, signals_no_price = 0, signals_routed = 0, orders_filled = 0,
     orders_rejected = 0, orders_failed = 0\<rparr>"

definition paper_stats_dict :: "PaperTradeStats \<Rightarrow> (string, int) dict" where
  "paper_stats_dict s = [(''ticks_processed'', ticks_processed s), (''evaluations'', evaluations s),
     (''evaluation_errors'', evaluation_errors s), (''signals_emitted'', signals_emitted s),
     (''signals_skipped_hold'', signals_skipped_hold s), (''signals_no_price'', signals_no_price s),
     (''signals_routed'', signals_routed s), (''orders_filled'', orders_filled s),
     (''orders_rejected'', orders_rejected s), (''orders_failed'', orders_failed s)]"

record FillNote =
  fn_order_id :: string
  fn_symbol :: string
  fn_side :: string
  fn_quantity :: "int option"
  fn_fill_price :: "rat option"
  fn_cost_breakdown :: "(string, rat) dict option"

datatype hook = OnMarketOpen | OnMarketClose | OnOrderFill FillNote

text \<open>An evaluation gives its signals or the text of the exception it raised.\<close>

record 's StrategyLike =
  sl_id :: "string option"
  sl_name :: "string option"
  sl_evaluate :: "(PortfolioSnapshot \<Rightarrow> MarketState \<Rightarrow> 's \<Rightarrow> (string + Signal list) \<times> 's) option"
  sl_on_bar :: "(MarketState \<Rightarrow> PortfolioSnapshot \<Rightarrow> 's \<Rightarrow> (string + Signal list) \<times> 's) option"
  sl_hook :: "hook \<Rightarrow> 's \<Rightarrow> 's"

datatype paper_error =
  Required string
| AlreadyStarted
| ConnectFailed string
| StrategyRaised string
| NoEvaluate string
| OrderRaised om_error

record ('s, 'x) PaperTradeRunner =
  pr_config :: PaperTradeConfig
  pr_strategy :: "'s StrategyLike"
  pr_self :: 's
  pr_broker :: 'x
  pr_attached :: bool
  pr_manager :: "'x OrderManager"
  pr_stats :: PaperTradeStats
  pr_running :: bool
  pr_started :: bool
  pr_last_market_state :: "MarketState option"
  pr_count :: nat

definition new_paper_runner ::
  "('s StrategyLike \<times> 's) option \<Rightarrow> bool \<Rightarrow> bool \<Rightarrow> 'x option \<Rightarrow> 'x OrderManager option \<Rightarrow> PaperTradeConfig option
     \<Rightarrow> paper_error + ('s, 'x) PaperTradeRunner" where
  "new_paper_runner strategy data_feed costs_given broker manager config =
     (case strategy of None \<Rightarrow> Inl (Required ''strategy'') | Some (st, self) \<Rightarrow>
      if \<not> data_feed then Inl (Required ''data_feed'')
      else if \<not> costs_given then Inl (Required ''cost_model'')
      else case broker of None \<Rightarrow> Inl (Required ''paper_broker'') | Some x \<Rightarrow>
      case manager of None \<Rightarrow> Inl (Required ''order_manager'') | Some mg \<Rightarrow>
        Inr \<lparr>pr_config = (case config of None \<Rightarrow> default_paper_config | Some c \<Rightarrow> c), pr_strategy = st, pr_self = self,
             pr_broker = x, pr_attached = False, pr_manager = mg, pr_stats = no_ticks, pr_running = False,
             pr_started = False, pr_last_market_state = None, pr_count = 0\<rparr>)"

definition strategy_id :: "('s, 'x) PaperTradeRunner \<Rightarrow> string" where
  "strategy_id r = (case sl_id (pr_strategy r) of
     Some i \<Rightarrow> if i \<noteq> [] then i else (case sl_name (pr_strategy r) of Some n \<Rightarrow> if n \<noteq> [] then n else ''strategy'' | None \<Rightarrow> ''strategy'')
   | None \<Rightarrow> (case sl_name (pr_strategy r) of Some n \<Rightarrow> if n \<noteq> [] then n else ''strategy'' | None \<Rightarrow> ''strategy''))"

definition the_broker :: "('s, 'x) PaperTradeRunner \<Rightarrow> 'x" where
  "the_broker r = (if pr_attached r then (case mg_backend (pr_manager r) of Some x \<Rightarrow> x | None \<Rightarrow> pr_broker r)
     else pr_broker r)"

definition set_broker :: "'x \<Rightarrow> ('s, 'x) PaperTradeRunner \<Rightarrow> ('s, 'x) PaperTradeRunner" where
  "set_broker x r = (if pr_attached r then r\<lparr>pr_manager := (pr_manager r)\<lparr>mg_backend := Some x\<rparr>\<rparr>
     else r\<lparr>pr_broker := x\<rparr>)"

definition invoke_hook :: "hook \<Rightarrow> ('s, 'x) PaperTradeRunner \<Rightarrow> ('s, 'x) PaperTradeRunner" where
  "invoke_hook h r = r\<lparr>pr_self := sl_hook (pr_strategy r) h (pr_self r)\<rparr>"

definition attach_broker :: "('s, 'x) PaperTradeRunner \<Rightarrow> ('s, 'x) PaperTradeRunner" where
  "attach_broker r = r\<lparr>pr_manager := (pr_manager r)\<lparr>mg_backend := Some (the_broker r)\<rparr>, pr_attached := True\<rparr>"

definition paper_start :: "('x \<Rightarrow> string option \<times> 'x) \<Rightarrow> ('s, 'x) PaperTradeRunner
    \<Rightarrow> (paper_error + unit) \<times> ('s, 'x) PaperTradeRunner" where
  "paper_start connect r =
     (if pr_started r then (Inl AlreadyStarted, r)
      else case connect (the_broker r) of
        (Some e, x) \<Rightarrow> (Inl (ConnectFailed e), set_broker x r)
      | (None, x) \<Rightarrow>
          (Inr (), (invoke_hook OnMarketOpen (attach_broker (set_broker x r)))\<lparr>pr_started := True, pr_running := True\<rparr>))"

definition paper_stop :: "('x \<Rightarrow> 'x) \<Rightarrow> ('s, 'x) PaperTradeRunner \<Rightarrow> ('s, 'x) PaperTradeRunner" where
  "paper_stop disconnect r =
     (if \<not> pr_started r then r
      else let r1 = invoke_hook OnMarketClose (r\<lparr>pr_running := False\<rparr>)
        in (set_broker (disconnect (the_broker r1)) r1)\<lparr>pr_started := False\<rparr>)"

section \<open>A tick\<close>

definition call_strategy :: "PortfolioSnapshot \<Rightarrow> MarketState \<Rightarrow> ('s, 'x) PaperTradeRunner
    \<Rightarrow> (paper_error + Signal list) \<times> ('s, 'x) PaperTradeRunner" where
  "call_strategy snapshot market r =
     (case sl_evaluate (pr_strategy r) of
        Some evaluate \<Rightarrow>
          (case evaluate snapshot market (pr_self r) of
             (Inl e, s) \<Rightarrow> (Inl (StrategyRaised e), r\<lparr>pr_self := s\<rparr>) | (Inr sgs, s) \<Rightarrow> (Inr sgs, r\<lparr>pr_self := s\<rparr>))
      | None \<Rightarrow> (case sl_on_bar (pr_strategy r) of
          Some on_bar \<Rightarrow>
            (case on_bar market snapshot (pr_self r) of
               (Inl e, s) \<Rightarrow> (Inl (StrategyRaised e), r\<lparr>pr_self := s\<rparr>) | (Inr sgs, s) \<Rightarrow> (Inr sgs, r\<lparr>pr_self := s\<rparr>))
        | None \<Rightarrow> (Inl (NoEvaluate (strategy_id r)), r)))"

definition tally :: "(PaperTradeStats \<Rightarrow> PaperTradeStats) \<Rightarrow> ('s, 'x) PaperTradeRunner \<Rightarrow> ('s, 'x) PaperTradeRunner" where
  "tally f r = r\<lparr>pr_stats := f (pr_stats r)\<rparr>"

definition evaluate_strategy :: "PortfolioSnapshot \<Rightarrow> MarketState \<Rightarrow> ('s, 'x) PaperTradeRunner
    \<Rightarrow> (paper_error + Signal list) \<times> ('s, 'x) PaperTradeRunner" where
  "evaluate_strategy snapshot market r =
     (case call_strategy snapshot market r of
        (Inr sgs, r') \<Rightarrow> (Inr sgs, r')
      | (Inl e, r') \<Rightarrow>
          let r1 = tally (\<lambda>s. s\<lparr>evaluation_errors := evaluation_errors s + 1\<rparr>) r' in
          if pc_stop_on_error (pr_config r1) then (Inl e, r1) else (Inr [], r1))"

definition record_order_outcome :: "OmOrder \<Rightarrow> PaperTradeStats \<Rightarrow> PaperTradeStats" where
  "record_order_outcome ord s =
     (if om_status ord = OM_FILLED then s\<lparr>orders_filled := orders_filled s + 1\<rparr>
      else if om_status ord = OM_PARTIALLY_FILLED then s\<lparr>orders_filled := orders_filled s + 1\<rparr>
      else if om_status ord = OM_REJECTED \<or> om_status ord = OM_RISK_REJECTED
        then s\<lparr>orders_rejected := orders_rejected s + 1\<rparr>
      else if om_status ord = OM_FAILED then s\<lparr>orders_failed := orders_failed s + 1\<rparr>
      else s)"

definition fill_note :: "OmOrder \<Rightarrow> FillNote" where
  "fill_note ord = \<lparr>fn_order_id = om_id ord, fn_symbol = om_symbol ord, fn_side = signal_side_value (om_side ord),
     fn_quantity = om_fill_quantity ord, fn_fill_price = om_fill_price ord,
     fn_cost_breakdown = om_cost_breakdown ord\<rparr>"

definition route_signal :: "'x engine_env \<Rightarrow> Signal \<Rightarrow> MarketState \<Rightarrow> ('s, 'x) PaperTradeRunner
    \<Rightarrow> (paper_error + OmOrder option) \<times> ('s, 'x) PaperTradeRunner" where
  "route_signal env sg market r =
     (if sg_side sg = SIDE_HOLD
      then (Inr None, tally (\<lambda>s. s\<lparr>signals_skipped_hold := signals_skipped_hold s + 1\<rparr>) r)
      else case (case map_of (ms_prices market) (sg_symbol sg) of
                   Some price \<Rightarrow> if price \<le> 0 then None else Some price | None \<Rightarrow> None) of
        None \<Rightarrow> (Inr None, tally (\<lambda>s. s\<lparr>signals_no_price := signals_no_price s + 1\<rparr>) r)
      | Some price \<Rightarrow>
          (case env_process env (pr_count r) sg price (pr_manager r) of
             (Inl e, mg) \<Rightarrow>
               let r1 = tally (\<lambda>s. s\<lparr>orders_failed := orders_failed s + 1\<rparr>)
                     (r\<lparr>pr_manager := mg, pr_count := pr_count r + 1\<rparr>) in
               if pc_stop_on_error (pr_config r1) then (Inl (OrderRaised e), r1) else (Inr None, r1)
           | (Inr ord, mg) \<Rightarrow>
               let r1 = tally (\<lambda>s. record_order_outcome ord (s\<lparr>signals_routed := signals_routed s + 1\<rparr>))
                     (r\<lparr>pr_manager := mg, pr_count := pr_count r + 1\<rparr>)
               in (Inr (Some ord), if om_status ord = OM_FILLED then invoke_hook (OnOrderFill (fill_note ord)) r1 else r1)))"

fun route_signals :: "'x engine_env \<Rightarrow> MarketState \<Rightarrow> Signal list \<Rightarrow> OmOrder list \<Rightarrow> ('s, 'x) PaperTradeRunner
    \<Rightarrow> (paper_error + OmOrder list) \<times> ('s, 'x) PaperTradeRunner" where
  "route_signals env market [] orders r = (Inr orders, r)"
| "route_signals env market (sg # sgs) orders r =
     (case route_signal env sg market r of
        (Inl e, r') \<Rightarrow> (Inl e, r')
      | (Inr None, r') \<Rightarrow> route_signals env market sgs orders r'
      | (Inr (Some ord), r') \<Rightarrow> route_signals env market sgs (orders @ [ord]) r')"

definition stamp_instant :: "stamp \<Rightarrow> datetime" where
  "stamp_instant ts = (case ts of Naive w \<Rightarrow> w | Aware i w \<Rightarrow> i)"

text \<open>Mark to market, and date what is traded with the tick.\<close>

definition mark_tick :: "MarketState \<Rightarrow> ('s, 'x) PaperTradeRunner \<Rightarrow> ('s, 'x) PaperTradeRunner" where
  "mark_tick market r =
     (let mg = pr_manager r in
      r\<lparr>pr_manager := mg\<lparr>mg_portfolio := (update_prices (ms_prices market) (mg_portfolio mg))
          \<lparr>pf_transaction_date := Some (stamp_instant (ms_timestamp market))\<rparr>\<rparr>,
        pr_last_market_state := Some market\<rparr>)"

definition process_tick :: "'x engine_env \<Rightarrow> MarketState \<Rightarrow> ('s, 'x) PaperTradeRunner
    \<Rightarrow> (paper_error + OmOrder list) \<times> ('s, 'x) PaperTradeRunner" where
  "process_tick env market r =
     (let r1 = mark_tick market (tally (\<lambda>s. s\<lparr>ticks_processed := ticks_processed s + 1\<rparr>) r) in
      case evaluate_strategy (pf_snapshot (mg_portfolio (pr_manager r1))) market r1 of
        (Inl e, r2) \<Rightarrow> (Inl e, r2)
      | (Inr sgs, r2) \<Rightarrow>
          route_signals env market sgs []
            (tally (\<lambda>s. s\<lparr>evaluations := evaluations s + 1,
                          signals_emitted := signals_emitted s + int (length sgs)\<rparr>) r2))"

fun process_feed :: "'x engine_env \<Rightarrow> ('x \<Rightarrow> 'x) \<Rightarrow> (bool \<times> MarketState) list \<Rightarrow> ('s, 'x) PaperTradeRunner
    \<Rightarrow> (paper_error + unit) \<times> ('s, 'x) PaperTradeRunner" where
  "process_feed env disconnect [] r = (Inr (), r)"
| "process_feed env disconnect ((stopped, market) # feed) r0 =
     (let r = (if stopped then paper_stop disconnect r0 else r0) in
      if \<not> pr_running r then (Inr (), r)
      else case process_tick env market r of
        (Inl e, r') \<Rightarrow> (Inl e, r')
      | (Inr orders, r') \<Rightarrow>
          (case pc_max_ticks (pr_config r') of
             Some n \<Rightarrow> if n \<le> ticks_processed (pr_stats r') then (Inr (), r') else process_feed env disconnect feed r'
           | None \<Rightarrow> process_feed env disconnect feed r'))"

text \<open>\<open>start\<close>, the feed, and \<open>stop\<close> in a \<open>finally\<close>.\<close>

definition paper_trade :: "'x engine_env \<Rightarrow> ('x \<Rightarrow> string option \<times> 'x) \<Rightarrow> ('x \<Rightarrow> 'x) \<Rightarrow> (bool \<times> MarketState) list
    \<Rightarrow> ('s, 'x) PaperTradeRunner \<Rightarrow> (paper_error + PaperTradeStats) \<times> ('s, 'x) PaperTradeRunner" where
  "paper_trade env connect disconnect feed r =
     (case paper_start connect r of
        (Inl e, r1) \<Rightarrow> (Inl e, r1)
      | (Inr u, r1) \<Rightarrow>
          (case process_feed env disconnect feed r1 of
             (res, r2) \<Rightarrow>
               let r3 = paper_stop disconnect r2 in
               (case res of Inl e \<Rightarrow> (Inl e, r3) | Inr u \<Rightarrow> (Inr (pr_stats r3), r3))))"

section \<open>The statistics add up\<close>

lemma process_signal_status:
  assumes "process_signal estimate execute emit oid fresh now sg price vol mg = (Inr ord, mg')"
  shows "om_status ord \<in> {OM_FILLED, OM_PARTIALLY_FILLED, OM_REJECTED, OM_RISK_REJECTED, OM_FAILED}"
proof (cases rule: process_signal_cases [OF refl refl, where sg = sg and price = price and mg = mg
      and estimate = estimate and vol = vol and execute = execute and emit = emit and oid = oid
      and fresh = fresh and now = now])
  case (1 o1 re)
  then show ?thesis using assms by auto
next
  case (2 o1 x fill x' re)
  then have "ord = om_transition now OM_FAILED (Said (fr_reason fill)) o1" using assms by simp
  then show ?thesis by (simp add: om_transition_def)
next
  case (3 o1 x fill x' re p e)
  then have "ord = record_fill now fill o1" using assms by (cases e) simp_all
  then show ?thesis by (simp add: record_fill_def om_transition_def Let_def)
qed

definition outcomes :: "PaperTradeStats \<Rightarrow> int" where
  "outcomes s = orders_filled s + orders_rejected s + orders_failed s"

definition accounted :: "PaperTradeStats \<Rightarrow> int" where
  "accounted s = signals_skipped_hold s + signals_no_price s + outcomes s"

text \<open>The counters that routing leaves alone.\<close>

definition same_evaluations :: "PaperTradeStats \<Rightarrow> PaperTradeStats \<Rightarrow> bool" where
  "same_evaluations s s' \<longleftrightarrow> ticks_processed s' = ticks_processed s \<and> evaluations s' = evaluations s
     \<and> evaluation_errors s' = evaluation_errors s \<and> signals_emitted s' = signals_emitted s"

lemma same_evaluations_trans: "same_evaluations s t \<Longrightarrow> same_evaluations t u \<Longrightarrow> same_evaluations s u"
  by (simp add: same_evaluations_def)

lemma record_order_outcome_stats:
  assumes "om_status ord \<in> {OM_FILLED, OM_PARTIALLY_FILLED, OM_REJECTED, OM_RISK_REJECTED, OM_FAILED}"
  shows "same_evaluations s (record_order_outcome ord s)" "outcomes (record_order_outcome ord s) = outcomes s + 1"
    "accounted (record_order_outcome ord s) = accounted s + 1"
    "signals_routed (record_order_outcome ord s) = signals_routed s"
  using assms by (auto simp: record_order_outcome_def same_evaluations_def outcomes_def accounted_def)

lemma tally_simps [simp]:
  "pr_stats (tally f r) = f (pr_stats r)" "pr_config (tally f r) = pr_config r" "pr_manager (tally f r) = pr_manager r"
  "pr_count (tally f r) = pr_count r" "pr_started (tally f r) = pr_started r" "pr_running (tally f r) = pr_running r"
  "pr_attached (tally f r) = pr_attached r" "pr_strategy (tally f r) = pr_strategy r"
  by (simp_all add: tally_def)

lemma invoke_hook_simps [simp]:
  "pr_stats (invoke_hook h r) = pr_stats r" "pr_config (invoke_hook h r) = pr_config r"
  "pr_manager (invoke_hook h r) = pr_manager r" "pr_count (invoke_hook h r) = pr_count r"
  "pr_started (invoke_hook h r) = pr_started r" "pr_running (invoke_hook h r) = pr_running r"
  "pr_attached (invoke_hook h r) = pr_attached r" "pr_broker (invoke_hook h r) = pr_broker r"
  by (simp_all add: invoke_hook_def)

text \<open>One signal: one more outcome, and what kind of result it has.\<close>

lemma route_signal_stats:
  assumes "route_signal env sg market r = (res, r')"
  shows "same_evaluations (pr_stats r) (pr_stats r') \<and> pr_config r' = pr_config r
    \<and> accounted (pr_stats r') = accounted (pr_stats r) + 1
    \<and> signals_routed (pr_stats r') - signals_routed (pr_stats r) \<le> outcomes (pr_stats r') - outcomes (pr_stats r)
    \<and> signals_routed (pr_stats r) \<le> signals_routed (pr_stats r')
    \<and> (\<forall>e. res = Inl e \<longrightarrow> pc_stop_on_error (pr_config r))
    \<and> pr_started r' = pr_started r \<and> pr_running r' = pr_running r"
proof -
  let ?price = "case map_of (ms_prices market) (sg_symbol sg) of
    Some price \<Rightarrow> if price \<le> 0 then None else Some price | None \<Rightarrow> None"
  show ?thesis
  proof (cases "sg_side sg = SIDE_HOLD \<or> ?price = None")
    case True
    then show ?thesis using assms
      by (cases "sg_side sg = SIDE_HOLD") (auto simp: route_signal_def same_evaluations_def outcomes_def accounted_def)
  next
    case False
    then obtain price where price: "?price = Some price" by blast
    obtain out mg where p: "env_process env (pr_count r) sg price (pr_manager r) = (out, mg)"
      by (cases "env_process env (pr_count r) sg price (pr_manager r)")
    show ?thesis
    proof (cases out)
      case (Inl e)
      then show ?thesis using assms False price p
        by (auto simp: route_signal_def Let_def same_evaluations_def outcomes_def accounted_def split: if_splits)
    next
      case (Inr ord)
      have "om_status ord \<in> {OM_FILLED, OM_PARTIALLY_FILLED, OM_REJECTED, OM_RISK_REJECTED, OM_FAILED}"
        using p process_signal_status unfolding Inr env_process_def by fast
      note stats = record_order_outcome_stats [OF this]
      have r': "pr_stats r' = record_order_outcome ord ((pr_stats r)\<lparr>signals_routed := signals_routed (pr_stats r) + 1\<rparr>)"
          "pr_config r' = pr_config r" "res = Inr (Some ord)" "pr_started r' = pr_started r" "pr_running r' = pr_running r"
        using assms False price p Inr by (cases "om_status ord = OM_FILLED"; auto simp: route_signal_def Let_def)+
      show ?thesis unfolding r' stats(2-4) using stats(1) [of "(pr_stats r)\<lparr>signals_routed := signals_routed (pr_stats r) + 1\<rparr>"]
        by (simp add: same_evaluations_def outcomes_def accounted_def)
    qed
  qed
qed

lemma route_signals_stats:
  assumes "route_signals env market sgs orders r = (res, r')"
  shows "same_evaluations (pr_stats r) (pr_stats r') \<and> pr_config r' = pr_config r
    \<and> accounted (pr_stats r') \<le> accounted (pr_stats r) + int (length sgs)
    \<and> (\<forall>os. res = Inr os \<longrightarrow> accounted (pr_stats r') = accounted (pr_stats r) + int (length sgs))
    \<and> signals_routed (pr_stats r') - signals_routed (pr_stats r) \<le> outcomes (pr_stats r') - outcomes (pr_stats r)
    \<and> signals_routed (pr_stats r) \<le> signals_routed (pr_stats r')
    \<and> (\<forall>e. res = Inl e \<longrightarrow> pc_stop_on_error (pr_config r))
    \<and> pr_started r' = pr_started r \<and> pr_running r' = pr_running r"
  using assms
proof (induction sgs arbitrary: orders r)
  case (Cons sg sgs)
  obtain out r1 where one: "route_signal env sg market r = (out, r1)" by (cases "route_signal env sg market r")
  note s = route_signal_stats [OF one]
  show ?case
  proof (cases out)
    case (Inl e)
    then show ?thesis using Cons.prems one s by auto
  next
    case (Inr found)
    then obtain orders' where rest: "route_signals env market sgs orders' r1 = (res, r')"
      using Cons.prems one by (cases found) auto
    show ?thesis using Cons.IH [OF rest] s same_evaluations_trans by auto
  qed
qed (auto simp: same_evaluations_def)

text \<open>The ledger of a run; the last tick may have ended early when errors end the run.\<close>

definition ledger_ok :: "bool \<Rightarrow> PaperTradeStats \<Rightarrow> bool" where
  "ledger_ok whole s \<longleftrightarrow>
     accounted s \<le> signals_emitted s \<and> evaluations s \<le> ticks_processed s \<and> ticks_processed s \<le> evaluations s + 1
     \<and> (whole \<longrightarrow> accounted s = signals_emitted s \<and> evaluations s = ticks_processed s)
     \<and> 0 \<le> evaluation_errors s \<and> evaluation_errors s \<le> ticks_processed s
     \<and> 0 \<le> signals_routed s \<and> signals_routed s \<le> outcomes s"

lemma evaluate_strategy_stats:
  assumes "evaluate_strategy snapshot market r = (res, r')"
  shows "pr_config r' = pr_config r \<and> pr_started r' = pr_started r \<and> pr_running r' = pr_running r
    \<and> pr_manager r' = pr_manager r \<and> pr_count r' = pr_count r \<and> pr_attached r' = pr_attached r
    \<and> (\<exists>k\<in>{0, 1}. pr_stats r' = (pr_stats r)\<lparr>evaluation_errors := evaluation_errors (pr_stats r) + k\<rparr>)
    \<and> (\<forall>e. res = Inl e \<longrightarrow> pc_stop_on_error (pr_config r))"
proof -
  obtain out r1 where c: "call_strategy snapshot market r = (out, r1)" by (cases "call_strategy snapshot market r")
  then have same: "pr_config r1 = pr_config r" "pr_started r1 = pr_started r" "pr_running r1 = pr_running r"
      "pr_stats r1 = pr_stats r" "pr_manager r1 = pr_manager r" "pr_count r1 = pr_count r" "pr_attached r1 = pr_attached r"
    by (auto simp: call_strategy_def split: option.splits prod.splits sum.splits)
  show ?thesis
  proof (cases out)
    case (Inl e)
    then have "r' = tally (\<lambda>s. s\<lparr>evaluation_errors := evaluation_errors s + 1\<rparr>) r1"
        "(\<forall>e. res = Inl e \<longrightarrow> pc_stop_on_error (pr_config r1))"
      using assms c by (auto simp: evaluate_strategy_def Let_def split: if_splits)
    then show ?thesis using same by simp
  next
    case (Inr sgs)
    then show ?thesis using assms c same by (auto simp: evaluate_strategy_def)
  qed
qed

lemma process_tick_stats:
  assumes "process_tick env market r = (res, r')" "ledger_ok True (pr_stats r)"
  shows "ledger_ok (\<exists>os. res = Inr os) (pr_stats r') \<and> pr_config r' = pr_config r
    \<and> ticks_processed (pr_stats r') = ticks_processed (pr_stats r) + 1
    \<and> (\<forall>e. res = Inl e \<longrightarrow> pc_stop_on_error (pr_config r))
    \<and> pr_started r' = pr_started r \<and> pr_running r' = pr_running r"
proof -
  define r1 where "r1 = mark_tick market (tally (\<lambda>s. s\<lparr>ticks_processed := ticks_processed s + 1\<rparr>) r)"
  have r1: "pr_stats r1 = (pr_stats r)\<lparr>ticks_processed := ticks_processed (pr_stats r) + 1\<rparr>"
      "pr_config r1 = pr_config r" "pr_started r1 = pr_started r" "pr_running r1 = pr_running r"
    by (simp_all add: r1_def mark_tick_def Let_def)
  obtain out r2 where e: "evaluate_strategy (pf_snapshot (mg_portfolio (pr_manager r1))) market r1 = (out, r2)"
    by (cases "evaluate_strategy (pf_snapshot (mg_portfolio (pr_manager r1))) market r1")
  note s2 = evaluate_strategy_stats [OF e]
  then obtain k where k: "k \<in> {0, 1}" "pr_stats r2 = (pr_stats r1)\<lparr>evaluation_errors := evaluation_errors (pr_stats r1) + k\<rparr>"
    by blast
  show ?thesis
  proof (cases out)
    case (Inl err)
    then have "res = Inl err" "r' = r2" using assms(1) e by (simp_all add: process_tick_def flip: r1_def)
    then show ?thesis using s2 k assms(2) Inl
      by (auto simp: ledger_ok_def accounted_def outcomes_def r1)
  next
    case (Inr sgs)
    let ?r3 = "tally (\<lambda>s. s\<lparr>evaluations := evaluations s + 1, signals_emitted := signals_emitted s + int (length sgs)\<rparr>) r2"
    have "route_signals env market sgs [] ?r3 = (res, r')"
      using assms(1) e Inr by (simp add: process_tick_def flip: r1_def)
    note s3 = route_signals_stats [OF this]
    have "accounted (pr_stats ?r3) = accounted (pr_stats r)" "outcomes (pr_stats ?r3) = outcomes (pr_stats r)"
        "signals_routed (pr_stats ?r3) = signals_routed (pr_stats r)"
      by (simp_all add: accounted_def outcomes_def k(2) r1)
    note a = this
    have f: "ticks_processed (pr_stats r') = ticks_processed (pr_stats r) + 1"
        "evaluations (pr_stats r') = evaluations (pr_stats r) + 1"
        "evaluation_errors (pr_stats r') = evaluation_errors (pr_stats r) + k"
        "signals_emitted (pr_stats r') = signals_emitted (pr_stats r) + int (length sgs)"
      using s3 by (simp_all add: same_evaluations_def k(2) r1(1))
    have g: "accounted (pr_stats r') \<le> accounted (pr_stats r) + int (length sgs)"
        "\<forall>os. res = Inr os \<longrightarrow> accounted (pr_stats r') = accounted (pr_stats r) + int (length sgs)"
        "signals_routed (pr_stats r') - signals_routed (pr_stats r) \<le> outcomes (pr_stats r') - outcomes (pr_stats r)"
        "signals_routed (pr_stats r) \<le> signals_routed (pr_stats r')"
      using s3 unfolding a by blast+
    have h: "pr_config r' = pr_config r" "\<forall>e. res = Inl e \<longrightarrow> pc_stop_on_error (pr_config r)"
        "pr_started r' = pr_started r" "pr_running r' = pr_running r"
      using s3 s2 r1 by simp_all
    have "ledger_ok (\<exists>os. res = Inr os) (pr_stats r')"
      using assms(2) k(1) f g unfolding ledger_ok_def by (elim conjE insertE) auto
    then show ?thesis using f(1) h by blast
  qed
qed

lemma paper_stop_simps [simp]:
  "pr_stats (paper_stop disconnect r) = pr_stats r" "pr_config (paper_stop disconnect r) = pr_config r"
  "\<not> pr_started (paper_stop disconnect r)"
  by (simp_all add: paper_stop_def set_broker_def Let_def)


lemma process_feed_stats:
  assumes "process_feed env disconnect feed r = (res, r')" "ledger_ok True (pr_stats r)"
  shows "ledger_ok (\<exists>u. res = Inr u) (pr_stats r') \<and> pr_config r' = pr_config r
    \<and> (\<forall>e. res = Inl e \<longrightarrow> pc_stop_on_error (pr_config r))
    \<and> ticks_processed (pr_stats r) \<le> ticks_processed (pr_stats r')
    \<and> (\<forall>n. pc_max_ticks (pr_config r) = Some n \<longrightarrow>
         ticks_processed (pr_stats r') \<le> max (ticks_processed (pr_stats r) + 1) n)"
  using assms
proof (induction feed arbitrary: r)
  case (Cons tick feed)
  obtain stopped market where tick: "tick = (stopped, market)" by (cases tick)
  define r0 where "r0 = (if stopped then paper_stop disconnect r else r)"
  have r0: "pr_stats r0 = pr_stats r" "pr_config r0 = pr_config r" by (simp_all add: r0_def)
  note run = Cons.prems(1) [unfolded tick process_feed.simps, folded r0_def, unfolded Let_def]
  show ?case
  proof (cases "pr_running r0")
    case False
    then have "res = Inr ()" "r' = r0" using run by simp_all
    then show ?thesis using Cons.prems(2) r0 by auto
  next
    case True
    obtain out r1 where one: "process_tick env market r0 = (out, r1)" by (cases "process_tick env market r0")
    have ok0: "ledger_ok True (pr_stats r0)" using Cons.prems(2) r0 by simp
    note s = process_tick_stats [OF one ok0]
    show ?thesis
    proof (cases out)
      case (Inl e)
      then have "res = Inl e" "r' = r1" using run True one by simp_all
      then show ?thesis using s r0 Inl by auto
    next
      case (Inr orders)
      note ok1 = s [unfolded Inr, simplified]
      show ?thesis
      proof (cases "\<exists>n. pc_max_ticks (pr_config r1) = Some n \<and> n \<le> ticks_processed (pr_stats r1)")
        case True
        then have "res = Inr ()" "r' = r1" using run \<open>pr_running r0\<close> one Inr by auto
        then show ?thesis using ok1 r0 by auto
      next
        case False
        then have "process_feed env disconnect feed r1 = (res, r')"
          using run \<open>pr_running r0\<close> one Inr by (auto split: option.splits if_splits)
        from Cons.IH [OF this] False ok1 r0 show ?thesis by (auto simp: max_def not_le)
      qed
    qed
  qed
qed auto

lemma paper_start_stats:
  assumes "paper_start connect r = (res, r')"
  shows "pr_stats r' = pr_stats r \<and> pr_config r' = pr_config r
    \<and> (\<forall>e. res = Inl e \<longrightarrow> e = AlreadyStarted \<or> (\<exists>why. e = ConnectFailed why))"
proof -
  have same: "pr_stats (set_broker x q) = pr_stats q" "pr_config (set_broker x q) = pr_config q"
      "pr_stats (attach_broker q) = pr_stats q" "pr_config (attach_broker q) = pr_config q" for x and q :: "('a, 'b) PaperTradeRunner"
    by (simp_all add: set_broker_def attach_broker_def)
  show ?thesis using assms by (auto simp: paper_start_def same split: if_splits prod.splits option.splits)
qed

text \<open>
  C6.  The statistics of a paper-trading session add up: starting from none, when the session ends without an
  exception every signal the strategy emitted is exactly one of held, without a price, filled,
  rejected or failed, every tick was evaluated, and a cap on the ticks is kept; whatever happens, no
  more signals are accounted for than were emitted, the session is stopped at its end, and
  unless errors are to stop it, only the start can fail.
\<close>

theorem paper_session_adds_up:
  assumes "pr_stats r = no_ticks" "paper_trade env connect disconnect feed r = (res, r')"
  shows "ledger_ok (\<exists>s. res = Inr s) (pr_stats r')
    \<and> (\<forall>s. res = Inr s \<longrightarrow> s = pr_stats r' \<and> accounted s = signals_emitted s \<and> evaluations s = ticks_processed s
         \<and> \<not> pr_started r' \<and> (\<forall>n. pc_max_ticks (pr_config r) = Some n \<longrightarrow> ticks_processed s \<le> max 1 n))
    \<and> (\<forall>e. res = Inl e \<longrightarrow> pc_stop_on_error (pr_config r) \<or> e = AlreadyStarted \<or> (\<exists>why. e = ConnectFailed why))"
proof -
  obtain out r1 where start: "paper_start connect r = (out, r1)" by (cases "paper_start connect r")
  note s1 = paper_start_stats [OF start]
  have ok1: "ledger_ok True (pr_stats r1)"
    using s1 assms(1) by (simp add: ledger_ok_def no_ticks_def accounted_def outcomes_def)
  show ?thesis
  proof (cases out)
    case (Inl e)
    then have "res = Inl e" "r' = r1" using assms(2) start by (simp_all add: paper_trade_def)
    then show ?thesis using s1 ok1 Inl by (auto simp: ledger_ok_def)
  next
    case (Inr u)
    obtain fed r2 where feed: "process_feed env disconnect feed r1 = (fed, r2)"
      by (cases "process_feed env disconnect feed r1")
    have r': "r' = paper_stop disconnect r2" "res = (case fed of Inl e \<Rightarrow> Inl e | Inr u \<Rightarrow> Inr (pr_stats r2))"
      using assms(2) start Inr feed by (auto simp: paper_trade_def Let_def split: sum.splits)
    note s2 = process_feed_stats [OF feed ok1]
    have none: "ticks_processed (pr_stats r1) = 0" using s1 assms(1) by (simp add: no_ticks_def)
    show ?thesis
    proof (cases fed)
      case (Inl e)
      then show ?thesis using s1 s2 by (auto simp: r')
    next
      case (Inr u')
      have "ledger_ok True (pr_stats r2)" using s2 Inr by simp
      then show ?thesis using s1 s2 none Inr by (auto simp: r' ledger_ok_def)
    qed
  qed
qed

section \<open>The books of a session\<close>

lemma route_signals_broker:
  "route_signals env market sgs orders r = (res, r') \<Longrightarrow> pr_broker r' = pr_broker r"
proof (induction sgs arbitrary: orders r)
  case (Cons sg sgs)
  obtain out r1 where one: "route_signal env sg market r = (out, r1)" by (cases "route_signal env sg market r")
  have same: "pr_broker r1 = pr_broker r"
    using one by (auto simp: route_signal_def Let_def tally_def split: if_splits option.splits prod.splits sum.splits)
  show ?case
  proof (cases out)
    case (Inr found)
    then obtain orders' where "route_signals env market sgs orders' r1 = (res, r')"
      using Cons.prems one by (cases found) auto
    then show ?thesis using Cons.IH same by simp
  qed (use Cons.prems one same in simp)
qed simp

lemma process_tick_broker: "process_tick env market r = (res, r') \<Longrightarrow> pr_broker r' = pr_broker r"
proof -
  assume run: "process_tick env market r = (res, r')"
  define r1 where "r1 = mark_tick market (tally (\<lambda>s. s\<lparr>ticks_processed := ticks_processed s + 1\<rparr>) r)"
  obtain out r2 where e: "evaluate_strategy (pf_snapshot (mg_portfolio (pr_manager r1))) market r1 = (out, r2)"
    by (cases "evaluate_strategy (pf_snapshot (mg_portfolio (pr_manager r1))) market r1")
  have "pr_broker r2 = pr_broker r"
    using e by (auto simp: evaluate_strategy_def call_strategy_def Let_def tally_def r1_def mark_tick_def
        split: if_splits option.splits prod.splits sum.splits)
  moreover have "pr_broker r' = pr_broker r2"
  proof (cases out)
    case (Inr sgs)
    then have "route_signals env market sgs [] (tally (\<lambda>s. s\<lparr>evaluations := evaluations s + 1,
        signals_emitted := signals_emitted s + int (length sgs)\<rparr>) r2) = (res, r')"
      using run e by (simp add: process_tick_def flip: r1_def)
    from route_signals_broker [OF this] show ?thesis by (simp add: tally_def)
  qed (use run e in \<open>simp add: process_tick_def flip: r1_def\<close>)
  ultimately show ?thesis by simp
qed

text \<open>Books, backend and broker of a runner, in one predicate.\<close>

definition session_ok :: "('x \<Rightarrow> bool) \<Rightarrow> 'x engine_env \<Rightarrow> ('s, 'x) PaperTradeRunner \<Rightarrow> bool" where
  "session_ok valid env r \<longleftrightarrow> books_from (en_lot_id env) (pr_count r) (mg_portfolio (pr_manager r))
     \<and> (\<forall>x. mg_backend (pr_manager r) = Some x \<longrightarrow> valid x) \<and> valid (pr_broker r)"

context positive_backend
begin

lemma route_signal_books:
  assumes "en_execute env = execute" "inj (en_lot_id env)"
    and "books_from (en_lot_id env) (pr_count r) (mg_portfolio (pr_manager r))"
    and "\<forall>x. mg_backend (pr_manager r) = Some x \<longrightarrow> valid x"
    and "route_signal env sg market r = (res, r')"
  shows "books_from (en_lot_id env) (pr_count r') (mg_portfolio (pr_manager r'))
    \<and> (\<forall>x. mg_backend (pr_manager r') = Some x \<longrightarrow> valid x)"
proof (cases "(pr_count r', pr_manager r') = (pr_count r, pr_manager r)")
  case True
  then show ?thesis using assms(3,4) by simp
next
  case False
  then obtain price out mg where p: "env_process env (pr_count r) sg price (pr_manager r) = (out, mg)"
      "pr_count r' = Suc (pr_count r)" "pr_manager r' = mg"
    using assms(5) by (auto simp: route_signal_def Let_def split: if_splits option.splits prod.splits sum.splits)
  show ?thesis using signal_books [OF assms(1-4) p(1)] p(2,3) by simp
qed

lemma route_signals_books:
  assumes "en_execute env = execute" "inj (en_lot_id env)"
    and "books_from (en_lot_id env) (pr_count r) (mg_portfolio (pr_manager r))"
    and "\<forall>x. mg_backend (pr_manager r) = Some x \<longrightarrow> valid x"
    and "route_signals env market sgs orders r = (res, r')"
  shows "books_from (en_lot_id env) (pr_count r') (mg_portfolio (pr_manager r'))
    \<and> (\<forall>x. mg_backend (pr_manager r') = Some x \<longrightarrow> valid x)"
  using assms(3-5)
proof (induction sgs arbitrary: orders r)
  case (Cons sg sgs)
  obtain out r1 where one: "route_signal env sg market r = (out, r1)" by (cases "route_signal env sg market r")
  note b = route_signal_books [OF assms(1,2) Cons.prems(1,2) one]
  show ?case
  proof (cases out)
    case (Inl e)
    then show ?thesis using Cons.prems(3) one b by simp
  next
    case (Inr found)
    then obtain orders' where "route_signals env market sgs orders' r1 = (res, r')"
      using Cons.prems(3) one by (cases found) auto
    then show ?thesis by (rule Cons.IH [OF conjunct1 [OF b] conjunct2 [OF b]])
  qed
qed simp

lemma process_tick_books:
  assumes "en_execute env = execute" "inj (en_lot_id env)"
    and "books_from (en_lot_id env) (pr_count r) (mg_portfolio (pr_manager r))"
    and "\<forall>x. mg_backend (pr_manager r) = Some x \<longrightarrow> valid x"
    and "process_tick env market r = (res, r')"
  shows "books_from (en_lot_id env) (pr_count r') (mg_portfolio (pr_manager r'))
    \<and> (\<forall>x. mg_backend (pr_manager r') = Some x \<longrightarrow> valid x)"
proof -
  define r1 where "r1 = mark_tick market (tally (\<lambda>s. s\<lparr>ticks_processed := ticks_processed s + 1\<rparr>) r)"
  have r1: "books_from (en_lot_id env) (pr_count r1) (mg_portfolio (pr_manager r1))"
      "\<forall>x. mg_backend (pr_manager r1) = Some x \<longrightarrow> valid x"
    using assms(3,4) by (simp_all add: r1_def mark_tick_def Let_def books_from_prices books_from_date)
  obtain out r2 where e: "evaluate_strategy (pf_snapshot (mg_portfolio (pr_manager r1))) market r1 = (out, r2)"
    by (cases "evaluate_strategy (pf_snapshot (mg_portfolio (pr_manager r1))) market r1")
  note s2 = evaluate_strategy_stats [OF e]
  show ?thesis
  proof (cases out)
    case (Inl err)
    then have "r' = r2" using assms(5) e by (simp add: process_tick_def flip: r1_def)
    then show ?thesis using s2 r1 by simp
  next
    case (Inr sgs)
    then have run: "route_signals env market sgs [] (tally (\<lambda>s. s\<lparr>evaluations := evaluations s + 1,
        signals_emitted := signals_emitted s + int (length sgs)\<rparr>) r2) = (res, r')"
      using assms(5) e by (simp add: process_tick_def flip: r1_def)
    show ?thesis by (rule route_signals_books [OF assms(1,2) _ _ run]) (use s2 r1 in simp_all)
  qed
qed

lemma the_broker_valid: "session_ok valid env r \<Longrightarrow> valid (the_broker r)"
  by (auto simp: session_ok_def the_broker_def split: option.splits)

lemma set_broker_ok: "session_ok valid env r \<Longrightarrow> valid x \<Longrightarrow> session_ok valid env (set_broker x r)"
  by (auto simp: session_ok_def set_broker_def)

lemma session_hook: "session_ok valid env (invoke_hook h r) = session_ok valid env r"
  by (simp add: session_ok_def)

lemma session_flags:
  "session_ok valid env (r\<lparr>pr_running := b\<rparr>) = session_ok valid env r" "session_ok valid env (r\<lparr>pr_started := b\<rparr>) = session_ok valid env r"
  by (simp_all add: session_ok_def)

lemma stop_ok:
  assumes "\<forall>x. valid x \<longrightarrow> valid (disconnect x)" "session_ok valid env r"
  shows "session_ok valid env (paper_stop disconnect r)"
proof -
  have "session_ok valid env (invoke_hook OnMarketClose (r\<lparr>pr_running := False\<rparr>))"
    using assms(2) by (simp add: session_hook session_flags)
  from set_broker_ok [OF this] the_broker_valid [OF this] assms show ?thesis
    by (simp add: paper_stop_def Let_def session_flags)
qed

lemma start_ok:
  assumes "\<forall>x. valid x \<longrightarrow> valid (snd (connect x))" "session_ok valid env r" "paper_start connect r = (res, r')"
  shows "session_ok valid env r'"
proof -
  obtain e x where c: "connect (the_broker r) = (e, x)" by (cases "connect (the_broker r)")
  then have x: "valid x" using assms(1) the_broker_valid [OF assms(2)] by (metis snd_conv)
  note set = set_broker_ok [OF assms(2) x]
  have "session_ok valid env (attach_broker (set_broker x r))"
    using set the_broker_valid [OF set] by (simp add: session_ok_def attach_broker_def)
  then show ?thesis using assms(2,3) c set
    by (auto simp: paper_start_def session_hook session_flags split: if_splits option.splits)
qed

lemma process_feed_ok:
  assumes "en_execute env = execute" "inj (en_lot_id env)" "\<forall>x. valid x \<longrightarrow> valid (disconnect x)"
    and "session_ok valid env r" "process_feed env disconnect feed r = (res, r')"
  shows "session_ok valid env r'"
  using assms(4,5)
proof (induction feed arbitrary: r)
  case (Cons tick feed)
  obtain stopped market where tick: "tick = (stopped, market)" by (cases tick)
  define r0 where "r0 = (if stopped then paper_stop disconnect r else r)"
  have ok0: "session_ok valid env r0" using stop_ok [OF assms(3) Cons.prems(1)] Cons.prems(1) by (simp add: r0_def)
  note run = Cons.prems(2) [unfolded tick process_feed.simps, folded r0_def, unfolded Let_def]
  show ?case
  proof (cases "pr_running r0")
    case True
    obtain out r1 where one: "process_tick env market r0 = (out, r1)" by (cases "process_tick env market r0")
    have ok1: "session_ok valid env r1"
      using process_tick_books [OF assms(1,2) _ _ one] process_tick_broker [OF one] ok0 by (simp add: session_ok_def)
    show ?thesis
    proof (cases "r' = r1")
      case False
      then have "process_feed env disconnect feed r1 = (res, r')"
        using run True one by (auto split: sum.splits option.splits if_splits)
      then show ?thesis by (rule Cons.IH [OF ok1])
    qed (use ok1 in simp)
  qed (use run ok0 in simp)
qed simp

lemma paper_trade_ok:
  assumes "en_execute env = execute" "inj (en_lot_id env)" "\<forall>x. valid x \<longrightarrow> valid (disconnect x)"
    and "\<forall>x. valid x \<longrightarrow> valid (snd (connect x))" "session_ok valid env r"
    and "paper_trade env connect disconnect feed r = (res, r')"
  shows "session_ok valid env r'"
proof -
  obtain out r1 where start: "paper_start connect r = (out, r1)" by (cases "paper_start connect r")
  note ok1 = start_ok [OF assms(4,5) start]
  show ?thesis
  proof (cases out)
    case (Inr u)
    obtain fed r2 where feed: "process_feed env disconnect feed r1 = (fed, r2)"
      by (cases "process_feed env disconnect feed r1")
    have "r' = paper_stop disconnect r2"
      using assms(6) start Inr feed by (auto simp: paper_trade_def Let_def split: sum.splits)
    then show ?thesis using stop_ok [OF assms(3) process_feed_ok [OF assms(1-3) ok1 feed]] by simp
  qed (use assms(6) start ok1 in \<open>simp add: paper_trade_def\<close>)
qed

end

definition connect_paper :: "rat \<Rightarrow> 'g PaperExecutionBackend \<Rightarrow> string option \<times> 'g PaperExecutionBackend" where
  "connect_paper now x = (None, paper_connect now x)"

definition paper_env :: "estimator \<Rightarrow> (rat \<Rightarrow> rat \<Rightarrow> 'g \<Rightarrow> rat \<times> 'g) \<Rightarrow> ('g \<Rightarrow> nat \<times> 'g) \<Rightarrow> (FillPayload \<Rightarrow> string option)
    \<Rightarrow> (nat \<Rightarrow> string) \<Rightarrow> (nat \<Rightarrow> string) \<Rightarrow> (nat \<Rightarrow> datetime) \<Rightarrow> 'g PaperExecutionBackend engine_env" where
  "paper_env estimate gauss bits emit oids lots clk = \<lparr>en_estimate = estimate, en_execute = paper_execute gauss bits,
     en_emit = emit, en_order_id = oids, en_lot_id = lots, en_now = clk\<rparr>"

text \<open>
  A paper-trading session keeps the books: a runner that starts over a balanced portfolio with the paper
  backend ends, after any feed, any strategy, any exceptions and a \<open>stop\<close> between any two ticks,
  with every position equal to the sum of its tax lots.
\<close>

theorem paper_session_keeps_books:
  assumes "inj lots" "books_from lots (pr_count r) (mg_portfolio (pr_manager r))" "paper_valid (pr_broker r)"
    and "\<forall>x. mg_backend (pr_manager r) = Some x \<longrightarrow> paper_valid x"
    and "paper_trade (paper_env estimate gauss bits emit oids lots clk) (connect_paper t0) (paper_disconnect t1) feed r = (res, r')"
  shows "pf_ok (mg_portfolio (pr_manager r'))"
proof -
  have "session_ok paper_valid (paper_env estimate gauss bits emit oids lots clk) r'"
    by (rule px_pos.paper_trade_ok [OF _ _ _ _ _ assms(5)])
      (use assms(1-4) in \<open>simp_all add: paper_env_def session_ok_def connect_paper_def paper_valid_def
         paper_connect_def paper_disconnect_def px_emit_def\<close>)
  then show ?thesis by (simp add: session_ok_def books_from_def)
qed

definition sample_strategy :: "nat StrategyLike" where
  "sample_strategy = \<lparr>sl_id = None, sl_name = Some ''demo'', sl_evaluate = Some (\<lambda>snapshot market s. (Inr [sample_signal], s + 1)),
     sl_on_bar = None, sl_hook = (\<lambda>h s. s)\<rparr>"

definition sample_runner :: "(nat, nat PaperExecutionBackend) PaperTradeRunner" where
  "sample_runner = \<lparr>pr_config = default_paper_config\<lparr>pc_max_ticks := Some 1\<rparr>, pr_strategy = sample_strategy, pr_self = 0,
     pr_broker = sample_paper, pr_attached = False, pr_manager = (sample_manager sample_paper)\<lparr>mg_backend := None\<rparr>,
     pr_stats = no_ticks, pr_running = False, pr_started = False, pr_last_market_state = None, pr_count = 0\<rparr>"

definition sample_session :: "(paper_error + PaperTradeStats) \<times> (nat, nat PaperExecutionBackend) PaperTradeRunner" where
  "sample_session = paper_trade (paper_env (estimate_total default_cost_model) no_gauss sample_ticks (\<lambda>_. None)
     (\<lambda>n. ''o'') nth_lot int) (connect_paper 0) (paper_disconnect 1)
     [(False, empty_state (Naive 7) [(''A'', 100)]), (False, empty_state (Naive 8) [(''A'', 0)])] sample_runner"

theorem paper_session_adds_up_witness:
  "\<exists>s. fst sample_session = Inr s \<and> accounted s = signals_emitted s \<and> ticks_processed s \<le> 1"
proof -
  obtain res r' where run: "sample_session = (res, r')" by (cases sample_session)
  have "pr_stats sample_runner = no_ticks" by (simp add: sample_runner_def)
  note t = paper_session_adds_up [OF this run [unfolded sample_session_def]]
  have ok: "\<exists>s. res = Inr s"
  proof (cases res)
    case (Inl e)
    have "fst (paper_start (connect_paper 0) sample_runner) = Inr ()"
      by (simp add: paper_start_def sample_runner_def connect_paper_def)
    then obtain r1 where start: "paper_start (connect_paper 0) sample_runner = (Inr (), r1)" by (metis prod.collapse)
    obtain fed r2 where feed: "process_feed (paper_env (estimate_total default_cost_model) no_gauss sample_ticks (\<lambda>_. None)
        (\<lambda>n. ''o'') nth_lot int) (paper_disconnect 1)
        [(False, empty_state (Naive 7) [(''A'', 100)]), (False, empty_state (Naive 8) [(''A'', 0)])] r1 = (fed, r2)"
      by (metis prod.collapse)
    have "pr_stats r1 = no_ticks" "\<not> pc_stop_on_error (pr_config r1)"
      using paper_start_stats [OF start] by (simp_all add: sample_runner_def default_paper_config_def)
    then have "\<not> (\<exists>e. fed = Inl e)"
      using process_feed_stats [OF feed] by (auto simp: ledger_ok_def no_ticks_def accounted_def outcomes_def)
    then show ?thesis using run start feed
      by (cases fed) (auto simp: sample_session_def paper_trade_def Let_def)
  qed simp
  then obtain s where s: "res = Inr s" by blast
  have "accounted s = signals_emitted s" "ticks_processed s \<le> 1"
    using t s by (auto simp: sample_runner_def)
  then show ?thesis using run s by (metis fst_conv)
qed

end
