(* ===== verification/CorpActions.thy ===== *)
theory CorpActions
  imports Lifecycle
begin

text \<open>
  Corporate actions, \<open>engine/core/corp_actions.py\<close>: the log of splits, dividends, spinoffs, mergers and renames, and
  the back-adjustment of prices and volumes of earlier bars as of a date.

  A date is its ordinal.  The numbers of an action are any floats, infinite and NaN ones included, as given to the constructor; the
  constructor checks the one its type reads and keeps the other as it is.
\<close>

section \<open>Actions\<close>

datatype ActionType = SPLIT | CASH_DIVIDEND | SPINOFF | MERGER | SYMBOL_CHANGE

fun action_value :: "ActionType \<Rightarrow> string" where
  "action_value SPLIT = ''split''"
| "action_value CASH_DIVIDEND = ''cash_dividend''"
| "action_value SPINOFF = ''spinoff''"
| "action_value MERGER = ''merger''"
| "action_value SYMBOL_CHANGE = ''symbol_change''"

definition parse_action :: "string \<Rightarrow> ActionType option" where
  "parse_action s = find (\<lambda>a. action_value a = s) [SPLIT, CASH_DIVIDEND, SPINOFF, MERGER, SYMBOL_CHANGE]"

record CorporateAction =
  ca_type :: ActionType
  ca_symbol :: string
  ca_effective_date :: int
  ca_ratio :: "flt option"
  ca_cash_amount :: "flt option"
  ca_new_symbol :: "string option"

datatype ca_error =
  UnknownActionType string
| EmptySymbol
| RatioRequired ActionType
| CashAmountRequired
| CaNotFinite string
| RatioOutOfRange ActionType rat
| NegativeCashAmount ActionType rat
| MergerNeedsTerms
| MergerHasBothTerms
| NewSymbolRequired ActionType

definition ca_require_finite :: "flt \<Rightarrow> string \<Rightarrow> ca_error + rat" where
  "ca_require_finite v label = (case v of Fin x \<Rightarrow> Inr x | _ \<Rightarrow> Inl (CaNotFinite label))"

definition blank :: "string option \<Rightarrow> bool" where
  "blank s = (case s of None \<Rightarrow> True | Some t \<Rightarrow> py_strip t = [])"

text \<open>The checks of a ratio and of a cash amount: \<open>None\<close> when they pass.\<close>

definition check_ratio :: "ActionType \<Rightarrow> flt \<Rightarrow> ca_error option" where
  "check_ratio ty v = (case ca_require_finite v (action_value ty @ '' ratio'') of
     Inl e \<Rightarrow> Some e
   | Inr r \<Rightarrow> (if r \<le> 0 \<or> ty = SPINOFF \<and> 1 < r then Some (RatioOutOfRange ty r) else None))"

definition check_cash :: "ActionType \<Rightarrow> flt \<Rightarrow> ca_error option" where
  "check_cash ty v = (case ca_require_finite v (action_value ty @ '' cash_amount'') of
     Inl e \<Rightarrow> Some e
   | Inr c \<Rightarrow> (if c < 0 then Some (NegativeCashAmount ty c) else None))"

definition check_new_symbol :: "ActionType \<Rightarrow> string option \<Rightarrow> ca_error option" where
  "check_new_symbol ty new_symbol = (if blank new_symbol then Some (NewSymbolRequired ty) else None)"

text \<open>The branches of \<open>__post_init__\<close> by type.\<close>

fun check_terms :: "ActionType \<Rightarrow> flt option \<Rightarrow> flt option \<Rightarrow> string option \<Rightarrow> ca_error option" where
  "check_terms SPLIT ratio cash new_symbol =
     (case ratio of None \<Rightarrow> Some (RatioRequired SPLIT) | Some v \<Rightarrow> check_ratio SPLIT v)"
| "check_terms CASH_DIVIDEND ratio cash new_symbol =
     (case cash of None \<Rightarrow> Some CashAmountRequired | Some v \<Rightarrow> check_cash CASH_DIVIDEND v)"
| "check_terms SPINOFF ratio cash new_symbol =
     (case ratio of None \<Rightarrow> Some (RatioRequired SPINOFF) | Some v \<Rightarrow> check_ratio SPINOFF v)"
| "check_terms MERGER ratio cash new_symbol =
     (case (ratio, cash) of
        (None, None) \<Rightarrow> Some MergerNeedsTerms
      | (Some v, Some w) \<Rightarrow> Some MergerHasBothTerms
      | (Some v, None) \<Rightarrow> (case check_ratio MERGER v of
            Some e \<Rightarrow> Some e | None \<Rightarrow> check_new_symbol MERGER new_symbol)
      | (None, Some w) \<Rightarrow> check_cash MERGER w)"
| "check_terms SYMBOL_CHANGE ratio cash new_symbol = check_new_symbol SYMBOL_CHANGE new_symbol"

definition new_action ::
  "string \<Rightarrow> string \<Rightarrow> int \<Rightarrow> flt option \<Rightarrow> flt option \<Rightarrow> string option \<Rightarrow> ca_error + CorporateAction" where
  "new_action ty_name symbol day ratio cash new_symbol =
     (case parse_action ty_name of
        None \<Rightarrow> Inl (UnknownActionType ty_name)
      | Some ty \<Rightarrow>
          if py_strip symbol = [] then Inl EmptySymbol
          else (case check_terms ty ratio cash new_symbol of
            Some e \<Rightarrow> Inl e
          | None \<Rightarrow> Inr \<lparr>ca_type = ty, ca_symbol = symbol, ca_effective_date = day, ca_ratio = ratio,
                  ca_cash_amount = cash, ca_new_symbol = new_symbol\<rparr>))"

text \<open>
  Reading a number of an action.  The adjustments read only the number that the constructor has checked to be finite
  (\<open>read_of_constructed\<close> below), so the last equation is for values that no action holds.
\<close>

fun finite_number_of :: "flt option \<Rightarrow> rat option" where
  "finite_number_of None = None"
| "finite_number_of (Some (Fin x)) = Some x"
| "finite_number_of (Some v) = None"

section \<open>The log and the adjustments\<close>

type_synonym CorporateActionLog = "CorporateAction list"

definition ca_append :: "CorporateAction \<Rightarrow> CorporateActionLog \<Rightarrow> CorporateActionLog" where
  "ca_append a actions = actions @ [a]"

definition actions_for :: "string \<Rightarrow> CorporateActionLog \<Rightarrow> CorporateAction list" where
  "actions_for symbol actions = sort_key ca_effective_date (filter (\<lambda>a. ca_symbol a = symbol) actions)"

definition applicable :: "int \<Rightarrow> int \<Rightarrow> CorporateAction list \<Rightarrow> CorporateAction list" where
  "applicable bar_date as_of actions = filter (\<lambda>a. bar_date < ca_effective_date a \<and> ca_effective_date a \<le> as_of) actions"

text \<open>One step of the loop of \<open>adjust_price\<close>.\<close>

definition price_step :: "rat option \<Rightarrow> rat \<Rightarrow> CorporateAction \<Rightarrow> rat" where
  "price_step ex_close factor a =
     (case ca_type a of
        SPLIT \<Rightarrow> (case finite_number_of (ca_ratio a) of None \<Rightarrow> factor | Some r \<Rightarrow> fdiv factor r)
      | CASH_DIVIDEND \<Rightarrow>
          (case (ex_close, finite_number_of (ca_cash_amount a)) of
             (Some close, Some cash) \<Rightarrow>
               if close \<le> 0 then factor
               else let div_factor = fdiv (fsub close cash) close in
                 if div_factor \<le> 0 then factor else fmul factor div_factor
           | _ \<Rightarrow> factor)
      | SPINOFF \<Rightarrow> (case finite_number_of (ca_ratio a) of None \<Rightarrow> factor | Some r \<Rightarrow> fmul factor r)
      | MERGER \<Rightarrow> (case finite_number_of (ca_ratio a) of None \<Rightarrow> factor | Some r \<Rightarrow> fdiv factor r)
      | SYMBOL_CHANGE \<Rightarrow> factor)"

definition price_factor :: "CorporateActionLog \<Rightarrow> string \<Rightarrow> int \<Rightarrow> int \<Rightarrow> rat option \<Rightarrow> rat" where
  "price_factor actions symbol bar_date as_of ex_close =
     foldl (price_step ex_close) 1 (applicable bar_date as_of (actions_for symbol actions))"

definition adjust_price :: "CorporateActionLog \<Rightarrow> string \<Rightarrow> int \<Rightarrow> rat \<Rightarrow> int \<Rightarrow> rat option \<Rightarrow> rat" where
  "adjust_price actions symbol bar_date raw_price as_of ex_close =
     fmul raw_price (price_factor actions symbol bar_date as_of ex_close)"

definition volume_step :: "rat \<Rightarrow> CorporateAction \<Rightarrow> rat" where
  "volume_step multiplier a =
     (if ca_type a = SPLIT \<or> ca_type a = MERGER
      then (case finite_number_of (ca_ratio a) of None \<Rightarrow> multiplier | Some r \<Rightarrow> fmul multiplier r) else multiplier)"

definition adjust_volume :: "CorporateActionLog \<Rightarrow> string \<Rightarrow> int \<Rightarrow> int \<Rightarrow> int \<Rightarrow> int" where
  "adjust_volume actions symbol bar_date raw_volume as_of =
     rhe (fmul (fint raw_volume) (foldl volume_step 1 (applicable bar_date as_of (actions_for symbol actions))))"

section \<open>Validated actions\<close>

text \<open>What a constructed action promises; the number its type reads is finite and in range.\<close>

definition action_ok :: "CorporateAction \<Rightarrow> bool" where
  "action_ok a \<longleftrightarrow> py_strip (ca_symbol a) \<noteq> [] \<and>
     (case ca_type a of
        SPLIT \<Rightarrow> (\<exists>r. ca_ratio a = Some (Fin r) \<and> 0 < r)
      | CASH_DIVIDEND \<Rightarrow> (\<exists>c. ca_cash_amount a = Some (Fin c) \<and> 0 \<le> c)
      | SPINOFF \<Rightarrow> (\<exists>r. ca_ratio a = Some (Fin r) \<and> 0 < r \<and> r \<le> 1)
      | MERGER \<Rightarrow> (\<exists>r. ca_ratio a = Some (Fin r) \<and> 0 < r \<and> ca_cash_amount a = None \<and> \<not> blank (ca_new_symbol a))
                 \<or> (\<exists>c. ca_ratio a = None \<and> ca_cash_amount a = Some (Fin c) \<and> 0 \<le> c)
      | SYMBOL_CHANGE \<Rightarrow> \<not> blank (ca_new_symbol a))"

lemma parse_action_iff: "parse_action s = Some ty \<longleftrightarrow> s = action_value ty"
  by (cases ty) (auto simp: parse_action_def split: if_splits)

lemma check_ratio_None: "check_ratio ty v = None \<longleftrightarrow> (\<exists>r. v = Fin r \<and> 0 < r \<and> (ty = SPINOFF \<longrightarrow> r \<le> 1))"
  by (cases v) (auto simp: check_ratio_def ca_require_finite_def)

lemma check_cash_None: "check_cash ty v = None \<longleftrightarrow> (\<exists>c. v = Fin c \<and> 0 \<le> c)"
  by (cases v) (auto simp: check_cash_def ca_require_finite_def)

lemma check_terms_None:
  assumes "py_strip (ca_symbol a) \<noteq> []"
  shows "check_terms (ca_type a) (ca_ratio a) (ca_cash_amount a) (ca_new_symbol a) = None \<longleftrightarrow> action_ok a"
proof -
  have first: "(case check_ratio MERGER v of Some e \<Rightarrow> Some e | None \<Rightarrow> x) = None \<longleftrightarrow> check_ratio MERGER v = None \<and> x = None"
    for v and x :: "ca_error option" by (simp split: option.splits)
  show ?thesis using assms
  by (cases "ca_type a"; cases "ca_ratio a"; cases "ca_cash_amount a")
    (auto simp: action_ok_def check_ratio_None check_cash_None check_new_symbol_def first)
qed

text \<open>
  C33.  The constructor of corporate actions, on any floats: it returns an action exactly when the type is one of the five, the symbol is
  not blank, and the terms are those of the type (a finite positive ratio for splits and stock mergers, a finite retained
  fraction up to one for spinoffs, a finite dividend that is not negative, a new symbol that is not blank for stock mergers and renames,
  one kind of terms for a merger); the action has then every field as it was given, and in all other cases the constructor raises.
\<close>

theorem constructor_types_actions:
  "new_action ty_name symbol day ratio cash new_symbol = Inr a \<longleftrightarrow>
     action_ok a \<and> ty_name = action_value (ca_type a)
     \<and> a = \<lparr>ca_type = ca_type a, ca_symbol = symbol, ca_effective_date = day, ca_ratio = ratio,
            ca_cash_amount = cash, ca_new_symbol = new_symbol\<rparr>"
proof -
  let ?made = "\<lambda>ty. \<lparr>ca_type = ty, ca_symbol = symbol, ca_effective_date = day, ca_ratio = ratio,
            ca_cash_amount = cash, ca_new_symbol = new_symbol\<rparr>"
  have terms: "py_strip symbol \<noteq> [] \<Longrightarrow> check_terms ty ratio cash new_symbol = None \<longleftrightarrow> action_ok (?made ty)" for ty
    using check_terms_None [of "?made ty"] by simp
  have symb: "action_ok (?made ty) \<Longrightarrow> py_strip symbol \<noteq> []" for ty by (simp add: action_ok_def)
  have "new_action ty_name symbol day ratio cash new_symbol = Inr a \<longleftrightarrow>
      (\<exists>ty. parse_action ty_name = Some ty \<and> py_strip symbol \<noteq> [] \<and> check_terms ty ratio cash new_symbol = None \<and> a = ?made ty)"
    by (auto simp: new_action_def split: option.splits)
  also have "\<dots> \<longleftrightarrow> (\<exists>ty. ty_name = action_value ty \<and> action_ok (?made ty) \<and> a = ?made ty)"
    using terms symb by (metis parse_action_iff)
  also have "\<dots> \<longleftrightarrow> action_ok a \<and> ty_name = action_value (ca_type a) \<and> a = ?made (ca_type a)"
    by (metis CorporateAction.select_convs(1))
  finally show ?thesis .
qed

lemma read_of_constructed:
  assumes "action_ok a"
  shows "ca_type a \<in> {SPLIT, SPINOFF} \<Longrightarrow> map_option Fin (finite_number_of (ca_ratio a)) = ca_ratio a"
    and "ca_type a = MERGER \<Longrightarrow> map_option Fin (finite_number_of (ca_ratio a)) = ca_ratio a"
    and "ca_type a = CASH_DIVIDEND \<Longrightarrow> map_option Fin (finite_number_of (ca_cash_amount a)) = ca_cash_amount a"
  using assms by (auto simp: action_ok_def)

section \<open>Adjustments\<close>

lemma price_step_nonneg:
  assumes "action_ok a" "0 \<le> factor"
  shows "0 \<le> price_step ex_close factor a"
  using assms
  by (auto simp: price_step_def action_ok_def Let_def float_nonneg split: ActionType.splits option.splits)

lemma volume_step_nonneg:
  assumes "action_ok a" "0 \<le> m"
  shows "0 \<le> volume_step m a"
  using assms by (auto simp: volume_step_def action_ok_def float_nonneg split: ActionType.splits option.splits)

lemma foldl_nonneg:
  assumes "\<forall>x\<in>set xs. P x" "\<And>x a. P x \<Longrightarrow> 0 \<le> a \<Longrightarrow> 0 \<le> f a x" "0 \<le> (a :: rat)"
  shows "0 \<le> foldl f a xs"
  using assms(1,3) by (induction xs arbitrary: a) (simp_all add: assms(2))

text \<open>Back-adjusted prices and volumes are never negative.\<close>

lemma adjusted_nonneg:
  assumes "list_all action_ok actions"
  shows "0 \<le> raw \<Longrightarrow> 0 \<le> adjust_price actions symbol bar_date raw as_of ex_close"
    "0 \<le> vol \<Longrightarrow> 0 \<le> adjust_volume actions symbol bar_date vol as_of"
proof -
  have ok: "\<forall>a\<in>set (applicable bar_date as_of (actions_for symbol actions)). action_ok a"
    using assms by (simp add: applicable_def actions_for_def list_all_iff)
  show "0 \<le> adjust_price actions symbol bar_date raw as_of ex_close" if "0 \<le> raw"
    unfolding adjust_price_def price_factor_def
    by (rule float_nonneg(2) [OF that foldl_nonneg [OF ok]]) (simp_all add: price_step_nonneg)
  show "0 \<le> adjust_volume actions symbol bar_date vol as_of" if "0 \<le> vol"
    unfolding adjust_volume_def
    by (intro rhe_nonneg float_nonneg(2) fint_nonneg that foldl_nonneg [OF ok]) (simp_all add: volume_step_nonneg)
qed

lemma filter_sorted_split:
  fixes f :: "'a \<Rightarrow> int"
  assumes "sorted (map f xs)" "b \<le> d1" "d1 \<le> d2"
  shows "filter (\<lambda>x. b < f x \<and> f x \<le> d2) xs = filter (\<lambda>x. b < f x \<and> f x \<le> d1) xs @ filter (\<lambda>x. d1 < f x \<and> f x \<le> d2) xs"
  using assms(1)
proof (induction xs)
  case (Cons x xs)
  show ?case
  proof (cases "d1 < f x")
    case True
    then have "filter (\<lambda>x. b < f x \<and> f x \<le> d1) (x # xs) = []"
      using Cons.prems by (fastforce simp: filter_empty_conv)
    moreover have "filter (\<lambda>x. b < f x \<and> f x \<le> d2) (x # xs) = filter (\<lambda>x. d1 < f x \<and> f x \<le> d2) (x # xs)"
      using Cons.prems True assms(2) by (intro filter_cong refl) fastforce
    ultimately show ?thesis by simp
  next
    case False
    then show ?thesis using Cons assms(2,3) by auto
  qed
qed simp

lemma applicable_split:
  assumes "bar_date \<le> d1" "d1 \<le> d2"
  shows "applicable bar_date d2 (actions_for symbol actions) =
    applicable bar_date d1 (actions_for symbol actions) @ applicable d1 d2 (actions_for symbol actions)"
  unfolding applicable_def by (rule filter_sorted_split) (simp_all add: actions_for_def assms)

lemma applicable_sorted:
  "applicable bar_date as_of (actions_for symbol actions) =
     sort_key ca_effective_date (applicable bar_date as_of (filter (\<lambda>a. ca_symbol a = symbol) actions))"
  by (simp add: applicable_def actions_for_def filter_sort)

lemma applicable_irrelevant:
  assumes "ca_symbol a \<noteq> symbol \<or> ca_effective_date a \<le> bar_date \<or> as_of < ca_effective_date a"
  shows "applicable bar_date as_of (actions_for symbol (ca_append a actions)) =
    applicable bar_date as_of (actions_for symbol actions)"
  using assms unfolding applicable_sorted by (auto simp: ca_append_def applicable_def)

lemma applicable_permuted:
  assumes "mset actions = mset actions'" "inj_on ca_effective_date {a \<in> set actions. ca_symbol a = symbol}"
  shows "actions_for symbol actions = actions_for symbol actions'"
  unfolding actions_for_def
proof (rule sort_key_inj_key_eq)
  show "mset (filter (\<lambda>a. ca_symbol a = symbol) actions) = mset (sort_key ca_effective_date (filter (\<lambda>a. ca_symbol a = symbol) actions'))"
    by (simp add: assms(1) mset_filter)
qed (use assms(2) in simp_all)

text \<open>
  C13.  An adjustment as of a day sees no later action: logging another action that takes effect after that day (or
  not after the bar, or for another symbol) changes no adjusted price and no adjusted volume;
  an adjustment as of a later day is the earlier one carried on by the actions in between, so that
  series can be extended without being recomputed; and the order in which actions of different
  days were logged does not matter.
\<close>

theorem adjustments_follow_the_log:
  assumes "bar_date \<le> d1" "d1 \<le> d2" "d1 < ca_effective_date late"
    and "mset shuffled = mset actions" "inj_on ca_effective_date {a \<in> set actions. ca_symbol a = symbol}"
  shows "adjust_price (ca_append late actions) symbol bar_date raw d1 ex_close = adjust_price actions symbol bar_date raw d1 ex_close
    \<and> adjust_volume (ca_append late actions) symbol bar_date vol d1 = adjust_volume actions symbol bar_date vol d1
    \<and> price_factor actions symbol bar_date d2 ex_close =
      foldl (price_step ex_close) (price_factor actions symbol bar_date d1 ex_close) (applicable d1 d2 (actions_for symbol actions))
    \<and> adjust_price shuffled symbol bar_date raw d2 ex_close = adjust_price actions symbol bar_date raw d2 ex_close"
  using assms applicable_irrelevant [of late symbol bar_date d1 actions] applicable_split [of bar_date d1 d2 symbol actions]
    applicable_permuted [of actions shuffled symbol]
  by (simp_all add: adjust_price_def adjust_volume_def price_factor_def)

definition two_for_one :: "int \<Rightarrow> CorporateAction" where
  "two_for_one day = \<lparr>ca_type = SPLIT, ca_symbol = ''A'', ca_effective_date = day, ca_ratio = Some (Fin 2),
     ca_cash_amount = None, ca_new_symbol = None\<rparr>"

theorem adjustments_follow_the_log_witness:
  "adjust_price [two_for_one 5, two_for_one 9] ''A'' 3 100 7 None = adjust_price [two_for_one 5] ''A'' 3 100 7 None
   \<and> adjust_price [two_for_one 5] ''A'' 3 100 7 None = 50 \<and> adjust_volume [two_for_one 5] ''A'' 3 10 7 = 20"
proof -
  have half: "fdiv 1 2 = 1 / 2" using f64_dyadic [of 1 1] by (simp add: fdiv_def)
  have apps: "applicable 3 7 (actions_for ''A'' [two_for_one 5]) = [two_for_one 5]"
    by (simp add: applicable_def actions_for_def two_for_one_def)
  have "adjust_price [two_for_one 5] ''A'' 3 100 7 None = 50" "adjust_volume [two_for_one 5] ''A'' 3 10 7 = 20"
    unfolding adjust_price_def price_factor_def adjust_volume_def apps
    by (simp_all add: price_step_def volume_step_def two_for_one_def half) (simp_all add: fmul_def fint_def rhe_of_int [of 20, simplified])
  moreover have "adjust_price (ca_append (two_for_one 9) [two_for_one 5]) ''A'' 3 100 7 None = adjust_price [two_for_one 5] ''A'' 3 100 7 None"
    by (rule adjustments_follow_the_log [of 3 7 8 "two_for_one 9" "[two_for_one 5]", THEN conjunct1])
      (simp_all add: two_for_one_def inj_on_def)
  ultimately show ?thesis by (simp add: ca_append_def)
qed

text \<open>
  Two dividends share one ex-date close: the factor of the second is taken from the close of the first.
\<close>

definition dividend :: "int \<Rightarrow> rat \<Rightarrow> CorporateAction" where
  "dividend day cash = \<lparr>ca_type = CASH_DIVIDEND, ca_symbol = ''A'', ca_effective_date = day, ca_ratio = None,
     ca_cash_amount = Some (Fin cash), ca_new_symbol = None\<rparr>"

lemma dividends_share_a_close:
  "price_factor [dividend 5 c1, dividend 9 c2] ''A'' 3 10 (Some close) =
     price_step (Some close) (price_step (Some close) 1 (dividend 5 c1)) (dividend 9 c2)"
  by (simp add: price_factor_def applicable_def actions_for_def dividend_def)

end
