(* ===== verification/MultiManager.thy ===== *)
theory MultiManager
  imports RiskLimits OrderManager
begin

text \<open>
  The multi-strategy manager, \<open>engine/strategies/multi_manager.py\<close>: strategies registered with a share of the
  capital, whose signals are tagged with their id and scaled down to their share.

  A strategy is an object with one operation \<open>run\<close>, an argument: given the (copied) market data it says
  what \<open>evaluate\<close> gave, raised or that it timed out, and the object it left.  An id that is not a
  string is \<open>None\<close>; a number argument is a number (perhaps infinite or NaN), or something else.
  The metadata of a signal is a dictionary.  Registering while an evaluation waits is not modelled.
\<close>

section \<open>Registrations\<close>

datatype number_arg = ANumber py_float | ABool | AString | AOther

datatype mm_error =
  IdNotString
| EmptyId
| StrategyMissing string
| StrategyWithoutEvaluate string
| NotANumber string
| NotFiniteNumber string
| NegativeAllocation string rat
| AllocationTooLarge string rat
| NegativeCapital rat
| BadTimeout rat
| MaxNotInteger rat
| MaxTooSmall int
| AlreadyRegistered string
| TooManyStrategies nat
| AllocationExceeded string rat rat

definition mm_finite :: "number_arg \<Rightarrow> string \<Rightarrow> mm_error + rat" where
  "mm_finite v label = (case v of
     ANumber (Finite x) \<Rightarrow> Inr x
   | ANumber NotFinite \<Rightarrow> Inl (NotFiniteNumber label)
   | ABool \<Rightarrow> Inl (NotANumber label) | AString \<Rightarrow> Inl (NotANumber label) | AOther \<Rightarrow> Inl (NotANumber label))"

record 'o StrategyRegistration =
  sr_strategy_id :: string
  sr_strategy :: 'o
  sr_allocation_pct :: rat
  sr_allocation_cap :: rat

record 'o MultiStrategyManager =
  mm_total_capital :: rat
  mm_eval_timeout :: rat
  mm_max_strategies :: int
  mm_registrations :: "(string, 'o StrategyRegistration) dict"

definition new_manager :: "number_arg \<Rightarrow> number_arg \<Rightarrow> number_arg \<Rightarrow> mm_error + 'o MultiStrategyManager" where
  "new_manager total_capital eval_timeout max_strategies =
     (case mm_finite total_capital ''total_capital'' of Inl e \<Rightarrow> Inl e | Inr cap \<Rightarrow>
      if cap < 0 then Inl (NegativeCapital cap)
      else case mm_finite eval_timeout ''eval_timeout'' of Inl e \<Rightarrow> Inl e | Inr timeout \<Rightarrow>
      if timeout \<le> 0 then Inl (BadTimeout timeout)
      else case mm_finite max_strategies ''max_strategies'' of Inl e \<Rightarrow> Inl e | Inr n \<Rightarrow>
      if of_int \<lfloor>n\<rfloor> \<noteq> n then Inl (MaxNotInteger n)
      else if \<lfloor>n\<rfloor> < 1 then Inl (MaxTooSmall \<lfloor>n\<rfloor>)
      else Inr \<lparr>mm_total_capital = cap, mm_eval_timeout = timeout, mm_max_strategies = \<lfloor>n\<rfloor>, mm_registrations = []\<rparr>)"

definition total_allocation_pct :: "'o MultiStrategyManager \<Rightarrow> rat" where
  "total_allocation_pct m = fsum (map sr_allocation_pct (dict_values (mm_registrations m)))"

definition get_allocation_pct :: "string \<Rightarrow> 'o MultiStrategyManager \<Rightarrow> rat option" where
  "get_allocation_pct sid m = map_option sr_allocation_pct (map_of (mm_registrations m) sid)"

definition allocation_cap :: "string \<Rightarrow> 'o MultiStrategyManager \<Rightarrow> rat" where
  "allocation_cap sid m = (case map_of (mm_registrations m) sid of None \<Rightarrow> 0 | Some r \<Rightarrow> sr_allocation_cap r)"

definition mm_allocations :: "'o MultiStrategyManager \<Rightarrow> (string, rat) dict" where
  "mm_allocations m = map (\<lambda>(sid, r). (sid, sr_allocation_cap r)) (mm_registrations m)"

definition validate_id :: "string option \<Rightarrow> mm_error + string" where
  "validate_id sid = (case sid of None \<Rightarrow> Inl IdNotString | Some s \<Rightarrow> if py_strip s = [] then Inl EmptyId else Inr s)"

definition validate_strategy :: "string \<Rightarrow> 'o option \<Rightarrow> bool \<Rightarrow> mm_error + 'o" where
  "validate_strategy sid strategy has_evaluate = (case strategy of
     None \<Rightarrow> Inl (StrategyMissing sid)
   | Some obj \<Rightarrow> if has_evaluate then Inr obj else Inl (StrategyWithoutEvaluate sid))"

definition validate_allocation_pct :: "number_arg \<Rightarrow> string \<Rightarrow> mm_error + rat" where
  "validate_allocation_pct pct sid =
     (case mm_finite pct (''allocation_pct['' @ quoted sid @ '']'') of
        Inl e \<Rightarrow> Inl e
      | Inr p \<Rightarrow> if p < 0 then Inl (NegativeAllocation sid p)
                 else if 100 < p then Inl (AllocationTooLarge sid p) else Inr p)"

text \<open>\<open>100.0 + 1e-9\<close>.\<close>

definition MAX_TOTAL_PCT :: rat where
  "MAX_TOTAL_PCT = fadd 100 (f64 (1 / 10 ^ 9))"

definition mm_register ::
  "string option \<Rightarrow> 'o option \<Rightarrow> bool \<Rightarrow> number_arg \<Rightarrow> 'o MultiStrategyManager
     \<Rightarrow> (mm_error + 'o StrategyRegistration) \<times> 'o MultiStrategyManager" where
  "mm_register strategy_id strategy has_evaluate allocation_pct m =
     (case validate_id strategy_id of Inl e \<Rightarrow> (Inl e, m) | Inr sid \<Rightarrow>
      case validate_strategy sid strategy has_evaluate of Inl e \<Rightarrow> (Inl e, m) | Inr obj \<Rightarrow>
      case validate_allocation_pct allocation_pct sid of Inl e \<Rightarrow> (Inl e, m) | Inr pct \<Rightarrow>
      if map_of (mm_registrations m) sid \<noteq> None then (Inl (AlreadyRegistered sid), m)
      else if mm_max_strategies m \<le> int (length (mm_registrations m))
        then (Inl (TooManyStrategies (length (mm_registrations m))), m)
      else
        let projected = fadd (total_allocation_pct m) pct in
        if MAX_TOTAL_PCT < projected then (Inl (AllocationExceeded sid pct projected), m)
        else let reg = \<lparr>sr_strategy_id = sid, sr_strategy = obj, sr_allocation_pct = pct,
                       sr_allocation_cap = fdiv (fmul (mm_total_capital m) pct) 100\<rparr>
          in (Inr reg, m\<lparr>mm_registrations := AList.update sid reg (mm_registrations m)\<rparr>))"

definition mm_unregister :: "string \<Rightarrow> 'o MultiStrategyManager \<Rightarrow> bool \<times> 'o MultiStrategyManager" where
  "mm_unregister sid m =
     (map_of (mm_registrations m) sid \<noteq> None, m\<lparr>mm_registrations := AList.delete sid (mm_registrations m)\<rparr>)"

section \<open>Signals within the allocation\<close>

datatype meta = MNum rat | MFlag bool | MList "string list" | MOther string

record MetaSignal = Signal +
  sg_metadata :: "(string, meta) dict"

definition tag :: "string \<Rightarrow> 'o StrategyRegistration \<Rightarrow> MetaSignal list \<Rightarrow> MetaSignal list" where
  "tag sid reg = map (\<lambda>sg. sg\<lparr>sg_strategy_id := sid,
     sg_metadata := AList.update ''allocation_cap_dollars'' (MNum (sr_allocation_cap reg))
       (AList.update ''allocation_cap_pct'' (MNum (sr_allocation_pct reg)) (sg_metadata sg))\<rparr>)"

definition record_original :: "MetaSignal \<Rightarrow> rat \<Rightarrow> MetaSignal" where
  "record_original sg weight = sg\<lparr>sg_weight := weight,
     sg_metadata := AList.update ''allocation_original_weight'' (MNum (sg_weight sg))
       (AList.update ''allocation_capped'' (MFlag True) (sg_metadata sg))\<rparr>"

definition is_passive :: "MetaSignal \<Rightarrow> bool" where
  "is_passive sg \<longleftrightarrow> sg_side sg = SIDE_HOLD \<or> sg_weight sg \<le> 0"

definition zero_active_weights :: "MetaSignal list \<Rightarrow> MetaSignal list" where
  "zero_active_weights = map (\<lambda>sg. if is_passive sg then sg else record_original sg 0)"

definition active_weight :: "MetaSignal list \<Rightarrow> rat" where
  "active_weight sgs = fsum (map (\<lambda>sg. max (sg_weight sg) 0) (filter (\<lambda>sg. sg_side sg \<noteq> SIDE_HOLD) sgs))"

definition scale_signal :: "rat \<Rightarrow> MetaSignal \<Rightarrow> MetaSignal" where
  "scale_signal scale sg =
     (if is_passive sg then sg else record_original sg (max (min (fmul (sg_weight sg) scale) 1) 0))"

definition enforce_cap :: "'o StrategyRegistration \<Rightarrow> MetaSignal list \<Rightarrow> MetaSignal list \<times> rat option" where
  "enforce_cap reg sgs =
     (if sr_allocation_pct reg \<le> 0 then (zero_active_weights sgs, Some 0)
      else
        let fraction = fdiv (sr_allocation_pct reg) 100; active = active_weight sgs in
        if active \<le> fadd fraction (f64 (1 / 10 ^ 12)) then (sgs, None)
        else let scale = (if 0 < active then fdiv fraction active else 0)
          in (map (scale_signal scale) sgs, Some scale))"

section \<open>Evaluation\<close>

text \<open>What calling a strategy comes to; its signals are of type \<open>'s\<close>.\<close>

datatype 's outcome = Gave "'s list" | RaisedExc string | TimedOut

record MultiStrategyEvaluation =
  me_signals :: "MetaSignal list"
  me_per_strategy :: "(string, MetaSignal list) dict"
  me_total_capital :: rat
  me_caps :: "(string, rat) dict"
  me_adjustments :: "(string, rat) dict"
  me_errors :: "(string, string) dict"

definition me_trade_signals :: "MultiStrategyEvaluation \<Rightarrow> MetaSignal list" where
  "me_trade_signals ev = filter (\<lambda>sg. sg_side sg \<noteq> SIDE_HOLD) (me_signals ev)"

definition me_strategy_count :: "MultiStrategyEvaluation \<Rightarrow> nat" where
  "me_strategy_count ev = length (me_per_strategy ev)"

text \<open>One strategy: what is added to the signals, the adjustments and the errors, and the object it left.\<close>

fun evaluate_loop ::
  "('o \<Rightarrow> 'm \<Rightarrow> MetaSignal outcome \<times> 'o) \<Rightarrow> (string \<Rightarrow> string) \<Rightarrow> 'm \<Rightarrow> (string, 'o StrategyRegistration) dict \<Rightarrow> MultiStrategyEvaluation
     \<Rightarrow> MultiStrategyEvaluation \<times> (string, 'o StrategyRegistration) dict" where
  "evaluate_loop run timeout_text market [] ev = (ev, [])"
| "evaluate_loop run timeout_text market ((sid, reg) # regs) ev =
     (case run (sr_strategy reg) market of
        (out, obj) \<Rightarrow>
          let ev' = (case out of
                RaisedExc why \<Rightarrow> ev\<lparr>me_errors := AList.update sid why (me_errors ev)\<rparr>
              | TimedOut \<Rightarrow> ev\<lparr>me_errors := AList.update sid (timeout_text sid) (me_errors ev)\<rparr>
              | Gave sgs \<Rightarrow>
                  (case enforce_cap reg (tag sid reg sgs) of
                     (capped, scale) \<Rightarrow>
                       ev\<lparr>me_per_strategy := AList.update sid capped (me_per_strategy ev),
                          me_adjustments := (case scale of None \<Rightarrow> me_adjustments ev
                             | Some s \<Rightarrow> AList.update sid s (me_adjustments ev))\<rparr>))
          in (case evaluate_loop run timeout_text market regs ev' of
                (ev'', regs') \<Rightarrow> (ev'', (sid, reg\<lparr>sr_strategy := obj\<rparr>) # regs')))"

definition empty_evaluation :: "rat \<Rightarrow> MultiStrategyEvaluation" where
  "empty_evaluation cap = \<lparr>me_signals = [], me_per_strategy = [], me_total_capital = cap, me_caps = [],
     me_adjustments = [], me_errors = []\<rparr>"

definition evaluate_all ::
  "('o \<Rightarrow> 'm \<Rightarrow> MetaSignal outcome \<times> 'o) \<Rightarrow> (string \<Rightarrow> string) \<Rightarrow> 'm \<Rightarrow> 'o MultiStrategyManager
     \<Rightarrow> MultiStrategyEvaluation \<times> 'o MultiStrategyManager" where
  "evaluate_all run timeout_text market m =
     (if mm_registrations m = [] then (empty_evaluation (mm_total_capital m), m)
      else (case evaluate_loop run timeout_text market (mm_registrations m) (empty_evaluation (mm_total_capital m)) of
          (ev, regs) \<Rightarrow>
            let m' = m\<lparr>mm_registrations := regs\<rparr> in
            (ev\<lparr>me_signals := concat (dict_values (me_per_strategy ev)), me_caps := mm_allocations m'\<rparr>, m')))"

section \<open>The registry\<close>

lemma fsum_filter_le:
  assumes "\<forall>x\<in>set xs. 0 \<le> g x"
  shows "fsum (map g (filter P xs)) \<le> fsum (map g xs)"
proof -
  have "foldl fadd a (map g (filter P xs)) \<le> foldl fadd b (map g xs)" if "a \<le> b" "f64 b = b" for a b
    using assms that
  proof (induction xs arbitrary: a b)
    case (Cons x xs)
    have "fadd a (g x) \<le> fadd b (g x)" using Cons.prems(2) by (simp add: fadd_def f64.mono)
    moreover have "a \<le> fadd b (g x)" using Cons.prems fadd_ge1 [of b "g x"] by simp
    moreover have "f64 (fadd b (g x)) = fadd b (g x)" by (simp add: fadd_def f64.idem)
    ultimately show ?case using Cons by simp
  qed simp
  then show ?thesis by (simp add: fsum_def)
qed

definition reg_ok :: "rat \<Rightarrow> string \<times> 'o StrategyRegistration \<Rightarrow> bool" where
  "reg_ok cap kv \<longleftrightarrow> sr_strategy_id (snd kv) = fst kv \<and> 0 \<le> sr_allocation_pct (snd kv) \<and> sr_allocation_pct (snd kv) \<le> 100
     \<and> sr_allocation_cap (snd kv) = fdiv (fmul cap (sr_allocation_pct (snd kv))) 100"

definition mm_ok :: "'o MultiStrategyManager \<Rightarrow> bool" where
  "mm_ok m \<longleftrightarrow> dict_ok (mm_registrations m) \<and> list_all (reg_ok (mm_total_capital m)) (mm_registrations m)
     \<and> total_allocation_pct m \<le> MAX_TOTAL_PCT \<and> int (length (mm_registrations m)) \<le> mm_max_strategies m
     \<and> 0 \<le> mm_total_capital m"

lemma max_total_nonneg: "0 \<le> MAX_TOTAL_PCT"
  by (simp add: MAX_TOTAL_PCT_def float_nonneg f64.nonneg)

lemma new_manager_ok: "new_manager cap timeout n = Inr m \<Longrightarrow> mm_ok m"
  using max_total_nonneg
  by (auto simp: new_manager_def mm_ok_def total_allocation_pct_def dict_values_def fsum_def split: sum.splits if_splits)

lemma validate_pct_Inr: "validate_allocation_pct pct sid = Inr p \<Longrightarrow> 0 \<le> p \<and> p \<le> 100"
  by (auto simp: validate_allocation_pct_def split: sum.splits if_splits)

lemma register_ok:
  assumes "mm_ok m"
  shows "mm_ok (snd (mm_register sid strategy ev pct m))"
proof (cases "snd (mm_register sid strategy ev pct m) = m")
  case False
  then obtain i obj p where i: "validate_allocation_pct pct i = Inr p" "map_of (mm_registrations m) i = None"
      "int (length (mm_registrations m)) < mm_max_strategies m" "fadd (total_allocation_pct m) p \<le> MAX_TOTAL_PCT"
      "snd (mm_register sid strategy ev pct m) = m\<lparr>mm_registrations := AList.update i \<lparr>sr_strategy_id = i,
         sr_strategy = obj, sr_allocation_pct = p, sr_allocation_cap = fdiv (fmul (mm_total_capital m) p) 100\<rparr> (mm_registrations m)\<rparr>"
    by (auto simp: mm_register_def Let_def not_less not_le split: sum.splits if_splits)
  note app = update_fresh [OF i(2)]
  have "total_allocation_pct (snd (mm_register sid strategy ev pct m)) = fadd (total_allocation_pct m) p"
    by (simp add: i(5) app total_allocation_pct_def dict_values_def fsum_def)
  then show ?thesis using assms validate_pct_Inr [OF i(1)] i(2-4)
    unfolding i(5) app by (auto simp: mm_ok_def reg_ok_def map_of_eq_None_iff)
qed (simp add: assms)

lemma delete_filter: "AList.delete k d = filter (\<lambda>(k', v). k \<noteq> k') d"
  by (induction d) auto

lemma unregister_ok:
  assumes "mm_ok m"
  shows "mm_ok (snd (mm_unregister sid m))"
proof -
  let ?f = "\<lambda>(k', v). sid \<noteq> k'"
  have "total_allocation_pct (snd (mm_unregister sid m)) =
      fsum (map (sr_allocation_pct \<circ> snd) (filter ?f (mm_registrations m)))"
    by (simp add: total_allocation_pct_def mm_unregister_def delete_filter dict_values_def)
  also have "\<dots> \<le> fsum (map (sr_allocation_pct \<circ> snd) (mm_registrations m))"
    using assms by (intro fsum_filter_le) (auto simp: mm_ok_def list_all_iff reg_ok_def)
  also have "\<dots> = total_allocation_pct m" by (simp add: total_allocation_pct_def dict_values_def)
  finally have "total_allocation_pct (snd (mm_unregister sid m)) \<le> total_allocation_pct m" .
  moreover have "int (length (filter ?f (mm_registrations m))) \<le> mm_max_strategies m"
    using assms length_filter_le [of ?f "mm_registrations m"] unfolding mm_ok_def by linarith
  ultimately show ?thesis using assms
    by (auto simp: mm_ok_def mm_unregister_def delete_filter list_all_iff distinct_map_filter)
qed

lemma evaluate_loop_regs:
  "evaluate_loop run tt market regs ev = (ev', regs') \<Longrightarrow>
     map (\<lambda>(k, r). (k, r\<lparr>sr_strategy := ob\<rparr>)) regs' = map (\<lambda>(k, r). (k, r\<lparr>sr_strategy := ob\<rparr>)) regs"
proof (induction regs arbitrary: ev ev' regs')
  case (Cons kv regs)
  obtain sid reg where kv: "kv = (sid, reg)" by (cases kv)
  obtain out obj where r: "run (sr_strategy reg) market = (out, obj)" by (cases "run (sr_strategy reg) market")
  then show ?case using Cons.prems Cons.IH by (auto simp: kv Let_def split: prod.splits)
qed simp

lemma regs_same:
  assumes "map (\<lambda>(k, r). (k, r\<lparr>sr_strategy := ob\<rparr>)) regs' = map (\<lambda>(k, r). (k, r\<lparr>sr_strategy := ob\<rparr>)) regs"
  shows "map fst regs' = map fst regs" "map (sr_allocation_pct \<circ> snd) regs' = map (sr_allocation_pct \<circ> snd) regs"
    "list_all (reg_ok cap) regs' = list_all (reg_ok cap) regs"
proof -
  let ?h = "\<lambda>(k, r). (k, r\<lparr>sr_strategy := ob\<rparr>)"
  have "map fst (map ?h xs) = map fst xs" "map (sr_allocation_pct \<circ> snd) (map ?h xs) = map (sr_allocation_pct \<circ> snd) xs"
    "list_all (reg_ok cap) (map ?h xs) = list_all (reg_ok cap) xs" for xs
    by (induction xs) (auto simp: reg_ok_def)
  then show "map fst regs' = map fst regs" "map (sr_allocation_pct \<circ> snd) regs' = map (sr_allocation_pct \<circ> snd) regs"
    "list_all (reg_ok cap) regs' = list_all (reg_ok cap) regs"
    using assms by metis+
qed

lemma evaluate_ok:
  assumes "mm_ok m"
  shows "mm_ok (snd (evaluate_all run tt market m))"
proof (cases "mm_registrations m = []")
  case False
  obtain ev regs where loop: "evaluate_loop run tt market (mm_registrations m) (empty_evaluation (mm_total_capital m)) = (ev, regs)"
    by (cases "evaluate_loop run tt market (mm_registrations m) (empty_evaluation (mm_total_capital m))")
  note same = regs_same [OF evaluate_loop_regs [OF loop, of undefined]]
  have "snd (evaluate_all run tt market m) = m\<lparr>mm_registrations := regs\<rparr>" using False loop by (simp add: evaluate_all_def Let_def)
  then show ?thesis using assms same map_eq_imp_length_eq [OF same(1)]
    by (simp add: mm_ok_def total_allocation_pct_def dict_values_def comp_def)
qed (use assms in \<open>simp add: evaluate_all_def\<close>)

datatype ('o, 'm) mm_op = Register "string option" "'o option" bool number_arg | Unregister string | Evaluate 'm

fun mm_step :: "('o \<Rightarrow> 'm \<Rightarrow> MetaSignal outcome \<times> 'o) \<Rightarrow> (string \<Rightarrow> string) \<Rightarrow> 'o MultiStrategyManager \<Rightarrow> ('o, 'm) mm_op
    \<Rightarrow> 'o MultiStrategyManager" where
  "mm_step run tt m (Register sid strategy ev pct) = snd (mm_register sid strategy ev pct m)"
| "mm_step run tt m (Unregister sid) = snd (mm_unregister sid m)"
| "mm_step run tt m (Evaluate market) = snd (evaluate_all run tt market m)"

text \<open>
  C11.  The capital is never promised twice: after any registrations, refused ones included, removals and
  evaluations, the shares of the registered strategies add up to at most one hundred percent (and
  the tolerance of the code, with the roundings of the sum), every share is between zero and one hundred
  and its dollar cap is that share of the capital, ids are unique, and there are at most
  \<open>max_strategies\<close>.
\<close>

theorem allocations_within_capital:
  assumes "new_manager cap timeout n = Inr m"
  shows "mm_ok (foldl (mm_step run tt) m ops)"
proof -
  have step: "mm_ok (mm_step run tt q x)" if "mm_ok q" for q :: "'a MultiStrategyManager" and x
    using that by (cases x) (simp_all add: register_ok unregister_ok evaluate_ok)
  have "mm_ok (foldl (mm_step run tt) q ops)" if "mm_ok q" for q
    using that by (induction ops arbitrary: q) (simp_all add: step)
  then show ?thesis using new_manager_ok [OF assms] by blast
qed

definition quiet :: "nat \<Rightarrow> unit \<Rightarrow> MetaSignal outcome \<times> nat" where
  "quiet n market = (if n = 0 then RaisedExc ''boom'' else Gave [], n)"

theorem allocations_within_capital_witness:
  "\<exists>m. new_manager (ANumber (Finite 1000)) (ANumber (Finite 30)) (ANumber (Finite 2)) = Inr m
     \<and> mm_ok (foldl (mm_step quiet (\<lambda>s. s)) m [Register (Some ''a'') (Some 0) True (ANumber (Finite 60)),
         Register (Some ''b'') (Some 1) True (ANumber (Finite 50)), Evaluate (), Unregister ''a''])"
proof -
  obtain m :: "nat MultiStrategyManager" where m: "new_manager (ANumber (Finite 1000)) (ANumber (Finite 30)) (ANumber (Finite 2)) = Inr m"
    by (simp add: new_manager_def mm_finite_def)
  from allocations_within_capital [OF m] m show ?thesis by blast
qed

section \<open>What the cap leaves\<close>

definition book_weight :: "MetaSignal list \<Rightarrow> rat" where
  "book_weight sgs = sum_list (map (\<lambda>sg. if sg_side sg = SIDE_HOLD then 0 else max (sg_weight sg) 0) sgs)"

lemma book_weight_filter:
  "book_weight sgs = sum_list (map (\<lambda>sg. max (sg_weight sg) 0) (filter (\<lambda>sg. sg_side sg \<noteq> SIDE_HOLD) sgs))"
  by (simp add: book_weight_def) (induction sgs, simp_all)

definition float_weight :: "MetaSignal \<Rightarrow> bool" where
  "float_weight sg \<longleftrightarrow> 0 \<le> sg_weight sg \<and> sg_weight sg \<le> 1 \<and> f64 (sg_weight sg) = sg_weight sg"

definition same_intent :: "MetaSignal \<Rightarrow> MetaSignal \<Rightarrow> bool" where
  "same_intent out sg \<longleftrightarrow> out\<lparr>sg_weight := 0, sg_metadata := []\<rparr> = sg\<lparr>sg_weight := 0, sg_metadata := []\<rparr>
     \<and> 0 \<le> sg_weight out \<and> sg_weight out \<le> sg_weight sg"

lemma active_close:
  assumes "length sgs \<le> 2 ^ 53" "list_all float_weight sgs"
  shows "\<bar>active_weight sgs - book_weight sgs\<bar> \<le> of_nat (length sgs * (length sgs + 1)) / 2 ^ 53" "0 \<le> active_weight sgs"
proof -
  let ?xs = "map (\<lambda>sg. max (sg_weight sg) 0) (filter (\<lambda>sg. sg_side sg \<noteq> SIDE_HOLD) sgs)"
  have len: "length ?xs \<le> length sgs" by simp
  have *: "\<bar>foldl fadd 0 ?xs - (0 + sum_list ?xs)\<bar> \<le> of_nat (length ?xs * (length ?xs + 0 + 1)) / 2 ^ 53 \<and> 0 \<le> foldl fadd 0 ?xs"
    using assms(2) order_trans [OF len assms(1)]
    by (intro fsum_close) (auto simp: list_all_iff float_weight_def)
  have "length ?xs * (length ?xs + 0 + 1) \<le> length sgs * (length sgs + 1)"
    using len by (intro mult_le_mono) simp_all
  then have "of_nat (length ?xs * (length ?xs + 0 + 1)) / 2 ^ 53 \<le> (of_nat (length sgs * (length sgs + 1)) / 2 ^ 53 :: rat)"
    by (intro divide_right_mono) (simp_all only: of_nat_le_iff, simp)
  then show "\<bar>active_weight sgs - book_weight sgs\<bar> \<le> of_nat (length sgs * (length sgs + 1)) / 2 ^ 53"
    using conjunct1 [OF *] unfolding active_weight_def book_weight_filter fsum_def by linarith
  show "0 \<le> active_weight sgs" using * unfolding active_weight_def fsum_def by blast
qed

lemma scale_signal_intent:
  assumes "float_weight sg" "0 \<le> scale" "scale \<le> 1"
  shows "same_intent (scale_signal scale sg) sg" "sg_side (scale_signal scale sg) = sg_side sg"
    "sg_weight (scale_signal scale sg) = (if is_passive sg then sg_weight sg else fmul (sg_weight sg) scale)"
proof -
  let ?w = "sg_weight sg"
  have "0 \<le> fmul ?w scale" using assms by (simp add: float_weight_def float_nonneg)
  moreover have "fmul ?w scale \<le> ?w"
    unfolding fmul_def using assms by (intro f64.below) (auto simp: float_weight_def intro: mult_left_le)
  ultimately show "same_intent (scale_signal scale sg) sg" "sg_side (scale_signal scale sg) = sg_side sg"
    "sg_weight (scale_signal scale sg) = (if is_passive sg then ?w else fmul ?w scale)"
    using assms(1) by (auto simp: scale_signal_def record_original_def same_intent_def float_weight_def)
qed

text \<open>The exact sum of the scaled weights, each rounded once.\<close>

lemma scaled_book:
  assumes "list_all float_weight sgs" "0 \<le> scale" "scale \<le> 1"
  shows "book_weight (map (scale_signal scale) sgs) \<le> book_weight sgs * scale + of_nat (2 * length sgs) / 2 ^ 53"
  using assms(1)
proof (induction sgs)
  case (Cons sg sgs)
  note sc = scale_signal_intent [of sg scale] Cons.prems assms(2,3)
  let ?part = "\<lambda>sg. if sg_side sg = SIDE_HOLD then 0 else max (sg_weight sg) 0"
  have w: "0 \<le> sg_weight sg" "sg_weight sg \<le> 1" using Cons.prems by (simp_all add: float_weight_def)
  have ws: "0 \<le> sg_weight sg * scale" "sg_weight sg * scale \<le> 1"
    using w assms(2,3) by (simp_all add: mult_le_one)
  have "fmul (sg_weight sg) scale - sg_weight sg * scale \<le> (sg_weight sg * scale + 1) / 2 ^ 53"
    using f64_close [OF ws(1)] unfolding fmul_def by linarith
  also have "\<dots> \<le> 2 / 2 ^ 53" using ws by (intro divide_right_mono) simp_all
  finally have m: "fmul (sg_weight sg) scale \<le> sg_weight sg * scale + 2 / 2 ^ 53" by linarith
  have "?part (scale_signal scale sg) \<le> ?part sg * scale + 2 / 2 ^ 53"
    using sc m ws w float_nonneg by (auto simp: is_passive_def max_def)
  then show ?case using Cons by (simp add: book_weight_def distrib_right add_divide_distrib)
qed (simp add: book_weight_def)

lemma slack_sum:
  fixes n :: nat
  shows "of_nat (n * (n + 1)) / 2 ^ 53 + of_nat (4 * n + 16) / 2 ^ 53 \<le> (of_nat ((n + 4) ^ 2) / 2 ^ 53 :: rat)"
proof -
  have "n * (n + 1) + (4 * n + 16) \<le> (n + 4) ^ 2" by (simp add: power2_eq_square algebra_simps)
  then have "(of_nat (n * (n + 1) + (4 * n + 16)) :: rat) \<le> of_nat ((n + 4) ^ 2)" by (rule of_nat_mono)
  then have "of_nat (n * (n + 1) + (4 * n + 16)) / 2 ^ 53 \<le> (of_nat ((n + 4) ^ 2) / 2 ^ 53 :: rat)" by (rule divide_right_mono) simp
  then show ?thesis by (simp only: of_nat_add add_divide_distrib)
qed

text \<open>The factor applied to active weights adding up to more than the fraction.\<close>

lemma scale_bounds:
  assumes "0 \<le> fraction" "fraction < active" "fraction \<le> 1"
  shows "0 \<le> fdiv fraction active" "fdiv fraction active \<le> 1" "active * fdiv fraction active \<le> fraction + (fraction + active) / 2 ^ 53"
proof -
  have a: "0 < active" using assms by linarith
  have q: "0 \<le> fraction / active" "fraction / active \<le> 1" using assms a by simp_all
  show "0 \<le> fdiv fraction active" using assms a by (simp add: float_nonneg)
  show "fdiv fraction active \<le> 1" unfolding fdiv_def using q by (intro f64.below) simp_all
  have "fdiv fraction active \<le> fraction / active + (fraction / active + 1) / 2 ^ 53"
    using f64_close [OF q(1)] unfolding fdiv_def by linarith
  then have "active * fdiv fraction active \<le> active * (fraction / active + (fraction / active + 1) / 2 ^ 53)"
    using a by (intro mult_left_mono) simp_all
  also have "\<dots> = fraction + (fraction + active) / 2 ^ 53" using a by (simp add: field_simps)
  finally show "active * fdiv fraction active \<le> fraction + (fraction + active) / 2 ^ 53" .
qed

lemma book_weight_le_length: "list_all float_weight sgs \<Longrightarrow> book_weight sgs \<le> of_nat (length sgs)"
  by (induction sgs) (auto simp: book_weight_def float_weight_def)

lemma within_budget:
  assumes "0 \<le> fraction" "fraction \<le> 1"
  shows "fadd fraction (f64 (1 / 10 ^ 12)) \<le> fraction + 1 / 10 ^ 12 + 16 / 2 ^ 53"
proof -
  let ?e = "1 / 10 ^ 12 :: rat"
  have e: "\<bar>f64 ?e - ?e\<bar> \<le> (?e + 1) / 2 ^ 53" by (rule f64_close) simp
  have e0: "0 \<le> f64 ?e" by (rule f64.nonneg) simp
  have e1: "f64 ?e \<le> 1" by (rule f64.below) simp_all
  have "fadd fraction (f64 ?e) \<le> fraction + f64 ?e + (fraction + f64 ?e + 1) / 2 ^ 53"
    using f64_close [of "fraction + f64 ?e"] assms e0 unfolding fadd_def by linarith
  moreover have "(fraction + f64 ?e + 1) / 2 ^ 53 \<le> 4 / 2 ^ 53"
    using assms e1 by (intro divide_right_mono) (linarith, simp)
  moreover have "(?e + 1) / 2 ^ 53 \<le> 2 / 2 ^ 53" by simp
  ultimately show ?thesis using e by linarith
qed

lemma slack_chain:
  fixes b f e :: rat
  shows "b \<le> f + e + r + c \<Longrightarrow> r \<le> d \<Longrightarrow> c + d \<le> t \<Longrightarrow> b \<le> f + e + t"
  by linarith

lemma sum_chain:
  fixes a b f :: rat
  shows "\<bar>a - b\<bar> \<le> c \<Longrightarrow> c \<le> n + 1 \<Longrightarrow> b \<le> n \<Longrightarrow> f \<le> 1 \<Longrightarrow> f + a \<le> 2 * n + 2"
  by linarith

lemma cap_bound:
  assumes "0 \<le> sr_allocation_pct reg" "sr_allocation_pct reg \<le> 100" "length sgs \<le> 2 ^ 53" "list_all float_weight sgs"
  shows "book_weight (fst (enforce_cap reg sgs))
     \<le> fdiv (sr_allocation_pct reg) 100 + 1 / 10 ^ 12 + of_nat ((length sgs + 4) ^ 2) / 2 ^ 53"
proof -
  let ?n = "length sgs"
  let ?fr = "fdiv (sr_allocation_pct reg) 100" and ?E = "of_nat (?n * (?n + 1)) / 2 ^ 53 :: rat"
  have fr: "0 \<le> ?fr" "?fr \<le> 1"
    unfolding fdiv_def using assms(1,2) by (auto intro!: f64.below f64.nonneg)
  note act = active_close [OF assms(3,4)] and slack = slack_sum [of ?n]
  consider (starved) "sr_allocation_pct reg \<le> 0"
    | (within) "\<not> sr_allocation_pct reg \<le> 0" "active_weight sgs \<le> fadd ?fr (f64 (1 / 10 ^ 12))"
    | (scaled) "\<not> sr_allocation_pct reg \<le> 0" "fadd ?fr (f64 (1 / 10 ^ 12)) < active_weight sgs"
    by linarith
  then show ?thesis
  proof cases
    case starved
    have "book_weight (zero_active_weights sgs) = 0"
      by (induction sgs) (auto simp: book_weight_def zero_active_weights_def is_passive_def record_original_def)
    then show ?thesis using starved fr by (simp add: enforce_cap_def)
  next
    case within
    have "book_weight sgs \<le> ?fr + 1 / 10 ^ 12 + 16 / 2 ^ 53 + ?E"
      using act(1) within(2) within_budget [OF fr] by linarith
    moreover have "(16 :: rat) / 2 ^ 53 \<le> of_nat (4 * ?n + 16) / 2 ^ 53" by (rule divide_right_mono) simp_all
    moreover have "fst (enforce_cap reg sgs) = sgs" using within by (simp add: enforce_cap_def Let_def)
    ultimately show ?thesis using slack_chain [OF _ _ slack] by metis
  next
    case scaled
    let ?s = "fdiv ?fr (active_weight sgs)"
    have "?fr \<le> fadd ?fr (f64 (1 / 10 ^ 12))" by (rule fadd_ge1) (simp_all add: fdiv_def f64.idem f64.nonneg)
    then have lt: "?fr < active_weight sgs" using scaled by linarith
    note s = scale_bounds [OF fr(1) lt fr(2)]
    have out: "fst (enforce_cap reg sgs) = map (scale_signal ?s) sgs"
      using scaled lt fr(1) by (simp add: enforce_cap_def Let_def)
    have E: "0 \<le> ?E" by simp
    have "book_weight sgs * ?s \<le> (active_weight sgs + ?E) * ?s"
      using act(1) s(1) by (intro mult_right_mono) linarith+
    also have "\<dots> \<le> active_weight sgs * ?s + ?E"
      using mult_left_le [OF s(2) E] by (simp only: distrib_right add_le_cancel_left)
    finally have "book_weight sgs * ?s \<le> ?fr + (?fr + active_weight sgs) / 2 ^ 53 + ?E" using s(3) by linarith
    moreover have "?fr + active_weight sgs \<le> of_nat (2 * ?n + 2)"
    proof -
      have "?n * (?n + 1) \<le> 2 ^ 53 * (?n + 1)" using assms(3) by (rule mult_le_mono1)
      then have "of_nat (?n * (?n + 1)) \<le> (of_nat (2 ^ 53 * (?n + 1)) :: rat)" by (rule of_nat_mono)
      then have "?E \<le> of_nat (?n + 1)" by (simp only: of_nat_mult) (simp add: field_simps)
      then show ?thesis using sum_chain [OF act(1) _ book_weight_le_length [OF assms(4)] fr(2)] by simp
    qed
    then have "(?fr + active_weight sgs) / 2 ^ 53 \<le> of_nat (2 * ?n + 2) / 2 ^ 53" by (rule divide_right_mono) simp
    moreover have "of_nat (2 * ?n + 2) / 2 ^ 53 + of_nat (2 * ?n) / 2 ^ 53 \<le> (of_nat (4 * ?n + 16) / 2 ^ 53 :: rat)"
      unfolding add_divide_distrib [symmetric] by (rule divide_right_mono) simp_all
    ultimately show ?thesis
      unfolding out using scaled_book [OF assms(4) s(1,2)] slack
        zero_le_divide_1_iff [of "10 ^ 12 :: rat"] zero_le_power [of "10 :: rat" 12] by linarith
  qed
qed

lemma capped_intent:
  assumes "0 \<le> sr_allocation_pct reg" "sr_allocation_pct reg \<le> 100" "length sgs \<le> 2 ^ 53" "list_all float_weight sgs"
  shows "list_all2 same_intent (fst (enforce_cap reg sgs)) sgs"
proof -
  let ?fr = "fdiv (sr_allocation_pct reg) 100" and ?s = "fdiv (fdiv (sr_allocation_pct reg) 100) (active_weight sgs)"
  have refl: "list_all2 same_intent sgs sgs"
    using assms(4) by (induction sgs) (simp_all add: same_intent_def float_weight_def)
  have fr: "0 \<le> ?fr" "?fr \<le> 1"
    unfolding fdiv_def using assms(1,2) by (auto intro!: f64.below f64.nonneg)
  have zero: "list_all2 same_intent (zero_active_weights sgs) sgs"
    using assms(4) by (induction sgs) (auto simp: zero_active_weights_def record_original_def same_intent_def float_weight_def)
  have scaled: "list_all2 same_intent (map (scale_signal ?s) sgs) sgs" if "?fr < active_weight sgs"
    using scale_signal_intent(1) [OF _ scale_bounds(1,2) [OF fr(1) that fr(2)]] assms(4)
    by (auto simp: list_all2_conv_all_nth list_all_iff)
  have "?fr \<le> fadd ?fr (f64 (1 / 10 ^ 12))" by (rule fadd_ge1) (simp_all add: fdiv_def f64.idem f64.nonneg)
  then show ?thesis using refl zero scaled fr(1) unfolding enforce_cap_def Let_def by auto
qed

text \<open>
  C10.  The allocation cap: whatever weights a strategy asks for, the weights of its purchases and sales after
  the cap add up (exactly, not in floats) to at most its share of the capital, beyond the tolerance
  of the code by at most the roundings, \<open>(n + 4)^2 / 2^53\<close> for \<open>n\<close> signals; no weight is raised or turned
  negative, and every signal comes out once, in its place, with the symbol, side, quantity and id it had.
\<close>

theorem cap_holds_exactly:
  assumes "0 \<le> sr_allocation_pct reg" "sr_allocation_pct reg \<le> 100" "length sgs \<le> 2 ^ 53" "list_all float_weight sgs"
  shows "book_weight (fst (enforce_cap reg sgs))
       \<le> fdiv (sr_allocation_pct reg) 100 + 1 / 10 ^ 12 + of_nat ((length sgs + 4) ^ 2) / 2 ^ 53
     \<and> list_all2 same_intent (fst (enforce_cap reg sgs)) sgs"
  by (intro conjI cap_bound capped_intent assms)

definition a_reg :: "nat StrategyRegistration" where
  "a_reg = \<lparr>sr_strategy_id = ''a'', sr_strategy = 0, sr_allocation_pct = 50, sr_allocation_cap = 500\<rparr>"

definition a_signal :: "Side \<Rightarrow> rat \<Rightarrow> int option \<Rightarrow> MetaSignal" where
  "a_signal side w q = \<lparr>sg_id = ''s'', sg_symbol = ''X'', sg_side = side, sg_weight = w, sg_quantity = q,
     sg_strategy_id = ''a'', sg_max_cost_pct = None, sg_metadata = []\<rparr>"

theorem cap_holds_exactly_witness:
  "let sgs = [a_signal SIDE_BUY 1 None, a_signal SIDE_HOLD 1 None, a_signal SIDE_SELL 1 None] in
     book_weight (fst (enforce_cap a_reg sgs)) \<le> fdiv 50 100 + 1 / 10 ^ 12 + of_nat ((length sgs + 4) ^ 2) / 2 ^ 53
     \<and> list_all2 same_intent (fst (enforce_cap a_reg sgs)) sgs"
  using cap_holds_exactly [of a_reg "[a_signal SIDE_BUY 1 None, a_signal SIDE_HOLD 1 None, a_signal SIDE_SELL 1 None]"]
  by (simp add: Let_def a_reg_def a_signal_def float_weight_def)

section \<open>The cap and the order manager\<close>

text \<open>
  The cap works on weights; a signal with a quantity of its own is sized by it alone, so a strategy with
  no capital at all still trades the quantity it names.
\<close>

theorem quantity_evades_cap:
  assumes "sr_allocation_pct reg = 0" "sg_quantity sg = Some q" "q \<noteq> 0"
  shows "\<exists>out. fst (enforce_cap reg [sg]) = [out] \<and> sg_side out = sg_side sg \<and> sg_symbol out = sg_symbol sg
    \<and> signal_quantity (Signal.truncate out) price p = q"
  using assms by (auto simp: enforce_cap_def zero_active_weights_def record_original_def signal_quantity_def Signal.truncate_def)

section \<open>Isolation\<close>

definition answer :: "('o \<Rightarrow> 'm \<Rightarrow> MetaSignal outcome \<times> 'o) \<Rightarrow> 'm \<Rightarrow> string \<Rightarrow> 'o StrategyRegistration \<Rightarrow> MetaSignal list option" where
  "answer run market sid reg = (case fst (run (sr_strategy reg) market) of
     Gave sgs \<Rightarrow> Some (fst (enforce_cap reg (tag sid reg sgs))) | _ \<Rightarrow> None)"

definition complaint :: "('o \<Rightarrow> 'm \<Rightarrow> MetaSignal outcome \<times> 'o) \<Rightarrow> (string \<Rightarrow> string) \<Rightarrow> 'm \<Rightarrow> string \<Rightarrow> 'o StrategyRegistration \<Rightarrow> string option" where
  "complaint run tt market sid reg = (case fst (run (sr_strategy reg) market) of
     Gave _ \<Rightarrow> None | RaisedExc why \<Rightarrow> Some why | TimedOut \<Rightarrow> Some (tt sid))"

definition or_else :: "'b option \<Rightarrow> 'b option \<Rightarrow> 'b option" where
  "or_else x y = (case x of None \<Rightarrow> y | Some v \<Rightarrow> Some v)"

lemma evaluate_loop_isolated:
  assumes "dict_ok regs" "evaluate_loop run tt market regs ev = (ev', regs')"
  shows "map_of (me_per_strategy ev') sid
         = or_else (Option.bind (map_of regs sid) (answer run market sid)) (map_of (me_per_strategy ev) sid)
    \<and> map_of (me_errors ev') sid
         = or_else (Option.bind (map_of regs sid) (complaint run tt market sid)) (map_of (me_errors ev) sid)"
  using assms
proof (induction regs arbitrary: ev ev' regs')
  case (Cons kv regs)
  obtain k reg where kv: "kv = (k, reg)" by (cases kv)
  obtain out obj where r: "run (sr_strategy reg) market = (out, obj)" by (cases "run (sr_strategy reg) market")
  have fresh: "map_of regs k = None" using Cons.prems(1) by (simp add: kv map_of_eq_None_iff)
  have ok: "dict_ok regs" using Cons.prems(1) by simp
  obtain ev1 where rec: "fst (evaluate_loop run tt market regs ev1) = ev'"
      and ev1: "map_of (me_per_strategy ev1) = (map_of (me_per_strategy ev))
          (k := or_else (answer run market k reg) (map_of (me_per_strategy ev) k))"
        "map_of (me_errors ev1) = (map_of (me_errors ev))
          (k := or_else (complaint run tt market k reg) (map_of (me_errors ev) k))"
    using Cons.prems(2)
    by (cases out; clarsimp simp: kv r Let_def or_else_def answer_def complaint_def split: prod.splits)
      (rule that, erule fstI, simp_all add: r or_else_def answer_def complaint_def)+
  obtain regs2 where "evaluate_loop run tt market regs ev1 = (ev', regs2)" using rec by (metis prod.collapse)
  from Cons.IH [OF ok this] show ?case using fresh by (auto simp: kv ev1 or_else_def)
qed (auto simp: or_else_def)

lemma enforce_cap_ids: "list_all (\<lambda>sg. sg_strategy_id sg = sid) sgs \<Longrightarrow> list_all (\<lambda>sg. sg_strategy_id sg = sid) (fst (enforce_cap reg sgs))"
  by (auto simp: enforce_cap_def Let_def list_all_iff zero_active_weights_def scale_signal_def record_original_def)

lemma answer_ids: "answer run market sid reg = Some sgs \<Longrightarrow> list_all (\<lambda>sg. sg_strategy_id sg = sid) sgs"
  by (auto simp: answer_def tag_def split: outcome.splits intro!: enforce_cap_ids) (simp add: list_all_iff)

text \<open>
  Strategies are isolated: in an evaluation of all of them, what a strategy is credited with is what its own
  registration and its own answer give (tagged with its registered id, whatever id the strategy wrote, and
  capped by its own share), a strategy that raises or times out is reported among the errors and
  contributes nothing, and neither changes the answer, the error or the share of another.
\<close>

theorem evaluation_is_isolated:
  assumes "dict_ok (mm_registrations m)" "evaluate_all run tt market m = (ev, m')"
  shows "map_of (me_per_strategy ev) sid = Option.bind (map_of (mm_registrations m) sid) (answer run market sid)
     \<and> map_of (me_errors ev) sid = Option.bind (map_of (mm_registrations m) sid) (complaint run tt market sid)
     \<and> list_all (\<lambda>sg. sg_strategy_id sg = sid) (case map_of (me_per_strategy ev) sid of None \<Rightarrow> [] | Some sgs \<Rightarrow> sgs)
     \<and> me_signals ev = concat (map snd (me_per_strategy ev))"
proof (cases "mm_registrations m = []")
  case True
  then show ?thesis using assms by (auto simp: evaluate_all_def empty_evaluation_def)
next
  case False
  let ?ev0 = "empty_evaluation (mm_total_capital m)"
  obtain e regs where loop: "evaluate_loop run tt market (mm_registrations m) ?ev0 = (e, regs)"
    by (cases "evaluate_loop run tt market (mm_registrations m) ?ev0")
  have ev: "me_per_strategy ev = me_per_strategy e" "me_errors ev = me_errors e"
      "me_signals ev = concat (map snd (me_per_strategy e))"
    using assms(2) False loop by (auto simp: evaluate_all_def Let_def dict_values_def)
  show ?thesis using evaluate_loop_isolated [OF assms(1) loop, of sid] answer_ids
    by (auto simp: ev empty_evaluation_def or_else_def split: option.splits Option.bind_splits)
qed

definition two_strategies :: "nat MultiStrategyManager" where
  "two_strategies = \<lparr>mm_total_capital = 1000, mm_eval_timeout = 30, mm_max_strategies = 5,
     mm_registrations = [(''a'', a_reg), (''b'', a_reg\<lparr>sr_strategy_id := ''b'', sr_strategy := 1\<rparr>)]\<rparr>"

lemma enforce_cap_Nil: "fst (enforce_cap reg []) = []"
  by (simp add: enforce_cap_def zero_active_weights_def Let_def)

end
