(* ===== verification/Orchestration.thy ===== *)
theory Orchestration
  imports Aggregator MultiManager "HOL-Library.List_Lexorder" "HOL-Library.Char_ord"
begin

text \<open>
  Three orchestrators that call many strategies on the same market and merge their signals:
  \<open>engine/core/strategy_orchestrator.py\<close> (votes through the signal aggregator),
  \<open>engine/orchestration/orchestrator.py\<close> (priority or net position) and
  \<open>engine/portfolio/orchestrator.py\<close> (net weighted vote).

  A strategy is an object, an id (\<open>None\<close> when it has none that is a string) and whether it can be called; \<open>run\<close>
  says what a call came to and the object it left.  A number argument is what \<open>float\<close> makes of it, \<open>None\<close>
  when it refuses it.  Registering while an evaluation waits is not modelled.
\<close>

section \<open>What the three share\<close>

datatype so_error =
  NoStrategyId
| NoEvaluateMethod string
| NumberExpected string
| NumberNotFinite string
| NumberNegative string rat
| TimeoutNotPositive rat
| UnknownMode string
| NotAPair
| DuplicateStrategy string
| UnknownPriority string
| AggregatorFailed aggregator_error

definition so_strategy_id :: "string option \<Rightarrow> so_error + string" where
  "so_strategy_id sid = (case sid of None \<Rightarrow> Inl NoStrategyId | Some s \<Rightarrow> if s = [] then Inl NoStrategyId else Inr s)"

definition finite_number :: "py_float option \<Rightarrow> string \<Rightarrow> so_error + rat" where
  "finite_number w label = (case w of
     None \<Rightarrow> Inl (NumberExpected label) | Some NotFinite \<Rightarrow> Inl (NumberNotFinite label) | Some (Finite x) \<Rightarrow> Inr x)"

definition valid_weight :: "py_float option \<Rightarrow> string \<Rightarrow> so_error + rat" where
  "valid_weight w sid = (case finite_number w sid of
     Inl e \<Rightarrow> Inl e | Inr x \<Rightarrow> if x < 0 then Inl (NumberNegative sid x) else Inr x)"

definition valid_timeout :: "py_float option \<Rightarrow> so_error + rat" where
  "valid_timeout w = (case finite_number w ''eval_timeout'' of
     Inl e \<Rightarrow> Inl e | Inr x \<Rightarrow> if x \<le> 0 then Inl (TimeoutNotPositive x) else Inr x)"

text \<open>Call every strategy in turn: the answers, the errors, and the objects they leave.\<close>

fun collect_answers ::
  "('o \<Rightarrow> 'm \<Rightarrow> 's outcome \<times> 'o) \<Rightarrow> (string \<Rightarrow> string) \<Rightarrow> 'm \<Rightarrow> (string, 'o) dict
     \<Rightarrow> (string, 's list) dict \<times> (string, string) dict \<times> (string, 'o) dict" where
  "collect_answers run timeout_text market [] = ([], [], [])"
| "collect_answers run timeout_text market ((sid, obj) # rest) =
     (case run obj market of (out, obj') \<Rightarrow>
      case collect_answers run timeout_text market rest of (answers, errors, objs) \<Rightarrow>
        (case out of
           Gave sgs \<Rightarrow> ((sid, sgs) # answers, errors, (sid, obj') # objs)
         | RaisedExc why \<Rightarrow> (answers, (sid, why) # errors, (sid, obj') # objs)
         | TimedOut \<Rightarrow> (answers, (sid, timeout_text sid) # errors, (sid, obj') # objs)))"

section \<open>Votes through the aggregator\<close>

record 'o CoreOrchestrator =
  co_strategies :: "(string, 'o) dict"
  co_weights :: "(string, rat) dict"
  co_timeout :: rat

definition new_core_orchestrator :: "py_float option \<Rightarrow> so_error + 'o CoreOrchestrator" where
  "new_core_orchestrator timeout = (case valid_timeout timeout of
     Inl e \<Rightarrow> Inl e | Inr t \<Rightarrow> Inr \<lparr>co_strategies = [], co_weights = [], co_timeout = t\<rparr>)"

definition co_register ::
  "string option \<Rightarrow> bool \<Rightarrow> 'o \<Rightarrow> py_float option \<Rightarrow> 'o CoreOrchestrator \<Rightarrow> (so_error + unit) \<times> 'o CoreOrchestrator" where
  "co_register sid callable_evaluate obj weight orch =
     (case so_strategy_id sid of Inl e \<Rightarrow> (Inl e, orch) | Inr s \<Rightarrow>
      if \<not> callable_evaluate then (Inl (NoEvaluateMethod s), orch)
      else case valid_weight weight s of Inl e \<Rightarrow> (Inl e, orch) | Inr w \<Rightarrow>
        (Inr (), orch\<lparr>co_strategies := AList.update s obj (co_strategies orch),
                      co_weights := AList.update s w (co_weights orch)\<rparr>))"

definition co_unregister :: "string \<Rightarrow> 'o CoreOrchestrator \<Rightarrow> bool \<times> 'o CoreOrchestrator" where
  "co_unregister sid orch = (map_of (co_strategies orch) sid \<noteq> None,
     orch\<lparr>co_strategies := AList.delete sid (co_strategies orch), co_weights := AList.delete sid (co_weights orch)\<rparr>)"

datatype AggregationMode = MODE_MAJORITY | MODE_MAJORITY_VOTE | MODE_WEIGHTED

fun mode_value :: "AggregationMode \<Rightarrow> string" where
  "mode_value MODE_MAJORITY = ''majority''"
| "mode_value MODE_MAJORITY_VOTE = ''majority_vote''"
| "mode_value MODE_WEIGHTED = ''weighted''"

fun MODE_TO_METHOD :: "AggregationMode \<Rightarrow> AggregationMethod" where
  "MODE_TO_METHOD MODE_MAJORITY = MAJORITY"
| "MODE_TO_METHOD MODE_MAJORITY_VOTE = MAJORITY"
| "MODE_TO_METHOD MODE_WEIGHTED = WEIGHTED"

definition resolve_mode :: "string \<Rightarrow> so_error + AggregationMode" where
  "resolve_mode s = (case find (\<lambda>m. mode_value m = s) [MODE_MAJORITY, MODE_MAJORITY_VOTE, MODE_WEIGHTED] of
     None \<Rightarrow> Inl (UnknownMode s) | Some m \<Rightarrow> Inr m)"

record OrchestrationResult =
  os_signals :: "Signal list"
  os_batches :: "SignalBatch list"
  os_aggregation :: string
  os_strategy_count :: nat
  os_weights :: "(string, rat) dict"
  os_errors :: "(string, string) dict"

definition co_evaluate_all ::
  "('o \<Rightarrow> 'm \<Rightarrow> Signal outcome \<times> 'o) \<Rightarrow> (string \<Rightarrow> string) \<Rightarrow> 'm \<Rightarrow> string \<Rightarrow> 'o CoreOrchestrator
     \<Rightarrow> (so_error + OrchestrationResult) \<times> 'o CoreOrchestrator" where
  "co_evaluate_all run timeout_text market aggregation orch =
     (case resolve_mode aggregation of Inl e \<Rightarrow> (Inl e, orch) | Inr mode \<Rightarrow>
      if co_strategies orch = []
      then (Inr \<lparr>os_signals = [], os_batches = [], os_aggregation = mode_value mode, os_strategy_count = 0,
                 os_weights = [], os_errors = []\<rparr>, orch)
      else case collect_answers run timeout_text market (co_strategies orch) of (answers, errors, objs) \<Rightarrow>
        let batches = map (\<lambda>(sid, sgs). \<lparr>sb_strategy_id = sid, sb_signals = sgs\<rparr>) answers
        in (case new_aggregator (method_value (MODE_TO_METHOD mode)) (map (\<lambda>(sid, w). (sid, Some w)) (co_weights orch)) of
              Inl e \<Rightarrow> Inl (AggregatorFailed e)
            | Inr agg \<Rightarrow> Inr \<lparr>os_signals = aggregate agg batches, os_batches = batches,
                os_aggregation = mode_value mode, os_strategy_count = length objs,
                os_weights = co_weights orch, os_errors = errors\<rparr>,
            orch\<lparr>co_strategies := objs\<rparr>))"

section \<open>Priority or net position\<close>

datatype ConflictResolution = BY_PRIORITY | NET_POSITION

fun conflict_value :: "ConflictResolution \<Rightarrow> string" where
  "conflict_value BY_PRIORITY = ''priority''"
| "conflict_value NET_POSITION = ''net_position''"

definition ORCHESTRATOR_ID :: string where
  "ORCHESTRATOR_ID = ''orchestrator''"

text \<open>\<open>1e-9\<close> as a float.\<close>

definition NET_EPSILON :: rat where
  "NET_EPSILON = f64 (1 / 10 ^ 9)"

record 'o ConflictOrchestrator =
  cf_mode :: ConflictResolution
  cf_strategies :: "(string, 'o) dict"
  cf_priorities :: "(string, rat) dict"
  cf_last_signals :: "MetaSignal list"

definition get_priority :: "'o ConflictOrchestrator \<Rightarrow> string \<Rightarrow> rat" where
  "get_priority orch sid = (case map_of (cf_priorities orch) sid of None \<Rightarrow> 0 | Some p \<Rightarrow> p)"

definition cf_register ::
  "string option \<Rightarrow> bool \<Rightarrow> 'o \<Rightarrow> py_float option \<Rightarrow> 'o ConflictOrchestrator
     \<Rightarrow> (so_error + unit) \<times> 'o ConflictOrchestrator" where
  "cf_register sid callable_evaluate obj priority orch =
     (case so_strategy_id sid of Inl e \<Rightarrow> (Inl e, orch) | Inr s \<Rightarrow>
      if \<not> callable_evaluate then (Inl (NoEvaluateMethod s), orch)
      else if map_of (cf_strategies orch) s \<noteq> None then (Inl (DuplicateStrategy s), orch)
      else
        let orch' = orch\<lparr>cf_strategies := AList.update s obj (cf_strategies orch)\<rparr>
        in (case finite_number priority s of
              Inl e \<Rightarrow> (Inl e, orch')
            | Inr p \<Rightarrow> (Inr (), orch'\<lparr>cf_priorities := AList.update s p (cf_priorities orch')\<rparr>)))"

fun cf_register_all ::
  "(string option \<times> bool \<times> 'o) list \<Rightarrow> 'o ConflictOrchestrator \<Rightarrow> so_error + 'o ConflictOrchestrator" where
  "cf_register_all [] orch = Inr orch"
| "cf_register_all ((sid, ev, obj) # rest) orch =
     (case cf_register sid ev obj (Some (Finite 0)) orch of
        (Inl e, _) \<Rightarrow> Inl e | (Inr _, orch') \<Rightarrow> cf_register_all rest orch')"

fun cf_set_priorities ::
  "(string, py_float option) dict \<Rightarrow> 'o ConflictOrchestrator \<Rightarrow> so_error + 'o ConflictOrchestrator" where
  "cf_set_priorities [] orch = Inr orch"
| "cf_set_priorities ((sid, prio) # rest) orch =
     (if map_of (cf_strategies orch) sid = None then Inl (UnknownPriority sid)
      else case finite_number prio sid of
        Inl e \<Rightarrow> Inl e
      | Inr p \<Rightarrow> cf_set_priorities rest (orch\<lparr>cf_priorities := AList.update sid p (cf_priorities orch)\<rparr>))"

definition new_conflict_orchestrator ::
  "(string option \<times> bool \<times> 'o) list \<Rightarrow> string \<Rightarrow> (string, py_float option) dict \<Rightarrow> so_error + 'o ConflictOrchestrator" where
  "new_conflict_orchestrator strategies mode priorities =
     (case find (\<lambda>m. conflict_value m = mode) [BY_PRIORITY, NET_POSITION] of
        None \<Rightarrow> Inl (UnknownMode mode)
      | Some m \<Rightarrow>
          (case cf_register_all strategies \<lparr>cf_mode = m, cf_strategies = [], cf_priorities = [], cf_last_signals = []\<rparr> of
             Inl e \<Rightarrow> Inl e | Inr orch \<Rightarrow> cf_set_priorities priorities orch))"

definition cf_unregister :: "string \<Rightarrow> 'o ConflictOrchestrator \<Rightarrow> bool \<times> 'o ConflictOrchestrator" where
  "cf_unregister sid orch = (map_of (cf_strategies orch) sid \<noteq> None,
     orch\<lparr>cf_strategies := AList.delete sid (cf_strategies orch), cf_priorities := AList.delete sid (cf_priorities orch)\<rparr>)"

definition run_all ::
  "('o \<Rightarrow> 'm \<Rightarrow> MetaSignal outcome \<times> 'o) \<Rightarrow> 'm \<Rightarrow> 'o ConflictOrchestrator \<Rightarrow> MetaSignal list \<times> 'o ConflictOrchestrator" where
  "run_all run market orch =
     (case collect_answers run (\<lambda>sid. []) market (cf_strategies orch) of (answers, errors, objs) \<Rightarrow>
        let got = concat (dict_values answers)
        in (got, orch\<lparr>cf_strategies := objs, cf_last_signals := got\<rparr>))"

definition resolved :: "MetaSignal \<Rightarrow> Side \<Rightarrow> MetaSignal list \<Rightarrow> rat option \<Rightarrow> MetaSignal" where
  "resolved template side active weight = template\<lparr>sg_side := side,
     sg_weight := (case weight of None \<Rightarrow> sg_weight template | Some w \<Rightarrow> w),
     sg_strategy_id := ORCHESTRATOR_ID,
     sg_metadata := AList.update ''orchestrator_sources'' (MList (map sg_strategy_id active)) (sg_metadata template)\<rparr>"

definition resolve_priority :: "'o ConflictOrchestrator \<Rightarrow> MetaSignal list \<Rightarrow> MetaSignal" where
  "resolve_priority orch sgs =
     (let active = filter (\<lambda>s. sg_side s \<noteq> SIDE_HOLD) sgs in
      if active = [] then resolved (hd sgs) SIDE_HOLD active None
      else
        let top = Max (set (map (\<lambda>s. get_priority orch (sg_strategy_id s)) active));
            winners = filter (\<lambda>s. get_priority orch (sg_strategy_id s) = top) active
        in if 1 < card (sg_side ` set winners) then resolved (hd winners) SIDE_HOLD active None
           else resolved (hd winners) (sg_side (hd winners)) active None)"

definition net_step :: "rat \<Rightarrow> MetaSignal \<Rightarrow> rat" where
  "net_step net sg = (case sg_side sg of
     SIDE_BUY \<Rightarrow> fadd net (sg_weight sg) | SIDE_SELL \<Rightarrow> fsub net (sg_weight sg) | SIDE_HOLD \<Rightarrow> net)"

definition resolve_net_position :: "MetaSignal list \<Rightarrow> MetaSignal" where
  "resolve_net_position sgs =
     (let net = foldl net_step 0 sgs; active = filter (\<lambda>s. sg_side s \<noteq> SIDE_HOLD) sgs in
      if NET_EPSILON < net then resolved (hd sgs) SIDE_BUY active (Some (min net 1))
      else if net < - NET_EPSILON then resolved (hd sgs) SIDE_SELL active (Some (min \<bar>net\<bar> 1))
      else resolved (hd sgs) SIDE_HOLD active (Some 0))"

definition resolve_group :: "'o ConflictOrchestrator \<Rightarrow> MetaSignal list \<Rightarrow> MetaSignal" where
  "resolve_group orch sgs = (if cf_mode orch = NET_POSITION then resolve_net_position sgs else resolve_priority orch sgs)"

definition add_to_group :: "(string, 's list) dict \<Rightarrow> string \<Rightarrow> 's \<Rightarrow> (string, 's list) dict" where
  "add_to_group d k x = AList.update k ((case map_of d k of None \<Rightarrow> [] | Some xs \<Rightarrow> xs) @ [x]) d"

definition signal_groups :: "MetaSignal list \<Rightarrow> (string, MetaSignal list) dict" where
  "signal_groups source = foldl (\<lambda>d sg. add_to_group d (sg_symbol sg) sg) [] source"

definition aggregate_signals :: "MetaSignal list option \<Rightarrow> 'o ConflictOrchestrator \<Rightarrow> MetaSignal list" where
  "aggregate_signals signals orch =
     (let source = (case signals of Some sgs \<Rightarrow> sgs | None \<Rightarrow> cf_last_signals orch)
      in map (resolve_group orch) (dict_values (signal_groups source)))"

section \<open>Net weighted vote\<close>

definition ORCHESTRATED_STRATEGY_ID :: string where
  "ORCHESTRATED_STRATEGY_ID = ''orchestrated''"

record 'o VoteOrchestrator =
  vo_strategies :: "(string, 'o) dict"
  vo_weights :: "(string, rat) dict"
  vo_timeout :: rat

text \<open>An entry of the constructor's list that is no pair is \<open>None\<close>.\<close>

type_synonym 'o entry = "(string option \<times> bool \<times> 'o \<times> py_float option) option"

fun add_entries :: "'o entry list \<Rightarrow> 'o VoteOrchestrator \<Rightarrow> so_error + 'o VoteOrchestrator" where
  "add_entries [] orch = Inr orch"
| "add_entries (None # rest) orch = Inl NotAPair"
| "add_entries (Some (sid, callable_evaluate, obj, weight) # rest) orch =
     (case so_strategy_id sid of Inl e \<Rightarrow> Inl e | Inr s \<Rightarrow>
      if \<not> callable_evaluate then Inl (NoEvaluateMethod s)
      else case valid_weight weight s of Inl e \<Rightarrow> Inl e | Inr w \<Rightarrow>
        if map_of (vo_strategies orch) s \<noteq> None then Inl (DuplicateStrategy s)
        else add_entries rest (orch\<lparr>vo_strategies := AList.update s obj (vo_strategies orch),
               vo_weights := AList.update s w (vo_weights orch)\<rparr>))"

definition new_vote_orchestrator :: "'o entry list \<Rightarrow> py_float option \<Rightarrow> so_error + 'o VoteOrchestrator" where
  "new_vote_orchestrator strategies timeout =
     (case valid_timeout timeout of
        Inl e \<Rightarrow> Inl e
      | Inr t \<Rightarrow> add_entries strategies \<lparr>vo_strategies = [], vo_weights = [], vo_timeout = t\<rparr>)"

record vote_tally =
  tl_net :: "(string, rat) dict"
  tl_symbols :: "string list"
  tl_voters :: "(string, (string \<times> string \<times> rat) list) dict"

definition net_of :: "vote_tally \<Rightarrow> string \<Rightarrow> rat" where
  "net_of t symb = (case map_of (tl_net t) symb of None \<Rightarrow> 0 | Some x \<Rightarrow> x)"

definition cast_vote :: "string \<Rightarrow> rat \<Rightarrow> vote_tally \<Rightarrow> MetaSignal \<Rightarrow> vote_tally" where
  "cast_vote sid weight t sg =
     (let symb = sg_symbol sg; t' = t\<lparr>tl_symbols := List.insert symb (tl_symbols t)\<rparr> in
      case sg_side sg of
        SIDE_BUY \<Rightarrow> t'\<lparr>tl_net := AList.update symb (fadd (net_of t symb) weight) (tl_net t),
                       tl_voters := add_to_group (tl_voters t) symb (sid, ''buy'', weight)\<rparr>
      | SIDE_SELL \<Rightarrow> t'\<lparr>tl_net := AList.update symb (fsub (net_of t symb) weight) (tl_net t),
                       tl_voters := add_to_group (tl_voters t) symb (sid, ''sell'', weight)\<rparr>
      | SIDE_HOLD \<Rightarrow> t')"

definition empty_tally :: vote_tally where
  "empty_tally = \<lparr>tl_net = [], tl_symbols = [], tl_voters = []\<rparr>"

definition tally_votes :: "(string \<Rightarrow> rat) \<Rightarrow> (string, MetaSignal list) dict \<Rightarrow> vote_tally" where
  "tally_votes weight per_strategy =
     foldl (\<lambda>t (sid, sgs). foldl (cast_vote sid (weight sid)) t sgs) empty_tally per_strategy"

definition vote_side :: "rat \<Rightarrow> Side" where
  "vote_side n = (if 0 < n then SIDE_BUY else if n < 0 then SIDE_SELL else SIDE_HOLD)"

text \<open>The signal made for a symbol; \<open>fresh\<close> gives its uuid.\<close>

definition vote_signal :: "(string \<Rightarrow> string) \<Rightarrow> string \<Rightarrow> rat \<Rightarrow> MetaSignal" where
  "vote_signal fresh symb n = \<lparr>sg_id = fresh symb, sg_symbol = symb, sg_side = vote_side n, sg_weight = min \<bar>n\<bar> 1,
     sg_quantity = None, sg_strategy_id = ORCHESTRATED_STRATEGY_ID, sg_max_cost_pct = None, sg_metadata = []\<rparr>"

record breakdown_entry =
  bd_net :: rat
  bd_side :: string
  bd_voters :: "(string \<times> string \<times> rat) list"

definition aggregate_votes ::
  "(string \<Rightarrow> string) \<Rightarrow> (string \<Rightarrow> rat) \<Rightarrow> (string, MetaSignal list) dict
     \<Rightarrow> MetaSignal list \<times> (string, breakdown_entry) dict" where
  "aggregate_votes fresh weight per_strategy =
     (let t = tally_votes weight per_strategy; symbols = sort (tl_symbols t) in
      (map (\<lambda>symb. vote_signal fresh symb (net_of t symb)) symbols,
       map (\<lambda>symb. (symb, \<lparr>bd_net = net_of t symb, bd_side = signal_side_value (vote_side (net_of t symb)),
            bd_voters = (case map_of (tl_voters t) symb of None \<Rightarrow> [] | Some vs \<Rightarrow> vs)\<rparr>)) symbols))"

record SignalSet =
  ss_signals :: "MetaSignal list"
  ss_strategy_count :: nat
  ss_breakdown :: "(string, breakdown_entry) dict"
  ss_errors :: "(string, string) dict"

text \<open>\<open>self._weights[sid]\<close>: strategies and weights have the same ids.\<close>

definition vo_weight :: "'o VoteOrchestrator \<Rightarrow> string \<Rightarrow> rat" where
  "vo_weight orch sid = (case map_of (vo_weights orch) sid of None \<Rightarrow> 0 | Some w \<Rightarrow> w)"

text \<open>The validated timeout is not used: an asynchronous answer is awaited for as long as it takes.\<close>

definition vo_evaluate ::
  "('o \<Rightarrow> 'm \<Rightarrow> MetaSignal outcome \<times> 'o) \<Rightarrow> (string \<Rightarrow> string) \<Rightarrow> 'm \<Rightarrow> 'o VoteOrchestrator \<Rightarrow> SignalSet \<times> 'o VoteOrchestrator" where
  "vo_evaluate run fresh market orch =
     (case collect_answers run (\<lambda>sid. ''TimeoutError: '') market (vo_strategies orch) of (answers, errors, objs) \<Rightarrow>
      case aggregate_votes fresh (vo_weight orch) answers of (signals, breakdown) \<Rightarrow>
        (\<lparr>ss_signals = signals, ss_strategy_count = length objs, ss_breakdown = breakdown, ss_errors = errors\<rparr>,
         orch\<lparr>vo_strategies := objs\<rparr>))"

section \<open>The tally\<close>

text \<open>The votes in the order they are read, and the sum for one symbol alone.\<close>

definition ballots :: "(string, MetaSignal list) dict \<Rightarrow> (string \<times> MetaSignal) list" where
  "ballots per_strategy = concat (map (\<lambda>(sid, sgs). map (Pair sid) sgs) per_strategy)"

definition signed :: "(string \<Rightarrow> rat) \<Rightarrow> string \<times> MetaSignal \<Rightarrow> rat" where
  "signed weight b = (case sg_side (snd b) of SIDE_BUY \<Rightarrow> weight (fst b) | SIDE_SELL \<Rightarrow> - weight (fst b) | SIDE_HOLD \<Rightarrow> 0)"

definition on_symbol :: "string \<Rightarrow> (string \<times> MetaSignal) list \<Rightarrow> (string \<times> MetaSignal) list" where
  "on_symbol symb = filter (\<lambda>b. sg_symbol (snd b) = symb \<and> sg_side (snd b) \<noteq> SIDE_HOLD)"

lemma tally_ballots:
  "tally_votes weight per_strategy = foldl (\<lambda>t (sid, sg). cast_vote sid (weight sid) t sg) empty_tally (ballots per_strategy)"
proof -
  have "foldl (\<lambda>t (sid, sgs). foldl (cast_vote sid (weight sid)) t sgs) t ps
      = foldl (\<lambda>t (sid, sg). cast_vote sid (weight sid) t sg) t (ballots ps)" for t ps
  proof (induction ps arbitrary: t)
    case (Cons p ps)
    obtain sid sgs where p: "p = (sid, sgs)" by (cases p)
    have "foldl (cast_vote sid (weight sid)) t sgs
        = foldl (\<lambda>t (sid, sg). cast_vote sid (weight sid) t sg) t (map (Pair sid) sgs)" for t
      by (induction sgs arbitrary: t) simp_all
    then show ?case using Cons by (simp add: p ballots_def)
  qed (simp add: ballots_def)
  then show ?thesis by (simp add: tally_votes_def)
qed

lemma tally_spec:
  fixes bs :: "(string \<times> MetaSignal) list" and weight :: "string \<Rightarrow> rat"
  defines "t \<equiv> foldl (\<lambda>t (sid, sg). cast_vote sid (weight sid) t sg) empty_tally bs"
  shows "net_of t symb = fsum (map (signed weight) (on_symbol symb bs))
    \<and> set (tl_symbols t) = sg_symbol ` snd ` set bs \<and> distinct (tl_symbols t)"
  unfolding t_def
proof (induction bs rule: rev_induct)
  case (snoc b bs)
  obtain sid sg where b: "b = (sid, sg)" by (cases b)
  show ?case using snoc
    by (cases "sg_side sg")
      (auto simp: b cast_vote_def Let_def net_of_def on_symbol_def signed_def fsum_def fadd_def fsub_def split: option.splits)
qed (simp add: empty_tally_def net_of_def on_symbol_def fsum_def)

text \<open>Weights that are multiples of \<open>1 / 2 ^ j\<close> are added exactly.\<close>

definition units :: "(string \<Rightarrow> nat) \<Rightarrow> string \<times> MetaSignal \<Rightarrow> int" where
  "units k b = (case sg_side (snd b) of SIDE_BUY \<Rightarrow> int (k (fst b)) | SIDE_SELL \<Rightarrow> - int (k (fst b)) | SIDE_HOLD \<Rightarrow> 0)"

lemma signed_units: "signed (\<lambda>sid. of_nat (k sid) / 2 ^ j) b = of_int (units k b) / 2 ^ j"
  by (simp add: signed_def units_def split: Side.splits)

lemma sum_units:
  "sum_list (map (signed (\<lambda>sid. of_nat (k sid) / 2 ^ j)) bs) = of_int (sum_list (map (units k) bs)) / 2 ^ j"
  by (induction bs) (simp_all add: signed_units add_divide_distrib)

lemma units_le: "\<bar>sum_list (map (units k) bs)\<bar> \<le> int (sum_list (map (k \<circ> fst) bs))"
proof (induction bs)
  case (Cons b bs)
  have "\<bar>units k b\<bar> \<le> int (k (fst b))" by (simp add: units_def split: Side.splits)
  then show ?case using Cons by simp
qed simp

lemma fsum_exact:
  assumes "sum_list (map (k \<circ> fst) bs) \<le> 2 ^ 53" "j \<le> 1074"
  shows "fsum (map (signed (\<lambda>sid. of_nat (k sid) / 2 ^ j)) bs) = of_int (sum_list (map (units k) bs)) / 2 ^ j"
  using assms(1)
proof (induction bs rule: rev_induct)
  case (snoc b bs)
  have "\<bar>sum_list (map (units k) (bs @ [b]))\<bar> \<le> 2 ^ 53"
    by (rule order_trans [OF units_le]) (metis snoc.prems of_nat_le_iff of_nat_numeral of_nat_power)
  then have "f64 (of_int (sum_list (map (units k) (bs @ [b]))) / 2 ^ j) = of_int (sum_list (map (units k) (bs @ [b]))) / 2 ^ j"
    using assms(2) by (rule f64_dyadic)
  moreover have "fsum (map (signed (\<lambda>sid. of_nat (k sid) / 2 ^ j)) bs) = of_int (sum_list (map (units k) bs)) / 2 ^ j"
    using snoc by simp
  then have "fsum (map (signed (\<lambda>sid. of_nat (k sid) / 2 ^ j)) (bs @ [b]))
      = f64 (of_int (sum_list (map (units k) (bs @ [b]))) / 2 ^ j)"
    by (simp add: fsum_def fadd_def signed_units add_divide_distrib)
  ultimately show ?case by simp
qed (simp add: fsum_def)

lemma on_symbol_units:
  fixes k :: "string \<Rightarrow> nat"
  shows "sum_list (map (k \<circ> fst) (on_symbol symb bs)) \<le> sum_list (map (k \<circ> fst) bs)"
  by (induction bs) (auto simp: on_symbol_def)

text \<open>
  The net vote: one decision per symbol that any answering strategy mentioned, in the order of the symbols; when the
  weights are multiples of some \<open>1 / 2 ^ j\<close> and their sum stays exact in floats, its side is that of the exact sum
  of the votes (purchases count the weight of their strategy, sales its negative, holds nothing), a tie holds, and the
  weight of the decision is that sum, at most one.
\<close>

theorem net_vote_exact:
  assumes "sum_list (map (k \<circ> fst) (ballots answers)) \<le> 2 ^ 53" "j \<le> 1074"
  shows "fst (aggregate_votes fresh (\<lambda>sid. of_nat (k sid) / 2 ^ j) answers)
    = map (\<lambda>symb. vote_signal fresh symb (sum_list (map (signed (\<lambda>sid. of_nat (k sid) / 2 ^ j)) (on_symbol symb (ballots answers)))))
        (sorted_list_of_set (sg_symbol ` snd ` set (ballots answers)))"
proof -
  let ?t = "tally_votes (\<lambda>sid. of_nat (k sid) / 2 ^ j) answers"
  note T = tally_spec [of "\<lambda>sid. of_nat (k sid) / 2 ^ j" "ballots answers", folded tally_ballots]
  have "net_of ?t symb = sum_list (map (signed (\<lambda>sid. of_nat (k sid) / 2 ^ j)) (on_symbol symb (ballots answers)))" for symb
    unfolding T [THEN conjunct1] sum_units
    by (rule fsum_exact) (use assms order_trans [OF on_symbol_units] in \<open>blast+\<close>)
  moreover have "sort (tl_symbols ?t) = sorted_list_of_set (sg_symbol ` snd ` set (ballots answers))"
    using T by (metis sorted_list_of_set_sort_remdups distinct_remdups_id)
  ultimately show ?thesis by (simp add: aggregate_votes_def Let_def)
qed

definition vote_of :: "string \<Rightarrow> Side \<Rightarrow> MetaSignal" where
  "vote_of symb side = a_signal side 1 None\<lparr>sg_symbol := symb\<rparr>"

section \<open>Groups of signals\<close>

text \<open>Grouping in the order of first mention, by any key.\<close>

definition grouped :: "('s \<Rightarrow> string) \<Rightarrow> 's list \<Rightarrow> (string, 's list) dict" where
  "grouped key xs = foldl (\<lambda>d x. add_to_group d (key x) x) [] xs"

lemma grouped_spec:
  "dict_ok (grouped key xs) \<and> set (map fst (grouped key xs)) = key ` set xs
   \<and> (\<forall>k. map_of (grouped key xs) k = (if filter (\<lambda>x. key x = k) xs = [] then None else Some (filter (\<lambda>x. key x = k) xs)))"
proof (induction xs rule: rev_induct)
  case (snoc x xs)
  have d: "grouped key (xs @ [x]) = add_to_group (grouped key xs) (key x) x"
    by (simp add: grouped_def)
  have "dict_ok (grouped key (xs @ [x]))" using snoc unfolding d add_to_group_def by (intro dict_ok_update) blast
  moreover have "set (map fst (grouped key (xs @ [x]))) = key ` set (xs @ [x])"
    using snoc by (simp add: d add_to_group_def dom_update_keys)
  moreover have "map_of (grouped key (xs @ [x])) k
      = (if filter (\<lambda>x. key x = k) (xs @ [x]) = [] then None else Some (filter (\<lambda>x. key x = k) (xs @ [x])))" for k
    using snoc by (simp add: d add_to_group_def)
  ultimately show ?case by blast
qed (simp add: grouped_def)

definition about :: "string \<Rightarrow> MetaSignal list \<Rightarrow> MetaSignal list" where
  "about symb = filter (\<lambda>sg. sg_symbol sg = symb)"

lemma signal_groups_spec:
  "dict_ok (signal_groups source) \<and> set (map fst (signal_groups source)) = sg_symbol ` set source
   \<and> (\<forall>symb. map_of (signal_groups source) symb = (if about symb source = [] then None else Some (about symb source)))"
  unfolding signal_groups_def about_def grouped_def [symmetric] by (rule grouped_spec)

lemma signal_groups_alt:
  "signal_groups source = map (\<lambda>symb. (symb, about symb source)) (map fst (signal_groups source))"
proof -
  note S = signal_groups_spec [of source]
  have "snd kv = about (fst kv) source" if "kv \<in> set (signal_groups source)" for kv
  proof -
    have "map_of (signal_groups source) (fst kv) = Some (snd kv)"
      by (rule map_of_is_SomeI) (use S that in simp_all)
    then show ?thesis using S by (metis option.distinct(1) option.inject)
  qed
  then show ?thesis by (intro nth_equalityI) (auto simp: prod_eq_iff)
qed

text \<open>A side leads when one of its signals has a priority that no purchase and no sale exceeds.\<close>

definition leads :: "(string \<Rightarrow> rat) \<Rightarrow> MetaSignal list \<Rightarrow> Side \<Rightarrow> bool" where
  "leads prio sgs sd \<longleftrightarrow> list_ex (\<lambda>s. sg_side s = sd
     \<and> list_all (\<lambda>t. sg_side t = SIDE_HOLD \<or> prio (sg_strategy_id t) \<le> prio (sg_strategy_id s)) sgs) sgs"

definition leading_side :: "(string \<Rightarrow> rat) \<Rightarrow> MetaSignal list \<Rightarrow> Side" where
  "leading_side prio sgs =
     (if leads prio sgs SIDE_BUY \<and> \<not> leads prio sgs SIDE_SELL then SIDE_BUY
      else if leads prio sgs SIDE_SELL \<and> \<not> leads prio sgs SIDE_BUY then SIDE_SELL else SIDE_HOLD)"

lemma resolved_fields [simp]:
  "sg_side (resolved t sd act w) = sd" "sg_symbol (resolved t sd act w) = sg_symbol t"
  "sg_strategy_id (resolved t sd act w) = ORCHESTRATOR_ID"
  by (simp_all add: resolved_def)

lemma resolve_priority_spec:
  assumes "sgs \<noteq> []"
  shows "sg_side (resolve_priority orch sgs) = leading_side (get_priority orch) sgs
    \<and> sg_symbol (resolve_priority orch sgs) \<in> sg_symbol ` set sgs"
proof -
  let ?p = "\<lambda>s. get_priority orch (sg_strategy_id s)" and ?act = "filter (\<lambda>s. sg_side s \<noteq> SIDE_HOLD) sgs"
  let ?win = "filter (\<lambda>s. ?p s = Max (set (map ?p ?act))) ?act"
  show ?thesis
  proof (cases "?act = []")
    case True
    then have "\<not> leads (get_priority orch) sgs sd" if "sd \<noteq> SIDE_HOLD" for sd
      using that by (auto simp: leads_def list_ex_iff filter_empty_conv)
    then show ?thesis using True assms by (simp add: resolve_priority_def leading_side_def)
  next
    case False
    have fin: "finite (set (map ?p ?act))" "set (map ?p ?act) \<noteq> {}" using False by (simp, metis set_empty2 list.map_disc_iff)
    have win: "s \<in> set ?win \<longleftrightarrow> s \<in> set ?act \<and> (\<forall>t\<in>set ?act. ?p t \<le> ?p s)" for s
      using eq_Max_iff [OF fin, of "?p s"] by auto
    have sides: "sd \<in> sg_side ` set ?win \<longleftrightarrow> sd \<noteq> SIDE_HOLD \<and> leads (get_priority orch) sgs sd" for sd
      unfolding image_iff Bex_def win leads_def list_ex_iff list_all_iff by auto
    have "Max (set (map ?p ?act)) \<in> ?p ` set ?act" using Max_in [OF fin] by simp
    then have ne: "?win \<noteq> []" by (fastforce simp: filter_empty_conv)
    have "sg_side ` set ?win = {sd. sd \<noteq> SIDE_HOLD \<and> leads (get_priority orch) sgs sd}" using sides by blast
    then have card: "1 < card (sg_side ` set ?win) \<longleftrightarrow> leads (get_priority orch) sgs SIDE_BUY \<and> leads (get_priority orch) sgs SIDE_SELL"
      using card_sides [of "\<lambda>sd. sd \<noteq> SIDE_HOLD \<and> leads (get_priority orch) sgs sd"] by simp
    have h: "hd ?win \<in> set ?win" using ne by (rule hd_in_set)
    then have "sg_side (hd ?win) \<noteq> SIDE_HOLD" "leads (get_priority orch) sgs (sg_side (hd ?win))" using sides by blast+
    moreover have "hd ?win \<in> set sgs" using h by simp
    moreover have "resolve_priority orch sgs = (if 1 < card (sg_side ` set ?win) then resolved (hd ?win) SIDE_HOLD ?act None
        else resolved (hd ?win) (sg_side (hd ?win)) ?act None)"
      using False by (simp add: resolve_priority_def Let_def)
    ultimately show ?thesis unfolding card by (cases "sg_side (hd ?win)") (auto simp: leading_side_def)
  qed
qed

lemma no_purchase_no_buy:
  assumes "list_all (\<lambda>s. 0 \<le> sg_weight s) sgs" "\<not> list_ex (\<lambda>s. sg_side s = SIDE_BUY) sgs" "net \<le> 0"
  shows "foldl net_step net sgs \<le> 0"
  using assms
proof (induction sgs arbitrary: net)
  case (Cons s sgs)
  have "fsub net (sg_weight s) \<le> 0" using Cons.prems by (simp add: fsub_def fadd_def f64.nonpos f64.nonneg)
  then show ?case using Cons by (cases "sg_side s") (simp_all add: net_step_def)
qed simp

lemma no_sale_no_sell:
  assumes "list_all (\<lambda>s. 0 \<le> sg_weight s) sgs" "\<not> list_ex (\<lambda>s. sg_side s = SIDE_SELL) sgs" "0 \<le> net"
  shows "0 \<le> foldl net_step net sgs"
  using assms
proof (induction sgs arbitrary: net)
  case (Cons s sgs)
  have "0 \<le> fadd net (sg_weight s)" using Cons.prems by (simp add: fsub_def fadd_def f64.nonpos f64.nonneg)
  then show ?case using Cons by (cases "sg_side s") (simp_all add: net_step_def)
qed simp

lemma net_epsilon_nonneg: "0 \<le> NET_EPSILON"
  by (simp add: NET_EPSILON_def f64.nonneg)

lemma resolve_net_spec:
  assumes "sgs \<noteq> []" "list_all (\<lambda>s. 0 \<le> sg_weight s) sgs"
  shows "sg_symbol (resolve_net_position sgs) \<in> sg_symbol ` set sgs
    \<and> (sg_side (resolve_net_position sgs) \<noteq> SIDE_HOLD \<longrightarrow> list_ex (\<lambda>s. sg_side s = sg_side (resolve_net_position sgs)) sgs)
    \<and> 0 \<le> sg_weight (resolve_net_position sgs) \<and> sg_weight (resolve_net_position sgs) \<le> 1"
  using no_purchase_no_buy [OF assms(2), of 0] no_sale_no_sell [OF assms(2), of 0] net_epsilon_nonneg assms(1)
  by (fastforce simp: resolve_net_position_def Let_def resolved_def)

lemma leads_ex: "leads prio sgs sd \<Longrightarrow> list_ex (\<lambda>s. sg_side s = sd) sgs"
  by (auto simp: leads_def list_ex_iff)

lemma leading_side_ex: "leading_side prio sgs \<noteq> SIDE_HOLD \<Longrightarrow> list_ex (\<lambda>s. sg_side s = leading_side prio sgs) sgs"
  by (auto simp: leading_side_def leads_ex split: if_splits)

definition fair_decision :: "'o ConflictOrchestrator \<Rightarrow> MetaSignal list \<Rightarrow> MetaSignal \<Rightarrow> bool" where
  "fair_decision orch source d \<longleftrightarrow> sg_strategy_id d = ORCHESTRATOR_ID
     \<and> (cf_mode orch = BY_PRIORITY \<longrightarrow> sg_side d = leading_side (get_priority orch) (about (sg_symbol d) source))
     \<and> (sg_side d \<noteq> SIDE_HOLD \<longrightarrow> list_ex (\<lambda>s. sg_side s = sg_side d) (about (sg_symbol d) source))"

lemma about_symbols: "sg_symbol ` set (about symb source) \<subseteq> {symb}"
  by (auto simp: about_def)

lemma resolve_group_fair:
  assumes "about symb source \<noteq> []" "list_all (\<lambda>s. 0 \<le> sg_weight s) source"
  shows "sg_symbol (resolve_group orch (about symb source)) = symb \<and> fair_decision orch source (resolve_group orch (about symb source))"
proof -
  have w: "list_all (\<lambda>s. 0 \<le> sg_weight s) (about symb source)" using assms(2) by (simp add: about_def list_all_iff)
  note P = resolve_priority_spec [OF assms(1), of orch] and N = resolve_net_spec [OF assms(1) w]
  have sym: "sg_symbol (resolve_group orch (about symb source)) = symb"
    using P N about_symbols [of symb source] by (auto simp: resolve_group_def)
  have "sg_strategy_id (resolve_group orch sgs) = ORCHESTRATOR_ID" for sgs
    by (simp add: resolve_group_def resolve_net_position_def resolve_priority_def Let_def)
  then show ?thesis
    using sym P N leading_side_ex [of "get_priority orch" "about symb source"]
    by (cases "cf_mode orch") (simp_all add: fair_decision_def resolve_group_def)
qed

text \<open>
  C15.  Conflicts are resolved: the orchestrator makes exactly one decision for each symbol of the collected signals, under
  its own id, and never one to buy or to sell that no strategy asked for; by priority the decision is to
  buy (sell) exactly when a purchase (sale) has the highest priority among the signals that trade and no
  sale (purchase) shares it, and to hold otherwise.
\<close>

theorem conflicts_resolved:
  assumes "list_all (\<lambda>s. 0 \<le> sg_weight s) source"
  shows "distinct (map sg_symbol (aggregate_signals (Some source) orch))
    \<and> set (map sg_symbol (aggregate_signals (Some source) orch)) = sg_symbol ` set source
    \<and> list_all (fair_decision orch source) (aggregate_signals (Some source) orch)"
proof -
  let ?keys = "map fst (signal_groups source)"
  note S = signal_groups_spec [of source]
  have out: "aggregate_signals (Some source) orch = map (\<lambda>symb. resolve_group orch (about symb source)) ?keys"
    unfolding aggregate_signals_def dict_values_def by (subst signal_groups_alt) simp
  have "about symb source \<noteq> []" if "symb \<in> set ?keys" for symb
    using that S by (auto simp: about_def filter_empty_conv)
  then have each: "sg_symbol (resolve_group orch (about symb source)) = symb
      \<and> fair_decision orch source (resolve_group orch (about symb source))" if "symb \<in> set ?keys" for symb
    using that assms by (intro resolve_group_fair) auto
  have "map sg_symbol (aggregate_signals (Some source) orch) = map (\<lambda>x. x) ?keys"
    unfolding out using each by (simp add: comp_def)
  moreover have "list_all (fair_decision orch source) (aggregate_signals (Some source) orch)"
    unfolding out using each by (simp add: list_all_iff)
  ultimately show ?thesis using S by simp
qed

definition by_rank :: "nat ConflictOrchestrator" where
  "by_rank = \<lparr>cf_mode = BY_PRIORITY, cf_strategies = [(''lo'', 0), (''hi'', 1)], cf_priorities = [(''lo'', 1), (''hi'', 2)],
     cf_last_signals = []\<rparr>"

definition signed_by :: "string \<Rightarrow> MetaSignal \<Rightarrow> MetaSignal" where
  "signed_by sid sg = sg\<lparr>sg_strategy_id := sid\<rparr>"

theorem conflicts_resolved_witness:
  "map sg_side (aggregate_signals (Some [signed_by ''lo'' (vote_of ''X'' SIDE_BUY), signed_by ''hi'' (vote_of ''X'' SIDE_SELL)]) by_rank) = [SIDE_SELL]"
proof -
  let ?src = "[signed_by ''lo'' (vote_of ''X'' SIDE_BUY), signed_by ''hi'' (vote_of ''X'' SIDE_SELL)]"
  have ok: "list_all (\<lambda>s. 0 \<le> sg_weight s) ?src" by (simp add: signed_by_def vote_of_def a_signal_def)
  from conflicts_resolved [OF ok, of by_rank] obtain d where d: "aggregate_signals (Some ?src) by_rank = [d]" "sg_symbol d = ''X''"
      "fair_decision by_rank ?src d"
    by (cases "aggregate_signals (Some ?src) by_rank"; cases "tl (aggregate_signals (Some ?src) by_rank)")
      (auto simp: signed_by_def vote_of_def)
  then show ?thesis
    by (simp add: fair_decision_def by_rank_def leading_side_def leads_def about_def signed_by_def vote_of_def a_signal_def get_priority_def)
qed

section \<open>Failures\<close>

text \<open>A strategy that signs its signals with the id of another takes its priority: the id is not checked or replaced.\<close>

lemma mislabelled_signal_takes_priority:
  assumes "map_of (cf_priorities orch) ''hi'' = Some 2" "map_of (cf_priorities orch) ''lo'' = Some 1"
  shows "leading_side (get_priority orch) [signed_by ''hi'' (vote_of ''X'' SIDE_BUY), signed_by ''lo'' (vote_of ''X'' SIDE_SELL)] = SIDE_BUY"
  using assms by (simp add: leading_side_def leads_def signed_by_def vote_of_def a_signal_def get_priority_def)

text \<open>A registration refused for its priority has registered the strategy.\<close>

lemma refused_priority_stays_registered:
  assumes "s \<noteq> []" "map_of (cf_strategies orch) s = None"
  shows "fst (cf_register (Some s) True obj (Some NotFinite) orch) = Inl (NumberNotFinite s)
    \<and> map_of (cf_strategies (snd (cf_register (Some s) True obj (Some NotFinite) orch))) s = Some obj"
  using assms by (simp add: cf_register_def so_strategy_id_def finite_number_def Let_def)

text \<open>Weights that are all zero are accepted one by one and make every weighted evaluation raise.\<close>

lemma zero_weights_raise:
  assumes "co_strategies orch \<noteq> []" "co_weights orch \<noteq> []" "\<forall>w\<in>set (dict_values (co_weights orch)). w = 0"
  shows "fst (co_evaluate_all run tt market ''weighted'' orch) = Inl (AggregatorFailed AllWeightsZero)"
proof -
  have zero: "fsum ws = 0" if "\<forall>w\<in>set ws. w = 0" for ws
    using that by (induction ws rule: rev_induct) (simp_all add: fsum_def fadd_def)
  have check: "check_weights (map (\<lambda>(sid, w). (sid, Some w)) ws) = Inr ws" if "\<forall>w\<in>set (dict_values ws). w = 0" for ws
    using that by (induction ws) (auto simp: dict_values_def)
  show ?thesis using assms zero [OF assms(3)] check [OF assms(3)]
    by (simp add: co_evaluate_all_def resolve_mode_def new_aggregator_def parse_method_def split: prod.split)
qed

section \<open>Isolation\<close>

definition answers_well :: "('o \<Rightarrow> 'm \<Rightarrow> 's outcome \<times> 'o) \<Rightarrow> 'm \<Rightarrow> string \<times> 'o \<Rightarrow> bool" where
  "answers_well run market kv = (case fst (run (snd kv) market) of Gave _ \<Rightarrow> True | _ \<Rightarrow> False)"

lemma collect_healthy:
  "fst (collect_answers run tt market (filter (answers_well run market) ss)) = fst (collect_answers run tt market ss)
   \<and> fst (snd (collect_answers run tt market (filter (answers_well run market) ss))) = []
   \<and> map fst (fst (snd (collect_answers run tt market ss))) = map fst (filter (\<lambda>kv. \<not> answers_well run market kv) ss)"
proof (induction ss)
  case (Cons kv ss)
  obtain sid obj where kv: "kv = (sid, obj)" by (cases kv)
  obtain out obj' where r: "run obj market = (out, obj')" by (cases "run obj market")
  show ?case using Cons by (cases out) (auto simp: kv r answers_well_def split: prod.splits)
qed simp

text \<open>Weights are those of the registered strategies and never negative.\<close>

definition co_ok :: "'o CoreOrchestrator \<Rightarrow> bool" where
  "co_ok orch \<longleftrightarrow> dict_ok (co_strategies orch) \<and> dict_ok (co_weights orch)
     \<and> fst ` set (co_weights orch) = fst ` set (co_strategies orch) \<and> (\<forall>w\<in>snd ` set (co_weights orch). 0 \<le> w)"

lemma valid_weight_Inr: "valid_weight w sid = Inr x \<Longrightarrow> 0 \<le> x"
  by (auto simp: valid_weight_def split: sum.splits if_splits)

lemma co_register_ok:
  assumes "co_ok orch"
  shows "co_ok (snd (co_register sid ev obj w orch))"
proof (cases "snd (co_register sid ev obj w orch) = orch")
  case False
  then obtain s x where "valid_weight w s = Inr x" and new: "snd (co_register sid ev obj w orch) =
      orch\<lparr>co_strategies := AList.update s obj (co_strategies orch), co_weights := AList.update s x (co_weights orch)\<rparr>"
    by (auto simp: co_register_def split: sum.splits if_splits)
  have "\<forall>w\<in>snd ` set (AList.update s x (co_weights orch)). 0 \<le> w"
    using assms valid_weight_Inr [OF \<open>valid_weight w s = Inr x\<close>] values_update unfolding co_ok_def by metis
  then show ?thesis using assms
    unfolding new by (auto simp: co_ok_def dom_update_keys intro: dict_ok_update)
qed (simp add: assms)

lemma set_delete: "set (AList.delete k d) = {kv \<in> set d. fst kv \<noteq> k}"
  by (induction d) auto

lemma delete_key_set: "fst ` set (AList.delete k d) = fst ` set d - {k}"
  by (auto simp: set_delete)

lemma co_unregister_ok: "co_ok orch \<Longrightarrow> co_ok (snd (co_unregister sid orch))"
proof -
  assume ok: "co_ok orch"
  have "\<forall>w\<in>snd ` set (AList.delete sid (co_weights orch)). 0 \<le> w"
    using ok by (auto simp: co_ok_def set_delete)
  then show ?thesis using ok by (simp add: co_ok_def co_unregister_def dict_ok_delete delete_key_set)
qed

lemma majority_aggregator:
  assumes "\<forall>w\<in>snd ` set ws. 0 \<le> w"
  shows "new_aggregator (method_value MAJORITY) (map (\<lambda>(sid, w). (sid, Some w)) ws) = Inr \<lparr>sa_method = MAJORITY, sa_weights = ws\<rparr>"
proof -
  have "check_weights (map (\<lambda>(sid, w). (sid, Some w)) ws) = Inr ws"
    using assms by (induction ws) auto
  then show ?thesis by (simp add: new_aggregator_def parse_method_def)
qed

text \<open>
  A failing strategy does not vote: when strategies raise or time out, the evaluation by majority still succeeds, reports
  exactly the failing ones among the errors, and decides exactly what it would have decided had they not
  been registered.
\<close>

theorem failing_strategies_do_not_vote:
  assumes "co_ok orch" "resolve_mode aggregation = Inr mode" "mode \<noteq> MODE_WEIGHTED"
  shows "\<exists>r r'. fst (co_evaluate_all run tt market aggregation orch) = Inr r
    \<and> fst (co_evaluate_all run tt market aggregation
        (orch\<lparr>co_strategies := filter (answers_well run market) (co_strategies orch)\<rparr>)) = Inr r'
    \<and> os_signals r = os_signals r' \<and> os_batches r = os_batches r' \<and> os_errors r' = []
    \<and> map fst (os_errors r) = map fst (filter (\<lambda>kv. \<not> answers_well run market kv) (co_strategies orch))"
proof -
  let ?ss = "co_strategies orch"
  have m: "MODE_TO_METHOD mode = MAJORITY" using assms(3) by (cases mode) simp_all
  note agg = majority_aggregator [of "co_weights orch", simplified method_value.simps] and H = collect_healthy [of run tt market ?ss]
  have w: "\<forall>w\<in>snd ` set (co_weights orch). 0 \<le> w" using assms(1) by (simp add: co_ok_def)
  have none: "aggregate \<lparr>sa_method = MAJORITY, sa_weights = ws\<rparr> [] = []" for ws by (simp add: aggregate_def per_symbol_def)
  show ?thesis
    using H by (auto simp: co_evaluate_all_def assms(2) m agg [OF w] none Let_def split: prod.split)
qed

end
