(* ===== verification/MultiPortfolio.thy ===== *)
theory MultiPortfolio
  imports Orchestration
begin

text \<open>
  The multi-strategy portfolio, \<open>engine/portfolio/multi_strategy.py\<close>: strategies with relative shares of the capital,
  whose signals are merged into one net exposure per symbol.  Strategies and number arguments are read as in
  \<open>Orchestration\<close>; \<open>max_strategies\<close> is an integer.
\<close>

section \<open>The registry\<close>

datatype mp_error = Refused so_error | NegativeCapitalGiven rat | TooFewStrategies int | TooManyRegistered string
  | AlreadyThere string | UnknownStrategy string | UnknownMergeMode string

record 'o MultiStrategyPortfolio =
  mp_total_capital :: rat
  mp_timeout :: rat
  mp_max :: int
  mp_strategies :: "(string, 'o) dict"
  mp_weights :: "(string, rat) dict"

definition mp_number :: "py_float option \<Rightarrow> string \<Rightarrow> mp_error + rat" where
  "mp_number v label = (case finite_number v label of Inl e \<Rightarrow> Inl (Refused e) | Inr x \<Rightarrow> Inr x)"

definition new_portfolio_of ::
  "py_float option \<Rightarrow> py_float option \<Rightarrow> int \<Rightarrow> mp_error + 'o MultiStrategyPortfolio" where
  "new_portfolio_of total_capital timeout max_strategies =
     (case mp_number total_capital ''total_capital'' of Inl e \<Rightarrow> Inl e | Inr cap \<Rightarrow>
      if cap < 0 then Inl (NegativeCapitalGiven cap)
      else case mp_number timeout ''eval_timeout'' of Inl e \<Rightarrow> Inl e | Inr t \<Rightarrow>
      if t \<le> 0 then Inl (Refused (TimeoutNotPositive t))
      else if max_strategies < 1 then Inl (TooFewStrategies max_strategies)
      else Inr \<lparr>mp_total_capital = cap, mp_timeout = t, mp_max = max_strategies, mp_strategies = [], mp_weights = []\<rparr>)"

definition mp_strategy_id :: "string option \<Rightarrow> bool \<Rightarrow> mp_error + string" where
  "mp_strategy_id sid callable_evaluate = (case so_strategy_id sid of
     Inl e \<Rightarrow> Inl (Refused e)
   | Inr s \<Rightarrow> if callable_evaluate then Inr s else Inl (Refused (NoEvaluateMethod s)))"

definition mp_weight :: "py_float option \<Rightarrow> string \<Rightarrow> mp_error + rat" where
  "mp_weight v sid = (case mp_number v sid of
     Inl e \<Rightarrow> Inl e | Inr w \<Rightarrow> if w < 0 then Inl (Refused (NumberNegative sid w)) else Inr w)"

definition mp_register ::
  "string option \<Rightarrow> bool \<Rightarrow> 'o \<Rightarrow> py_float option \<Rightarrow> 'o MultiStrategyPortfolio
     \<Rightarrow> (mp_error + unit) \<times> 'o MultiStrategyPortfolio" where
  "mp_register sid callable_evaluate obj weight p =
     (case mp_strategy_id sid callable_evaluate of Inl e \<Rightarrow> (Inl e, p) | Inr s \<Rightarrow>
      if mp_max p \<le> int (length (mp_strategies p)) \<and> map_of (mp_strategies p) s = None then (Inl (TooManyRegistered s), p)
      else case mp_weight weight s of Inl e \<Rightarrow> (Inl e, p) | Inr w \<Rightarrow>
      if map_of (mp_strategies p) s \<noteq> None then (Inl (AlreadyThere s), p)
      else (Inr (), p\<lparr>mp_strategies := AList.update s obj (mp_strategies p), mp_weights := AList.update s w (mp_weights p)\<rparr>))"

definition set_capital_weight ::
  "string \<Rightarrow> py_float option \<Rightarrow> 'o MultiStrategyPortfolio \<Rightarrow> (mp_error + unit) \<times> 'o MultiStrategyPortfolio" where
  "set_capital_weight sid weight p =
     (if map_of (mp_strategies p) sid = None then (Inl (UnknownStrategy sid), p)
      else case mp_weight weight sid of
        Inl e \<Rightarrow> (Inl e, p) | Inr w \<Rightarrow> (Inr (), p\<lparr>mp_weights := AList.update sid w (mp_weights p)\<rparr>))"

definition mp_unregister :: "string \<Rightarrow> 'o MultiStrategyPortfolio \<Rightarrow> bool \<times> 'o MultiStrategyPortfolio" where
  "mp_unregister sid p = (map_of (mp_strategies p) sid \<noteq> None,
     p\<lparr>mp_strategies := AList.delete sid (mp_strategies p), mp_weights := AList.delete sid (mp_weights p)\<rparr>)"

section \<open>Allocations\<close>

definition weight_sum :: "'o MultiStrategyPortfolio \<Rightarrow> rat" where
  "weight_sum p = fsum (dict_values (mp_weights p))"

definition capital_weight_normalized :: "string \<Rightarrow> 'o MultiStrategyPortfolio \<Rightarrow> rat" where
  "capital_weight_normalized sid p =
     (let total = weight_sum p; w = (case map_of (mp_weights p) sid of None \<Rightarrow> 0 | Some w \<Rightarrow> w) in
      if total \<le> 0 then 0 else if w \<le> 0 then 0 else fdiv w total)"

definition mp_allocation :: "string \<Rightarrow> 'o MultiStrategyPortfolio \<Rightarrow> rat" where
  "mp_allocation sid p = fmul (capital_weight_normalized sid p) (mp_total_capital p)"

definition mp_allocations :: "'o MultiStrategyPortfolio \<Rightarrow> (string, rat) dict" where
  "mp_allocations p =
     (let total = weight_sum p in
      if total \<le> 0 \<or> mp_total_capital p \<le> 0 then map (\<lambda>(sid, obj). (sid, 0)) (mp_strategies p)
      else map (\<lambda>(sid, w). (sid, fmul (fdiv w total) (mp_total_capital p))) (mp_weights p))"

section \<open>Merging\<close>

fun side_sign :: "Side \<Rightarrow> rat" where
  "side_sign SIDE_BUY = 1"
| "side_sign SIDE_SELL = - 1"
| "side_sign SIDE_HOLD = 0"

record CombinedPosition =
  cp_symbol :: string
  cp_side :: Side
  cp_net_weight :: rat
  cp_net_exposure :: rat
  cp_contributors :: "string list"
  cp_signals :: "MetaSignal list"

definition alloc_of :: "(string, rat) dict \<Rightarrow> string \<Rightarrow> rat" where
  "alloc_of allocations sid = (case map_of allocations sid of None \<Rightarrow> 0 | Some a \<Rightarrow> a)"

definition exposure_of :: "(string, rat) dict \<Rightarrow> string \<times> MetaSignal \<Rightarrow> rat" where
  "exposure_of allocations v = fmul (fmul (side_sign (sg_side (snd v))) (alloc_of allocations (fst v))) (sg_weight (snd v))"

definition merge_symbol :: "rat \<Rightarrow> string \<Rightarrow> (string \<times> MetaSignal) list \<Rightarrow> (string, rat) dict \<Rightarrow> CombinedPosition" where
  "merge_symbol total_capital symb votes allocations =
     (let voting = filter (\<lambda>v. sg_side (snd v) \<noteq> SIDE_HOLD) votes;
          net = foldl (\<lambda>net v. fadd net (exposure_of allocations v)) 0 voting;
          side = (if NET_EPSILON < net then SIDE_BUY else if net < - NET_EPSILON then SIDE_SELL else SIDE_HOLD)
      in \<lparr>cp_symbol = symb, cp_side = side,
          cp_net_weight = (if 0 < total_capital \<and> side \<noteq> SIDE_HOLD then min (fdiv \<bar>net\<bar> total_capital) 1 else 0),
          cp_net_exposure = net, cp_contributors = map fst voting, cp_signals = map snd voting\<rparr>)"

definition PORTFOLIO_STRATEGY_ID :: string where
  "PORTFOLIO_STRATEGY_ID = ''portfolio''"

definition position_signal :: "CombinedPosition \<Rightarrow> (string \<times> MetaSignal) list \<Rightarrow> MetaSignal" where
  "position_signal pos votes = (let template = snd (hd votes) in template\<lparr>sg_side := cp_side pos, sg_weight := cp_net_weight pos,
     sg_strategy_id := PORTFOLIO_STRATEGY_ID,
     sg_metadata := AList.update ''portfolio_contributors'' (MList (cp_contributors pos)) (sg_metadata template)\<rparr>)"

definition votes_by_symbol :: "(string, MetaSignal list) dict \<Rightarrow> (string, (string \<times> MetaSignal) list) dict" where
  "votes_by_symbol per_strategy =
     foldl (\<lambda>d (sid, sgs). foldl (\<lambda>d sg. add_to_group d (sg_symbol sg) (sid, sg)) d sgs) [] per_strategy"

definition merge_signals ::
  "rat \<Rightarrow> (string, MetaSignal list) dict \<Rightarrow> (string, rat) dict \<Rightarrow> MetaSignal list \<times> (string, CombinedPosition) dict" where
  "merge_signals total_capital per_strategy allocations =
     (let per_symb = votes_by_symbol per_strategy;
          merged = map (\<lambda>(symb, votes). (symb, merge_symbol total_capital symb votes allocations, votes)) per_symb
      in (map (\<lambda>(symb, pos, votes). position_signal pos votes)
            (filter (\<lambda>(symb, pos, votes). cp_side pos \<noteq> SIDE_HOLD \<or> 0 < cp_net_weight pos) merged),
          map (\<lambda>(symb, pos, votes). (symb, pos)) merged))"

record PortfolioEvaluation =
  pe_signals :: "MetaSignal list"
  pe_positions :: "(string, CombinedPosition) dict"
  pe_per_strategy :: "(string, MetaSignal list) dict"
  pe_total_capital :: rat
  pe_capital_deployed :: rat
  pe_net_exposure :: rat
  pe_capital_utilization :: rat
  pe_merge_mode :: string
  pe_errors :: "(string, string) dict"

definition mp_evaluate_all ::
  "('o \<Rightarrow> 'm \<Rightarrow> MetaSignal outcome \<times> 'o) \<Rightarrow> (string \<Rightarrow> string) \<Rightarrow> 'm \<Rightarrow> string \<Rightarrow> 'o MultiStrategyPortfolio
     \<Rightarrow> (mp_error + PortfolioEvaluation) \<times> 'o MultiStrategyPortfolio" where
  "mp_evaluate_all run timeout_text market merge_mode p =
     (if merge_mode \<noteq> ''risk_adjusted'' then (Inl (UnknownMergeMode merge_mode), p)
      else if mp_strategies p = [] \<or> mp_total_capital p = 0
      then (Inr \<lparr>pe_signals = [], pe_positions = [], pe_per_strategy = [], pe_total_capital = mp_total_capital p,
                 pe_capital_deployed = 0, pe_net_exposure = 0, pe_capital_utilization = 0,
                 pe_merge_mode = merge_mode, pe_errors = []\<rparr>, p)
      else case collect_answers run timeout_text market (mp_strategies p) of (answers, errors, objs) \<Rightarrow>
        case merge_signals (mp_total_capital p) answers (mp_allocations p) of (merged, positions) \<Rightarrow>
          let deployed = fsum (map (\<lambda>pos. \<bar>cp_net_exposure pos\<bar>) (dict_values positions));
              net = fsum (map cp_net_exposure (dict_values positions))
          in (Inr \<lparr>pe_signals = merged, pe_positions = positions, pe_per_strategy = answers,
                   pe_total_capital = mp_total_capital p, pe_capital_deployed = deployed, pe_net_exposure = net,
                   pe_capital_utilization = (if 0 < mp_total_capital p then fdiv deployed (mp_total_capital p) else 0),
                   pe_merge_mode = merge_mode, pe_errors = errors\<rparr>,
              p\<lparr>mp_strategies := objs\<rparr>))"

definition is_noop :: "PortfolioEvaluation \<Rightarrow> bool" where
  "is_noop ev \<longleftrightarrow> pe_signals ev = [] \<or> pe_total_capital ev = 0"

definition pe_trade_signals :: "PortfolioEvaluation \<Rightarrow> MetaSignal list" where
  "pe_trade_signals ev = filter (\<lambda>sg. sg_side sg \<noteq> SIDE_HOLD) (pe_signals ev)"

section \<open>Exposure and allocation\<close>

lemma float_abs_le:
  assumes "\<bar>a\<bar> \<le> b" "\<bar>t\<bar> \<le> u"
  shows "\<bar>fadd a t\<bar> \<le> fadd b u"
proof -
  have "f64 (a + t) \<le> f64 (b + u)" "f64 (- (a + t)) \<le> f64 (b + u)" using assms by (auto intro!: f64.mono)
  then show ?thesis using f64.uminus [of "a + t"] by (simp add: fadd_def abs_le_iff)
qed

lemma foldl_abs_le:
  assumes "\<forall>v\<in>set vs. \<bar>e v\<bar> \<le> g v" "\<bar>a\<bar> \<le> b"
  shows "\<bar>foldl (\<lambda>net v. fadd net (e v)) a vs\<bar> \<le> foldl fadd b (map g vs)"
  using assms by (induction vs arbitrary: a b) (simp_all add: float_abs_le)

lemma exposure_le:
  assumes "0 \<le> alloc_of allocations (fst v)" "f64 (alloc_of allocations (fst v)) = alloc_of allocations (fst v)"
    and "float_weight (snd v)"
  shows "\<bar>exposure_of allocations v\<bar> \<le> alloc_of allocations (fst v)"
proof -
  let ?a = "alloc_of allocations (fst v)" and ?w = "sg_weight (snd v)"
  have "f64 (?a * ?w) \<le> ?a" using assms by (intro f64.below) (auto simp: float_weight_def intro: mult_left_le)
  moreover have "0 \<le> f64 (?a * ?w)" using assms by (intro f64.nonneg) (simp add: float_weight_def)
  ultimately show ?thesis using assms(1,2)
    by (cases "sg_side (snd v)") (simp_all add: exposure_of_def fmul_def f64.uminus)
qed

section \<open>The merged positions\<close>

lemma votes_by_symbol_ballots: "votes_by_symbol per_strategy = grouped (\<lambda>v. sg_symbol (snd v)) (ballots per_strategy)"
proof -
  have "foldl (\<lambda>d (sid, sgs). foldl (\<lambda>d sg. add_to_group d (sg_symbol sg) (sid, sg)) d sgs) d ps
      = foldl (\<lambda>d v. add_to_group d (sg_symbol (snd v)) v) d (ballots ps)" for d ps
  proof (induction ps arbitrary: d)
    case (Cons p ps)
    obtain sid sgs where p: "p = (sid, sgs)" by (cases p)
    have "foldl (\<lambda>d sg. add_to_group d (sg_symbol sg) (sid, sg)) d sgs
        = foldl (\<lambda>d v. add_to_group d (sg_symbol (snd v)) v) d (map (Pair sid) sgs)" for d
      by (induction sgs arbitrary: d) simp_all
    then show ?case using Cons by (simp add: p ballots_def)
  qed (simp add: ballots_def)
  then show ?thesis by (simp add: votes_by_symbol_def grouped_def)
qed

definition votes_on :: "string \<Rightarrow> (string, MetaSignal list) dict \<Rightarrow> (string \<times> MetaSignal) list" where
  "votes_on symb per_strategy = filter (\<lambda>v. sg_symbol (snd v) = symb) (ballots per_strategy)"

lemma votes_by_symbol_spec:
  "dict_ok (votes_by_symbol ps) \<and> set (map fst (votes_by_symbol ps)) = sg_symbol ` snd ` set (ballots ps)
   \<and> (\<forall>symb. map_of (votes_by_symbol ps) symb = (if votes_on symb ps = [] then None else Some (votes_on symb ps)))"
  unfolding votes_by_symbol_ballots votes_on_def image_image by (rule grouped_spec)

lemma positions_of:
  "map_of (snd (merge_signals cap ps allocs)) symb
     = (if votes_on symb ps = [] then None else Some (merge_symbol cap symb (votes_on symb ps) allocs))"
proof -
  have m: "map_of (map (\<lambda>(k, v). (k, f k v)) d) symb = map_option (f symb) (map_of d symb)"
    for f :: "string \<Rightarrow> (string \<times> MetaSignal) list \<Rightarrow> CombinedPosition" and d by (induction d) auto
  have "snd (merge_signals cap ps allocs) = map (\<lambda>(k, votes). (k, merge_symbol cap k votes allocs)) (votes_by_symbol ps)"
    by (simp add: merge_signals_def Let_def comp_def case_prod_unfold)
  then have "map_of (snd (merge_signals cap ps allocs)) symb
      = map_option (\<lambda>votes. merge_symbol cap symb votes allocs) (map_of (votes_by_symbol ps) symb)"
    by (simp add: m)
  then show ?thesis using votes_by_symbol_spec [of ps] by simp
qed

lemma merge_symbol_bounds:
  assumes "list_all (\<lambda>v. 0 \<le> alloc_of allocs (fst v) \<and> f64 (alloc_of allocs (fst v)) = alloc_of allocs (fst v)
      \<and> float_weight (snd v)) votes"
  shows "\<bar>cp_net_exposure (merge_symbol cap symb votes allocs)\<bar>
      \<le> fsum (map (alloc_of allocs) (cp_contributors (merge_symbol cap symb votes allocs)))"
proof -
  let ?voting = "filter (\<lambda>v. sg_side (snd v) \<noteq> SIDE_HOLD) votes"
  have "\<forall>v\<in>set ?voting. \<bar>exposure_of allocs v\<bar> \<le> alloc_of allocs (fst v)"
    using assms by (intro ballI exposure_le) (simp_all add: list_all_iff)
  then have "\<bar>foldl (\<lambda>net v. fadd net (exposure_of allocs v)) 0 ?voting\<bar> \<le> foldl fadd 0 (map (\<lambda>v. alloc_of allocs (fst v)) ?voting)"
    by (rule foldl_abs_le) simp
  then show ?thesis by (simp add: merge_symbol_def Let_def fsum_def comp_def)
qed

lemma merge_symbol_weight: "0 \<le> cp_net_weight (merge_symbol cap symb votes allocs) \<and> cp_net_weight (merge_symbol cap symb votes allocs) \<le> 1"
  by (auto simp: merge_symbol_def Let_def min_def intro: float_nonneg)

lemma alloc_of_float:
  assumes "\<forall>w\<in>set (dict_values (mp_weights p)). 0 \<le> w" "0 \<le> mp_total_capital p"
  shows "0 \<le> alloc_of (mp_allocations p) sid \<and> f64 (alloc_of (mp_allocations p) sid) = alloc_of (mp_allocations p) sid"
proof (cases "map_of (mp_allocations p) sid")
  case (Some a)
  then have "(sid, a) \<in> set (mp_allocations p)" by (rule map_of_SomeD)
  then have "a = 0 \<or> (\<exists>w. w \<in> set (dict_values (mp_weights p)) \<and> a = fmul (fdiv w (weight_sum p)) (mp_total_capital p) \<and> 0 < weight_sum p)"
    by (force simp: mp_allocations_def Let_def dict_values_def split: if_splits)
  then have "0 \<le> a \<and> f64 a = a" using assms by (auto simp: float_nonneg)
  then show ?thesis using Some by (simp add: alloc_of_def)
qed (simp add: alloc_of_def)

text \<open>The trades of a symbol among the answers, and the strategies that sent one, each once.\<close>

definition trades_on :: "string \<Rightarrow> (string, MetaSignal list) dict \<Rightarrow> (string \<times> MetaSignal) list" where
  "trades_on symb answers = filter (\<lambda>v. sg_symbol (snd v) = symb \<and> sg_side (snd v) \<noteq> SIDE_HOLD) (ballots answers)"

definition traders :: "string \<Rightarrow> (string, MetaSignal list) dict \<Rightarrow> string list" where
  "traders symb answers = map fst (filter (\<lambda>(sid, sgs). list_ex (\<lambda>sg. sg_symbol sg = symb \<and> sg_side sg \<noteq> SIDE_HOLD) sgs) answers)"

lemma list_ex_filter: "list_ex P xs \<longleftrightarrow> filter P xs \<noteq> []"
  by (induction xs) simp_all

lemma one_trade_each:
  assumes "distinct (map fst (trades_on symb answers))"
  shows "map fst (trades_on symb answers) = traders symb answers"
  using assms
proof (induction answers)
  case (Cons a answers)
  obtain sid sgs where a: "a = (sid, sgs)" by (cases a)
  let ?P = "\<lambda>sg. sg_symbol sg = symb \<and> sg_side sg \<noteq> SIDE_HOLD"
  have tr: "map fst (trades_on symb (a # answers)) = map (\<lambda>sg. sid) (filter ?P sgs) @ map fst (trades_on symb answers)"
    by (simp add: trades_on_def ballots_def a filter_map comp_def)
  then have IH: "map fst (trades_on symb answers) = traders symb answers" using Cons by simp
  have "map (\<lambda>sg. sid) (filter ?P sgs) = (if list_ex ?P sgs then [sid] else [])"
  proof (cases "filter ?P sgs")
    case (Cons y ys)
    have "ys = []" using Cons.prems unfolding tr Cons by (cases ys) simp_all
    then show ?thesis using Cons by (simp add: list_ex_filter)
  qed (simp add: list_ex_filter)
  then show ?case unfolding tr IH by (simp add: traders_def a)
qed (simp add: trades_on_def traders_def ballots_def)

text \<open>One allocation is never more than the capital.\<close>

lemma alloc_within_capital:
  assumes "list_all (\<lambda>w. 0 \<le> w \<and> f64 w = w) (dict_values (mp_weights p))"
    and "0 \<le> mp_total_capital p" "f64 (mp_total_capital p) = mp_total_capital p"
  shows "alloc_of (mp_allocations p) sid \<le> mp_total_capital p"
proof (cases "map_of (mp_allocations p) sid")
  case (Some a)
  then have "(sid, a) \<in> set (mp_allocations p)" by (rule map_of_SomeD)
  then have "a = 0 \<or> (\<exists>w. w \<in> set (dict_values (mp_weights p)) \<and> a = fmul (fdiv w (weight_sum p)) (mp_total_capital p) \<and> 0 < weight_sum p)"
    by (force simp: mp_allocations_def Let_def dict_values_def split: if_splits)
  moreover have "fmul (fdiv w (weight_sum p)) (mp_total_capital p) \<le> mp_total_capital p"
    if w: "w \<in> set (dict_values (mp_weights p))" and pos: "0 < weight_sum p" for w
  proof -
    have "w \<le> weight_sum p" unfolding weight_sum_def using assms(1) w by (intro fsum_ge_member) (simp_all add: list_all_iff)
    then have "fdiv w (weight_sum p) \<le> 1" unfolding fdiv_def using pos by (intro f64.below) simp_all
    moreover have "0 \<le> fdiv w (weight_sum p)" using assms(1) w pos by (simp add: float_nonneg list_all_iff)
    ultimately show ?thesis unfolding fmul_def using assms(2,3) by (intro f64.below) (simp_all add: mult_left_le_one_le)
  qed
  ultimately show ?thesis using Some assms(2) by (auto simp: alloc_of_def)
qed (use assms(2) in \<open>simp add: alloc_of_def\<close>)

text \<open>
  C12.  Exposure and allocation, as the merge bounds them: every trade of a symbol moves its net dollar exposure by at most the
  allocation of its strategy, so the exposure is within the sum of the allocations taken once per trade, and a single allocation is never
  more than the capital.  When no strategy sends two trades of the symbol, that sum is over the strategies that traded it, each once.  (The code does not enforce it:
  a strategy that sends two purchases counts its allocation twice.)  The weight of the merged decision is between zero and one and its
  contributors are the strategies of the netted trades, in order.
\<close>

theorem exposure_within_allocations:
  assumes "list_all (\<lambda>w. 0 \<le> w \<and> f64 w = w) (dict_values (mp_weights p))"
    and "0 \<le> mp_total_capital p" "f64 (mp_total_capital p) = mp_total_capital p"
    and "list_all (\<lambda>v. float_weight (snd v)) (ballots answers)"
    and "map_of (snd (merge_signals (mp_total_capital p) answers (mp_allocations p))) symb = Some pos"
  shows "\<bar>cp_net_exposure pos\<bar> \<le> fsum (map (\<lambda>v. alloc_of (mp_allocations p) (fst v)) (trades_on symb answers))
    \<and> list_all (\<lambda>v. 0 \<le> alloc_of (mp_allocations p) (fst v) \<and> alloc_of (mp_allocations p) (fst v) \<le> mp_total_capital p)
        (trades_on symb answers)
    \<and> (distinct (map fst (trades_on symb answers)) \<longrightarrow>
         \<bar>cp_net_exposure pos\<bar> \<le> fsum (map (alloc_of (mp_allocations p)) (traders symb answers)))
    \<and> 0 \<le> cp_net_weight pos \<and> cp_net_weight pos \<le> 1
    \<and> cp_contributors pos = map fst (trades_on symb answers)"
proof -
  have nonneg: "\<forall>w\<in>set (dict_values (mp_weights p)). 0 \<le> w" using assms(1) by (simp add: list_all_iff)
  note floats = alloc_of_float [OF nonneg assms(2)]
  have pos: "pos = merge_symbol (mp_total_capital p) symb (votes_on symb answers) (mp_allocations p)"
    using assms(5) by (auto simp: positions_of split: if_splits)
  have "list_all (\<lambda>v. 0 \<le> alloc_of (mp_allocations p) (fst v) \<and> f64 (alloc_of (mp_allocations p) (fst v)) = alloc_of (mp_allocations p) (fst v)
      \<and> float_weight (snd v)) (votes_on symb answers)"
    using assms(4) floats by (auto simp: list_all_iff votes_on_def)
  note bound = merge_symbol_bounds [OF this, of "mp_total_capital p" symb, folded pos]
  have who: "cp_contributors pos = map fst (trades_on symb answers)"
    by (simp add: pos merge_symbol_def Let_def votes_on_def trades_on_def conj_commute)
  then have per_trade: "\<bar>cp_net_exposure pos\<bar> \<le> fsum (map (\<lambda>v. alloc_of (mp_allocations p) (fst v)) (trades_on symb answers))"
    using bound by (simp add: comp_def)
  have per_trader: "\<bar>cp_net_exposure pos\<bar> \<le> fsum (map (alloc_of (mp_allocations p)) (traders symb answers))"
    if "distinct (map fst (trades_on symb answers))"
    using bound unfolding who one_trade_each [OF that] .
  have "list_all (\<lambda>v. 0 \<le> alloc_of (mp_allocations p) (fst v) \<and> alloc_of (mp_allocations p) (fst v) \<le> mp_total_capital p)
        (trades_on symb answers)"
    using floats alloc_within_capital [OF assms(1-3)] by (simp add: list_all_iff)
  then show ?thesis
    using per_trade per_trader who merge_symbol_weight [of "mp_total_capital p" symb "votes_on symb answers" "mp_allocations p"]
    unfolding pos [symmetric] by blast
qed

definition two_books :: "nat MultiStrategyPortfolio" where
  "two_books = \<lparr>mp_total_capital = 1024, mp_timeout = 30, mp_max = 50, mp_strategies = [(''a'', 0), (''b'', 0)],
     mp_weights = [(''a'', 1), (''b'', 1)]\<rparr>"

lemma two_books_allocations: "mp_allocations two_books = [(''a'', 512), (''b'', 512)]"
proof -
  have half: "fdiv 1 2 = 1 / 2" using f64_dyadic [of 1 1] by (simp add: fdiv_def)
  then show ?thesis
    by (simp add: mp_allocations_def weight_sum_def dict_values_def fsum_def two_books_def half) (simp add: fadd_def fmul_def half)
qed

definition two_answers :: "(string, MetaSignal list) dict" where
  "two_answers = [(''a'', [vote_of ''X'' SIDE_BUY, vote_of ''Y'' SIDE_BUY]), (''b'', [vote_of ''X'' SIDE_SELL])]"

lemma two_answers_trades: "map fst (trades_on ''X'' two_answers) = [''a'', ''b'']" "traders ''X'' two_answers = [''a'', ''b'']"
  by (simp_all add: trades_on_def traders_def ballots_def two_answers_def vote_of_def a_signal_def)

theorem exposure_within_allocations_witness:
  "\<exists>pos. map_of (snd (merge_signals 1024 two_answers (mp_allocations two_books))) ''X'' = Some pos
     \<and> \<bar>cp_net_exposure pos\<bar> \<le> 1024 \<and> cp_contributors pos = [''a'', ''b'']"
proof -
  have "votes_on ''X'' two_answers \<noteq> []"
    by (simp add: votes_on_def ballots_def two_answers_def vote_of_def)
  then obtain pos where pos: "map_of (snd (merge_signals 1024 two_answers (mp_allocations two_books))) ''X'' = Some pos"
    by (simp add: positions_of)
  have hyps: "list_all (\<lambda>w. 0 \<le> w \<and> f64 w = w) (dict_values (mp_weights two_books))" "0 \<le> mp_total_capital two_books"
    "f64 (mp_total_capital two_books) = mp_total_capital two_books"
    "list_all (\<lambda>v. float_weight (snd v)) (ballots two_answers)"
    "map_of (snd (merge_signals (mp_total_capital two_books) two_answers (mp_allocations two_books))) ''X'' = Some pos"
    using pos by (simp_all add: two_books_def dict_values_def ballots_def two_answers_def float_weight_def vote_of_def a_signal_def)
  have "fsum (map (alloc_of (mp_allocations two_books)) (traders ''X'' two_answers)) = 1024"
    by (simp add: two_answers_trades two_books_allocations alloc_of_def fsum_def fadd_def)
  then show ?thesis
    using pos exposure_within_allocations [OF hyps] two_answers_trades by auto
qed

section \<open>What is not bounded\<close>

definition whole_book :: "nat MultiStrategyPortfolio" where
  "whole_book = \<lparr>mp_total_capital = 1024, mp_timeout = 30, mp_max = 50, mp_strategies = [(''a'', 0)], mp_weights = [(''a'', 1)]\<rparr>"

lemma whole_book_allocations: "mp_allocations whole_book = [(''a'', 1024)]"
  by (simp add: mp_allocations_def weight_sum_def dict_values_def fsum_def whole_book_def float_op_defs)

text \<open>Two purchases of one symbol by one strategy count its allocation twice.\<close>

lemma allocation_counted_per_trade:
  "cp_net_exposure (merge_symbol 1024 ''X'' [(''a'', vote_of ''X'' SIDE_BUY), (''a'', vote_of ''X'' SIDE_BUY)]
     (mp_allocations whole_book)) = 2048"
  by (simp add: merge_symbol_def Let_def exposure_of_def whole_book_allocations alloc_of_def vote_of_def a_signal_def float_op_defs)

text \<open>The allocation bounds each symbol, not their sum: a strategy that buys two symbols deploys its allocation twice.\<close>

definition greedy :: "nat \<Rightarrow> unit \<Rightarrow> MetaSignal outcome \<times> nat" where
  "greedy n market = (Gave [vote_of ''X'' SIDE_BUY, vote_of ''Y'' SIDE_BUY], n)"

lemma allocation_deployed_twice:
  "\<exists>ev. fst (mp_evaluate_all greedy (\<lambda>s. s) () ''risk_adjusted'' whole_book) = Inr ev
     \<and> pe_capital_deployed ev = 2048 \<and> pe_total_capital ev = 1024"
proof -
  let ?sgs = "[vote_of ''X'' SIDE_BUY, vote_of ''Y'' SIDE_BUY]"
  have got: "collect_answers greedy (\<lambda>s. s) () (mp_strategies whole_book) = ([(''a'', ?sgs)], [], [(''a'', 0)])"
    by (simp add: whole_book_def greedy_def)
  have sym: "sg_symbol (vote_of k SIDE_BUY) = k" "sg_side (vote_of k SIDE_BUY) = SIDE_BUY" "sg_weight (vote_of k SIDE_BUY) = 1" for k
    by (simp_all add: vote_of_def a_signal_def)
  have by_sym: "votes_by_symbol [(''a'', ?sgs)] = [(''X'', [(''a'', vote_of ''X'' SIDE_BUY)]), (''Y'', [(''a'', vote_of ''Y'' SIDE_BUY)])]"
    by (simp add: votes_by_symbol_def add_to_group_def sym)
  have net: "cp_net_exposure (merge_symbol 1024 k [(''a'', vote_of k SIDE_BUY)] [(''a'', 1024)]) = 1024" for k
    by (simp add: merge_symbol_def Let_def sym exposure_of_def alloc_of_def float_op_defs)
  have "map cp_net_exposure (dict_values (snd (merge_signals 1024 [(''a'', ?sgs)] [(''a'', 1024)]))) = [1024, 1024]"
    by (simp add: merge_signals_def by_sym dict_values_def net)
  then obtain merged positions where m: "merge_signals 1024 [(''a'', ?sgs)] [(''a'', 1024)] = (merged, positions)"
      "map cp_net_exposure (dict_values positions) = [1024, 1024]"
    by (metis prod.collapse)
  have "map (\<lambda>pos. \<bar>cp_net_exposure pos\<bar>) (dict_values positions) = map abs (map cp_net_exposure (dict_values positions))" by simp
  then have dep: "fsum (map (\<lambda>pos. \<bar>cp_net_exposure pos\<bar>) (dict_values positions)) = 2048"
    unfolding m(2) by (simp add: fsum_def fadd_def)
  have "mp_strategies whole_book \<noteq> []" "mp_total_capital whole_book = 1024" by (simp_all add: whole_book_def)
  then show ?thesis
    by (simp add: mp_evaluate_all_def got whole_book_allocations m(1) Let_def dep)
qed

end
