(* ===== verification/Rebalancer.thy ===== *)
theory Rebalancer
  imports MultiManager "HOL-Library.List_Lexorder" "HOL-Library.Char_ord"
begin

text \<open>
  Target weights of a portfolio: the rebalancer, \<open>engine/portfolio/rebalancer.py\<close>, and the validated split of the
  capital, \<open>engine/portfolio/allocation.py\<close>.

  A key that is not a string is \<open>None\<close>, an argument that is no dictionary is \<open>None\<close>.  The decimal that
  \<open>Decimal(str(w))\<close> reads off a float is the argument \<open>printed\<close>.  Strings are ordered by their
  characters, as in Python.
\<close>

section \<open>Validation\<close>

datatype rb_error =
  RbNotADict string
| RbNotANumber string
| RbNotFinite string
| KeyNotString string
| BlankKey string
| CollidingKeys string string
| NegativeEntry string rat
| EmptyTargets
| NegativeThreshold rat
| ThresholdTooLarge rat

definition rb_finite :: "number_arg \<Rightarrow> string \<Rightarrow> rb_error + rat" where
  "rb_finite v label = (case v of
     ANumber (Finite x) \<Rightarrow> Inr x
   | ANumber NotFinite \<Rightarrow> Inl (RbNotFinite label)
   | ABool \<Rightarrow> Inl (RbNotANumber label) | AString \<Rightarrow> Inl (RbNotANumber label) | AOther \<Rightarrow> Inl (RbNotANumber label))"

type_synonym raw_dict = "(string option \<times> number_arg) list"

fun strip_keys :: "string \<Rightarrow> (string, number_arg) dict \<Rightarrow> raw_dict \<Rightarrow> rb_error + (string, number_arg) dict" where
  "strip_keys label stripped [] = Inr stripped"
| "strip_keys label stripped ((key, value) # rest) =
     (case key of
        None \<Rightarrow> Inl (KeyNotString label)
      | Some k \<Rightarrow>
          if py_strip k = [] then Inl (BlankKey label)
          else if map_of stripped (py_strip k) \<noteq> None then Inl (CollidingKeys label k)
          else strip_keys label (stripped @ [(py_strip k, value)]) rest)"

fun clean_entries :: "string \<Rightarrow> (string, number_arg) dict \<Rightarrow> rb_error + (string, rat) dict" where
  "clean_entries label [] = Inr []"
| "clean_entries label ((sid, w) # rest) =
     (case rb_finite w label of
        Inl e \<Rightarrow> Inl e
      | Inr x \<Rightarrow>
          if x < 0 then Inl (NegativeEntry label x)
          else (case clean_entries label rest of Inl e \<Rightarrow> Inl e | Inr ws \<Rightarrow> Inr ((sid, x) # ws)))"

definition clean_weights :: "raw_dict option \<Rightarrow> string \<Rightarrow> rb_error + (string, rat) dict" where
  "clean_weights raw label = (case raw of
     None \<Rightarrow> Inl (RbNotADict label)
   | Some entries \<Rightarrow> (case strip_keys label [] entries of Inl e \<Rightarrow> Inl e | Inr d \<Rightarrow> clean_entries label d))"

section \<open>The rebalancer\<close>

record PortfolioRebalancer =
  rb_target_weights :: "(string, rat) dict"
  rb_current_values :: "(string, rat) dict"
  rb_threshold :: rat
  rb_total_capital :: rat

definition normalise_targets :: "(string, rat) dict \<Rightarrow> (string, rat) dict" where
  "normalise_targets targets =
     (let target_sum = fsum (dict_values targets) in
      if target_sum \<le> 0 then map (\<lambda>(sid, w). (sid, fdiv 1 (fint (int (length targets))))) targets
      else map (\<lambda>(sid, w). (sid, fdiv w target_sum)) targets)"

definition new_rebalancer ::
  "raw_dict option \<Rightarrow> raw_dict option \<Rightarrow> number_arg \<Rightarrow> rb_error + PortfolioRebalancer" where
  "new_rebalancer target_weights current_values threshold =
     (case clean_weights target_weights ''target_weights'' of Inl e \<Rightarrow> Inl e | Inr targets \<Rightarrow>
      if targets = [] then Inl EmptyTargets
      else case clean_weights current_values ''current_values'' of Inl e \<Rightarrow> Inl e | Inr current \<Rightarrow>
      case rb_finite threshold ''threshold'' of Inl e \<Rightarrow> Inl e | Inr thr \<Rightarrow>
      if thr < 0 then Inl (NegativeThreshold thr)
      else if 1 < thr then Inl (ThresholdTooLarge thr)
      else Inr \<lparr>rb_target_weights = normalise_targets targets, rb_current_values = current,
                rb_threshold = thr, rb_total_capital = fsum (dict_values current)\<rparr>)"

definition strategy_ids :: "PortfolioRebalancer \<Rightarrow> string list" where
  "strategy_ids rb = sort (remdups (map fst (rb_target_weights rb) @ map fst (rb_current_values rb)))"

definition value_or_0 :: "(string, rat) dict \<Rightarrow> string \<Rightarrow> rat" where
  "value_or_0 d k = (case map_of d k of None \<Rightarrow> 0 | Some x \<Rightarrow> x)"

definition target_weight :: "PortfolioRebalancer \<Rightarrow> string \<Rightarrow> rat" where
  "target_weight rb sid = value_or_0 (rb_target_weights rb) sid"

definition current_value :: "PortfolioRebalancer \<Rightarrow> string \<Rightarrow> rat" where
  "current_value rb sid = value_or_0 (rb_current_values rb) sid"

definition current_weight :: "PortfolioRebalancer \<Rightarrow> string \<Rightarrow> rat" where
  "current_weight rb sid =
     (if rb_total_capital rb \<le> 0 then 0 else fdiv (current_value rb sid) (rb_total_capital rb))"

definition compute_drift :: "PortfolioRebalancer \<Rightarrow> (string, rat) dict" where
  "compute_drift rb = map (\<lambda>sid. (sid, fsub (current_weight rb sid) (target_weight rb sid))) (strategy_ids rb)"

definition max_drift :: "PortfolioRebalancer \<Rightarrow> rat" where
  "max_drift rb = (let drifts = compute_drift rb in if drifts = [] then 0 else Max (set (map (\<lambda>(sid, d). \<bar>d\<bar>) drifts)))"

text \<open>\<open>math.isclose(a, b, rel_tol=1e-9, abs_tol=1e-12)\<close>.\<close>

definition isclose :: "rat \<Rightarrow> rat \<Rightarrow> bool" where
  "isclose a b \<longleftrightarrow> a = b \<or> (let d = \<bar>fsub b a\<bar> in
     d \<le> \<bar>fmul (f64 (1 / 10 ^ 9)) b\<bar> \<or> d \<le> \<bar>fmul (f64 (1 / 10 ^ 9)) a\<bar> \<or> d \<le> f64 (1 / 10 ^ 12))"

definition needs_rebalance :: "PortfolioRebalancer \<Rightarrow> bool" where
  "needs_rebalance rb =
     (if rb_total_capital rb \<le> 0 then False
      else if isclose (max_drift rb) (rb_threshold rb) then False
      else rb_threshold rb < max_drift rb)"

datatype RebalanceAction = REBALANCE_BUY | REBALANCE_SELL

record RebalanceOrder =
  ro_strategy_id :: string
  ro_action :: RebalanceAction
  ro_amount :: rat
  ro_current_value :: rat
  ro_target_value :: rat
  ro_current_weight :: rat
  ro_target_weight :: rat
  ro_drift :: rat

text \<open>\<open>1e-9\<close> as a float.\<close>

definition ORDER_EPSILON :: rat where
  "ORDER_EPSILON = f64 (1 / 10 ^ 9)"

definition rebalance_order :: "PortfolioRebalancer \<Rightarrow> string \<Rightarrow> RebalanceOrder option" where
  "rebalance_order rb sid =
     (let target_value = fmul (target_weight rb sid) (rb_total_capital rb);
          now_value = current_value rb sid;
          delta = fsub target_value now_value
      in if \<bar>delta\<bar> \<le> ORDER_EPSILON then None
         else Some \<lparr>ro_strategy_id = sid, ro_action = (if 0 < delta then REBALANCE_BUY else REBALANCE_SELL),
                ro_amount = py_round 2 \<bar>delta\<bar>, ro_current_value = py_round 2 now_value,
                ro_target_value = py_round 2 target_value, ro_current_weight = current_weight rb sid,
                ro_target_weight = target_weight rb sid, ro_drift = value_or_0 (compute_drift rb) sid\<rparr>)"

definition generate_rebalance_orders :: "PortfolioRebalancer \<Rightarrow> RebalanceOrder list" where
  "generate_rebalance_orders rb =
     (if rb_total_capital rb \<le> 0 then [] else List.map_filter (rebalance_order rb) (strategy_ids rb))"

section \<open>The validated split\<close>

datatype pa_error = BadStrategyId | WeightNotANumber string | WeightInfinite string | WeightNegative string rat
  | WeightAboveOne string rat | CapitalNegative rat | MaxStrategiesBelowOne int | TooManyWeights nat | BadWeightSum rat

record PortfolioAllocation =
  pa_weights :: "(string, rat) dict"
  pa_total_capital :: rat
  pa_max_strategies :: int

fun weights_pass1 :: "(string option \<times> number_arg) list \<Rightarrow> pa_error + (string, rat) dict" where
  "weights_pass1 [] = Inr []"
| "weights_pass1 ((sid, w) # rest) =
     (case sid of
        None \<Rightarrow> Inl BadStrategyId
      | Some s \<Rightarrow>
          if py_strip s = [] then Inl BadStrategyId
          else (case w of
              ANumber (Finite x) \<Rightarrow>
                if x < 0 then Inl (WeightNegative s x)
                else (case weights_pass1 rest of Inl e \<Rightarrow> Inl e | Inr ws \<Rightarrow> Inr ((s, x) # ws))
            | ANumber NotFinite \<Rightarrow> Inl (WeightInfinite s)
            | ABool \<Rightarrow> Inl (WeightNotANumber s) | AString \<Rightarrow> Inl (WeightNotANumber s) | AOther \<Rightarrow> Inl (WeightNotANumber s)))"

definition validate_each_weight :: "(string option \<times> number_arg) list \<Rightarrow> pa_error + (string, rat) dict" where
  "validate_each_weight raw = (case weights_pass1 raw of
     Inl e \<Rightarrow> Inl e
   | Inr ws \<Rightarrow> (case find (\<lambda>(s, x). 1 < x) ws of Some (s, x) \<Rightarrow> Inl (WeightAboveOne s x) | None \<Rightarrow> Inr ws))"

definition dsum :: "rat list \<Rightarrow> rat" where
  "dsum xs = foldl dadd 0 xs"

text \<open>The constructor; with several violations the first is given.\<close>

definition new_allocation ::
  "(rat \<Rightarrow> rat) \<Rightarrow> (string option \<times> number_arg) list \<Rightarrow> rat \<Rightarrow> int \<Rightarrow> pa_error + PortfolioAllocation" where
  "new_allocation printed weights total_capital max_strategies =
     (case validate_each_weight weights of Inl e \<Rightarrow> Inl e | Inr ws \<Rightarrow>
      if total_capital < 0 then Inl (CapitalNegative total_capital)
      else if max_strategies < 1 then Inl (MaxStrategiesBelowOne max_strategies)
      else if max_strategies < int (length ws) then Inl (TooManyWeights (length ws))
      else
        let total = dsum (map printed (dict_values ws)) in
        if ws \<noteq> [] \<and> 1 / 10 ^ 9 < \<bar>dsub total 1\<bar> then Inl (BadWeightSum total)
        else Inr \<lparr>pa_weights = ws, pa_total_capital = total_capital, pa_max_strategies = max_strategies\<rparr>)"

text \<open>\<open>model_copy(update=...)\<close> validates the merged fields again.\<close>

definition pa_model_copy ::
  "(rat \<Rightarrow> rat) \<Rightarrow> (string option \<times> number_arg) list option \<Rightarrow> rat option \<Rightarrow> int option \<Rightarrow> PortfolioAllocation
     \<Rightarrow> pa_error + PortfolioAllocation" where
  "pa_model_copy printed weights total_capital max_strategies a =
     new_allocation printed
       (case weights of None \<Rightarrow> map (\<lambda>(s, x). (Some s, ANumber (Finite x))) (pa_weights a) | Some ws \<Rightarrow> ws)
       (case total_capital of None \<Rightarrow> pa_total_capital a | Some c \<Rightarrow> c)
       (case max_strategies of None \<Rightarrow> pa_max_strategies a | Some n \<Rightarrow> n)"

text \<open>\<open>None\<close> is the \<open>InvalidOperation\<close> of \<open>quantize\<close>.\<close>

definition get_allocation :: "(rat \<Rightarrow> rat) \<Rightarrow> string \<Rightarrow> PortfolioAllocation \<Rightarrow> rat option" where
  "get_allocation printed sid a =
     (let weight = value_or_0 (pa_weights a) sid in
      if weight \<le> 0 then Some 0 else quantize 2 (dmul (pa_total_capital a) (printed weight)))"

fun sum_allocations :: "rat option list \<Rightarrow> rat \<Rightarrow> rat option" where
  "sum_allocations [] s = Some s"
| "sum_allocations (None # xs) s = None"
| "sum_allocations (Some x # xs) s = sum_allocations xs (dadd s x)"

definition total_allocated :: "(rat \<Rightarrow> rat) \<Rightarrow> PortfolioAllocation \<Rightarrow> rat option" where
  "total_allocated printed a = sum_allocations (map (\<lambda>(sid, w). get_allocation printed sid a) (pa_weights a)) 0"

section \<open>What the orders achieve\<close>

text \<open>The value of a strategy after an order, and after all of them.\<close>

definition apply_order :: "string \<Rightarrow> rat \<Rightarrow> RebalanceOrder \<Rightarrow> rat" where
  "apply_order sid v ord = (if ro_strategy_id ord \<noteq> sid then v
     else case ro_action ord of REBALANCE_BUY \<Rightarrow> v + ro_amount ord | REBALANCE_SELL \<Rightarrow> v - ro_amount ord)"

definition value_after :: "PortfolioRebalancer \<Rightarrow> string \<Rightarrow> rat" where
  "value_after rb sid = foldl (apply_order sid) (current_value rb sid) (generate_rebalance_orders rb)"

definition target_value :: "PortfolioRebalancer \<Rightarrow> string \<Rightarrow> rat" where
  "target_value rb sid = fmul (target_weight rb sid) (rb_total_capital rb)"

lemma rebalance_order_id: "rebalance_order rb sid = Some ord \<Longrightarrow> ro_strategy_id ord = sid"
  by (auto simp: rebalance_order_def Let_def split: if_splits)

lemma foldl_orders:
  assumes "distinct ids"
  shows "foldl (apply_order sid) v (List.map_filter (rebalance_order rb) ids)
    = (if sid \<in> set ids then (case rebalance_order rb sid of None \<Rightarrow> v | Some ord \<Rightarrow> apply_order sid v ord) else v)"
  using assms
  by (induction ids arbitrary: v)
    (auto simp: List.map_filter_simps apply_order_def dest: rebalance_order_id split: option.splits)

lemma unknown_strategy:
  assumes "sid \<notin> set (strategy_ids rb)"
  shows "rebalance_order rb sid = None"
proof -
  have "map_of (rb_target_weights rb) sid = None" "map_of (rb_current_values rb) sid = None"
    using assms by (auto simp: strategy_ids_def map_of_eq_None_iff)
  moreover have "0 \<le> ORDER_EPSILON" by (simp add: ORDER_EPSILON_def f64.nonneg)
  ultimately show ?thesis
    by (simp add: rebalance_order_def target_weight_def current_value_def value_or_0_def Let_def float_op_defs)
qed

lemma value_after_order:
  assumes "0 < rb_total_capital rb"
  shows "value_after rb sid = (case rebalance_order rb sid of
     None \<Rightarrow> current_value rb sid | Some ord \<Rightarrow> apply_order sid (current_value rb sid) ord)"
proof -
  have "distinct (strategy_ids rb)" by (simp add: strategy_ids_def)
  from foldl_orders [OF this, of sid "current_value rb sid" rb] show ?thesis
    using assms unknown_strategy [of sid rb] by (simp add: value_after_def generate_rebalance_orders_def)
qed

lemma py_round_close:
  assumes "0 \<le> x"
  shows "\<bar>py_round 2 x - x\<bar> \<le> 1 / 200 + (x + 2) / 2 ^ 53"
proof -
  define r :: rat where "r = of_int (rhe (x * 100)) / 100"
  have r: "\<bar>r - x\<bar> \<le> 1 / 200" using rhe_dist [of "x * 100"] unfolding r_def by linarith
  have "0 \<le> r" using assms by (simp add: r_def rhe_nonneg)
  then have "\<bar>f64 r - r\<bar> \<le> (r + 1) / 2 ^ 53" by (rule f64_close)
  also have "\<dots> \<le> (x + 2) / 2 ^ 53" using r by (intro divide_right_mono) (linarith, simp)
  finally have "\<bar>f64 r - x\<bar> \<le> 1 / 200 + (x + 2) / 2 ^ 53" using r by linarith
  then show ?thesis by (simp add: py_round_def r_def)
qed

lemma cents_chain:
  fixes d f r :: rat
  assumes "\<bar>f - d\<bar> \<le> (d + 1) * e" "\<bar>r - f\<bar> \<le> c + (f + 2) * e" "0 \<le> e" "e \<le> 1" "0 \<le> d"
  shows "\<bar>r - d\<bar> \<le> c + (3 * d + 4) * e"
proof -
  have "(d + 1) * e \<le> d + 1" using assms mult_left_mono [of e 1 "d + 1"] by simp
  then have "f \<le> 2 * d + 1" using assms(1) by linarith
  then have "(f + 2) * e \<le> (2 * d + 3) * e" using assms(3) by (intro mult_right_mono) simp_all
  moreover have "(d + 1) * e + (2 * d + 3) * e = (3 * d + 4) * e" by (simp add: algebra_simps)
  ultimately show ?thesis using assms(1,2) by linarith
qed

text \<open>
  C14.  The orders reach the targets: when every order of a rebalancing is carried out, the value of each strategy (also of one
  without a target or without a position) is within half a cent of its target, beyond it by at most the
  roundings of the three float operations; there is at most one order per strategy, in the order of the ids, and no
  order has a negative amount.
\<close>

theorem orders_reach_targets:
  assumes "0 < rb_total_capital rb"
  shows "\<bar>value_after rb sid - target_value rb sid\<bar>
      \<le> 1 / 200 + (3 * \<bar>target_value rb sid - current_value rb sid\<bar> + 4) / 2 ^ 53
    \<and> sorted (map ro_strategy_id (generate_rebalance_orders rb)) \<and> distinct (map ro_strategy_id (generate_rebalance_orders rb))
    \<and> list_all (\<lambda>ord. 0 \<le> ro_amount ord) (generate_rebalance_orders rb)"
proof (intro conjI)
  let ?t = "target_value rb sid" and ?c = "current_value rb sid"
  let ?d = "\<bar>?t - ?c\<bar>" and ?f = "\<bar>fsub (target_value rb sid) (current_value rb sid)\<bar>" and ?e = "1 / 2 ^ 53 :: rat"
  have fabs: "?f = f64 ?d" using f64.uminus [of "?t - ?c"] f64.nonneg [of "?t - ?c"] f64.nonpos [of "?t - ?c"]
    by (cases "0 \<le> ?t - ?c") (simp_all add: fsub_def)
  have close: "\<bar>?f - ?d\<bar> \<le> (?d + 1) * ?e" using f64_close [of ?d] by (simp add: fabs)
  show "\<bar>value_after rb sid - ?t\<bar> \<le> 1 / 200 + (3 * ?d + 4) / 2 ^ 53"
  proof (cases "?f \<le> ORDER_EPSILON")
    case True
    have "ORDER_EPSILON \<le> 1 / 2 ^ 8"
      unfolding ORDER_EPSILON_def by (rule f64.below) (use f64_dyadic [of 1 8] in simp_all)
    then have "ORDER_EPSILON \<le> 1 / 200" by simp
    then have "?d \<le> 1 / 200 + (?d + 1) * ?e" using True close by linarith
    also have "\<dots> \<le> 1 / 200 + (3 * ?d + 4) / 2 ^ 53" by (simp add: field_simps)
    finally show ?thesis using True value_after_order [OF assms, of sid]
      by (simp add: rebalance_order_def target_value_def [symmetric] Let_def abs_minus_commute)
  next
    case False
    have "\<bar>py_round 2 ?f - ?f\<bar> \<le> 1 / 200 + (?f + 2) * ?e" using py_round_close [of ?f] by simp
    from cents_chain [OF close this] have amount: "\<bar>py_round 2 ?f - ?d\<bar> \<le> 1 / 200 + (3 * ?d + 4) / 2 ^ 53" by simp
    have up: "0 < fsub ?t ?c \<Longrightarrow> ?c \<le> ?t" using f64.pos_arg [of "?t - ?c"] by (simp add: fsub_def)
    have down: "?t \<le> ?c" if "\<not> 0 < fsub ?t ?c"
    proof (rule ccontr)
      assume "\<not> ?t \<le> ?c"
      then have "0 \<le> fsub ?t ?c" by (simp add: fsub_def f64.nonneg)
      then have "?f = 0" using that by simp
      moreover have "0 \<le> ORDER_EPSILON" by (simp add: ORDER_EPSILON_def f64.nonneg)
      ultimately show False using False by simp
    qed
    then have "value_after rb sid - ?t = py_round 2 ?f - ?d \<or> value_after rb sid - ?t = - (py_round 2 ?f - ?d)"
      using False value_after_order [OF assms, of sid] up down
      by (auto simp: rebalance_order_def target_value_def [symmetric] Let_def apply_order_def)
    then show ?thesis using amount by (metis abs_minus_cancel)
  qed
next
  have ids: "map ro_strategy_id (List.map_filter (rebalance_order rb) xs) = filter (\<lambda>sid. rebalance_order rb sid \<noteq> None) xs" for xs
    by (induction xs) (auto simp: List.map_filter_simps dest: rebalance_order_id split: option.splits)
  show "sorted (map ro_strategy_id (generate_rebalance_orders rb))" "distinct (map ro_strategy_id (generate_rebalance_orders rb))"
    by (simp_all add: generate_rebalance_orders_def ids strategy_ids_def sorted_filter [of "\<lambda>x. x", simplified])
  have "0 \<le> py_round 2 \<bar>x\<bar>" for x by (simp add: py_round_def f64.nonneg rhe_nonneg)
  then show "list_all (\<lambda>ord. 0 \<le> ro_amount ord) (generate_rebalance_orders rb)"
    by (auto simp: generate_rebalance_orders_def list_all_iff List.map_filter_def rebalance_order_def Let_def split: if_splits)
qed

definition halves :: PortfolioRebalancer where
  "halves = \<lparr>rb_target_weights = [(''a'', 1 / 2), (''b'', 1 / 2)], rb_current_values = [(''a'', 25601 / 256), (''b'', 100)],
     rb_threshold = 0, rb_total_capital = 51201 / 256\<rparr>"

theorem orders_reach_targets_witness:
  "\<bar>value_after halves ''a'' - target_value halves ''a''\<bar>
     \<le> 1 / 200 + (3 * \<bar>target_value halves ''a'' - current_value halves ''a''\<bar> + 4) / 2 ^ 53"
  using orders_reach_targets [of halves "''a''"] by (simp add: halves_def)

text \<open>A difference of less than half a cent, which is no trade, makes an order of the amount zero.\<close>

lemma order_of_nothing: "\<exists>ord. rebalance_order halves ''a'' = Some ord \<and> ro_amount ord = 0 \<and> ro_action ord = REBALANCE_SELL"
proof -
  have t: "fmul (target_weight halves ''a'') (rb_total_capital halves) = 51201 / 512"
    using f64_dyadic [of 51201 9] by (simp add: halves_def target_weight_def value_or_0_def fmul_def)
  have c: "current_value halves ''a'' = 25601 / 256"
    by (simp add: halves_def current_value_def value_or_0_def)
  have d: "fsub (51201 / 512) (25601 / 256) = - (1 / 512)"
    using f64_dyadic [of 1 9] f64.uminus [of "1 / 512"] by (simp add: fsub_def)
  have "ORDER_EPSILON \<le> 1 / 2 ^ 10"
    unfolding ORDER_EPSILON_def by (rule f64.below) (use f64_dyadic [of 1 10] in simp_all)
  then have eps: "ORDER_EPSILON < 1 / 512" by simp
  have "\<lfloor>25 / 128 :: rat\<rfloor> = 0" by (simp add: floor_eq_iff)
  then have "py_round 2 (1 / 512) = 0" by (simp add: py_round_def rhe_def Let_def)
  then show ?thesis using eps by (simp add: rebalance_order_def t c d Let_def)
qed

section \<open>A validated split stays valid\<close>

definition pa_ok :: "PortfolioAllocation \<Rightarrow> bool" where
  "pa_ok a \<longleftrightarrow> list_all (\<lambda>(sid, w). py_strip sid \<noteq> [] \<and> 0 \<le> w \<and> w \<le> 1) (pa_weights a)
     \<and> 0 \<le> pa_total_capital a \<and> int (length (pa_weights a)) \<le> pa_max_strategies a"

lemma weights_pass1_Inr:
  "weights_pass1 raw = Inr ws \<Longrightarrow> list_all (\<lambda>(sid, w). py_strip sid \<noteq> [] \<and> 0 \<le> w) ws"
  by (induction raw arbitrary: ws rule: weights_pass1.induct)
    (auto split: option.splits if_splits sum.splits number_arg.splits py_float.splits)

lemma new_allocation_ok: "new_allocation printed weights cap n = Inr a \<Longrightarrow> pa_ok a"
  by (auto simp: new_allocation_def validate_each_weight_def pa_ok_def Let_def list_all_iff find_None_iff not_less
      dest!: weights_pass1_Inr split: sum.splits option.splits if_splits)

lemma copy_is_validated: "pa_model_copy printed ws cap n a = Inr b \<Longrightarrow> pa_ok b"
  unfolding pa_model_copy_def by (rule new_allocation_ok)

end
