(* ===== verification/TaxReports.thy ===== *)
theory TaxReports
  imports Prelude "HOL-Library.Monad_Syntax"
begin

text \<open>
  The year-end tax reports, \<open>engine/core/tax/reports\<close>: the dispositions and totals of the United States
  (\<open>form_1099b.py\<close>, \<open>schedule_d.py\<close>), the United Kingdom (\<open>hmrc_cgt.py\<close>), Germany (\<open>kest.py\<close>) and France
  (\<open>france_pfu.py\<close>), the losses they carry from year to year (\<open>carryover.py\<close>, \<open>cgt_carryover.py\<close>,
  \<open>kest_carryover.py\<close>, \<open>pfu_carryover.py\<close>), Section 1256 contracts and straddles (\<open>form_6781.py\<close>,
  \<open>form_6781_part_ii.py\<close>, \<open>form_6781_part_iii.py\<close>, \<open>section_1256_carryback.py\<close>) and \<open>dispatcher.py\<close>.

  Amounts are decimals of 28 digits.  The computations are in the option monad: \<open>None\<close> is the
  \<open>InvalidOperation\<close> of \<open>quantize\<close>.  What the code validates is the left value of a sum.  A date is its ordinal.
  The CSV texts are not modelled.
\<close>

section \<open>Amounts\<close>

datatype tx_error =
  AcquiredAfterDisposed | NegativeProceeds | NegativeCost | NegativeWashSale | NegativeAllowance | NegativeChurchRate
| NegativePrior | CapNotPositive | NegativeVintage | NegativeLoss | NegativePriorGain | NegativeLegLoss | NegativeLegGain
| InvalidDecimal | UnsupportedJurisdiction string | WrongPriorType | YearRequired

definition q2 :: "rat \<Rightarrow> rat option" where
  "q2 x = quantize 2 x"

text \<open>The unary minus rounds to the context like any operation.\<close>

definition dneg :: "rat \<Rightarrow> rat" where
  "dneg x = dec28 (- x)"

definition or_invalid :: "'b option \<Rightarrow> tx_error + 'b" where
  "or_invalid v = (case v of None \<Rightarrow> Inl InvalidDecimal | Some x \<Rightarrow> Inr x)"

section \<open>Dispositions\<close>

text \<open>\<open>TaxableDisposal\<close>, \<open>CgtDisposal\<close> and \<open>PfuDisposal\<close> have the same fields and checks, and the dispatcher's
  conversions to the last two copy every field.\<close>

record TaxableDisposal =
  td_description :: string
  td_acquired :: int
  td_disposed :: int
  td_proceeds :: rat
  td_cost :: rat

type_synonym CgtDisposal = TaxableDisposal

type_synonym PfuDisposal = TaxableDisposal

definition new_disposal :: "string \<Rightarrow> int \<Rightarrow> int \<Rightarrow> rat \<Rightarrow> rat \<Rightarrow> tx_error + TaxableDisposal" where
  "new_disposal description acquired disposed proceeds cost =
     (if disposed < acquired then Inl AcquiredAfterDisposed
      else if proceeds < 0 then Inl NegativeProceeds
      else if cost < 0 then Inl NegativeCost
      else Inr \<lparr>td_description = description, td_acquired = acquired, td_disposed = disposed,
                td_proceeds = proceeds, td_cost = cost\<rparr>)"

definition gain_loss :: "'b TaxableDisposal_scheme \<Rightarrow> rat option" where
  "gain_loss d = q2 (dsub (td_proceeds d) (td_cost d))"

section \<open>United Kingdom\<close>

definition ANNUAL_EXEMPT_AMOUNT_2024_25 :: rat where
  "ANNUAL_EXEMPT_AMOUNT_2024_25 = 3000"

record CgtSummary =
  cgt_disposal_count :: nat
  cgt_proceeds_total :: rat
  cgt_cost_total :: rat
  cgt_net_gain :: rat
  cgt_net_loss :: rat
  cgt_exempt_used :: rat
  cgt_taxable_gain :: rat

text \<open>The totals of the loop: proceeds, cost, gains, losses.\<close>

fun gross_totals :: "TaxableDisposal list \<Rightarrow> rat \<times> rat \<times> rat \<times> rat \<Rightarrow> (rat \<times> rat \<times> rat \<times> rat) option" where
  "gross_totals [] acc = Some acc"
| "gross_totals (d # ds) (proceeds, cost, gain, loss) =
     do {
       delta \<leftarrow> gain_loss d;
       gross_totals ds (dadd proceeds (td_proceeds d), dadd cost (td_cost d),
         (if 0 \<le> delta then dadd gain delta else gain), (if 0 \<le> delta then loss else dadd loss (dneg delta)))
     }"

definition cgt_totals :: "CgtDisposal list \<Rightarrow> rat \<Rightarrow> CgtSummary option" where
  "cgt_totals ds exempt =
     do {
       (proceeds, cost, gain, loss) \<leftarrow> gross_totals ds (0, 0, 0, 0);
       net \<leftarrow> q2 (dsub gain loss);
       neg \<leftarrow> (if 0 < net then Some 0 else q2 (dneg net));
       let net_gain = (if 0 < net then net else 0);
       used \<leftarrow> q2 (min net_gain exempt);
       taxable \<leftarrow> q2 (dsub net_gain used);
       proceeds' \<leftarrow> q2 proceeds;
       cost' \<leftarrow> q2 cost;
       Some \<lparr>cgt_disposal_count = length ds, cgt_proceeds_total = proceeds', cgt_cost_total = cost',
             cgt_net_gain = net_gain, cgt_net_loss = neg, cgt_exempt_used = used, cgt_taxable_gain = taxable\<rparr>
     }"

definition summarize_cgt :: "CgtDisposal list \<Rightarrow> rat \<Rightarrow> tx_error + CgtSummary" where
  "summarize_cgt ds exempt = (if exempt < 0 then Inl NegativeAllowance else or_invalid (cgt_totals ds exempt))"

record CgtApplication =
  cga_summary :: CgtSummary
  cga_loss_used :: rat
  cga_taxable_gain :: rat
  cga_next_loss :: rat

definition cgt_apply :: "CgtDisposal list \<Rightarrow> rat \<Rightarrow> rat \<Rightarrow> CgtApplication option" where
  "cgt_apply ds prior exempt =
     do {
       s \<leftarrow> cgt_totals ds exempt;
       used \<leftarrow> q2 (min prior (cgt_taxable_gain s));
       remaining \<leftarrow> q2 (dsub prior used);
       taxable \<leftarrow> q2 (dsub (cgt_taxable_gain s) used);
       next_loss \<leftarrow> q2 (dadd remaining (cgt_net_loss s));
       Some \<lparr>cga_summary = s, cga_loss_used = used, cga_taxable_gain = taxable, cga_next_loss = next_loss\<rparr>
     }"

definition apply_cgt_carryover :: "CgtDisposal list \<Rightarrow> rat option \<Rightarrow> rat \<Rightarrow> tx_error + CgtApplication" where
  "apply_cgt_carryover ds prior exempt =
     (let loss = (case prior of None \<Rightarrow> 0 | Some l \<Rightarrow> l) in
      if exempt < 0 then Inl NegativeAllowance
      else if loss < 0 then Inl NegativePrior
      else or_invalid (cgt_apply ds loss exempt))"

definition roll_forward :: "rat \<Rightarrow> tx_error + rat" where
  "roll_forward prior = (if prior < 0 then Inl NegativePrior else or_invalid (q2 prior))"

section \<open>France\<close>

definition PFU_INCOME_TAX_RATE :: rat where "PFU_INCOME_TAX_RATE = 128 / 1000"

definition PFU_SOCIAL_CHARGES_RATE :: rat where "PFU_SOCIAL_CHARGES_RATE = 172 / 1000"

record PfuSummary =
  pfu_disposal_count :: nat
  pfu_proceeds_total :: rat
  pfu_cost_total :: rat
  pfu_net_gain :: rat
  pfu_net_loss :: rat
  pfu_taxable_gain :: rat
  pfu_income_tax :: rat
  pfu_social_charges :: rat
  pfu_total_tax :: rat

definition pfu_taxes :: "rat \<Rightarrow> (rat \<times> rat \<times> rat) option" where
  "pfu_taxes base =
     do {
       income \<leftarrow> q2 (dmul base PFU_INCOME_TAX_RATE);
       social \<leftarrow> q2 (dmul base PFU_SOCIAL_CHARGES_RATE);
       total \<leftarrow> q2 (dadd income social);
       Some (income, social, total)
     }"

definition summarize_pfu :: "PfuDisposal list \<Rightarrow> PfuSummary option" where
  "summarize_pfu ds =
     do {
       (proceeds, cost, gain, loss) \<leftarrow> gross_totals ds (0, 0, 0, 0);
       net \<leftarrow> q2 (dsub gain loss);
       neg \<leftarrow> (if 0 < net then Some 0 else q2 (dneg net));
       let net_gain = (if 0 < net then net else 0);
       (income, social, total) \<leftarrow> pfu_taxes net_gain;
       proceeds' \<leftarrow> q2 proceeds;
       cost' \<leftarrow> q2 cost;
       Some \<lparr>pfu_disposal_count = length ds, pfu_proceeds_total = proceeds', pfu_cost_total = cost',
             pfu_net_gain = net_gain, pfu_net_loss = neg, pfu_taxable_gain = net_gain,
             pfu_income_tax = income, pfu_social_charges = social, pfu_total_tax = total\<rparr>
     }"

definition CARRY_FORWARD_YEARS :: int where "CARRY_FORWARD_YEARS = 10"

record PfuLossVintage =
  vin_year :: int
  vin_amount :: rat

definition new_vintage :: "int \<Rightarrow> rat \<Rightarrow> tx_error + PfuLossVintage" where
  "new_vintage y amt = (if amt < 0 then Inl NegativeVintage else Inr \<lparr>vin_year = y, vin_amount = amt\<rparr>)"

definition normalised :: "PfuLossVintage list \<Rightarrow> PfuLossVintage list" where
  "normalised vs = sort_key vin_year (filter (\<lambda>v. 0 < vin_amount v) vs)"

text \<open>The walk over the vintages with the gain that is left and the loss used.\<close>

fun absorb :: "PfuLossVintage list \<Rightarrow> rat \<Rightarrow> rat \<Rightarrow> (PfuLossVintage list \<times> rat) option" where
  "absorb [] gain used = Some ([], used)"
| "absorb (v # vs) gain used =
     (if gain \<le> 0 then do { (rest, u) \<leftarrow> absorb vs gain used; Some (v # rest, u) }
      else do {
        take_amt \<leftarrow> q2 (min gain (vin_amount v));
        left \<leftarrow> q2 (dsub (vin_amount v) take_amt);
        gain' \<leftarrow> q2 (dsub gain take_amt);
        (rest, u) \<leftarrow> absorb vs gain' (dadd used take_amt);
        Some (if 0 < left then v\<lparr>vin_amount := left\<rparr> # rest else rest, u)
      })"

record PfuApplication =
  pfa_summary :: PfuSummary
  pfa_loss_used :: rat
  pfa_taxable_gain :: rat
  pfa_income_tax :: rat
  pfa_social_charges :: rat
  pfa_total_tax :: rat
  pfa_next :: "PfuLossVintage list"
  pfa_expired :: "PfuLossVintage list"

definition expired_in :: "int \<Rightarrow> PfuLossVintage \<Rightarrow> bool" where
  "expired_in current_year v \<longleftrightarrow> CARRY_FORWARD_YEARS \<le> current_year - vin_year v"

definition apply_pfu_carryover :: "PfuDisposal list \<Rightarrow> PfuLossVintage list option \<Rightarrow> int \<Rightarrow> PfuApplication option" where
  "apply_pfu_carryover ds prior current_year =
     (let vs = normalised (case prior of None \<Rightarrow> [] | Some p \<Rightarrow> p);
          kept = filter (\<lambda>v. \<not> expired_in current_year v) vs; gone = filter (expired_in current_year) vs
      in do {
        s \<leftarrow> summarize_pfu ds;
        (surviving, used) \<leftarrow>
          (if 0 < pfu_net_gain s then absorb kept (pfu_net_gain s) 0
           else Some (if 0 < pfu_net_loss s then kept @ [\<lparr>vin_year = current_year, vin_amount = pfu_net_loss s\<rparr>] else kept, 0));
        taxable \<leftarrow> q2 (dsub (pfu_net_gain s) used);
        (income, social, total) \<leftarrow> pfu_taxes taxable;
        used' \<leftarrow> q2 used;
        Some \<lparr>pfa_summary = s, pfa_loss_used = used', pfa_taxable_gain = taxable, pfa_income_tax = income,
              pfa_social_charges = social, pfa_total_tax = total, pfa_next = normalised surviving, pfa_expired = gone\<rparr>
      })"

section \<open>Germany\<close>

definition KEST_RATE :: rat where "KEST_RATE = 25 / 100"

definition SOLZ_RATE :: rat where "SOLZ_RATE = 55 / 1000"

definition SPARER_PAUSCHBETRAG_2024 :: rat where "SPARER_PAUSCHBETRAG_2024 = 1000"

datatype AssetClass = ASSET_EQUITY | ASSET_OTHER

record KestDisposal = TaxableDisposal +
  kd_asset_class :: AssetClass

record KestSummary =
  kest_disposal_count :: nat
  kest_proceeds_total :: rat
  kest_cost_total :: rat
  kest_equity_net :: rat
  kest_other_net :: rat
  kest_taxable_income :: rat
  kest_allowance_used :: rat
  kest_tax :: rat
  kest_solidarity_surcharge :: rat
  kest_church_tax :: rat
  kest_total_tax :: rat

text \<open>The totals of the loop: proceeds, cost, equity bucket, other bucket.\<close>

fun bucket_totals :: "KestDisposal list \<Rightarrow> rat \<times> rat \<times> rat \<times> rat \<Rightarrow> (rat \<times> rat \<times> rat \<times> rat) option" where
  "bucket_totals [] acc = Some acc"
| "bucket_totals (d # ds) (proceeds, cost, equity, other) =
     do {
       delta \<leftarrow> gain_loss d;
       bucket_totals ds (dadd proceeds (td_proceeds d), dadd cost (td_cost d),
         (if kd_asset_class d = ASSET_EQUITY then dadd equity delta else equity),
         (if kd_asset_class d = ASSET_EQUITY then other else dadd other delta))
     }"

definition kest_totals :: "KestDisposal list \<Rightarrow> rat \<Rightarrow> rat option \<Rightarrow> KestSummary option" where
  "kest_totals ds allowance church_rate =
     do {
       (proceeds, cost, equity, other) \<leftarrow> bucket_totals ds (0, 0, 0, 0);
       equity_net \<leftarrow> q2 equity;
       other_net \<leftarrow> q2 other;
       base0 \<leftarrow> q2 (dadd (if 0 < equity_net then equity_net else 0) other_net);
       let base = (if base0 < 0 then 0 else base0);
       used \<leftarrow> q2 (min base allowance);
       taxable \<leftarrow> q2 (dsub base used);
       kest \<leftarrow> q2 (dmul taxable KEST_RATE);
       solz \<leftarrow> q2 (dmul kest SOLZ_RATE);
       church \<leftarrow> (case church_rate of None \<Rightarrow> Some 0 | Some r \<Rightarrow> q2 (dmul kest r));
       total \<leftarrow> q2 (dadd (dadd kest solz) church);
       proceeds' \<leftarrow> q2 proceeds;
       cost' \<leftarrow> q2 cost;
       Some \<lparr>kest_disposal_count = length ds, kest_proceeds_total = proceeds', kest_cost_total = cost',
             kest_equity_net = equity_net, kest_other_net = other_net, kest_taxable_income = taxable,
             kest_allowance_used = used, kest_tax = kest, kest_solidarity_surcharge = solz,
             kest_church_tax = church, kest_total_tax = total\<rparr>
     }"

definition kest_arguments :: "rat \<Rightarrow> rat option \<Rightarrow> tx_error option" where
  "kest_arguments allowance church_rate =
     (if allowance < 0 then Some NegativeAllowance
      else if (case church_rate of None \<Rightarrow> False | Some r \<Rightarrow> r < 0) then Some NegativeChurchRate else None)"

definition summarize_kest :: "KestDisposal list \<Rightarrow> rat \<Rightarrow> rat option \<Rightarrow> tx_error + KestSummary" where
  "summarize_kest ds allowance church_rate =
     (case kest_arguments allowance church_rate of Some e \<Rightarrow> Inl e
      | None \<Rightarrow> or_invalid (kest_totals ds allowance church_rate))"

record KestCarryover =
  kco_equity :: rat
  kco_other :: rat

record KestApplication =
  kea_summary :: KestSummary
  kea_next :: KestCarryover

fun bucket_deltas :: "KestDisposal list \<Rightarrow> rat \<times> rat \<Rightarrow> (rat \<times> rat) option" where
  "bucket_deltas [] acc = Some acc"
| "bucket_deltas (d # ds) (equity, other) =
     do {
       delta \<leftarrow> gain_loss d;
       bucket_deltas ds ((if kd_asset_class d = ASSET_EQUITY then dadd equity delta else equity),
         (if kd_asset_class d = ASSET_EQUITY then other else dadd other delta))
     }"

text \<open>The synthetic disposal of a bucket; the ordinals are those of the first and last day of 2024.\<close>

definition bucket_disposal :: "string \<Rightarrow> AssetClass \<Rightarrow> rat \<Rightarrow> KestDisposal list" where
  "bucket_disposal description c net =
     (if net \<noteq> 0
      then [\<lparr>td_description = description, td_acquired = 738886, td_disposed = 739251,
             td_proceeds = (if 0 < net then net else 0), td_cost = (if net < 0 then dneg net else 0), kd_asset_class = c\<rparr>]
      else [])"

definition synthesize :: "rat \<Rightarrow> rat \<Rightarrow> KestDisposal list" where
  "synthesize equity_net other_net =
     bucket_disposal ''(carry-adjusted equity bucket)'' ASSET_EQUITY equity_net
     @ bucket_disposal ''(carry-adjusted other bucket)'' ASSET_OTHER other_net"

definition loss_leg :: "rat \<Rightarrow> rat option" where
  "loss_leg net = (if net < 0 then q2 (dneg net) else Some 0)"

definition apply_kest_carryover ::
  "KestDisposal list \<Rightarrow> KestCarryover option \<Rightarrow> rat \<Rightarrow> rat option \<Rightarrow> tx_error + KestApplication" where
  "apply_kest_carryover ds prior allowance church_rate =
     (let p = (case prior of None \<Rightarrow> \<lparr>kco_equity = 0, kco_other = 0\<rparr> | Some p \<Rightarrow> p) in
      if kco_equity p < 0 \<or> kco_other p < 0 then Inl NegativePrior
      else case do {
          (equity, other) \<leftarrow> bucket_deltas ds (0, 0);
          equity' \<leftarrow> q2 (dsub equity (kco_equity p));
          other' \<leftarrow> q2 (dsub other (kco_other p));
          Some (equity', other') } of
        None \<Rightarrow> Inl InvalidDecimal
      | Some (equity, other) \<Rightarrow>
          (case summarize_kest (synthesize equity other) allowance church_rate of
             Inl e \<Rightarrow> Inl e
           | Inr s \<Rightarrow> or_invalid (do {
               next_equity \<leftarrow> loss_leg equity;
               next_other \<leftarrow> loss_leg other;
               Some \<lparr>kea_summary = s\<lparr>kest_disposal_count := length ds\<rparr>,
                     kea_next = \<lparr>kco_equity = next_equity, kco_other = next_other\<rparr>\<rparr> })))"

section \<open>United States\<close>

definition LONG_TERM_DAYS :: int where "LONG_TERM_DAYS = 365"

datatype HoldingTerm = SHORT_TERM | LONG_TERM

record LotDisposition =
  ld_description :: string
  ld_acquired :: int
  ld_sold :: int
  ld_proceeds :: rat
  ld_cost_basis :: rat
  ld_wash_sale_disallowed :: rat
  ld_lot_id :: "string option"

definition new_lot_disposition ::
  "string \<Rightarrow> int \<Rightarrow> int \<Rightarrow> rat \<Rightarrow> rat \<Rightarrow> rat \<Rightarrow> string option \<Rightarrow> tx_error + LotDisposition" where
  "new_lot_disposition description acquired sold proceeds cost_basis disallowed lot =
     (if sold < acquired then Inl AcquiredAfterDisposed
      else if proceeds < 0 then Inl NegativeProceeds
      else if cost_basis < 0 then Inl NegativeCost
      else if disallowed < 0 then Inl NegativeWashSale
      else Inr \<lparr>ld_description = description, ld_acquired = acquired, ld_sold = sold, ld_proceeds = proceeds,
                ld_cost_basis = cost_basis, ld_wash_sale_disallowed = disallowed, ld_lot_id = lot\<rparr>)"

record Schedule1099BRow =
  row_description :: string
  row_acquired :: int
  row_sold :: int
  row_proceeds :: rat
  row_cost_basis :: rat
  row_adjustment_codes :: string
  row_adjustment_amount :: rat
  row_gain_loss :: rat
  row_term :: HoldingTerm
  row_lot_id :: "string option"

definition holding_term :: "int \<Rightarrow> int \<Rightarrow> HoldingTerm" where
  "holding_term acquired sold = (if LONG_TERM_DAYS < sold - acquired then LONG_TERM else SHORT_TERM)"

definition row_of :: "LotDisposition \<Rightarrow> Schedule1099BRow option" where
  "row_of d =
     (let washed = 0 < ld_wash_sale_disallowed d;
          adjustment = (if washed then dadd 0 (ld_wash_sale_disallowed d) else 0)
      in do {
        gl \<leftarrow> q2 (dadd (dsub (ld_proceeds d) (ld_cost_basis d)) adjustment);
        Some \<lparr>row_description = ld_description d, row_acquired = ld_acquired d, row_sold = ld_sold d,
              row_proceeds = ld_proceeds d, row_cost_basis = ld_cost_basis d,
              row_adjustment_codes = (if washed then ''W'' else []), row_adjustment_amount = adjustment,
              row_gain_loss = gl, row_term = holding_term (ld_acquired d) (ld_sold d), row_lot_id = ld_lot_id d\<rparr>
      })"

fun generate_1099b_rows :: "LotDisposition list \<Rightarrow> Schedule1099BRow list option" where
  "generate_1099b_rows [] = Some []"
| "generate_1099b_rows (d # ds) = do { r \<leftarrow> row_of d; rs \<leftarrow> generate_1099b_rows ds; Some (r # rs) }"

record ScheduleDPartTotal =
  sdp_row_count :: nat
  sdp_proceeds :: rat
  sdp_cost_basis :: rat
  sdp_adjustment_amount :: rat
  sdp_gain_loss :: rat

record ScheduleDSummary =
  sd_short_term :: ScheduleDPartTotal
  sd_long_term :: ScheduleDPartTotal
  sd_net_gain_loss :: rat

definition empty_part :: ScheduleDPartTotal where
  "empty_part = \<lparr>sdp_row_count = 0, sdp_proceeds = 0, sdp_cost_basis = 0, sdp_adjustment_amount = 0, sdp_gain_loss = 0\<rparr>"

definition add_row :: "ScheduleDPartTotal \<Rightarrow> Schedule1099BRow \<Rightarrow> ScheduleDPartTotal" where
  "add_row p r =
     \<lparr>sdp_row_count = Suc (sdp_row_count p), sdp_proceeds = dadd (sdp_proceeds p) (row_proceeds r),
      sdp_cost_basis = dadd (sdp_cost_basis p) (row_cost_basis r),
      sdp_adjustment_amount = dadd (sdp_adjustment_amount p) (row_adjustment_amount r),
      sdp_gain_loss = dadd (sdp_gain_loss p) (row_gain_loss r)\<rparr>"

fun add_rows :: "Schedule1099BRow list \<Rightarrow> ScheduleDPartTotal \<times> ScheduleDPartTotal \<Rightarrow> ScheduleDPartTotal \<times> ScheduleDPartTotal" where
  "add_rows [] acc = acc"
| "add_rows (r # rs) (short, long) =
     add_rows rs (if row_term r = SHORT_TERM then (add_row short r, long) else (short, add_row long r))"

definition materialise :: "ScheduleDPartTotal \<Rightarrow> ScheduleDPartTotal option" where
  "materialise p =
     do {
       proceeds \<leftarrow> q2 (sdp_proceeds p);
       cost \<leftarrow> q2 (sdp_cost_basis p);
       adjustment \<leftarrow> q2 (sdp_adjustment_amount p);
       gl \<leftarrow> q2 (sdp_gain_loss p);
       Some \<lparr>sdp_row_count = sdp_row_count p, sdp_proceeds = proceeds, sdp_cost_basis = cost,
             sdp_adjustment_amount = adjustment, sdp_gain_loss = gl\<rparr>
     }"

definition summarize_schedule_d :: "Schedule1099BRow list \<Rightarrow> ScheduleDSummary option" where
  "summarize_schedule_d rows =
     (let (short, long) = add_rows rows (empty_part, empty_part) in
      do {
        short' \<leftarrow> materialise short;
        long' \<leftarrow> materialise long;
        net \<leftarrow> q2 (dadd (sdp_gain_loss short') (sdp_gain_loss long'));
        Some \<lparr>sd_short_term = short', sd_long_term = long', sd_net_gain_loss = net\<rparr>
      })"

definition DEDUCTIBLE_CAP_DEFAULT :: rat where "DEDUCTIBLE_CAP_DEFAULT = 3000"

record CapitalLossCarryover =
  clc_short_term :: rat
  clc_long_term :: rat

record CapitalLossApplication =
  cla_deduction :: rat
  cla_next :: CapitalLossCarryover

definition zero_carryover :: CapitalLossCarryover where
  "zero_carryover = \<lparr>clc_short_term = 0, clc_long_term = 0\<rparr>"

text \<open>The two legs that are carried: the short one absorbs the deduction first.\<close>

definition split_loss :: "rat \<Rightarrow> rat \<Rightarrow> rat \<Rightarrow> rat \<Rightarrow> rat \<Rightarrow> (rat \<times> rat) option" where
  "split_loss short_net long_net total_loss deduction remaining =
     (let short_loss = (if short_net < 0 then dneg short_net else 0);
          long_loss = (if long_net < 0 then dneg long_net else 0)
      in if dadd short_loss long_loss = total_loss
         then do {
           next_short \<leftarrow> q2 (max 0 (dsub short_loss deduction));
           rest \<leftarrow> q2 (dsub deduction (dsub short_loss next_short));
           next_long \<leftarrow> q2 (max 0 (dsub long_loss rest));
           Some (next_short, next_long) }
         else Some (if short_net < 0 then remaining else 0, if long_net < 0 then remaining else 0))"

definition carryover_of :: "rat \<Rightarrow> rat \<Rightarrow> rat \<Rightarrow> CapitalLossApplication option" where
  "carryover_of short_net long_net cap =
     do {
       combined \<leftarrow> q2 (dadd short_net long_net);
       if 0 \<le> combined then Some \<lparr>cla_deduction = 0, cla_next = zero_carryover\<rparr>
       else do {
         let total_loss = dneg combined;
         deduction \<leftarrow> q2 (min total_loss cap);
         remaining \<leftarrow> q2 (dsub total_loss deduction);
         (next_short, next_long) \<leftarrow> split_loss short_net long_net total_loss deduction remaining;
         next_short' \<leftarrow> q2 next_short;
         next_long' \<leftarrow> q2 next_long;
         Some \<lparr>cla_deduction = deduction, cla_next = \<lparr>clc_short_term = next_short', clc_long_term = next_long'\<rparr>\<rparr>
       }
     }"

definition apply_carryover ::
  "ScheduleDSummary \<Rightarrow> CapitalLossCarryover option \<Rightarrow> rat \<Rightarrow> tx_error + CapitalLossApplication" where
  "apply_carryover s prior cap =
     (let p = (case prior of None \<Rightarrow> zero_carryover | Some p \<Rightarrow> p) in
      if cap \<le> 0 then Inl CapNotPositive
      else if clc_short_term p < 0 \<or> clc_long_term p < 0 then Inl NegativePrior
      else or_invalid (carryover_of (dsub (sdp_gain_loss (sd_short_term s)) (clc_short_term p))
                                    (dsub (sdp_gain_loss (sd_long_term s)) (clc_long_term p)) cap))"

section \<open>Section 1256 contracts and straddles\<close>

definition CARRYBACK_YEARS :: nat where "CARRYBACK_YEARS = 3"

record PriorYearNetGain =
  py_year :: int
  py_net_gain :: rat

definition new_prior_year :: "int \<Rightarrow> rat \<Rightarrow> tx_error + PriorYearNetGain" where
  "new_prior_year y gain = (if gain < 0 then Inl NegativePriorGain else Inr \<lparr>py_year = y, py_net_gain = gain\<rparr>)"

record Section1256Carryback =
  cb_loss_absorbed :: rat
  cb_per_year :: "(int \<times> rat) list"
  cb_forward_carry :: rat

text \<open>The loop: what each year absorbs and what remains.\<close>

fun absorb_years :: "PriorYearNetGain list \<Rightarrow> rat \<Rightarrow> ((int \<times> rat) list \<times> rat) option" where
  "absorb_years [] remaining = Some ([], remaining)"
| "absorb_years (p # ps) remaining =
     (if remaining \<le> 0 then Some ([], remaining)
      else do {
        take_amt \<leftarrow> q2 (min remaining (py_net_gain p));
        if 0 < take_amt then do {
          remaining' \<leftarrow> q2 (dsub remaining take_amt);
          (per_year, left) \<leftarrow> absorb_years ps remaining';
          Some ((py_year p, take_amt) # per_year, left) }
        else absorb_years ps remaining
      })"

definition carryback_of :: "rat \<Rightarrow> PriorYearNetGain list \<Rightarrow> Section1256Carryback option" where
  "carryback_of net_loss prior_years =
     (let ys = sort_key py_year prior_years; eligible = drop (length ys - CARRYBACK_YEARS) ys in
      do {
        (per_year, remaining) \<leftarrow> absorb_years eligible net_loss;
        forward \<leftarrow> (if 0 < remaining then q2 remaining else Some 0);
        absorbed \<leftarrow> q2 (dsub net_loss remaining);
        Some \<lparr>cb_loss_absorbed = absorbed, cb_per_year = per_year, cb_forward_carry = forward\<rparr>
      })"

definition apply_section_1256_carryback :: "rat \<Rightarrow> PriorYearNetGain list \<Rightarrow> tx_error + Section1256Carryback" where
  "apply_section_1256_carryback net_loss prior_years =
     (if net_loss < 0 then Inl NegativeLoss
      else if net_loss = 0 then Inr \<lparr>cb_loss_absorbed = 0, cb_per_year = [], cb_forward_carry = 0\<rparr>
      else or_invalid (carryback_of net_loss prior_years))"

definition SHORT_TERM_PCT :: rat where "SHORT_TERM_PCT = 40 / 100"

record Form6781Summary =
  f6781_contract_count :: nat
  f6781_proceeds_total :: rat
  f6781_cost_total :: rat
  f6781_net_gain_loss :: rat
  f6781_short_term_amount :: rat
  f6781_long_term_amount :: rat

text \<open>A \<open>Section1256Contract\<close> has the fields and the checks of a disposal: \<open>closed_or_year_end\<close> is its
  \<open>td_disposed\<close>, \<open>proceeds_or_fmv\<close> its \<open>td_proceeds\<close>.\<close>

type_synonym Section1256Contract = TaxableDisposal

fun contract_totals :: "Section1256Contract list \<Rightarrow> rat \<times> rat \<times> rat \<Rightarrow> (rat \<times> rat \<times> rat) option" where
  "contract_totals [] acc = Some acc"
| "contract_totals (c # cs) (proceeds, cost, net) =
     do {
       delta \<leftarrow> gain_loss c;
       contract_totals cs (dadd proceeds (td_proceeds c), dadd cost (td_cost c), dadd net delta)
     }"

definition summarize_form6781 :: "Section1256Contract list \<Rightarrow> Form6781Summary option" where
  "summarize_form6781 cs =
     do {
       (proceeds, cost, net0) \<leftarrow> contract_totals cs (0, 0, 0);
       net \<leftarrow> q2 net0;
       short \<leftarrow> q2 (dmul net SHORT_TERM_PCT);
       long \<leftarrow> q2 (dsub net short);
       proceeds' \<leftarrow> q2 proceeds;
       cost' \<leftarrow> q2 cost;
       Some \<lparr>f6781_contract_count = length cs, f6781_proceeds_total = proceeds', f6781_cost_total = cost',
             f6781_net_gain_loss = net, f6781_short_term_amount = short, f6781_long_term_amount = long\<rparr>
     }"

record StraddleLeg =
  leg_description :: string
  leg_recognized_loss :: rat
  leg_offsetting_gain :: rat

definition new_leg :: "string \<Rightarrow> rat \<Rightarrow> rat \<Rightarrow> tx_error + StraddleLeg" where
  "new_leg description loss gain =
     (if loss < 0 then Inl NegativeLegLoss else if gain < 0 then Inl NegativeLegGain
      else Inr \<lparr>leg_description = description, leg_recognized_loss = loss, leg_offsetting_gain = gain\<rparr>)"

definition allowed_loss :: "StraddleLeg \<Rightarrow> rat option" where
  "allowed_loss l =
     (let delta = dsub (leg_recognized_loss l) (leg_offsetting_gain l) in if 0 < delta then q2 delta else Some 0)"

definition deferred_loss :: "StraddleLeg \<Rightarrow> rat option" where
  "deferred_loss l = do { allowed \<leftarrow> allowed_loss l; q2 (dsub (leg_recognized_loss l) allowed) }"

record Form6781PartIISummary =
  p2_leg_count :: nat
  p2_recognized_loss :: rat
  p2_offsetting_gain :: rat
  p2_allowed_loss :: rat
  p2_deferred_loss :: rat

fun leg_totals :: "StraddleLeg list \<Rightarrow> rat \<times> rat \<times> rat \<times> rat \<Rightarrow> (rat \<times> rat \<times> rat \<times> rat) option" where
  "leg_totals [] acc = Some acc"
| "leg_totals (l # ls) (loss, gain, allowed, deferred) =
     do {
       a \<leftarrow> allowed_loss l;
       d \<leftarrow> deferred_loss l;
       leg_totals ls (dadd loss (leg_recognized_loss l), dadd gain (leg_offsetting_gain l), dadd allowed a, dadd deferred d)
     }"

definition summarize_form6781_part_ii :: "StraddleLeg list \<Rightarrow> Form6781PartIISummary option" where
  "summarize_form6781_part_ii legs =
     do {
       (loss, gain, allowed, deferred) \<leftarrow> leg_totals legs (0, 0, 0, 0);
       loss' \<leftarrow> q2 loss;
       gain' \<leftarrow> q2 gain;
       allowed' \<leftarrow> q2 allowed;
       deferred' \<leftarrow> q2 deferred;
       Some \<lparr>p2_leg_count = length legs, p2_recognized_loss = loss', p2_offsetting_gain = gain',
             p2_allowed_loss = allowed', p2_deferred_loss = deferred'\<rparr>
     }"

text \<open>A \<open>YearEndPosition\<close> has those fields too: \<open>year_end\<close> is its \<open>td_disposed\<close>, \<open>year_end_fmv\<close> its
  \<open>td_proceeds\<close> and \<open>basis\<close> its \<open>td_cost\<close>.\<close>

type_synonym YearEndPosition = TaxableDisposal

definition unrecognized_gain :: "YearEndPosition \<Rightarrow> rat option" where
  "unrecognized_gain p = (let delta = dsub (td_proceeds p) (td_cost p) in if 0 < delta then q2 delta else Some 0)"

record Form6781PartIIISummary =
  p3_position_count :: nat
  p3_unrecognized_gain :: rat
  p3_positions :: "YearEndPosition list"

fun reportable :: "YearEndPosition list \<Rightarrow> YearEndPosition list option" where
  "reportable [] = Some []"
| "reportable (p # ps) =
     do { g \<leftarrow> unrecognized_gain p; rest \<leftarrow> reportable ps; Some (if 0 < g then p # rest else rest) }"

fun unrecognized_total :: "YearEndPosition list \<Rightarrow> rat \<Rightarrow> rat option" where
  "unrecognized_total [] acc = Some acc"
| "unrecognized_total (p # ps) acc = do { g \<leftarrow> unrecognized_gain p; unrecognized_total ps (dadd acc g) }"

definition summarize_form6781_part_iii :: "YearEndPosition list \<Rightarrow> Form6781PartIIISummary option" where
  "summarize_form6781_part_iii ps =
     do {
       rs \<leftarrow> reportable ps;
       let sorted_rs = sort_key td_acquired rs;
       total \<leftarrow> unrecognized_total sorted_rs 0;
       total' \<leftarrow> q2 total;
       Some \<lparr>p3_position_count = length sorted_rs, p3_unrecognized_gain = total', p3_positions = sorted_rs\<rparr>
     }"

section \<open>The dispatcher\<close>

text \<open>
  The prior carry-over of any jurisdiction and the report of each.  \<open>code.upper()\<close> is the ASCII one: no other
  letter becomes one of the four codes.  The keyword arguments of the US, GB and DE calculators keep their
  defaults.
\<close>

datatype JurisdictionSummary =
  US_Report ScheduleDSummary | GB_Report CgtSummary | DE_Report KestSummary | FR_Report PfuSummary

datatype JurisdictionCarryover =
  US_Prior CapitalLossCarryover | GB_Prior rat | DE_Prior KestCarryover | FR_Prior "PfuLossVintage list"

datatype CarryoverApplication =
  US_Applied CapitalLossApplication | GB_Applied CgtApplication | DE_Applied KestApplication | FR_Applied PfuApplication

definition py_upper :: "string \<Rightarrow> string" where
  "py_upper s = map (\<lambda>c. if lower_char c then char_of (of_char c - 32 :: nat) else c) s"

definition to_us :: "TaxableDisposal \<Rightarrow> LotDisposition" where
  "to_us d = \<lparr>ld_description = td_description d, ld_acquired = td_acquired d, ld_sold = td_disposed d,
              ld_proceeds = td_proceeds d, ld_cost_basis = td_cost d, ld_wash_sale_disallowed = 0, ld_lot_id = None\<rparr>"

definition to_de :: "TaxableDisposal \<Rightarrow> KestDisposal" where
  "to_de d = \<lparr>td_description = td_description d, td_acquired = td_acquired d, td_disposed = td_disposed d,
              td_proceeds = td_proceeds d, td_cost = td_cost d, kd_asset_class = ASSET_EQUITY\<rparr>"

definition schedule_d_of :: "TaxableDisposal list \<Rightarrow> ScheduleDSummary option" where
  "schedule_d_of ds = do { rows \<leftarrow> generate_1099b_rows (map to_us ds); summarize_schedule_d rows }"

definition report_for_jurisdiction :: "string \<Rightarrow> TaxableDisposal list \<Rightarrow> tx_error + JurisdictionSummary" where
  "report_for_jurisdiction code ds =
     (if py_upper code = ''US'' then map_sum id US_Report (or_invalid (schedule_d_of ds))
      else if py_upper code = ''GB'' then map_sum id GB_Report (summarize_cgt ds ANNUAL_EXEMPT_AMOUNT_2024_25)
      else if py_upper code = ''DE''
           then map_sum id DE_Report (summarize_kest (map to_de ds) SPARER_PAUSCHBETRAG_2024 None)
      else if py_upper code = ''FR'' then map_sum id FR_Report (or_invalid (summarize_pfu ds))
      else Inl (UnsupportedJurisdiction code))"

definition carryover_for_jurisdiction ::
  "string \<Rightarrow> TaxableDisposal list \<Rightarrow> JurisdictionCarryover option \<Rightarrow> int option \<Rightarrow> tx_error + CarryoverApplication" where
  "carryover_for_jurisdiction code ds prior current_year =
     (if py_upper code = ''US'' then
        (case (case prior of None \<Rightarrow> Inr None | Some (US_Prior p) \<Rightarrow> Inr (Some p) | _ \<Rightarrow> Inl WrongPriorType) of
           Inl e \<Rightarrow> Inl e
         | Inr p \<Rightarrow>
            (case schedule_d_of ds of None \<Rightarrow> Inl InvalidDecimal
             | Some s \<Rightarrow> map_sum id US_Applied (apply_carryover s p DEDUCTIBLE_CAP_DEFAULT)))
      else if py_upper code = ''GB'' then
        (case (case prior of None \<Rightarrow> Inr None | Some (GB_Prior p) \<Rightarrow> Inr (Some p) | _ \<Rightarrow> Inl WrongPriorType) of
           Inl e \<Rightarrow> Inl e
         | Inr p \<Rightarrow> map_sum id GB_Applied (apply_cgt_carryover ds p ANNUAL_EXEMPT_AMOUNT_2024_25))
      else if py_upper code = ''DE'' then
        (case (case prior of None \<Rightarrow> Inr None | Some (DE_Prior p) \<Rightarrow> Inr (Some p) | _ \<Rightarrow> Inl WrongPriorType) of
           Inl e \<Rightarrow> Inl e
         | Inr p \<Rightarrow> map_sum id DE_Applied (apply_kest_carryover (map to_de ds) p SPARER_PAUSCHBETRAG_2024 None))
      else if py_upper code = ''FR'' then
        (case (case prior of None \<Rightarrow> Inr None | Some (FR_Prior p) \<Rightarrow> Inr (Some p) | _ \<Rightarrow> Inl WrongPriorType) of
           Inl e \<Rightarrow> Inl e
         | Inr p \<Rightarrow>
            (case current_year of None \<Rightarrow> Inl YearRequired
             | Some y \<Rightarrow> map_sum id FR_Applied (or_invalid (apply_pfu_carryover ds p y))))
      else Inl (UnsupportedJurisdiction code))"

section \<open>Amounts in cents are exact\<close>

definition cents :: "rat \<Rightarrow> bool" where
  "cents x \<longleftrightarrow> of_int \<lfloor>x * 100\<rfloor> = x * 100"

lemma cents_iff: "cents x \<longleftrightarrow> (\<exists>n. x = of_int n / 100)"
proof
  assume "cents x"
  then have "x = of_int \<lfloor>x * 100\<rfloor> / 100" unfolding cents_def by linarith
  then show "\<exists>n. x = of_int n / 100" by blast
qed (auto simp: cents_def)

lemma cents_add [intro]: "cents x \<Longrightarrow> cents y \<Longrightarrow> cents (x + y)"
  unfolding cents_iff by (metis add_divide_distrib of_int_add)

lemma cents_uminus [intro]: "cents x \<Longrightarrow> cents (- x)"
  unfolding cents_iff by (metis minus_divide_left of_int_minus)

lemma cents_diff [intro]: "cents x \<Longrightarrow> cents y \<Longrightarrow> cents (x - y)"
  unfolding diff_conv_add_uminus by (intro cents_add cents_uminus)

lemma cents_0 [simp, intro]: "cents 0"
  by (simp add: cents_def)

lemma cents_min [intro]: "cents x \<Longrightarrow> cents y \<Longrightarrow> cents (min x y)"
  and cents_max [intro]: "cents x \<Longrightarrow> cents y \<Longrightarrow> cents (max x y)"
  by (simp_all add: min_def max_def)

lemma q2_cents: "q2 x = Some y \<Longrightarrow> cents y"
  unfolding q2_def cents_iff by (drule quantize_cases) auto

lemma q2_bound: "q2 x = Some y \<Longrightarrow> \<bar>y\<bar> < 10 ^ 26"
  unfolding q2_def by (drule quantize_cases) (auto simp: field_simps)

text \<open>An exact value that fits in 28 digits.\<close>

lemma dec28_cents: "cents x \<Longrightarrow> \<bar>x\<bar> \<le> 10 ^ 26 \<Longrightarrow> dec28 x = x"
proof -
  assume "cents x" and b: "\<bar>x\<bar> \<le> 10 ^ 26"
  then obtain n where x: "x = of_int n / 100" by (auto simp: cents_iff)
  have "\<bar>of_int n :: rat\<bar> \<le> of_int (10 ^ 28)" using b by (simp add: x)
  then have "\<bar>n\<bar> \<le> 10 ^ 28" by (simp only: of_int_abs [symmetric] of_int_le_iff)
  then show ?thesis using dec28_places [of n 2] by (simp add: x)
qed

lemma q2_exact: "cents x \<Longrightarrow> \<bar>x\<bar> < 10 ^ 26 \<Longrightarrow> q2 x = Some x"
proof -
  assume "cents x" and b: "\<bar>x\<bar> < 10 ^ 26"
  then obtain n where x: "x = of_int n / 100" by (auto simp: cents_iff)
  have "\<bar>of_int n :: rat\<bar> < of_int (10 ^ 28)" using b by (simp add: x)
  then have "\<bar>n\<bar> < 10 ^ 28" by (simp only: of_int_abs [symmetric] of_int_less_iff)
  then show ?thesis using quantize_places [of n 2] by (simp add: x q2_def)
qed

text \<open>When \<open>quantize\<close> succeeds on the rounded value of an amount in cents, nothing was rounded.\<close>

lemma q2_dec28: "q2 (dec28 x) = Some y \<Longrightarrow> cents x \<Longrightarrow> y = x"
proof -
  assume q: "q2 (dec28 x) = Some y" and c: "cents x"
  have top: "dec28 (10 ^ 26) = 10 ^ 26" "dec28 (- (10 ^ 26)) = - (10 ^ 26)"
    using dec28_int [of "10 ^ 26"] dec28_int [of "- (10 ^ 26)"] by simp_all
  have far: "10 ^ 28 \<le> \<bar>rhe (z * 10 ^ 2)\<bar>" if "10 ^ 26 \<le> \<bar>z\<bar>" for z :: rat
  proof (cases "0 \<le> z")
    case True
    then have "of_int (10 ^ 28) \<le> z * 10 ^ 2" using that by simp
    then have "10 ^ 28 \<le> rhe (z * 10 ^ 2)" by (metis rhe_mono rhe_of_int)
    then show ?thesis by linarith
  next
    case False
    then have "z * 10 ^ 2 \<le> of_int (- (10 ^ 28))" using that by simp
    then have "rhe (z * 10 ^ 2) \<le> - (10 ^ 28)" by (metis rhe_mono rhe_of_int)
    then show ?thesis by linarith
  qed
  have "\<bar>dec28 x\<bar> < 10 ^ 26"
    using q far [of "dec28 x"] by (auto simp: q2_def quantize_def Let_def split: if_splits intro: ccontr)
  then have "\<bar>x\<bar> < 10 ^ 26"
    using dec.mono [of "10 ^ 26" x] dec.mono [of x "- (10 ^ 26)"] top by (cases "0 \<le> x") (auto simp: not_le intro: ccontr)
  then show "y = x" using q dec28_cents [OF c] q2_exact [OF c] by simp
qed

lemma q2_sub: "q2 (dsub x y) = Some z \<Longrightarrow> cents x \<Longrightarrow> cents y \<Longrightarrow> z = x - y"
  and q2_add: "q2 (dadd x y) = Some z \<Longrightarrow> cents x \<Longrightarrow> cents y \<Longrightarrow> z = x + y"
  and q2_neg: "q2 (dneg x) = Some z \<Longrightarrow> cents x \<Longrightarrow> z = - x"
  unfolding dsub_def dadd_def dneg_def by (auto dest!: q2_dec28)

lemma q2_same: "q2 x = Some z \<Longrightarrow> cents x \<Longrightarrow> z = x"
  unfolding q2_def cents_iff by (auto simp: quantize_def Let_def split: if_splits)

section \<open>The totals of a year\<close>

text \<open>A disposal in cents, as the constructors accept it, and what the disposals of a year turn over.\<close>

definition booked :: "'b TaxableDisposal_scheme \<Rightarrow> bool" where
  "booked d \<longleftrightarrow> cents (td_proceeds d) \<and> cents (td_cost d) \<and> 0 \<le> td_proceeds d \<and> 0 \<le> td_cost d"

definition turnover :: "'b TaxableDisposal_scheme list \<Rightarrow> rat" where
  "turnover ds = sum_list (map (\<lambda>d. td_proceeds d + td_cost d) ds)"

definition result_of :: "'b TaxableDisposal_scheme \<Rightarrow> rat" where
  "result_of d = td_proceeds d - td_cost d"

lemma turnover_Cons [simp]: "turnover (d # ds) = td_proceeds d + td_cost d + turnover ds"
  and turnover_Nil [simp]: "turnover [] = 0"
  by (simp_all add: turnover_def)

lemma turnover_nonneg: "list_all booked ds \<Longrightarrow> 0 \<le> turnover ds"
  by (induction ds) (auto simp: booked_def)

lemma cents_result [intro]: "booked d \<Longrightarrow> cents (result_of d)"
  by (auto simp: booked_def result_of_def)

lemma result_le: "booked d \<Longrightarrow> \<bar>result_of d\<bar> \<le> td_proceeds d + td_cost d"
  unfolding booked_def result_of_def by linarith

lemma gain_loss_exact: "booked d \<Longrightarrow> td_proceeds d + td_cost d \<le> 10 ^ 25 \<Longrightarrow> gain_loss d = Some (result_of d)"
proof -
  assume b: "booked d" and le: "td_proceeds d + td_cost d \<le> 10 ^ 25"
  have "\<bar>result_of d\<bar> \<le> td_proceeds d + td_cost d" using b by (rule result_le)
  then have "\<bar>result_of d\<bar> < 10 ^ 26" using le by simp
  then show ?thesis
    using dec28_cents [OF cents_result, OF b] q2_exact [OF cents_result, OF b]
    by (simp add: gain_loss_def dsub_def result_of_def)
qed

lemma dadd_cents: "cents x \<Longrightarrow> cents y \<Longrightarrow> \<bar>x + y\<bar> \<le> 10 ^ 26 \<Longrightarrow> dadd x y = x + y"
  and dsub_cents: "cents x \<Longrightarrow> cents y \<Longrightarrow> \<bar>x - y\<bar> \<le> 10 ^ 26 \<Longrightarrow> dsub x y = x - y"
  and dneg_cents: "cents x \<Longrightarrow> \<bar>x\<bar> \<le> 10 ^ 26 \<Longrightarrow> dneg x = - x"
  by (auto simp: dadd_def dsub_def dneg_def intro!: dec28_cents)

lemma gross_totals_exact:
  "\<lbrakk>list_all booked ds; cents p; cents c; cents g; cents l; 0 \<le> p; 0 \<le> c; 0 \<le> g; 0 \<le> l;
    p + turnover ds \<le> 10 ^ 25; c + turnover ds \<le> 10 ^ 25; g + turnover ds \<le> 10 ^ 25; l + turnover ds \<le> 10 ^ 25\<rbrakk>
   \<Longrightarrow> gross_totals ds (p, c, g, l) =
     Some (p + sum_list (map td_proceeds ds), c + sum_list (map td_cost ds),
           g + sum_list (map (\<lambda>d. max 0 (result_of d)) ds), l + sum_list (map (\<lambda>d. max 0 (- result_of d)) ds))"
proof (induction ds arbitrary: p c g l)
  case (Cons d ds)
  have b: "booked d" "list_all booked ds" using Cons.prems(1) by simp_all
  note B = b(1) [unfolded booked_def]
  have T: "0 \<le> turnover ds" using b(2) by (rule turnover_nonneg)
  have R: "\<bar>result_of d\<bar> \<le> td_proceeds d + td_cost d" using b(1) by (rule result_le)
  have le: "td_proceeds d + td_cost d \<le> 10 ^ 25" using Cons.prems T by simp
  have R': "cents (result_of d)" "\<bar>result_of d\<bar> \<le> 10 ^ 26" using b(1) R le by (auto simp: abs_le_iff)
  have eq: "dadd p (td_proceeds d) = p + td_proceeds d" "dadd c (td_cost d) = c + td_cost d"
    using Cons.prems B T by (auto intro!: dadd_cents)
  have pos: "dadd g (result_of d) = g + result_of d" if "0 \<le> result_of d"
    using Cons.prems R R' that T by (auto intro!: dadd_cents)
  have neg: "dneg (result_of d) = - result_of d" using R' by (rule dneg_cents)
  have neg': "dadd l (- result_of d) = l - result_of d" if "\<not> 0 \<le> result_of d"
    using dadd_cents [of l "- result_of d"] Cons.prems R R' that T by auto
  have gl: "gain_loss d = Some (result_of d)" using b(1) le by (rule gain_loss_exact)
  show ?case
  proof (cases "0 \<le> result_of d")
    case True
    have "gross_totals (d # ds) (p, c, g, l) = gross_totals ds (p + td_proceeds d, c + td_cost d, g + result_of d, l)"
      using True by (simp add: gl eq pos)
    also have "\<dots> = Some (p + td_proceeds d + sum_list (map td_proceeds ds), c + td_cost d + sum_list (map td_cost ds),
        g + result_of d + sum_list (map (\<lambda>d. max 0 (result_of d)) ds), l + sum_list (map (\<lambda>d. max 0 (- result_of d)) ds))"
      using Cons.prems B R R' b True by (intro Cons.IH) (auto simp: abs_le_iff)
    finally show ?thesis using True by (simp add: add.assoc)
  next
    case False
    have "gross_totals (d # ds) (p, c, g, l) = gross_totals ds (p + td_proceeds d, c + td_cost d, g, l - result_of d)"
      using False by (simp add: gl eq neg neg')
    also have "\<dots> = Some (p + td_proceeds d + sum_list (map td_proceeds ds), c + td_cost d + sum_list (map td_cost ds),
        g + sum_list (map (\<lambda>d. max 0 (result_of d)) ds), l - result_of d + sum_list (map (\<lambda>d. max 0 (- result_of d)) ds))"
      using Cons.prems B R R' b False by (intro Cons.IH) (auto simp: abs_le_iff)
    finally show ?thesis using False by (simp add: algebra_simps)
  qed
qed simp

lemma sum_parts:
  "sum_list (map (\<lambda>d. max 0 (result_of d)) ds) - sum_list (map (\<lambda>d. max 0 (- result_of d)) ds) = sum_list (map result_of ds)"
  by (induction ds) (simp_all add: max_def)

lemma sum_gain_le: "list_all booked ds \<Longrightarrow> sum_list (map (\<lambda>d. max 0 (result_of d)) ds) \<le> turnover ds"
  and sum_loss_le: "list_all booked ds \<Longrightarrow> sum_list (map (\<lambda>d. max 0 (- result_of d)) ds) \<le> turnover ds"
proof (induction ds)
  case (Cons d ds)
  {
    case 1
    then show ?case using Cons result_le [of d] by (auto intro!: add_mono simp: booked_def)
  next
    case 2
    then show ?case using Cons result_le [of d] by (auto intro!: add_mono simp: booked_def)
  }
qed simp_all

lemma cents_sum_list [intro]: "(\<And>x. x \<in> set xs \<Longrightarrow> cents (f x)) \<Longrightarrow> cents (sum_list (map f xs))"
  by (induction xs) auto

text \<open>The totals of a year that turns over at most ten to the twenty-fifth.\<close>

definition year_ok :: "'b TaxableDisposal_scheme list \<Rightarrow> bool" where
  "year_ok ds \<longleftrightarrow> list_all booked ds \<and> turnover ds \<le> 10 ^ 25"

lemma year_result: "year_ok ds \<Longrightarrow> cents (sum_list (map result_of ds)) \<and> \<bar>sum_list (map result_of ds)\<bar> \<le> turnover ds"
  unfolding year_ok_def
proof (intro conjI)
  assume y: "list_all booked ds \<and> turnover ds \<le> 10 ^ 25"
  show "cents (sum_list (map result_of ds))" using y by (intro cents_sum_list cents_result) (auto simp: list_all_iff)
  have "list_all booked ds \<Longrightarrow> \<bar>sum_list (map result_of ds)\<bar> \<le> turnover ds"
  proof (induction ds)
    case (Cons d ds)
    then show ?case using result_le [of d] abs_triangle_ineq [of "result_of d" "sum_list (map result_of ds)"] by simp
  qed simp
  then show "\<bar>sum_list (map result_of ds)\<bar> \<le> turnover ds" using y by simp
qed

lemma gross_totals_year:
  assumes "year_ok ds"
  shows "\<exists>g l. gross_totals ds (0, 0, 0, 0) = Some (sum_list (map td_proceeds ds), sum_list (map td_cost ds), g, l)
    \<and> dsub g l = sum_list (map result_of ds)"
proof -
  define g where "g = sum_list (map (\<lambda>d. max 0 (result_of d)) ds)"
  define l where "l = sum_list (map (\<lambda>d. max 0 (- result_of d)) ds)"
  have b: "list_all booked ds" "turnover ds \<le> 10 ^ 25" using assms by (simp_all add: year_ok_def)
  have eq: "g - l = sum_list (map result_of ds)" unfolding g_def l_def by (rule sum_parts)
  have "dsub g l = g - l"
    using year_result [OF assms] b(2) unfolding dsub_def eq by (intro dec28_cents) auto
  then show ?thesis using gross_totals_exact [of ds 0 0 0 0] b by (simp add: g_def l_def sum_parts)
qed

lemma totals_q2:
  assumes "year_ok ds"
  shows "q2 (sum_list (map td_proceeds ds)) = Some (sum_list (map td_proceeds ds))"
    and "q2 (sum_list (map td_cost ds)) = Some (sum_list (map td_cost ds))"
    and "q2 (sum_list (map result_of ds)) = Some (sum_list (map result_of ds))"
proof -
  have "list_all booked ds \<Longrightarrow> cents (sum_list (map td_proceeds ds)) \<and> cents (sum_list (map td_cost ds))
      \<and> 0 \<le> sum_list (map td_proceeds ds) \<and> 0 \<le> sum_list (map td_cost ds)
      \<and> sum_list (map td_proceeds ds) + sum_list (map td_cost ds) = turnover ds"
    by (induction ds) (auto simp: booked_def)
  then show "q2 (sum_list (map td_proceeds ds)) = Some (sum_list (map td_proceeds ds))"
    "q2 (sum_list (map td_cost ds)) = Some (sum_list (map td_cost ds))"
    using assms by (auto simp: year_ok_def intro!: q2_exact)
  show "q2 (sum_list (map result_of ds)) = Some (sum_list (map result_of ds))"
    using year_result [OF assms] assms by (auto simp: year_ok_def intro!: q2_exact)
qed

section \<open>United Kingdom: no loss is used twice and none is lost\<close>

lemma cgt_totals_exact:
  assumes "year_ok ds" "0 \<le> exempt" "cents exempt"
  shows "cgt_totals ds exempt = Some \<lparr>cgt_disposal_count = length ds,
    cgt_proceeds_total = sum_list (map td_proceeds ds), cgt_cost_total = sum_list (map td_cost ds),
    cgt_net_gain = max 0 (sum_list (map result_of ds)), cgt_net_loss = max 0 (- sum_list (map result_of ds)),
    cgt_exempt_used = min (max 0 (sum_list (map result_of ds))) exempt,
    cgt_taxable_gain = max 0 (max 0 (sum_list (map result_of ds)) - exempt)\<rparr>"
proof -
  let ?r = "sum_list (map result_of ds)"
  define n where "n = max 0 ?r"
  have r: "cents ?r" "\<bar>?r\<bar> \<le> 10 ^ 25" using year_result [OF assms(1)] assms(1) by (auto simp: year_ok_def)
  obtain g l where t: "gross_totals ds (0, 0, 0, 0) = Some (sum_list (map td_proceeds ds), sum_list (map td_cost ds), g, l)"
    "dsub g l = ?r" using gross_totals_year [OF assms(1)] by blast
  have n: "cents n" "0 \<le> n" "n \<le> 10 ^ 25" using r by (auto simp: n_def abs_le_iff)
  have neg: "dneg ?r = - ?r" "q2 (- ?r) = Some (- ?r)" using r by (auto intro!: dneg_cents q2_exact)
  have u: "q2 (min n exempt) = Some (min n exempt)" using n assms by (auto intro!: q2_exact)
  have d: "dsub n (min n exempt) = n - min n exempt" using n assms by (auto intro!: dsub_cents)
  have x: "q2 (n - min n exempt) = Some (max 0 (n - exempt))"
    using n assms q2_exact [of "n - min n exempt"] cents_diff [of n exempt] by (auto simp: min_def max_def)
  show ?thesis
    using t totals_q2 [OF assms(1)] neg u d x
    by (cases "0 < ?r") (auto simp: cgt_totals_def n_def max_def Let_def)
qed


text \<open>
  The United Kingdom's carry-forward of losses, for a year booked in pence that turns over at most ten to
  the twenty-fifth, succeeds and conserves the loss: what the year uses of the prior loss and what it passes on are
  together the prior loss and the loss of the year; the gain of the year is the exemption used, the prior loss used
  and what is taxed; gain less loss is the sum of the disposals' results; and a prior loss is used only when
  the exemption is exhausted, and survives only when nothing is left to tax.\<close>

theorem cgt_loss_conserved:
  assumes "year_ok ds" "cents prior" "0 \<le> prior" "prior \<le> 10 ^ 25" "cents exempt" "0 \<le> exempt"
  shows "case apply_cgt_carryover ds (Some prior) exempt of Inl _ \<Rightarrow> False
    | Inr r \<Rightarrow> cga_loss_used r + cga_next_loss r = prior + cgt_net_loss (cga_summary r)
        \<and> cgt_exempt_used (cga_summary r) + cga_loss_used r + cga_taxable_gain r = cgt_net_gain (cga_summary r)
        \<and> cgt_net_gain (cga_summary r) - cgt_net_loss (cga_summary r) = sum_list (map result_of ds)
        \<and> 0 \<le> cga_loss_used r \<and> 0 \<le> cga_taxable_gain r \<and> 0 \<le> cga_next_loss r
        \<and> (cga_loss_used r = 0 \<or> cgt_exempt_used (cga_summary r) = exempt)
        \<and> (cga_taxable_gain r = 0 \<or> cga_loss_used r = prior)"
proof -
  let ?r = "sum_list (map result_of ds)"
  define n where "n = max 0 ?r"
  define l where "l = max 0 (- ?r)"
  define t where "t = max 0 (n - exempt)"
  have r: "cents ?r" "\<bar>?r\<bar> \<le> 10 ^ 25" using year_result [OF assms(1)] assms(1) by (auto simp: year_ok_def)
  have n: "cents n" "0 \<le> n" "n \<le> 10 ^ 25" "cents l" "0 \<le> l" "l \<le> 10 ^ 25" "n - l = ?r"
    using r by (auto simp: n_def l_def abs_le_iff)
  have t: "cents t" "0 \<le> t" "t \<le> 10 ^ 25" using n assms by (auto simp: t_def)
  define u where "u = min prior t"
  have u: "cents u" "0 \<le> u" "u \<le> prior" "u \<le> t" using t assms by (auto simp: u_def)
  have q: "q2 u = Some u" "dsub prior u = prior - u" "q2 (prior - u) = Some (prior - u)"
      "dsub t u = t - u" "q2 (t - u) = Some (t - u)" "dadd (prior - u) l = prior - u + l" "q2 (prior - u + l) = Some (prior - u + l)"
    using u t n assms by (auto intro!: q2_exact dsub_cents dadd_cents)
  show ?thesis
    using assms q n u cgt_totals_exact [OF assms(1,6,5), folded n_def, folded t_def l_def]
    by (simp add: apply_cgt_carryover_def cgt_apply_def or_invalid_def u_def [symmetric])
       (auto simp: t_def u_def min_def max_def split: if_splits)
qed


definition a_year :: "TaxableDisposal list" where
  "a_year =
     [\<lparr>td_description = ''ten shares'', td_acquired = 738000, td_disposed = 738900, td_proceeds = 12000 + 1 / 2, td_cost = 4000\<rparr>,
      \<lparr>td_description = ''two shares'', td_acquired = 738800, td_disposed = 738950, td_proceeds = 500, td_cost = 1500\<rparr>]"

lemma a_year_ok: "year_ok a_year" "sum_list (map result_of a_year) = 7000 + 1 / 2"
  by (simp_all add: a_year_def year_ok_def booked_def turnover_def cents_def result_of_def)

section \<open>France: the oldest loss first\<close>

lemma q2_defined:
  assumes b: "\<bar>x\<bar> \<le> of_int B" and B: "0 \<le> B" "B \<le> 5 * 10 ^ 25"
  shows "\<exists>y. q2 (dec28 x) = Some y \<and> \<bar>y\<bar> \<le> of_int B"
proof -
  have top: "dec28 (of_int B) = of_int B" "dec28 (- of_int B) = - of_int B"
    using dec28_int [of B] dec28_int [of "- B"] B by simp_all
  have m: "- of_int B \<le> dec28 x" "dec28 x \<le> of_int B"
    using dec.mono [of "- of_int B" x] dec.mono [of x "of_int B"] b top by (auto simp: abs_le_iff)
  let ?m = "rhe (dec28 x * 10 ^ 2)"
  have "of_int (- B * 100) \<le> dec28 x * 10 ^ 2" "dec28 x * 10 ^ 2 \<le> of_int (B * 100)" using m by simp_all
  then have r: "- B * 100 \<le> ?m" "?m \<le> B * 100" by (metis rhe_mono rhe_of_int)+
  then have "\<not> 10 ^ 28 \<le> \<bar>?m\<bar>" using B by simp
  then have "q2 (dec28 x) = Some (of_int ?m / 10 ^ 2)" by (simp add: q2_def quantize_def Let_def)
  moreover have "\<bar>?m\<bar> \<le> B * 100" using r by simp
  then have "\<bar>of_int ?m :: rat\<bar> \<le> of_int (B * 100)" by (simp only: of_int_abs [symmetric] of_int_le_iff)
  then have "\<bar>of_int ?m / 10 ^ 2 :: rat\<bar> \<le> of_int B" by simp
  ultimately show ?thesis by blast
qed

lemma pfu_taxes_defined: "\<bar>base\<bar> \<le> 10 ^ 26 \<Longrightarrow> \<exists>t. pfu_taxes base = Some t"
proof -
  assume b: "\<bar>base\<bar> \<le> 10 ^ 26"
  have "\<bar>base * PFU_INCOME_TAX_RATE\<bar> \<le> of_int (2 * 10 ^ 25)" "\<bar>base * PFU_SOCIAL_CHARGES_RATE\<bar> \<le> of_int (2 * 10 ^ 25)"
    using b by (simp_all add: PFU_INCOME_TAX_RATE_def PFU_SOCIAL_CHARGES_RATE_def abs_mult)
  note this [THEN q2_defined]
  then obtain i s where i: "q2 (dmul base PFU_INCOME_TAX_RATE) = Some i" "\<bar>i\<bar> \<le> 2 * 10 ^ 25"
    and s: "q2 (dmul base PFU_SOCIAL_CHARGES_RATE) = Some s" "\<bar>s\<bar> \<le> 2 * 10 ^ 25"
    unfolding dmul_def by auto
  have "\<bar>i + s\<bar> \<le> of_int (5 * 10 ^ 25)" using i(2) s(2) abs_triangle_ineq [of i s] by simp
  from q2_defined [OF this] obtain t where "q2 (dadd i s) = Some t" unfolding dadd_def by auto
  with i s show ?thesis by (auto simp: pfu_taxes_def)
qed

definition vintage_ok :: "PfuLossVintage \<Rightarrow> bool" where
  "vintage_ok v \<longleftrightarrow> cents (vin_amount v) \<and> 0 < vin_amount v \<and> vin_amount v \<le> 10 ^ 25"

definition losses :: "PfuLossVintage list \<Rightarrow> rat" where
  "losses vs = sum_list (map vin_amount vs)"

lemma losses_simps [simp]: "losses [] = 0" "losses (v # vs) = vin_amount v + losses vs" "losses (vs @ ws) = losses vs + losses ws"
  by (simp_all add: losses_def)

lemma losses_nonneg: "list_all vintage_ok vs \<Longrightarrow> 0 \<le> losses vs"
  by (induction vs) (auto simp: vintage_ok_def)

lemma cents_losses: "list_all vintage_ok vs \<Longrightarrow> cents (losses vs)"
  by (induction vs) (auto simp: vintage_ok_def [of "_ :: PfuLossVintage"])

text \<open>What a gain leaves of the losses, exactly: the oldest ones go first.\<close>

fun spend :: "rat \<Rightarrow> PfuLossVintage list \<Rightarrow> PfuLossVintage list" where
  "spend g [] = []"
| "spend g (v # vs) = (if vin_amount v \<le> g then spend (g - vin_amount v) vs else v\<lparr>vin_amount := vin_amount v - g\<rparr> # vs)"

lemma spend_0: "list_all vintage_ok vs \<Longrightarrow> spend 0 vs = vs"
  by (cases vs) (auto simp: vintage_ok_def)

lemma spend_losses: "list_all vintage_ok vs \<Longrightarrow> 0 \<le> g \<Longrightarrow> losses (spend g vs) = losses vs - min g (losses vs)"
proof (induction vs arbitrary: g)
  case (Cons v vs)
  then show ?case using losses_nonneg [of vs] by (auto simp: min_def vintage_ok_def [of v])
qed simp

lemma spend_ok: "list_all vintage_ok vs \<Longrightarrow> 0 \<le> g \<Longrightarrow> cents g \<Longrightarrow> list_all vintage_ok (spend g vs)"
proof (induction vs arbitrary: g)
  case (Cons v vs)
  then show ?case using cents_diff [of g "vin_amount v"] cents_diff [of "vin_amount v" g]
    by (auto simp: vintage_ok_def [of v] vintage_ok_def [of "v\<lparr>vin_amount := _\<rparr>"])
qed simp

lemma spend_years: "set (map vin_year (spend g vs)) \<subseteq> set (map vin_year vs)"
  by (induction vs arbitrary: g) (force split: if_splits)+

lemma absorb_done: "absorb vs 0 u = Some (vs, u)"
  by (induction vs) auto

lemma absorb_exact:
  "\<lbrakk>list_all vintage_ok vs; cents gain; 0 \<le> gain; cents used; 0 \<le> used; gain + used \<le> 10 ^ 25\<rbrakk>
   \<Longrightarrow> absorb vs gain used = Some (spend gain vs, used + min gain (losses vs))"
proof (induction vs arbitrary: gain used)
  case Nil
  then show ?case by simp
next
  case (Cons v vs)
  have v: "cents (vin_amount v)" "0 < vin_amount v" "vin_amount v \<le> 10 ^ 25" and vs: "list_all vintage_ok vs"
    using Cons.prems(1) by (simp_all add: vintage_ok_def [of v])
  have L: "0 \<le> losses vs" using vs by (rule losses_nonneg)
  show ?case
  proof (cases "gain = 0")
    case True
    then show ?thesis using absorb_done [of "v # vs" used] v L Cons.prems(1) spend_0 [of "v # vs"] by simp
  next
    case False
    define m where "m = min gain (vin_amount v)"
    have m: "cents m" "0 < m" "m \<le> gain" "m \<le> vin_amount v" using False v Cons.prems(2,3) by (auto simp: m_def)
    have q: "q2 m = Some m" "dsub (vin_amount v) m = vin_amount v - m" "q2 (vin_amount v - m) = Some (vin_amount v - m)"
        "dsub gain m = gain - m" "q2 (gain - m) = Some (gain - m)" "dadd used m = used + m"
      using m v Cons.prems by (auto intro!: q2_exact dsub_cents dadd_cents)
    have r: "absorb vs (gain - m) (used + m) = Some (spend (gain - m) vs, used + m + min (gain - m) (losses vs))"
      using Cons.prems vs m by (intro Cons.IH) auto
    have g: "\<not> gain \<le> 0" using False Cons.prems(3) by simp
    have step: "absorb (v # vs) gain used =
        Some (if 0 < vin_amount v - m then v\<lparr>vin_amount := vin_amount v - m\<rparr> # spend (gain - m) vs else spend (gain - m) vs,
              used + m + min (gain - m) (losses vs))"
      using g q r by (simp add: m_def [symmetric])
    show ?thesis
    proof (cases "vin_amount v \<le> gain")
      case True
      then show ?thesis using step L by (simp add: m_def min_def)
    next
      case le: False
      then show ?thesis using step L v spend_0 [OF vs] by (simp add: m_def min_def)
    qed
  qed
qed


lemma summarize_pfu_exact:
  assumes "year_ok ds"
  shows "\<exists>s. summarize_pfu ds = Some s \<and> pfu_net_gain s = max 0 (sum_list (map result_of ds))
    \<and> pfu_net_loss s = max 0 (- sum_list (map result_of ds))"
proof -
  let ?r = "sum_list (map result_of ds)"
  define n where "n = max 0 ?r"
  have r: "cents ?r" "\<bar>?r\<bar> \<le> 10 ^ 25" using year_result [OF assms(1)] assms(1) by (auto simp: year_ok_def)
  obtain g l where t: "gross_totals ds (0, 0, 0, 0) = Some (sum_list (map td_proceeds ds), sum_list (map td_cost ds), g, l)"
    "dsub g l = ?r" using gross_totals_year [OF assms(1)] by blast
  have n: "\<bar>n\<bar> \<le> 10 ^ 26" using r by (auto simp: n_def abs_le_iff)
  then obtain i s u where x: "pfu_taxes n = Some (i, s, u)" using pfu_taxes_defined by force
  have neg: "dneg ?r = - ?r" "q2 (- ?r) = Some (- ?r)" using r by (auto intro!: dneg_cents q2_exact)
  show ?thesis
    using t totals_q2 [OF assms(1)] neg x
    by (cases "0 < ?r") (auto simp: summarize_pfu_def n_def max_def Let_def split: if_splits)
qed

text \<open>A prior record as \<open>PfuLossVintage\<close> accepts it, and what a year carries forward of it.\<close>

definition vintage_valid :: "PfuLossVintage \<Rightarrow> bool" where
  "vintage_valid v \<longleftrightarrow> cents (vin_amount v) \<and> 0 \<le> vin_amount v \<and> vin_amount v \<le> 10 ^ 25"

lemma normalised_ok: "list_all vintage_valid vs \<Longrightarrow> list_all vintage_ok (normalised vs)"
  by (auto simp: normalised_def list_all_iff vintage_valid_def vintage_ok_def)

lemma losses_sort: "losses (sort_key f vs) = losses vs"
proof -
  have "mset (map vin_amount (sort_key f vs)) = mset (map vin_amount vs)" by simp
  then show ?thesis unfolding losses_def by (metis sum_mset_sum_list)
qed

lemma losses_normalised: "list_all vintage_valid vs \<Longrightarrow> losses (normalised vs) = losses vs"
  unfolding normalised_def losses_sort by (induction vs) (auto simp: vintage_valid_def [of "_ :: PfuLossVintage"])

lemma losses_positive: "list_all vintage_ok vs \<Longrightarrow> losses (normalised vs) = losses vs"
  unfolding normalised_def losses_sort by (induction vs) (auto simp: vintage_ok_def [of "_ :: PfuLossVintage"])

lemma losses_filter: "losses (filter P vs) + losses (filter (\<lambda>v. \<not> P v) vs) = losses vs"
  by (induction vs) auto

definition unexpired :: "int \<Rightarrow> PfuLossVintage list \<Rightarrow> PfuLossVintage list" where
  "unexpired y prior = filter (\<lambda>v. \<not> expired_in y v) (normalised prior)"

definition new_losses :: "int \<Rightarrow> rat \<Rightarrow> PfuLossVintage list" where
  "new_losses y loss = (if 0 < loss then [\<lparr>vin_year = y, vin_amount = loss\<rparr>] else [])"

lemma normalised_years: "set (map vin_year (normalised vs)) \<subseteq> set (map vin_year vs)"
  by (auto simp: normalised_def)

lemma normalised_Nil: "list_all vintage_ok vs \<Longrightarrow> losses vs = 0 \<Longrightarrow> vs = []"
proof (cases vs)
  case (Cons v ws)
  moreover assume "list_all vintage_ok vs" "losses vs = 0"
  ultimately show ?thesis using losses_nonneg [of ws] by (simp add: vintage_ok_def [of v])
qed simp

lemma pfu_exact:
  fixes y :: int
  assumes "year_ok ds" "list_all vintage_valid prior"
  defines "n \<equiv> max 0 (sum_list (map result_of ds))" and "l \<equiv> max 0 (- sum_list (map result_of ds))"
    and "used \<equiv> min (max 0 (sum_list (map result_of ds))) (losses (unexpired y prior))"
  shows "\<exists>r. apply_pfu_carryover ds (Some prior) y = Some r \<and> pfu_net_gain (pfa_summary r) = n
    \<and> pfu_net_loss (pfa_summary r) = l \<and> pfa_loss_used r = used \<and> pfa_taxable_gain r = n - used
    \<and> pfa_next r = normalised (spend n (unexpired y prior) @ new_losses y l)
    \<and> pfa_expired r = filter (expired_in y) (normalised prior)"
proof -
  let ?r = "sum_list (map result_of ds)"
  have r: "cents ?r" "\<bar>?r\<bar> \<le> 10 ^ 25" using year_result [OF assms(1)] assms(1) by (auto simp: year_ok_def)
  have n: "cents n" "0 \<le> n" "n \<le> 10 ^ 25" using r by (auto simp: n_def abs_le_iff)
  have K: "list_all vintage_ok (unexpired y prior)"
    using normalised_ok [OF assms(2)] by (auto simp: unexpired_def list_all_iff)
  have L: "0 \<le> losses (unexpired y prior)" "cents (losses (unexpired y prior))"
    using K by (rule losses_nonneg, rule cents_losses)
  have u: "cents used" "0 \<le> used" "used \<le> n" using n L by (auto simp: used_def n_def)
  obtain s where s: "summarize_pfu ds = Some s" "pfu_net_gain s = n" "pfu_net_loss s = l"
    using summarize_pfu_exact [OF assms(1)] by (auto simp: n_def l_def)
  have q: "dsub n used = n - used" "q2 (n - used) = Some (n - used)" "q2 used = Some used"
    using n u by (auto intro!: dsub_cents q2_exact)
  have "\<bar>n - used\<bar> \<le> 10 ^ 26" using n u by simp
  then obtain i c t where x: "pfu_taxes (n - used) = Some (i, c, t)" using pfu_taxes_defined by force
  have gain: "absorb (unexpired y prior) n 0 = Some (spend n (unexpired y prior), used)"
    using absorb_exact [OF K n(1,2), of 0] n by (simp add: used_def n_def)
  have flat: "used = 0 \<and> spend n (unexpired y prior) = unexpired y prior" if "\<not> 0 < n"
    using that n(2) L spend_0 [OF K] by (simp add: used_def n_def [symmetric])
  have lossless: "l = 0" if "0 < n" using that by (simp add: n_def l_def)
  show ?thesis
  proof (cases "0 < n")
    case True
    then show ?thesis using s q x gain lossless [OF True]
      by (simp add: apply_pfu_carryover_def Let_def unexpired_def [symmetric] new_losses_def)
  next
    case False
    then show ?thesis using s q x flat [OF False]
      by (simp add: apply_pfu_carryover_def Let_def unexpired_def [symmetric] new_losses_def)
  qed
qed

text \<open>
  France's loss vintages: for a year in cents that turns over at most ten to the twenty-fifth the
  carry-over succeeds and conserves the losses.  What the year uses, what it passes on and what expires are together
  the prior losses and the loss of the year; the taxable gain is the gain of the year less what was used; the
  gain spends the unexpired losses oldest first, exactly; a gain is taxed only when no loss is left; and nothing that is
  passed on has reached its tenth year.\<close>

theorem pfu_losses_conserved:
  assumes "year_ok ds" "list_all vintage_valid prior"
  shows "case apply_pfu_carryover ds (Some prior) y of None \<Rightarrow> False
    | Some r \<Rightarrow> pfa_loss_used r + losses (pfa_next r) + losses (pfa_expired r) = losses prior + pfu_net_loss (pfa_summary r)
        \<and> pfa_taxable_gain r + pfa_loss_used r = pfu_net_gain (pfa_summary r)
        \<and> pfu_net_gain (pfa_summary r) - pfu_net_loss (pfa_summary r) = sum_list (map result_of ds)
        \<and> pfa_next r = normalised (spend (pfu_net_gain (pfa_summary r)) (unexpired y prior)
                                  @ new_losses y (pfu_net_loss (pfa_summary r)))
        \<and> (pfa_taxable_gain r = 0 \<or> pfa_next r = []) \<and> list_all (\<lambda>v. \<not> expired_in y v) (pfa_next r)"
proof -
  let ?r = "sum_list (map result_of ds)"
  define n where "n = max 0 ?r"
  define l where "l = max 0 (- ?r)"
  define k where "k = unexpired y prior"
  obtain r where r: "apply_pfu_carryover ds (Some prior) y = Some r" "pfu_net_gain (pfa_summary r) = n"
    "pfu_net_loss (pfa_summary r) = l" "pfa_loss_used r = min n (losses k)" "pfa_taxable_gain r = n - min n (losses k)"
    "pfa_next r = normalised (spend n k @ new_losses y l)" "pfa_expired r = filter (expired_in y) (normalised prior)"
    using pfu_exact [OF assms, of y] unfolding n_def l_def k_def by blast
  have res: "cents ?r" "\<bar>?r\<bar> \<le> 10 ^ 25" using year_result [OF assms(1)] assms(1) by (auto simp: year_ok_def)
  have n: "cents n" "0 \<le> n" "cents l" "0 \<le> l" "l \<le> 10 ^ 25" "n - l = ?r" "0 < n \<Longrightarrow> l = 0"
    using res by (auto simp: n_def l_def abs_le_iff)
  have K: "list_all vintage_ok k"
    using normalised_ok [OF assms(2)] by (auto simp: k_def unexpired_def list_all_iff)
  have S: "list_all vintage_ok (spend n k)" using K n by (intro spend_ok)
  have W: "list_all vintage_ok (new_losses y l)" using n by (simp add: new_losses_def vintage_ok_def)
  have "losses (pfa_expired r) + losses k = losses prior"
    using losses_filter [of "expired_in y" "normalised prior"] losses_normalised [OF assms(2)]
    by (simp add: r(7) k_def unexpired_def)
  moreover have N: "losses (pfa_next r) = losses k - min n (losses k) + l"
    using losses_positive [of "spend n k @ new_losses y l"] S W spend_losses [OF K n(2)] n(4)
    by (simp add: r(6) new_losses_def)
  moreover have E: "pfa_next r = []" if "n - min n (losses k) \<noteq> 0"
  proof -
    have lt: "losses k < n" using that by (auto simp: min_def split: if_splits)
    then have "losses (spend n k) = 0" using spend_losses [OF K n(2)] by simp
    then have "spend n k = []" using S by (rule normalised_Nil [rotated])
    moreover have "0 < n" using lt losses_nonneg [OF K] by simp
    then have "new_losses y l = []" using n(7) by (simp add: new_losses_def)
    ultimately show ?thesis by (simp add: r(6) normalised_def)
  qed
  moreover have "pfa_taxable_gain r = 0 \<or> pfa_next r = []"
    using E r(5) by (cases "n - min n (losses k) = 0") simp_all
  moreover have "list_all (\<lambda>v. \<not> expired_in y v) (pfa_next r)"
  proof -
    have "set (map vin_year (new_losses y l)) \<subseteq> {y}" by (auto simp: new_losses_def)
    then have "set (map vin_year (spend n k @ new_losses y l)) \<subseteq> set (map vin_year k) \<union> {y}"
      unfolding map_append set_append by (rule Un_mono [OF spend_years])
    then have "set (map vin_year (pfa_next r)) \<subseteq> set (map vin_year k) \<union> {y}"
      unfolding r(6) by (rule subset_trans [OF normalised_years])
    moreover have "y - z < 10" if "z \<in> set (map vin_year k) \<union> {y}" for z
      using that by (auto simp: k_def unexpired_def expired_in_def CARRY_FORWARD_YEARS_def)
    ultimately show ?thesis by (force simp: list_all_iff expired_in_def CARRY_FORWARD_YEARS_def)
  qed
  ultimately show ?thesis using r n(6) by (simp add: k_def)
qed

section \<open>United States\<close>

text \<open>The legs of a year and of its prior record, in cents.\<close>

definition legs_ok :: "ScheduleDSummary \<Rightarrow> CapitalLossCarryover \<Rightarrow> bool" where
  "legs_ok s p \<longleftrightarrow> cents (sdp_gain_loss (sd_short_term s)) \<and> cents (sdp_gain_loss (sd_long_term s))
     \<and> \<bar>sdp_gain_loss (sd_short_term s)\<bar> \<le> 10 ^ 25 \<and> \<bar>sdp_gain_loss (sd_long_term s)\<bar> \<le> 10 ^ 25
     \<and> cents (clc_short_term p) \<and> cents (clc_long_term p) \<and> 0 \<le> clc_short_term p \<and> 0 \<le> clc_long_term p
     \<and> clc_short_term p \<le> 10 ^ 25 \<and> clc_long_term p \<le> 10 ^ 25"

lemma carryover_of_exact:
  assumes c: "cents sn" "cents gn" "cents cap" and b: "\<bar>sn\<bar> \<le> 2 * 10 ^ 25" "\<bar>gn\<bar> \<le> 2 * 10 ^ 25" and cap: "0 < cap"
  defines "t \<equiv> max 0 (- (sn + gn))"
  shows "carryover_of sn gn cap = Some \<lparr>cla_deduction = min t cap,
     cla_next = \<lparr>clc_short_term = max 0 (min (max 0 (- sn)) t - min t cap),
                 clc_long_term = t - min t cap - max 0 (min (max 0 (- sn)) t - min t cap)\<rparr>\<rparr>"
proof -
  have sum: "cents (sn + gn)" "\<bar>sn + gn\<bar> \<le> 4 * 10 ^ 25" using c b abs_triangle_ineq [of sn gn] by auto
  have add: "dadd sn gn = sn + gn" "q2 (sn + gn) = Some (sn + gn)" using sum c by (auto intro!: dadd_cents q2_exact)
  show ?thesis
  proof (cases "0 \<le> sn + gn")
    case True
    then show ?thesis using add cap by (simp add: carryover_of_def t_def zero_carryover_def max_def min_def)
  next
    case False
    have t: "t = - (sn + gn)" "cents t" "0 < t" "t \<le> 4 * 10 ^ 25"
      using False sum cents_uminus [OF sum(1)] by (auto simp: t_def abs_le_iff)
    have neg: "dneg (sn + gn) = t" "dneg sn = - sn" "dneg gn = - gn" using sum c b t by (auto simp: dneg_cents)
    define d where "d = min t cap"
    have d: "cents d" "0 < d" "d \<le> t" using t c cap by (auto simp: d_def)
    have qd: "q2 d = Some d" "dsub t d = t - d" "q2 (t - d) = Some (t - d)" using d t by (auto intro!: q2_exact dsub_cents)
    define s where "s = (if sn < 0 then - sn else 0)"
    define l where "l = (if gn < 0 then - gn else 0)"
    have sl: "cents s" "0 \<le> s" "s \<le> 2 * 10 ^ 25" "cents l" "0 \<le> l" "l \<le> 2 * 10 ^ 25"
      using c b by (auto simp: s_def l_def abs_le_iff)
    have SL: "(if sn < 0 then dneg sn else 0) = s" "(if gn < 0 then dneg gn else 0) = l"
      by (simp_all add: s_def l_def neg)
    have asl: "dadd s l = s + l" using sl by (auto intro!: dadd_cents)
    show ?thesis
    proof (cases "s + l = t")
      case True
      define n where "n = max 0 (s - d)"
      have n: "cents n" "0 \<le> n" "n \<le> s" "s - n \<le> d" using sl d by (auto simp: n_def)
      have q: "dsub s d = s - d" "q2 n = Some n" "dsub s n = s - n" "dsub d (s - n) = d - (s - n)"
          "q2 (d - (s - n)) = Some (d - (s - n))" "dsub l (d - (s - n)) = l - (d - (s - n))"
        using sl d n t by (auto intro!: q2_exact dsub_cents)
      define m where "m = max 0 (l - (d - (s - n)))"
      have m: "m = t - d - n" using True d sl by (auto simp: m_def n_def max_def)
      have qm: "q2 m = Some m" using m d n t sl by (auto intro!: q2_exact)
      have S: "split_loss sn gn t d (t - d) = Some (n, m)"
        using q qm True by (simp add: split_loss_def SL asl Let_def n_def [symmetric] m_def [symmetric])
      have "max 0 (- sn) = s" "min s t = s" using True sl(5) by (auto simp: s_def max_def)
      then have "n = max 0 (min (max 0 (- sn)) t - d)" by (simp add: n_def)
      then show ?thesis using add False S q(2) qm qd m neg
        by (simp add: carryover_of_def d_def [symmetric] Let_def)
    next
      case one: False
      have S: "split_loss sn gn t d (t - d) = Some (if sn < 0 then t - d else 0, if gn < 0 then t - d else 0)"
        using one by (simp add: split_loss_def SL asl Let_def)
      have z: "q2 0 = Some 0" by (intro q2_exact) simp_all
      consider "sn < 0" "\<not> gn < 0" | "\<not> sn < 0" "gn < 0" using one t(1) False by (fastforce simp: s_def l_def)
      then have eq: "max 0 (min (max 0 (- sn)) t - d) = (if sn < 0 then t - d else 0)"
        "(if gn < 0 then t - d else 0) = t - d - (if sn < 0 then t - d else 0)"
        using t(1) d(2,3) by (cases; simp add: min_def max_def)+
      have "carryover_of sn gn cap = Some \<lparr>cla_deduction = d, cla_next =
          \<lparr>clc_short_term = (if sn < 0 then t - d else 0), clc_long_term = (if gn < 0 then t - d else 0)\<rparr>\<rparr>"
        using add False S qd neg(1) z by (simp add: carryover_of_def d_def [symmetric] Let_def)
      then show ?thesis unfolding d_def [symmetric] eq .
    qed
  qed
qed

text \<open>
  C21.  The American carry-over of a capital loss, on legs in cents, conserves the loss: what is deducted this year and
  the two legs that are carried are together the net loss of the year and of the prior record.  The deduction is the
  loss up to the cap, the short leg absorbs it first, and no leg is negative.\<close>

theorem capital_loss_conserved:
  assumes "legs_ok s p" "0 < cap" "cents cap"
  shows "case apply_carryover s (Some p) cap of Inl _ \<Rightarrow> False
    | Inr r \<Rightarrow>
        (let short = sdp_gain_loss (sd_short_term s) - clc_short_term p;
             loss = max 0 (- (short + (sdp_gain_loss (sd_long_term s) - clc_long_term p)))
         in cla_deduction r = min loss cap
          \<and> cla_deduction r + clc_short_term (cla_next r) + clc_long_term (cla_next r) = loss
          \<and> clc_short_term (cla_next r) = max 0 (min (max 0 (- short)) loss - cla_deduction r)
          \<and> 0 \<le> clc_short_term (cla_next r) \<and> 0 \<le> clc_long_term (cla_next r))"
proof -
  let ?gs = "sdp_gain_loss (sd_short_term s)" and ?gl = "sdp_gain_loss (sd_long_term s)"
  define sn where "sn = ?gs - clc_short_term p"
  define gn where "gn = ?gl - clc_long_term p"
  note L = assms(1) [unfolded legs_ok_def]
  have c: "cents sn" "cents gn" "\<bar>sn\<bar> \<le> 2 * 10 ^ 25" "\<bar>gn\<bar> \<le> 2 * 10 ^ 25"
    using L by (auto simp: sn_def gn_def abs_le_iff)
  have d: "dsub ?gs (clc_short_term p) = sn" "dsub ?gl (clc_long_term p) = gn"
    using L c unfolding sn_def gn_def by (auto intro!: dsub_cents)
  define t where "t = max 0 (- (sn + gn))"
  have "min (max 0 (- sn)) t \<le> t" "min t cap \<le> t" by simp_all
  then have "0 \<le> t - min t cap - max 0 (min (max 0 (- sn)) t - min t cap)" by simp
  moreover have "max 0 (- sn - gn) = t" by (simp add: t_def)
  ultimately show ?thesis
    using L assms(2) d carryover_of_exact [OF c(1,2) assms(3) c(3,4) assms(2), folded t_def]
    by (simp add: apply_carryover_def or_invalid_def sn_def [symmetric] gn_def [symmetric] t_def [symmetric] Let_def)
qed


definition a_part :: "rat \<Rightarrow> ScheduleDPartTotal" where
  "a_part g = \<lparr>sdp_row_count = 1, sdp_proceeds = 0, sdp_cost_basis = 0, sdp_adjustment_amount = 0, sdp_gain_loss = g\<rparr>"

lemma capital_loss_conserved_witness:
  "case apply_carryover \<lparr>sd_short_term = a_part (- 2500), sd_long_term = a_part (- 4000), sd_net_gain_loss = - 6500\<rparr>
      (Some \<lparr>clc_short_term = 0, clc_long_term = 100\<rparr>) 3000 of Inl _ \<Rightarrow> False
    | Inr r \<Rightarrow> cla_deduction r = 3000 \<and> clc_short_term (cla_next r) = 0 \<and> clc_long_term (cla_next r) = 3600"
  using capital_loss_conserved [of "\<lparr>sd_short_term = a_part (- 2500), sd_long_term = a_part (- 4000), sd_net_gain_loss = - 6500\<rparr>"
      "\<lparr>clc_short_term = 0, clc_long_term = 100\<rparr>" 3000]
  by (auto simp: legs_ok_def a_part_def cents_def Let_def split: sum.splits)

text \<open>With a prior leg of a third decimal the two legs do not add up to the quantized loss, and each carries all of it.\<close>

lemma odd_cent_doubles_the_loss:
  "apply_carryover \<lparr>sd_short_term = a_part (- 5000), sd_long_term = a_part (- 5000), sd_net_gain_loss = - 10000\<rparr>
     (Some \<lparr>clc_short_term = 1 / 1000, clc_long_term = 0\<rparr>) 3000
   = Inr \<lparr>cla_deduction = 3000, cla_next = \<lparr>clc_short_term = 7000, clc_long_term = 7000\<rparr>\<rparr>"
proof -
  have d: "dec28 (- (5000001 / 1000)) = - (5000001 / 1000)" "dec28 (5000001 / 1000) = 5000001 / 1000"
    "dec28 (- (10000001 / 1000)) = - (10000001 / 1000)" "dec28 (10000001 / 1000) = 10000001 / 1000"
    using dec28_places [of "- 5000001" 3] dec28_places [of 5000001 3] dec28_places [of "- 10000001" 3] dec28_places [of 10000001 3]
    by simp_all
  have "rhe (- (10000001 / 10)) = - 1000000" by code_simp
  then have q: "q2 (- (10000001 / 1000)) = Some (- 10000)" by (simp add: q2_def quantize_def Let_def)
  have q': "q2 3000 = Some 3000" "q2 7000 = Some 7000" by (simp_all add: q2_exact cents_def)
  show ?thesis
    by (simp add: d q q' apply_carryover_def carryover_of_def split_loss_def a_part_def or_invalid_def Let_def
        dsub_def dadd_def dneg_def zero_carryover_def)
qed

section \<open>Germany: a loss of the other bucket is used and still carried\<close>

definition de_disposal :: "AssetClass \<Rightarrow> rat \<Rightarrow> rat \<Rightarrow> KestDisposal" where
  "de_disposal c proceeds cost =
     \<lparr>td_description = [], td_acquired = 1, td_disposed = 2, td_proceeds = proceeds, td_cost = cost, kd_asset_class = c\<rparr>"

lemma other_loss_used_and_carried:
  "case apply_kest_carryover [de_disposal ASSET_EQUITY 5000 0, de_disposal ASSET_OTHER 0 4000] None 0 None of
     Inl _ \<Rightarrow> False
   | Inr r \<Rightarrow> kest_taxable_income (kea_summary r) = 1000 \<and> kea_next r = \<lparr>kco_equity = 0, kco_other = 4000\<rparr>"
  by (simp add: apply_kest_carryover_def de_disposal_def gain_loss_def dsub_def dadd_def dneg_def dmul_def q2_exact cents_def
      dec28_cents synthesize_def bucket_disposal_def summarize_kest_def kest_arguments_def kest_totals_def loss_leg_def
      KEST_RATE_def SOLZ_RATE_def or_invalid_def Let_def)

section \<open>Section 1256 and straddles\<close>

text \<open>The forty per cent of a net gain or loss is rounded, the sixty per cent is the rest: together they are the net.\<close>

lemma form6781_splits:
  assumes "summarize_form6781 cs = Some s"
  shows "f6781_short_term_amount s + f6781_long_term_amount s = f6781_net_gain_loss s"
proof -
  have "\<exists>n0 net short long. q2 n0 = Some net \<and> q2 (dmul net SHORT_TERM_PCT) = Some short \<and> q2 (dsub net short) = Some long
      \<and> f6781_net_gain_loss s = net \<and> f6781_short_term_amount s = short \<and> f6781_long_term_amount s = long"
    using assms by (auto simp: summarize_form6781_def bind_eq_Some_conv split: prod.splits)
  then obtain n0 net short long where "q2 n0 = Some net" "q2 (dmul net SHORT_TERM_PCT) = Some short" "q2 (dsub net short) = Some long"
    and s: "f6781_net_gain_loss s = net" "f6781_short_term_amount s = short" "f6781_long_term_amount s = long"
    by blast
  then have "long = net - short" using q2_sub [of net short long] q2_cents by blast
  then show ?thesis by (simp add: s)
qed

text \<open>Of a straddle leg in cents the allowed and the deferred loss are the recognized loss.\<close>

lemma leg_loss_split:
  assumes "allowed_loss l = Some a" "deferred_loss l = Some d" "cents (leg_recognized_loss l)"
  shows "a + d = leg_recognized_loss l"
proof -
  have "cents a" using assms(1) by (auto simp: allowed_loss_def Let_def intro: q2_cents split: if_splits)
  then show ?thesis using assms q2_sub [of "leg_recognized_loss l" a d] by (simp add: deferred_loss_def)
qed

lemma absorb_years_exact:
  "\<lbrakk>list_all (\<lambda>p. cents (py_net_gain p) \<and> 0 \<le> py_net_gain p) ps; cents r; 0 \<le> r; r \<le> 10 ^ 25\<rbrakk>
   \<Longrightarrow> \<exists>per_year left. absorb_years ps r = Some (per_year, left)
      \<and> left = r - min r (sum_list (map py_net_gain ps)) \<and> sum_list (map snd per_year) = r - left
      \<and> list_all (\<lambda>a. 0 < snd a \<and> (\<exists>p \<in> set ps. py_year p = fst a \<and> snd a \<le> py_net_gain p)) per_year"
proof (induction ps arbitrary: r)
  case (Cons p ps)
  have G: "0 \<le> sum_list (map py_net_gain ps)" using Cons.prems(1) by (auto intro!: sum_list_nonneg simp: list_all_iff)
  show ?case
  proof (cases "r \<le> 0")
    case True
    then show ?thesis using Cons.prems G by auto
  next
    case False
    define m where "m = min r (py_net_gain p)"
    have m: "cents m" "0 \<le> m" "m \<le> r" "m \<le> py_net_gain p" using Cons.prems by (auto simp: m_def)
    have q: "q2 m = Some m" "dsub r m = r - m" "q2 (r - m) = Some (r - m)"
      using m Cons.prems by (auto intro!: q2_exact dsub_cents)
    obtain per_year left where IH: "absorb_years ps (r - m) = Some (per_year, left)"
      "left = r - m - min (r - m) (sum_list (map py_net_gain ps))" "sum_list (map snd per_year) = r - m - left"
      "list_all (\<lambda>a. 0 < snd a \<and> (\<exists>p \<in> set ps. py_year p = fst a \<and> snd a \<le> py_net_gain p)) per_year"
      using Cons.IH [of "r - m"] Cons.prems m by auto
    have left: "left = r - min r (py_net_gain p + sum_list (map py_net_gain ps))"
      using IH(2) G m(2) by (auto simp: m_def min_def)
    show ?thesis
    proof (cases "0 < m")
      case True
      then show ?thesis using False q IH left m by (auto simp: m_def [symmetric] list_all_iff)
    next
      case zero: False
      then have "m = 0" using m by simp
      then show ?thesis using False q IH left by (auto simp: m_def [symmetric] list_all_iff)
    qed
  qed
qed simp

text \<open>The three latest years absorb the loss oldest first, each at most its gain; the rest is carried forward.\<close>

lemma carryback_conserves:
  assumes "list_all (\<lambda>p. cents (py_net_gain p) \<and> 0 \<le> py_net_gain p) ps" "cents x" "0 \<le> x" "x \<le> 10 ^ 25"
  shows "case apply_section_1256_carryback x ps of Inl _ \<Rightarrow> False
    | Inr r \<Rightarrow> cb_loss_absorbed r + cb_forward_carry r = x \<and> 0 \<le> cb_forward_carry r
        \<and> sum_list (map snd (cb_per_year r)) = cb_loss_absorbed r
        \<and> list_all (\<lambda>a. 0 < snd a \<and> (\<exists>p \<in> set ps. py_year p = fst a \<and> snd a \<le> py_net_gain p)) (cb_per_year r)"
proof -
  let ?e = "drop (length (sort_key py_year ps) - CARRYBACK_YEARS) (sort_key py_year ps)"
  have sub: "set ?e \<subseteq> set ps" using set_drop_subset [of _ "sort_key py_year ps"] by auto
  then have e: "list_all (\<lambda>p. cents (py_net_gain p) \<and> 0 \<le> py_net_gain p) ?e" using assms(1) by (auto simp: list_all_iff)
  obtain per_year left where a: "absorb_years ?e x = Some (per_year, left)"
    "left = x - min x (sum_list (map py_net_gain ?e))" "sum_list (map snd per_year) = x - left"
    "list_all (\<lambda>a. 0 < snd a \<and> (\<exists>p \<in> set ?e. py_year p = fst a \<and> snd a \<le> py_net_gain p)) per_year"
    using absorb_years_exact [OF e assms(2-4)] by blast
  have G: "0 \<le> sum_list (map py_net_gain ?e)" "cents (sum_list (map py_net_gain ?e))"
    using e by (auto intro!: sum_list_nonneg simp: list_all_iff)
  have l: "cents left" "0 \<le> left" "left \<le> x" using a(2) G assms by auto
  have q: "q2 left = Some left" "dsub x left = x - left" "q2 (x - left) = Some (x - left)"
    using l assms by (auto intro!: q2_exact dsub_cents)
  have "carryback_of x ps = Some \<lparr>cb_loss_absorbed = x - left, cb_per_year = per_year, cb_forward_carry = left\<rparr>"
    using a(1) q l by (auto simp: carryback_of_def Let_def)
  moreover have "list_all (\<lambda>a. 0 < snd a \<and> (\<exists>p \<in> set ps. py_year p = fst a \<and> snd a \<le> py_net_gain p)) per_year"
    using a(4) sub unfolding list_all_iff by blast
  ultimately show ?thesis using a(3) l assms(3) by (simp add: apply_section_1256_carryback_def or_invalid_def)
qed

text \<open>The dispatcher applies the calculator of the jurisdiction whatever the case of its code, and refuses a prior
  record of another one.\<close>

lemma dispatch_ignores_case: "py_upper c = py_upper c' \<Longrightarrow> py_upper c \<in> {''US'', ''GB'', ''DE'', ''FR''}
   \<Longrightarrow> carryover_for_jurisdiction c = carryover_for_jurisdiction c'"
  by (intro ext) (auto simp: carryover_for_jurisdiction_def)

lemma dispatch_refuses_foreign_prior:
  "carryover_for_jurisdiction ''us'' ds (Some (GB_Prior l)) y = Inl WrongPriorType"
  "carryover_for_jurisdiction ''fr'' ds None None = Inl YearRequired"
proof -
  have "py_upper ''us'' = ''US''" "py_upper ''fr'' = ''FR''" by code_simp+
  then show "carryover_for_jurisdiction ''us'' ds (Some (GB_Prior l)) y = Inl WrongPriorType"
    "carryover_for_jurisdiction ''fr'' ds None None = Inl YearRequired"
    by (simp_all add: carryover_for_jurisdiction_def)
qed

text \<open>A lot held from one first of March to the next is long-term when a leap day lies between: 366 days are
  exactly one year there.\<close>

lemma leap_year_is_long_term: "holding_term 738580 (738580 + 366) = LONG_TERM" "holding_term 738580 (738580 + 365) = SHORT_TERM"
  by (simp_all add: holding_term_def LONG_TERM_DAYS_def)

text \<open>A loss of 2024 is usable until 2033: it has expired in 2034.\<close>

lemma vintage_expires_after_nine_years: "expired_in (2024 + 10) \<lparr>vin_year = 2024, vin_amount = a\<rparr>"
  "\<not> expired_in (2024 + 9) \<lparr>vin_year = 2024, vin_amount = a\<rparr>"
  by (simp_all add: expired_in_def CARRY_FORWARD_YEARS_def)

end
