(* ===== verification/PluginPolicy.thy ===== *)
theory PluginPolicy
  imports Prelude "HOL-Library.Sublist" "HOL-Library.List_Lexorder" "HOL-Library.Char_ord"
begin

text \<open>
  What sandboxed strategies may import, call, resolve and open: the tables of \<open>plugins/allowlist.py\<close>, the
  decisions of \<open>plugins/restricted_importer.py\<close> (hosts, modules, the static \<open>ImportValidator\<close>, the bounded
  read), \<open>plugins/sandbox/ast_validator.py\<close> and the \<open>PathValidator\<close> of \<open>plugins/sandbox/filesystem.py\<close>.

  Module names, hosts and paths are ASCII strings.  A syntax tree keeps what the visitors look at: import
  statements, calls, names and attributes; any other node is its children in field order.  \<open>ast.parse\<close>, \<open>os.path.realpath\<close> and
  the check of bracketed hosts by the \<open>ipaddress\<close> module are arguments; the parts of \<open>urllib.parse\<close> the code uses
  are written out.
\<close>

section \<open>The tables\<close>

definition FROZEN_ALLOWED_MODULES :: "string list" where
  "FROZEN_ALLOWED_MODULES =
     [''math'', ''cmath'', ''numbers'', ''decimal'', ''fractions'', ''statistics'', ''collections'', ''itertools'',
      ''functools'', ''operator'', ''heapq'', ''bisect'', ''array'', ''dataclasses'', ''enum'', ''types'',
      ''weakref'', ''datetime'', ''time'', ''calendar'', ''string'', ''re'', ''textwrap'', ''unicodedata'',
      ''pprint'', ''difflib'', ''json'', ''hashlib'', ''hmac'', ''base64'', ''binascii'', ''uuid'', ''copy'',
      ''copyreg'', ''typing'', ''contextlib'', ''warnings'', ''csv'', ''constants'', ''numpy'', ''polars'',
      ''pandas'', ''pydantic'', ''httpx'', ''structlog'', ''engine'', ''nexus_sdk'', ''sdk'']"

definition DENYLIST_MODULES :: "string list" where
  "DENYLIST_MODULES =
     [''os'', ''_os'', ''io'', ''_io'', ''shutil'', ''pathlib'', ''pathlib2'', ''tempfile'', ''glob'', ''fnmatch'',
      ''linecache'', ''tokenize'', ''fileinput'', ''mimetypes'', ''subprocess'', ''_posixsubprocess'',
      ''multiprocessing'', ''concurrent'', ''concurrent.futures'', ''asyncio.subprocess'', ''ctypes'', ''_ctypes'',
      ''ctypes.util'', ''cffi'', ''gc'', ''signal'', ''resource'', ''fcntl'', ''termios'', ''select'',
      ''selectors'', ''poll'', ''epoll'', ''sys'', ''_sysconfig'', ''sysconfig'', ''platform'', ''importlib'',
      ''pkgutil'', ''inspect'', ''dis'', ''ast'', ''code'', ''codeop'', ''compileall'', ''py_compile'',
      ''symtable'', ''tabnanny'', ''token'', ''threading'', ''_thread'', ''queue'', ''contextvars'', ''pickle'',
      ''_pickle'', ''cPickle'', ''shelve'', ''marshal'', ''dbm'', ''socket'', ''_socket'', ''ssl'', ''http'',
      ''urllib'', ''urllib3'', ''requests'', ''ftplib'', ''smtplib'', ''telnetlib'', ''xmlrpc'', ''webbrowser'',
      ''socketserver'', ''zipimport'', ''runpy'', ''__main__'', ''site'', ''builtins'', ''atexit'', ''sched'',
      ''tracemalloc'', ''faulthandler'', ''pty'', ''tty'', ''pdb'', ''bdb'', ''tomllib'', ''configparser'',
      ''netrc'', ''getpass'', ''nturl2path'', ''idlelib'', ''tkinter'']"

definition ESSENTIAL_CPYTHON_MODULES :: "string list" where
  "ESSENTIAL_CPYTHON_MODULES =
     [''_abc'', ''_ast'', ''_bisect'', ''_blake2'', ''_codecs'', ''_collections'', ''_contextvars'', ''_csv'',
      ''_ctypes_test'', ''_datetime'', ''_decimal'', ''_functools'', ''_heapq'', ''_imp'', ''_io'', ''_json'',
      ''_locale'', ''_operator'', ''_random'', ''_sha'', ''_sha3'', ''_signal'', ''_sre'', ''_stat'', ''_string'',
      ''_struct'', ''_thread'', ''_typing'', ''_warnings'', ''_weakref'', ''_winapi'', ''atexit'', ''builtins'',
      ''errno'', ''gc'', ''marshal'', ''math'', ''posix'', ''pwd'', ''sys'', ''time'', ''unicodedata'',
      ''_socket'', ''select'', ''nt'', ''msvcrt'', ''syslog'']"

definition INTERNAL_BYPASS_MODULES :: "string list" where
  "INTERNAL_BYPASS_MODULES =
     [''faulthandler'', ''pytest'', ''_pytest'', ''pluggy'', ''iniconfig'', ''packaging'', ''exceptiongroup'',
      ''hypothesis'', ''sortedcontainers'']"

section \<open>Module names\<close>

definition root_of :: "string \<Rightarrow> string" where
  "root_of fullname = takeWhile (\<lambda>c. c \<noteq> CHR ''.'') fullname"

record importer_policy =
  ip_allowed :: "string list"
  ip_blocked :: "string list"

definition new_policy :: "string list option \<Rightarrow> string list option \<Rightarrow> importer_policy" where
  "new_policy blocked allowed =
     \<lparr>ip_allowed = (case allowed of None \<Rightarrow> FROZEN_ALLOWED_MODULES | Some a \<Rightarrow> a),
      ip_blocked = DENYLIST_MODULES @ (case blocked of None \<Rightarrow> [] | Some b \<Rightarrow> b)\<rparr>"

definition module_is_blocked :: "importer_policy \<Rightarrow> string \<Rightarrow> bool" where
  "module_is_blocked p fullname \<longleftrightarrow> root_of fullname \<in> set (ip_blocked p)"

definition is_allowed :: "importer_policy \<Rightarrow> string \<Rightarrow> bool" where
  "is_allowed p fullname =
     (if root_of fullname \<in> set INTERNAL_BYPASS_MODULES then True
      else if module_is_blocked p fullname then False
      else root_of fullname \<in> set (ip_allowed p))"

text \<open>The names that remain in \<open>sys.modules\<close>.\<close>

definition purge_non_allowlisted :: "importer_policy \<Rightarrow> string list \<Rightarrow> string list" where
  "purge_non_allowlisted p loaded =
     filter (\<lambda>m. is_allowed p m \<or> root_of m \<in> set ESSENTIAL_CPYTHON_MODULES) loaded"

section \<open>Hosts\<close>

text \<open>The parts of \<open>urllib.parse\<close>: the scheme is cut off when it is well-formed, the network location lies between
  the double slash and the next delimiter, the user is before the last \<open>@\<close>, the port after the first colon.\<close>

definition before :: "char list \<Rightarrow> string \<Rightarrow> string" where
  "before delimiters s = takeWhile (\<lambda>c. c \<notin> set delimiters) s"

definition from_first :: "char list \<Rightarrow> string \<Rightarrow> string" where
  "from_first delimiters s = dropWhile (\<lambda>c. c \<notin> set delimiters) s"

definition letter_char :: "char \<Rightarrow> bool" where
  "letter_char c = (let n = of_char c :: nat in 65 \<le> n \<and> n \<le> 90 \<or> 97 \<le> n \<and> n \<le> 122)"

definition scheme_char :: "char \<Rightarrow> bool" where
  "scheme_char c = (letter_char c \<or> (let n = of_char c :: nat in 48 \<le> n \<and> n \<le> 57) \<or> c \<in> set ''+-.'')"

definition without_scheme :: "string \<Rightarrow> string" where
  "without_scheme url =
     (let s = before '':'' url; r = from_first '':'' url in
      if r \<noteq> [] \<and> s \<noteq> [] \<and> letter_char (hd s) \<and> list_all scheme_char s then tl r else url)"

record parsed_url =
  pu_hostname :: "string option"
  pu_path :: string
  pu_port :: bool

definition url_error :: "(string \<Rightarrow> bool) \<Rightarrow> string \<Rightarrow> bool" where
  "url_error bracket_ok netloc \<longleftrightarrow>
     (CHR ''['' \<in> set netloc) \<noteq> (CHR '']'' \<in> set netloc)
     \<or> (CHR ''['' \<in> set netloc \<and> \<not> bracket_ok (before '']'' (tl (from_first ''['' netloc))))"

definition host_info :: "string \<Rightarrow> string \<times> string" where
  "host_info netloc =
     (let info = (if CHR ''@'' \<in> set netloc then rev (before ''@'' (rev netloc)) else netloc);
          bracketed = tl (from_first ''['' info) in
      if CHR ''['' \<in> set info
      then (before '']'' bracketed, tl (from_first '':'' (tl (from_first '']'' bracketed))))
      else (before '':'' info, tl (from_first '':'' info)))"

definition urlparse :: "(string \<Rightarrow> bool) \<Rightarrow> string \<Rightarrow> parsed_url option" where
  "urlparse bracket_ok raw =
     (let url = without_scheme (filter (\<lambda>c. c \<notin> {CHR 0x09, CHR 0x0A, CHR 0x0D}) raw);
          netloc = (if take 2 url = ''//'' then before ''/?#'' (drop 2 url) else []);
          rest = (if take 2 url = ''//'' then from_first ''/?#'' (drop 2 url) else url)
      in if url_error bracket_ok netloc then None
         else let (host, port) = host_info netloc in
              Some \<lparr>pu_hostname = (if host = [] then None else Some (py_lower host)),
                    pu_path = before ''?'' (before ''#'' rest), pu_port = (port \<noteq> [])\<rparr>)"

datatype endpoint = Ep_Str string | Ep_Other

datatype host_error = NotAString | EmptyEntry | InvalidUrl | NoHostname | HasPath | HasPort

definition hostname_of :: "(string \<Rightarrow> bool) \<Rightarrow> endpoint \<Rightarrow> host_error + string" where
  "hostname_of bracket_ok e =
     (case e of Ep_Other \<Rightarrow> Inl NotAString
      | Ep_Str entry \<Rightarrow>
          (let raw = py_strip entry;
               candidate = (if \<not> sublist ''://'' raw \<and> take 2 raw \<noteq> ''//'' then ''//'' @ raw else raw)
           in if raw = [] then Inl EmptyEntry
              else case urlparse bracket_ok candidate of
                  None \<Rightarrow> Inl InvalidUrl
                | Some u \<Rightarrow>
                    (case pu_hostname u of None \<Rightarrow> Inl NoHostname
                     | Some h \<Rightarrow> if pu_path u \<noteq> [] then Inl HasPath else if pu_port u then Inl HasPort
                                 else Inr (py_lower h))))"

fun extract_hostnames :: "(string \<Rightarrow> bool) \<Rightarrow> endpoint list \<Rightarrow> host_error + string list" where
  "extract_hostnames bracket_ok [] = Inr []"
| "extract_hostnames bracket_ok (e # es) =
     (case hostname_of bracket_ok e of Inl x \<Rightarrow> Inl x
      | Inr h \<Rightarrow> (case extract_hostnames bracket_ok es of Inl x \<Rightarrow> Inl x | Inr hs \<Rightarrow> Inr (h # hs)))"

definition host_matches :: "string list \<Rightarrow> string \<Rightarrow> bool" where
  "host_matches hosts name = list_ex (\<lambda>ep. name = ep \<or> suffix (CHR ''.'' # ep) name) hosts"

definition is_host_allowed :: "string list \<Rightarrow> string option \<Rightarrow> bool" where
  "is_host_allowed hosts host =
     (if hosts = [] then False
      else case host of None \<Rightarrow> False | Some name \<Rightarrow> if name = [] then False else host_matches hosts name)"

text \<open>\<open>SandboxedHttpClient.send\<close> and the hook on \<open>httpx\<close>: whether the request is passed on.\<close>

definition send_allowed :: "string list \<Rightarrow> string option \<Rightarrow> bool" where
  "send_allowed hosts host = (case host of None \<Rightarrow> False | Some h \<Rightarrow> host_matches hosts h)"

section \<open>Static validation\<close>

datatype py_ast =
  A_Import int int "string list"
| A_ImportFrom int int "string option" nat "string list"
| A_Call int int py_ast "py_ast list"
| A_Name string
| A_Attribute py_ast string
| A_Node "py_ast list"

fun children :: "py_ast \<Rightarrow> py_ast list" where
  "children (A_Import _ _ _) = []"
| "children (A_ImportFrom _ _ _ _ _) = []"
| "children (A_Call _ _ f args) = f # args"
| "children (A_Name _) = []"
| "children (A_Attribute v _) = [v]"
| "children (A_Node ns) = ns"

definition DANGEROUS_BUILTINS :: "string list" where
  "DANGEROUS_BUILTINS = [''__import__'', ''exec'', ''eval'', ''compile'']"

datatype iv_violation = BlockedImport int string | ForbiddenBuiltin int string | ForbiddenImportModule int

record import_validator =
  iv_blocked :: "string list"
  iv_allowed :: "string list"

definition iv_module_is_blocked :: "import_validator \<Rightarrow> string \<Rightarrow> bool" where
  "iv_module_is_blocked v fullname =
     (if fullname \<in> set (iv_blocked v) then True
      else if root_of fullname \<in> set (iv_blocked v) then fullname \<notin> set (iv_allowed v)
      else root_of fullname \<notin> set (iv_allowed v))"

definition iv_call :: "int \<Rightarrow> py_ast \<Rightarrow> iv_violation list" where
  "iv_call line f =
     (case f of
        A_Name n \<Rightarrow> if n \<in> set DANGEROUS_BUILTINS then [ForbiddenBuiltin line n] else []
      | A_Attribute (A_Name n) attr \<Rightarrow>
          if attr = ''import_module'' \<and> n = ''importlib'' then [ForbiddenImportModule line] else []
      | _ \<Rightarrow> [])"

fun iv_visit :: "import_validator \<Rightarrow> py_ast \<Rightarrow> iv_violation list" where
  "iv_visit v (A_Import line _ names) = map (BlockedImport line) (filter (iv_module_is_blocked v) names)"
| "iv_visit v (A_ImportFrom line _ m _ _) =
     (let mname = (case m of None \<Rightarrow> [] | Some s \<Rightarrow> s) in
      if mname \<noteq> [] \<and> iv_module_is_blocked v mname then [BlockedImport line mname] else [])"
| "iv_visit v (A_Call line _ f args) = iv_call line f @ iv_visit v f @ concat (map (iv_visit v) args)"
| "iv_visit v (A_Name _) = []"
| "iv_visit v (A_Attribute n _) = iv_visit v n"
| "iv_visit v (A_Node ns) = concat (map (iv_visit v) ns)"

text \<open>\<open>validate\<close>: the left value is the \<open>SyntaxError\<close> of the parser, which propagates.\<close>

definition iv_validate :: "('src \<Rightarrow> 'e + py_ast) \<Rightarrow> import_validator \<Rightarrow> 'src \<Rightarrow> 'e + iv_violation list" where
  "iv_validate parse v source = (case parse source of Inl e \<Rightarrow> Inl e | Inr t \<Rightarrow> Inr (iv_visit v t))"

definition MAX_PLUGIN_SIZE :: nat where "MAX_PLUGIN_SIZE = 2 ^ 20"

text \<open>The file has the size it reports and the content it yields when read.\<close>

definition read_plugin_source :: "nat \<Rightarrow> nat \<Rightarrow> 'byte list \<Rightarrow> nat + 'byte list" where
  "read_plugin_source max_size reported content =
     (if max_size < reported then Inl reported
      else let data = take (max_size + 1) content in if max_size < length data then Inl (length data) else Inr data)"


text \<open>The structured validator of \<open>ast_validator.py\<close>.\<close>

datatype severity = SEVERITY_ERROR | SEVERITY_WARNING

datatype violation_code =
  CODE_FORBIDDEN_IMPORT | CODE_FORBIDDEN_FROM_IMPORT | CODE_FORBIDDEN_CALL | CODE_RELATIVE_IMPORT | CODE_SYNTAX_ERROR

record violation =
  vi_line :: int
  vi_col :: int
  vi_code :: violation_code
  vi_module :: "string option"
  vi_severity :: severity

definition found :: "int \<Rightarrow> int \<Rightarrow> violation_code \<Rightarrow> string option \<Rightarrow> violation" where
  "found line col code m = \<lparr>vi_line = line, vi_col = col, vi_code = code, vi_module = m, vi_severity = SEVERITY_ERROR\<rparr>"

definition has_errors :: "violation list \<Rightarrow> bool" where
  "has_errors vs = list_ex (\<lambda>v. vi_severity v = SEVERITY_ERROR) vs"

definition is_valid :: "violation list \<Rightarrow> bool" where
  "is_valid vs \<longleftrightarrow> \<not> has_errors vs"

definition has_warnings :: "violation list \<Rightarrow> bool" where
  "has_warnings vs = list_ex (\<lambda>v. vi_severity v = SEVERITY_WARNING) vs"

definition errors_of :: "violation list \<Rightarrow> violation list" where
  "errors_of vs = filter (\<lambda>v. vi_severity v = SEVERITY_ERROR) vs"

definition error_count :: "violation list \<Rightarrow> nat" where
  "error_count vs = length (errors_of vs)"

fun forbidden_roots :: "violation list \<Rightarrow> string list \<Rightarrow> string list" where
  "forbidden_roots [] seen = seen"
| "forbidden_roots (v # vs) seen =
     (case vi_module v of None \<Rightarrow> forbidden_roots vs seen
      | Some m \<Rightarrow> if m = [] \<or> root_of m \<in> set seen then forbidden_roots vs seen
                  else forbidden_roots vs (seen @ [root_of m]))"

definition forbidden_modules :: "violation list \<Rightarrow> string list" where
  "forbidden_modules vs = forbidden_roots vs []"

record ast_validator =
  av_allowlist :: "string list"
  av_denylist :: "string list"
  av_forbidden_calls :: "string list"

definition new_ast_validator :: "string list option \<Rightarrow> string list option \<Rightarrow> string list option \<Rightarrow> ast_validator" where
  "new_ast_validator allowlist denylist calls =
     \<lparr>av_allowlist = (case allowlist of None \<Rightarrow> [] | Some a \<Rightarrow> a),
      av_denylist = (case denylist of None \<Rightarrow> DENYLIST_MODULES | Some d \<Rightarrow> d),
      av_forbidden_calls = (case calls of None \<Rightarrow> DANGEROUS_BUILTINS | Some c \<Rightarrow> c)\<rparr>"

definition is_forbidden_module :: "ast_validator \<Rightarrow> string \<Rightarrow> bool" where
  "is_forbidden_module v m =
     (if root_of m \<in> set (av_denylist v) \<or> m \<in> set (av_denylist v) then True
      else if av_allowlist v \<noteq> [] then root_of m \<notin> set (av_allowlist v) \<and> m \<notin> set (av_allowlist v)
      else False)"

definition av_import_from :: "ast_validator \<Rightarrow> int \<Rightarrow> int \<Rightarrow> string option \<Rightarrow> nat \<Rightarrow> string list \<Rightarrow> violation list" where
  "av_import_from v line col m level names =
     (if 1 < level then [found line col CODE_RELATIVE_IMPORT m]
      else if ''*'' \<in> set names then [found line col CODE_FORBIDDEN_FROM_IMPORT m]
      else let mname = (case m of None \<Rightarrow> [] | Some s \<Rightarrow> s) in
        if mname \<noteq> [] \<and> is_forbidden_module v mname then [found line col CODE_FORBIDDEN_FROM_IMPORT (Some mname)]
        else [])"

definition av_call :: "ast_validator \<Rightarrow> int \<Rightarrow> int \<Rightarrow> py_ast \<Rightarrow> violation list" where
  "av_call v line col f =
     (case f of
        A_Name n \<Rightarrow> if n \<in> set (av_forbidden_calls v) then [found line col CODE_FORBIDDEN_CALL None] else []
      | A_Attribute (A_Name n) attr \<Rightarrow>
          if attr \<in> {''import_module'', ''__import__''} \<and> n = ''importlib''
          then [found line col CODE_FORBIDDEN_CALL (Some ''importlib'')] else []
      | _ \<Rightarrow> [])"

fun av_visit :: "ast_validator \<Rightarrow> py_ast \<Rightarrow> violation list" where
  "av_visit v (A_Import line col names) =
     map (\<lambda>n. found line col CODE_FORBIDDEN_IMPORT (Some n)) (filter (is_forbidden_module v) names)"
| "av_visit v (A_ImportFrom line col m level names) = av_import_from v line col m level names"
| "av_visit v (A_Call line col f args) = av_call v line col f @ av_visit v f @ concat (map (av_visit v) args)"
| "av_visit v (A_Name _) = []"
| "av_visit v (A_Attribute n _) = av_visit v n"
| "av_visit v (A_Node ns) = concat (map (av_visit v) ns)"

text \<open>A syntax error comes with the position the parser knows, or with minus one.\<close>

definition av_validate ::
  "('src \<Rightarrow> (int option \<times> int option) + py_ast) \<Rightarrow> ast_validator \<Rightarrow> 'src \<Rightarrow> violation list" where
  "av_validate parse v source =
     (case parse source of
        Inl (line, col) \<Rightarrow>
          [found (case line of None \<Rightarrow> -1 | Some l \<Rightarrow> l) (case col of None \<Rightarrow> -1 | Some c \<Rightarrow> c) CODE_SYNTAX_ERROR None]
      | Inr t \<Rightarrow> av_visit v t)"

section \<open>Paths\<close>

datatype path_arg = P_Bool bool | P_Int int | P_None | P_Str string | P_Bytes string | P_Other

datatype path_error = BoolPath | FileDescriptor | NonePath | NotAPath | WriteDenied | OutsideAllowed

record path_validator =
  pv_allowed :: "string list"
  pv_writable :: bool
  pv_active :: bool

fun distinct_in_order :: "string list \<Rightarrow> string list \<Rightarrow> string list" where
  "distinct_in_order seen [] = []"
| "distinct_in_order seen (r # rs) =
     (if r \<in> set seen then distinct_in_order seen rs else r # distinct_in_order (r # seen) rs)"

definition new_path_validator :: "(string \<Rightarrow> string) \<Rightarrow> string list \<Rightarrow> bool \<Rightarrow> path_validator" where
  "new_path_validator realpath dirs writable =
     \<lparr>pv_allowed = sort (distinct_in_order [] (map realpath dirs)), pv_writable = writable, pv_active = True\<rparr>"

definition under_dirs :: "string list \<Rightarrow> string \<Rightarrow> bool" where
  "under_dirs roots resolved = list_ex (\<lambda>dir. resolved = dir \<or> prefix (dir @ ''/'') resolved) roots"

definition resolve_path :: "(string \<Rightarrow> string) \<Rightarrow> path_arg \<Rightarrow> string option" where
  "resolve_path realpath p = (case p of P_Str s \<Rightarrow> Some (realpath s) | P_Bytes b \<Rightarrow> Some (realpath b) | _ \<Rightarrow> None)"

definition path_is_allowed :: "(string \<Rightarrow> string) \<Rightarrow> path_validator \<Rightarrow> path_arg \<Rightarrow> bool \<Rightarrow> bool" where
  "path_is_allowed realpath v p write =
     (case resolve_path realpath p of None \<Rightarrow> False
      | Some r \<Rightarrow> if write \<and> \<not> pv_writable v then False else under_dirs (pv_allowed v) r)"

definition validate_path :: "(string \<Rightarrow> string) \<Rightarrow> path_validator \<Rightarrow> path_arg \<Rightarrow> bool \<Rightarrow> path_error + string" where
  "validate_path realpath v p write =
     (case p of P_Bool _ \<Rightarrow> Inl BoolPath | P_Int _ \<Rightarrow> Inl FileDescriptor | P_None \<Rightarrow> Inl NonePath | P_Other \<Rightarrow> Inl NotAPath
      | P_Str s \<Rightarrow> if write \<and> \<not> pv_writable v then Inl WriteDenied
          else if \<not> under_dirs (pv_allowed v) (realpath s) then Inl OutsideAllowed else Inr (realpath s)
      | P_Bytes s \<Rightarrow> if write \<and> \<not> pv_writable v then Inl WriteDenied
          else if \<not> under_dirs (pv_allowed v) (realpath s) then Inl OutsideAllowed else Inr (realpath s))"

text \<open>The hooks: what reaches the original function, with the path as it was given.\<close>

definition open_hook :: "(string \<Rightarrow> string) \<Rightarrow> path_validator \<Rightarrow> path_arg \<Rightarrow> string \<Rightarrow> path_error + path_arg" where
  "open_hook realpath v file mode =
     (if pv_active v
      then (case validate_path realpath v file (list_ex (\<lambda>c. c \<in> set mode) ''wax+'') of Inl e \<Rightarrow> Inl e | Inr _ \<Rightarrow> Inr file)
      else Inr file)"

definition path_hook :: "(string \<Rightarrow> string) \<Rightarrow> path_validator \<Rightarrow> bool \<Rightarrow> path_arg \<Rightarrow> path_error + path_arg" where
  "path_hook realpath v write p =
     (if pv_active v then (case validate_path realpath v p write of Inl e \<Rightarrow> Inl e | Inr _ \<Rightarrow> Inr p) else Inr p)"

definition two_path_hook ::
  "(string \<Rightarrow> string) \<Rightarrow> path_validator \<Rightarrow> bool \<Rightarrow> path_arg \<Rightarrow> path_arg \<Rightarrow> path_error + path_arg \<times> path_arg" where
  "two_path_hook realpath v write src dst =
     (if pv_active v
      then (case validate_path realpath v src write of Inl e \<Rightarrow> Inl e
            | Inr _ \<Rightarrow> (case validate_path realpath v dst write of Inl e \<Rightarrow> Inl e | Inr _ \<Rightarrow> Inr (src, dst)))
      else Inr (src, dst))"

section \<open>The static layer is complete\<close>

text \<open>Every node of a tree, and what a node must not be.\<close>

fun nodes :: "py_ast \<Rightarrow> py_ast list" where
  "nodes (A_Call l c f args) = A_Call l c f args # nodes f @ concat (map nodes args)"
| "nodes (A_Attribute n a) = A_Attribute n a # nodes n"
| "nodes (A_Node ns) = A_Node ns # concat (map nodes ns)"
| "nodes t = [t]"

definition forbidden_node :: "import_validator \<Rightarrow> py_ast \<Rightarrow> bool" where
  "forbidden_node v t =
     (case t of
        A_Import _ _ names \<Rightarrow> list_ex (iv_module_is_blocked v) names
      | A_ImportFrom _ _ (Some m) _ _ \<Rightarrow> m \<noteq> [] \<and> iv_module_is_blocked v m
      | A_Call _ _ (A_Name n) _ \<Rightarrow> n \<in> set DANGEROUS_BUILTINS
      | A_Call _ _ (A_Attribute (A_Name n) a) _ \<Rightarrow> n = ''importlib'' \<and> a = ''import_module''
      | _ \<Rightarrow> False)"

lemma iv_call_none: "iv_call line f = [] \<longleftrightarrow> \<not> forbidden_node v (A_Call line col f args)"
  by (auto simp: iv_call_def forbidden_node_def split: py_ast.splits)

text \<open>
  C19.  The static validation of a strategy is complete: it accepts a tree exactly when no node of it, at any depth, imports
  a blocked module or calls one of the builtins that run code.\<close>

theorem import_validator_complete: "iv_visit v t = [] \<longleftrightarrow> list_all (\<lambda>n. \<not> forbidden_node v n) (nodes t)"
proof (induction t rule: iv_visit.induct)
  case (1 v line col names)
  then show ?case by (simp add: forbidden_node_def filter_empty_conv list_ex_iff)
next
  case (2 v line col m level names)
  then show ?case by (simp add: forbidden_node_def Let_def split: option.splits)
next
  case (3 v line col f args)
  then show ?case by (auto simp: iv_call_none [of line f v col args] list_all_iff)
qed (auto simp: forbidden_node_def list_all_iff)


definition av_forbidden_node :: "ast_validator \<Rightarrow> py_ast \<Rightarrow> bool" where
  "av_forbidden_node v t =
     (case t of
        A_Import _ _ names \<Rightarrow> list_ex (is_forbidden_module v) names
      | A_ImportFrom _ _ m level names \<Rightarrow> 1 < level \<or> ''*'' \<in> set names
          \<or> (case m of None \<Rightarrow> False | Some s \<Rightarrow> s \<noteq> [] \<and> is_forbidden_module v s)
      | A_Call _ _ (A_Name n) _ \<Rightarrow> n \<in> set (av_forbidden_calls v)
      | A_Call _ _ (A_Attribute (A_Name n) a) _ \<Rightarrow> n = ''importlib'' \<and> a \<in> {''import_module'', ''__import__''}
      | _ \<Rightarrow> False)"

lemma av_call_none: "av_call v line col f = [] \<longleftrightarrow> \<not> av_forbidden_node v (A_Call line col f args)"
  by (auto simp: av_call_def av_forbidden_node_def split: py_ast.splits)

lemma ast_validator_complete: "av_visit v t = [] \<longleftrightarrow> list_all (\<lambda>n. \<not> av_forbidden_node v n) (nodes t)"
proof (induction t rule: av_visit.induct)
  case (1 v line col names)
  then show ?case by (simp add: av_forbidden_node_def filter_empty_conv list_ex_iff)
next
  case (2 v line col m level names)
  then show ?case by (simp add: av_forbidden_node_def av_import_from_def Let_def split: option.splits)
next
  case (3 v line col f args)
  then show ?case by (auto simp: av_call_none [of v line col f args] list_all_iff)
qed (auto simp: av_forbidden_node_def list_all_iff)

text \<open>Every violation is an error, so a tree is valid exactly when it has none.\<close>

lemma found_error [simp]: "vi_severity (found line col code m) = SEVERITY_ERROR"
  by (simp add: found_def)

lemma av_call_errors: "w \<in> set (av_call v line col f) \<Longrightarrow> vi_severity w = SEVERITY_ERROR"
  by (auto simp: av_call_def split: py_ast.splits if_splits)

lemma av_import_from_errors: "w \<in> set (av_import_from v line col m level names) \<Longrightarrow> vi_severity w = SEVERITY_ERROR"
  by (auto simp: av_import_from_def Let_def split: if_splits)

lemma av_visit_errors: "w \<in> set (av_visit v t) \<Longrightarrow> vi_severity w = SEVERITY_ERROR"
  by (induction v t rule: av_visit.induct) (auto dest: av_call_errors av_import_from_errors)

lemma ast_valid_iff: "is_valid (av_visit v t) \<longleftrightarrow> list_all (\<lambda>n. \<not> av_forbidden_node v n) (nodes t)"
proof -
  have "has_errors (av_visit v t) \<longleftrightarrow> av_visit v t \<noteq> []"
    using av_visit_errors [of _ v t] by (cases "av_visit v t") (auto simp: has_errors_def list_ex_iff)
  then show ?thesis by (simp add: is_valid_def ast_validator_complete)
qed

section \<open>The static layer is at least as strict as the import hooks\<close>

text \<open>The absolute modules a node imports.\<close>

definition imports_of :: "py_ast \<Rightarrow> string list" where
  "imports_of t =
     (case t of A_Import _ _ names \<Rightarrow> names
      | A_ImportFrom _ _ (Some m) level _ \<Rightarrow> if level = 0 \<and> m \<noteq> [] then [m] else []
      | _ \<Rightarrow> [])"

definition default_validator :: import_validator where
  "default_validator = \<lparr>iv_blocked = DENYLIST_MODULES, iv_allowed = FROZEN_ALLOWED_MODULES\<rparr>"

lemma allowed_are_roots: "list_all (\<lambda>m. root_of m = m) FROZEN_ALLOWED_MODULES"
  by code_simp

lemma static_policy_stricter:
  assumes "\<not> iv_module_is_blocked default_validator m"
  shows "is_allowed (new_policy None None) m" "root_of m \<notin> set DENYLIST_MODULES"
proof -
  have "root_of m \<notin> set DENYLIST_MODULES"
  proof
    assume r: "root_of m \<in> set DENYLIST_MODULES"
    then have "m \<in> set FROZEN_ALLOWED_MODULES" "m \<notin> set DENYLIST_MODULES"
      using assms by (auto simp: iv_module_is_blocked_def default_validator_def split: if_splits)
    then have "root_of m = m" using allowed_are_roots unfolding list_all_iff by blast
    then show False using r \<open>m \<notin> set DENYLIST_MODULES\<close> by simp
  qed
  moreover from this have "root_of m \<in> set FROZEN_ALLOWED_MODULES"
    using assms by (auto simp: iv_module_is_blocked_def default_validator_def split: if_splits)
  ultimately show "is_allowed (new_policy None None) m" "root_of m \<notin> set DENYLIST_MODULES"
    by (simp_all add: is_allowed_def module_is_blocked_def new_policy_def)
qed

text \<open>
  C18.  What the static layer accepts the import hooks accept too: every module that an accepted tree imports absolutely, at any
  depth, is allowed by the importer with the default policy, and none of them lies under a root of the denylist.\<close>

theorem accepted_source_imports_allowed:
  assumes "iv_validate parse default_validator source = Inr []"
  shows "\<exists>t. parse source = Inr t \<and> list_all (\<lambda>n. list_all (\<lambda>m. is_allowed (new_policy None None) m
    \<and> root_of m \<notin> set DENYLIST_MODULES) (imports_of n)) (nodes t)"
proof -
  obtain t where t: "parse source = Inr t" "iv_visit default_validator t = []"
    using assms by (auto simp: iv_validate_def split: sum.splits)
  have "list_all (\<lambda>m. is_allowed (new_policy None None) m \<and> root_of m \<notin> set DENYLIST_MODULES) (imports_of n)"
    if "\<not> forbidden_node default_validator n" for n
    using that static_policy_stricter
    by (auto simp: imports_of_def forbidden_node_def list_all_iff list_ex_iff split: py_ast.splits option.splits)
  then show ?thesis using t import_validator_complete [of default_validator t] by (auto simp: list_all_iff)
qed

definition a_source :: "nat \<Rightarrow> nat + py_ast" where
  "a_source n = Inr (A_Node [A_Import 1 0 [''math'', ''collections.abc''], A_Node [A_Call 2 0 (A_Name ''len'') [A_Name ''x'']]])"

lemma accepted_source_imports_allowed_witness:
  "\<exists>t. a_source 0 = Inr t \<and> list_all (\<lambda>n. list_all (\<lambda>m. is_allowed (new_policy None None) m
    \<and> root_of m \<notin> set DENYLIST_MODULES) (imports_of n)) (nodes t)"
  by (rule accepted_source_imports_allowed) code_simp

text \<open>The denylist wins over any allow list the importer is given, but for the interpreter's own modules, one of which
  is on the denylist.\<close>

lemma denied_root_stays_denied:
  "is_allowed (new_policy blocked allowed) m \<Longrightarrow> root_of m \<in> set DENYLIST_MODULES \<Longrightarrow> root_of m = ''faulthandler''"
proof -
  assume a: "is_allowed (new_policy blocked allowed) m" and d: "root_of m \<in> set DENYLIST_MODULES"
  have "module_is_blocked (new_policy blocked allowed) m" using d by (simp add: module_is_blocked_def new_policy_def)
  then have "root_of m \<in> set INTERNAL_BYPASS_MODULES" using a by (simp add: is_allowed_def split: if_splits)
  moreover have "list_all (\<lambda>r. r \<in> set DENYLIST_MODULES \<longrightarrow> r = ''faulthandler'') INTERNAL_BYPASS_MODULES" by code_simp
  ultimately show ?thesis using d unfolding list_all_iff by blast
qed

text \<open>The package of the sandbox itself is importable inside it.\<close>

lemma sandbox_can_be_imported:
  "is_allowed (new_policy None None) ''engine.plugins.sandbox''"
  "iv_visit default_validator (A_ImportFrom 1 0 (Some ''engine.plugins.sandbox'') 0 [''_in_sandbox_execution'']) = []"
  by code_simp+

section \<open>Hosts\<close>

lemma before_clean: "c \<in> set ds \<Longrightarrow> c \<notin> set (before ds s)"
  unfolding before_def by (auto dest: set_takeWhileD)

lemma extract_length: "extract_hostnames bracket_ok es = Inr hs \<Longrightarrow> length hs = length es"
  by (induction es arbitrary: hs) (auto split: sum.splits)

lemma no_entry_no_host: "is_host_allowed [] h = False" "send_allowed [] h = False"
  by (simp_all add: is_host_allowed_def send_allowed_def host_matches_def split: option.splits)

text \<open>An entry permits its host and the names below it, and not the names that merely end with its letters.\<close>

lemma host_matches_iff: "host_matches [ep] name \<longleftrightarrow> name = ep \<or> (\<exists>sub. name = sub @ ''.'' @ ep)"
  by (auto simp: host_matches_def suffix_def)

lemma hostname_examples:
  "hostname_of (\<lambda>_. True) (Ep_Str ''https://API.example.com'') = Inr ''api.example.com''"
  "hostname_of (\<lambda>_. True) (Ep_Str ''api.example.com:8080'') = Inl HasPort"
  "hostname_of (\<lambda>_. True) (Ep_Str ''api.example.com/v1'') = Inl HasPath"
  "host_matches [''example.com''] ''evil-example.com'' = False"
  by code_simp+

section \<open>Paths\<close>

lemma validate_path_agrees: "path_is_allowed realpath v p write \<longleftrightarrow> \<not> isl (validate_path realpath v p write)"
  by (auto simp: path_is_allowed_def validate_path_def resolve_path_def split: path_arg.splits)

lemma validated_path_inside:
  "validate_path realpath v p write = Inr r \<Longrightarrow> under_dirs (pv_allowed v) r \<and> (write \<longrightarrow> pv_writable v)"
  by (auto simp: validate_path_def split: path_arg.splits if_splits)

text \<open>Without write permission no mode that writes, creates or appends passes the hook.\<close>

lemma open_hook_read_only:
  "open_hook realpath v file mode = Inr f \<Longrightarrow> pv_active v \<Longrightarrow> \<not> pv_writable v \<Longrightarrow> \<not> list_ex (\<lambda>c. c \<in> set mode) ''wax+''"
  unfolding open_hook_def by (auto dest: validated_path_inside split: sum.splits if_splits)

text \<open>The root directory permits nothing but itself: the code looks for two slashes.\<close>

lemma root_directory_permits_nothing: "under_dirs [''/''] ''/etc/hosts'' = False" "under_dirs [''/''] ''/'' = True"
  by code_simp+

section \<open>Reading the source\<close>

lemma read_bounded: "read_plugin_source max_size reported content = Inr data \<Longrightarrow> length data \<le> max_size \<and> data = content"
  by (auto simp: read_plugin_source_def Let_def split: if_splits)

end
