(* ===== verification/Sandbox.thy ===== *)
theory Sandbox
  imports PluginPolicy Rounding
begin

text \<open>
  The strategy sandbox: \<open>plugins/sandbox/__init__.py\<close> with the hooks of \<open>plugins/restricted_importer.py\<close>.

  The process is the record of the places the sandbox patches: \<open>builtins.__import__\<close>, \<open>sys.meta_path\<close>,
  \<open>socket.getaddrinfo\<close>, \<open>builtins.object\<close>, \<open>getattr\<close>, \<open>open\<close>, \<open>io.open\<close>, \<open>httpx.AsyncClient.send\<close>, the flag and two
  resource limits.  What a place holds is the genuine function or the hook of a sandbox, named by its number.  The send
  hook is a closure and holds what it captured.  Calls through the hooks take fuel, because a hook calls whatever was
  there when it was installed.  The file system (\<open>realpath\<close>), the parser of \<open>float\<close> and of \<open>int\<close> and the operating
  system's answer to \<open>setrlimit\<close> are arguments.
\<close>

section \<open>The process and the sandboxes\<close>

datatype import_fn = RealImport | ImportHook nat

datatype resolver = RealResolver | ResolverHook nat

datatype opener = RealOpen | SandboxOpen nat

datatype getattr_fn = RealGetattr | SandboxGetattr nat

datatype object_class = RealObject | RestrictedObject

datatype sender = RealSend | SendHook "string list" sender

type_synonym rlimit = "int \<times> int"

record process =
  pr_import :: import_fn
  pr_meta_path :: "nat list"
  pr_getaddrinfo :: resolver
  pr_object :: object_class
  pr_getattr :: getattr_fn
  pr_io_open :: opener
  pr_open :: opener
  pr_send :: sender
  pr_in_sandbox :: bool
  pr_rlimit_as :: rlimit
  pr_rlimit_nofile :: rlimit

record sandbox_metrics =
  sm_total_evaluations :: nat
  sm_total_signals_emitted :: nat
  sm_total_cpu_time_ms :: rat
  sm_avg_evaluation_ms :: rat
  sm_errors :: nat
  sm_last_error :: "string option"

record sandbox =
  sb_name :: string
  sb_policy :: importer_policy
  sb_hosts :: "string list"
  sb_installed :: bool
  sb_original_import :: "import_fn option"
  sb_original_getaddrinfo :: "resolver option"
  sb_original_object :: "object_class option"
  sb_original_getattr :: "getattr_fn option"
  sb_original_io_open :: "opener option"
  sb_original_open :: "opener option"
  sb_original_send :: "sender option"
  sb_has_resource :: bool
  sb_saved_as :: "rlimit option"
  sb_saved_nofile :: "rlimit option"
  sb_max_memory :: string
  sb_max_eval_seconds :: int
  sb_work_dir :: "string option"
  sb_artifacts :: "string list"
  sb_counted :: bool
  sb_metrics :: sandbox_metrics

record world =
  wo_process :: process
  wo_sandboxes :: "nat \<Rightarrow> sandbox"

definition put :: "nat \<Rightarrow> sandbox \<Rightarrow> process \<Rightarrow> world \<Rightarrow> world" where
  "put i s p w = w\<lparr>wo_process := p, wo_sandboxes := (wo_sandboxes w)(i := s)\<rparr>"

section \<open>The import hook\<close>

definition install :: "nat \<Rightarrow> world \<Rightarrow> world" where
  "install i w =
     (let s = wo_sandboxes w i; p = wo_process w in
      if sb_installed s then w
      else put i (s\<lparr>sb_original_getaddrinfo := Some (pr_getaddrinfo p), sb_original_import := Some (pr_import p),
                    sb_installed := True\<rparr>)
                 (p\<lparr>pr_getaddrinfo := ResolverHook i, pr_import := ImportHook i, pr_meta_path := i # pr_meta_path p\<rparr>) w)"

definition restored_import :: "nat \<Rightarrow> sandbox \<Rightarrow> process \<Rightarrow> import_fn" where
  "restored_import i s p =
     (case sb_original_import s of Some f \<Rightarrow> if pr_import p = ImportHook i then f else pr_import p
      | None \<Rightarrow> pr_import p)"

definition restored_resolver :: "nat \<Rightarrow> sandbox \<Rightarrow> process \<Rightarrow> resolver" where
  "restored_resolver i s p =
     (case sb_original_getaddrinfo s of Some f \<Rightarrow> if pr_getaddrinfo p = ResolverHook i then f else pr_getaddrinfo p
      | None \<Rightarrow> pr_getaddrinfo p)"

definition uninstall :: "nat \<Rightarrow> world \<Rightarrow> world" where
  "uninstall i w =
     (let s = wo_sandboxes w i; p = wo_process w in
      if \<not> sb_installed s then w
      else put i (s\<lparr>sb_original_getaddrinfo := None, sb_installed := False\<rparr>)
                 (p\<lparr>pr_import := restored_import i s p, pr_meta_path := remove1 i (pr_meta_path p),
                    pr_getaddrinfo := restored_resolver i s p\<rparr>) w)"

section \<open>Resource limits\<close>

text \<open>What \<open>float\<close> makes of a text; \<open>int\<close> of an infinite float is the \<open>OverflowError\<close> that nobody catches.\<close>

datatype parsed_float = F_Finite rat | F_Infinite | F_Nan

datatype memory_result = Bytes int | Mem_ValueError | Mem_OverflowError

definition upper_ascii :: "string \<Rightarrow> string" where
  "upper_ascii s = map (\<lambda>c. if lower_char c then char_of (of_char c - 32 :: nat) else c) s"

definition MEMORY_UNITS :: "(string \<times> int) list" where
  "MEMORY_UNITS = [(''GB'', 1024 ^ 3), (''MB'', 1024 ^ 2), (''KB'', 1024), (''B'', 1)]"

definition scaled_bytes :: "parsed_float option \<Rightarrow> int \<Rightarrow> memory_result" where
  "scaled_bytes v multiplier =
     (case v of None \<Rightarrow> Mem_ValueError | Some F_Nan \<Rightarrow> Mem_ValueError | Some F_Infinite \<Rightarrow> Mem_OverflowError
      | Some (F_Finite x) \<Rightarrow>
          (let y = fmul x (fint multiplier) in
           if 2 ^ 1024 \<le> \<bar>y\<bar> then Mem_OverflowError else Bytes (if 0 \<le> y then \<lfloor>y\<rfloor> else \<lceil>y\<rceil>)))"

definition parse_memory :: "(string \<Rightarrow> parsed_float option) \<Rightarrow> (string \<Rightarrow> int option) \<Rightarrow> string \<Rightarrow> memory_result" where
  "parse_memory parse_float parse_int mem_str =
     (let val = upper_ascii (py_strip mem_str) in
      case find (\<lambda>u. suffix (fst u) val) MEMORY_UNITS of
        Some (unit, multiplier) \<Rightarrow> scaled_bytes (parse_float (take (length val - length unit) val)) multiplier
      | None \<Rightarrow> (case parse_int val of None \<Rightarrow> Mem_ValueError | Some n \<Rightarrow> Bytes n))"

text \<open>Setting a limit and remembering the old one; \<open>settable\<close> is the system's answer.\<close>

definition limited :: "(rlimit \<Rightarrow> bool) \<Rightarrow> int \<Rightarrow> rlimit \<Rightarrow> rlimit option" where
  "limited settable bound old =
     (let new = (min bound (snd old), snd old) in if settable new then Some new else None)"

definition apply_nofile :: "(rlimit \<Rightarrow> bool) \<Rightarrow> nat \<Rightarrow> world \<Rightarrow> world" where
  "apply_nofile settable i w =
     (let s = wo_sandboxes w i; p = wo_process w in
      case limited settable 64 (pr_rlimit_nofile p) of None \<Rightarrow> w
      | Some new \<Rightarrow> put i (s\<lparr>sb_saved_nofile := Some (pr_rlimit_nofile p)\<rparr>) (p\<lparr>pr_rlimit_nofile := new\<rparr>) w)"

definition apply_memory :: "(rlimit \<Rightarrow> bool) \<Rightarrow> int \<Rightarrow> nat \<Rightarrow> world \<Rightarrow> world" where
  "apply_memory settable bytes i w =
     (let s = wo_sandboxes w i; p = wo_process w in
      case limited settable bytes (pr_rlimit_as p) of None \<Rightarrow> w
      | Some new \<Rightarrow> put i (s\<lparr>sb_saved_as := Some (pr_rlimit_as p)\<rparr>) (p\<lparr>pr_rlimit_as := new\<rparr>) w)"

text \<open>The left value is the \<open>OverflowError\<close> with the world it leaves.\<close>

definition apply_resource_limits ::
  "(rlimit \<Rightarrow> bool) \<Rightarrow> (string \<Rightarrow> memory_result) \<Rightarrow> nat \<Rightarrow> world \<Rightarrow> world + world" where
  "apply_resource_limits settable memory i w =
     (if \<not> sb_has_resource (wo_sandboxes w i) then Inr w
      else case memory (sb_max_memory (wo_sandboxes w i)) of
          Mem_OverflowError \<Rightarrow> Inl w
        | Mem_ValueError \<Rightarrow> Inr (apply_nofile settable i w)
        | Bytes n \<Rightarrow> Inr (apply_nofile settable i (apply_memory settable n i w)))"

definition restore_resource_limits :: "(rlimit \<Rightarrow> bool) \<Rightarrow> nat \<Rightarrow> world \<Rightarrow> world" where
  "restore_resource_limits settable i w =
     (let s = wo_sandboxes w i; p = wo_process w in
      if \<not> sb_has_resource s then w
      else put i (s\<lparr>sb_saved_as := None, sb_saved_nofile := None\<rparr>)
             (p\<lparr>pr_rlimit_as := (case sb_saved_as s of Some l \<Rightarrow> if settable l then l else pr_rlimit_as p | None \<Rightarrow> pr_rlimit_as p),
                pr_rlimit_nofile :=
                  (case sb_saved_nofile s of Some l \<Rightarrow> if settable l then l else pr_rlimit_nofile p | None \<Rightarrow> pr_rlimit_nofile p)\<rparr>) w)"

section \<open>Activation\<close>

definition patch :: "nat \<Rightarrow> world \<Rightarrow> world" where
  "patch i w =
     (let s = wo_sandboxes w i; p = wo_process w in
      put i (s\<lparr>sb_original_object := Some (pr_object p), sb_original_getattr := Some (pr_getattr p),
               sb_original_io_open := Some (pr_io_open p), sb_original_send := Some (pr_send p),
               sb_original_open := Some (pr_open p)\<rparr>)
            (p\<lparr>pr_object := RestrictedObject, pr_getattr := SandboxGetattr i, pr_io_open := SandboxOpen i,
               pr_send := SendHook (sb_hosts s) (pr_send p), pr_open := SandboxOpen i\<rparr>) w)"

definition set_flag :: "bool \<Rightarrow> world \<Rightarrow> world" where
  "set_flag b w = w\<lparr>wo_process := (wo_process w)\<lparr>pr_in_sandbox := b\<rparr>\<rparr>"

definition activate_restrictions ::
  "(rlimit \<Rightarrow> bool) \<Rightarrow> (string \<Rightarrow> memory_result) \<Rightarrow> nat \<Rightarrow> world \<Rightarrow> world + world" where
  "activate_restrictions settable memory i w =
     (case apply_resource_limits settable memory i (patch i (install i w)) of
        Inl w' \<Rightarrow> Inl w' | Inr w' \<Rightarrow> Inr (set_flag True w'))"

definition orig :: "'f option \<Rightarrow> 'f \<Rightarrow> 'f" where
  "orig saved current = (case saved of Some f \<Rightarrow> f | None \<Rightarrow> current)"

definition unpatch :: "nat \<Rightarrow> world \<Rightarrow> world" where
  "unpatch i w =
     (let s = wo_sandboxes w i; p = wo_process w in
      put i (s\<lparr>sb_original_object := None, sb_original_getattr := None, sb_original_io_open := None,
               sb_original_send := None, sb_original_open := None\<rparr>)
            (p\<lparr>pr_object := orig (sb_original_object s) (pr_object p), pr_getattr := orig (sb_original_getattr s) (pr_getattr p),
               pr_io_open := orig (sb_original_io_open s) (pr_io_open p), pr_send := orig (sb_original_send s) (pr_send p),
               pr_open := orig (sb_original_open s) (pr_open p)\<rparr>) w)"

definition deactivate_restrictions :: "(rlimit \<Rightarrow> bool) \<Rightarrow> nat \<Rightarrow> world \<Rightarrow> world" where
  "deactivate_restrictions settable i w =
     restore_resource_limits settable i (unpatch i (uninstall i (set_flag False w)))"

definition cleanup :: "(rlimit \<Rightarrow> bool) \<Rightarrow> nat \<Rightarrow> world \<Rightarrow> world" where
  "cleanup settable i w =
     (let w' = deactivate_restrictions settable i w in
      put i ((wo_sandboxes w' i)\<lparr>sb_work_dir := None\<rparr>) (wo_process w') w')"


section \<open>Calls through the hooks\<close>

text \<open>
  \<open>name\<close> is what the caller wrote, \<open>absolute\<close> the absolute name it means; modules that are loaded do not ask the
  finders on \<open>sys.meta_path\<close>.
\<close>

datatype import_result = Imported | DeniedByHook nat | DeniedByFinder nat | NoOriginalImport

definition finder_objects :: "world \<Rightarrow> string \<Rightarrow> nat option" where
  "finder_objects w absolute = find (\<lambda>j. \<not> is_allowed (sb_policy (wo_sandboxes w j)) absolute) (pr_meta_path (wo_process w))"

fun call_import :: "nat \<Rightarrow> world \<Rightarrow> string list \<Rightarrow> string \<Rightarrow> nat \<Rightarrow> string \<Rightarrow> import_fn \<Rightarrow> import_result option" where
  "call_import 0 w loaded name level absolute f = None"
| "call_import (Suc n) w loaded name level absolute RealImport =
     (if absolute \<in> set loaded then Some Imported
      else case finder_objects w absolute of Some j \<Rightarrow> Some (DeniedByFinder j) | None \<Rightarrow> Some Imported)"
| "call_import (Suc n) w loaded name level absolute (ImportHook i) =
     (if level = 0 \<and> \<not> is_allowed (sb_policy (wo_sandboxes w i)) name then Some (DeniedByHook i)
      else case sb_original_import (wo_sandboxes w i) of None \<Rightarrow> Some NoOriginalImport
           | Some f \<Rightarrow> call_import n w loaded name level absolute f)"

datatype resolve_result = Resolved string | HostDenied nat | NoOriginalResolver

fun call_getaddrinfo :: "nat \<Rightarrow> world \<Rightarrow> string \<Rightarrow> resolver \<Rightarrow> resolve_result option" where
  "call_getaddrinfo 0 w host f = None"
| "call_getaddrinfo (Suc n) w host RealResolver = Some (Resolved host)"
| "call_getaddrinfo (Suc n) w host (ResolverHook i) =
     (if \<not> is_host_allowed (sb_hosts (wo_sandboxes w i)) (Some host) then Some (HostDenied i)
      else case sb_original_getaddrinfo (wo_sandboxes w i) of None \<Rightarrow> Some NoOriginalResolver
           | Some f \<Rightarrow> call_getaddrinfo n w host f)"

datatype file_arg = F_Descriptor int | F_Path string

datatype open_result = Opened file_arg string | DescriptorDenied | AccessDenied | ModeDenied | NoOriginalOpen

definition readable_paths :: "(string \<Rightarrow> string) \<Rightarrow> sandbox \<Rightarrow> string list" where
  "readable_paths realpath s =
     realpath (case sb_work_dir s of None \<Rightarrow> [] | Some d \<Rightarrow> d)
     # map (\<lambda>a. realpath a @ ''/'') (sb_artifacts s) @ map realpath (sb_artifacts s)"

definition path_readable :: "(string \<Rightarrow> string) \<Rightarrow> sandbox \<Rightarrow> string \<Rightarrow> bool" where
  "path_readable realpath s resolved = under_dirs (filter (\<lambda>p. p \<noteq> []) (readable_paths realpath s)) resolved"

fun call_open :: "nat \<Rightarrow> (string \<Rightarrow> string) \<Rightarrow> world \<Rightarrow> file_arg \<Rightarrow> string \<Rightarrow> opener \<Rightarrow> open_result option" where
  "call_open 0 realpath w file mode f = None"
| "call_open (Suc n) realpath w file mode RealOpen = Some (Opened file mode)"
| "call_open (Suc n) realpath w file mode (SandboxOpen i) =
     (let s = wo_sandboxes w i;
          original = (\<lambda>arg. case sb_original_open s of None \<Rightarrow> Some NoOriginalOpen
                            | Some f \<Rightarrow> call_open n realpath w arg mode f)
      in if \<not> pr_in_sandbox (wo_process w) then original file
         else case file of F_Descriptor _ \<Rightarrow> Some DescriptorDenied
           | F_Path path \<Rightarrow>
               if \<not> path_readable realpath s (realpath path) then Some AccessDenied
               else if list_ex (\<lambda>c. c \<in> set mode) ''wa+'' then Some ModeDenied
               else original (F_Path (realpath path)))"

text \<open>A request ends at the genuine \<open>send\<close> or at a hook that objects.\<close>

fun call_send :: "world \<Rightarrow> string option \<Rightarrow> sender \<Rightarrow> bool" where
  "call_send w host RealSend = True"
| "call_send w host (SendHook hosts original) =
     (if \<not> pr_in_sandbox (wo_process w) then call_send w host original
      else send_allowed hosts host \<and> call_send w host original)"

text \<open>\<open>getattr(obj, name, *default)\<close> as the strategy sees it, and the metrics it leaves.\<close>

definition BLOCKED_ATTRS :: "string list" where
  "BLOCKED_ATTRS =
     [''__class__'', ''__base__'', ''__bases__'', ''__mro__'', ''__subclasses__'', ''__globals__'',
      ''__closure__'', ''__code__'', ''__func__'', ''__self__'', ''__defaults__'', ''__kwdefaults__'',
      ''__builtins__'', ''__dict__'', ''__wrapped__'', ''__reduce__'', ''__reduce_ex__'', ''__loader__'',
      ''__spec__'', ''__objclass__'', ''__init_subclass__'', ''__subclasshook__'']"

datatype getattr_result = RealValue | DefaultValue | AttributeDenied

definition violated :: "string \<Rightarrow> sandbox \<Rightarrow> sandbox" where
  "violated name s =
     s\<lparr>sb_metrics := (sb_metrics s)\<lparr>sm_errors := sm_errors (sb_metrics s) + 1,
         sm_last_error := Some (''Attribute '' @ quoted name @ '' is not accessible in strategy sandbox'')\<rparr>,
       sb_counted := True\<rparr>"

definition restricted_getattr :: "sandbox \<Rightarrow> string \<Rightarrow> bool \<Rightarrow> getattr_result \<times> sandbox" where
  "restricted_getattr s name has_default =
     (if name \<in> set BLOCKED_ATTRS then (if has_default then DefaultValue else AttributeDenied, violated name s)
      else (RealValue, s))"

section \<open>An evaluation\<close>

text \<open>
  What the strategy did: the attributes it asked for, and how it ended.  An exception is tagged when it is the one
  \<open>getattr\<close> raised.  A raw signal is one with its strategy id, or another object; a result that cannot be iterated over
  is \<open>None\<close>.
\<close>

datatype 'a raw_signal = RawSignal string 'a | RawOther

datatype 'a strategy_end = Returned "'a raw_signal list option" | TimedOut | Raised string bool

definition attempt :: "string \<times> bool \<Rightarrow> sandbox \<Rightarrow> sandbox" where
  "attempt a s = snd (restricted_getattr s (fst a) (snd a))"

definition convert_signals :: "string \<Rightarrow> 'a raw_signal list \<Rightarrow> (string \<times> 'a) list" where
  "convert_signals name raw =
     concat (map (\<lambda>r. case r of RawSignal sid x \<Rightarrow> [(if sid = [] then name else sid, x)] | RawOther \<Rightarrow> []) raw)"

definition count_error :: "string \<Rightarrow> sandbox \<Rightarrow> sandbox" where
  "count_error msg s = s\<lparr>sb_metrics := (sb_metrics s)\<lparr>sm_errors := sm_errors (sb_metrics s) + 1, sm_last_error := Some msg\<rparr>\<rparr>"

definition update_metrics :: "rat \<Rightarrow> nat \<Rightarrow> sandbox \<Rightarrow> sandbox" where
  "update_metrics elapsed_ms emitted s =
     (let m = sb_metrics s; total_ms = fadd (sm_total_cpu_time_ms m) elapsed_ms; n = sm_total_evaluations m + 1 in
      s\<lparr>sb_metrics := m\<lparr>sm_total_evaluations := n, sm_total_signals_emitted := sm_total_signals_emitted m + emitted,
          sm_total_cpu_time_ms := total_ms, sm_avg_evaluation_ms := fdiv total_ms (fint (int n))\<rparr>\<rparr>)"

definition update_sandbox :: "nat \<Rightarrow> (sandbox \<Rightarrow> sandbox) \<Rightarrow> world \<Rightarrow> world" where
  "update_sandbox i f w = w\<lparr>wo_sandboxes := (wo_sandboxes w)(i := f (wo_sandboxes w i))\<rparr>"

datatype evaluation_error = ActivationOverflow | NotIterable

definition timeout_message :: "(int \<Rightarrow> string) \<Rightarrow> sandbox \<Rightarrow> string" where
  "timeout_message show s = ''Timeout after '' @ show (sb_max_eval_seconds s) @ ''s''"

text \<open>\<open>_evaluate_inner\<close>, which runs under the lock.  \<open>show\<close> prints the time-out.\<close>

definition evaluate_inner ::
  "(rlimit \<Rightarrow> bool) \<Rightarrow> (string \<Rightarrow> memory_result) \<Rightarrow> (int \<Rightarrow> string) \<Rightarrow> nat \<Rightarrow> (string \<times> bool) list \<Rightarrow> 'a strategy_end \<Rightarrow>
   rat \<Rightarrow> world \<Rightarrow> (evaluation_error + (string \<times> 'a) list) \<times> world" where
  "evaluate_inner settable memory show i attempts ending elapsed_ms w =
     (case activate_restrictions settable memory i (update_sandbox i (\<lambda>s. s\<lparr>sb_counted := False\<rparr>) w) of
        Inl w1 \<Rightarrow> (Inl ActivationOverflow, w1)
      | Inr w1 \<Rightarrow>
          (let w2 = update_sandbox i (fold attempt attempts) w1 in
           case ending of
             TimedOut \<Rightarrow>
               (Inr [], deactivate_restrictions settable i
                  (update_sandbox i (\<lambda>s. count_error (timeout_message show s) s) w2))
           | Raised msg tagged \<Rightarrow>
               (Inr [], deactivate_restrictions settable i
                  (update_sandbox i (\<lambda>s. (if tagged then s else count_error msg s)\<lparr>sb_counted := False\<rparr>) w2))
           | Returned None \<Rightarrow> (Inl NotIterable, deactivate_restrictions settable i w2)
           | Returned (Some raw) \<Rightarrow>
               (let w3 = deactivate_restrictions settable i w2;
                    signals = convert_signals (sb_name (wo_sandboxes w3 i)) raw in
                (Inr signals, update_sandbox i (update_metrics elapsed_ms (length signals)) w3))))"

text \<open>\<open>from_factory\<close> runs the factory inside the restrictions.\<close>

definition from_factory :: "(rlimit \<Rightarrow> bool) \<Rightarrow> (string \<Rightarrow> memory_result) \<Rightarrow> nat \<Rightarrow> world \<Rightarrow> world + world" where
  "from_factory settable memory i w =
     (case activate_restrictions settable memory i w of Inl w1 \<Rightarrow> Inl w1
      | Inr w1 \<Rightarrow> Inr (deactivate_restrictions settable i w1))"


section \<open>What an operation changes\<close>

definition quiet :: "sandbox \<Rightarrow> bool" where
  "quiet s \<longleftrightarrow> \<not> sb_installed s \<and> sb_original_getaddrinfo s = None \<and> sb_original_object s = None
     \<and> sb_original_getattr s = None \<and> sb_original_io_open s = None \<and> sb_original_open s = None
     \<and> sb_original_send s = None \<and> sb_saved_as s = None \<and> sb_saved_nofile s = None"

lemmas world_defs = put_def install_def uninstall_def patch_def unpatch_def set_flag_def update_sandbox_def
  apply_memory_def apply_nofile_def restore_resource_limits_def restored_import_def restored_resolver_def orig_def Let_def

text \<open>What a strategy and the bookkeeping of an evaluation change of a sandbox: its metrics and the mark.\<close>

definition measured :: "sandbox \<Rightarrow> sandbox \<Rightarrow> bool" where
  "measured s t \<longleftrightarrow> t = s\<lparr>sb_counted := sb_counted t, sb_metrics := sb_metrics t\<rparr>"

lemma measured_refl [simp]: "measured s s"
  by (simp add: measured_def)

lemma measured_trans: "measured s t \<Longrightarrow> measured t u \<Longrightarrow> measured s u"
  by (cases s, cases t, cases u) (simp add: measured_def)

lemma measured_updates [simp]:
  "measured s (s\<lparr>sb_counted := b\<rparr>)" "measured s (count_error m s)" "measured s (update_metrics e n s)" "measured s (attempt a s)"
  by (simp_all add: measured_def count_error_def update_metrics_def attempt_def restricted_getattr_def violated_def Let_def)

lemma measured_attempts: "measured s (fold attempt as s)"
proof (induction as arbitrary: s)
  case (Cons a as)
  show ?case using measured_trans [OF measured_updates(4) Cons.IH] by simp
qed simp

lemma measured_quiet: "measured s t \<Longrightarrow> quiet t \<longleftrightarrow> quiet s"
  unfolding measured_def by (elim ssubst) (simp add: quiet_def)

text \<open>What activation leaves.\<close>

lemma activate_process:
  assumes "activate_restrictions settable memory i w = Inr w1" "\<not> sb_installed (wo_sandboxes w i)"
  shows "pr_import (wo_process w1) = ImportHook i" "pr_getaddrinfo (wo_process w1) = ResolverHook i"
    "pr_open (wo_process w1) = SandboxOpen i" "pr_io_open (wo_process w1) = SandboxOpen i"
    "pr_getattr (wo_process w1) = SandboxGetattr i" "pr_object (wo_process w1) = RestrictedObject"
    "pr_send (wo_process w1) = SendHook (sb_hosts (wo_sandboxes w i)) (pr_send (wo_process w))"
    "pr_in_sandbox (wo_process w1)"
    "sb_policy (wo_sandboxes w1 i) = sb_policy (wo_sandboxes w i)" "sb_hosts (wo_sandboxes w1 i) = sb_hosts (wo_sandboxes w i)"
    "sb_work_dir (wo_sandboxes w1 i) = sb_work_dir (wo_sandboxes w i)" "sb_artifacts (wo_sandboxes w1 i) = sb_artifacts (wo_sandboxes w i)"
    "sb_original_open (wo_sandboxes w1 i) = Some (pr_open (wo_process w))"
  using assms
  by (auto simp: activate_restrictions_def apply_resource_limits_def world_defs split: sum.splits if_splits memory_result.splits option.splits)

lemma activate_others:
  assumes "activate_restrictions settable memory i w = Inr w1" "j \<noteq> i"
  shows "wo_sandboxes w1 j = wo_sandboxes w j"
  using assms
  by (auto simp: activate_restrictions_def apply_resource_limits_def world_defs split: sum.splits if_splits memory_result.splits option.splits)

definition settings :: "sandbox \<Rightarrow> string \<times> importer_policy \<times> string list \<times> bool \<times> string \<times> int \<times> string list" where
  "settings s = (sb_name s, sb_policy s, sb_hosts s, sb_has_resource s, sb_max_memory s, sb_max_eval_seconds s, sb_artifacts s)"

lemma measured_settings: "measured s t \<Longrightarrow> settings t = settings s"
  unfolding measured_def by (elim ssubst) (simp add: settings_def)


definition patched :: "nat \<Rightarrow> sandbox \<Rightarrow> process \<Rightarrow> rlimit \<Rightarrow> rlimit \<Rightarrow> process" where
  "patched i s p la lf =
     p\<lparr>pr_import := ImportHook i, pr_meta_path := i # pr_meta_path p, pr_getaddrinfo := ResolverHook i,
       pr_object := RestrictedObject, pr_getattr := SandboxGetattr i, pr_io_open := SandboxOpen i, pr_open := SandboxOpen i,
       pr_send := SendHook (sb_hosts s) (pr_send p), pr_in_sandbox := True, pr_rlimit_as := la, pr_rlimit_nofile := lf\<rparr>"

definition holding :: "process \<Rightarrow> rlimit option \<Rightarrow> rlimit option \<Rightarrow> sandbox \<Rightarrow> sandbox" where
  "holding p sa sn s =
     s\<lparr>sb_installed := True, sb_original_import := Some (pr_import p), sb_original_getaddrinfo := Some (pr_getaddrinfo p),
       sb_original_object := Some (pr_object p), sb_original_getattr := Some (pr_getattr p),
       sb_original_io_open := Some (pr_io_open p), sb_original_open := Some (pr_open p), sb_original_send := Some (pr_send p),
       sb_saved_as := sa, sb_saved_nofile := sn\<rparr>"

definition saves :: "bool \<Rightarrow> rlimit \<Rightarrow> rlimit \<Rightarrow> rlimit option \<Rightarrow> bool" where
  "saves has_resource old new saved \<longleftrightarrow> saved = None \<and> new = old \<or> has_resource \<and> saved = Some old"

lemma none_saved:
  "sb_saved_as s = None \<Longrightarrow> s\<lparr>sb_saved_as := None\<rparr> = s" "sb_saved_nofile s = None \<Longrightarrow> s\<lparr>sb_saved_nofile := None\<rparr> = s"
  by (cases s; simp)+

lemma put_same: "put i (wo_sandboxes w i) (wo_process w) w = w"
  by (simp add: put_def)

lemma apply_limits_cases:
  assumes "apply_resource_limits settable memory i w = Inr w1" "sb_saved_as (wo_sandboxes w i) = None"
    "sb_saved_nofile (wo_sandboxes w i) = None"
  shows "\<exists>la lf sa sn. w1 = put i ((wo_sandboxes w i)\<lparr>sb_saved_as := sa, sb_saved_nofile := sn\<rparr>)
      ((wo_process w)\<lparr>pr_rlimit_as := la, pr_rlimit_nofile := lf\<rparr>) w
    \<and> saves (sb_has_resource (wo_sandboxes w i)) (pr_rlimit_as (wo_process w)) la sa
    \<and> saves (sb_has_resource (wo_sandboxes w i)) (pr_rlimit_nofile (wo_process w)) lf sn"
proof -
  let ?s = "wo_sandboxes w i" and ?p = "wo_process w"
  have none: "w = put i (?s\<lparr>sb_saved_as := None, sb_saved_nofile := None\<rparr>)
      (?p\<lparr>pr_rlimit_as := pr_rlimit_as ?p, pr_rlimit_nofile := pr_rlimit_nofile ?p\<rparr>) w"
    using assms(2,3) by (simp add: none_saved put_same)
  have step: "\<exists>lf sn. apply_nofile settable i v = put i ((wo_sandboxes v i)\<lparr>sb_saved_nofile := sn\<rparr>)
      ((wo_process v)\<lparr>pr_rlimit_nofile := lf\<rparr>) v \<and> saves True (pr_rlimit_nofile (wo_process v)) lf sn"
    if "sb_saved_nofile (wo_sandboxes v i) = None" for v
  proof (cases "limited settable 64 (pr_rlimit_nofile (wo_process v))")
    case None
    have "v = put i ((wo_sandboxes v i)\<lparr>sb_saved_nofile := None\<rparr>)
        ((wo_process v)\<lparr>pr_rlimit_nofile := pr_rlimit_nofile (wo_process v)\<rparr>) v"
      using that by (simp add: none_saved put_same)
    then show ?thesis using None
      by (intro exI [of _ "pr_rlimit_nofile (wo_process v)"] exI [of _ None]) (simp add: apply_nofile_def saves_def Let_def)
  next
    case (Some new)
    then show ?thesis
      by (intro exI [of _ new] exI [of _ "Some (pr_rlimit_nofile (wo_process v))"]) (simp add: apply_nofile_def saves_def Let_def)
  qed
  show ?thesis
  proof (cases "sb_has_resource ?s")
    case False
    then have w1: "w1 = w" using assms(1) by (simp add: apply_resource_limits_def)
    have sv: "saves (sb_has_resource ?s) (pr_rlimit_as ?p) (pr_rlimit_as ?p) None"
      "saves (sb_has_resource ?s) (pr_rlimit_nofile ?p) (pr_rlimit_nofile ?p) None" by (simp_all add: saves_def)
    show ?thesis unfolding w1
      by (rule exI [of _ "pr_rlimit_as ?p"], rule exI [of _ "pr_rlimit_nofile ?p"], rule exI [of _ None], rule exI [of _ None])
         (intro conjI none sv)
  next
    case True
    obtain la sa v where v: "v = put i (?s\<lparr>sb_saved_as := sa\<rparr>) (?p\<lparr>pr_rlimit_as := la\<rparr>) w" "saves True (pr_rlimit_as ?p) la sa"
      "w1 = apply_nofile settable i v"
    proof (cases "memory (sb_max_memory ?s)")
      case (Bytes n)
      then have w1: "w1 = apply_nofile settable i (apply_memory settable n i w)"
        using assms(1) True by (simp add: apply_resource_limits_def)
      show ?thesis
      proof (cases "limited settable n (pr_rlimit_as ?p)")
        case None
        then have e: "apply_memory settable n i w = put i (?s\<lparr>sb_saved_as := None\<rparr>) (?p\<lparr>pr_rlimit_as := pr_rlimit_as ?p\<rparr>) w"
          using assms(2) by (simp add: apply_memory_def none_saved put_same Let_def)
        have "saves True (pr_rlimit_as ?p) (pr_rlimit_as ?p) None" by (simp add: saves_def)
        then show ?thesis by (rule that [OF e _ w1])
      next
        case (Some new)
        then have e: "apply_memory settable n i w = put i (?s\<lparr>sb_saved_as := Some (pr_rlimit_as ?p)\<rparr>) (?p\<lparr>pr_rlimit_as := new\<rparr>) w"
          by (simp add: apply_memory_def Let_def)
        have "saves True (pr_rlimit_as ?p) new (Some (pr_rlimit_as ?p))" by (simp add: saves_def)
        then show ?thesis by (rule that [OF e _ w1])
      qed
    next
      case Mem_ValueError
      then have w1: "w1 = apply_nofile settable i w" using assms(1) True by (simp add: apply_resource_limits_def)
      have e: "w = put i (?s\<lparr>sb_saved_as := None\<rparr>) (?p\<lparr>pr_rlimit_as := pr_rlimit_as ?p\<rparr>) w"
        using assms(2) by (simp add: none_saved put_same)
      have "saves True (pr_rlimit_as ?p) (pr_rlimit_as ?p) None" by (simp add: saves_def)
      then show ?thesis by (rule that [OF e _ w1])
    next
      case Mem_OverflowError
      then show ?thesis using assms(1) True by (simp add: apply_resource_limits_def)
    qed
    have sv: "wo_sandboxes v i = ?s\<lparr>sb_saved_as := sa\<rparr>" "wo_process v = ?p\<lparr>pr_rlimit_as := la\<rparr>" by (simp_all add: v put_def)
    have "sb_saved_nofile (wo_sandboxes v i) = None" by (simp only: sv(1)) (simp add: assms(3))
    from step [OF this] obtain lf sn where
      ws: "apply_nofile settable i v = put i ((wo_sandboxes v i)\<lparr>sb_saved_nofile := sn\<rparr>) ((wo_process v)\<lparr>pr_rlimit_nofile := lf\<rparr>) v"
      and s2: "saves True (pr_rlimit_nofile (wo_process v)) lf sn" by blast
    have r: "w1 = put i (?s\<lparr>sb_saved_as := sa, sb_saved_nofile := sn\<rparr>) (?p\<lparr>pr_rlimit_as := la, pr_rlimit_nofile := lf\<rparr>) w"
      unfolding v(3) ws sv by (simp add: v(1) put_def)
    have s3: "saves (sb_has_resource ?s) (pr_rlimit_as ?p) la sa" "saves (sb_has_resource ?s) (pr_rlimit_nofile ?p) lf sn"
      using v(2) s2 True by (simp_all add: sv(2))
    show ?thesis
      by (rule exI [of _ la], rule exI [of _ lf], rule exI [of _ sa], rule exI [of _ sn]) (intro conjI r s3)
  qed
qed

lemma activate_cases:
  assumes "activate_restrictions settable memory i w = Inr w1" "quiet (wo_sandboxes w i)"
  shows "\<exists>la lf sa sn. w1 = put i (holding (wo_process w) sa sn (wo_sandboxes w i))
      (patched i (wo_sandboxes w i) (wo_process w) la lf) w
    \<and> saves (sb_has_resource (wo_sandboxes w i)) (pr_rlimit_as (wo_process w)) la sa
    \<and> saves (sb_has_resource (wo_sandboxes w i)) (pr_rlimit_nofile (wo_process w)) lf sn"
proof -
  let ?v = "patch i (install i w)"
  obtain u where u: "apply_resource_limits settable memory i ?v = Inr u" "w1 = set_flag True u"
    using assms(1) by (auto simp: activate_restrictions_def split: sum.splits)
  have s: "wo_sandboxes ?v i = holding (wo_process w) None None (wo_sandboxes w i)"
    using assms(2) by (simp add: quiet_def holding_def patch_def install_def put_def Let_def)
  have p: "wo_process ?v = (patched i (wo_sandboxes w i) (wo_process w) (pr_rlimit_as (wo_process w)) (pr_rlimit_nofile (wo_process w)))
      \<lparr>pr_in_sandbox := pr_in_sandbox (wo_process w)\<rparr>"
    using assms(2) by (simp add: quiet_def patched_def patch_def install_def put_def Let_def)
  have sb: "wo_sandboxes ?v = (wo_sandboxes w)(i := holding (wo_process w) None None (wo_sandboxes w i))"
    using s by (auto simp: patch_def install_def put_def Let_def)
  have none: "sb_saved_as (wo_sandboxes ?v i) = None" "sb_saved_nofile (wo_sandboxes ?v i) = None"
    by (simp_all add: s holding_def)
  obtain la lf sa sn where "u = put i ((wo_sandboxes ?v i)\<lparr>sb_saved_as := sa, sb_saved_nofile := sn\<rparr>)
      ((wo_process ?v)\<lparr>pr_rlimit_as := la, pr_rlimit_nofile := lf\<rparr>) ?v"
    "saves (sb_has_resource (wo_sandboxes ?v i)) (pr_rlimit_as (wo_process ?v)) la sa"
    "saves (sb_has_resource (wo_sandboxes ?v i)) (pr_rlimit_nofile (wo_process ?v)) lf sn"
    using apply_limits_cases [OF u(1) none] by blast
  then show ?thesis unfolding u(2) s p
    by (intro exI [of _ la] exI [of _ lf] exI [of _ sa] exI [of _ sn])
       (simp add: put_def set_flag_def sb holding_def patched_def)
qed

lemma restore_saved:
  assumes "sb_has_resource (wo_sandboxes u i)" "settable a" "settable b"
    "saves r a (pr_rlimit_as (wo_process u)) (sb_saved_as (wo_sandboxes u i))"
    "saves r b (pr_rlimit_nofile (wo_process u)) (sb_saved_nofile (wo_sandboxes u i))"
  shows "restore_resource_limits settable i u = put i ((wo_sandboxes u i)\<lparr>sb_saved_as := None, sb_saved_nofile := None\<rparr>)
    ((wo_process u)\<lparr>pr_rlimit_as := a, pr_rlimit_nofile := b\<rparr>) u"
  using assms unfolding saves_def by (auto simp: restore_resource_limits_def Let_def)

lemma deactivate_restores:
  assumes q: "quiet (wo_sandboxes w i)" and f: "\<not> pr_in_sandbox (wo_process w)"
    and a: "activate_restrictions settable memory i w = Inr w1"
    and l: "settable (pr_rlimit_as (wo_process w))" "settable (pr_rlimit_nofile (wo_process w))"
    and t: "measured (wo_sandboxes w1 i) t"
  shows "\<exists>s. deactivate_restrictions settable i (w1\<lparr>wo_sandboxes := (wo_sandboxes w1)(i := t)\<rparr>) = put i s (wo_process w) w
    \<and> quiet s \<and> settings s = settings (wo_sandboxes w i) \<and> sb_metrics s = sb_metrics t"
proof -
  let ?s = "wo_sandboxes w i" and ?p = "wo_process w"
  obtain la lf sa sn where w1: "w1 = put i (holding ?p sa sn ?s) (patched i ?s ?p la lf) w"
    and sv: "saves (sb_has_resource ?s) (pr_rlimit_as ?p) la sa" "saves (sb_has_resource ?s) (pr_rlimit_nofile ?p) lf sn"
    using activate_cases [OF a q] by blast
  obtain c m where t': "t = (holding ?p sa sn ?s)\<lparr>sb_counted := c, sb_metrics := m\<rparr>"
    using t by (auto simp: measured_def w1 put_def)
  let ?u = "put i (t\<lparr>sb_original_getaddrinfo := None, sb_installed := False, sb_original_object := None, sb_original_getattr := None,
      sb_original_io_open := None, sb_original_send := None, sb_original_open := None\<rparr>)
      (?p\<lparr>pr_rlimit_as := la, pr_rlimit_nofile := lf\<rparr>) w"
  have "uninstall i (set_flag False (w1\<lparr>wo_sandboxes := (wo_sandboxes w1)(i := t)\<rparr>)) =
      put i (t\<lparr>sb_original_getaddrinfo := None, sb_installed := False\<rparr>)
        ((patched i ?s ?p la lf)\<lparr>pr_in_sandbox := False, pr_import := pr_import ?p, pr_meta_path := pr_meta_path ?p,
           pr_getaddrinfo := pr_getaddrinfo ?p\<rparr>) w"
    by (simp add: w1 t' holding_def patched_def uninstall_def set_flag_def put_def restored_import_def restored_resolver_def Let_def)
  then have u: "unpatch i (uninstall i (set_flag False (w1\<lparr>wo_sandboxes := (wo_sandboxes w1)(i := t)\<rparr>))) = ?u"
    using f by (simp add: t' holding_def patched_def unpatch_def put_def orig_def Let_def)
  have us: "wo_sandboxes ?u i = t\<lparr>sb_original_getaddrinfo := None, sb_installed := False, sb_original_object := None,
      sb_original_getattr := None, sb_original_io_open := None, sb_original_send := None, sb_original_open := None\<rparr>"
    "sb_saved_as (wo_sandboxes ?u i) = sa" "sb_saved_nofile (wo_sandboxes ?u i) = sn"
    "sb_has_resource (wo_sandboxes ?u i) = sb_has_resource ?s" "wo_process ?u = ?p\<lparr>pr_rlimit_as := la, pr_rlimit_nofile := lf\<rparr>"
    by (simp_all add: put_def t' holding_def)
  have "restore_resource_limits settable i ?u =
      put i ((wo_sandboxes ?u i)\<lparr>sb_saved_as := None, sb_saved_nofile := None\<rparr>) ?p w"
  proof (cases "sb_has_resource ?s")
    case True
    then have "restore_resource_limits settable i ?u =
        put i ((wo_sandboxes ?u i)\<lparr>sb_saved_as := None, sb_saved_nofile := None\<rparr>)
          ((wo_process ?u)\<lparr>pr_rlimit_as := pr_rlimit_as ?p, pr_rlimit_nofile := pr_rlimit_nofile ?p\<rparr>) ?u"
      using sv l us by (intro restore_saved [where r = "sb_has_resource ?s"]) simp_all
    then show ?thesis by (simp add: us(5)) (simp add: put_def)
  next
    case False
    then have n: "sa = None" "sn = None" "la = pr_rlimit_as ?p" "lf = pr_rlimit_nofile ?p" using sv by (simp_all add: saves_def)
    then have "(wo_sandboxes ?u i)\<lparr>sb_saved_as := None, sb_saved_nofile := None\<rparr> = wo_sandboxes ?u i"
      using us(2,3) by (simp only: none_saved)
    moreover have "restore_resource_limits settable i ?u = ?u" using False us(4) by (simp add: restore_resource_limits_def)
    moreover have "?u = put i (wo_sandboxes ?u i) ?p w" using n by (simp add: put_def)
    ultimately show ?thesis by simp
  qed
  then show ?thesis unfolding deactivate_restrictions_def u
    by (auto simp: put_def t' holding_def quiet_def settings_def)
qed


section \<open>Sequential use restores the process\<close>

definition idle :: "(rlimit \<Rightarrow> bool) \<Rightarrow> (string \<Rightarrow> memory_result) \<Rightarrow> world \<Rightarrow> bool" where
  "idle settable memory w \<longleftrightarrow> \<not> pr_in_sandbox (wo_process w) \<and> settable (pr_rlimit_as (wo_process w))
     \<and> settable (pr_rlimit_nofile (wo_process w))
     \<and> (\<forall>i. quiet (wo_sandboxes w i) \<and> memory (sb_max_memory (wo_sandboxes w i)) \<noteq> Mem_OverflowError)"

datatype 'a sandbox_op =
  Op_Evaluate nat "(string \<times> bool) list" "'a strategy_end" rat | Op_From_Factory nat | Op_Cleanup nat

definition run_op :: "(rlimit \<Rightarrow> bool) \<Rightarrow> (string \<Rightarrow> memory_result) \<Rightarrow> (int \<Rightarrow> string) \<Rightarrow> 'a sandbox_op \<Rightarrow> world \<Rightarrow> world" where
  "run_op settable memory show c w =
     (case c of
        Op_Evaluate i attempts ending elapsed \<Rightarrow> snd (evaluate_inner settable memory show i attempts ending elapsed w)
      | Op_From_Factory i \<Rightarrow> (case from_factory settable memory i w of Inl w' \<Rightarrow> w' | Inr w' \<Rightarrow> w')
      | Op_Cleanup i \<Rightarrow> cleanup settable i w)"

lemma activate_total:
  assumes "memory (sb_max_memory (wo_sandboxes w i)) \<noteq> Mem_OverflowError"
  shows "\<exists>w1. activate_restrictions settable memory i w = Inr w1"
proof -
  have "sb_max_memory (wo_sandboxes (patch i (install i w)) i) = sb_max_memory (wo_sandboxes w i)"
    by (simp add: patch_def install_def put_def Let_def)
  then show ?thesis using assms
    by (cases "memory (sb_max_memory (wo_sandboxes w i))")
       (simp_all add: activate_restrictions_def apply_resource_limits_def split: sum.splits)
qed

lemma update_sandbox_alt: "update_sandbox i f w = w\<lparr>wo_sandboxes := (wo_sandboxes w)(i := f (wo_sandboxes w i))\<rparr>"
  by (simp add: update_sandbox_def)

definition changed :: "nat \<Rightarrow> world \<Rightarrow> world \<Rightarrow> bool" where
  "changed i w w' \<longleftrightarrow> (\<exists>s. w' = put i s (wo_process w) w \<and> quiet s \<and> settings s = settings (wo_sandboxes w i))"

lemma changed_idle: "changed i w w' \<Longrightarrow> idle settable memory w \<Longrightarrow> wo_process w' = wo_process w \<and> idle settable memory w'"
  by (auto simp: changed_def idle_def put_def settings_def split: if_splits)

lemma changed_measured: "changed i w w' \<Longrightarrow> measured (wo_sandboxes w' i) t \<Longrightarrow>
    changed i w (w'\<lparr>wo_sandboxes := (wo_sandboxes w')(i := t)\<rparr>)"
  by (auto simp: changed_def put_def measured_quiet measured_settings)

lemma activate_deactivate:
  assumes "idle settable memory w" "measured (wo_sandboxes w i) s0"
    "activate_restrictions settable memory i (w\<lparr>wo_sandboxes := (wo_sandboxes w)(i := s0)\<rparr>) = Inr w1"
    "measured (wo_sandboxes w1 i) t"
  shows "changed i w (deactivate_restrictions settable i (w1\<lparr>wo_sandboxes := (wo_sandboxes w1)(i := t)\<rparr>))"
proof -
  let ?w = "w\<lparr>wo_sandboxes := (wo_sandboxes w)(i := s0)\<rparr>"
  have "quiet (wo_sandboxes ?w i)" using assms(1) measured_quiet [OF assms(2)] by (simp add: idle_def)
  then obtain s where "deactivate_restrictions settable i (w1\<lparr>wo_sandboxes := (wo_sandboxes w1)(i := t)\<rparr>) = put i s (wo_process ?w) ?w"
    "quiet s" "settings s = settings (wo_sandboxes ?w i)"
    using deactivate_restores [OF _ _ assms(3) _ _ assms(4)] assms(1) by (auto simp: idle_def)
  then show ?thesis using measured_settings [OF assms(2)] by (auto simp: changed_def put_def)
qed

lemma evaluate_changed:
  assumes "idle settable memory w"
  shows "changed i w (snd (evaluate_inner settable memory show i attempts ending elapsed w))"
proof -
  let ?w = "update_sandbox i (\<lambda>s. s\<lparr>sb_counted := False\<rparr>) w"
  have "memory (sb_max_memory (wo_sandboxes ?w i)) \<noteq> Mem_OverflowError"
    using assms by (simp add: update_sandbox_def idle_def)
  then obtain w1 where w1: "activate_restrictions settable memory i ?w = Inr w1" using activate_total by blast
  let ?t = "fold attempt attempts (wo_sandboxes w1 i)"
  have D: "changed i w (deactivate_restrictions settable i (w1\<lparr>wo_sandboxes := (wo_sandboxes w1)(i := t)\<rparr>))"
    if "measured ?t t" for t
    using activate_deactivate [OF assms _ w1 [unfolded update_sandbox_alt] measured_trans [OF measured_attempts that]] by simp
  have w2: "update_sandbox i (fold attempt attempts) w1 = w1\<lparr>wo_sandboxes := (wo_sandboxes w1)(i := ?t)\<rparr>"
    by (simp add: update_sandbox_def)
  have up: "update_sandbox i f (w1\<lparr>wo_sandboxes := (wo_sandboxes w1)(i := ?t)\<rparr>) = w1\<lparr>wo_sandboxes := (wo_sandboxes w1)(i := f ?t)\<rparr>" for f
    by (simp add: update_sandbox_def)
  show ?thesis
  proof (cases ending)
    case (Returned r)
    then show ?thesis
    proof (cases r)
      case None
      then show ?thesis using Returned D [of ?t] by (simp add: evaluate_inner_def w1 w2 Let_def)
    next
      case (Some raw)
      have "changed i w (update_sandbox i (update_metrics elapsed n) (deactivate_restrictions settable i
          (w1\<lparr>wo_sandboxes := (wo_sandboxes w1)(i := ?t)\<rparr>)))" for n
        unfolding update_sandbox_def using D [of ?t] by (intro changed_measured) simp_all
      then show ?thesis using Returned Some by (simp add: evaluate_inner_def w1 w2 Let_def)
    qed
  next
    case TimedOut
    then show ?thesis using D [of "count_error (timeout_message show ?t) ?t"] by (simp add: evaluate_inner_def w1 w2 up Let_def)
  next
    case (Raised msg tagged)
    have "measured ?t ((if tagged then ?t else count_error msg ?t)\<lparr>sb_counted := False\<rparr>)"
      using measured_trans [OF measured_updates(2) measured_updates(1)] by simp
    then show ?thesis using D Raised by (simp add: evaluate_inner_def w1 w2 up Let_def)
  qed
qed

lemma none_original:
  "sb_original_object s = None \<Longrightarrow> s\<lparr>sb_original_object := None\<rparr> = s"
  "sb_original_getattr s = None \<Longrightarrow> s\<lparr>sb_original_getattr := None\<rparr> = s"
  "sb_original_io_open s = None \<Longrightarrow> s\<lparr>sb_original_io_open := None\<rparr> = s"
  "sb_original_send s = None \<Longrightarrow> s\<lparr>sb_original_send := None\<rparr> = s"
  "sb_original_open s = None \<Longrightarrow> s\<lparr>sb_original_open := None\<rparr> = s"
  by (cases s; simp)+

lemma unpatch_quiet:
  assumes "quiet (wo_sandboxes w i)"
  shows "unpatch i w = w" "restore_resource_limits settable i w = w" "uninstall i w = w"
  using assms
  by (simp_all add: quiet_def unpatch_def restore_resource_limits_def uninstall_def orig_def none_original none_saved put_same Let_def)

lemma deactivate_quiet:
  assumes "quiet (wo_sandboxes w i)"
  shows "deactivate_restrictions settable i w = set_flag False w"
proof -
  have "quiet (wo_sandboxes (set_flag False w) i)" using assms by (simp add: set_flag_def)
  then show ?thesis by (simp add: deactivate_restrictions_def unpatch_quiet)
qed

lemma cleanup_changed:
  assumes "idle settable memory w"
  shows "changed i w (cleanup settable i w)"
proof -
  have "quiet (wo_sandboxes w i)" "\<not> pr_in_sandbox (wo_process w)" using assms by (simp_all add: idle_def)
  then show ?thesis
    by (simp add: cleanup_def deactivate_quiet changed_def put_def set_flag_def Let_def)
       (auto simp: quiet_def settings_def intro!: exI [of _ "(wo_sandboxes w i)\<lparr>sb_work_dir := None\<rparr>"])
qed

lemma from_factory_changed:
  assumes "idle settable memory w"
  shows "changed i w (case from_factory settable memory i w of Inl w' \<Rightarrow> w' | Inr w' \<Rightarrow> w')"
proof -
  have m: "memory (sb_max_memory (wo_sandboxes w i)) \<noteq> Mem_OverflowError" using assms by (simp add: idle_def)
  obtain w1 where "activate_restrictions settable memory i w = Inr w1" using activate_total [of memory w i settable, OF m] by blast
  then show ?thesis using activate_deactivate [OF assms, of i "wo_sandboxes w i" w1 "wo_sandboxes w1 i"]
    by (simp add: from_factory_def)
qed

lemma run_op_changed: "idle settable memory w \<Longrightarrow> \<exists>i. changed i w (run_op settable memory show c w)"
  by (cases c) (auto simp: run_op_def intro: evaluate_changed cleanup_changed from_factory_changed)

text \<open>
  C17.  Used one operation at a time, as the evaluation lock makes it, the sandboxes leave no trace: after any
  sequence of evaluations (that return, fail, time out or probe forbidden attributes), constructions and
  clean-ups the process is what it was, hooks, flag and resource limits included, and every sandbox is at rest.  The
  hypotheses are that nothing is active at the start, that no memory limit overflows, and that the limits that are in force may be set.\<close>

theorem sequential_use_restores_process:
  assumes "idle settable memory w"
  shows "wo_process (fold (run_op settable memory show) ops w) = wo_process w
    \<and> idle settable memory (fold (run_op settable memory show) ops w)"
  using assms
proof (induction ops arbitrary: w)
  case (Cons c ops)
  obtain i where "changed i w (run_op settable memory show c w)" using run_op_changed [OF Cons.prems] by blast
  then have "wo_process (run_op settable memory show c w) = wo_process w \<and> idle settable memory (run_op settable memory show c w)"
    using Cons.prems by (rule changed_idle)
  then show ?case using Cons.IH [of "run_op settable memory show c w"] by simp
qed simp

definition a_policy :: importer_policy where "a_policy = new_policy None None"

definition a_sandbox :: sandbox where
  "a_sandbox =
     \<lparr>sb_name = ''momentum'', sb_policy = a_policy, sb_hosts = [''example.com''], sb_installed = False,
      sb_original_import = None, sb_original_getaddrinfo = None, sb_original_object = None, sb_original_getattr = None,
      sb_original_io_open = None, sb_original_open = None, sb_original_send = None, sb_has_resource = True,
      sb_saved_as = None, sb_saved_nofile = None, sb_max_memory = ''512MB'', sb_max_eval_seconds = 30,
      sb_work_dir = Some ''/tmp/a'', sb_artifacts = [], sb_counted = False,
      sb_metrics = \<lparr>sm_total_evaluations = 0, sm_total_signals_emitted = 0, sm_total_cpu_time_ms = 0,
                    sm_avg_evaluation_ms = 0, sm_errors = 0, sm_last_error = None\<rparr>\<rparr>"

definition a_world :: world where
  "a_world =
     \<lparr>wo_process = \<lparr>pr_import = RealImport, pr_meta_path = [], pr_getaddrinfo = RealResolver, pr_object = RealObject,
        pr_getattr = RealGetattr, pr_io_open = RealOpen, pr_open = RealOpen, pr_send = RealSend, pr_in_sandbox = False,
        pr_rlimit_as = (-1, -1), pr_rlimit_nofile = (1024, 4096)\<rparr>,
      wo_sandboxes = (\<lambda>_. a_sandbox)\<rparr>"

definition a_memory :: "string \<Rightarrow> memory_result" where
  "a_memory m = (if m = ''512MB'' then Bytes (512 * 1024 ^ 2) else Mem_ValueError)"

lemma a_world_idle: "idle (\<lambda>_. True) a_memory a_world"
  by (simp add: idle_def a_world_def a_sandbox_def quiet_def a_memory_def)

lemma sequential_use_restores_process_witness:
  "wo_process (fold (run_op (\<lambda>_. True) a_memory (\<lambda>_. ''30''))
     [Op_Evaluate 0 [(''__class__'', False)] TimedOut 30000, Op_Cleanup 1, Op_Evaluate 1 [] (Returned (Some [RawSignal [] True])) 5,
      Op_From_Factory 2] a_world) = wo_process a_world
   \<and> idle (\<lambda>_. True) a_memory (fold (run_op (\<lambda>_. True) a_memory (\<lambda>_. ''30''))
     [Op_Evaluate 0 [(''__class__'', False)] TimedOut 30000, Op_Cleanup 1, Op_Evaluate 1 [] (Returned (Some [RawSignal [] True])) 5,
      Op_From_Factory 2] a_world)"
  by (rule sequential_use_restores_process [OF a_world_idle])

section \<open>An active sandbox confines the strategy\<close>

lemma import_hook_checks:
  "call_import n w loaded name 0 absolute (ImportHook i) = Some Imported \<Longrightarrow> is_allowed (sb_policy (wo_sandboxes w i)) name"
  by (cases n) (auto split: if_splits)

lemma resolver_hook_checks:
  "call_getaddrinfo n w host (ResolverHook i) = Some (Resolved h) \<Longrightarrow> is_host_allowed (sb_hosts (wo_sandboxes w i)) (Some host)"
  by (cases n) (auto split: if_splits)

lemma open_hook_checks:
  assumes "call_open n realpath w file mode (SandboxOpen i) = Some (Opened f m)" "pr_in_sandbox (wo_process w)"
  shows "\<exists>path. file = F_Path path \<and> path_readable realpath (wo_sandboxes w i) (realpath path)
    \<and> \<not> list_ex (\<lambda>c. c \<in> set mode) ''wa+''"
  using assms by (cases n) (auto simp: Let_def split: file_arg.splits if_splits)

text \<open>
  C16.  While a sandbox is active the strategy is confined.  An absolute import that succeeds is of a module the policy
  allows; a file that opens, through \<open>open\<close> or \<open>io.open\<close>, is a path whose real path lies in the work directory or in an
  artifact, in a mode that has no \<open>w\<close>, \<open>a\<close> or \<open>+\<close>; a name that resolves and a request that is sent are for an allowed host;
  and \<open>getattr\<close> gives the value of no blocked attribute.\<close>

theorem active_sandbox_confines:
  fixes name :: string and i :: nat and w w1 :: world
  assumes "activate_restrictions settable memory i w = Inr w1" "quiet (wo_sandboxes w i)"
  shows "(call_import n w1 loaded name 0 absolute (pr_import (wo_process w1)) = Some Imported
           \<longrightarrow> is_allowed (sb_policy (wo_sandboxes w i)) name)
    \<and> (call_open n realpath w1 file mode (pr_open (wo_process w1)) = Some (Opened f m)
        \<or> call_open n realpath w1 file mode (pr_io_open (wo_process w1)) = Some (Opened f m)
           \<longrightarrow> (\<exists>path. file = F_Path path \<and> path_readable realpath (wo_sandboxes w i) (realpath path))
               \<and> CHR ''w'' \<notin> set mode \<and> CHR ''a'' \<notin> set mode \<and> CHR ''+'' \<notin> set mode)
    \<and> (call_getaddrinfo n w1 host (pr_getaddrinfo (wo_process w1)) = Some (Resolved h)
           \<longrightarrow> is_host_allowed (sb_hosts (wo_sandboxes w i)) (Some host))
    \<and> (call_send w1 target (pr_send (wo_process w1)) \<longrightarrow> send_allowed (sb_hosts (wo_sandboxes w i)) target)
    \<and> pr_getattr (wo_process w1) = SandboxGetattr i
    \<and> (fst (restricted_getattr s attr d) = RealValue \<longrightarrow> attr \<notin> set BLOCKED_ATTRS)"
proof -
  note A = activate_process [OF assms(1)]
  have A': "\<not> sb_installed (wo_sandboxes w i)" using assms(2) by (simp add: quiet_def)
  note A = A [OF A']
  have R: "path_readable realpath (wo_sandboxes w1 i) p = path_readable realpath (wo_sandboxes w i) p" for p
    using A(11,12) by (simp add: path_readable_def readable_paths_def)
  have 1: "is_allowed (sb_policy (wo_sandboxes w i)) name"
    if "call_import n w1 loaded name 0 absolute (pr_import (wo_process w1)) = Some Imported"
    using import_hook_checks [OF that [unfolded A(1)]] A(9) by simp
  have 2: "(\<exists>path. file = F_Path path \<and> path_readable realpath (wo_sandboxes w i) (realpath path))
      \<and> CHR ''w'' \<notin> set mode \<and> CHR ''a'' \<notin> set mode \<and> CHR ''+'' \<notin> set mode"
    if "call_open n realpath w1 file mode (SandboxOpen i) = Some (Opened f m)"
    using open_hook_checks [OF that A(8)] R by auto
  have 3: "is_host_allowed (sb_hosts (wo_sandboxes w i)) (Some host)"
    if "call_getaddrinfo n w1 host (pr_getaddrinfo (wo_process w1)) = Some (Resolved h)"
    using resolver_hook_checks [OF that [unfolded A(2)]] A(10) by simp
  show ?thesis using 1 2 3 A by (auto simp: restricted_getattr_def split: if_splits)
qed

lemma active_sandbox_confines_witness:
  "\<exists>w1. activate_restrictions (\<lambda>_. True) a_memory 0 a_world = Inr w1
     \<and> call_import 5 w1 [''os''] ''os'' 0 ''os'' (pr_import (wo_process w1)) \<noteq> Some Imported
     \<and> pr_getattr (wo_process w1) = SandboxGetattr 0"
proof -
  have os: "\<not> is_allowed a_policy ''os''" by code_simp
  obtain w1 where w1: "activate_restrictions (\<lambda>_. True) a_memory 0 a_world = Inr w1"
    using activate_total [of a_memory a_world 0] a_world_idle by (auto simp: idle_def)
  have "quiet (wo_sandboxes a_world 0)" using a_world_idle by (simp add: idle_def)
  from active_sandbox_confines [OF w1 this, of 5 "[''os'']" "''os''" "''os''"] os w1 show ?thesis
    by (auto simp: a_world_def a_sandbox_def)
qed

section \<open>What lifts the confinement\<close>

text \<open>
  C20.  Cleaning up a sandbox disarms another one that is being evaluated: the flag is the process's, so from then on the
  hooks on \<open>open\<close>, \<open>io.open\<close> and \<open>send\<close> of the running sandbox pass everything on, every file in every mode and every host.\<close>

theorem cleanup_disarms_running_sandbox:
  assumes "activate_restrictions settable memory i w = Inr w1" "quiet (wo_sandboxes w i)" "quiet (wo_sandboxes w j)"
    "i \<noteq> j" "pr_open (wo_process w) = RealOpen" "pr_send (wo_process w) = RealSend"
  shows "(let w2 = cleanup settable j w1 in
      pr_open (wo_process w2) = SandboxOpen i
    \<and> call_open (Suc (Suc n)) realpath w2 file mode (pr_open (wo_process w2)) = Some (Opened file mode)
    \<and> call_open (Suc (Suc n)) realpath w2 file mode (pr_io_open (wo_process w2)) = Some (Opened file mode)
    \<and> call_send w2 target (pr_send (wo_process w2)))"
proof -
  have A': "\<not> sb_installed (wo_sandboxes w i)" using assms(2) by (simp add: quiet_def)
  note A = activate_process [OF assms(1) A']
  have "quiet (wo_sandboxes w1 j)" using activate_others [OF assms(1), of j] assms(3,4) by simp
  then have c: "cleanup settable j w1 = put j ((wo_sandboxes w1 j)\<lparr>sb_work_dir := None\<rparr>) (wo_process (set_flag False w1)) (set_flag False w1)"
    by (simp add: cleanup_def deactivate_quiet set_flag_def Let_def)
  show ?thesis using A assms(4-6) by (simp add: c put_def set_flag_def Let_def)
qed

lemma cleanup_disarms_running_sandbox_witness:
  "\<exists>w1. activate_restrictions (\<lambda>_. True) a_memory 0 a_world = Inr w1
     \<and> call_open (Suc (Suc 0)) id (cleanup (\<lambda>_. True) 1 w1) (F_Path ''/etc/passwd'') ''w'' (pr_open (wo_process (cleanup (\<lambda>_. True) 1 w1)))
       = Some (Opened (F_Path ''/etc/passwd'') ''w'')"
proof -
  obtain w1 where w1: "activate_restrictions (\<lambda>_. True) a_memory 0 a_world = Inr w1"
    using activate_total [of a_memory a_world 0] a_world_idle by (auto simp: idle_def)
  have "quiet (wo_sandboxes a_world 0)" "quiet (wo_sandboxes a_world 1)" using a_world_idle by (simp_all add: idle_def)
  moreover have "(0::nat) \<noteq> 1" "pr_open (wo_process a_world) = RealOpen" "pr_send (wo_process a_world) = RealSend"
    by (simp_all add: a_world_def)
  ultimately have "call_open (Suc (Suc 0)) id (cleanup (\<lambda>_. True) 1 w1) (F_Path ''/etc/passwd'') ''w''
      (pr_open (wo_process (cleanup (\<lambda>_. True) 1 w1))) = Some (Opened (F_Path ''/etc/passwd'') ''w'')"
    using cleanup_disarms_running_sandbox [OF w1, of 1 0 id "F_Path ''/etc/passwd''" "''w''"] unfolding Let_def by blast
  then show ?thesis using w1 by blast
qed

text \<open>The exclusive-creation mode writes and is not refused.\<close>

lemma exclusive_creation_opens:
  assumes "activate_restrictions settable memory i w = Inr w1" "quiet (wo_sandboxes w i)" "pr_open (wo_process w) = RealOpen"
    "path_readable realpath (wo_sandboxes w i) (realpath path)"
  shows "call_open (Suc (Suc n)) realpath w1 (F_Path path) ''x'' (pr_open (wo_process w1)) = Some (Opened (F_Path (realpath path)) ''x'')"
proof -
  have A': "\<not> sb_installed (wo_sandboxes w i)" using assms(2) by (simp add: quiet_def)
  note A = activate_process [OF assms(1) A']
  have "path_readable realpath (wo_sandboxes w1 i) (realpath path)"
    using A(11,12) assms(4) by (simp add: path_readable_def readable_paths_def)
  then show ?thesis using A assms(3) by (simp add: Let_def)
qed

text \<open>With the usual infinite hard limit, which is minus one, the memory limit becomes infinite instead.\<close>

lemma infinite_hard_limit_lifts_memory:
  "0 \<le> bytes \<Longrightarrow> settable (-1, -1) \<Longrightarrow> limited settable bytes (soft, -1) = Some (-1, -1)"
  by (simp add: limited_def min_def)

text \<open>A memory limit that overflows leaves the hooks in place after the evaluation, which raises.\<close>

lemma overflow_leaves_hooks:
  assumes "memory (sb_max_memory (wo_sandboxes w i)) = Mem_OverflowError" "sb_has_resource (wo_sandboxes w i)"
    "\<not> sb_installed (wo_sandboxes w i)"
  shows "fst (evaluate_inner settable memory show i attempts ending elapsed w) = Inl ActivationOverflow"
    "pr_import (wo_process (snd (evaluate_inner settable memory show i attempts ending elapsed w))) = ImportHook i"
    "sb_installed (wo_sandboxes (snd (evaluate_inner settable memory show i attempts ending elapsed w)) i)"
  using assms
  by (simp_all add: evaluate_inner_def activate_restrictions_def apply_resource_limits_def update_sandbox_def patch_def install_def put_def Let_def)

text \<open>After the second such evaluation the hook on \<open>open\<close> calls itself: no call of \<open>open\<close> in the process returns.\<close>

lemma self_calling_open:
  assumes "sb_original_open (wo_sandboxes w i) = Some (SandboxOpen i)" "\<not> pr_in_sandbox (wo_process w)"
  shows "call_open n realpath w file mode (SandboxOpen i) = None"
  using assms by (induction n) (simp_all add: Let_def)

lemma two_overflows_break_open:
  fixes settable :: "rlimit \<Rightarrow> bool" and prt :: "int \<Rightarrow> string"
  assumes "memory (sb_max_memory (wo_sandboxes w i)) = Mem_OverflowError" "sb_has_resource (wo_sandboxes w i)"
    "\<not> pr_in_sandbox (wo_process w)"
  defines "run \<equiv> \<lambda>v. snd (evaluate_inner settable memory prt i [] (TimedOut :: 'a strategy_end) 0 v)"
  shows "pr_open (wo_process (run (run w))) = SandboxOpen i"
    "call_open n realpath (run (run w)) file mode (pr_open (wo_process (run (run w)))) = None"
proof -
  have step: "pr_open (wo_process (run v)) = SandboxOpen i
      \<and> sb_original_open (wo_sandboxes (run v) i) = Some (pr_open (wo_process v))
      \<and> pr_in_sandbox (wo_process (run v)) = pr_in_sandbox (wo_process v)
      \<and> sb_max_memory (wo_sandboxes (run v) i) = sb_max_memory (wo_sandboxes v i) \<and> sb_has_resource (wo_sandboxes (run v) i)"
    if "memory (sb_max_memory (wo_sandboxes v i)) = Mem_OverflowError" "sb_has_resource (wo_sandboxes v i)" for v
    using that unfolding run_def
    by (simp add: evaluate_inner_def activate_restrictions_def apply_resource_limits_def update_sandbox_def patch_def install_def put_def Let_def)
  have 1: "pr_open (wo_process (run w)) = SandboxOpen i" "\<not> pr_in_sandbox (wo_process (run w))"
    "memory (sb_max_memory (wo_sandboxes (run w) i)) = Mem_OverflowError" "sb_has_resource (wo_sandboxes (run w) i)"
    using step [OF assms(1,2)] assms by simp_all
  have 2: "sb_original_open (wo_sandboxes (run (run w)) i) = Some (SandboxOpen i)" "\<not> pr_in_sandbox (wo_process (run (run w)))"
    and 3: "pr_open (wo_process (run (run w))) = SandboxOpen i"
    using step [OF 1(3,4)] 1 by simp_all
  show "pr_open (wo_process (run (run w))) = SandboxOpen i"
    "call_open n realpath (run (run w)) file mode (pr_open (wo_process (run (run w)))) = None"
    using 3 self_calling_open [OF 2] by simp_all
qed

text \<open>A strategy that returns nothing makes the evaluation raise, after the restrictions are lifted.\<close>

lemma returning_nothing_raises:
  assumes "idle settable memory w"
  shows "fst (evaluate_inner settable memory show i attempts (Returned None) elapsed w) = Inl NotIterable"
proof -
  let ?w = "update_sandbox i (\<lambda>s. s\<lparr>sb_counted := False\<rparr>) w"
  have "memory (sb_max_memory (wo_sandboxes ?w i)) \<noteq> Mem_OverflowError"
    using assms by (simp add: update_sandbox_def idle_def)
  then obtain w1 where "activate_restrictions settable memory i ?w = Inr w1" using activate_total by blast
  then show ?thesis by (simp add: evaluate_inner_def Let_def)
qed

text \<open>When two activations overlap and end in the order they began, which only the lock prevents, \<open>open\<close> is left to a hook that has
  nothing to call.\<close>

lemma deactivate_open:
  "pr_open (wo_process (deactivate_restrictions settable i w)) = orig (sb_original_open (wo_sandboxes w i)) (pr_open (wo_process w))"
  "sb_original_open (wo_sandboxes (deactivate_restrictions settable i w) j) =
     (if j = i then None else sb_original_open (wo_sandboxes w j))"
  "\<not> pr_in_sandbox (wo_process (deactivate_restrictions settable i w))"
  by (simp_all add: deactivate_restrictions_def restore_resource_limits_def unpatch_def uninstall_def set_flag_def put_def Let_def)

lemma overlap_breaks_open:
  assumes "activate_restrictions settable memory i w = Inr w1" "activate_restrictions settable memory j w1 = Inr w2"
    "quiet (wo_sandboxes w i)" "quiet (wo_sandboxes w j)" "i \<noteq> j"
  defines "w4 \<equiv> deactivate_restrictions settable j (deactivate_restrictions settable i w2)"
  shows "call_open (Suc n) realpath w4 file mode (pr_open (wo_process w4)) = Some NoOriginalOpen"
proof -
  have i: "\<not> sb_installed (wo_sandboxes w i)" using assms(3) by (simp add: quiet_def)
  have j: "\<not> sb_installed (wo_sandboxes w1 j)" using assms(4,5) activate_others [OF assms(1), of j] by (simp add: quiet_def)
  have "sb_original_open (wo_sandboxes w2 j) = Some (SandboxOpen i)"
    using activate_process(13) [OF assms(2) j] activate_process(3) [OF assms(1) i] by simp
  then have "pr_open (wo_process w4) = SandboxOpen i" "sb_original_open (wo_sandboxes w4 i) = None" "\<not> pr_in_sandbox (wo_process w4)"
    using assms(5) by (simp_all add: w4_def deactivate_open orig_def)
  then show ?thesis by (simp add: Let_def)
qed

end
