(* ===== verification/Optimizer.thy ===== *)
theory Optimizer
  imports Lifecycle "HOL-Library.Stream" "HOL-Library.Product_Lexorder"
begin

text \<open>
  The two searches for strategy parameters: \<open>engine/core/param_optimizer.py\<close> (typed dimensions, and grid,
  random and genetic optimizers behind one protocol) and \<open>engine/core/optimization\<close> (specifications,
  samplers and the study that keeps its trials).

  A \<open>random.Random\<close> is the stream of its draws: \<open>random()\<close> takes the next draw as 53 bits, \<open>choice\<close>
  as an index below the length.  The objective is a function of the number of the call and of the point; it
  does not change the dictionary it receives.  A value that is NaN is the one object \<open>math.nan\<close>.  The loop
  of \<open>optimize\<close> may not end, so it has fuel.
\<close>

section \<open>Parameter spaces\<close>

datatype param_value = P_int int | P_float flt | P_bool bool | P_str string | P_none

datatype opt_error =
  BoundsNotFinite
| FloatLowAboveHigh rat rat
| StepNotPositive int
| IntLowAboveHigh int int
| NoChoices
| NoDimensions
| TrialsBelowOne int
| ContinuousDimension string
| PopulationTooSmall int
| MutationRateOutOfRange flt
| ChoiceFromEmpty
| NoSuchParameter string

datatype dimension =
  ContinuousFloat rat rat
| DiscreteInt int int int
| Categorical "param_value list"

type_synonym param_space = "(string, dimension) dict"
type_synonym point = "(string, param_value) dict"

definition flt_le :: "flt \<Rightarrow> flt \<Rightarrow> bool" where
  "flt_le x y = (flt_less x y \<or> x = y \<and> x \<noteq> NaN)"

text \<open>The value of an \<open>int\<close>, a \<open>float\<close> or a \<open>bool\<close>, which is an \<open>int\<close>.\<close>

definition as_number :: "param_value \<Rightarrow> flt option" where
  "as_number v = (case v of
     P_int n \<Rightarrow> Some (Fin (of_int n))
   | P_float x \<Rightarrow> Some x
   | P_bool b \<Rightarrow> Some (Fin (if b then 1 else 0))
   | P_str s \<Rightarrow> None
   | P_none \<Rightarrow> None)"

text \<open>\<open>x is y or x == y\<close>, the test of \<open>in\<close>.\<close>

definition same_value :: "param_value \<Rightarrow> param_value \<Rightarrow> bool" where
  "same_value x y = (case (as_number x, as_number y) of
     (Some a, Some b) \<Rightarrow> a = b
   | (None, None) \<Rightarrow> x = y
   | _ \<Rightarrow> False)"

definition new_continuous :: "flt \<Rightarrow> flt \<Rightarrow> opt_error + dimension" where
  "new_continuous low high = (case (low, high) of
     (Fin l, Fin h) \<Rightarrow> if h < l then Inl (FloatLowAboveHigh l h) else Inr (ContinuousFloat l h)
   | _ \<Rightarrow> Inl BoundsNotFinite)"

definition new_discrete :: "int \<Rightarrow> int \<Rightarrow> int \<Rightarrow> opt_error + dimension" where
  "new_discrete low high step =
     (if step \<le> 0 then Inl (StepNotPositive step)
      else if high < low then Inl (IntLowAboveHigh low high)
      else Inr (DiscreteInt low high step))"

definition new_categorical :: "param_value list \<Rightarrow> opt_error + dimension" where
  "new_categorical choices = (if choices = [] then Inl NoChoices else Inr (Categorical choices))"

definition new_space :: "param_space \<Rightarrow> opt_error + param_space" where
  "new_space dims = (if dims = [] then Inl NoDimensions else Inr dims)"

text \<open>\<open>range(low, high + 1, step)\<close>.\<close>

definition discrete_values :: "int \<Rightarrow> int \<Rightarrow> int \<Rightarrow> int list" where
  "discrete_values low high step =
     map (\<lambda>k. low + int k * step) [0..<(if high < low then 0 else Suc (nat ((high - low) div step)))]"

definition dim_contains :: "dimension \<Rightarrow> param_value \<Rightarrow> bool" where
  "dim_contains d v = (case d of
     ContinuousFloat low high \<Rightarrow>
       (case as_number v of None \<Rightarrow> False | Some x \<Rightarrow> flt_le (Fin low) x \<and> flt_le x (Fin high))
   | DiscreteInt low high step \<Rightarrow>
       (case v of P_int n \<Rightarrow> low \<le> n \<and> n \<le> high \<and> (n - low) mod step = 0 | _ \<Rightarrow> False)
   | Categorical choices \<Rightarrow> list_ex (same_value v) choices)"

definition space_contains :: "param_space \<Rightarrow> point \<Rightarrow> bool" where
  "space_contains s p =
     (set (map fst p) = set (map fst s)
      \<and> list_all (\<lambda>(k, v). case map_of s k of None \<Rightarrow> False | Some d \<Rightarrow> dim_contains d v) p)"

section \<open>Random draws\<close>

type_synonym draws = "nat stream"

definition draw_random :: "draws \<Rightarrow> rat \<times> draws" where
  "draw_random r = (of_nat (shd r mod 2 ^ 53) / 2 ^ 53, stl r)"

definition draw_choice :: "'a list \<Rightarrow> draws \<Rightarrow> 'a \<times> draws" where
  "draw_choice xs r = (xs ! (shd r mod length xs), stl r)"

text \<open>Float arithmetic whose results may overflow: beyond the largest float the rounding gives an infinity.\<close>

definition flt_limit :: rat where
  "flt_limit = 2 ^ 1024"

definition flt_round :: "rat \<Rightarrow> flt" where
  "flt_round x = (let y = f64 x in if flt_limit \<le> y then PosInf else if y \<le> - flt_limit then NegInf else Fin y)"

fun flt_add :: "flt \<Rightarrow> flt \<Rightarrow> flt" where
  "flt_add (Fin x) (Fin y) = flt_round (x + y)"
| "flt_add NaN y = NaN"
| "flt_add x NaN = NaN"
| "flt_add PosInf y = (if y = NegInf then NaN else PosInf)"
| "flt_add NegInf y = (if y = PosInf then NaN else NegInf)"
| "flt_add x y = y"

fun flt_neg :: "flt \<Rightarrow> flt" where
  "flt_neg (Fin x) = Fin (- x)"
| "flt_neg PosInf = NegInf"
| "flt_neg NegInf = PosInf"
| "flt_neg NaN = NaN"

text \<open>A factor that is not negative, as \<open>random()\<close> is.\<close>

fun flt_scale :: "flt \<Rightarrow> rat \<Rightarrow> flt" where
  "flt_scale (Fin x) u = flt_round (x * u)"
| "flt_scale NaN u = NaN"
| "flt_scale x u = (if u = 0 then NaN else x)"

text \<open>\<open>uniform(a, b)\<close> is \<open>a + (b - a) * random()\<close>; the difference of two finite bounds can be infinite.\<close>

definition flt_uniform :: "flt \<Rightarrow> flt \<Rightarrow> draws \<Rightarrow> flt \<times> draws" where
  "flt_uniform a b r = (let (u, r') = draw_random r in (flt_add a (flt_scale (flt_add b (flt_neg a)) u), r'))"

definition sample_dim :: "dimension \<Rightarrow> draws \<Rightarrow> param_value \<times> draws" where
  "sample_dim d r = (case d of
     ContinuousFloat low high \<Rightarrow> (let (x, r') = flt_uniform (Fin low) (Fin high) r in (P_float x, r'))
   | DiscreteInt low high step \<Rightarrow>
       (let (n, r') = draw_choice (discrete_values low high step) r in (P_int n, r'))
   | Categorical choices \<Rightarrow> draw_choice choices r)"

fun sample_space :: "param_space \<Rightarrow> draws \<Rightarrow> point \<times> draws" where
  "sample_space [] r = ([], r)"
| "sample_space ((k, d) # ds) r =
     (let (v, r1) = sample_dim d r; (p, r2) = sample_space ds r1 in ((k, v) # p, r2))"

section \<open>The protocol and the loop\<close>

text \<open>
  \<open>o_ask\<close> starts the generator, \<open>o_next\<close> is one step of it: a point, an exception, or the end.
\<close>

record 'o optimizer =
  o_ask :: "param_space \<Rightarrow> 'o \<Rightarrow> 'o"
  o_next :: "'o \<Rightarrow> (opt_error + point) option \<times> 'o"
  o_tell :: "point \<Rightarrow> flt \<Rightarrow> 'o \<Rightarrow> 'o"

type_synonym objective = "nat \<Rightarrow> point \<Rightarrow> string + flt"

record HistoryEntry =
  he_params :: point
  he_score :: flt
  he_error :: "string option"

record OptimizationResult =
  or_best_params :: point
  or_best_score :: flt
  or_n_trials_run :: nat
  or_history :: "HistoryEntry list"

record opt_run =
  run_history :: "HistoryEntry list"
  run_best :: "point option"
  run_score :: flt
  run_n :: nat

definition first_run :: opt_run where
  "first_run = \<lparr>run_history = [], run_best = None, run_score = NegInf, run_n = 0\<rparr>"

text \<open>What a trial writes down, and what it tells the optimizer.\<close>

definition trial_entry :: "objective \<Rightarrow> nat \<Rightarrow> point \<Rightarrow> HistoryEntry" where
  "trial_entry obj n p = (case obj n p of
     Inl e \<Rightarrow> \<lparr>he_params = p, he_score = NegInf, he_error = Some e\<rparr>
   | Inr s \<Rightarrow> \<lparr>he_params = p, he_score = (if s = NaN then NegInf else s), he_error = None\<rparr>)"

definition record_trial :: "HistoryEntry \<Rightarrow> opt_run \<Rightarrow> opt_run" where
  "record_trial e run =
     (let better = flt_less (run_score run) (he_score e) in
      \<lparr>run_history = run_history run @ [e],
       run_best = (if better then Some (he_params e) else run_best run),
       run_score = (if better then he_score e else run_score run),
       run_n = run_n run + 1\<rparr>)"

definition enough_trials :: "int option \<Rightarrow> opt_run \<Rightarrow> bool" where
  "enough_trials n_trials run = (case n_trials of None \<Rightarrow> False | Some n \<Rightarrow> n \<le> int (run_n run))"

definition opt_result_of :: "opt_run \<Rightarrow> OptimizationResult" where
  "opt_result_of run =
     \<lparr>or_best_params = (case run_best run of None \<Rightarrow> [] | Some p \<Rightarrow> p), or_best_score = run_score run,
      or_n_trials_run = run_n run, or_history = run_history run\<rparr>"

fun opt_loop ::
  "nat \<Rightarrow> objective \<Rightarrow> 'o optimizer \<Rightarrow> int option \<Rightarrow> opt_run \<Rightarrow> 'o \<Rightarrow> ((opt_error + opt_run) \<times> 'o) option" where
  "opt_loop 0 obj opt n_trials run st = None"
| "opt_loop (Suc fuel) obj opt n_trials run st =
     (case o_next opt st of
        (None, st') \<Rightarrow> Some (Inr run, st')
      | (Some (Inl e), st') \<Rightarrow> Some (Inl e, st')
      | (Some (Inr p), st') \<Rightarrow>
          if enough_trials n_trials run then Some (Inr run, st')
          else (let e = trial_entry obj (run_n run) p in
                opt_loop fuel obj opt n_trials (record_trial e run) (o_tell opt p (he_score e) st')))"

definition optimize ::
  "nat \<Rightarrow> objective \<Rightarrow> param_space \<Rightarrow> 'o optimizer \<Rightarrow> int option \<Rightarrow> 'o \<Rightarrow>
    ((opt_error + OptimizationResult) \<times> 'o) option" where
  "optimize fuel obj space opt n_trials st =
     (case n_trials of
        Some n \<Rightarrow>
          if n < 1 then Some (Inl (TrialsBelowOne n), st)
          else map_option (\<lambda>(r, st'). (map_sum id opt_result_of r, st'))
                 (opt_loop fuel obj opt n_trials first_run (o_ask opt space st))
      | None \<Rightarrow> map_option (\<lambda>(r, st'). (map_sum id opt_result_of r, st'))
                 (opt_loop fuel obj opt n_trials first_run (o_ask opt space st)))"

section \<open>Grid search\<close>

fun grid_lists :: "param_space \<Rightarrow> opt_error + (string \<times> param_value list) list" where
  "grid_lists [] = Inr []"
| "grid_lists ((k, d) # ds) =
     (case d of
        ContinuousFloat low high \<Rightarrow> Inl (ContinuousDimension k)
      | DiscreteInt low high step \<Rightarrow>
          map_sum id (Cons (k, map P_int (discrete_values low high step))) (grid_lists ds)
      | Categorical choices \<Rightarrow> map_sum id (Cons (k, choices)) (grid_lists ds))"

text \<open>
  \<open>_recurse\<close> with the dictionary \<open>current\<close> that all its levels share: the copies it yields, and the
  dictionary it leaves.
\<close>

function grid_recurse :: "(string \<times> param_value list) list \<Rightarrow> point \<Rightarrow> point list \<times> point" where
  "grid_recurse [] current = ([current], current)"
| "grid_recurse ((name, []) # rest) current = ([], current)"
| "grid_recurse ((name, v # vs) # rest) current =
     (let (ps, current1) = grid_recurse rest (AList.update name v current);
          (qs, current2) = grid_recurse ((name, vs) # rest) current1
      in (ps @ qs, current2))"
  by pat_completeness auto
termination
  by (relation "measures [\<lambda>(ls, c). length ls, \<lambda>(ls, c). case ls of [] \<Rightarrow> 0 | l # _ \<Rightarrow> length (snd l)]") auto

definition grid_ask :: "param_space \<Rightarrow> opt_error + point list" where
  "grid_ask s = map_sum id (\<lambda>ls. fst (grid_recurse ls [])) (grid_lists s)"

text \<open>The state of the generator: the points to come.\<close>

definition grid_next :: "opt_error + point list \<Rightarrow> (opt_error + point) option \<times> (opt_error + point list)" where
  "grid_next g = (case g of
     Inl e \<Rightarrow> (Some (Inl e), Inr [])
   | Inr [] \<Rightarrow> (None, Inr [])
   | Inr (p # ps) \<Rightarrow> (Some (Inr p), Inr ps))"

definition grid_search_optimizer :: "(opt_error + point list) optimizer" where
  "grid_search_optimizer = \<lparr>o_ask = (\<lambda>s g. grid_ask s), o_next = grid_next, o_tell = (\<lambda>p s g. g)\<rparr>"

section \<open>Random search\<close>

record RandomSearch =
  rs_rng :: draws
  rs_space :: param_space

definition random_next :: "RandomSearch \<Rightarrow> (opt_error + point) option \<times> RandomSearch" where
  "random_next st = (let (p, r) = sample_space (rs_space st) (rs_rng st) in (Some (Inr p), st\<lparr>rs_rng := r\<rparr>))"

definition random_search_optimizer :: "RandomSearch optimizer" where
  "random_search_optimizer =
     \<lparr>o_ask = (\<lambda>s st. st\<lparr>rs_space := s\<rparr>), o_next = random_next, o_tell = (\<lambda>p s st. st)\<rparr>"

section \<open>The genetic optimizer\<close>

record GeneticOptimizer =
  ga_population_size :: nat
  ga_mutation_rate :: rat
  ga_rng :: draws
  ga_population :: "(point \<times> flt) list"
  ga_pending :: "point list"
  ga_space :: param_space
  ga_initial :: nat
  ga_queue :: "point list"

definition new_genetic :: "int \<Rightarrow> flt \<Rightarrow> draws \<Rightarrow> opt_error + GeneticOptimizer" where
  "new_genetic population_size mutation_rate r =
     (if population_size < 4 then Inl (PopulationTooSmall population_size)
      else if \<not> (flt_le (Fin 0) mutation_rate \<and> flt_le mutation_rate (Fin 1))
      then Inl (MutationRateOutOfRange mutation_rate)
      else Inr \<lparr>ga_population_size = nat population_size,
                ga_mutation_rate = (case mutation_rate of Fin x \<Rightarrow> x | _ \<Rightarrow> 0), ga_rng = r, ga_population = [],
                ga_pending = [], ga_space = [], ga_initial = 0, ga_queue = []\<rparr>)"

definition ga_ask :: "param_space \<Rightarrow> GeneticOptimizer \<Rightarrow> GeneticOptimizer" where
  "ga_ask s st = st\<lparr>ga_space := s, ga_initial := ga_population_size st, ga_queue := []\<rparr>"

definition ga_tell :: "point \<Rightarrow> flt \<Rightarrow> GeneticOptimizer \<Rightarrow> GeneticOptimizer" where
  "ga_tell p s st = st\<lparr>ga_population := ga_population st @ [(p, s)]\<rparr>"

fun crossover :: "point \<Rightarrow> point \<Rightarrow> draws \<Rightarrow> (opt_error + point) \<times> draws" where
  "crossover [] b r = (Inr [], r)"
| "crossover ((k, x) # a) b r =
     (let (u, r1) = draw_random r in
      if u < 1 / 2
      then (let (c, r2) = crossover a b r1 in (map_sum id (Cons (k, x)) c, r2))
      else (case map_of b k of
              None \<Rightarrow> (Inl (NoSuchParameter k), r1)
            | Some y \<Rightarrow> (let (c, r2) = crossover a b r1 in (map_sum id (Cons (k, y)) c, r2))))"

fun mutate :: "rat \<Rightarrow> param_space \<Rightarrow> point \<Rightarrow> draws \<Rightarrow> point \<times> draws" where
  "mutate rate [] out r = (out, r)"
| "mutate rate ((k, d) # ds) out r =
     (let (u, r1) = draw_random r in
      if u < rate
      then (let (v, r2) = sample_dim d r1 in mutate rate ds (AList.update k v out) r2)
      else mutate rate ds out r1)"

fun breed :: "nat \<Rightarrow> rat \<Rightarrow> param_space \<Rightarrow> point list \<Rightarrow> draws \<Rightarrow> (opt_error + point list) \<times> draws" where
  "breed 0 rate s survivors r = (Inr [], r)"
| "breed (Suc n) rate s survivors r =
     (if survivors = [] then (Inl ChoiceFromEmpty, r)
      else let (a, r1) = draw_choice survivors r; (b, r2) = draw_choice survivors r1 in
        (case crossover a b r2 of
           (Inl e, r3) \<Rightarrow> (Inl e, r3)
         | (Inr c, r3) \<Rightarrow>
             (let (m, r4) = mutate rate s c r3; (ms, r5) = breed n rate s survivors r4
              in (map_sum id (Cons m) ms, r5))))"

text \<open>\<open>gen.sort(key=score, reverse=True)\<close>: descending and stable.\<close>

definition descending :: "flt \<Rightarrow> int \<times> rat" where
  "descending x = (case x of PosInf \<Rightarrow> (- 1, 0) | Fin y \<Rightarrow> (0, - y) | NegInf \<Rightarrow> (1, 0) | NaN \<Rightarrow> (2, 0))"

definition survivors_of :: "nat \<Rightarrow> (point \<times> flt) list \<Rightarrow> point list" where
  "survivors_of n population =
     map fst (take (max 2 (n div 2))
       (sort_key (\<lambda>t. descending (snd t)) (drop (length population - n) population)))"

definition evolve :: "GeneticOptimizer \<Rightarrow> (opt_error + unit) \<times> GeneticOptimizer" where
  "evolve st =
     (case breed (ga_population_size st) (ga_mutation_rate st) (ga_space st)
             (survivors_of (ga_population_size st) (ga_population st)) (ga_rng st) of
        (Inl e, r) \<Rightarrow> (Inl e, st\<lparr>ga_rng := r\<rparr>)
      | (Inr offspring, r) \<Rightarrow> (Inr (), st\<lparr>ga_rng := r, ga_pending := offspring\<rparr>))"

text \<open>
  One step of the generator.  The constructor keeps the population size at 4 at least, so a generation has
  offspring (with none the generator would spin).
\<close>

definition ga_next :: "GeneticOptimizer \<Rightarrow> (opt_error + point) option \<times> GeneticOptimizer" where
  "ga_next st =
     (if 0 < ga_initial st then
        (let (p, r) = sample_space (ga_space st) (ga_rng st) in
         (Some (Inr p), st\<lparr>ga_rng := r, ga_pending := ga_pending st @ [p], ga_initial := ga_initial st - 1\<rparr>))
      else
        (case ga_queue st of
           p # ps \<Rightarrow> (Some (Inr p), st\<lparr>ga_queue := ps\<rparr>)
         | [] \<Rightarrow>
             (case evolve st of
                (Inl e, st') \<Rightarrow> (Some (Inl e), st')
              | (Inr _, st') \<Rightarrow>
                  (case ga_pending st' of
                     [] \<Rightarrow> (None, st')
                   | p # ps \<Rightarrow> (Some (Inr p), st'\<lparr>ga_queue := ps\<rparr>)))))"

definition genetic_optimizer :: "GeneticOptimizer optimizer" where
  "genetic_optimizer = \<lparr>o_ask = ga_ask, o_next = ga_next, o_tell = ga_tell\<rparr>"

section \<open>A uniform draw stays between its bounds\<close>

lemma f64_multiple: "\<exists>m. f64 x = of_int m * 2 powi (- 1074)"
proof -
  obtain m k where m: "f64 x = of_int m * 2 powi k" "- 1074 \<le> k"
    using sig_round_in_grid [of 2 53 "- 1074" x] unfolding f64_def in_grid_def by auto
  have "(2 :: rat) powi k = of_int (2 ^ nat (k - (- 1074))) * 2 powi (- 1074)"
    using powi_split [of 2 "- 1074" k] m(2) by simp
  then have "f64 x = of_int (m * 2 ^ nat (k - (- 1074))) * 2 powi (- 1074)"
    unfolding m(1) of_int_mult by (simp only: mult.assoc)
  then show ?thesis by blast
qed

lemma difference_exact:
  assumes "f64 a = a" "f64 b = b" "\<bar>b - a\<bar> < 2 powi (- 1021)"
  shows "f64 (b - a) = b - a"
proof -
  obtain m n where "a = of_int m * 2 powi (- 1074)" "b = of_int n * 2 powi (- 1074)"
    using f64_multiple [of a] f64_multiple [of b] assms by metis
  then have d: "b - a = of_int (n - m) * of_nat 2 powi (- 1074)" by (simp add: left_diff_distrib)
  have "(2 :: rat) powi (- 1021) = 2 ^ 53 * 2 powi (- 1074)"
    using power_int_add [of "2 :: rat" 53 "- 1074"] by simp
  then have "\<bar>of_int (n - m)\<bar> * 2 powi (- 1074) < (2 ^ 53 :: rat) * 2 powi (- 1074)"
    using assms(3) unfolding d abs_mult by (simp only: of_nat_numeral) (simp add: abs_mult)
  then have "of_int \<bar>n - m\<bar> < (of_int (2 ^ 53) :: rat)"
    by (simp add: mult_less_cancel_right zero_less_power_int)
  then have "\<bar>n - m\<bar> < int 2 ^ 53" by (simp only: of_int_less_iff of_nat_numeral)
  then show ?thesis unfolding f64_def by (intro sig_round_small_multiple [OF _ d]) simp_all
qed

lemma f64_relative:
  assumes "2 powi (- 1022) \<le> x"
  shows "f64 x \<le> x + x / 2 ^ 53"
proof -
  have x: "0 < x" using assms zero_less_power_int [of "2 :: rat" "- 1022"] by linarith
  define u :: rat where "u = 2 powi quantum 2 53 (- 1074) x"
  have u: "0 < u" by (simp add: u_def zero_less_power_int)
  have "(2 :: rat) powi (- 1022) < 2 powi (mag 2 x + 1)"
    using mag_bounds [of 2 x] x assms by simp
  then have "- 1022 < mag 2 x + 1" using powi_less_iff [of 2 "- 1022" "mag 2 x + 1"] by simp
  then have "u = 2 powi (mag 2 x - 52)" by (simp add: u_def quantum_def)
  also have "\<dots> = 2 powi mag 2 x / 2 ^ 52" by (simp add: power_int_diff)
  also have "\<dots> \<le> x / 2 ^ 52" using mag_bounds [of 2 x] x by (simp add: divide_right_mono)
  finally have ux: "u \<le> x / 2 ^ 52" .
  have "f64 x - x = (of_int (rhe (x / u)) - x / u) * u"
    using x u by (simp add: f64_def sig_round_def u_def Let_def left_diff_distrib)
  moreover have "of_int (rhe (x / u)) - x / u \<le> 1 / 2" using rhe_dist [of "x / u"] by linarith
  then have "(of_int (rhe (x / u)) - x / u) * u \<le> 1 / 2 * u" using u by (intro mult_right_mono) simp_all
  ultimately show ?thesis using ux by simp
qed

lemma product_below:
  assumes "2 powi (- 1021) \<le> d" "u \<le> 1 - 1 / 2 ^ 53"
  shows "fmul d u < d"
proof -
  have d: "0 < d" using assms(1) zero_less_power_int [of "2 :: rat" "- 1021"] by linarith
  let ?x = "d * (1 - 1 / 2 ^ 53)"
  have "(2 :: rat) powi (- 1021) = 2 * 2 powi (- 1022)"
    using power_int_add [of "2 :: rat" 1 "- 1022"] by simp
  then have "2 powi (- 1022) \<le> ?x" using assms(1) zero_less_power_int [of "2 :: rat" "- 1022"] by simp
  then have "f64 ?x \<le> ?x + ?x / 2 ^ 53" by (rule f64_relative)
  also have "\<dots> = d * (1 - 1 / 2 ^ 106)" by (simp add: field_simps)
  also have "\<dots> < d" using d by simp
  finally have "f64 ?x < d" .
  moreover have "d * u \<le> ?x" using assms(2) d by (intro mult_left_mono) simp_all
  then have "fmul d u \<le> f64 ?x" unfolding fmul_def by (rule f64.mono)
  ultimately show ?thesis by linarith
qed

lemma flt_round_Fin: "f64 x = y \<Longrightarrow> - flt_limit < y \<Longrightarrow> y < flt_limit \<Longrightarrow> flt_round x = Fin y"
  by (simp add: flt_round_def)

lemma flt_limit_pos: "0 < flt_limit" "1 < flt_limit"
  by (simp_all add: flt_limit_def)

lemma uniform_between:
  assumes "f64 a = a" "f64 b = b" "a \<le> b" "- flt_limit < a" "b < flt_limit" "fsub b a < flt_limit"
  shows "\<exists>x. fst (flt_uniform (Fin a) (Fin b) r) = Fin x \<and> a \<le> x \<and> x \<le> b"
proof -
  define u :: rat where "u = of_nat (shd r mod 2 ^ 53) / 2 ^ 53"
  define d where "d = fsub b a"
  have "Suc (shd r mod 2 ^ 53) \<le> 2 ^ 53" by (intro Suc_leI mod_less_divisor) simp
  then have "of_nat (Suc (shd r mod 2 ^ 53)) \<le> (of_nat (2 ^ 53) :: rat)" by (rule of_nat_mono)
  then have "of_nat (shd r mod 2 ^ 53) \<le> (2 ^ 53 - 1 :: rat)" unfolding of_nat_Suc of_nat_power by simp
  then have "u \<le> (2 ^ 53 - 1) / 2 ^ 53" unfolding u_def by (rule divide_right_mono) simp
  then have u: "0 \<le> u" "u \<le> 1 - 1 / 2 ^ 53" by (simp_all add: u_def diff_divide_distrib)
  have d0: "0 \<le> d" unfolding d_def using assms(3) by (rule float_nonneg(4))
  have du: "fmul d u \<le> d"
  proof -
    have "u \<le> 1" using u(2) by simp
    then have "d * u \<le> d" using d0 by (simp add: mult_left_le)
    then show ?thesis unfolding fmul_def using d_def by (intro f64.below) (simp_all)
  qed
  have "fmul d u \<le> b - a"
  proof (cases "d \<le> b - a")
    case False
    then have ne: "f64 (b - a) \<noteq> b - a" by (simp add: d_def fsub_def)
    then have "2 powi (- 1021) \<le> b - a" using difference_exact [OF assms(1,2)] assms(3) by fastforce
    then have less: "fmul d u < d" using False u(2) by (intro product_below) linarith+
    have "b - a \<le> fmul d u \<Longrightarrow> d \<le> fmul d u"
      using f64.mono [of "b - a" "fmul d u"] by (simp add: d_def fsub_def)
    then show ?thesis using less by linarith
  qed (use du in linarith)
  then have "a + fmul d u \<le> b" by simp
  then have "fadd a (fmul d u) \<le> b" unfolding fadd_def using assms(2) by (intro f64.below)
  moreover have "a \<le> fadd a (fmul d u)" using assms(1) u d0 by (intro fadd_ge1 float_nonneg)
  ultimately have inside: "a \<le> fadd a (fmul d u)" "fadd a (fmul d u) \<le> b" by simp_all
  have "flt_round (b - a) = Fin d"
    using assms(6) d0 flt_limit_pos(1) by (intro flt_round_Fin) (simp_all add: d_def fsub_def)
  moreover have "flt_round (d * u) = Fin (fmul d u)"
    using assms(6) du u d0 float_nonneg(2) [of d u] flt_limit_pos(1) by (intro flt_round_Fin) (simp_all add: d_def fmul_def)
  moreover have "flt_round (a + fmul d u) = Fin (fadd a (fmul d u))"
    using inside assms(4,5) by (intro flt_round_Fin) (simp_all add: fadd_def)
  moreover have "draw_random r = (u, stl r)" by (simp add: draw_random_def u_def)
  ultimately have "fst (flt_uniform (Fin a) (Fin b) r) = Fin (fadd a (fmul d u))" by (simp add: flt_uniform_def)
  then show ?thesis using inside by blast
qed

section \<open>Samples lie in the space\<close>

text \<open>
  What the constructors check, over finite floats; and a continuous dimension is no wider than the largest float, which they
  do not check.
\<close>

fun dim_ok :: "dimension \<Rightarrow> bool" where
  "dim_ok (ContinuousFloat low high) =
     (low \<le> high \<and> f64 low = low \<and> f64 high = high \<and> - flt_limit < low \<and> high < flt_limit \<and> fsub high low < flt_limit)"
| "dim_ok (DiscreteInt low high step) = (low \<le> high \<and> 0 < step)"
| "dim_ok (Categorical choices) = (choices \<noteq> [])"

definition space_ok :: "param_space \<Rightarrow> bool" where
  "space_ok s = (s \<noteq> [] \<and> distinct (map fst s) \<and> list_all (\<lambda>(k, d). dim_ok d) s)"

lemma set_discrete_values:
  assumes "low \<le> high" "0 < step"
  shows "n \<in> set (discrete_values low high step) \<longleftrightarrow> low \<le> n \<and> n \<le> high \<and> (n - low) mod step = 0"
proof
  assume "n \<in> set (discrete_values low high step)"
  then have "n \<in> (\<lambda>k. low + int k * step) ` {0..<Suc (nat ((high - low) div step))}"
    using assms(1) by (simp add: discrete_values_def del: upt_Suc)
  then obtain k where k: "n = low + int k * step" "k \<in> {0..<Suc (nat ((high - low) div step))}"
    by (blast elim: imageE)
  have "0 \<le> (high - low) div step" using assms by (simp add: pos_imp_zdiv_nonneg_iff)
  then have "int k \<le> (high - low) div step" using k(2) by simp
  then have "int k * step \<le> (high - low) div step * step" using assms(2) by (intro mult_right_mono) simp_all
  also have "\<dots> \<le> high - low" using assms by (simp add: minus_mod_eq_div_mult [symmetric])
  finally show "low \<le> n \<and> n \<le> high \<and> (n - low) mod step = 0" using k(1) assms by simp
next
  assume n: "low \<le> n \<and> n \<le> high \<and> (n - low) mod step = 0"
  let ?k = "nat ((n - low) div step)"
  have q: "0 \<le> (n - low) div step" using n assms by (simp add: pos_imp_zdiv_nonneg_iff)
  have "(n - low) div step * step = n - low" using n by (metis div_mult_mod_eq add.right_neutral)
  then have "n = low + int ?k * step" using q by simp
  moreover have "(n - low) div step \<le> (high - low) div step" using n assms by (intro zdiv_mono1) simp_all
  then have "?k < Suc (nat ((high - low) div step))" by linarith
  ultimately have "n \<in> (\<lambda>k. low + int k * step) ` {0..<Suc (nat ((high - low) div step))}"
    by (intro image_eqI [of _ _ ?k]) simp_all
  then show "n \<in> set (discrete_values low high step)"
    using assms(1) by (simp add: discrete_values_def del: upt_Suc)
qed

lemma discrete_values_ne: "low \<le> high \<Longrightarrow> discrete_values low high step \<noteq> []"
  by (simp add: discrete_values_def)

lemma draw_choice_in: "xs \<noteq> [] \<Longrightarrow> fst (draw_choice xs r) \<in> set xs"
  by (simp add: draw_choice_def)

lemma same_value_refl [simp]: "same_value v v"
  by (cases v) (simp_all add: same_value_def as_number_def)

lemma sample_dim_contained:
  assumes "dim_ok d"
  shows "dim_contains d (fst (sample_dim d r))"
proof (cases d)
  case (ContinuousFloat low high)
  then have "dim_ok (ContinuousFloat low high)" using assms by simp
  then obtain x where "fst (flt_uniform (Fin low) (Fin high) r) = Fin x" "low \<le> x" "x \<le> high"
    using uniform_between [of low high r] unfolding dim_ok.simps by blast
  then show ?thesis using ContinuousFloat
    by (auto simp: sample_dim_def dim_contains_def as_number_def flt_le_def split: prod.splits)
next
  case (DiscreteInt low high step)
  then show ?thesis
    using assms draw_choice_in [OF discrete_values_ne, of low high step r]
    by (auto simp: sample_dim_def dim_contains_def set_discrete_values split: prod.splits)
next
  case (Categorical choices)
  then show ?thesis using assms draw_choice_in [of choices r]
    by (auto simp: sample_dim_def dim_contains_def list_ex_iff intro!: bexI [of _ "fst (draw_choice choices r)"])
qed

lemma sample_space_keys: "map fst (fst (sample_space s r)) = map fst s"
  by (induction s r rule: sample_space.induct) (auto simp: Let_def split: prod.splits)

lemma sample_space_values:
  "\<lbrakk>(k, v) \<in> set (fst (sample_space s r)); list_all (\<lambda>(k, d). dim_ok d) s\<rbrakk> \<Longrightarrow>
    \<exists>d. (k, d) \<in> set s \<and> dim_contains d v"
proof (induction s r rule: sample_space.induct)
  case (2 k' d ds r)
  obtain x r1 where x: "sample_dim d r = (x, r1)" by (rule prod.exhaust)
  obtain p r2 where p: "sample_space ds r1 = (p, r2)" by (rule prod.exhaust)
  have "dim_contains d x" using sample_dim_contained [of d r] "2.prems" x by simp
  then show ?case using "2.prems" x p "2.IH" [OF x [symmetric] refl] by fastforce
qed simp

lemma sample_space_contained: "space_ok s \<Longrightarrow> space_contains s (fst (sample_space s r))"
  using sample_space_keys [of s r] sample_space_values [of _ _ s r]
  by (fastforce simp: space_contains_def space_ok_def list_all_iff dest: map_of_is_SomeI simp flip: set_map)

lemma crossover_contained:
  assumes "fst (crossover a b r) = Inr c" "list_all (\<lambda>(k, v). P k v) a" "list_all (\<lambda>(k, v). P k v) b"
  shows "map fst c = map fst a \<and> list_all (\<lambda>(k, v). P k v) c"
  using assms
proof (induction a b r arbitrary: c rule: crossover.induct)
  case (2 k x a b r)
  obtain u r1 where u: "draw_random r = (u, r1)" by (rule prod.exhaust)
  obtain c' r2 where c': "crossover a b r1 = (c', r2)" by (rule prod.exhaust)
  show ?case
  proof (cases "u < 1 / 2")
    case True
    then obtain c'' where "c' = Inr c''" "c = (k, x) # c''"
      using "2.prems"(1) u c' by (cases c') auto
    moreover have "map fst c'' = map fst a \<and> list_all (\<lambda>(k, v). P k v) c''"
      using "2.prems" c' \<open>c' = Inr c''\<close> by (intro "2.IH"(1) [OF u [symmetric] refl True]) simp_all
    ultimately show ?thesis using "2.prems"(2) by simp
  next
    case False
    then obtain y c'' where "map_of b k = Some y" "c' = Inr c''" "c = (k, y) # c''"
      using "2.prems"(1) u c' by (cases c'; cases "map_of b k") auto
    moreover have "map fst c'' = map fst a \<and> list_all (\<lambda>(k, v). P k v) c''"
      using "2.prems" c' \<open>c' = Inr c''\<close> \<open>map_of b k = Some y\<close>
      by (intro "2.IH"(2) [OF u [symmetric] refl False \<open>map_of b k = Some y\<close>]) simp_all
    moreover have "P k y" using "2.prems"(3) map_of_SomeD [OF \<open>map_of b k = Some y\<close>] by (auto simp: list_all_iff)
    ultimately show ?thesis by simp
  qed
qed simp

lemma crossover_total:
  "set (map fst a) \<subseteq> set (map fst b) \<Longrightarrow> \<exists>c. fst (crossover a b r) = Inr c"
proof (induction a b r rule: crossover.induct)
  case (2 k x a b r)
  obtain u r1 where u: "draw_random r = (u, r1)" by (rule prod.exhaust)
  obtain c' r2 where c': "crossover a b r1 = (c', r2)" by (rule prod.exhaust)
  have "k \<in> fst ` set b" using "2.prems" by simp
  then obtain y where y: "map_of b k = Some y" by (metis map_of_eq_None_iff option.exhaust)
  show ?case using 2 u c' y by (cases "u < 1 / 2") fastforce+
qed simp

lemma update_keys: "k \<in> set (map fst p) \<Longrightarrow> map fst (AList.update k v p) = map fst p"
  by (induction p) auto

lemma update_values:
  "list_all (\<lambda>(k, v). P k v) p \<Longrightarrow> P k v \<Longrightarrow> list_all (\<lambda>(k, v). P k v) (AList.update k v p)"
  by (induction p) auto

lemma mutate_keeps:
  assumes "list_all (\<lambda>(k, v). P k v) p" "set (map fst ds) \<subseteq> set (map fst p)"
    and "\<And>k d r'. (k, d) \<in> set ds \<Longrightarrow> P k (fst (sample_dim d r'))"
  shows "map fst (fst (mutate rate ds p r)) = map fst p \<and> list_all (\<lambda>(k, v). P k v) (fst (mutate rate ds p r))"
  using assms
proof (induction rate ds p r rule: mutate.induct)
  case (2 rate k d ds p r)
  obtain u r1 where u: "draw_random r = (u, r1)" by (rule prod.exhaust)
  obtain v r2 where v: "sample_dim d r1 = (v, r2)" by (rule prod.exhaust)
  show ?case
  proof (cases "u < rate")
    case True
    have k: "k \<in> set (map fst p)" using "2.prems"(2) by simp
    have "P k v" using "2.prems"(3) [of k d r1] v by simp
    then have "map fst (fst (mutate rate ds (AList.update k v p) r2)) = map fst (AList.update k v p)
      \<and> list_all (\<lambda>(k, v). P k v) (fst (mutate rate ds (AList.update k v p) r2))"
      using "2.prems" update_keys [OF k, of v]
      by (intro "2.IH"(1) [OF u [symmetric] refl True v [symmetric] refl] update_values) (auto simp flip: set_map)
    then show ?thesis using True u v update_keys [OF k, of v] by simp
  next
    case False
    have "map fst (fst (mutate rate ds p r1)) = map fst p \<and> list_all (\<lambda>(k, v). P k v) (fst (mutate rate ds p r1))"
      using "2.prems" by (intro "2.IH"(2) [OF u [symmetric] refl False]) auto
    then show ?thesis using False u by simp
  qed
qed simp

lemma lookup_iff:
  assumes "distinct (map fst s)"
  shows "(case map_of s k of None \<Rightarrow> False | Some d \<Rightarrow> Q d) \<longleftrightarrow> (\<exists>d. (k, d) \<in> set s \<and> Q d)"
proof (cases "map_of s k")
  case None
  then have "k \<notin> fst ` set s" by (simp add: map_of_eq_None_iff)
  then show ?thesis using None by force
next
  case (Some d)
  then have "(k, d') \<in> set s \<longleftrightarrow> d' = d" for d'
    unfolding map_of_eq_Some_iff [OF assms, symmetric] by auto
  then show ?thesis using Some by simp
qed

lemma space_contains_iff:
  assumes "distinct (map fst s)"
  shows "space_contains s p \<longleftrightarrow>
    set (map fst p) = set (map fst s) \<and> list_all (\<lambda>(k, v). \<exists>d. (k, d) \<in> set s \<and> dim_contains d v) p"
  by (simp only: space_contains_def lookup_iff [OF assms])

lemma breed_contained:
  assumes "space_ok s" "\<forall>p\<in>set survivors. space_contains s p" "fst (breed n rate s survivors r) = Inr ps"
  shows "\<forall>p\<in>set ps. space_contains s p"
  using assms(3)
proof (induction n arbitrary: r ps)
  case (Suc n)
  let ?P = "\<lambda>k v. \<exists>d. (k, d) \<in> set s \<and> dim_contains d v"
  have dist: "distinct (map fst s)" and dims: "list_all (\<lambda>(k, d). dim_ok d) s" using assms(1) by (simp_all add: space_ok_def)
  have ne: "survivors \<noteq> []" using Suc.prems by auto
  obtain a r1 where a: "draw_choice survivors r = (a, r1)" by (rule prod.exhaust)
  obtain b r2 where b: "draw_choice survivors r1 = (b, r2)" by (rule prod.exhaust)
  have ab: "space_contains s a" "space_contains s b"
    using draw_choice_in [OF ne, of r] draw_choice_in [OF ne, of r1] a b assms(2) by simp_all
  obtain c r3 where c: "crossover a b r2 = (c, r3)" by (rule prod.exhaust)
  then obtain c' where c': "c = Inr c'" using Suc.prems ne a b by (cases c) auto
  obtain m r4 where m: "mutate rate s c' r3 = (m, r4)" by (rule prod.exhaust)
  obtain ms r5 where ms: "breed n rate s survivors r4 = (ms, r5)" by (rule prod.exhaust)
  obtain ms' where ms': "ms = Inr ms'" "ps = m # ms'" using Suc.prems ne a b c c' m ms by (cases ms) auto
  have "map fst c' = map fst a \<and> list_all (\<lambda>(k, v). ?P k v) c'"
    using ab c c' by (intro crossover_contained [of a b r2]) (simp_all add: space_contains_iff [OF dist])
  moreover have "?P k (fst (sample_dim d r'))" if "(k, d) \<in> set s" for k d r'
    using that dims sample_dim_contained [of d r'] by (auto simp: list_all_iff)
  moreover have "set (map fst a) = set (map fst s)" using ab by (simp add: space_contains_iff [OF dist])
  ultimately have "map fst (fst (mutate rate s c' r3)) = map fst c' \<and> list_all (\<lambda>(k, v). ?P k v) (fst (mutate rate s c' r3))"
    by (intro mutate_keeps) simp_all
  then have "map fst m = map fst a \<and> list_all (\<lambda>(k, v). ?P k v) m"
    using m \<open>map fst c' = map fst a \<and> _\<close> by simp
  then have "space_contains s m" using ab by (simp add: space_contains_iff [OF dist])
  then show ?case using Suc.IH [of r4 ms'] ms ms' by simp
qed simp

lemma breed_total:
  assumes "space_ok s" "survivors \<noteq> []" "\<forall>p\<in>set survivors. space_contains s p"
  shows "\<exists>ps. fst (breed n rate s survivors r) = Inr ps \<and> length ps = n"
proof (induction n arbitrary: r)
  case (Suc n)
  have dist: "distinct (map fst s)" using assms(1) by (simp add: space_ok_def)
  obtain a r1 where a: "draw_choice survivors r = (a, r1)" by (rule prod.exhaust)
  obtain b r2 where b: "draw_choice survivors r1 = (b, r2)" by (rule prod.exhaust)
  have "space_contains s a" "space_contains s b"
    using draw_choice_in [OF assms(2), of r] draw_choice_in [OF assms(2), of r1] a b assms(3) by simp_all
  then have "set (map fst a) \<subseteq> set (map fst b)" by (simp add: space_contains_iff [OF dist])
  then obtain c r3 where c: "crossover a b r2 = (Inr c, r3)"
    using crossover_total [of a b r2] by (metis prod.collapse)
  obtain m r4 where m: "mutate rate s c r3 = (m, r4)" by (rule prod.exhaust)
  obtain ms r5 where ms: "breed n rate s survivors r4 = (ms, r5)" by (rule prod.exhaust)
  then obtain ps where "ms = Inr ps" "length ps = n" using Suc.IH [of r4] by auto
  then show ?case using a b c m ms assms(2) by simp
qed simp

section \<open>What an optimizer promises to the loop\<close>

text \<open>
  \<open>ready\<close> holds when the loop asks for a point, \<open>asked\<close> until it has told the score.
\<close>

locale point_source =
  fixes opt :: "'o optimizer" and s :: param_space
    and fresh ready asked :: "'o \<Rightarrow> bool"
  assumes ask_ready: "fresh st \<Longrightarrow> ready (o_ask opt s st)"
    and next_inside: "\<lbrakk>ready st; o_next opt st = (Some (Inr p), st')\<rbrakk> \<Longrightarrow> space_contains s p \<and> asked st'"
    and tell_ready: "\<lbrakk>asked st; space_contains s p\<rbrakk> \<Longrightarrow> ready (o_tell opt p x st)"
begin

lemma loop_inside:
  assumes "opt_loop fuel obj opt n run st = Some (Inr run', st')" "ready st"
    "list_all (\<lambda>e. space_contains s (he_params e)) (run_history run)"
  shows "list_all (\<lambda>e. space_contains s (he_params e)) (run_history run')"
  using assms
proof (induction fuel arbitrary: run st)
  case (Suc fuel)
  obtain x st1 where x: "o_next opt st = (x, st1)" by (rule prod.exhaust)
  show ?case
  proof (cases x)
    case None
    then show ?thesis using Suc.prems x by simp
  next
    case (Some y)
    then obtain p where p: "y = Inr p" using Suc.prems(1) x by (cases y) auto
    have inside: "space_contains s p" "asked st1" using next_inside [OF Suc.prems(2)] x Some p by simp_all
    show ?thesis
    proof (cases "enough_trials n run")
      case True
      then show ?thesis using Suc.prems x Some p by simp
    next
      case False
      let ?e = "trial_entry obj (run_n run) p"
      have "he_params ?e = p" by (simp add: trial_entry_def split: sum.split)
      then have "list_all (\<lambda>e. space_contains s (he_params e)) (run_history (record_trial ?e run))"
        using Suc.prems(3) inside(1) by (simp add: record_trial_def Let_def)
      moreover have "opt_loop fuel obj opt n (record_trial ?e run) (o_tell opt p (he_score ?e) st1) = Some (Inr run', st')"
        using Suc.prems(1) x Some p False by (simp add: Let_def)
      ultimately show ?thesis using tell_ready [OF inside(2,1)] by (intro Suc.IH)
    qed
  qed
qed simp

end

locale endless_source = point_source +
  assumes never_ends: "ready st \<Longrightarrow> \<exists>p st'. o_next opt st = (Some (Inr p), st')"
begin

lemma loop_complete:
  assumes "ready st" "run_n run \<le> n" "n - run_n run < fuel"
  shows "\<exists>run' st'. opt_loop fuel obj opt (Some (int n)) run st = Some (Inr run', st') \<and> run_n run' = n"
  using assms
proof (induction fuel arbitrary: run st)
  case (Suc fuel)
  obtain p st1 where p: "o_next opt st = (Some (Inr p), st1)" using never_ends [OF Suc.prems(1)] by blast
  have inside: "space_contains s p" "asked st1" using next_inside [OF Suc.prems(1) p] by simp_all
  show ?case
  proof (cases "n \<le> run_n run")
    case True
    then show ?thesis using Suc.prems p by (simp add: enough_trials_def)
  next
    case False
    let ?e = "trial_entry obj (run_n run) p"
    have n: "run_n (record_trial ?e run) = run_n run + 1" by (simp add: record_trial_def Let_def)
    have "\<exists>run' st'. opt_loop fuel obj opt (Some (int n)) (record_trial ?e run) (o_tell opt p (he_score ?e) st1)
        = Some (Inr run', st') \<and> run_n run' = n"
      using tell_ready [OF inside(2,1)] False Suc.prems n by (intro Suc.IH) simp_all
    then show ?thesis using p False by (simp add: Let_def enough_trials_def)
  qed
qed simp

end

definition rs_ready :: "param_space \<Rightarrow> RandomSearch \<Rightarrow> bool" where
  "rs_ready s st = (space_ok s \<and> rs_space st = s)"

interpretation random_source: endless_source random_search_optimizer s "\<lambda>st. space_ok s" "rs_ready s" "rs_ready s"
  for s
  by unfold_locales
    (auto simp: rs_ready_def random_search_optimizer_def random_next_def split: prod.splits,
      metis fst_conv sample_space_contained)

definition ga_ready :: "param_space \<Rightarrow> nat \<Rightarrow> GeneticOptimizer \<Rightarrow> bool" where
  "ga_ready s k st =
     (space_ok s \<and> ga_space st = s \<and> 4 \<le> ga_population_size st
      \<and> (\<forall>t\<in>set (ga_population st). space_contains s (fst t)) \<and> (\<forall>p\<in>set (ga_queue st). space_contains s p)
      \<and> ga_population_size st \<le> length (ga_population st) + k + ga_initial st)"

definition ga_fresh :: "param_space \<Rightarrow> GeneticOptimizer \<Rightarrow> bool" where
  "ga_fresh s st =
     (space_ok s \<and> 4 \<le> ga_population_size st \<and> (\<forall>t\<in>set (ga_population st). space_contains s (fst t)))"

lemma survivors_contained:
  assumes "\<forall>t\<in>set population. space_contains s (fst t)"
  shows "\<forall>p\<in>set (survivors_of n population). space_contains s p"
  using assms by (auto simp: survivors_of_def dest!: in_set_takeD in_set_dropD)

lemma survivors_ne:
  assumes "population \<noteq> []" "0 < n"
  shows "survivors_of n population \<noteq> []"
proof -
  have "length (sort_key (\<lambda>t. descending (snd t)) (drop (length population - n) population)) = min n (length population)"
    by simp
  then have "length (survivors_of n population) = min (max 2 (n div 2)) (min n (length population))"
    by (simp add: survivors_of_def min.commute)
  moreover have "0 < length population" using assms(1) by simp
  ultimately have "0 < length (survivors_of n population)" using assms(2) by (simp add: min_def max_def)
  then show ?thesis by simp
qed

lemma ga_next_point:
  assumes "ga_ready s 0 st"
  shows "\<exists>p st'. ga_next st = (Some (Inr p), st') \<and> space_contains s p \<and> ga_ready s 1 st'"
proof -
  have s: "space_ok s" "ga_space st = s" using assms by (simp_all add: ga_ready_def)
  consider "0 < ga_initial st" | p ps where "ga_initial st = 0" "ga_queue st = p # ps"
    | "ga_initial st = 0" "ga_queue st = []" by (cases "ga_queue st") auto
  then show ?thesis
  proof cases
    case 1
    then show ?thesis using assms sample_space_contained [OF s(1), of "ga_rng st"]
      by (auto simp: ga_next_def ga_ready_def split: prod.splits)
  next
    case 2
    then show ?thesis using assms by (simp add: ga_next_def ga_ready_def)
  next
    case 3
    let ?sv = "survivors_of (ga_population_size st) (ga_population st)"
    have sv: "\<forall>p\<in>set ?sv. space_contains s p" using assms by (intro survivors_contained) (simp add: ga_ready_def)
    have ne: "?sv \<noteq> []" using assms 3 by (intro survivors_ne) (auto simp: ga_ready_def)
    obtain ps r where ps: "breed (ga_population_size st) (ga_mutation_rate st) s ?sv (ga_rng st) = (Inr ps, r)"
      "length ps = ga_population_size st"
      using breed_total [OF s(1) ne sv] by (metis prod.collapse)
    have "\<forall>p\<in>set ps. space_contains s p" using breed_contained [OF s(1) sv] ps(1) by (metis fst_conv)
    moreover obtain q qs where "ps = q # qs" using ps(2) assms by (cases ps) (auto simp: ga_ready_def)
    ultimately show ?thesis using assms 3 ps s(2) by (simp add: ga_next_def evolve_def ga_ready_def)
  qed
qed

interpretation genetic_source: endless_source genetic_optimizer s "ga_fresh s" "ga_ready s 0" "ga_ready s 1"
  for s
proof unfold_locales
  show "ga_ready s 0 (o_ask genetic_optimizer s st)" if "ga_fresh s st" for st
    using that by (simp add: genetic_optimizer_def ga_ask_def ga_ready_def ga_fresh_def)
  show "space_contains s p \<and> ga_ready s 1 st'"
    if "ga_ready s 0 st" "o_next genetic_optimizer st = (Some (Inr p), st')" for st p st'
    using ga_next_point [OF that(1)] that(2) by (auto simp: genetic_optimizer_def)
  show "ga_ready s 0 (o_tell genetic_optimizer p x st)" if "ga_ready s 1 st" "space_contains s p" for st p x
    using that by (auto simp: genetic_optimizer_def ga_tell_def ga_ready_def)
  show "\<exists>p st'. o_next genetic_optimizer st = (Some (Inr p), st')" if "ga_ready s 0 st" for st
    using ga_next_point [OF that] by (auto simp: genetic_optimizer_def)
qed

section \<open>The grid\<close>

text \<open>What \<open>grid_recurse\<close> leaves in \<open>current\<close> below the names it has fixed: values of some of the next names.\<close>

lemma grid_recurse_product_from:
  assumes "map fst st = take k (map fst ls)" "distinct (map fst c @ map fst ls)"
  shows "\<exists>st' k'. grid_recurse ls (c @ st) =
      (map (\<lambda>vs. c @ zip (map fst ls) vs) (product_lists (map snd ls)), c @ st')
    \<and> map fst st' = take k' (map fst ls)"
  using assms
proof (induction ls "c @ st" arbitrary: c st k rule: grid_recurse.induct)
  case 1
  then show ?case by simp
next
  case (2 name rest)
  then show ?case by auto
next
  case (3 name v vs rest)
  have new: "name \<notin> set (map fst c)" using "3.prems"(2) by auto
  obtain st1 k1 where st1: "AList.update name v (c @ st) = (c @ [(name, v)]) @ st1" "map fst st1 = take k1 (map fst rest)"
  proof (cases st)
    case Nil
    then have "AList.update name v (c @ st) = (c @ [(name, v)]) @ []" using new by (induction c) auto
    then show ?thesis by (rule that [of _ 0]) simp
  next
    case (Cons x xs)
    then obtain k0 where k: "k = Suc k0" using "3.prems"(1) by (cases k) auto
    have "fst x = name" "map fst xs = take k0 (map fst rest)" using "3.prems"(1) Cons k by simp_all
    moreover have "AList.update name v (c @ x # xs) = c @ AList.update name v (x # xs)"
      using new by (induction c) auto
    ultimately show ?thesis using Cons by (intro that [of xs k0]) (cases x, simp_all)
  qed
  have "\<exists>st' k'. grid_recurse rest ((c @ [(name, v)]) @ st1) =
      (map (\<lambda>ws. (c @ [(name, v)]) @ zip (map fst rest) ws) (product_lists (map snd rest)), (c @ [(name, v)]) @ st')
    \<and> map fst st' = take k' (map fst rest)"
    using "3.prems"(2) st1 by (intro "3.hyps"(1) [OF st1(1) st1(2)]) auto
  then obtain st2 k2 where st2: "grid_recurse rest (AList.update name v (c @ st)) =
      (map (\<lambda>ws. (c @ [(name, v)]) @ zip (map fst rest) ws) (product_lists (map snd rest)), c @ (name, v) # st2)"
    "map fst st2 = take k2 (map fst rest)"
    using st1(1) by auto
  have "map fst ((name, v) # st2) = take (Suc k2) (map fst ((name, vs) # rest))" using st2(2) by simp
  then have "\<exists>st' k'. grid_recurse ((name, vs) # rest) (c @ (name, v) # st2) =
      (map (\<lambda>ws. c @ zip (map fst ((name, vs) # rest)) ws) (product_lists (map snd ((name, vs) # rest))), c @ st')
    \<and> map fst st' = take k' (map fst ((name, vs) # rest))"
    using "3.prems"(2) by (intro "3.hyps"(2) [OF st2(1) [symmetric] refl, where k = "Suc k2"]) auto
  then show ?case using st2(1) by (auto simp: comp_def)
qed

lemma grid_recurse_product:
  assumes "distinct (map fst ls)"
  shows "fst (grid_recurse ls []) = map (zip (map fst ls)) (product_lists (map snd ls))"
  using grid_recurse_product_from [of "[]" 0 ls "[]"] assms by auto

lemma grid_lists_keys: "grid_lists s = Inr ls \<Longrightarrow> map fst ls = map fst s"
  by (induction s arbitrary: ls rule: grid_lists.induct)
    (auto simp: map_sum_def split: dimension.splits sum.splits)

lemma grid_lists_values:
  "\<lbrakk>grid_lists s = Inr ls; list_all (\<lambda>(k, d). dim_ok d) s; (k, vs) \<in> set ls; v \<in> set vs\<rbrakk> \<Longrightarrow>
    \<exists>d. (k, d) \<in> set s \<and> dim_contains d v"
proof (induction s arbitrary: ls rule: grid_lists.induct)
  case (2 k' d ds)
  show ?case
  proof (cases d)
    case (ContinuousFloat low high)
    then show ?thesis using "2.prems"(1) by simp
  next
    case (DiscreteInt low high step)
    then obtain ls' where ls': "grid_lists ds = Inr ls'" "ls = (k', map P_int (discrete_values low high step)) # ls'"
      using "2.prems"(1) by (cases "grid_lists ds") auto
    show ?thesis
    proof (cases "(k, vs) \<in> set ls'")
      case True
      then show ?thesis using "2.IH"(1) [OF DiscreteInt ls'(1)] "2.prems" by auto
    next
      case False
      then show ?thesis using "2.prems" ls' DiscreteInt set_discrete_values [of low high step]
        by (auto simp: dim_contains_def intro!: exI [of _ d])
    qed
  next
    case (Categorical choices)
    then obtain ls' where ls': "grid_lists ds = Inr ls'" "ls = (k', choices) # ls'"
      using "2.prems"(1) by (cases "grid_lists ds") auto
    show ?thesis
    proof (cases "(k, vs) \<in> set ls'")
      case True
      then show ?thesis using "2.IH"(2) [OF Categorical ls'(1)] "2.prems" by auto
    next
      case False
      then have "dim_contains d v" using "2.prems" ls' Categorical
        by (auto simp: dim_contains_def list_ex_iff intro!: bexI [of _ v])
      then show ?thesis using False "2.prems" ls' by auto
    qed
  qed
qed simp

lemma product_zip:
  assumes "vs \<in> set (product_lists (map snd ls))"
  shows "length vs = length ls \<and> (\<forall>(k, v)\<in>set (zip (map fst ls) vs). \<exists>ws. (k, ws) \<in> set ls \<and> v \<in> set ws)"
  using assms
proof (induction ls arbitrary: vs)
  case (Cons l ls)
  then show ?case by (cases l) (fastforce)
qed simp

lemma grid_points_contained:
  assumes "space_ok s" "grid_ask s = Inr ps" "p \<in> set ps"
  shows "space_contains s p"
proof -
  have dist: "distinct (map fst s)" and ok: "list_all (\<lambda>(k, d). dim_ok d) s" using assms(1) by (simp_all add: space_ok_def)
  obtain ls where ls: "grid_lists s = Inr ls" "ps = fst (grid_recurse ls [])"
    using assms(2) by (cases "grid_lists s") (auto simp: grid_ask_def)
  have keys: "map fst ls = map fst s" by (rule grid_lists_keys [OF ls(1)])
  then obtain vs where vs: "p = zip (map fst ls) vs" "vs \<in> set (product_lists (map snd ls))"
    using assms(3) ls(2) dist by (auto simp: grid_recurse_product)
  have len: "length vs = length ls" and el: "\<forall>(k, v)\<in>set p. \<exists>ws. (k, ws) \<in> set ls \<and> v \<in> set ws"
    using product_zip [OF vs(2)] vs(1) by auto
  have "length (map fst s) = length vs" using len by (simp flip: keys)
  then have "map fst p = map fst s" by (simp add: vs(1) keys)
  moreover have "list_all (\<lambda>(k, v). \<exists>d. (k, d) \<in> set s \<and> dim_contains d v) p"
    using el grid_lists_values [OF ls(1) ok] by (fastforce simp: list_all_iff)
  ultimately show ?thesis by (simp add: space_contains_iff [OF dist])
qed

definition grid_ready :: "param_space \<Rightarrow> opt_error + point list \<Rightarrow> bool" where
  "grid_ready s g = (case g of Inl e \<Rightarrow> True | Inr ps \<Rightarrow> \<forall>p\<in>set ps. space_contains s p)"

interpretation grid_source: point_source grid_search_optimizer s "\<lambda>g. space_ok s" "grid_ready s" "grid_ready s"
  for s
proof unfold_locales
  show "grid_ready s (o_ask grid_search_optimizer s g)" if "space_ok s" for g
    using grid_points_contained [OF that] by (auto simp: grid_search_optimizer_def grid_ready_def split: sum.split)
  show "space_contains s p \<and> grid_ready s g'"
    if "grid_ready s g" "o_next grid_search_optimizer g = (Some (Inr p), g')" for g p g'
    using that by (auto simp: grid_search_optimizer_def grid_next_def grid_ready_def split: sum.splits list.splits)
  show "grid_ready s (o_tell grid_search_optimizer p x g)" if "grid_ready s g" "space_contains s p" for g p x
    using that by (simp add: grid_search_optimizer_def)
qed

section \<open>What the loop reports\<close>

definition reports_best :: "HistoryEntry list \<Rightarrow> point option \<Rightarrow> flt \<Rightarrow> bool" where
  "reports_best hs best score =
     (case best of
        None \<Rightarrow> score = NegInf \<and> list_all (\<lambda>e. he_score e = NegInf) hs
      | Some p \<Rightarrow>
          \<exists>pre e post. hs = pre @ e # post \<and> he_params e = p \<and> he_score e = score
            \<and> list_all (\<lambda>x. flt_less (he_score x) score) pre
            \<and> list_all (\<lambda>x. \<not> flt_less score (he_score x)) post)"

lemma flt_less_trans: "flt_less x y \<Longrightarrow> \<not> flt_less x z \<Longrightarrow> z \<noteq> NaN \<Longrightarrow> flt_less z y"
  by (cases x; cases y; cases z) auto

lemma flt_less_asym: "flt_less x y \<Longrightarrow> \<not> flt_less y x"
  by (cases x; cases y) auto

lemma flt_less_irrefl [simp]: "\<not> flt_less x x"
  by (cases x) auto

lemma flt_NegInf: "\<not> flt_less NegInf x \<Longrightarrow> x \<noteq> NaN \<Longrightarrow> x = NegInf"
  by (cases x) auto

definition run_ok :: "opt_run \<Rightarrow> bool" where
  "run_ok run =
     (reports_best (run_history run) (run_best run) (run_score run) \<and> run_n run = length (run_history run)
      \<and> list_all (\<lambda>e. he_score e \<noteq> NaN) (run_history run) \<and> run_score run \<noteq> NaN)"

lemma record_trial_ok:
  assumes "run_ok run" "he_score e \<noteq> NaN"
  shows "run_ok (record_trial e run)"
proof -
  let ?r = "record_trial e run"
  have best: "reports_best (run_history run) (run_best run) (run_score run)" and nan: "run_score run \<noteq> NaN"
    and hs: "list_all (\<lambda>e. he_score e \<noteq> NaN) (run_history run)" using assms(1) by (simp_all add: run_ok_def)
  have below: "list_all (\<lambda>x. \<not> flt_less (run_score run) (he_score x)) (run_history run)"
  proof (cases "run_best run")
    case (Some p)
    then obtain pre e' post where "run_history run = pre @ e' # post" "he_score e' = run_score run"
      "list_all (\<lambda>x. flt_less (he_score x) (run_score run)) pre" "list_all (\<lambda>x. \<not> flt_less (run_score run) (he_score x)) post"
      using best by (auto simp: reports_best_def)
    then show ?thesis by (auto simp: list_all_iff flt_less_asym)
  qed (use best in \<open>auto simp: reports_best_def list_all_iff\<close>)
  have "reports_best (run_history ?r) (run_best ?r) (run_score ?r)"
  proof (cases "flt_less (run_score run) (he_score e)")
    case True
    then have "list_all (\<lambda>x. flt_less (he_score x) (he_score e)) (run_history run)"
      using below hs unfolding list_all_iff by (blast intro: flt_less_trans)
    then have "\<exists>pre e' post. run_history run @ [e] = pre @ e' # post \<and> he_params e' = he_params e \<and> he_score e' = he_score e
      \<and> list_all (\<lambda>x. flt_less (he_score x) (he_score e)) pre
      \<and> list_all (\<lambda>x. \<not> flt_less (he_score e) (he_score x)) post"
      by (intro exI [of _ "run_history run"] exI [of _ e] exI [of _ "[]"]) simp
    then show ?thesis using True by (simp add: record_trial_def Let_def reports_best_def)
  next
    case False
    show ?thesis
    proof (cases "run_best run")
      case None
      then have "run_score run = NegInf" using best by (simp add: reports_best_def)
      then show ?thesis using None False best assms(2) flt_NegInf [of "he_score e"]
        by (simp add: record_trial_def Let_def reports_best_def)
    next
      case (Some p)
      then obtain pre e' post where "run_history run = pre @ e' # post" "he_params e' = p" "he_score e' = run_score run"
        "list_all (\<lambda>x. flt_less (he_score x) (run_score run)) pre" "list_all (\<lambda>x. \<not> flt_less (run_score run) (he_score x)) post"
        using best by (auto simp: reports_best_def)
      then have "\<exists>pre e' post'. run_history run @ [e] = pre @ e' # post' \<and> he_params e' = p \<and> he_score e' = run_score run
        \<and> list_all (\<lambda>x. flt_less (he_score x) (run_score run)) pre
        \<and> list_all (\<lambda>x. \<not> flt_less (run_score run) (he_score x)) post'"
        using False by (intro exI [of _ pre] exI [of _ e'] exI [of _ "post @ [e]"]) simp
      then show ?thesis using Some False by (simp add: record_trial_def Let_def reports_best_def)
    qed
  qed
  then show ?thesis using assms by (simp add: run_ok_def record_trial_def Let_def)
qed

lemma trial_entry_score [simp]: "he_score (trial_entry obj n p) \<noteq> NaN"
  by (auto simp: trial_entry_def split: sum.split)

lemma trial_entry_params [simp]: "he_params (trial_entry obj n p) = p"
  by (auto simp: trial_entry_def split: sum.split)

lemma loop_reports_best:
  "\<lbrakk>opt_loop fuel obj opt n run st = Some (Inr run', st'); run_ok run\<rbrakk> \<Longrightarrow> run_ok run'"
proof (induction fuel obj opt n run st rule: opt_loop.induct)
  case (2 fuel obj opt n run st)
  obtain x st1 where x: "o_next opt st = (x, st1)" by (rule prod.exhaust)
  show ?case
  proof (cases x)
    case (Some y)
    then obtain p where p: "y = Inr p" using "2.prems"(1) x by (cases y) auto
    show ?thesis
    proof (cases "enough_trials n run")
      case False
      show ?thesis
        by (rule "2.IH" [OF x [symmetric] Some p False refl]) (use "2.prems" x Some p False record_trial_ok in \<open>simp_all add: Let_def\<close>)
    qed (use "2.prems" x Some p in simp)
  qed (use "2.prems" x in simp)
qed simp

lemma first_run_ok: "run_ok first_run"
  by (simp add: run_ok_def first_run_def reports_best_def)

lemma optimize_cases:
  assumes "optimize fuel obj s opt n st = Some (Inr r, st')"
  shows "\<exists>run. opt_loop fuel obj opt n first_run (o_ask opt s st) = Some (Inr run, st') \<and> r = opt_result_of run"
proof -
  obtain x where x: "opt_loop fuel obj opt n first_run (o_ask opt s st) = Some (x, st')" "map_sum id opt_result_of x = Inr r"
    using assms by (auto simp: optimize_def split: option.splits if_splits)
  then show ?thesis by (cases x) auto
qed

text \<open>What a trial is worth, from the objective alone, and the entry that the history must hold for it.\<close>

definition worth :: "objective \<Rightarrow> nat \<Rightarrow> point \<Rightarrow> flt" where
  "worth obj i p = (case obj i p of Inl msg \<Rightarrow> NegInf | Inr x \<Rightarrow> (if x = NaN then NegInf else x))"

definition records_trial :: "objective \<Rightarrow> nat \<times> HistoryEntry \<Rightarrow> bool" where
  "records_trial obj ie \<longleftrightarrow> he_score (snd ie) = worth obj (fst ie) (he_params (snd ie))
     \<and> he_error (snd ie) = (case obj (fst ie) (he_params (snd ie)) of Inl msg \<Rightarrow> Some msg | Inr x \<Rightarrow> None)"

lemma trial_entry_records: "records_trial obj (i, trial_entry obj i p)"
  by (simp add: records_trial_def worth_def trial_entry_def split: sum.split)

lemma loop_records_trials:
  "\<lbrakk>opt_loop fuel obj opt n run st = Some (Inr run', st'); run_ok run;
    list_all (records_trial obj) (enumerate 0 (run_history run))\<rbrakk>
    \<Longrightarrow> list_all (records_trial obj) (enumerate 0 (run_history run'))"
proof (induction fuel obj opt n run st rule: opt_loop.induct)
  case (2 fuel obj opt n run st)
  obtain x st1 where x: "o_next opt st = (x, st1)" by (rule prod.exhaust)
  show ?case
  proof (cases x)
    case (Some y)
    then obtain p where p: "y = Inr p" using "2.prems"(1) x by (cases y) auto
    show ?thesis
    proof (cases "enough_trials n run")
      case False
      let ?e = "trial_entry obj (run_n run) p"
      have "run_n run = length (run_history run)" using "2.prems"(2) by (simp add: run_ok_def)
      then have "list_all (records_trial obj) (enumerate 0 (run_history (record_trial ?e run)))"
        using "2.prems"(3) trial_entry_records [of obj "run_n run" p]
        by (simp add: record_trial_def Let_def enumerate_append_eq)
      then show ?thesis
        by (intro "2.IH" [OF x [symmetric] Some p False refl])
          (use "2.prems" x Some p False record_trial_ok in \<open>simp_all add: Let_def\<close>)
    qed (use "2.prems" x Some p in simp)
  qed (use "2.prems" x in simp)
qed simp

section \<open>Studies: specifications and samplers\<close>

record ParamSpec =
  sp_name :: string
  sp_choices :: "param_value list option"
  sp_low :: "flt option"
  sp_high :: "flt option"
  sp_log :: bool

datatype study_error =
  ChoicesOrRange string
| SpecLowAboveHigh string
| LogNeedsPositive string
| ContinuousSpec string
| BadDirection string
| MaxTrialsNotPositive int
| TrialCountNotPositive int
| EmptyChoices

definition is_discrete :: "ParamSpec \<Rightarrow> bool" where
  "is_discrete s = (sp_choices s \<noteq> None)"

definition new_spec ::
  "string \<Rightarrow> param_value list option \<Rightarrow> flt option \<Rightarrow> flt option \<Rightarrow> bool \<Rightarrow> study_error + ParamSpec" where
  "new_spec name choices low high lg =
     (let has_choices = choices \<noteq> None;
          has_range = (low \<noteq> None \<and> high \<noteq> None);
          spec = \<lparr>sp_name = name, sp_choices = choices, sp_low = low, sp_high = high, sp_log = lg\<rparr> in
      if has_choices = has_range then Inl (ChoicesOrRange name)
      else if has_range \<and> flt_less (the high) (the low) then Inl (SpecLowAboveHigh name)
      else if has_range \<and> lg \<and> (flt_le (the low) (Fin 0) \<or> flt_le (the high) (Fin 0)) then Inl (LogNeedsPositive name)
      else Inr spec)"

text \<open>\<open>_cartesian\<close> with the dictionary \<open>acc\<close> its levels share: each level removes its name again.\<close>

function cartesian :: "(string \<times> param_value list) list \<Rightarrow> point \<Rightarrow> point list \<times> point" where
  "cartesian [] acc = ([acc], acc)"
| "cartesian ((name, []) # rest) acc = ([], acc)"
| "cartesian ((name, v # vs) # rest) acc =
     (let (ps, acc1) = cartesian rest (AList.update name v acc);
          (qs, acc2) = cartesian ((name, vs) # rest) (AList.delete name acc1)
      in (ps @ qs, acc2))"
  by pat_completeness auto
termination
  by (relation "measures [\<lambda>(ls, c). length ls, \<lambda>(ls, c). case ls of [] \<Rightarrow> 0 | l # _ \<Rightarrow> length (snd l)]") auto

text \<open>A sampler yields points, or an exception and nothing after it.\<close>

definition grid_search :: "ParamSpec list \<Rightarrow> (study_error + point) list" where
  "grid_search specs =
     (if specs = [] then [Inr []]
      else case find (\<lambda>s. \<not> is_discrete s) specs of
        Some s \<Rightarrow> [Inl (ContinuousSpec (sp_name s))]
      | None \<Rightarrow> map Inr (fst (cartesian (map (\<lambda>s. (sp_name s, the (sp_choices s))) specs) [])))"

definition random_value ::
  "(flt \<Rightarrow> flt) \<Rightarrow> (flt \<Rightarrow> flt) \<Rightarrow> ParamSpec \<Rightarrow> draws \<Rightarrow> (study_error + param_value) \<times> draws" where
  "random_value flog fexp s r =
     (case sp_choices s of
        Some choices \<Rightarrow>
          if choices = [] then (Inl EmptyChoices, r) else (let (v, r') = draw_choice choices r in (Inr v, r'))
      | None \<Rightarrow>
          if sp_log s
          then (let (x, r') = flt_uniform (flog (the (sp_low s))) (flog (the (sp_high s))) r in (Inr (P_float (fexp x)), r'))
          else (let (x, r') = flt_uniform (the (sp_low s)) (the (sp_high s)) r in (Inr (P_float x), r')))"

fun random_point ::
  "(flt \<Rightarrow> flt) \<Rightarrow> (flt \<Rightarrow> flt) \<Rightarrow> ParamSpec list \<Rightarrow> point \<Rightarrow> draws \<Rightarrow> (study_error + point) \<times> draws" where
  "random_point flog fexp [] params r = (Inr params, r)"
| "random_point flog fexp (s # specs) params r =
     (case random_value flog fexp s r of
        (Inl e, r') \<Rightarrow> (Inl e, r')
      | (Inr v, r') \<Rightarrow> random_point flog fexp specs (AList.update (sp_name s) v params) r')"

fun random_points ::
  "(flt \<Rightarrow> flt) \<Rightarrow> (flt \<Rightarrow> flt) \<Rightarrow> ParamSpec list \<Rightarrow> nat \<Rightarrow> draws \<Rightarrow> (study_error + point) list" where
  "random_points flog fexp specs 0 r = []"
| "random_points flog fexp specs (Suc n) r =
     (case random_point flog fexp specs [] r of
        (Inl e, r') \<Rightarrow> [Inl e]
      | (Inr p, r') \<Rightarrow> Inr p # random_points flog fexp specs n r')"

definition random_search ::
  "(flt \<Rightarrow> flt) \<Rightarrow> (flt \<Rightarrow> flt) \<Rightarrow> ParamSpec list \<Rightarrow> int \<Rightarrow> draws \<Rightarrow> (study_error + point) list" where
  "random_search flog fexp specs n_trials r = random_points flog fexp specs (nat n_trials) r"

section \<open>Studies: the runs\<close>

record StudyTrial =
  st_index :: nat
  st_params :: point
  st_score :: "flt option"
  st_error :: "string option"

record Study =
  sy_specs :: "ParamSpec list"
  sy_objective :: objective
  sy_direction :: string
  sy_max_trials :: "int option"

record StudyResult =
  sr_trials :: "StudyTrial list"
  sr_best :: "StudyTrial option"
  sr_direction :: string
  sr_sampler :: string

definition sr_succeeded :: "StudyResult \<Rightarrow> StudyTrial list" where
  "sr_succeeded r = filter (\<lambda>t. st_error t = None \<and> st_score t \<noteq> None) (sr_trials r)"

definition sr_failed :: "StudyResult \<Rightarrow> StudyTrial list" where
  "sr_failed r = filter (\<lambda>t. st_error t \<noteq> None) (sr_trials r)"

definition new_study :: "ParamSpec list \<Rightarrow> objective \<Rightarrow> string \<Rightarrow> int option \<Rightarrow> study_error + Study" where
  "new_study specs obj direction max_trials =
     (if direction \<noteq> ''maximize'' \<and> direction \<noteq> ''minimize'' then Inl (BadDirection direction)
      else case max_trials of
        Some m \<Rightarrow> if m \<le> 0 then Inl (MaxTrialsNotPositive m)
                  else Inr \<lparr>sy_specs = specs, sy_objective = obj, sy_direction = direction, sy_max_trials = max_trials\<rparr>
      | None \<Rightarrow> Inr \<lparr>sy_specs = specs, sy_objective = obj, sy_direction = direction, sy_max_trials = max_trials\<rparr>)"

definition study_trial :: "objective \<Rightarrow> nat \<Rightarrow> point \<Rightarrow> StudyTrial" where
  "study_trial obj index p =
     (case obj index p of
        Inl e \<Rightarrow> \<lparr>st_index = index, st_params = p, st_score = None, st_error = Some (take 200 e)\<rparr>
      | Inr x \<Rightarrow>
          if x = NaN
          then \<lparr>st_index = index, st_params = p, st_score = None, st_error = Some ''objective returned NaN''\<rparr>
          else \<lparr>st_index = index, st_params = p, st_score = Some x, st_error = None\<rparr>)"

fun study_loop ::
  "objective \<Rightarrow> int option \<Rightarrow> nat \<Rightarrow> (study_error + point) list \<Rightarrow> study_error + StudyTrial list" where
  "study_loop obj max_trials index [] = Inr []"
| "study_loop obj max_trials index (x # xs) =
     (case x of
        Inl e \<Rightarrow> Inl e
      | Inr p \<Rightarrow>
          if (case max_trials of None \<Rightarrow> False | Some m \<Rightarrow> m \<le> int index) then Inr []
          else map_sum id (Cons (study_trial obj index p)) (study_loop obj max_trials (Suc index) xs))"

text \<open>\<open>max\<close> and \<open>min\<close> keep the first of equal elements.\<close>

definition first_best :: "(flt \<Rightarrow> flt \<Rightarrow> bool) \<Rightarrow> StudyTrial list \<Rightarrow> StudyTrial option" where
  "first_best better ts = (case ts of
     [] \<Rightarrow> None
   | t # ts' \<Rightarrow> Some (foldl (\<lambda>b x. if better (the (st_score x)) (the (st_score b)) then x else b) t ts'))"

definition pick_best :: "string \<Rightarrow> StudyTrial list \<Rightarrow> StudyTrial option" where
  "pick_best direction trials =
     (let scored = filter (\<lambda>t. st_score t \<noteq> None) trials in
      if direction = ''maximize'' then first_best (\<lambda>x y. flt_less y x) scored
      else first_best flt_less scored)"

definition study_run :: "Study \<Rightarrow> (study_error + point) list \<Rightarrow> string \<Rightarrow> study_error + StudyResult" where
  "study_run sy points sampler =
     map_sum id (\<lambda>ts. \<lparr>sr_trials = ts, sr_best = pick_best (sy_direction sy) ts, sr_direction = sy_direction sy,
         sr_sampler = sampler\<rparr>)
       (study_loop (sy_objective sy) (sy_max_trials sy) 0 points)"

definition run_grid :: "Study \<Rightarrow> study_error + StudyResult" where
  "run_grid sy = study_run sy (grid_search (sy_specs sy)) ''grid''"

definition run_random :: "(flt \<Rightarrow> flt) \<Rightarrow> (flt \<Rightarrow> flt) \<Rightarrow> Study \<Rightarrow> int \<Rightarrow> draws \<Rightarrow> study_error + StudyResult" where
  "run_random flog fexp sy n_trials r =
     (if n_trials \<le> 0 then Inl (TrialCountNotPositive n_trials)
      else let capped = (case sy_max_trials sy of None \<Rightarrow> n_trials | Some m \<Rightarrow> min n_trials m) in
        study_run sy (random_search flog fexp (sy_specs sy) capped r) ''random'')"

section \<open>What a study reports\<close>

lemma cartesian_product_from:
  assumes "distinct (map fst acc @ map fst ls)"
  shows "cartesian ls acc = (map (\<lambda>vs. acc @ zip (map fst ls) vs) (product_lists (map snd ls)), acc)"
  using assms
proof (induction ls acc rule: cartesian.induct)
  case (3 name v vs rest acc)
  have new: "name \<notin> fst ` set acc" using "3.prems" by auto
  then have up: "AList.update name v acc = acc @ [(name, v)]" by (intro update_fresh) (simp add: map_of_eq_None_iff)
  have down: "AList.delete name (acc @ [(name, v)]) = acc" using new by (induction acc) auto
  have IH1: "cartesian rest (acc @ [(name, v)])
      = (map (\<lambda>ws. (acc @ [(name, v)]) @ zip (map fst rest) ws) (product_lists (map snd rest)), acc @ [(name, v)])"
    using "3.prems" new by (intro "3.IH"(1) [unfolded up]) auto
  have IH2: "cartesian ((name, vs) # rest) acc
      = (map (\<lambda>ws. acc @ zip (map fst ((name, vs) # rest)) ws) (product_lists (map snd ((name, vs) # rest))), acc)"
    using "3.prems" new by (intro "3.IH"(2) [unfolded up, OF IH1 [symmetric] refl, unfolded down]) auto
  show ?case by (simp add: up down IH1 IH2 del: AList.update.simps)
qed simp_all

lemma first_best_spec:
  assumes "\<And>x y z. better x y \<Longrightarrow> better y z \<Longrightarrow> better x z" "\<And>x. \<not> better x x"
    and "\<And>x y z. Q x \<Longrightarrow> Q y \<Longrightarrow> Q z \<Longrightarrow> better x y \<Longrightarrow> \<not> better z y \<Longrightarrow> better x z"
    and "list_all (\<lambda>t. Q (the (st_score t))) ts" "first_best better ts = Some b"
  shows "\<exists>pre post. ts = pre @ b # post \<and> list_all (\<lambda>t. better (the (st_score b)) (the (st_score t))) pre
    \<and> list_all (\<lambda>t. \<not> better (the (st_score t)) (the (st_score b))) post"
proof -
  let ?k = "\<lambda>t. the (st_score t)"
  let ?f = "\<lambda>b x. if better (?k x) (?k b) then x else b"
  have gen: "\<exists>pre post. us @ ts' = pre @ foldl ?f t ts' # post
      \<and> list_all (\<lambda>u. better (?k (foldl ?f t ts')) (?k u)) pre \<and> list_all (\<lambda>u. \<not> better (?k u) (?k (foldl ?f t ts'))) post"
    if "list_all (\<lambda>t. Q (?k t)) (us @ ts')" "us = pre0 @ t # post0" "list_all (\<lambda>u. better (?k t) (?k u)) pre0"
      "list_all (\<lambda>u. \<not> better (?k u) (?k t)) post0" for us ts' t pre0 post0
    using that
  proof (induction ts' arbitrary: us t pre0 post0)
    case (Cons x ts')
    show ?case
    proof (cases "better (?k x) (?k t)")
      case True
      have "better (?k x) (?k u)" if mem: "u \<in> set us" for u
      proof -
        consider "u \<in> set pre0" | "u = t" | "u \<in> set post0" using mem Cons.prems(2) by auto
        then show ?thesis
        proof cases
          case 1
          then have "better (?k t) (?k u)" using Cons.prems(3) by (simp add: list_all_iff)
          then show ?thesis by (rule assms(1) [OF True])
        next
          case 3
          then have "\<not> better (?k u) (?k t)" using Cons.prems(4) by (simp add: list_all_iff)
          moreover have "Q (?k x)" "Q (?k t)" "Q (?k u)" using Cons.prems(1,2) 3 by (simp_all add: list_all_iff)
          ultimately show ?thesis using assms(3) True by blast
        qed (simp add: True)
      qed
      then have "list_all (\<lambda>u. better (?k x) (?k u)) us" by (simp add: list_all_iff)
      then have "\<exists>pre post. (us @ [x]) @ ts' = pre @ foldl ?f x ts' # post
        \<and> list_all (\<lambda>u. better (?k (foldl ?f x ts')) (?k u)) pre \<and> list_all (\<lambda>u. \<not> better (?k u) (?k (foldl ?f x ts'))) post"
        using Cons.prems(1) by (intro Cons.IH [of "us @ [x]" us x "[]"]) simp_all
      then show ?thesis using True by simp
    next
      case False
      have "\<exists>pre post. (us @ [x]) @ ts' = pre @ foldl ?f t ts' # post
        \<and> list_all (\<lambda>u. better (?k (foldl ?f t ts')) (?k u)) pre \<and> list_all (\<lambda>u. \<not> better (?k u) (?k (foldl ?f t ts'))) post"
        using Cons.prems False by (intro Cons.IH [of "us @ [x]" pre0 t "post0 @ [x]"]) simp_all
      then show ?thesis using False by simp
    qed
  qed auto
  show ?thesis
  proof (cases ts)
    case (Cons t ts')
    then have "b = foldl ?f t ts'" using assms(5) by (simp add: first_best_def)
    then show ?thesis using gen [of "[t]" ts' "[]" t "[]"] assms(4) Cons by simp
  qed (use assms(5) in \<open>simp add: first_best_def\<close>)
qed

lemma study_loop_scores:
  "study_loop obj m i xs = Inr ts \<Longrightarrow> list_all (\<lambda>t. st_score t \<noteq> Some NaN) ts"
proof (induction obj m i xs arbitrary: ts rule: study_loop.induct)
  case (2 obj m i x xs)
  obtain p where p: "x = Inr p" using "2.prems" by (cases x) auto
  show ?case
  proof (cases "case m of None \<Rightarrow> False | Some m \<Rightarrow> m \<le> int i")
    case False
    then obtain ts' where ts': "study_loop obj m (Suc i) xs = Inr ts'" "ts = study_trial obj i p # ts'"
      using "2.prems" p by (cases "study_loop obj m (Suc i) xs") auto
    then show ?thesis using "2.IH" [OF p False ts'(1)] by (simp add: study_trial_def split: sum.split)
  qed (use "2.prems" p in simp)
qed simp

definition best_trial :: "(flt \<Rightarrow> flt \<Rightarrow> bool) \<Rightarrow> StudyTrial list \<Rightarrow> StudyTrial option \<Rightarrow> bool" where
  "best_trial better ts best =
     (case best of
        None \<Rightarrow> list_all (\<lambda>t. st_score t = None) ts
      | Some b \<Rightarrow>
          \<exists>x pre post. st_score b = Some x \<and> ts = pre @ b # post
            \<and> list_all (\<lambda>t. case st_score t of None \<Rightarrow> True | Some y \<Rightarrow> better x y) pre
            \<and> list_all (\<lambda>t. case st_score t of None \<Rightarrow> True | Some y \<Rightarrow> \<not> better y x) post)"

lemma filter_split:
  "filter P xs = pre @ b # post \<Longrightarrow> \<exists>us zs. xs = us @ b # zs \<and> filter P us = pre \<and> filter P zs = post"
proof (induction xs arbitrary: pre)
  case (Cons x xs)
  show ?case
  proof (cases "P x \<and> pre = []")
    case True
    then show ?thesis using Cons.prems by (intro exI [of _ "[]"] exI [of _ xs]) simp
  next
    case False
    then obtain pre' where "filter P xs = pre' @ b # post" "pre = (if P x then x # pre' else pre')"
      using Cons.prems by (cases pre) (auto split: if_splits)
    moreover from this Cons.IH [of pre'] obtain us zs
      where "xs = us @ b # zs" "filter P us = pre'" "filter P zs = post" by blast
    ultimately show ?thesis by (intro exI [of _ "x # us"] exI [of _ zs]) simp
  qed
qed simp

lemma first_best_trial:
  assumes "\<And>x y z. better x y \<Longrightarrow> better y z \<Longrightarrow> better x z" "\<And>x. \<not> better x x"
    and "\<And>x y z. x \<noteq> NaN \<Longrightarrow> y \<noteq> NaN \<Longrightarrow> z \<noteq> NaN \<Longrightarrow> better x y \<Longrightarrow> \<not> better z y \<Longrightarrow> better x z"
    and "list_all (\<lambda>t. st_score t \<noteq> Some NaN) ts"
  shows "best_trial better ts (first_best better (filter (\<lambda>t. st_score t \<noteq> None) ts))"
proof (cases "first_best better (filter (\<lambda>t. st_score t \<noteq> None) ts)")
  case None
  then have "filter (\<lambda>t. st_score t \<noteq> None) ts = []" by (simp add: first_best_def split: list.splits)
  then show ?thesis using None by (simp add: best_trial_def filter_empty_conv list_all_iff)
next
  case (Some b)
  have nn: "list_all (\<lambda>t. the (st_score t) \<noteq> NaN) (filter (\<lambda>t. st_score t \<noteq> None) ts)"
    using assms(4) by (auto simp: list_all_iff)
  have "\<exists>pre post. filter (\<lambda>t. st_score t \<noteq> None) ts = pre @ b # post
      \<and> list_all (\<lambda>t. better (the (st_score b)) (the (st_score t))) pre
      \<and> list_all (\<lambda>t. \<not> better (the (st_score t)) (the (st_score b))) post"
    by (rule first_best_spec [where Q = "\<lambda>x. x \<noteq> NaN", OF _ _ _ nn Some]) (use assms(1-3) in blast)+
  then obtain pre post where pp: "filter (\<lambda>t. st_score t \<noteq> None) ts = pre @ b # post"
    "list_all (\<lambda>t. better (the (st_score b)) (the (st_score t))) pre"
    "list_all (\<lambda>t. \<not> better (the (st_score t)) (the (st_score b))) post" by blast
  from filter_split [OF pp(1)] obtain us zs where uz: "ts = us @ b # zs"
    "filter (\<lambda>t. st_score t \<noteq> None) us = pre" "filter (\<lambda>t. st_score t \<noteq> None) zs = post" by blast
  have "b \<in> set (filter (\<lambda>t. st_score t \<noteq> None) ts)" unfolding pp(1) by simp
  then obtain x where x: "st_score b = Some x" by auto
  have "list_all (\<lambda>t. case st_score t of None \<Rightarrow> True | Some y \<Rightarrow> better x y) us"
    using pp(2) x unfolding uz(2) [symmetric] by (fastforce simp: list_all_iff split: option.split)
  moreover have "list_all (\<lambda>t. case st_score t of None \<Rightarrow> True | Some y \<Rightarrow> \<not> better y x) zs"
    using pp(3) x unfolding uz(3) [symmetric] by (fastforce simp: list_all_iff split: option.split)
  ultimately have "\<exists>x pre post. st_score b = Some x \<and> ts = pre @ b # post
      \<and> list_all (\<lambda>t. case st_score t of None \<Rightarrow> True | Some y \<Rightarrow> better x y) pre
      \<and> list_all (\<lambda>t. case st_score t of None \<Rightarrow> True | Some y \<Rightarrow> \<not> better y x) post"
    using uz(1) x by - (rule exI [of _ x], rule exI [of _ us], rule exI [of _ zs], simp)
  then show ?thesis by (simp only: Some best_trial_def option.case)
qed

lemma flt_less_linear: "\<lbrakk>z \<noteq> NaN; flt_less x y; \<not> flt_less x z\<rbrakk> \<Longrightarrow> flt_less z y"
  by (rule flt_less_trans)

lemma flt_less_colinear: "\<lbrakk>z \<noteq> NaN; flt_less x y; \<not> flt_less z y\<rbrakk> \<Longrightarrow> flt_less x z"
  by (cases x; cases y; cases z) auto

lemma flt_less_chain: "flt_less x y \<Longrightarrow> flt_less y z \<Longrightarrow> flt_less x z"
  by (cases x; cases y; cases z) auto

lemma pick_best_trial:
  assumes "list_all (\<lambda>t. st_score t \<noteq> Some NaN) ts"
  shows "best_trial (\<lambda>x y. if d = ''maximize'' then flt_less y x else flt_less x y) ts (pick_best d ts)"
proof (cases "d = ''maximize''")
  case True
  have "best_trial (\<lambda>x y. flt_less y x) ts (first_best (\<lambda>x y. flt_less y x) (filter (\<lambda>t. st_score t \<noteq> None) ts))"
    by (rule first_best_trial [OF _ _ _ assms]) (auto intro: flt_less_chain flt_less_linear)
  then show ?thesis using True by (simp add: pick_best_def Let_def)
next
  case False
  have "best_trial flt_less ts (first_best flt_less (filter (\<lambda>t. st_score t \<noteq> None) ts))"
    by (rule first_best_trial [OF _ _ _ assms]) (auto intro: flt_less_chain flt_less_colinear)
  then show ?thesis using False by (simp add: pick_best_def Let_def)
qed

section \<open>Properties\<close>

text \<open>
  C34.  The loop over any optimizer and any objective reports the first of its trials that is worth most.  The history has one
  entry for each trial that was run, in order, with the point, the error if the objective raised, and what the trial is worth: the value of
  the objective at that call and point, minus infinity when it raised or is NaN.  The reported score is the greatest of these: every trial before
  the reported one is worth less and none after it more, and the parameters are empty only when every trial is worth minus infinity.
\<close>

theorem optimize_reports_first_best:
  assumes "optimize fuel obj s opt n st = Some (Inr r, st')"
  shows "or_n_trials_run r = length (or_history r)
    \<and> list_all (records_trial obj) (enumerate 0 (or_history r))
    \<and> (\<exists>best. or_best_params r = (case best of None \<Rightarrow> [] | Some p \<Rightarrow> p)
         \<and> reports_best (or_history r) best (or_best_score r))"
proof -
  obtain run where run: "opt_loop fuel obj opt n first_run (o_ask opt s st) = Some (Inr run, st')" "r = opt_result_of run"
    using optimize_cases [OF assms] by blast
  have "run_ok run" by (rule loop_reports_best [OF run(1) first_run_ok])
  moreover have "list_all (records_trial obj) (enumerate 0 (run_history run))"
    by (rule loop_records_trials [OF run(1) first_run_ok]) (simp add: first_run_def)
  ultimately show ?thesis by (auto simp: run(2) opt_result_of_def run_ok_def)
qed

text \<open>
  C35.  The genetic search ends and stays inside: started on any draws, with a budget of \<open>n\<close> trials it runs exactly
  \<open>n\<close> of them, never fails, and evaluates the objective only at points of the space, after crossover and
  mutation too, when no continuous dimension is wider than the largest float (in a wider one the samples are infinite or
  NaN, \<open>wide_dimension_sampled_outside\<close>).\<close>

theorem genetic_search_completes:
  assumes "ga_fresh s st" "1 \<le> n" "n < fuel"
  shows "\<exists>r st'. optimize fuel obj s genetic_optimizer (Some (int n)) st = Some (Inr r, st')
    \<and> or_n_trials_run r = n \<and> list_all (\<lambda>e. space_contains s (he_params e)) (or_history r)"
proof -
  have ready: "ga_ready s 0 (o_ask genetic_optimizer s st)" by (rule genetic_source.ask_ready [OF assms(1)])
  then obtain run st' where run: "opt_loop fuel obj genetic_optimizer (Some (int n)) first_run (o_ask genetic_optimizer s st)
      = Some (Inr run, st')" "run_n run = n"
    using genetic_source.loop_complete [of s "o_ask genetic_optimizer s st" first_run n fuel obj] assms(3)
    by (auto simp: first_run_def)
  have "list_all (\<lambda>e. space_contains s (he_params e)) (run_history run)"
    by (rule genetic_source.loop_inside [OF run(1) ready]) (simp add: first_run_def)
  then show ?thesis using run assms(2) by (simp add: optimize_def opt_result_of_def)
qed

text \<open>
  C36.  The two grid samplers of the code base agree and are complete: over distinct names, the recursion of
  \<open>param_optimizer\<close>, which leaves its values in the shared dictionary, and that of \<open>optimization/samplers\<close>,
  which removes them, both yield every combination of the values once per position, in lexicographic order.\<close>

theorem grid_samplers_agree:
  assumes "distinct (map fst ls)"
  shows "fst (grid_recurse ls []) = map (zip (map fst ls)) (product_lists (map snd ls))
    \<and> fst (cartesian ls []) = fst (grid_recurse ls [])"
  using grid_recurse_product [OF assms] cartesian_product_from [of "[]" ls] assms by simp

text \<open>
  A study reports the first of the best trials in its direction, among those with a score, and no trial exactly
  if none has a score.\<close>

theorem study_reports_first_best:
  assumes "study_run sy points sampler = Inr r"
  shows "best_trial (\<lambda>x y. if sy_direction sy = ''maximize'' then flt_less y x else flt_less x y)
    (sr_trials r) (sr_best r)"
proof -
  obtain ts where ts: "study_loop (sy_objective sy) (sy_max_trials sy) 0 points = Inr ts" "sr_trials r = ts"
    "sr_best r = pick_best (sy_direction sy) ts"
    using assms by (cases "study_loop (sy_objective sy) (sy_max_trials sy) 0 points") (auto simp: study_run_def)
  show ?thesis unfolding ts(2,3) by (rule pick_best_trial [OF study_loop_scores [OF ts(1)]])
qed

text \<open>
  A grid search without a budget evaluates the whole grid.
\<close>

lemma opt_loop_grid:
  "\<lbrakk>length ps < fuel\<rbrakk> \<Longrightarrow>
    \<exists>run' g. opt_loop fuel obj grid_search_optimizer None run (Inr ps) = Some (Inr run', g)
      \<and> map he_params (run_history run') = map he_params (run_history run) @ ps"
proof (induction ps arbitrary: fuel run)
  case Nil
  then show ?case by (cases fuel) (simp_all add: grid_search_optimizer_def grid_next_def)
next
  case (Cons p ps)
  then obtain f where f: "fuel = Suc f" "length ps < f" by (cases fuel) auto
  let ?e = "trial_entry obj (run_n run) p"
  obtain run' g where "opt_loop f obj grid_search_optimizer None (record_trial ?e run) (Inr ps) = Some (Inr run', g)"
    "map he_params (run_history run') = map he_params (run_history (record_trial ?e run)) @ ps"
    using Cons.IH [OF f(2), of "record_trial ?e run"] by blast
  then show ?case
    by (simp add: f(1) grid_search_optimizer_def grid_next_def enough_trials_def Let_def record_trial_def)
qed

text \<open>
  A grid search without a budget ends and is exhaustive: over a space without continuous dimensions it evaluates
  every combination of values, each inside the space, and reports the first of the best.\<close>

theorem grid_search_exhaustive:
  assumes "space_ok s" "grid_lists s = Inr ls" "length (product_lists (map snd ls)) < fuel"
  shows "\<exists>r g'. optimize fuel obj s grid_search_optimizer None g = Some (Inr r, g')
    \<and> map he_params (or_history r) = map (zip (map fst s)) (product_lists (map snd ls))
    \<and> list_all (\<lambda>e. space_contains s (he_params e)) (or_history r)"
proof -
  have keys: "map fst ls = map fst s" by (rule grid_lists_keys [OF assms(2)])
  have dist: "distinct (map fst ls)" using assms(1) keys by (simp add: space_ok_def)
  let ?ps = "map (zip (map fst s)) (product_lists (map snd ls))"
  have ask: "grid_ask s = Inr ?ps" using grid_recurse_product [OF dist] by (simp add: grid_ask_def assms(2) keys)
  obtain run g' where run: "opt_loop fuel obj grid_search_optimizer None first_run (Inr ?ps) = Some (Inr run, g')"
    "map he_params (run_history run) = map he_params (run_history first_run) @ ?ps"
    using opt_loop_grid [of ?ps fuel obj first_run] assms(3) by auto
  have "grid_ready s (Inr ?ps)" using grid_source.ask_ready [OF assms(1)] by (simp add: grid_search_optimizer_def ask)
  then have "list_all (\<lambda>e. space_contains s (he_params e)) (run_history run)"
    by (rule grid_source.loop_inside [OF run(1)]) (simp add: first_run_def)
  moreover have "o_ask grid_search_optimizer s g = Inr ?ps" by (simp add: grid_search_optimizer_def ask)
  ultimately show ?thesis using run by (simp add: optimize_def opt_result_of_def first_run_def)
qed

section \<open>Witnesses\<close>

definition a_space :: param_space where
  "a_space = [(''window'', DiscreteInt 10 20 5), (''mode'', Categorical [P_str ''fast'', P_bool True]),
     (''level'', ContinuousFloat 0 1)]"

definition a_grid :: param_space where
  "a_grid = [(''window'', DiscreteInt 10 20 5), (''mode'', Categorical [P_str ''fast'', P_bool True])]"

text \<open>The objective fails at its first call, is NaN at the second and grows with the window after.\<close>

definition an_objective :: objective where
  "an_objective n p =
     (if n = 0 then Inl ''no data'' else if n = 1 then Inr NaN
      else case map_of p ''window'' of Some (P_int k) \<Rightarrow> Inr (Fin (of_int k)) | _ \<Rightarrow> Inr (Fin 0))"

definition a_genetic :: GeneticOptimizer where
  "a_genetic = \<lparr>ga_population_size = 4, ga_mutation_rate = 1 / 4, ga_rng = sconst 7, ga_population = [], ga_pending = [],
     ga_space = [], ga_initial = 0, ga_queue = []\<rparr>"

lemma a_space_ok: "space_ok a_space" "space_ok a_grid"
  using flt_limit_pos by (simp_all add: a_space_def a_grid_def space_ok_def fsub_def)

lemma a_grid_lists:
  "grid_lists a_grid = Inr [(''window'', [P_int 10, P_int 15, P_int 20]), (''mode'', [P_str ''fast'', P_bool True])]"
  by (simp add: a_grid_def discrete_values_def upt_rec)

lemma genetic_search_completes_witness:
  "\<exists>r st'. optimize 10 an_objective a_space genetic_optimizer (Some (int 9)) a_genetic = Some (Inr r, st')
    \<and> or_n_trials_run r = 9 \<and> list_all (\<lambda>e. space_contains a_space (he_params e)) (or_history r)"
  by (rule genetic_search_completes) (simp_all add: ga_fresh_def a_space_ok a_genetic_def)

lemma grid_samplers_agree_witness:
  "fst (grid_recurse [(''a'', [P_int 1, P_int 2]), (''b'', [P_none])] [])
      = map (zip [''a'', ''b'']) (product_lists [[P_int 1, P_int 2], [P_none]])
    \<and> fst (cartesian [(''a'', [P_int 1, P_int 2]), (''b'', [P_none])] [])
      = fst (grid_recurse [(''a'', [P_int 1, P_int 2]), (''b'', [P_none])] [])"
  using grid_samplers_agree [of "[(''a'', [P_int 1, P_int 2]), (''b'', [P_none])]"] by simp

definition a_search :: "((opt_error + OptimizationResult) \<times> (opt_error + point list)) option" where
  "a_search = optimize 7 an_objective a_grid grid_search_optimizer None (Inr [])"

definition a_report :: OptimizationResult where
  "a_report = (case a_search of Some (Inr r, _) \<Rightarrow> r | _ \<Rightarrow> opt_result_of first_run)"

lemma a_search_runs: "a_search = Some (Inr a_report, Inr []) \<and> or_best_params a_report = [(''window'', P_int 20), (''mode'', P_str ''fast'')]"
  by code_simp

lemma optimize_reports_first_best_witness:
  "\<exists>es. or_history a_report = es \<and> length es = 6 \<and> map he_score (take 2 es) = [NegInf, NegInf]
    \<and> he_error (hd es) = Some ''no data'' \<and> or_best_score a_report = Fin 20"
proof -
  have "optimize 7 an_objective a_grid grid_search_optimizer None (Inr []) = Some (Inr a_report, Inr [])"
    using a_search_runs by (simp add: a_search_def)
  note report = optimize_reports_first_best [OF this]
  have n: "or_n_trials_run a_report = 6 \<and> or_best_score a_report = Fin 20" by code_simp
  then have len: "length (or_history a_report) = 6" using report by simp
  then obtain e0 e1 es where es: "or_history a_report = e0 # e1 # es"
    by (cases "or_history a_report"; cases "tl (or_history a_report)") auto
  have "records_trial an_objective (0, e0)" "records_trial an_objective (1, e1)"
    using report by (simp_all add: es)
  then have "he_score e0 = NegInf" "he_error e0 = Some ''no data''" "he_score e1 = NegInf"
    by (simp_all add: records_trial_def worth_def an_objective_def)
  then show ?thesis using n len es by simp
qed

text \<open>
  A continuous dimension with bounds that are finite but too far apart is accepted, and its samples lie outside.
\<close>

lemma wide_dimension_sampled_outside:
  "\<exists>d. new_continuous (Fin (- (2 ^ 1023))) (Fin (2 ^ 1023)) = Inr d
    \<and> fst (sample_dim d (sconst 1)) = P_float PosInf \<and> \<not> dim_contains d (P_float PosInf)"
proof -
  let ?d = "ContinuousFloat (- (2 ^ 1023)) (2 ^ 1023)"
  have "f64 flt_limit = flt_limit"
    unfolding f64_def flt_limit_def by (rule sig_round_grid) (auto intro: in_gridI [of _ 1 _ 1024])
  moreover have "(2 :: rat) ^ 1023 + 2 ^ 1023 = flt_limit" unfolding flt_limit_def by (simp only: flip: mult_2 power_Suc) simp
  ultimately have "flt_round (2 ^ 1023 + 2 ^ 1023) = PosInf" by (simp only: flt_round_def Let_def order_refl if_True)
  then have "flt_uniform (Fin (- (2 ^ 1023))) (Fin (2 ^ 1023)) (sconst 1) = (PosInf, sconst 1)"
    by (simp add: flt_uniform_def draw_random_def)
  then have "fst (sample_dim ?d (sconst 1)) = P_float PosInf" by (simp add: sample_dim_def)
  moreover have "new_continuous (Fin (- (2 ^ 1023))) (Fin (2 ^ 1023)) = Inr ?d" by (simp add: new_continuous_def)
  moreover have "\<not> dim_contains ?d (P_float PosInf)" by (simp add: dim_contains_def as_number_def flt_le_def)
  ultimately show ?thesis by blast
qed

text \<open>
  A specification of a study accepts infinite bounds, which \<open>ContinuousFloat\<close> refuses, and its samples are then not numbers.
\<close>

lemma infinite_bounds_sample_nan:
  "\<exists>spec. new_spec ''x'' None (Some NegInf) (Some PosInf) False = Inr spec
    \<and> fst (random_value id id spec (sconst 0)) = Inr (P_float NaN)
    \<and> new_continuous NegInf PosInf = Inl BoundsNotFinite"
  by (simp add: new_spec_def random_value_def flt_uniform_def draw_random_def new_continuous_def)

end
