(* ===== verification/Performance.thy ===== *)
theory Performance
  imports Lifecycle
begin

text \<open>
  Statistics over finished runs: \<open>core/drawdown_analytics.py\<close>, \<open>trade_stats.py\<close>, \<open>excursion_stats.py\<close>,
  \<open>rolling_trade_stats.py\<close>, \<open>cumulative_returns.py\<close>, \<open>walk_forward.py\<close>, and the report of a back test,
  \<open>core/metrics.py\<close>.

  Floats are rationals with one rounding per operation.  What the code takes from \<open>math\<close> and from numpy, and
  powers with a float exponent, are functions of a record; a power is \<open>None\<close> where Python's result is a complex
  number, and numpy's standard deviation may be NaN.
\<close>

section \<open>Trade statistics\<close>

text \<open>\<open>sum(1 for p in ps if c(p)) / len(ps)\<close> of integers, and the mean of a list of floats.\<close>

definition share_of :: "(rat \<Rightarrow> bool) \<Rightarrow> rat list \<Rightarrow> rat" where
  "share_of c ps = fdiv (of_nat (length (filter c ps))) (of_nat (length ps))"

definition fmean :: "rat list \<Rightarrow> rat" where
  "fmean xs = fdiv (fsum xs) (fint (int (length xs)))"

definition hit_ratio :: "rat list \<Rightarrow> rat" where
  "hit_ratio pnls = (if pnls = [] then 0 else share_of (\<lambda>p. 0 < p) pnls)"

definition average_win :: "rat list \<Rightarrow> rat" where
  "average_win pnls = (let wins = filter (\<lambda>p. 0 < p) pnls in if wins = [] then 0 else fmean wins)"

definition average_loss :: "rat list \<Rightarrow> rat" where
  "average_loss pnls = (let losses = filter (\<lambda>p. p < 0) pnls in if losses = [] then 0 else fmean losses)"

definition win_loss_ratio :: "rat list \<Rightarrow> rat" where
  "win_loss_ratio pnls =
     (let avg_w = average_win pnls; avg_l = average_loss pnls in
      if avg_w = 0 \<or> avg_l = 0 then 0 else fdiv avg_w \<bar>avg_l\<bar>)"

definition profit_factor :: "rat list \<Rightarrow> rat option" where
  "profit_factor pnls =
     (if pnls = [] then Some 0
      else let gross_profit = fsum (filter (\<lambda>p. 0 < p) pnls);
               gross_loss = fsum (map uminus (filter (\<lambda>p. p < 0) pnls)) in
        if gross_loss = 0 then (if 0 < gross_profit then None else Some 0)
        else Some (fdiv gross_profit gross_loss))"

text \<open>\<open>max\<close> and \<open>min\<close> of a non-empty list, scanning from the left.\<close>

definition py_max :: "rat list \<Rightarrow> rat" where
  "py_max xs = foldl max (hd xs) (tl xs)"

definition py_min :: "rat list \<Rightarrow> rat" where
  "py_min xs = foldl min (hd xs) (tl xs)"

definition largest_win :: "rat list \<Rightarrow> rat" where
  "largest_win pnls = (let wins = filter (\<lambda>p. 0 < p) pnls in if wins = [] then 0 else py_max wins)"

definition largest_loss :: "rat list \<Rightarrow> rat" where
  "largest_loss pnls = (let losses = filter (\<lambda>p. p < 0) pnls in if losses = [] then 0 else py_min losses)"

fun longest_run :: "(rat \<Rightarrow> bool) \<Rightarrow> rat list \<Rightarrow> nat \<Rightarrow> nat \<Rightarrow> nat" where
  "longest_run c [] longest current = longest"
| "longest_run c (p # ps) longest current =
     (if c p then longest_run c ps (max longest (current + 1)) (current + 1) else longest_run c ps longest 0)"

definition max_consecutive_wins :: "rat list \<Rightarrow> nat" where
  "max_consecutive_wins pnls = longest_run (\<lambda>p. 0 < p) pnls 0 0"

definition max_consecutive_losses :: "rat list \<Rightarrow> nat" where
  "max_consecutive_losses pnls = longest_run (\<lambda>p. p < 0) pnls 0 0"

definition current_streak :: "rat list \<Rightarrow> int" where
  "current_streak pnls =
     (if pnls = [] \<or> last pnls = 0 then 0
      else if 0 < last pnls then int (length (takeWhile (\<lambda>p. 0 < p) (rev pnls)))
      else - int (length (takeWhile (\<lambda>p. p < 0) (rev pnls))))"

section \<open>Drawdowns\<close>

record DrawdownEpisode =
  de_peak_idx :: nat
  de_trough_idx :: nat
  de_recovery_idx :: "nat option"
  de_depth_pct :: rat

definition de_duration :: "DrawdownEpisode \<Rightarrow> int" where
  "de_duration e =
     int (case de_recovery_idx e of Some r \<Rightarrow> r | None \<Rightarrow> de_trough_idx e) - int (de_peak_idx e)"

definition time_to_trough :: "DrawdownEpisode \<Rightarrow> int" where
  "time_to_trough e = int (de_trough_idx e) - int (de_peak_idx e)"

definition de_is_open :: "DrawdownEpisode \<Rightarrow> bool" where
  "de_is_open e = (de_recovery_idx e = None)"

fun underwater_from :: "rat \<Rightarrow> rat list \<Rightarrow> rat list" where
  "underwater_from peak [] = []"
| "underwater_from peak (v # vs) =
     (let peak = max peak v in (if peak \<le> 0 then 0 else fdiv (fsub v peak) peak) # underwater_from peak vs)"

definition underwater_curve :: "rat list \<Rightarrow> rat list" where
  "underwater_curve equity = (if equity = [] then [] else underwater_from (hd equity) equity)"

record dd_state =
  dd_episodes :: "DrawdownEpisode list"
  dd_peak_value :: rat
  dd_peak_idx :: nat
  dd_trough_idx :: nat
  dd_trough_value :: rat
  dd_in :: bool

definition depth_of :: "rat \<Rightarrow> rat \<Rightarrow> rat" where
  "depth_of peak_value trough_value = (if 0 < peak_value then fdiv (fsub peak_value trough_value) peak_value else 0)"

definition dd_step :: "nat \<Rightarrow> rat \<Rightarrow> dd_state \<Rightarrow> dd_state" where
  "dd_step i v s =
     (if \<not> dd_in s then
        if v < dd_peak_value s then s\<lparr>dd_in := True, dd_trough_value := v, dd_trough_idx := i\<rparr>
        else if dd_peak_value s < v then s\<lparr>dd_peak_value := v, dd_peak_idx := i\<rparr>
        else s
      else
        let s1 = (if v < dd_trough_value s then s\<lparr>dd_trough_value := v, dd_trough_idx := i\<rparr> else s) in
        if dd_peak_value s1 \<le> v then
          s1\<lparr>dd_episodes := dd_episodes s1 @
               [\<lparr>de_peak_idx = dd_peak_idx s1, de_trough_idx = dd_trough_idx s1, de_recovery_idx = Some i,
                 de_depth_pct = depth_of (dd_peak_value s1) (dd_trough_value s1)\<rparr>],
             dd_in := False, dd_peak_value := v, dd_peak_idx := i\<rparr>
        else s1)"

fun dd_loop :: "nat \<Rightarrow> rat list \<Rightarrow> dd_state \<Rightarrow> dd_state" where
  "dd_loop i [] s = s"
| "dd_loop i (v # vs) s = dd_loop (Suc i) vs (dd_step i v s)"

definition drawdown_episodes :: "rat list \<Rightarrow> DrawdownEpisode list" where
  "drawdown_episodes equity =
     (if length equity < 2 then []
      else let s = dd_loop 1 (tl equity)
             \<lparr>dd_episodes = [], dd_peak_value = hd equity, dd_peak_idx = 0, dd_trough_idx = 0,
              dd_trough_value = hd equity, dd_in = False\<rparr> in
        dd_episodes s @
          (if dd_in s then
             [\<lparr>de_peak_idx = dd_peak_idx s, de_trough_idx = dd_trough_idx s, de_recovery_idx = None,
               de_depth_pct = depth_of (dd_peak_value s) (dd_trough_value s)\<rparr>]
           else []))"

definition max_drawdown_duration :: "rat list \<Rightarrow> int" where
  "max_drawdown_duration equity =
     (case map de_duration (drawdown_episodes equity) of [] \<Rightarrow> 0 | d # ds \<Rightarrow> foldl max d ds)"

definition time_to_recovery :: "rat list \<Rightarrow> int option" where
  "time_to_recovery equity =
     (case drawdown_episodes equity of
        [] \<Rightarrow> Some 0
      | e # es \<Rightarrow>
          (let deepest = foldl (\<lambda>b x. if de_depth_pct b < de_depth_pct x then x else b) e es in
           case de_recovery_idx deepest of None \<Rightarrow> None | Some r \<Rightarrow> Some (int r - int (de_trough_idx deepest))))"

definition average_drawdown :: "rat list \<Rightarrow> rat" where
  "average_drawdown equity =
     (let eps = drawdown_episodes equity in if eps = [] then 0 else fmean (map de_depth_pct eps))"

definition current_drawdown_pct :: "rat list \<Rightarrow> rat" where
  "current_drawdown_pct equity =
     (if equity = [] then 0
      else let peak = py_max equity in
        if peak \<le> 0 then 0 else max (fdiv (fsub peak (last equity)) peak) 0)"

section \<open>Excursions\<close>

datatype perf_error = NegativeMfe rat | NegativeMae rat | WindowBelowTwo int | PeriodsNotPositive int
  | InitialNotPositive rat | ReturnBelowMinusOne rat | LengthMismatch nat nat | ComplexCompared

record TradeExcursion =
  te_pnl :: rat
  te_mfe :: rat
  te_mae :: rat

definition new_excursion :: "rat \<Rightarrow> rat \<Rightarrow> rat \<Rightarrow> perf_error + TradeExcursion" where
  "new_excursion pnl mfe mae =
     (if mfe < 0 then Inl (NegativeMfe mfe)
      else if mae < 0 then Inl (NegativeMae mae)
      else Inr \<lparr>te_pnl = pnl, te_mfe = mfe, te_mae = mae\<rparr>)"

definition mean_mae :: "TradeExcursion list \<Rightarrow> rat" where
  "mean_mae ts = (if ts = [] then 0 else fmean (map te_mae ts))"

definition mean_mfe :: "TradeExcursion list \<Rightarrow> rat" where
  "mean_mfe ts = (if ts = [] then 0 else fmean (map te_mfe ts))"

definition max_mae :: "TradeExcursion list \<Rightarrow> rat" where
  "max_mae ts = (if ts = [] then 0 else py_max (map te_mae ts))"

definition max_mfe :: "TradeExcursion list \<Rightarrow> rat" where
  "max_mfe ts = (if ts = [] then 0 else py_max (map te_mfe ts))"

definition edge_ratio :: "TradeExcursion list \<Rightarrow> rat" where
  "edge_ratio ts =
     (let avg_mfe = mean_mfe ts; avg_mae = mean_mae ts in if avg_mae = 0 then 0 else fdiv avg_mfe avg_mae)"

definition trade_efficiency :: "TradeExcursion list \<Rightarrow> rat" where
  "trade_efficiency ts =
     (let eligible = filter (\<lambda>t. 0 < te_pnl t \<and> 0 < te_mfe t) ts in
      if eligible = [] then 0 else fmean (map (\<lambda>t. fdiv (te_pnl t) (te_mfe t)) eligible))"

definition adverse_efficiency :: "TradeExcursion list \<Rightarrow> rat" where
  "adverse_efficiency ts =
     (let eligible = filter (\<lambda>t. te_pnl t < 0 \<and> 0 < te_mae t) ts in
      if eligible = [] then 0 else fmean (map (\<lambda>t. fdiv \<bar>te_pnl t\<bar> (te_mae t)) eligible))"

section \<open>Rolling windows\<close>

text \<open>One value per bar: nothing before the first full window, then a function of the window that ends there.\<close>

definition rolling :: "('a list \<Rightarrow> 'b option) \<Rightarrow> 'a list \<Rightarrow> int \<Rightarrow> perf_error + 'b option list" where
  "rolling f xs window =
     (if window < 2 then Inl (WindowBelowTwo window)
      else let w = nat window in
        Inr (map (\<lambda>i. if i + 1 < w then None else f (take w (drop (i + 1 - w) xs))) [0..<length xs]))"

definition rolling_hit_ratio :: "rat list \<Rightarrow> int \<Rightarrow> perf_error + rat option list" where
  "rolling_hit_ratio = rolling (Some \<circ> hit_ratio)"

definition rolling_profit_factor :: "rat list \<Rightarrow> int \<Rightarrow> perf_error + rat option list" where
  "rolling_profit_factor = rolling profit_factor"

definition rolling_win_loss_ratio :: "rat list \<Rightarrow> int \<Rightarrow> perf_error + rat option list" where
  "rolling_win_loss_ratio = rolling (Some \<circ> win_loss_ratio)"

section \<open>Returns\<close>

fun products_from :: "rat \<Rightarrow> rat list \<Rightarrow> rat list" where
  "products_from product [] = []"
| "products_from product (r # rs) =
     (let product = fmul product (fadd 1 r) in product # products_from product rs)"

definition cumulative_returns :: "rat list \<Rightarrow> rat list" where
  "cumulative_returns rs = map (\<lambda>p. fsub p 1) (products_from 1 rs)"

definition equity_curve_from_returns :: "rat list \<Rightarrow> rat \<Rightarrow> perf_error + rat list" where
  "equity_curve_from_returns rs initial_value =
     (if initial_value \<le> 0 then Inl (InitialNotPositive initial_value)
      else Inr (initial_value # products_from initial_value rs))"

fun log_returns :: "(rat \<Rightarrow> rat) \<Rightarrow> rat list \<Rightarrow> perf_error + rat list" where
  "log_returns ln64 [] = Inr []"
| "log_returns ln64 (r # rs) =
     (if r \<le> - 1 then Inl (ReturnBelowMinusOne r)
      else map_sum id (Cons (ln64 (fadd 1 r))) (log_returns ln64 rs))"

definition returns_from_equity :: "rat list \<Rightarrow> rat list" where
  "returns_from_equity equity =
     map (\<lambda>(prev, v). if prev \<le> 0 then 0 else fdiv (fsub v prev) prev) (zip equity (tl equity))"

definition active_returns :: "rat list \<Rightarrow> rat list \<Rightarrow> perf_error + rat list" where
  "active_returns portfolio benchmark =
     (if length portfolio \<noteq> length benchmark then Inl (LengthMismatch (length portfolio) (length benchmark))
      else Inr (map (\<lambda>(p, b). fsub p b) (zip portfolio benchmark)))"

definition beating_benchmark_pct :: "rat list \<Rightarrow> rat list \<Rightarrow> perf_error + rat" where
  "beating_benchmark_pct portfolio benchmark =
     (if length portfolio \<noteq> length benchmark then Inl (LengthMismatch (length portfolio) (length benchmark))
      else if portfolio = [] then Inr 0
      else Inr (fdiv (of_nat (length (filter (\<lambda>(p, b). b < p) (zip portfolio benchmark))))
                     (of_nat (length portfolio))))"

definition rolling_return :: "rat list \<Rightarrow> int \<Rightarrow> perf_error + rat option list" where
  "rolling_return = rolling (\<lambda>xs. Some (fsub (foldl (\<lambda>p r. fmul p (fadd 1 r)) 1 xs) 1))"

definition rolling_mean :: "rat list \<Rightarrow> int \<Rightarrow> perf_error + rat option list" where
  "rolling_mean xs window = rolling (\<lambda>ys. Some (fdiv (fsum ys) (fint window))) xs window"

section \<open>Walk-forward windows\<close>

datatype WindowMode = ROLLING | EXPANDING

datatype walk_error = BadObs int | BadTrainSize int | BadTestSize int | BadStep int

record WindowSplit =
  train_indices :: "int list"
  test_indices :: "int list"

function walk_loop :: "int \<Rightarrow> int \<Rightarrow> int \<Rightarrow> int \<Rightarrow> WindowMode \<Rightarrow> int \<Rightarrow> WindowSplit list" where
  "walk_loop n_obs train_size test_size step mode train_start =
     (let train_end = train_start + train_size; test_end = train_end + test_size in
      if n_obs < test_end \<or> step \<le> 0 then []
      else \<lparr>train_indices = [(if mode = ROLLING then train_start else 0)..train_end - 1],
            test_indices = [train_end..test_end - 1]\<rparr>
           # walk_loop n_obs train_size test_size step mode (train_start + step))"
  by pat_completeness auto
termination
  by (relation "measure (\<lambda>(n_obs, train_size, test_size, step, mode, train_start).
      nat (n_obs - train_start - train_size - test_size + 1))") auto

declare walk_loop.simps [simp del]

definition walk_forward_splits ::
  "int \<Rightarrow> int \<Rightarrow> int \<Rightarrow> int \<Rightarrow> WindowMode \<Rightarrow> walk_error + WindowSplit list" where
  "walk_forward_splits n_obs train_size test_size step mode =
     (if n_obs \<le> 0 then Inl (BadObs n_obs)
      else if train_size \<le> 0 then Inl (BadTrainSize train_size)
      else if test_size \<le> 0 then Inl (BadTestSize test_size)
      else if step \<le> 0 then Inl (BadStep step)
      else Inr (walk_loop n_obs train_size test_size step mode 0))"

section \<open>The report of a back test\<close>

text \<open>
  The functions of \<open>math\<close> and numpy: \<open>np_std\<close> is \<open>std(xs, ddof=1)\<close>, which is NaN for one value, and
  \<open>np_argmax\<close> the index of the first maximum; \<open>m_pow\<close> is \<open>**\<close> with a float exponent.
\<close>

record numeric =
  m_sqrt :: "rat \<Rightarrow> rat"
  m_pow :: "rat \<Rightarrow> rat \<Rightarrow> rat option"
  m_square :: "rat \<Rightarrow> rat"
  m_log :: "rat \<Rightarrow> rat"
  np_mean :: "rat list \<Rightarrow> rat"
  np_std :: "rat list \<Rightarrow> flt"
  np_argmax :: "rat list \<Rightarrow> nat"

datatype cost_entry =
  CostMissing
| CostDict "(string, rat) dict"
| CostObject "rat option" "rat option"

record LogTrade =
  lg_realized_pnl :: "rat option"
  lg_quantity :: "rat option"
  lg_fill_price :: "rat option"
  lg_cost :: cost_entry

record EquityPoint =
  ep_total_value :: rat
  ep_cash :: "rat option"

record RollingWindowMetrics =
  rw_window_days :: int
  rw_sharpe_ratio :: flt
  rw_sortino_ratio :: "rat option"
  rw_volatility_annual_pct :: flt
  rw_max_drawdown_pct :: rat

record MetricsReport =
  mr_total_return_pct :: rat
  mr_annualized_return_pct :: "rat option"
  mr_sharpe_ratio :: flt
  mr_sortino_ratio :: "rat option"
  mr_max_drawdown_pct :: rat
  mr_max_drawdown_duration_days :: int
  mr_max_drawdown_recovery_days :: "int option"
  mr_calmar_ratio :: "rat option option"
  mr_volatility_annual_pct :: flt
  mr_total_trades :: nat
  mr_win_rate :: rat
  mr_profit_factor :: "rat option"
  mr_avg_trade_pnl :: rat
  mr_avg_winner :: rat
  mr_avg_loser :: rat
  mr_best_trade :: rat
  mr_worst_trade :: rat
  mr_max_consecutive_wins :: nat
  mr_max_consecutive_losses :: nat
  mr_total_costs :: rat
  mr_total_taxes :: rat
  mr_cost_drag_pct :: rat
  mr_turnover_ratio :: rat
  mr_exposure_pct :: rat
  mr_drawdown_curve :: "rat list"
  mr_rolling_metrics :: "RollingWindowMetrics list"

record PerformanceMetrics =
  pm_equity_curve :: "EquityPoint list"
  pm_trade_log :: "LogTrade list"
  pm_initial_cash :: rat
  pm_risk_free_rate :: rat
  pm_trading_days :: int
  pm_rolling_windows :: "int list"

definition calculate_daily_returns :: "rat list \<Rightarrow> rat list" where
  "calculate_daily_returns values =
     map (\<lambda>(prev, v). if prev = 0 then 0 else fdiv (fsub v prev) prev) (zip values (tl values))"

fun drawdowns_from :: "rat \<Rightarrow> rat list \<Rightarrow> rat list" where
  "drawdowns_from peak [] = []"
| "drawdowns_from peak (v # vs) =
     (let peak = max peak v in (if 0 < peak then fdiv (fsub peak v) peak else 0) # drawdowns_from peak vs)"

definition calculate_drawdown_curve :: "rat list \<Rightarrow> rat list" where
  "calculate_drawdown_curve values = (if values = [] then [] else drawdowns_from (hd values) values)"

definition total_return_of :: "PerformanceMetrics \<Rightarrow> rat \<Rightarrow> rat" where
  "total_return_of pm final_value =
     (if pm_initial_cash pm \<noteq> 0
      then fmul (fdiv (fsub final_value (pm_initial_cash pm)) (pm_initial_cash pm)) 100 else 0)"

text \<open>\<open>None\<close> stands for a complex number.\<close>

definition annualized_return_of :: "numeric \<Rightarrow> PerformanceMetrics \<Rightarrow> rat \<Rightarrow> nat \<Rightarrow> rat option" where
  "annualized_return_of N pm final_value n_days =
     (if n_days \<le> 1 \<or> pm_initial_cash pm \<le> 0 then Some 0
      else let years = fdiv (of_nat n_days) (of_int (pm_trading_days pm)) in
        if 0 < years
        then map_option (\<lambda>x. fmul (fsub x 1) 100) (m_pow N (fdiv final_value (pm_initial_cash pm)) (fdiv 1 years))
        else Some 0)"

text \<open>A quotient with a standard deviation that may not be a number, times the square root of the trading days.\<close>

definition over_deviation :: "rat \<Rightarrow> flt \<Rightarrow> rat \<Rightarrow> flt" where
  "over_deviation x sd rt = (case sd of
     Fin s \<Rightarrow> if s = 0 then Fin 0 else Fin (fmul (fdiv x s) rt)
   | NaN \<Rightarrow> NaN
   | PosInf \<Rightarrow> Fin 0
   | NegInf \<Rightarrow> Fin 0)"

definition sharpe_ratio_of :: "numeric \<Rightarrow> PerformanceMetrics \<Rightarrow> rat list \<Rightarrow> flt" where
  "sharpe_ratio_of N pm rs =
     (if rs = [] then Fin 0
      else let rf_daily = fdiv (pm_risk_free_rate pm) (fint (pm_trading_days pm)) in
        over_deviation (fsub (np_mean N rs) rf_daily) (np_std N rs) (m_sqrt N (fint (pm_trading_days pm))))"

definition sortino_ratio_of :: "numeric \<Rightarrow> PerformanceMetrics \<Rightarrow> rat list \<Rightarrow> rat option" where
  "sortino_ratio_of N pm rs =
     (if rs = [] then Some 0
      else let rf_daily = fdiv (pm_risk_free_rate pm) (fint (pm_trading_days pm));
               mean_ret = np_mean N rs;
               downside_dev = m_sqrt N (np_mean N (map (\<lambda>r. m_square N (min (fsub r rf_daily) 0)) rs)) in
        if downside_dev = 0 then (if rf_daily < mean_ret then None else Some 0)
        else Some (fmul (fdiv (fsub mean_ret rf_daily) downside_dev) (m_sqrt N (fint (pm_trading_days pm)))))"

definition max_drawdown_of :: "rat list \<Rightarrow> rat" where
  "max_drawdown_of curve = (if curve = [] then 0 else fmul (py_max curve) 100)"

record dur_state =
  du_peak :: rat
  du_peak_idx :: int
  du_max :: int
  du_start :: int
  du_in :: bool

definition dur_step :: "int \<Rightarrow> rat \<Rightarrow> dur_state \<Rightarrow> dur_state" where
  "dur_step i v s =
     (if du_peak s \<le> v then
        (if du_in s then s\<lparr>du_max := max (du_max s) (i - du_start s), du_in := False\<rparr> else s)
          \<lparr>du_peak := v, du_peak_idx := i\<rparr>
      else if \<not> du_in s then s\<lparr>du_start := du_peak_idx s, du_in := True\<rparr>
      else s)"

fun dur_loop :: "int \<Rightarrow> rat list \<Rightarrow> dur_state \<Rightarrow> dur_state" where
  "dur_loop i [] s = s"
| "dur_loop i (v # vs) s = dur_loop (i + 1) vs (dur_step i v s)"

definition max_drawdown_duration_of :: "rat list \<Rightarrow> int" where
  "max_drawdown_duration_of values =
     (if values = [] then 0
      else let s = dur_loop 0 values \<lparr>du_peak = hd values, du_peak_idx = 0, du_max = 0, du_start = 0, du_in = False\<rparr> in
        if du_in s then max (du_max s) (int (length values) - du_start s) else du_max s)"

text \<open>The peak before the deepest bar, and the first bar after it that is as high again.\<close>

definition max_drawdown_recovery_of :: "numeric \<Rightarrow> rat list \<Rightarrow> rat list \<Rightarrow> int option" where
  "max_drawdown_recovery_of N values curve =
     (if values = [] \<or> curve = [] then None
      else let idx = np_argmax N curve in
        if curve ! idx = 0 then Some 0
        else let peak = foldl max (hd values) (take (idx + 1) values) in
          map_option (\<lambda>i. int i - int idx) (find (\<lambda>i. peak \<le> values ! i) [idx + 1..<length values]))"

definition calmar_ratio_of :: "rat option \<Rightarrow> rat \<Rightarrow> perf_error + rat option option" where
  "calmar_ratio_of annualized max_dd =
     (if max_dd = 0 then
        (case annualized of None \<Rightarrow> Inl ComplexCompared | Some a \<Rightarrow> Inr (Some (if 0 < a then None else Some 0)))
      else Inr (map_option (\<lambda>a. Some (fdiv a max_dd)) annualized))"

fun scaled :: "flt \<Rightarrow> rat \<Rightarrow> flt" where
  "scaled (Fin x) u = Fin (fmul x u)"
| "scaled x u = x"

definition volatility_of :: "numeric \<Rightarrow> PerformanceMetrics \<Rightarrow> rat list \<Rightarrow> flt" where
  "volatility_of N pm rs =
     (if rs = [] then Fin 0
      else scaled (scaled (np_std N rs) (m_sqrt N (fint (pm_trading_days pm)))) 100)"

definition win_rate_of :: "rat list \<Rightarrow> rat" where
  "win_rate_of pnls = (if pnls = [] then 0 else fmul (share_of (\<lambda>p. 0 < p) pnls) 100)"

definition profit_factor_of :: "rat list \<Rightarrow> rat option" where
  "profit_factor_of pnls =
     (let gains = fsum (filter (\<lambda>p. 0 < p) pnls); losses = \<bar>fsum (filter (\<lambda>p. p < 0) pnls)\<bar> in
      if losses = 0 then (if 0 < gains then None else Some 0) else Some (fdiv gains losses))"

definition mean_or_zero :: "numeric \<Rightarrow> rat list \<Rightarrow> rat" where
  "mean_or_zero N xs = (if xs = [] then 0 else np_mean N xs)"

definition max_consecutive_of :: "rat list \<Rightarrow> bool \<Rightarrow> nat" where
  "max_consecutive_of pnls positive =
     (if pnls = [] then 0 else longest_run (\<lambda>p. positive \<and> 0 < p \<or> \<not> positive \<and> p < 0) pnls 0 0)"

definition cost_part :: "string \<Rightarrow> (rat option \<Rightarrow> rat option \<Rightarrow> rat option) \<Rightarrow> LogTrade \<Rightarrow> rat option" where
  "cost_part key part t = (case lg_cost t of
     CostMissing \<Rightarrow> None
   | CostDict d \<Rightarrow> if d = [] then None else Some (case map_of d key of None \<Rightarrow> 0 | Some x \<Rightarrow> x)
   | CostObject a b \<Rightarrow> part a b)"

definition total_costs_of :: "LogTrade list \<Rightarrow> rat" where
  "total_costs_of trades = fsum (List.map_filter (cost_part ''total'' (\<lambda>a b. a)) trades)"

definition total_taxes_of :: "LogTrade list \<Rightarrow> rat" where
  "total_taxes_of trades = fsum (List.map_filter (cost_part ''tax_estimate'' (\<lambda>a b. b)) trades)"

definition turnover_ratio_of :: "numeric \<Rightarrow> PerformanceMetrics \<Rightarrow> rat" where
  "turnover_ratio_of N pm =
     (if pm_equity_curve pm = [] then 0
      else let trade_values = map (\<lambda>t. \<bar>fmul (case lg_quantity t of None \<Rightarrow> 0 | Some q \<Rightarrow> q)
                                            (case lg_fill_price t of None \<Rightarrow> 0 | Some p \<Rightarrow> p)\<bar>) (pm_trade_log pm) in
        if trade_values = [] then 0
        else let avg = np_mean N (map ep_total_value (pm_equity_curve pm)) in
          if avg = 0 then 0 else fdiv (fsum trade_values) avg)"

definition exposure_pct_of :: "numeric \<Rightarrow> EquityPoint list \<Rightarrow> rat" where
  "exposure_pct_of N curve =
     (let exposures = List.map_filter (\<lambda>p. let tv = ep_total_value p;
                 cash = (case ep_cash p of None \<Rightarrow> tv | Some c \<Rightarrow> c) in
               if 0 < tv then Some (fdiv (fsub tv cash) tv) else None) curve in
      if curve = [] \<or> exposures = [] then 0 else fmul (np_mean N exposures) 100)"

definition suffix_of :: "nat \<Rightarrow> 'a list \<Rightarrow> 'a list" where
  "suffix_of n xs = drop (length xs - n) xs"

definition rolling_window :: "numeric \<Rightarrow> PerformanceMetrics \<Rightarrow> rat list \<Rightarrow> rat list \<Rightarrow> int \<Rightarrow> RollingWindowMetrics" where
  "rolling_window N pm rs values window =
     (let wr = suffix_of (nat window) rs;
          wv = suffix_of (nat window + 1) values;
          curve = calculate_drawdown_curve wv in
      \<lparr>rw_window_days = window, rw_sharpe_ratio = sharpe_ratio_of N pm wr, rw_sortino_ratio = sortino_ratio_of N pm wr,
       rw_volatility_annual_pct = volatility_of N pm wr, rw_max_drawdown_pct = max_drawdown_of curve\<rparr>)"

text \<open>The windows and the trading days are positive.\<close>

definition rolling_window_metrics ::
  "numeric \<Rightarrow> PerformanceMetrics \<Rightarrow> rat list \<Rightarrow> rat list \<Rightarrow> RollingWindowMetrics list" where
  "rolling_window_metrics N pm rs values =
     (if rs = [] then []
      else map (rolling_window N pm rs values) (filter (\<lambda>w. w \<le> int (length rs)) (pm_rolling_windows pm)))"

definition calculate :: "numeric \<Rightarrow> PerformanceMetrics \<Rightarrow> perf_error + MetricsReport" where
  "calculate N pm =
     (let values = map ep_total_value (pm_equity_curve pm);
          trades = pm_trade_log pm;
          final_value = (if values = [] then pm_initial_cash pm else last values);
          rs = calculate_daily_returns values;
          curve = calculate_drawdown_curve values;
          pnls = map (\<lambda>t. case lg_realized_pnl t of None \<Rightarrow> 0 | Some p \<Rightarrow> p) trades;
          annualized = annualized_return_of N pm final_value (length values);
          max_dd = max_drawdown_of curve in
      case calmar_ratio_of annualized max_dd of
        Inl e \<Rightarrow> Inl e
      | Inr calmar \<Rightarrow> Inr
          \<lparr>mr_total_return_pct = total_return_of pm final_value, mr_annualized_return_pct = annualized,
           mr_sharpe_ratio = sharpe_ratio_of N pm rs, mr_sortino_ratio = sortino_ratio_of N pm rs,
           mr_max_drawdown_pct = max_dd, mr_max_drawdown_duration_days = max_drawdown_duration_of values,
           mr_max_drawdown_recovery_days = max_drawdown_recovery_of N values curve, mr_calmar_ratio = calmar,
           mr_volatility_annual_pct = volatility_of N pm rs, mr_total_trades = length trades,
           mr_win_rate = win_rate_of pnls, mr_profit_factor = profit_factor_of pnls,
           mr_avg_trade_pnl = mean_or_zero N pnls, mr_avg_winner = mean_or_zero N (filter (\<lambda>p. 0 < p) pnls),
           mr_avg_loser = mean_or_zero N (filter (\<lambda>p. p < 0) pnls),
           mr_best_trade = (if pnls = [] then 0 else py_max pnls),
           mr_worst_trade = (if pnls = [] then 0 else py_min pnls),
           mr_max_consecutive_wins = max_consecutive_of pnls True,
           mr_max_consecutive_losses = max_consecutive_of pnls False,
           mr_total_costs = total_costs_of trades, mr_total_taxes = total_taxes_of trades,
           mr_cost_drag_pct =
             (if pm_initial_cash pm \<noteq> 0 then fmul (fdiv (total_costs_of trades) (pm_initial_cash pm)) 100 else 0),
           mr_turnover_ratio = turnover_ratio_of N pm, mr_exposure_pct = exposure_pct_of N (pm_equity_curve pm),
           mr_drawdown_curve = curve, mr_rolling_metrics = rolling_window_metrics N pm rs values\<rparr>)"

definition compute_sharpe_ratio :: "numeric \<Rightarrow> rat list \<Rightarrow> rat \<Rightarrow> int \<Rightarrow> flt" where
  "compute_sharpe_ratio N rs risk_free_rate trading_days =
     (if rs = [] then Fin 0
      else let rf_daily = fdiv risk_free_rate (fint trading_days) in
        over_deviation (fsub (np_mean N rs) rf_daily) (np_std N rs) (m_sqrt N (fint trading_days)))"

fun max_dd_from :: "rat \<Rightarrow> rat \<Rightarrow> rat list \<Rightarrow> rat" where
  "max_dd_from peak max_dd [] = max_dd"
| "max_dd_from peak max_dd (v # vs) =
     (let peak = max peak v; dd = (if 0 < peak then fdiv (fsub peak v) peak else 0) in
      max_dd_from peak (max max_dd dd) vs)"

definition compute_max_drawdown :: "rat list \<Rightarrow> rat" where
  "compute_max_drawdown curve = (if curve = [] then 0 else fmul (max_dd_from (hd curve) 0 curve) 100)"

definition compute_cagr :: "numeric \<Rightarrow> rat \<Rightarrow> rat \<Rightarrow> rat \<Rightarrow> rat option" where
  "compute_cagr N start_value end_value years =
     (if start_value \<le> 0 \<or> years \<le> 0 then Some 0
      else map_option (\<lambda>x. fmul (fsub x 1) 100) (m_pow N (fdiv end_value start_value) (fdiv 1 years)))"

section \<open>The episodes are the drawdowns\<close>

text \<open>The running maximum up to a bar.\<close>

definition high :: "rat list \<Rightarrow> nat \<Rightarrow> rat" where
  "high xs k = Max (set (take (Suc k) xs))"

definition episode_stop :: "rat list \<Rightarrow> DrawdownEpisode \<Rightarrow> nat" where
  "episode_stop xs e = (case de_recovery_idx e of None \<Rightarrow> length xs | Some r \<Rightarrow> r)"

text \<open>The bar lies in the episode, below its peak.\<close>

definition inside :: "rat list \<Rightarrow> DrawdownEpisode \<Rightarrow> nat \<Rightarrow> bool" where
  "inside xs e k = (de_peak_idx e < k \<and> k < episode_stop xs e \<and> xs ! k < xs ! de_peak_idx e)"

text \<open>
  The peak is an all-time high and not passed before the recovery, the trough is the lowest bar in
  between, and the recovery is the first bar at the height of the peak again that follows it.
\<close>

definition episode_ok :: "rat list \<Rightarrow> DrawdownEpisode \<Rightarrow> bool" where
  "episode_ok xs e =
     (let p = de_peak_idx e; t = de_trough_idx e; stop = episode_stop xs e in
      p < t \<and> t < stop \<and> stop \<le> length xs \<and> xs ! t < xs ! p
      \<and> list_all (\<lambda>k. xs ! k \<le> xs ! p) [0..<stop]
      \<and> list_all (\<lambda>k. xs ! t \<le> xs ! k) [p..<stop]
      \<and> list_all (\<lambda>k. xs ! k < xs ! p) [t..<stop]
      \<and> (case de_recovery_idx e of None \<Rightarrow> True | Some r \<Rightarrow> r < length xs \<and> xs ! p \<le> xs ! r)
      \<and> de_depth_pct e = depth_of (xs ! p) (xs ! t))"

definition before :: "DrawdownEpisode \<Rightarrow> DrawdownEpisode \<Rightarrow> bool" where
  "before a b = (case de_recovery_idx a of None \<Rightarrow> False | Some r \<Rightarrow> r \<le> de_peak_idx b)"

lemma high_next:
  assumes "i < length xs" "p < i" "\<forall>k<i. xs ! k \<le> xs ! p"
  shows "high xs i = max (xs ! p) (xs ! i)"
proof -
  have "take (Suc i) xs = take i xs @ [xs ! i]" by (rule take_Suc_conv_app_nth [OF assms(1)])
  then have "set (take (Suc i) xs) = insert (xs ! i) (set (take i xs))" by simp
  moreover have "Max (set (take i xs)) = xs ! p"
    using assms by (intro Max_eqI) (auto simp: in_set_conv_nth intro!: exI [of _ p])
  moreover have "set (take i xs) \<noteq> {}" using assms by (cases xs; cases i) auto
  ultimately show ?thesis unfolding high_def by (simp add: max.commute)
qed

lemma closed_not_inside: "de_recovery_idx e = Some r \<Longrightarrow> r \<le> k \<Longrightarrow> \<not> inside xs e k"
  by (simp add: inside_def episode_stop_def)

lemma all_below_Suc: "\<lbrakk>\<forall>k<i. P k; P i\<rbrakk> \<Longrightarrow> \<forall>k<Suc i. P k"
  by (simp add: All_less_Suc)

text \<open>What holds of the closed episodes and the current peak after \<open>i\<close> bars.\<close>

definition dd_base :: "rat list \<Rightarrow> nat \<Rightarrow> DrawdownEpisode list \<Rightarrow> nat \<Rightarrow> bool" where
  "dd_base xs i eps p \<longleftrightarrow>
     p < i \<and> i \<le> length xs \<and> (\<forall>k<i. xs ! k \<le> xs ! p)
     \<and> (\<forall>e\<in>set eps. episode_ok xs e \<and> (\<exists>r. de_recovery_idx e = Some r \<and> r \<le> p))
     \<and> sorted_wrt before eps
     \<and> (\<forall>k<i. (xs ! k < high xs k) = ((\<exists>e\<in>set eps. inside xs e k) \<or> p < k \<and> xs ! k < xs ! p))"

definition dd_inv :: "rat list \<Rightarrow> nat \<Rightarrow> dd_state \<Rightarrow> bool" where
  "dd_inv xs i s \<longleftrightarrow>
     dd_peak_value s = xs ! dd_peak_idx s \<and> dd_base xs i (dd_episodes s) (dd_peak_idx s)
     \<and> (let p = dd_peak_idx s; t = dd_trough_idx s in
        if dd_in s then p < t \<and> t < i \<and> dd_trough_value s = xs ! t \<and> xs ! t < xs ! p
          \<and> (\<forall>k<i. p \<le> k \<longrightarrow> xs ! t \<le> xs ! k) \<and> (\<forall>k<i. t \<le> k \<longrightarrow> xs ! k < xs ! p)
        else \<forall>k<i. p \<le> k \<longrightarrow> xs ! p \<le> xs ! k)"

lemma dd_base_high:
  assumes "dd_base xs i eps p" "i < length xs"
  shows "high xs i = max (xs ! p) (xs ! i) \<and> (\<forall>e\<in>set eps. \<not> inside xs e i)"
proof
  show "high xs i = max (xs ! p) (xs ! i)" using assms by (intro high_next) (simp_all add: dd_base_def)
  show "\<forall>e\<in>set eps. \<not> inside xs e i"
    using assms unfolding dd_base_def by (meson closed_not_inside less_imp_le order_trans)
qed

lemma dd_base_below:
  assumes b: "dd_base xs i eps p" and i: "i < length xs" "xs ! i \<le> xs ! p"
  shows "dd_base xs (Suc i) eps p"
proof -
  have "(xs ! i < high xs i) = ((\<exists>e\<in>set eps. inside xs e i) \<or> p < i \<and> xs ! i < xs ! p)"
    using dd_base_high [OF b i(1)] b i(2) by (auto simp: dd_base_def)
  then show ?thesis using b i unfolding dd_base_def by (auto intro: all_below_Suc simp: less_Suc_eq)
qed

lemma dd_base_above:
  assumes b: "dd_base xs i eps p" and i: "i < length xs" "xs ! p \<le> xs ! i"
    and eps': "\<forall>e\<in>set eps'. episode_ok xs e \<and> (\<exists>r. de_recovery_idx e = Some r \<and> r \<le> i)" "sorted_wrt before eps'"
    and same: "\<forall>k<i. (\<exists>e\<in>set eps'. inside xs e k) = ((\<exists>e\<in>set eps. inside xs e k) \<or> p < k \<and> xs ! k < xs ! p)"
  shows "dd_base xs (Suc i) eps' i"
proof -
  have "\<not> xs ! i < high xs i" using dd_base_high [OF b i(1)] i(2) by simp
  moreover have "\<not> (\<exists>e\<in>set eps'. inside xs e i)" using eps'(1) by (meson closed_not_inside)
  moreover have "\<forall>k<i. (xs ! k < high xs k) = (\<exists>e\<in>set eps'. inside xs e k)"
    using b same unfolding dd_base_def by blast
  ultimately have "\<forall>k<Suc i. (xs ! k < high xs k) = ((\<exists>e\<in>set eps'. inside xs e k) \<or> i < k \<and> xs ! k < xs ! i)"
    by (intro all_below_Suc) auto
  moreover have "\<forall>k<Suc i. xs ! k \<le> xs ! i"
    using b i(2) unfolding dd_base_def by (intro all_below_Suc) (auto intro: order_trans)
  ultimately show ?thesis using i(1) eps' unfolding dd_base_def by auto
qed

lemma dd_inv_step:
  assumes inv: "dd_inv xs i s" and i: "i < length xs"
  shows "dd_inv xs (Suc i) (dd_step i (xs ! i) s)"
proof -
  let ?v = "xs ! i" and ?p = "dd_peak_idx s" and ?t = "dd_trough_idx s" and ?eps = "dd_episodes s"
  have pv: "dd_peak_value s = xs ! ?p" and b: "dd_base xs i ?eps ?p" using inv by (simp_all add: dd_inv_def)
  have p: "?p < i" and eps: "\<forall>e\<in>set ?eps. episode_ok xs e \<and> (\<exists>r. de_recovery_idx e = Some r \<and> r \<le> ?p)"
    and srt: "sorted_wrt before ?eps" and top: "\<forall>k<i. xs ! k \<le> xs ! ?p" using b by (simp_all add: dd_base_def)
  have eps': "\<forall>e\<in>set ?eps. episode_ok xs e \<and> (\<exists>r. de_recovery_idx e = Some r \<and> r \<le> i)"
    using eps p by (meson less_imp_le order_trans)
  show ?thesis
  proof (cases "dd_in s")
    case False
    then have flat: "\<forall>k<i. ?p \<le> k \<longrightarrow> xs ! ?p \<le> xs ! k" using inv by (simp add: dd_inv_def Let_def)
    consider "?v < xs ! ?p" | "xs ! ?p < ?v" | "?v = xs ! ?p" by linarith
    then show ?thesis
    proof cases
      case 1
      have "\<forall>k<Suc i. ?p \<le> k \<longrightarrow> ?v \<le> xs ! k"
        using flat 1 by (intro all_below_Suc) (auto intro: order_trans less_imp_le)
      moreover have "\<forall>k<Suc i. i \<le> k \<longrightarrow> xs ! k < xs ! ?p" using 1 by (intro all_below_Suc) auto
      ultimately show ?thesis using dd_base_below [OF b i less_imp_le [OF 1]] False 1 pv p
        by (simp add: dd_inv_def dd_step_def Let_def)
    next
      case 2
      have "\<forall>k<i. (\<exists>e\<in>set ?eps. inside xs e k) = ((\<exists>e\<in>set ?eps. inside xs e k) \<or> ?p < k \<and> xs ! k < xs ! ?p)"
        using flat by (meson less_imp_le not_less)
      from dd_base_above [OF b i less_imp_le [OF 2] eps' srt this]
      show ?thesis using False 2 pv by (simp add: dd_inv_def dd_step_def Let_def le_less_Suc_eq All_less_Suc)
    next
      case 3
      have "\<forall>k<Suc i. ?p \<le> k \<longrightarrow> xs ! ?p \<le> xs ! k" using flat 3 by (intro all_below_Suc) auto
      then show ?thesis using dd_base_below [OF b i] False 3 pv by (simp add: dd_inv_def dd_step_def Let_def)
    qed
  next
    case True
    then have t: "?p < ?t" "?t < i" "dd_trough_value s = xs ! ?t" "xs ! ?t < xs ! ?p"
        "\<forall>k<i. ?p \<le> k \<longrightarrow> xs ! ?t \<le> xs ! k" "\<forall>k<i. ?t \<le> k \<longrightarrow> xs ! k < xs ! ?p"
      using inv by (simp_all add: dd_inv_def Let_def)
    consider "?v < xs ! ?t" | "xs ! ?t \<le> ?v" "?v < xs ! ?p" | "xs ! ?p \<le> ?v" by linarith
    then show ?thesis
    proof cases
      case 1
      then have v: "?v < xs ! ?p" using t(4) by simp
      have "\<forall>k<Suc i. ?p \<le> k \<longrightarrow> ?v \<le> xs ! k"
        using t(5) 1 by (intro all_below_Suc) (auto intro: order_trans less_imp_le)
      moreover have "\<forall>k<Suc i. i \<le> k \<longrightarrow> xs ! k < xs ! ?p" using v by (intro all_below_Suc) auto
      moreover have "dd_step i ?v s = s\<lparr>dd_trough_value := ?v, dd_trough_idx := i\<rparr>"
        using True 1 v pv t(3) by (simp add: dd_step_def Let_def)
      ultimately show ?thesis using dd_base_below [OF b i less_imp_le [OF v]] True v pv p
        by (simp add: dd_inv_def Let_def)
    next
      case 2
      have "\<forall>k<Suc i. ?p \<le> k \<longrightarrow> xs ! ?t \<le> xs ! k" using t(5) 2 by (intro all_below_Suc) auto
      moreover have "\<forall>k<Suc i. ?t \<le> k \<longrightarrow> xs ! k < xs ! ?p" using t(6) 2 by (intro all_below_Suc) auto
      moreover have "dd_step i ?v s = s" using True 2 pv t(3) by (simp add: dd_step_def Let_def)
      ultimately show ?thesis using dd_base_below [OF b i less_imp_le [OF 2(2)]] True pv t(1-4)
        by (simp add: dd_inv_def Let_def)
    next
      case 3
      let ?e = "\<lparr>de_peak_idx = ?p, de_trough_idx = ?t, de_recovery_idx = Some i,
                 de_depth_pct = depth_of (xs ! ?p) (xs ! ?t)\<rparr>"
      have "episode_ok xs ?e"
        using t top 3 i by (simp add: episode_ok_def episode_stop_def Let_def list_all_iff)
      then have e1: "\<forall>e\<in>set (?eps @ [?e]). episode_ok xs e \<and> (\<exists>r. de_recovery_idx e = Some r \<and> r \<le> i)"
        using eps' by simp
      have e2: "sorted_wrt before (?eps @ [?e])" using srt eps by (auto simp: sorted_wrt_append before_def)
      have "inside xs ?e k \<longleftrightarrow> ?p < k \<and> k < i \<and> xs ! k < xs ! ?p" for k
        by (simp add: inside_def episode_stop_def)
      then have e3: "\<forall>k<i. (\<exists>e\<in>set (?eps @ [?e]). inside xs e k)
          = ((\<exists>e\<in>set ?eps. inside xs e k) \<or> ?p < k \<and> xs ! k < xs ! ?p)" by auto
      have "\<not> ?v < xs ! ?t" using 3 t(4) by simp
      then show ?thesis using dd_base_above [OF b i 3 e1 e2 e3] True 3 pv t(3)
        by (simp add: dd_inv_def dd_step_def Let_def All_less_Suc)
    qed
  qed
qed

lemma dd_inv_loop:
  "\<lbrakk>dd_inv xs i s; ys = drop i xs\<rbrakk> \<Longrightarrow> dd_inv xs (length xs) (dd_loop i ys s)"
proof (induction i ys s rule: dd_loop.induct)
  case (1 i s)
  then have "i = length xs" by (simp add: dd_inv_def dd_base_def)
  then show ?case using 1 by simp
next
  case (2 i v vs s)
  have i: "i < length xs" using "2.prems"(2) by (metis drop_all list.distinct(1) not_le_imp_less)
  then have "v = xs ! i" "vs = drop (Suc i) xs" using "2.prems"(2) by (simp_all add: Cons_nth_drop_Suc [symmetric])
  then show ?case using "2.IH" dd_inv_step [OF "2.prems"(1) i] by simp
qed

lemma open_episode_ok:
  assumes "dd_inv xs (length xs) s" "dd_in s"
  shows "episode_ok xs \<lparr>de_peak_idx = dd_peak_idx s, de_trough_idx = dd_trough_idx s, de_recovery_idx = None,
      de_depth_pct = depth_of (dd_peak_value s) (dd_trough_value s)\<rparr>"
  using assms by (simp add: dd_inv_def dd_base_def episode_ok_def episode_stop_def Let_def list_all_iff)

text \<open>
  C37.  The episodes are the drawdowns of the curve: each falls from an all-time high through its lowest bar to the first bar
  that is back at the high, or to the end; they follow each other without overlap; and a bar is below the running maximum
  exactly if it lies in one of them, below its peak.\<close>

theorem drawdown_episodes_exact:
  "list_all (episode_ok xs) (drawdown_episodes xs) \<and> sorted_wrt before (drawdown_episodes xs)
    \<and> list_all (\<lambda>k. (xs ! k < high xs k) = list_ex (\<lambda>e. inside xs e k) (drawdown_episodes xs)) [0..<length xs]"
proof (cases "length xs < 2")
  case True
  then have "k < length xs \<Longrightarrow> k = 0 \<and> take (Suc 0) xs = [xs ! 0]" for k by (cases xs) auto
  then have "k < length xs \<Longrightarrow> high xs k = xs ! k" for k by (fastforce simp: high_def)
  then show ?thesis using True by (simp add: drawdown_episodes_def list_all_iff)
next
  case False
  then obtain x ys where xs: "xs = x # ys" by (cases xs) auto
  define s0 where "s0 = \<lparr>dd_episodes = [], dd_peak_value = x, dd_peak_idx = 0, dd_trough_idx = 0, dd_trough_value = x,
    dd_in = False\<rparr>"
  have "dd_inv xs 1 s0" using False by (simp add: xs s0_def dd_inv_def dd_base_def high_def)
  then have inv: "dd_inv xs (length xs) (dd_loop 1 ys s0)" by (rule dd_inv_loop) (simp add: xs)
  define s where "s = dd_loop 1 ys s0"
  define e where "e = \<lparr>de_peak_idx = dd_peak_idx s, de_trough_idx = dd_trough_idx s, de_recovery_idx = None,
      de_depth_pct = depth_of (dd_peak_value s) (dd_trough_value s)\<rparr>"
  have eps: "drawdown_episodes xs = dd_episodes s @ (if dd_in s then [e] else [])"
    using False by (simp add: drawdown_episodes_def xs s_def s0_def e_def Let_def)
  have base: "dd_base xs (length xs) (dd_episodes s) (dd_peak_idx s)" using inv by (simp add: s_def dd_inv_def)
  have ok: "list_all (episode_ok xs) (drawdown_episodes xs)"
    using base open_episode_ok [OF inv] by (auto simp: eps dd_base_def list_all_iff s_def e_def)
  have srt: "sorted_wrt before (drawdown_episodes xs)"
    using base by (auto simp: eps dd_base_def sorted_wrt_append e_def before_def)
  have ins: "inside xs e k \<longleftrightarrow> dd_peak_idx s < k \<and> k < length xs \<and> xs ! k < xs ! dd_peak_idx s" for k
    by (simp add: inside_def episode_stop_def e_def)
  have flat: "\<not> dd_in s \<Longrightarrow> k < length xs \<Longrightarrow> \<not> (dd_peak_idx s < k \<and> xs ! k < xs ! dd_peak_idx s)" for k
    using inv by (fastforce simp: s_def dd_inv_def Let_def)
  have "(xs ! k < high xs k) = (\<exists>e\<in>set (drawdown_episodes xs). inside xs e k)" if k: "k < length xs" for k
  proof -
    have "(xs ! k < high xs k) = ((\<exists>e\<in>set (dd_episodes s). inside xs e k)
        \<or> dd_peak_idx s < k \<and> xs ! k < xs ! dd_peak_idx s)" using base k unfolding dd_base_def by blast
    then show ?thesis using ins [of k] flat [OF _ k] k by (cases "dd_in s") (auto simp: eps)
  qed
  then show ?thesis using ok srt by (simp add: list_all_iff list_ex_iff)
qed

section \<open>Streaks\<close>

definition has_run :: "(rat \<Rightarrow> bool) \<Rightarrow> rat list \<Rightarrow> nat \<Rightarrow> bool" where
  "has_run c ps n = (\<exists>pre run post. ps = pre @ run @ post \<and> list_all c run \<and> length run = n)"

definition is_longest :: "(rat \<Rightarrow> bool) \<Rightarrow> rat list \<Rightarrow> nat \<Rightarrow> bool" where
  "is_longest c ps n = (has_run c ps n \<and> (\<forall>m. has_run c ps m \<longrightarrow> m \<le> n))"

definition last_run :: "(rat \<Rightarrow> bool) \<Rightarrow> rat list \<Rightarrow> nat" where
  "last_run c ps = length (takeWhile c (rev ps))"

lemma has_run_snoc:
  "has_run c (ps @ [p]) m \<longleftrightarrow> has_run c ps m \<or> m \<le> last_run c (ps @ [p])"
proof
  assume "has_run c (ps @ [p]) m"
  then obtain pre run post where r: "ps @ [p] = pre @ run @ post" "list_all c run" "length run = m"
    by (auto simp: has_run_def)
  show "has_run c ps m \<or> m \<le> last_run c (ps @ [p])"
  proof (cases post rule: rev_cases)
    case (snoc post' x)
    then have "ps = pre @ run @ post'" using r(1) by simp
    then show ?thesis using r by (auto simp: has_run_def)
  next
    case Nil
    then have eq: "rev (ps @ [p]) = rev run @ rev pre" using r(1) by simp
    have "takeWhile c (rev (ps @ [p])) = rev run @ takeWhile c (rev pre)"
      unfolding eq using r(2) by (intro takeWhile_append2) (simp add: list_all_iff)
    then show ?thesis using r(3) by (simp add: last_run_def)
  qed
next
  assume "has_run c ps m \<or> m \<le> last_run c (ps @ [p])"
  then show "has_run c (ps @ [p]) m"
  proof
    assume "has_run c ps m"
    then obtain pre run post where "ps = pre @ run @ post" "list_all c run" "length run = m" by (auto simp: has_run_def)
    then show ?thesis unfolding has_run_def by (intro exI [of _ pre] exI [of _ run] exI [of _ "post @ [p]"]) simp
  next
    assume m: "m \<le> last_run c (ps @ [p])"
    let ?w = "takeWhile c (rev (ps @ [p]))"
    define run where "run = rev (take m ?w)"
    have "rev (ps @ [p]) = take m ?w @ drop m ?w @ dropWhile c (rev (ps @ [p]))"
      by (metis append.assoc append_take_drop_id takeWhile_dropWhile_id)
    then have "ps @ [p] = rev (drop m ?w @ dropWhile c (rev (ps @ [p]))) @ run @ []"
      unfolding run_def by (metis append.assoc append_Nil2 rev_append rev_rev_ident)
    moreover have "x \<in> set (take m ?w) \<Longrightarrow> c x" for x using set_takeWhileD [of x c] in_set_takeD by fast
    then have "list_all c run" by (simp add: run_def list_all_iff del: rev_append)
    moreover have "length run = m" using m by (simp add: run_def last_run_def)
    ultimately show ?thesis unfolding has_run_def by blast
  qed
qed

lemma has_run_0: "has_run c ps 0"
  unfolding has_run_def by (rule exI [of _ ps], rule exI [of _ "[]"], rule exI [of _ "[]"]) simp

lemma last_run_snoc: "last_run c (ps @ [p]) = (if c p then last_run c ps + 1 else 0)"
  by (simp add: last_run_def)

lemma longest_run_from:
  "is_longest c qs longest \<Longrightarrow> is_longest c (qs @ ps) (longest_run c ps longest (last_run c qs))"
proof (induction ps arbitrary: qs longest)
  case (Cons p ps)
  let ?l = "if c p then max longest (last_run c qs + 1) else longest"
  have "is_longest c (qs @ [p]) ?l"
    using Cons.prems has_run_0 [of c qs]
    by (auto simp: is_longest_def has_run_snoc last_run_snoc max_def)
  then have "is_longest c ((qs @ [p]) @ ps) (longest_run c ps ?l (last_run c (qs @ [p])))" by (rule Cons.IH)
  then show ?case by (cases "c p") (simp_all add: last_run_snoc)
qed simp

lemma longest_run_exact: "is_longest c ps (longest_run c ps 0 0)"
proof -
  have "is_longest c [] 0" using has_run_0 [of c "[]"] by (auto simp: is_longest_def has_run_def)
  from longest_run_from [OF this, of ps] show ?thesis by (simp add: last_run_def)
qed

section \<open>Two computations of the same numbers\<close>

lemma fdiv_uminus: "fdiv (- x) y = - fdiv x y"
  by (simp add: fdiv_def f64.uminus)

lemma fsub_swap: "fsub x y = - fsub y x"
  using f64.uminus [of "y - x"] by (simp add: fsub_def)

lemma drawdowns_underwater: "drawdowns_from peak vs = map uminus (underwater_from peak vs)"
proof (induction vs arbitrary: peak)
  case (Cons v vs)
  have "fdiv (fsub p v) p = - fdiv (fsub v p) p" for p by (subst fsub_swap) (rule fdiv_uminus)
  then have "(if 0 < p then fdiv (fsub p v) p else 0) = - (if p \<le> 0 then 0 else fdiv (fsub v p) p)" for p by simp
  then show ?case using Cons.IH by (simp only: drawdowns_from.simps underwater_from.simps Let_def list.map)
qed simp

lemma max_dd_from_curve: "max_dd_from peak m vs = foldl max m (drawdowns_from peak vs)"
  by (induction vs arbitrary: peak m) (simp_all add: Let_def)

lemma drawdowns_nonneg: "list_all (\<lambda>d. 0 \<le> d) (drawdowns_from peak vs)"
proof (induction vs arbitrary: peak)
  case (Cons v vs)
  have "0 \<le> fdiv (fsub (max peak v) v) (max peak v)" if "0 < max peak v"
    using that by (intro float_nonneg) simp_all
  then show ?case using Cons.IH by (simp add: Let_def)
qed simp

text \<open>
  C38.  The report of a back test and the module functions compute the same drawdowns and streaks: the drawdown curve is the
  underwater curve with the sign changed, the maximum is that of \<open>compute_max_drawdown\<close>, and both streaks are the
  longest runs of consecutive wins or losses.\<close>

theorem report_agrees_with_modules:
  "calculate_drawdown_curve xs = map uminus (underwater_curve xs)
    \<and> max_drawdown_of (calculate_drawdown_curve xs) = compute_max_drawdown xs
    \<and> max_consecutive_of xs True = max_consecutive_wins xs
    \<and> max_consecutive_of xs False = max_consecutive_losses xs
    \<and> is_longest (\<lambda>p. 0 < p) xs (max_consecutive_wins xs)
    \<and> is_longest (\<lambda>p. p < 0) xs (max_consecutive_losses xs)"
proof -
  have curve: "calculate_drawdown_curve xs = map uminus (underwater_curve xs)"
    by (simp add: calculate_drawdown_curve_def underwater_curve_def drawdowns_underwater)
  have "max_drawdown_of (calculate_drawdown_curve xs) = compute_max_drawdown xs"
  proof (cases xs)
    case (Cons x ys)
    then obtain d ds where d: "drawdowns_from x xs = d # ds" by (simp add: Let_def)
    then have "0 \<le> d" using drawdowns_nonneg [of x xs] by simp
    then show ?thesis using d Cons
      by (simp add: max_drawdown_of_def calculate_drawdown_curve_def compute_max_drawdown_def max_dd_from_curve py_max_def
          del: drawdowns_from.simps)
  qed (simp add: max_drawdown_of_def calculate_drawdown_curve_def compute_max_drawdown_def)
  moreover have "max_consecutive_of xs True = max_consecutive_wins xs" "max_consecutive_of xs False = max_consecutive_losses xs"
    by (cases xs; simp add: max_consecutive_of_def max_consecutive_wins_def max_consecutive_losses_def)+
  ultimately show ?thesis using curve longest_run_exact
    by (simp add: max_consecutive_wins_def max_consecutive_losses_def)
qed

section \<open>Walk-forward windows\<close>

definition split_ok :: "int \<Rightarrow> int \<Rightarrow> int \<Rightarrow> WindowMode \<Rightarrow> int \<Rightarrow> WindowSplit \<Rightarrow> bool" where
  "split_ok n_obs train_size test_size mode start w =
     (train_indices w = [(if mode = ROLLING then start else 0)..start + train_size - 1]
      \<and> test_indices w = [start + train_size..start + train_size + test_size - 1]
      \<and> start + train_size + test_size \<le> n_obs)"

lemma walk_loop_spec:
  assumes "0 < step"
  shows "list_all2 (split_ok n_obs train_size test_size mode)
      (map (\<lambda>k. start + int k * step) [0..<length (walk_loop n_obs train_size test_size step mode start)])
      (walk_loop n_obs train_size test_size step mode start)
    \<and> n_obs < start + int (length (walk_loop n_obs train_size test_size step mode start)) * step + train_size + test_size"
  using assms
proof (induction n_obs train_size test_size step mode start rule: walk_loop.induct)
  case (1 n_obs train_size test_size step mode start)
  let ?l = "\<lambda>s. walk_loop n_obs train_size test_size step mode s"
  show ?case
  proof (cases "n_obs < start + train_size + test_size")
    case True
    then show ?thesis by (simp add: walk_loop.simps [of _ _ _ _ _ start] Let_def)
  next
    case False
    then have c: "?l start = \<lparr>train_indices = [(if mode = ROLLING then start else 0)..start + train_size - 1],
          test_indices = [start + train_size..start + train_size + test_size - 1]\<rparr> # ?l (start + step)"
      using "1.prems" by (simp add: walk_loop.simps [of _ _ _ _ _ start] Let_def)
    have IH: "list_all2 (split_ok n_obs train_size test_size mode)
        (map (\<lambda>k. start + step + int k * step) [0..<length (?l (start + step))]) (?l (start + step))
      \<and> n_obs < start + step + int (length (?l (start + step))) * step + train_size + test_size"
      using False "1.prems" by (intro "1.IH" [OF refl refl]) auto
    have m: "map (\<lambda>k. start + int k * step) [0..<length (?l start)]
        = start # map (\<lambda>k. start + step + int k * step) [0..<length (?l (start + step))]"
      by (simp add: c upt_conv_Cons map_Suc_upt [symmetric] algebra_simps del: upt_Suc)
    have "split_ok n_obs train_size test_size mode start
        \<lparr>train_indices = [(if mode = ROLLING then start else 0)..start + train_size - 1],
          test_indices = [start + train_size..start + train_size + test_size - 1]\<rparr>"
      using False by (simp add: split_ok_def)
    then show ?thesis unfolding m using IH by (simp add: c) (simp add: algebra_simps)
  qed
qed

text \<open>
  C39.  Walk-forward windows do not leak: the \<open>k\<close>-th split trains on a window that starts \<open>k\<close> steps on (or at the
  beginning, when it expands) and tests on the bars right after it, all inside the data; and splits stop only when the
  next one would not fit.\<close>

theorem walk_forward_does_not_leak:
  assumes "walk_forward_splits n_obs train_size test_size step mode = Inr ws"
  shows "list_all2 (split_ok n_obs train_size test_size mode) (map (\<lambda>k. int k * step) [0..<length ws]) ws
    \<and> n_obs < int (length ws) * step + train_size + test_size
    \<and> list_all (\<lambda>w. train_indices w \<noteq> [] \<and> test_indices w = [last (train_indices w) + 1..last (train_indices w) + test_size]
         \<and> list_all (\<lambda>i. 0 \<le> i \<and> i < n_obs) (train_indices w @ test_indices w)) ws"
proof -
  have ws: "ws = walk_loop n_obs train_size test_size step mode 0" and pos: "0 < train_size" "0 < test_size" "0 < step"
    using assms by (auto simp: walk_forward_splits_def split: if_splits)
  have spec: "list_all2 (split_ok n_obs train_size test_size mode) (map (\<lambda>k. int k * step) [0..<length ws]) ws"
    and stop: "n_obs < int (length ws) * step + train_size + test_size"
    using walk_loop_spec [OF pos(3), of n_obs train_size test_size mode 0] by (simp_all add: ws)
  have "train_indices w \<noteq> [] \<and> test_indices w = [last (train_indices w) + 1..last (train_indices w) + test_size]
      \<and> list_all (\<lambda>i. 0 \<le> i \<and> i < n_obs) (train_indices w @ test_indices w)" if w: "w \<in> set ws" for w
  proof -
    obtain k where k: "k < length ws" "w = ws ! k" using w by (auto simp: in_set_conv_nth)
    define st where "st = int k * step"
    have st: "0 \<le> st" using pos(3) by (simp add: st_def)
    have "split_ok n_obs train_size test_size mode st w"
      using list_all2_nthD [OF spec, of k] k by (simp add: st_def)
    then have t: "train_indices w = [(if mode = ROLLING then st else 0)..st + train_size - 1]"
      "test_indices w = [st + train_size..st + train_size + test_size - 1]" "st + train_size + test_size \<le> n_obs"
      by (simp_all add: split_ok_def)
    have "[(if mode = ROLLING then st else 0)..st + train_size - 1]
        = [(if mode = ROLLING then st else 0)..st + train_size - 2] @ [st + train_size - 1]"
      using upto_rec2 [of "if mode = ROLLING then st else 0" "st + train_size - 1"] st pos(1) by simp
    then have "train_indices w \<noteq> []" "last (train_indices w) = st + train_size - 1" by (simp_all add: t(1))
    moreover have "test_indices w = [st + train_size - 1 + 1..st + train_size - 1 + test_size]"
      unfolding t(2) by (rule arg_cong2 [where f = upto]) simp_all
    moreover have "\<forall>i\<in>set (train_indices w @ test_indices w). 0 \<le> i \<and> i < n_obs"
      using t pos st by auto
    ultimately show ?thesis by (simp only: list_all_iff simp_thms)
  qed
  then show ?thesis using spec stop by (simp add: list_all_iff)
qed

section \<open>Where the report misleads\<close>

text \<open>
  The back-test runner logs a purchase with a profit of zero.  So with every trade won, half of the logged trades are wins, and
  no streak is longer than one.
\<close>

lemma purchases_dilute_wins:
  assumes "gains \<noteq> []" "list_all (\<lambda>g. 0 < g) gains"
  shows "win_rate_of (concat (map (\<lambda>g. [0, g]) gains)) = 50
    \<and> max_consecutive_of (concat (map (\<lambda>g. [0, g]) gains)) True = 1"
proof
  have half: "f64 (1 / 2) = 1 / 2" using f64_dyadic [of 1 1] by simp
  have wins: "filter (\<lambda>p. 0 < p) (concat (map (\<lambda>g. [0, g]) gains)) = gains"
    using assms(2) by (induction gains) simp_all
  have len: "length (concat (map (\<lambda>g. [0, g]) gains)) = 2 * length gains" by (induction gains) simp_all
  have "(of_nat (length gains) :: rat) / of_nat (2 * length gains) = 1 / 2" using assms(1) by simp
  then have share: "share_of (\<lambda>p. 0 < p) (concat (map (\<lambda>g. [0, g]) gains)) = 1 / 2"
    unfolding share_of_def fdiv_def wins len by (simp only: half)
  have "concat (map (\<lambda>g. [0, g]) gains) \<noteq> []" using assms(1) by (cases gains) simp_all
  then show "win_rate_of (concat (map (\<lambda>g. [0, g]) gains)) = 50"
    unfolding win_rate_of_def share fmul_def by simp
  have run: "longest_run (\<lambda>p. 0 < p) (concat (map (\<lambda>g. [0, g]) gs)) 1 current = 1"
    if "list_all (\<lambda>g. 0 < g) gs" for gs current
    using that by (induction gs arbitrary: current) simp_all
  obtain g gs where "gains = g # gs" using assms(1) by (cases gains) auto
  then show "max_consecutive_of (concat (map (\<lambda>g. [0, g]) gains)) True = 1"
    using assms(2) run [of gs 1] by (simp add: max_consecutive_of_def)
qed

text \<open>
  Two bars give one return, whose standard deviation is not a number, and neither is the Sharpe ratio or the volatility.
\<close>

lemma one_return_no_sharpe:
  assumes "np_std N [r] = NaN"
  shows "sharpe_ratio_of N pm [r] = NaN \<and> volatility_of N pm [r] = NaN"
  using assms by (simp add: sharpe_ratio_of_def volatility_of_def over_deviation_def)

text \<open>
  A run that ends below zero has a complex annualized return, and the report fails if the curve was never above zero, where
  the drawdown is zero.
\<close>

lemma negative_equity_is_complex:
  assumes "0 < pm_initial_cash pm" "1 < n" "0 < fdiv (of_nat n) (of_int (pm_trading_days pm))"
    and "m_pow N (fdiv v (pm_initial_cash pm)) (fdiv 1 (fdiv (of_nat n) (of_int (pm_trading_days pm)))) = None"
  shows "annualized_return_of N pm v n = None \<and> calmar_ratio_of None 0 = Inl ComplexCompared"
  using assms by (simp add: annualized_return_of_def Let_def calmar_ratio_of_def)

text \<open>
  The two durations differ: on a plateau the report counts from its last bar and the episodes from the first, and an open
  drawdown lasts to the end of the data in the report and to the trough in the episodes.
\<close>

lemma durations_differ:
  "max_drawdown_duration_of [5, 5, 4, 5] = 2" "max_drawdown_duration [5, 5, 4, 5] = 3"
  "max_drawdown_duration_of [10, 8, 9] = 3" "max_drawdown_duration [10, 8, 9] = 1"
  by (simp_all add: max_drawdown_duration_of_def dur_step_def max_drawdown_duration_def drawdown_episodes_def dd_step_def
      de_duration_def Let_def)

section \<open>Witnesses\<close>

lemma walk_forward_does_not_leak_witness:
  "list_all2 (split_ok 10 4 2 ROLLING) (map (\<lambda>k. int k * 3) [0..<length
      [\<lparr>train_indices = [0..3], test_indices = [4..5]\<rparr>, \<lparr>train_indices = [3..6], test_indices = [7..8]\<rparr>]])
      [\<lparr>train_indices = [0..3], test_indices = [4..5]\<rparr>, \<lparr>train_indices = [3..6], test_indices = [7..8]\<rparr>]
    \<and> 10 < int (length [\<lparr>train_indices = [0..3], test_indices = [4..5]\<rparr>, \<lparr>train_indices = [3..6], test_indices = [7..8]\<rparr>])
        * 3 + 4 + 2
    \<and> list_all (\<lambda>w. train_indices w \<noteq> [] \<and> test_indices w = [last (train_indices w) + 1..last (train_indices w) + 2]
         \<and> list_all (\<lambda>i. 0 \<le> i \<and> i < 10) (train_indices w @ test_indices w))
       [\<lparr>train_indices = [0..3], test_indices = [4..5]\<rparr>, \<lparr>train_indices = [3..6], test_indices = [7..8]\<rparr>]"
  by (rule walk_forward_does_not_leak)
    (simp add: walk_forward_splits_def walk_loop.simps [of 10 4 2 3 ROLLING] Let_def)

end
