(* ===== verification/Analytics.thy ===== *)
theory Analytics
  imports Performance "HOL-Library.Product_Lexorder"
begin

text \<open>
  Analytics over fills, returns and portfolios: \<open>core/tca.py\<close>, \<open>portfolio_concentration.py\<close>, \<open>portfolio_aggregator.py\<close>,
  \<open>time_metrics.py\<close>, \<open>metrics_extras.py\<close>, \<open>rolling_metrics.py\<close>, \<open>benchmark_comparison.py\<close>,
  \<open>rolling_benchmark.py\<close> and \<open>rolling_correlation.py\<close>.

  Floats and the functions of \<open>math\<close> are those of \<open>Performance\<close>.  A mapping is an association list with distinct
  keys in its order; a frozen set is a list of which only the elements matter.
\<close>

section \<open>Grouping\<close>

text \<open>\<open>groups[key(x)].append(x)\<close> for a \<open>defaultdict(list)\<close>, in order.\<close>

definition group_add :: "('a \<Rightarrow> string) \<Rightarrow> (string, 'a list) dict \<Rightarrow> 'a \<Rightarrow> (string, 'a list) dict" where
  "group_add key d x = AList.update (key x) ((case map_of d (key x) of None \<Rightarrow> [] | Some xs \<Rightarrow> xs) @ [x]) d"

definition group_by :: "('a \<Rightarrow> string) \<Rightarrow> 'a list \<Rightarrow> (string, 'a list) dict" where
  "group_by key xs = foldl (group_add key) [] xs"

section \<open>Transaction costs\<close>

datatype TcaSide = TCA_BUY | TCA_SELL

record TcaFill =
  fi_symbol :: string
  fi_side :: TcaSide
  fi_quantity :: int
  fi_fill_price :: rat
  fi_decision_price :: rat
  fi_arrival_price :: rat
  fi_fees :: rat
  fi_broker :: string

datatype fill_error = NotFinite string flt | QuantityNotPositive int | FillPriceNotPositive rat
  | ReferencePriceNotPositive | FeesNegative rat

definition new_fill ::
  "string \<Rightarrow> TcaSide \<Rightarrow> int \<Rightarrow> flt \<Rightarrow> flt \<Rightarrow> flt \<Rightarrow> flt \<Rightarrow> string \<Rightarrow> fill_error + TcaFill" where
  "new_fill symbol side quantity fill_price decision_price arrival_price fees broker =
     (case fill_price of Fin f \<Rightarrow>
       (case decision_price of Fin d \<Rightarrow>
         (case arrival_price of Fin a \<Rightarrow>
           (case fees of Fin c \<Rightarrow>
              if quantity \<le> 0 then Inl (QuantityNotPositive quantity)
              else if f \<le> 0 then Inl (FillPriceNotPositive f)
              else if d \<le> 0 \<or> a \<le> 0 then Inl ReferencePriceNotPositive
              else if c < 0 then Inl (FeesNegative c)
              else Inr \<lparr>fi_symbol = symbol, fi_side = side, fi_quantity = quantity, fi_fill_price = f,
                        fi_decision_price = d, fi_arrival_price = a, fi_fees = c, fi_broker = broker\<rparr>
            | x \<Rightarrow> Inl (NotFinite ''fees'' x))
          | x \<Rightarrow> Inl (NotFinite ''arrival_price'' x))
        | x \<Rightarrow> Inl (NotFinite ''decision_price'' x))
      | x \<Rightarrow> Inl (NotFinite ''fill_price'' x))"

record FillMetrics =
  fm_implementation_shortfall :: rat
  fm_slippage_vs_arrival :: rat
  fm_fees :: rat
  fm_notional :: rat
  fm_implementation_shortfall_bps :: rat
  fm_slippage_vs_arrival_bps :: rat

definition signed_cost :: "TcaSide \<Rightarrow> rat \<Rightarrow> rat \<Rightarrow> rat" where
  "signed_cost side fill_price ref_price =
     (if side = TCA_BUY then fsub fill_price ref_price else fsub ref_price fill_price)"

definition in_bps :: "rat \<Rightarrow> rat \<Rightarrow> rat" where
  "in_bps x notional = (if 0 < notional then fmul (fdiv x notional) 10000 else 0)"

definition fill_metrics :: "TcaFill \<Rightarrow> FillMetrics" where
  "fill_metrics f =
     (let notional = fmul (fint (fi_quantity f)) (fi_fill_price f);
          is_per_share = signed_cost (fi_side f) (fi_fill_price f) (fi_decision_price f);
          slip_per_share = signed_cost (fi_side f) (fi_fill_price f) (fi_arrival_price f);
          is_total = fadd (fmul is_per_share (fint (fi_quantity f))) (fi_fees f);
          slip_total = fmul slip_per_share (fint (fi_quantity f)) in
      \<lparr>fm_implementation_shortfall = is_total, fm_slippage_vs_arrival = slip_total, fm_fees = fi_fees f,
       fm_notional = notional, fm_implementation_shortfall_bps = in_bps is_total notional,
       fm_slippage_vs_arrival_bps = in_bps slip_total notional\<rparr>)"

text \<open>A report without its roll-ups, and the report, whose roll-ups have none of their own.\<close>

record TCATotals =
  tc_implementation_shortfall :: rat
  tc_slippage_vs_arrival :: rat
  tc_fees :: rat
  tc_notional :: rat
  tc_fill_count :: nat
  tc_weighted_is_bps :: rat
  tc_weighted_slippage_bps :: rat

record TCAReport =
  ta_totals :: TCATotals
  ta_by_broker :: "(string, TCATotals) dict"
  ta_by_symbol :: "(string, TCATotals) dict"

definition empty_totals :: TCATotals where
  "empty_totals = \<lparr>tc_implementation_shortfall = 0, tc_slippage_vs_arrival = 0, tc_fees = 0, tc_notional = 0,
     tc_fill_count = 0, tc_weighted_is_bps = 0, tc_weighted_slippage_bps = 0\<rparr>"

definition aggregate_no_rollups :: "TcaFill list \<Rightarrow> TCATotals" where
  "aggregate_no_rollups fills =
     (if fills = [] then empty_totals
      else let ms = map fill_metrics fills;
               is_total = fsum (map fm_implementation_shortfall ms);
               slip_total = fsum (map fm_slippage_vs_arrival ms);
               notional_total = fsum (map fm_notional ms) in
        \<lparr>tc_implementation_shortfall = is_total, tc_slippage_vs_arrival = slip_total,
         tc_fees = fsum (map fm_fees ms), tc_notional = notional_total, tc_fill_count = length fills,
         tc_weighted_is_bps = in_bps is_total notional_total,
         tc_weighted_slippage_bps = in_bps slip_total notional_total\<rparr>)"

definition aggregate_tca :: "TcaFill list \<Rightarrow> TCAReport" where
  "aggregate_tca fills =
     (if fills = [] then \<lparr>ta_totals = empty_totals, ta_by_broker = [], ta_by_symbol = []\<rparr>
      else \<lparr>ta_totals = aggregate_no_rollups fills,
            ta_by_broker = map (\<lambda>(k, g). (k, aggregate_no_rollups g)) (group_by fi_broker fills),
            ta_by_symbol = map (\<lambda>(k, g). (k, aggregate_no_rollups g)) (group_by fi_symbol fills)\<rparr>)"

section \<open>Concentration\<close>

definition normalise :: "(string, rat) dict \<Rightarrow> (string, rat) dict" where
  "normalise weights =
     (let positive = filter (\<lambda>(k, w). 0 < w) weights; s = fsum (map snd positive) in
      if s \<le> 0 then [] else map (\<lambda>(k, w). (k, fdiv w s)) positive)"

definition hhi :: "(string, rat) dict \<Rightarrow> rat" where
  "hhi weights = (let norm = normalise weights in if norm = [] then 0 else fsum (map (\<lambda>(k, w). fmul w w) norm))"

definition effective_n :: "(string, rat) dict \<Rightarrow> rat" where
  "effective_n weights = (let h = hhi weights in if 0 < h then fdiv 1 h else 0)"

definition top_n_share :: "(string, rat) dict \<Rightarrow> int \<Rightarrow> rat" where
  "top_n_share weights n =
     (if n \<le> 0 then 0
      else let norm = normalise weights in
        if norm = [] then 0 else fsum (take (nat n) (rev (sort (map snd norm)))))"

definition gini_coefficient :: "(string, rat) dict \<Rightarrow> rat" where
  "gini_coefficient weights =
     (let norm = normalise weights; n = length norm in
      if n = 0 \<or> n = 1 then 0
      else let sorted_w = sort (map snd norm);
               cumulative = fsum (map (\<lambda>(i, w). fmul (fint (int i + 1)) w) (zip [0..<n] sorted_w));
               s = fsum sorted_w in
        if s = 0 then 0
        else fsub (fdiv (fmul 2 cumulative) (fmul (fint (int n)) s)) (fdiv (of_nat (n + 1)) (of_nat n)))"

record VarianceParts =
  vp_total :: rat
  vp_systematic :: rat
  vp_idiosyncratic :: rat
  vp_beta :: rat
  vp_r_squared :: rat

definition zero_variance :: VarianceParts where
  "zero_variance = \<lparr>vp_total = 0, vp_systematic = 0, vp_idiosyncratic = 0, vp_beta = 0, vp_r_squared = 0\<rparr>"

text \<open>Sums of products and of squares of the deviations from two means.\<close>

definition co_sum :: "rat list \<Rightarrow> rat list \<Rightarrow> rat" where
  "co_sum xs ys = (let mx = fmean xs; my = fmean ys in
     fsum (map (\<lambda>(x, y). fmul (fsub x mx) (fsub y my)) (zip xs ys)))"

definition square_sum :: "numeric \<Rightarrow> rat list \<Rightarrow> rat" where
  "square_sum N xs = (let m = fmean xs in fsum (map (\<lambda>x. m_square N (fsub x m)) xs))"

definition variance_decomposition :: "numeric \<Rightarrow> rat list \<Rightarrow> rat list \<Rightarrow> VarianceParts" where
  "variance_decomposition N ps bs =
     (let n = fint (int (length ps)) in
      if length ps \<noteq> length bs \<or> length ps < 2 then zero_variance
      else let cov = fdiv (co_sum ps bs) n; var_b = fdiv (square_sum N bs) n; var_p = fdiv (square_sum N ps) n in
        if var_b = 0 \<or> var_p = 0 then zero_variance
        else let b = fdiv cov var_b; systematic = fmul (fmul b b) var_b in
          \<lparr>vp_total = var_p, vp_systematic = systematic, vp_idiosyncratic = max (fsub var_p systematic) 0,
           vp_beta = b, vp_r_squared = (if 0 < var_p then fdiv systematic var_p else 0)\<rparr>)"

section \<open>Benchmarks\<close>

text \<open>\<open>1e-20\<close> as a float.\<close>

definition TINY_VARIANCE :: rat where
  "TINY_VARIANCE = f64 (1 / 10 ^ 20)"

definition beta_window :: "numeric \<Rightarrow> rat list \<Rightarrow> rat list \<Rightarrow> rat" where
  "beta_window N ps bs =
     (let n = fint (int (length ps)) in
      if length ps < 2 then 0
      else let cov = fdiv (co_sum ps bs) n; var_b = fdiv (square_sum N bs) n in
        if var_b < TINY_VARIANCE then 0 else fdiv cov var_b)"

definition beta :: "numeric \<Rightarrow> rat list \<Rightarrow> rat list \<Rightarrow> perf_error + rat" where
  "beta N ps bs =
     (if length ps \<noteq> length bs then Inl (LengthMismatch (length ps) (length bs)) else Inr (beta_window N ps bs))"

definition jensen_alpha :: "numeric \<Rightarrow> rat list \<Rightarrow> rat list \<Rightarrow> rat \<Rightarrow> int \<Rightarrow> perf_error + rat" where
  "jensen_alpha N ps bs risk_free_rate factor =
     (if factor \<le> 0 then Inl (PeriodsNotPositive factor)
      else if length ps \<noteq> length bs then Inl (LengthMismatch (length ps) (length bs))
      else if length ps < 2 then Inr 0
      else let rf = fdiv risk_free_rate (fint factor); b = beta_window N ps bs in
        Inr (fmul (fsub (fsub (fmean ps) rf) (fmul b (fsub (fmean bs) rf))) (fint factor)))"

definition compounded_return :: "rat list \<Rightarrow> rat" where
  "compounded_return rs = fsub (foldl (\<lambda>p r. fmul p (fadd 1 r)) 1 rs) 1"

definition capture_of :: "(rat \<Rightarrow> bool) \<Rightarrow> rat list \<Rightarrow> rat list \<Rightarrow> perf_error + rat" where
  "capture_of c ps bs =
     (if length ps \<noteq> length bs then Inl (LengthMismatch (length ps) (length bs))
      else let pairs = filter (\<lambda>(p, b). c b) (zip ps bs) in
        if pairs = [] then Inr 0
        else let bc = compounded_return (map snd pairs) in
          Inr (if bc = 0 then 0 else fdiv (compounded_return (map fst pairs)) bc))"

definition up_capture_ratio :: "rat list \<Rightarrow> rat list \<Rightarrow> perf_error + rat" where
  "up_capture_ratio = capture_of (\<lambda>b. 0 < b)"

definition down_capture_ratio :: "rat list \<Rightarrow> rat list \<Rightarrow> perf_error + rat" where
  "down_capture_ratio = capture_of (\<lambda>b. b < 0)"

definition capture_ratio :: "rat list \<Rightarrow> rat list \<Rightarrow> perf_error + rat" where
  "capture_ratio ps bs =
     (case up_capture_ratio ps bs of
        Inl e \<Rightarrow> Inl e
      | Inr up \<Rightarrow>
          (case down_capture_ratio ps bs of
             Inl e \<Rightarrow> Inl e
           | Inr down \<Rightarrow> Inr (if down = 0 then 0 else fdiv up down)))"

definition pearson :: "numeric \<Rightarrow> rat list \<Rightarrow> rat list \<Rightarrow> rat" where
  "pearson N xs ys =
     (if length xs \<noteq> length ys \<or> length xs < 2 then 0
      else let dx = m_sqrt N (square_sum N xs); dy = m_sqrt N (square_sum N ys) in
        if dx = 0 \<or> dy = 0 then 0 else fdiv (co_sum xs ys) (fmul dx dy))"

definition correlation :: "numeric \<Rightarrow> rat list \<Rightarrow> rat list \<Rightarrow> perf_error + rat" where
  "correlation N ps bs =
     (if length ps \<noteq> length bs then Inl (LengthMismatch (length ps) (length bs)) else Inr (pearson N ps bs))"

section \<open>Rolling metrics\<close>

definition stdev :: "numeric \<Rightarrow> rat list \<Rightarrow> rat" where
  "stdev N xs = (if length xs \<le> 1 then 0 else m_sqrt N (fdiv (square_sum N xs) (fint (int (length xs) - 1))))"

text \<open>\<open>rolling_volatility\<close>, \<open>rolling_sharpe\<close> and \<open>rolling_sortino\<close> check the window before the factor.\<close>

definition rolling_annual ::
  "('a list \<Rightarrow> 'b option) \<Rightarrow> 'a list \<Rightarrow> int \<Rightarrow> int \<Rightarrow> perf_error + 'b option list" where
  "rolling_annual f xs window factor =
     (if window < 2 then Inl (WindowBelowTwo window)
      else if factor \<le> 0 then Inl (PeriodsNotPositive factor)
      else rolling f xs window)"

definition rolling_volatility :: "numeric \<Rightarrow> rat list \<Rightarrow> int \<Rightarrow> int \<Rightarrow> perf_error + rat option list" where
  "rolling_volatility N xs window factor =
     rolling_annual (\<lambda>ys. Some (fmul (stdev N ys) (m_sqrt N (fint factor)))) xs window factor"

definition rolling_sharpe :: "numeric \<Rightarrow> rat list \<Rightarrow> int \<Rightarrow> rat \<Rightarrow> int \<Rightarrow> perf_error + rat option list" where
  "rolling_sharpe N xs window risk_free_rate factor =
     rolling_annual (\<lambda>ys. let rf = fdiv risk_free_rate (fint factor); mean = fdiv (fsum ys) (fint window);
                              sd = stdev N ys in
        Some (if sd = 0 then 0 else fmul (fdiv (fsub mean rf) sd) (m_sqrt N (fint factor)))) xs window factor"

definition rolling_sortino :: "numeric \<Rightarrow> rat list \<Rightarrow> int \<Rightarrow> rat \<Rightarrow> int \<Rightarrow> perf_error + rat option list" where
  "rolling_sortino N xs window risk_free_rate factor =
     rolling_annual (\<lambda>ys. let rf = fdiv risk_free_rate (fint factor); mean = fdiv (fsum ys) (fint window);
          dev = m_sqrt N (fdiv (fsum (map (\<lambda>r. m_square N (min (fsub r rf) 0)) ys)) (fint window)) in
        Some (if dev = 0 then 0 else fmul (fdiv (fsub mean rf) dev) (m_sqrt N (fint factor)))) xs window factor"

text \<open>The windows of two series of one length.\<close>

definition rolling_pair ::
  "(rat list \<Rightarrow> rat list \<Rightarrow> 'b option) \<Rightarrow> rat list \<Rightarrow> rat list \<Rightarrow> int \<Rightarrow> perf_error + 'b option list" where
  "rolling_pair f ps bs window =
     (if window < 2 then Inl (WindowBelowTwo window)
      else if length ps \<noteq> length bs then Inl (LengthMismatch (length ps) (length bs))
      else rolling (\<lambda>w. f (map fst w) (map snd w)) (zip ps bs) window)"

definition rolling_pair_annual ::
  "(rat list \<Rightarrow> rat list \<Rightarrow> 'b option) \<Rightarrow> rat list \<Rightarrow> rat list \<Rightarrow> int \<Rightarrow> int \<Rightarrow> perf_error + 'b option list" where
  "rolling_pair_annual f ps bs window factor =
     (if window < 2 then Inl (WindowBelowTwo window)
      else if factor \<le> 0 then Inl (PeriodsNotPositive factor)
      else rolling_pair f ps bs window)"

definition rolling_beta :: "numeric \<Rightarrow> rat list \<Rightarrow> rat list \<Rightarrow> int \<Rightarrow> perf_error + rat option list" where
  "rolling_beta N = rolling_pair (\<lambda>ps bs. Some (beta_window N ps bs))"

definition rolling_alpha ::
  "numeric \<Rightarrow> rat list \<Rightarrow> rat list \<Rightarrow> int \<Rightarrow> rat \<Rightarrow> int \<Rightarrow> perf_error + rat option list" where
  "rolling_alpha N ps bs window risk_free_rate factor =
     rolling_pair_annual (\<lambda>port bench. let rf = fdiv risk_free_rate (fint factor); b = beta_window N port bench;
          excess_p = fsub (fdiv (fsum port) (fint window)) rf; excess_b = fsub (fdiv (fsum bench) (fint window)) rf in
        Some (fmul (fsub excess_p (fmul b excess_b)) (fint factor))) ps bs window factor"

definition rolling_tracking_error ::
  "numeric \<Rightarrow> rat list \<Rightarrow> rat list \<Rightarrow> int \<Rightarrow> int \<Rightarrow> perf_error + rat option list" where
  "rolling_tracking_error N ps bs window factor =
     rolling_pair_annual (\<lambda>port bench. Some (fmul (stdev N (map (\<lambda>(p, b). fsub p b) (zip port bench)))
        (m_sqrt N (fint factor)))) ps bs window factor"

definition rolling_information_ratio ::
  "numeric \<Rightarrow> rat list \<Rightarrow> rat list \<Rightarrow> int \<Rightarrow> int \<Rightarrow> perf_error + rat option list" where
  "rolling_information_ratio N ps bs window factor =
     rolling_pair_annual (\<lambda>port bench. let active = map (\<lambda>(p, b). fsub p b) (zip port bench); sd = stdev N active in
        Some (if sd = 0 then 0 else fmul (fdiv (fdiv (fsum active) (fint window)) sd) (m_sqrt N (fint factor))))
       ps bs window factor"

definition rolling_correlation :: "numeric \<Rightarrow> rat list \<Rightarrow> rat list \<Rightarrow> int \<Rightarrow> perf_error + rat option list" where
  "rolling_correlation N = rolling_pair (\<lambda>xs ys. Some (pearson N xs ys))"

section \<open>Portfolios\<close>

record PortfolioView =
  pv_portfolio_id :: string
  pv_nav :: rat
  pv_tags :: "string list"
  pv_positions :: "(string, rat) dict"

definition combined_nav :: "PortfolioView list \<Rightarrow> rat" where
  "combined_nav ps = fsum (map pv_nav ps)"

definition same_lengths :: "'a list list \<Rightarrow> bool" where
  "same_lengths xss = (case xss of [] \<Rightarrow> True | xs # yss \<Rightarrow> list_all (\<lambda>ys. length ys = length xs) yss)"

text \<open>\<open>None\<close> is the error for curves of different lengths.\<close>

definition combined_equity_curve :: "rat list list \<Rightarrow> rat list option" where
  "combined_equity_curve curves =
     (if curves = [] then Some []
      else if \<not> same_lengths curves then None
      else Some (map (\<lambda>i. fsum (map (\<lambda>c. c ! i) curves)) [0..<length (hd curves)]))"

definition correlation_entry :: "numeric \<Rightarrow> (string \<times> rat list) list \<Rightarrow> nat \<Rightarrow> nat \<Rightarrow> rat" where
  "correlation_entry N series i j =
     (let xs = snd (series ! i); ys = snd (series ! j) in
      if i = j then (if 2 \<le> length xs \<and> 1 < length (remdups xs) then 1 else 0)
      else if j < i then pearson N ys xs
      else pearson N xs ys)"

definition correlation_matrix ::
  "numeric \<Rightarrow> (string, rat list) dict \<Rightarrow> (string, (string, rat) dict) dict option" where
  "correlation_matrix N series =
     (if series = [] then Some []
      else if \<not> same_lengths (map snd series) then None
      else Some (map (\<lambda>i. (fst (series ! i),
             map (\<lambda>j. (fst (series ! j), correlation_entry N series i j)) [0..<length series])) [0..<length series]))"

definition hold :: "string \<Rightarrow> (string, (string, rat) dict) dict \<Rightarrow> string \<times> rat \<Rightarrow> (string, (string, rat) dict) dict" where
  "hold pid d sq = AList.update (fst sq)
     (AList.update pid (snd sq) (case map_of d (fst sq) of None \<Rightarrow> [] | Some h \<Rightarrow> h)) d"

definition position_overlap :: "PortfolioView list \<Rightarrow> (string, (string, rat) dict) dict" where
  "position_overlap ps =
     filter (\<lambda>(sym, holders). 2 \<le> length holders)
       (foldl (\<lambda>d p. foldl (hold (pv_portfolio_id p)) d (pv_positions p)) [] ps)"

definition expose :: "(string, string) dict \<Rightarrow> string \<Rightarrow> (string, rat) dict \<Rightarrow> string \<times> rat \<Rightarrow> (string, rat) dict" where
  "expose classifier default_bucket d sq =
     (let bucket = (case map_of classifier (fst sq) of None \<Rightarrow> default_bucket | Some b \<Rightarrow> b) in
      AList.update bucket (fadd (case map_of d bucket of None \<Rightarrow> 0 | Some x \<Rightarrow> x) (snd sq)) d)"

definition aggregate_exposure :: "PortfolioView list \<Rightarrow> (string, string) dict \<Rightarrow> string \<Rightarrow> (string, rat) dict" where
  "aggregate_exposure ps classifier default_bucket =
     foldl (\<lambda>d p. foldl (expose classifier default_bucket) d (pv_positions p)) [] ps"

text \<open>\<open>None\<close> is the error for another mode.\<close>

definition filter_by_tags :: "PortfolioView list \<Rightarrow> string list \<Rightarrow> string \<Rightarrow> PortfolioView list option" where
  "filter_by_tags ps tags mode =
     (let meets = (\<lambda>p. list_ex (\<lambda>t. t \<in> set tags) (pv_tags p)) in
      if tags = [] then Some ps
      else if mode = ''any'' then Some (filter meets ps)
      else if mode = ''all'' then Some (filter (\<lambda>p. set tags \<subseteq> set (pv_tags p)) ps)
      else if mode = ''none'' then Some (filter (\<lambda>p. \<not> meets p) ps)
      else None)"

section \<open>Calendar periods\<close>

type_synonym ymd = "int \<times> int \<times> int"

definition compute_best_period :: "rat list \<Rightarrow> rat" where
  "compute_best_period rs = (if rs = [] then 0 else py_max rs)"

definition compute_worst_period :: "rat list \<Rightarrow> rat" where
  "compute_worst_period rs = (if rs = [] then 0 else py_min rs)"

definition compute_positive_period_pct :: "rat list \<Rightarrow> rat" where
  "compute_positive_period_pct rs = (if rs = [] then 0 else share_of (\<lambda>r. 0 < r) rs)"

definition compute_negative_period_pct :: "rat list \<Rightarrow> rat" where
  "compute_negative_period_pct rs = (if rs = [] then 0 else share_of (\<lambda>r. r < 0) rs)"

definition compound :: "('k \<times> rat) list \<Rightarrow> ('k, rat) dict \<Rightarrow> ('k, rat) dict" where
  "compound krs d =
     foldl (\<lambda>d (k, r). AList.update k (fmul (case map_of d k of None \<Rightarrow> 1 | Some x \<Rightarrow> x) (fadd 1 r)) d) d krs"

definition period_returns :: "(ymd \<Rightarrow> 'k) \<Rightarrow> (ymd \<times> rat) list \<Rightarrow> ('k \<times> rat) list" where
  "period_returns key dated =
     map (\<lambda>(k, p). (k, fsub p 1)) (compound (map (\<lambda>(d, r). (key d, r)) (sort_key fst dated)) [])"

text \<open>The strings \<open>YYYY-MM\<close> and \<open>YYYY-Www\<close> are the pairs they print; the ISO week of a date is an argument.\<close>

definition aggregate_returns_by_month :: "(ymd \<times> rat) list \<Rightarrow> ((int \<times> int) \<times> rat) list" where
  "aggregate_returns_by_month = period_returns (\<lambda>(y, m, d). (y, m))"

definition aggregate_returns_by_week :: "(ymd \<Rightarrow> int \<times> int) \<Rightarrow> (ymd \<times> rat) list \<Rightarrow> ((int \<times> int) \<times> rat) list" where
  "aggregate_returns_by_week iso_week = period_returns iso_week"

section \<open>Further ratios\<close>

definition compute_omega_ratio :: "rat list \<Rightarrow> rat \<Rightarrow> flt" where
  "compute_omega_ratio rs threshold =
     (if rs = [] then Fin 0
      else let deltas = map (\<lambda>r. fsub r threshold) rs;
               upside = fsum (filter (\<lambda>d. 0 < d) deltas);
               downside = fsum (map uminus (filter (\<lambda>d. \<not> 0 < d) deltas)) in
        if downside = 0 then (if 0 < upside then PosInf else Fin 0) else Fin (fdiv upside downside))"

definition compute_information_ratio :: "numeric \<Rightarrow> rat list \<Rightarrow> rat list \<Rightarrow> rat" where
  "compute_information_ratio N rs bs =
     (let active = map (\<lambda>(r, b). fsub r b) (zip rs bs); n = length rs in
      if n \<noteq> length bs \<or> n < 2 then 0
      else let var = fdiv (square_sum N active) (fint (int n - 1)) in
        if var = 0 then 0 else fdiv (fmean active) (m_sqrt N var))"

definition compute_gain_to_pain_ratio :: "rat list \<Rightarrow> flt" where
  "compute_gain_to_pain_ratio rs =
     (if rs = [] then Fin 0
      else let s = fsum rs; pain = fsum (map uminus (filter (\<lambda>r. r < 0) rs)) in
        if pain = 0 then (if 0 < s then PosInf else Fin 0) else Fin (fdiv s pain))"

fun ulcer_from :: "rat \<Rightarrow> rat \<Rightarrow> rat list \<Rightarrow> rat" where
  "ulcer_from peak sq_sum [] = sq_sum"
| "ulcer_from peak sq_sum (v # vs) =
     (let peak = max peak v in
      if peak \<le> 0 then ulcer_from peak sq_sum vs
      else let dd = fmul (fdiv (fsub peak v) peak) 100 in ulcer_from peak (fadd sq_sum (fmul dd dd)) vs)"

definition compute_ulcer_index :: "numeric \<Rightarrow> rat list \<Rightarrow> rat" where
  "compute_ulcer_index N curve =
     (if curve = [] then 0 else m_sqrt N (fdiv (ulcer_from (hd curve) 0 curve) (fint (int (length curve)))))"

definition compute_pain_index :: "rat list \<Rightarrow> rat" where
  "compute_pain_index curve = (if curve = [] then 0 else fmul (fmean (map abs curve)) 100)"

definition compute_recovery_factor :: "rat \<Rightarrow> rat \<Rightarrow> rat" where
  "compute_recovery_factor total_return max_dd = (if max_dd \<le> 0 then 0 else fdiv total_return max_dd)"

definition compute_payoff_ratio :: "rat list \<Rightarrow> flt" where
  "compute_payoff_ratio pnls =
     (let winners = filter (\<lambda>p. 0 < p) pnls; losers = filter (\<lambda>p. p < 0) pnls in
      if winners = [] then Fin 0
      else if losers = [] then PosInf
      else let avg_loss = \<bar>fmean losers\<bar> in if avg_loss = 0 then PosInf else Fin (fdiv (fmean winners) avg_loss))"

definition compute_expectancy_dollars :: "rat list \<Rightarrow> rat" where
  "compute_expectancy_dollars pnls = (if pnls = [] then 0 else fmean pnls)"

definition compute_expectancy_r_multiple :: "rat list \<Rightarrow> rat \<Rightarrow> rat" where
  "compute_expectancy_r_multiple pnls avg_risk =
     (if pnls = [] \<or> avg_risk \<le> 0 then 0 else fdiv (compute_expectancy_dollars pnls) avg_risk)"

definition compute_kelly_criterion :: "rat list \<Rightarrow> rat" where
  "compute_kelly_criterion pnls =
     (let winners = filter (\<lambda>p. 0 < p) pnls; losers = filter (\<lambda>p. p < 0) pnls in
      if winners = [] \<or> losers = [] then 0
      else let win_rate = share_of (\<lambda>p. 0 < p) pnls; loss_rate = share_of (\<lambda>p. p < 0) pnls;
               avg_loss = \<bar>fmean losers\<bar> in
        if avg_loss = 0 then 0
        else let payoff = fdiv (fmean winners) avg_loss in
          if payoff = 0 then 0 else fsub win_rate (fdiv loss_rate payoff))"

definition compute_treynor_ratio :: "rat \<Rightarrow> rat \<Rightarrow> rat \<Rightarrow> rat" where
  "compute_treynor_ratio portfolio_return risk_free_rate b =
     (if b = 0 then 0 else fdiv (fsub portfolio_return risk_free_rate) b)"

definition compute_mar_ratio :: "rat \<Rightarrow> rat \<Rightarrow> rat" where
  "compute_mar_ratio cagr max_dd = (if max_dd \<le> 0 then 0 else fdiv cagr max_dd)"

definition compute_sterling_ratio :: "rat \<Rightarrow> rat \<Rightarrow> rat \<Rightarrow> rat" where
  "compute_sterling_ratio cagr avg_dd dd_floor =
     (let denom = fsub avg_dd dd_floor in if denom \<le> 0 then 0 else fdiv cagr denom)"

definition compute_k_ratio :: "numeric \<Rightarrow> rat list \<Rightarrow> rat" where
  "compute_k_ratio N curve =
     (let n = length curve; xs = map (\<lambda>i. of_nat i) [0..<n]; ys = map (m_log N) curve;
          x_mean = fdiv (of_nat (sum_list [0..<n])) (of_nat n) ; y_mean = fmean ys;
          sxy = fsum (map (\<lambda>(x, y). fmul (fsub x x_mean) (fsub y y_mean)) (zip xs ys));
          sxx = fsum (map (\<lambda>x. m_square N (fsub x x_mean)) xs) in
      if n < 2 \<or> list_ex (\<lambda>v. v \<le> 0) curve \<or> sxx = 0 then 0
      else let slope = fdiv sxy sxx; intercept = fsub y_mean (fmul slope x_mean);
               residuals = map (\<lambda>(x, y). fsub y (fadd intercept (fmul slope x))) (zip xs ys);
               sse = fsum (map (\<lambda>r. fmul r r) residuals) in
        if n \<le> 2 then 0
        else let se = fdiv (m_sqrt N (fdiv sse (fint (int n - 2)))) (m_sqrt N sxx) in
          if se = 0 then 0 else fmul (fdiv slope se) (m_sqrt N (fint (int n))))"

section \<open>Folding into a dictionary\<close>

text \<open>
  A loop that updates the entry of each element's key holds, under each key, the fold over the elements with that key.
\<close>

definition keyed_fold :: "('a \<Rightarrow> 'k) \<Rightarrow> ('v option \<Rightarrow> 'a \<Rightarrow> 'v) \<Rightarrow> ('k, 'v) dict \<Rightarrow> 'a list \<Rightarrow> ('k, 'v) dict" where
  "keyed_fold key g d0 xs = foldl (\<lambda>d x. AList.update (key x) (g (map_of d (key x)) x) d) d0 xs"

lemma keyed_fold_simps [simp]:
  "keyed_fold key g d [] = d"
  "keyed_fold key g d (x # xs) = keyed_fold key g (AList.update (key x) (g (map_of d (key x)) x) d) xs"
  by (simp_all add: keyed_fold_def)

lemma map_of_keyed_fold:
  "map_of (keyed_fold key g d0 xs) k = foldl (\<lambda>v x. Some (g v x)) (map_of d0 k) (filter (\<lambda>x. key x = k) xs)"
  by (induction xs arbitrary: d0) auto

lemma dict_ok_keyed_fold: "dict_ok d0 \<Longrightarrow> dict_ok (keyed_fold key g d0 xs)"
  by (induction xs arbitrary: d0) (auto intro: dict_ok_update)

lemma keys_keyed_fold:
  "map fst (keyed_fold key g d0 xs) = foldl (\<lambda>ks x. if key x \<in> set ks then ks else ks @ [key x]) (map fst d0) xs"
proof (induction xs arbitrary: d0)
  case (Cons x xs)
  have "map fst (AList.update (key x) v d0) = (if key x \<in> set (map fst d0) then map fst d0 else map fst d0 @ [key x])" for v
    by (induction d0) auto
  then show ?case using Cons.IH by simp
qed simp

lemma foldl_nested: "foldl (\<lambda>d p. foldl f d (h p)) d ps = foldl f d (concat (map h ps))"
  by (induction ps arbitrary: d) simp_all

lemma fold_append_Some:
  "foldl (\<lambda>v x. Some ((case v of None \<Rightarrow> [] | Some ys \<Rightarrow> ys) @ [x])) v xs
    = (if xs = [] then v else Some ((case v of None \<Rightarrow> [] | Some ys \<Rightarrow> ys) @ xs))"
  by (induction xs arbitrary: v) auto

lemma group_by_fold: "group_by key xs = keyed_fold key (\<lambda>v x. (case v of None \<Rightarrow> [] | Some ys \<Rightarrow> ys) @ [x]) [] xs"
proof -
  have "group_add key = (\<lambda>d x. AList.update (key x) ((case map_of d (key x) of None \<Rightarrow> [] | Some ys \<Rightarrow> ys) @ [x]) d)"
    by (intro ext) (rule group_add_def)
  then show ?thesis by (simp only: group_by_def keyed_fold_def)
qed

lemma map_of_group_by:
  "map_of (group_by key xs) k = (if k \<in> key ` set xs then Some (filter (\<lambda>x. key x = k) xs) else None)"
proof -
  have "map_of (group_by key xs) k
      = (if filter (\<lambda>x. key x = k) xs = [] then None else Some (filter (\<lambda>x. key x = k) xs))"
    by (simp only: group_by_fold map_of_keyed_fold fold_append_Some map_of.simps option.case append_Nil)
  then show ?thesis by (auto simp: filter_empty_conv)
qed

lemma dict_ok_group_by: "dict_ok (group_by key xs)"
  unfolding group_by_fold by (rule dict_ok_keyed_fold) simp

lemma sum_update:
  "sum_list (map (\<lambda>(k, g). length g) (AList.update k (gs @ [x]) d))
      + (case map_of d k of None \<Rightarrow> 0 | Some ys \<Rightarrow> length ys)
    = sum_list (map (\<lambda>(k, g). length g) d) + length gs + 1"
  by (induction d) auto

lemma group_by_lengths: "sum_list (map (\<lambda>(k, g). length g) (group_by key xs)) = length xs"
proof -
  have "sum_list (map (\<lambda>(k, g). length g) (foldl (group_add key) d xs))
      = sum_list (map (\<lambda>(k, g). length g) d) + length xs" for d
  proof (induction xs arbitrary: d)
    case (Cons x xs)
    have "sum_list (map (\<lambda>(k, g). length g) (group_add key d x)) = sum_list (map (\<lambda>(k, g). length g) d) + 1"
      using sum_update [of "key x" "case map_of d (key x) of None \<Rightarrow> [] | Some ys \<Rightarrow> ys" x d]
      by (simp add: group_add_def split: option.splits)
    then show ?case using Cons.IH by simp
  qed simp
  then show ?thesis by (simp add: group_by_def)
qed

section \<open>Properties\<close>

lemma map_of_map_values: "map_of (map (\<lambda>(k, g). (k, f g)) d) k = map_option f (map_of d k)"
  by (induction d) auto

lemma totals_count: "tc_fill_count (aggregate_no_rollups fills) = length fills"
  by (simp add: aggregate_no_rollups_def empty_totals_def Let_def)

lemma rollup_of:
  "map_of (map (\<lambda>(k, g). (k, aggregate_no_rollups g)) (group_by key fills)) k
    = (if k \<in> key ` set fills then Some (aggregate_no_rollups (filter (\<lambda>f. key f = k) fills)) else None)"
  by (simp add: map_of_map_values map_of_group_by)

lemma rollup_counts:
  "sum_list (map (tc_fill_count \<circ> snd) (map (\<lambda>(k, g). (k, aggregate_no_rollups g)) (group_by key fills))) = length fills"
proof -
  have "map (tc_fill_count \<circ> snd) (map (\<lambda>(k, g). (k, aggregate_no_rollups g)) d) = map (\<lambda>(k, g). length g) d" for d
    by (simp add: totals_count split_beta)
  from this [of "group_by key fills"] show ?thesis by (simp only: group_by_lengths)
qed

lemma rollup_keys: "dict_ok (map (\<lambda>(k, g). (k, aggregate_no_rollups g)) (group_by key fills))"
  using dict_ok_group_by [of key fills] by (simp add: comp_def split_beta)

text \<open>
  C40.  The cost report partitions the fills: the roll-up of a broker is the report of exactly the fills through it, in their
  order, and likewise for symbols; no other broker or symbol has an entry, and the counts of either roll-up add up
  to all fills.\<close>

theorem tca_rollups_partition:
  "(\<forall>b. map_of (ta_by_broker (aggregate_tca fills)) b
        = (if b \<in> fi_broker ` set fills then Some (aggregate_no_rollups (filter (\<lambda>f. fi_broker f = b) fills)) else None))
    \<and> (\<forall>s. map_of (ta_by_symbol (aggregate_tca fills)) s
        = (if s \<in> fi_symbol ` set fills then Some (aggregate_no_rollups (filter (\<lambda>f. fi_symbol f = s) fills)) else None))
    \<and> dict_ok (ta_by_broker (aggregate_tca fills)) \<and> dict_ok (ta_by_symbol (aggregate_tca fills))
    \<and> sum_list (map (tc_fill_count \<circ> snd) (ta_by_broker (aggregate_tca fills))) = tc_fill_count (ta_totals (aggregate_tca fills))
    \<and> sum_list (map (tc_fill_count \<circ> snd) (ta_by_symbol (aggregate_tca fills))) = tc_fill_count (ta_totals (aggregate_tca fills))"
proof (cases "fills = []")
  case True
  then show ?thesis by (simp add: aggregate_tca_def empty_totals_def)
next
  case False
  then have r: "ta_by_broker (aggregate_tca fills) = map (\<lambda>(k, g). (k, aggregate_no_rollups g)) (group_by fi_broker fills)"
    "ta_by_symbol (aggregate_tca fills) = map (\<lambda>(k, g). (k, aggregate_no_rollups g)) (group_by fi_symbol fills)"
    "ta_totals (aggregate_tca fills) = aggregate_no_rollups fills" by (simp_all add: aggregate_tca_def)
  show ?thesis unfolding r totals_count by (intro conjI allI rollup_of rollup_counts rollup_keys)
qed

text \<open>The exposure of a bucket is the sum of its quantities in order.\<close>

definition bucket_of :: "(string, string) dict \<Rightarrow> string \<Rightarrow> string \<Rightarrow> string" where
  "bucket_of classifier default_bucket symbol = (case map_of classifier symbol of None \<Rightarrow> default_bucket | Some b \<Rightarrow> b)"

lemma fold_fadd_Some:
  "foldl (\<lambda>v x. Some (fadd (case v of None \<Rightarrow> 0 | Some y \<Rightarrow> y) (q x))) v xs
    = (if xs = [] then v else Some (foldl fadd (case v of None \<Rightarrow> 0 | Some y \<Rightarrow> y) (map q xs)))"
  by (induction xs arbitrary: v) auto

theorem exposure_by_bucket:
  "map_of (aggregate_exposure ps classifier default_bucket) b =
    (let held = filter (\<lambda>x. bucket_of classifier default_bucket (fst x) = b) (concat (map pv_positions ps)) in
     if held = [] then None else Some (fsum (map snd held)))
   \<and> dict_ok (aggregate_exposure ps classifier default_bucket)"
proof -
  have "expose classifier default_bucket = (\<lambda>d x. AList.update (bucket_of classifier default_bucket (fst x))
      (fadd (case map_of d (bucket_of classifier default_bucket (fst x)) of None \<Rightarrow> 0 | Some y \<Rightarrow> y) (snd x)) d)"
    by (intro ext) (simp only: expose_def bucket_of_def Let_def)
  then have f: "aggregate_exposure ps classifier default_bucket
      = keyed_fold (\<lambda>x. bucket_of classifier default_bucket (fst x))
          (\<lambda>v x. fadd (case v of None \<Rightarrow> 0 | Some y \<Rightarrow> y) (snd x)) [] (concat (map pv_positions ps))"
    by (simp only: aggregate_exposure_def foldl_nested keyed_fold_def)
  have "map_of (aggregate_exposure ps classifier default_bucket) b =
      (let held = filter (\<lambda>x. bucket_of classifier default_bucket (fst x) = b) (concat (map pv_positions ps)) in
       if held = [] then None else Some (fsum (map snd held)))"
    by (simp only: f map_of_keyed_fold fold_fadd_Some map_of.simps option.case fsum_def Let_def)
  moreover have "dict_ok (aggregate_exposure ps classifier default_bucket)" unfolding f by (rule dict_ok_keyed_fold) simp
  ultimately show ?thesis by (rule conjI)
qed

lemma correlation_symmetric: "correlation_entry N series i j = correlation_entry N series j i"
  by (auto simp: correlation_entry_def Let_def)

text \<open>Months come in calendar order, each once, with the returns of its days compounded in order.\<close>

lemma sorted_first_seen:
  assumes "sorted_wrt (<) ks" "sorted (map key xs)" "\<forall>k\<in>set ks. \<forall>x\<in>set xs. k \<le> key x"
  shows "sorted_wrt (<) (foldl (\<lambda>ks x. if key x \<in> set ks then ks else ks @ [key x]) ks xs)"
  using assms
proof (induction xs arbitrary: ks)
  case (Cons x xs)
  let ?ks = "if key x \<in> set ks then ks else ks @ [key x]"
  have "sorted_wrt (<) ?ks" using Cons.prems(1,3) by (auto simp: sorted_wrt_append) (metis order_le_neq_trans)
  moreover have "\<forall>k\<in>set ?ks. \<forall>y\<in>set xs. k \<le> key y" using Cons.prems by auto
  ultimately show ?case using Cons.IH [of ?ks] Cons.prems(2) by simp
qed simp

theorem months_in_order:
  "sorted_wrt (<) (map fst (aggregate_returns_by_month dated))
   \<and> map_of (aggregate_returns_by_month dated) (y, m) =
      (let rs = map snd (filter (\<lambda>x. (fst (fst x), fst (snd (fst x))) = (y, m)) (sort_key fst dated)) in
       if rs = [] then None else Some (compounded_return rs))"
proof -
  let ?s = "sort_key fst dated" and ?key = "\<lambda>x :: ymd \<times> rat. (fst (fst x), fst (snd (fst x)))"
  let ?g = "\<lambda>v x :: ymd \<times> rat. fmul (case v of None \<Rightarrow> 1 | Some p \<Rightarrow> p) (fadd 1 (snd x))"
  let ?d = "keyed_fold ?key ?g [] ?s"
  have "compound (map (\<lambda>(d, r). (case d of (y, m, _) \<Rightarrow> (y, m), r)) xs) d = keyed_fold ?key ?g d xs" for xs d
    unfolding compound_def by (induction xs arbitrary: d) (simp_all add: split_beta)
  then have a: "aggregate_returns_by_month dated = map (\<lambda>(k, p). (k, fsub p 1)) ?d"
    by (simp add: aggregate_returns_by_month_def period_returns_def split_beta)
  have "sorted_wrt (\<lambda>x y. fst x \<le> fst y) ?s" using sorted_sort_key [of fst dated] by (simp add: sorted_map)
  then have "sorted_wrt (\<lambda>x y. ?key x \<le> ?key y) ?s"
    by (rule sorted_wrt_mono_rel [rotated]) (auto simp: less_eq_prod_def)
  then have srt: "sorted (map ?key ?s)" by (simp add: sorted_map)
  have "sorted_wrt (<) (map fst ?d)"
    unfolding keys_keyed_fold by (rule sorted_first_seen) (simp_all only: srt list.map sorted_wrt.simps list.set ball_empty)
  then have order: "sorted_wrt (<) (map fst (aggregate_returns_by_month dated))" by (simp add: a comp_def split_beta)
  have fold: "foldl (\<lambda>v x. Some (?g v x)) v xs
      = (if xs = [] then v else Some (foldl (\<lambda>p r. fmul p (fadd 1 r)) (case v of None \<Rightarrow> 1 | Some p \<Rightarrow> p) (map snd xs)))" for v xs
    by (induction xs arbitrary: v) auto
  have "map_of ?d (y, m) = (if filter (\<lambda>x. ?key x = (y, m)) ?s = [] then None
      else Some (foldl (\<lambda>p r. fmul p (fadd 1 r)) 1 (map snd (filter (\<lambda>x. ?key x = (y, m)) ?s))))"
    by (simp only: map_of_keyed_fold fold map_of.simps option.case)
  then have "map_of (aggregate_returns_by_month dated) (y, m) =
      (let rs = map snd (filter (\<lambda>x. ?key x = (y, m)) ?s) in if rs = [] then None else Some (compounded_return rs))"
    unfolding a map_of_map_values by (simp add: Let_def compounded_return_def)
  with order show ?thesis by (rule conjI)
qed

section \<open>Rolling and full-period values\<close>

text \<open>
  The private copies in the rolling modules agree with the full-period functions: over a window as long as the series, the
  last value is the full-period one.
\<close>

lemma rolling_last:
  assumes "2 \<le> length xs"
  shows "\<exists>out. rolling f xs (int (length xs)) = Inr out \<and> last out = f xs \<and> length out = length xs"
proof -
  have "[0..<length xs] = [0..<length xs - 1] @ [length xs - 1]"
    using assms by (metis Suc_diff_1 le_trans not_less_eq_eq numeral_2_eq_2 upt_Suc_append zero_le less_le_trans zero_less_Suc)
  moreover have "Suc (length xs - Suc 0) = length xs" using assms by simp
  ultimately show ?thesis using assms by (simp add: rolling_def Let_def last_map)
qed

lemma rolling_beta_full:
  assumes "2 \<le> length ps" "length ps = length bs"
  shows "\<exists>out b. rolling_beta N ps bs (int (length ps)) = Inr out \<and> beta N ps bs = Inr b \<and> last out = Some b"
proof -
  have "2 \<le> length (zip ps bs)" using assms by simp
  from rolling_last [OF this, of "\<lambda>w. Some (beta_window N (map fst w) (map snd w))"]
  show ?thesis using assms by (auto simp: rolling_beta_def rolling_pair_def beta_def)
qed

lemma rolling_correlation_full:
  assumes "2 \<le> length xs" "length xs = length ys"
  shows "\<exists>out c. rolling_correlation N xs ys (int (length xs)) = Inr out \<and> correlation N xs ys = Inr c \<and> last out = Some c"
proof -
  have "2 \<le> length (zip xs ys)" using assms by simp
  from rolling_last [OF this, of "\<lambda>w. Some (pearson N (map fst w) (map snd w))"]
  show ?thesis using assms by (auto simp: rolling_correlation_def rolling_pair_def correlation_def)
qed

section \<open>Concentration\<close>

theorem normalised_shares:
  assumes "list_all (\<lambda>(k, w). f64 w = w) weights"
  shows "list_all (\<lambda>(k, x). 0 \<le> x \<and> x \<le> 1) (normalise weights)"
proof -
  let ?pos = "filter (\<lambda>(k, w). 0 < w) weights"
  have "w \<le> fsum (map snd ?pos)" if "(k, w) \<in> set ?pos" for k w
    using assms that by (intro fsum_ge_member) (auto simp: list_all_iff intro: less_imp_le rev_image_eqI)
  then have "0 \<le> fdiv w (fsum (map snd ?pos)) \<and> fdiv w (fsum (map snd ?pos)) \<le> 1"
    if "(k, w) \<in> set ?pos" "0 < fsum (map snd ?pos)" for k w
    using that by (auto simp: fdiv_def intro!: f64.nonneg f64.below)
  then show ?thesis by (auto simp: normalise_def Let_def list_all_iff)
qed

end
