(* ===== verification/Spec2Isabelle.thy ===== *)
theory Spec2Isabelle
  imports LiveLoop OrderManager Versioning EventBus RiskLimits CapitalAllocation WashSale Streaming Execution AuditLog Lifecycle Aggregator RateLimit Calendar PaperTrade CorpActions MultiPortfolio Rebalancer TaxReports Sandbox Optimizer Analytics
begin

text \<open>
  A verification library for the trading core of the Nexus trade engine (\<open>src/engine\<close>, Python).

  \<^bold>\<open>The program.\<close>  Strategies emit signals.  In a back test or a simulation the order manager turns a
  signal into an order: it sizes and validates it against the portfolio, costs it, asks the risk
  engine, executes it on a backend and books the fill into the portfolio's tax lots.  Live, an
  operator's order goes through the live loop: the pre-flight risk gate (which asks the kill
  switch), the broker adapter, and the events the broker sends back, which drive the state machine
  of the order.  Around this core stand the event bus, the registry and the lifecycle of strategy
  versions, the aggregation of several strategies, capital allocation, pre-trade limits, the
  wash-sale detector, the streaming buffers, the audit log and the rate limiter of the API.

  \<^bold>\<open>Theories and sources.\<close>
  \<^item> \<open>Rounding\<close>: Python's \<open>float\<close> (binary64, round half to even) and \<open>Decimal\<close> (28 digits, \<open>quantize\<close>) as
    rationals with one rounding per operation; a locale of roundings with the monotonicity and
    exactness laws, interpreted for both.
  \<^item> \<open>Prelude\<close>: strings (\<open>strip\<close>, \<open>lower\<close>), dictionaries as association lists in insertion order, stable
    sorting, times in microseconds, metrics.
  \<^item> \<open>Oms\<close>: \<open>core/oms/states.py\<close>, \<open>events.py\<close>, \<open>order.py\<close>, \<open>persistence.py\<close>.  \<open>KillSwitch\<close>: \<open>core/live/kill_switch.py\<close>.
    \<open>RiskGate\<close>: \<open>core/oms/risk.py\<close>.  \<open>Brokers\<close>: \<open>core/brokers/base.py\<close>, \<open>registry.py\<close>, \<open>paper.py\<close>.
    \<open>LiveLoop\<close>: \<open>core/live/loop.py\<close>, which composes these four.
  \<^item> \<open>CostModel\<close>: \<open>core/cost_model.py\<close>.  \<open>Portfolio\<close>: \<open>core/portfolio.py\<close>.  \<open>RiskEngine\<close>: \<open>core/risk_engine.py\<close>.
    \<open>OrderManager\<close>: \<open>core/order_manager.py\<close>, \<open>core/signal.py\<close>, \<open>core/execution/base.py\<close>, \<open>backtest.py\<close>, which
    composes these three.  \<open>Execution\<close>: \<open>core/execution/paper.py\<close>, \<open>live.py\<close>, \<open>factory.py\<close>.
    \<open>MarketData\<close>: \<open>data/market_state.py\<close>.  \<open>Runners\<close>: \<open>core/backtest_runner.py\<close>.  \<open>PaperTrade\<close>:
    \<open>paper_trade/runner.py\<close>.  Both run the order manager over market data.
  \<^item> \<open>Versioning\<close>: \<open>core/strategy_versioning.py\<close>.  \<open>Lifecycle\<close>: \<open>core/strategy_lifecycle.py\<close>.
    \<open>Aggregator\<close>: \<open>core/signal_aggregator.py\<close>.  \<open>EventBus\<close>: \<open>events/bus.py\<close>.  \<open>RiskLimits\<close>: \<open>core/risk_limits.py\<close>.
    \<open>CapitalAllocation\<close>: \<open>core/capital_allocation.py\<close>.  \<open>WashSale\<close>: \<open>core/tax/wash_sale.py\<close>.
    \<open>Streaming\<close>: \<open>data/streaming/ring_buffer.py\<close>, \<open>replay.py\<close>.
  \<^item> \<open>AuditLog\<close>: \<open>core/audit_log.py\<close>, \<open>observability/redact.py\<close>.  \<open>RateLimit\<close>: \<open>api/rate_limit.py\<close>.
    \<open>Calendar\<close>: \<open>core/market_calendar.py\<close>.  \<open>CorpActions\<close>: \<open>core/corp_actions.py\<close>.
  \<^item> \<open>MultiManager\<close>: \<open>strategies/multi_manager.py\<close>.  \<open>Orchestration\<close>: \<open>core/strategy_orchestrator.py\<close>,
    \<open>orchestration/orchestrator.py\<close>, \<open>portfolio/orchestrator.py\<close>.  \<open>MultiPortfolio\<close>: \<open>portfolio/multi_strategy.py\<close>.
    \<open>Rebalancer\<close>: \<open>portfolio/rebalancer.py\<close>, \<open>portfolio/allocation.py\<close>.
  \<^item> \<open>TaxReports\<close>: the computations of \<open>core/tax/reports\<close>.
  \<^item> \<open>PluginPolicy\<close>: \<open>plugins/allowlist.py\<close>, the decisions of \<open>plugins/restricted_importer.py\<close>,
    \<open>plugins/sandbox/ast_validator.py\<close>, \<open>plugins/sandbox/filesystem.py\<close>.  \<open>Sandbox\<close>: \<open>plugins/sandbox/__init__.py\<close> and the hooks of
    \<open>restricted_importer.py\<close> over the state of the process.
  \<^item> \<open>Optimizer\<close>: \<open>core/param_optimizer.py\<close> and \<open>core/optimization\<close>.
  \<^item> \<open>Performance\<close>: \<open>core/metrics.py\<close>, \<open>drawdown_analytics.py\<close>, \<open>trade_stats.py\<close>, \<open>excursion_stats.py\<close>,
    \<open>rolling_trade_stats.py\<close>, \<open>cumulative_returns.py\<close>, \<open>walk_forward.py\<close>.  \<open>Analytics\<close>: \<open>core/tca.py\<close>,
    \<open>portfolio_concentration.py\<close>, \<open>portfolio_aggregator.py\<close>, \<open>benchmark_comparison.py\<close>, \<open>time_metrics.py\<close>,
    \<open>metrics_extras.py\<close> and the rolling versions.

  \<^bold>\<open>How the code is read.\<close>  A class is a record of its fields, a method a function from the state to
  the result and the new state, an exception the left value of a sum with the state it leaves, an
  enumeration a datatype with its string values.  What the code reports to metrics, persisters and
  observers is a trace in the state or in the result.  Locks and the absence of suspension points
  make a method one step; where a method suspends between a read and a write, the two halves are
  separate definitions, except that \<open>ll_submit\<close> is one step with its await of the broker.  The event bus raises nothing but the
  three classes of exception that \<open>OrderManager\<close> catches, and the weights of signals are finite, as the signal class
  demands.  Clocks, uuids, random bits, hashes, JSON, sleeping observers, price feeds
  and broker clients are arguments.  Floats never overflow and are never NaN in the model, except
  where the code receives them from outside and checks them (\<open>RiskLimits\<close>, \<open>Aggregator\<close>, \<open>CorpActions\<close>) or fails to
  (\<open>Lifecycle\<close>, \<open>Optimizer\<close>, where a uniform draw can overflow).

  \<^bold>\<open>What is shown.\<close>
  \<^item> Orders: replayed events keep an order well-formed and on its transition table with the sum of its
    fills; the average price is the volume-weighted one; the gate gives the first objection.
  \<^item> Live trading: the registry of the loop stays consistent through every operation; while the switch
    is engaged no operation reaches the broker, and an authentication error engages it; an
    approved market order ends filled.
  \<^item> Runs: a back test does not look ahead (on a longer history it first does what it did on the shorter
    one), the books balance through whole back tests and paper sessions, whose statistics account
    for every signal once.
  \<^item> Books: every position is the sum of its tax lots through every operation of the portfolio and
    through every signal, with the back-test and the paper backend (the locale \<open>execution_backend\<close>,
    interpreted for both); sales are all or nothing and follow the tax method; the tax estimate
    is the tax of the lots sold; \<open>process_signal\<close> calls the backend exactly when every limit holds, and does not
    overfill (\<open>continue_order\<close> checks nothing again and can, which is a theorem too).
  \<^item> Limits: the breaker denies until it is reset, at most the allowed number of approvals falls in a
    window, an allocation adds up to the cent and never fails on valid input, a bucket grants at
    most its capacity plus the refill, and both bucket backends agree; a venue opens next when
    the calendar says.
  \<^item> Many strategies: the shares never exceed the capital, a strategy's weights never exceed its share but for
    roundings that are bounded, each is credited with its own answer only; every merge makes one
    decision per symbol and none that nobody asked for; the exposure of a symbol stays within the
    allocations behind it, counted once per trade; rebalancing orders bring every strategy within half a cent of its target.
  \<^item> Histories: one active version per strategy and exact rollback (the locale \<open>strategy_registry\<close>); no
    strategy goes live without its evidence; a back-adjusted price sees no later action; the audit chain verifies and cannot be changed
    without a hash collision (the locale \<open>audit_log\<close>); the replay log refines an unbounded history;
    the bounded buffer accounts for every item; handlers are called once each.
  \<^item> Tax years: on amounts in cents the totals are exact and never fail, and a loss is used, carried, expired or
    deducted once, in the order each law gives.
  \<^item> Plugins: the static validation finds every forbidden node and is at least as strict as the import hooks; an active
    sandbox confines imports, files, names, requests and \<open>getattr\<close>; used one at a time the sandboxes leave the
    process as it was.
  \<^item> Searches: every optimizer evaluates points of its space only (the locale \<open>point_source\<close>, interpreted for the
    three), also after the rounding of a uniform draw, when no dimension is wider than the largest float; the random and the genetic one
    never run dry (\<open>endless_source\<close>); both grids are the full product; the history holds what the objective said of each trial, and
    the first of those worth most is reported.
  \<^item> Reports: the drawdown episodes are exactly the stretches below the running maximum, streaks are longest runs, the
    report and the module functions agree on both; test windows follow their train windows; roll-ups
    partition the fills, and sums by bucket, broker or month are the sums of their members in order.
  \<^item> Failures of the code are theorems too: an order that is continued is filled beyond its quantity, a
    handler that subscribes again makes \<open>publish\<close> run for ever, two hosts with different
    monotonic clocks are never limited by a shared bucket, and others listed with the findings.

  \<^bold>\<open>Bounds and fuel.\<close>  \<open>EventBus\<close> runs handlers, which may publish again, with fuel; more fuel never changes
  an answer, calm handlers need only a bound given with the theorem, and the diverging case has
  no answer with any fuel.  \<open>optimize\<close> has fuel as well: one more than its budget of trials is enough.  \<open>continue_order\<close> and the sweeps recur on the code's own counters.
  Quantities up to \<open>2 ^ 53\<close> are exact floats, which the theorems about share counts assume; decimals
  are exact up to 28 digits.  The built-in \<open>sum\<close> of floats is the left-to-right one of Python 3.11, the least
  version the project supports.

  \<^bold>\<open>Not modelled.\<close>  HTTP and WebSocket routes, database models and migrations, authentication flows,
  the registries of plugins, market-data providers, the marketplace, legal and privacy services, the MCP
  server, background tasks, observability exporters, brokers over the network, some of the
  analytics (distributions of returns, Monte Carlo runs, portfolio optimisation and scores of strategies) and the CSV texts of the tax reports.  They are glue over external
  services, or numeric reports; the manifest gives the reason for each.  The regular expressions
  that scrub strings and the text of log lines are not modelled either.
\<close>

end
